(* ===== verification/DDB_Prelude.thy ===== *)
theory DDB_Prelude
  imports Main "HOL-Library.Word"
begin

text \<open>
  Shared vocabulary of the development: the machine types of the C++ code, the error codes of
  \<^verbatim>\<open>common/include/db_errno.h\<close>, the macros of \<^verbatim>\<open>common/include/macro_utils.h\<close>, the heap
  allocator and \<^verbatim>\<open>memcpy_s\<close>, and the generic lemmas about byte buffers on which the component
  theories rely.

  Lengths and counters are natural numbers; where the source computes in a fixed width and the
  value could leave it, the wrap-around is written out with \<open>wrap16\<close>, \<open>wrap32\<close>, \<open>wrap64\<close>.
  Fields that are laid out in memory are machine words.
\<close>

unbundle bit_operations_syntax

section \<open>Machine types\<close>

type_synonym byte = "8 word"
type_synonym u8 = "8 word"
type_synonym u16 = "16 word"
type_synonym u32 = "32 word"
type_synonym u64 = "64 word"

abbreviation (input) wrap16 :: "nat \<Rightarrow> nat" where "wrap16 n \<equiv> n mod 65536"
abbreviation (input) wrap32 :: "nat \<Rightarrow> nat" where "wrap32 n \<equiv> n mod 4294967296"
abbreviation (input) wrap64 :: "nat \<Rightarrow> nat" where "wrap64 n \<equiv> n mod 18446744073709551616"

text \<open>Unsigned subtraction in 32 and 64 bits; both operands are below the modulus.\<close>

definition sub32 :: "nat \<Rightarrow> nat \<Rightarrow> nat" where
  "sub32 a b = (a + (4294967296 - b mod 4294967296)) mod 4294967296"

definition sub64 :: "nat \<Rightarrow> nat \<Rightarrow> nat" where
  "sub64 a b = (a + (18446744073709551616 - b mod 18446744073709551616)) mod 18446744073709551616"

lemma sub32_exact [simp]: "b \<le> a \<Longrightarrow> a < 4294967296 \<Longrightarrow> sub32 a b = a - b"
  by (simp add: sub32_def mod_if)

lemma sub64_exact [simp]: "b \<le> a \<Longrightarrow> a < 18446744073709551616 \<Longrightarrow> sub64 a b = a - b"
  by (simp add: sub64_def mod_if)

text \<open>
  \<open>buf_simps\<close> collects the facts about what a buffer holds around a write.
\<close>

named_theorems buf_simps \<open>reading back what was written into a byte buffer\<close>

lemma unat_of_nat_eq: "n < 2 ^ LENGTH('a) \<Longrightarrow> unat (of_nat n :: 'a::len word) = n"
  by (simp add: unsigned_of_nat take_bit_nat_eq_self)

section \<open>Error codes\<close>

text \<open>
  The error codes the modelled functions return. The source returns the negated constants
  (\<^verbatim>\<open>-E_INVALID_ARGS\<close>); the sign carries no information and is dropped. \<open>ABORTED\<close> is not a
  code of the source: it stands for the C++ runtime ending the process (a call of an empty
  \<^verbatim>\<open>std::function\<close>, a division by zero).
\<close>

datatype errno =
    E_OK | E_NOT_SUPPORT | E_INVALID_DB | E_NOT_FOUND | E_BUSY | E_UNEXPECTED_DATA | E_STALE
  | E_INVALID_ARGS | E_SECUREC_ERROR | E_OUT_OF_MEMORY | E_NOT_PERMIT | E_ALREADY_REGISTER
  | E_ALREADY_ALLOC | E_CONTAINER_FULL | E_CONTAINER_EMPTY | E_CONTAINER_FULL_TO_NOTFULL
  | E_CONTAINER_NOTEMPTY_TO_EMPTY | E_WAIT_RETRY | E_PARSE_FAIL | E_TIMEOUT | E_SERIALIZE_ERROR
  | E_DESERIALIZE_ERROR | E_NOT_REGISTER | E_LENGTH_ERROR | E_PERIPHERAL_INTERFACE_FAIL
  | E_INTERNAL_ERROR | E_CONTAINER_ONLY_DELAY_TASK | E_SUM_CALCULATE_FAIL | E_SUM_MISMATCH
  | E_OUT_OF_DATE | E_OBJ_IS_KILLED | E_COMBINE_FAIL | E_NO_SYNC_TASK | E_VERSION_NOT_SUPPORT
  | E_FRAME_TYPE_NOT_SUPPORT | E_INVALID_TIME | E_IGNORE_DATA | E_FEEDBACK_UNKNOWN_MESSAGE
  | E_FEEDBACK_COMMUNICATOR_NOT_FOUND
  | E_MAX_LIMITS | E_INVALID_DATA | E_UNFINISHED | E_FINISHED
  | E_INVALID_QUERY_FORMAT | E_READ_ONLY | E_LOG_OVER_LIMITS | E_TRANSACT_STATE | E_NEED_ABILITY_SYNC
  | E_WAIT_NEXT_MESSAGE | E_EKEYREVOKED | E_NOT_INIT | E_MESSAGE_ID_ERROR
  | E_SYSTEM_API_FAIL | E_MESSAGE_TYPE_ERROR | E_INVALID_COMPRESS_ALGO | E_UPGRADE_FAILED | E_SCHEMA_PARSE_FAIL | ABORTED

text \<open>A fallible computation that produces a value: \<open>Inl\<close> is the error code returned.\<close>

type_synonym 'a res = "errno + 'a"

section \<open>Alignment\<close>

text \<open>
  \<^verbatim>\<open>BYTE_8_ALIGN(x)\<close> is \<^verbatim>\<open>(x + 7) & ~7\<close>; on a natural number that is rounding up to a multiple of
  eight. Call sites that compute it in 32 bits apply \<open>wrap32\<close> themselves.
\<close>

definition BYTE_8_ALIGN :: "nat \<Rightarrow> nat" where
  "BYTE_8_ALIGN x = (x + 7) div 8 * 8"

lemma BYTE_8_ALIGN_ge: "x \<le> BYTE_8_ALIGN x"
  unfolding BYTE_8_ALIGN_def by linarith

lemma BYTE_8_ALIGN_less: "BYTE_8_ALIGN x < x + 8"
  unfolding BYTE_8_ALIGN_def by linarith

lemma BYTE_8_ALIGN_mod [simp]: "BYTE_8_ALIGN x mod 8 = 0"
  by (simp add: BYTE_8_ALIGN_def)

lemma BYTE_8_ALIGN_dvd [simp]: "8 dvd BYTE_8_ALIGN x"
  by (simp add: BYTE_8_ALIGN_def)

lemma BYTE_8_ALIGN_aligned: "8 dvd x \<Longrightarrow> BYTE_8_ALIGN x = x"
  unfolding BYTE_8_ALIGN_def by presburger

lemma BYTE_8_ALIGN_mono: "x \<le> y \<Longrightarrow> BYTE_8_ALIGN x \<le> BYTE_8_ALIGN y"
  unfolding BYTE_8_ALIGN_def by (simp add: div_le_mono)

text \<open>The bit-level reading of the macro on a machine word agrees with the arithmetic one.\<close>

lemma BYTE_8_ALIGN_word:
  fixes x :: "'a::len word"
  assumes "3 \<le> LENGTH('a)" and "unat x + 7 < 2 ^ LENGTH('a)"
  shows "unat ((x + 7) AND NOT 7) = BYTE_8_ALIGN (unat x)"
proof -
  have seven: "unat (7 :: 'a word) = 7"
  proof -
    have "(8::nat) \<le> 2 ^ LENGTH('a)"
      using power_increasing [OF assms(1), of "2::nat"] by simp
    then show ?thesis by (simp add: unat_numeral take_bit_eq_mod)
  qed
  have "(7 :: 'a word) = mask 3" by (simp add: mask_eq_exp_minus_1)
  then have "(x + 7) AND NOT 7 = (x + 7) AND NOT (mask 3)" by simp
  also have "\<dots> = push_bit 3 (drop_bit 3 (x + 7))"
    by (rule bit_eqI) (auto simp: bit_simps)
  finally have "(x + 7) AND NOT 7 = push_bit 3 (drop_bit 3 (x + 7))" .
  moreover have "unat (x + 7) = unat x + 7"
    using assms(2) seven by (simp add: unat_word_ariths)
  moreover have "unat (push_bit 3 (drop_bit 3 y)) = unat y div 8 * 8" for y :: "'a word"
  proof -
    have "unat (push_bit 3 (drop_bit 3 y)) =
        take_bit LENGTH('a) (push_bit 3 (drop_bit 3 (take_bit LENGTH('a) (unat y))))"
      by (simp only: unsigned_push_bit_eq unsigned_drop_bit_eq)
    also have "\<dots> = take_bit LENGTH('a) (unat y div 8 * 8)"
      by (simp add: push_bit_eq_mult drop_bit_eq_div take_bit_nat_eq_self [OF unsigned_less])
    also have "\<dots> = unat y div 8 * 8"
      by (rule take_bit_nat_eq_self) (meson div_times_less_eq_dividend le_less_trans unsigned_less)
    finally show ?thesis .
  qed
  ultimately show ?thesis by (simp add: BYTE_8_ALIGN_def)
qed

section \<open>Byte buffers\<close>

text \<open>
  A memory region is the list of its bytes. \<open>poke off src dst\<close> overwrites \<open>length src\<close> bytes of
  \<open>dst\<close> from offset \<open>off\<close>; \<open>peek off n bs\<close> reads \<open>n\<close> bytes.
\<close>

definition poke :: "nat \<Rightarrow> 'a list \<Rightarrow> 'a list \<Rightarrow> 'a list" where
  "poke off src dst = take off dst @ src @ drop (off + length src) dst"

definition peek :: "nat \<Rightarrow> nat \<Rightarrow> 'a list \<Rightarrow> 'a list" where
  "peek off n bs = take n (drop off bs)"

lemma length_poke [simp]: "off + length src \<le> length dst \<Longrightarrow> length (poke off src dst) = length dst"
  by (simp add: poke_def)

lemma length_peek [simp]: "off + n \<le> length bs \<Longrightarrow> length (peek off n bs) = n"
  by (simp add: peek_def)

lemma peek_zero_all [simp]: "length bs = n \<Longrightarrow> peek 0 n bs = bs"
  by (simp add: peek_def)

lemma nth_poke:
  assumes "off + length src \<le> length dst" and "i < length dst"
  shows "poke off src dst ! i = (if off \<le> i \<and> i < off + length src then src ! (i - off) else dst ! i)"
  using assms by (auto simp: poke_def nth_append min_def not_less)

lemma nth_peek: "i < n \<Longrightarrow> off + n \<le> length bs \<Longrightarrow> peek off n bs ! i = bs ! (off + i)"
  by (simp add: peek_def)

lemma peek_poke_same [simp]:
  "off + length src \<le> length dst \<Longrightarrow> length src = n \<Longrightarrow> peek off n (poke off src dst) = src"
  by (simp add: peek_def poke_def)

lemma peek_poke_before:
  assumes "o1 + n \<le> off" and "off + length src \<le> length dst"
  shows "peek o1 n (poke off src dst) = peek o1 n dst"
  using assms by (simp add: list_eq_iff_nth_eq nth_peek nth_poke)

lemma peek_poke_after:
  assumes "off + length src \<le> o1" and "o1 + n \<le> length dst"
  shows "peek o1 n (poke off src dst) = peek o1 n dst"
  using assms by (simp add: list_eq_iff_nth_eq nth_peek nth_poke)

lemma drop_poke_before:
  assumes "off + length src \<le> k" and "off + length src \<le> length dst"
  shows "drop k (poke off src dst) = drop k dst"
proof -
  have "drop k (poke off src dst) = drop (k - off) (src @ drop (off + length src) dst)"
    using assms by (simp add: poke_def)
  also have "\<dots> = drop k dst" using assms by simp
  finally show ?thesis .
qed

lemma take_poke_after [buf_simps]:
  assumes "k \<le> off" and "off + length src \<le> length dst"
  shows "take k (poke off src dst) = take k dst"
  using assms by (simp add: poke_def min_def)

lemma drop_poke_at [buf_simps]: "off \<le> length dst \<Longrightarrow> drop off (poke off src dst) = src @ drop (off + length src) dst"
  by (simp add: poke_def)

lemma peek_append_drop: "off + n \<le> length bs \<Longrightarrow> drop off bs = peek off n bs @ drop (off + n) bs"
  by (metis add.commute append_take_drop_id drop_drop peek_def)

text \<open>
  \<^verbatim>\<open>memcpy_s(dest, destMax, src, count)\<close> of C11 Annex K: it refuses to write more than
  \<^verbatim>\<open>destMax\<close> bytes. Here \<open>dest\<close> is the region \<open>dst\<close> at offset \<open>off\<close>. This is its only refusal that is modelled: the
  callers pass pointers that are not null into regions that do not overlap, and its refusals for a \<^verbatim>\<open>destMax\<close> of zero or
  above the limit of the library are left out.
\<close>

definition memcpy_s :: "nat \<Rightarrow> nat \<Rightarrow> byte list \<Rightarrow> byte list \<Rightarrow> byte list option" where
  "memcpy_s off destMax src dst = (if length src \<le> destMax then Some (poke off src dst) else None)"

text \<open>
  \<^verbatim>\<open>new (std::nothrow)\<close>: the allocator may fail, and the bytes of a fresh array are not
  initialised. Both are a parameter of the model.
\<close>

record allocator =
  object_fails :: bool
  array_fails :: "nat \<Rightarrow> bool"
  array_junk :: "nat \<Rightarrow> byte"

definition new_array :: "allocator \<Rightarrow> nat \<Rightarrow> byte list option" where
  "new_array a n = (if array_fails a n then None else Some (map (array_junk a) [0..<n]))"

definition reliable :: "allocator \<Rightarrow> bool" where
  "reliable a \<longleftrightarrow> \<not> object_fails a \<and> (\<forall>n. \<not> array_fails a n)"

lemma new_array_length: "new_array a n = Some bs \<Longrightarrow> length bs = n"
  by (auto simp: new_array_def split: if_splits)

lemma new_array_reliable: "reliable a \<Longrightarrow> \<exists>bs. new_array a n = Some bs \<and> length bs = n"
  by (simp add: new_array_def reliable_def)

definition test_allocator :: allocator where
  "test_allocator = \<lparr>object_fails = False, array_fails = (\<lambda>_. False), array_junk = (\<lambda>_. 0xCD)\<rparr>"

lemma reliable_test_allocator [simp]: "reliable test_allocator"
  by (simp add: reliable_def test_allocator_def)

end
