(* ===== verification/Endian_Convert.thy ===== *)
theory Endian_Convert
  imports DDB_Prelude
begin

text \<open>
  \<^verbatim>\<open>common/include/endian_convert.h\<close>, \<^verbatim>\<open>common/src/hash.cpp\<close> and the in-memory representation of the
  fixed-width integers they work on. The byte order of the host is the parameter \<open>be\<close> (\<open>True\<close>: big
  endian), so every statement below holds for both kinds of host. The locale \<open>struct_codec\<close> is the
  interface of a plain-old-data type: how it is stored in memory and how it is loaded back; it is
  interpreted for the integer types here and for the frame headers in theory \<open>Frame_Header\<close>.
\<close>

section \<open>Integers in memory\<close>

text \<open>Little-endian bytes of a word, least significant first, and back.\<close>

primrec le_bytes :: "nat \<Rightarrow> 'a::len word \<Rightarrow> byte list" where
  "le_bytes 0 w = []"
| "le_bytes (Suc n) w = ucast w # le_bytes n (drop_bit 8 w)"

primrec from_le :: "byte list \<Rightarrow> 'a::len word" where
  "from_le [] = 0"
| "from_le (b # bs) = ucast b OR push_bit 8 (from_le bs)"

definition mem_store :: "bool \<Rightarrow> 'a::len word \<Rightarrow> byte list" where
  "mem_store be w = (if be then rev (le_bytes (LENGTH('a) div 8) w) else le_bytes (LENGTH('a) div 8) w)"

definition mem_load :: "bool \<Rightarrow> byte list \<Rightarrow> 'a::len word" where
  "mem_load be bs =
     (let raw = take (LENGTH('a) div 8) bs in from_le (if be then rev raw else raw))"

lemma le_bytes_numeral [simp]:
  "le_bytes (numeral k) w = ucast w # le_bytes (pred_numeral k) (drop_bit 8 w)"
  by (simp only: numeral_eq_Suc le_bytes.simps)

lemma length_le_bytes [simp]: "length (le_bytes n w) = n"
  by (induction n arbitrary: w) auto

lemma length_mem_store [simp]: "length (mem_store be (w :: 'a::len word)) = LENGTH('a) div 8"
  by (simp add: mem_store_def)

lemma from_le_le_bytes: "from_le (le_bytes n w) = take_bit (8 * n) w"
proof (induction n arbitrary: w)
  case (Suc n)
  have "from_le (le_bytes (Suc n) w) = ucast (ucast w :: byte) OR push_bit 8 (take_bit (8 * n) (drop_bit 8 w))"
    by (simp add: Suc.IH)
  also have "\<dots> = take_bit (8 * Suc n) w"
    by (rule bit_eqI) (auto simp: bit_simps not_less)
  finally show ?case .
qed simp

lemma bit_from_le:
  "bit (from_le bs :: 'a::len word) i \<longleftrightarrow>
     i < LENGTH('a) \<and> i div 8 < length bs \<and> bit (bs ! (i div 8)) (i mod 8)"
proof (induction bs arbitrary: i)
  case (Cons b bs)
  have "bit (from_le (b # bs) :: 'a word) i \<longleftrightarrow>
      i < LENGTH('a) \<and> (bit b i \<or> 8 \<le> i \<and> bit (from_le bs :: 'a word) (i - 8))"
    by (auto simp: bit_simps)
  moreover have "bit b i \<Longrightarrow> i < 8" using bit_imp_le_length [of b i] by simp
  ultimately show ?case
    by (cases "i < 8") (auto simp: Cons.IH nth_Cons' le_div_geq le_mod_geq)
qed simp

lemma le_bytes_nth: "i < n \<Longrightarrow> le_bytes n w ! i = ucast (drop_bit (8 * i) w)"
  by (induction n arbitrary: w i) (auto simp: nth_Cons' algebra_simps)

lemma le_bytes_from_le:
  assumes "length bs = n" and "8 * n \<le> LENGTH('a)"
  shows "le_bytes n (from_le bs :: 'a::len word) = bs"
proof (rule nth_equalityI)
  fix i assume "i < length (le_bytes n (from_le bs :: 'a word))"
  then have i: "i < n" by simp
  show "le_bytes n (from_le bs :: 'a word) ! i = bs ! i"
  proof (rule bit_eqI)
    fix j assume "possible_bit TYPE(byte) j"
    then have j: "j < 8" by simp
    have "8 * i + j < LENGTH('a)" using i j assms(2) by linarith
    moreover have "(8 * i + j) div 8 = i" and "(8 * i + j) mod 8 = j" using j by auto
    ultimately show "bit (le_bytes n (from_le bs :: 'a word) ! i) j = bit (bs ! i) j"
      using i j assms(1) by (simp add: le_bytes_nth bit_simps bit_from_le)
  qed
qed (simp add: assms)

text \<open>The types that occur have a whole number of bytes.\<close>

lemma mem_load_store:
  assumes "8 dvd LENGTH('a)"
  shows "mem_load be (mem_store be w @ rest) = (w :: 'a::len word)"
  using assms by (simp add: mem_load_def mem_store_def Let_def from_le_le_bytes)

lemma mem_store_load:
  assumes "8 dvd LENGTH('a)" and "length bs = LENGTH('a) div 8"
  shows "mem_store be (mem_load be bs :: 'a::len word) = bs"
  using assms by (simp add: mem_load_def mem_store_def Let_def le_bytes_from_le)

section \<open>Plain-old-data types\<close>

text \<open>
  What the protocol code needs of a type it copies between a struct and a byte region: a fixed
  size, and that storing and loading are inverse.
\<close>

locale struct_codec =
  fixes store :: "'s \<Rightarrow> byte list" and load :: "byte list \<Rightarrow> 's" and struct_size :: nat
    and wf :: "'s \<Rightarrow> bool"
  assumes store_length: "wf s \<Longrightarrow> length (store s) = struct_size"
    and load_store: "wf s \<Longrightarrow> load (store s @ rest) = s"
    and store_load: "length bs = struct_size \<Longrightarrow> store (load bs) = bs"
    and load_prefix: "struct_size \<le> length bs \<Longrightarrow> load (take struct_size bs) = load bs"
    and load_wf: "struct_size \<le> length bs \<Longrightarrow> wf (load bs)"
begin

lemma store_load_take: "struct_size \<le> length bs \<Longrightarrow> store (load bs) = take struct_size bs"
  using store_load [of "take struct_size bs"] load_prefix [of bs] by simp

text \<open>Reading back what was written at an offset, whatever surrounds it.\<close>

lemma load_at_poke:
  assumes "wf s" and "off + struct_size \<le> length buf"
  shows "load (drop off (poke off (store s) buf)) = s"
  using assms by (simp add: buf_simps store_length load_store)

lemma load_after_poke_before:
  assumes "o1 + length src \<le> off" and "o1 + length src \<le> length buf"
  shows "load (drop off (poke o1 src buf)) = load (drop off buf)"
  using assms by (simp add: drop_poke_before)

lemma load_peek:
  assumes "off + struct_size \<le> length buf"
  shows "load (peek off struct_size buf) = load (drop off buf)"
  using assms load_prefix [of "drop off buf"] by (simp add: peek_def)

lemma load_unaffected_by_later_poke:
  assumes "off + struct_size \<le> o1" and "o1 + length src \<le> length buf"
  shows "load (drop off (poke o1 src buf)) = load (drop off buf)"
proof -
  have "load (drop off (poke o1 src buf)) = load (peek off struct_size (poke o1 src buf))"
    using assms by (simp add: load_peek)
  also have "\<dots> = load (peek off struct_size buf)"
    using assms by (simp add: peek_poke_before)
  finally show ?thesis using assms by (simp add: load_peek)
qed

lemma store_inj: "wf s \<Longrightarrow> wf t \<Longrightarrow> store s = store t \<Longrightarrow> s = t"
  using load_store [of s "[]"] load_store [of t "[]"] by simp

lemma load_inj:
  assumes "length a = struct_size" and "length b = struct_size" and "load a = load b"
  shows "a = b"
  using assms store_load by metis

end

lemma mem_load_take: "mem_load be (take (LENGTH('a) div 8) bs) = (mem_load be bs :: 'a::len word)"
  by (simp add: mem_load_def)

lemma struct_codec_word:
  assumes "8 dvd LENGTH('a)"
  shows "struct_codec (mem_store be :: 'a::len word \<Rightarrow> byte list) (mem_load be) (LENGTH('a) div 8) (\<lambda>_. True)"
  using assms by unfold_locales (simp_all add: mem_load_store mem_store_load mem_load_take)

interpretation mem8: struct_codec "mem_store be :: u8 \<Rightarrow> byte list" "mem_load be" 1 "\<lambda>_. True" for be
  using struct_codec_word [where 'a = 8, of be] by simp

interpretation mem16: struct_codec "mem_store be :: u16 \<Rightarrow> byte list" "mem_load be" 2 "\<lambda>_. True" for be
  using struct_codec_word [where 'a = 16, of be] by simp

interpretation mem32: struct_codec "mem_store be :: u32 \<Rightarrow> byte list" "mem_load be" 4 "\<lambda>_. True" for be
  using struct_codec_word [where 'a = 32, of be] by simp

interpretation mem64: struct_codec "mem_store be :: u64 \<Rightarrow> byte list" "mem_load be" 8 "\<lambda>_. True" for be
  using struct_codec_word [where 'a = 64, of be] by simp

section \<open>Host and network order\<close>

definition IsBigEndian :: "bool \<Rightarrow> bool" where
  "IsBigEndian be = (hd (mem_store be (0x12345678 :: u32)) = 0x12)"

definition HostToNet :: "bool \<Rightarrow> 'a::len word \<Rightarrow> 'a word" where
  "HostToNet be from = (if IsBigEndian be then from else mem_load be (rev (mem_store be from)))"

definition NetToHost :: "bool \<Rightarrow> 'a::len word \<Rightarrow> 'a word" where
  "NetToHost be from = HostToNet be from"

lemma IsBigEndian_eq [simp]: "IsBigEndian be = be"
  by (cases be) (simp_all add: IsBigEndian_def mem_store_def)

lemma mem_store_HostToNet:
  assumes "8 dvd LENGTH('a)"
  shows "mem_store be (HostToNet be (w :: 'a::len word)) = mem_store True w"
  using assms by (cases be) (simp_all add: HostToNet_def mem_store_load, simp add: mem_store_def)

lemma HostToNet_involutive:
  assumes "8 dvd LENGTH('a)"
  shows "HostToNet be (HostToNet be (w :: 'a::len word)) = w"
proof (cases be)
  case False
  have "HostToNet False w = mem_load False (rev (mem_store False w))" by (simp add: HostToNet_def)
  then have "mem_store False (HostToNet False w) = rev (mem_store False w)"
    using assms by (simp add: mem_store_load)
  then have "HostToNet False (HostToNet False w) = mem_load False (mem_store False w)"
    by (simp add: HostToNet_def)
  then show ?thesis using False mem_load_store [OF assms, of False w "[]"] by simp
qed (simp add: HostToNet_def)

lemma NetToHost_HostToNet [simp]:
  "NetToHost be (HostToNet be (a :: u8)) = a"
  "NetToHost be (HostToNet be (b :: u16)) = b"
  "NetToHost be (HostToNet be (c :: u32)) = c"
  "NetToHost be (HostToNet be (d :: u64)) = d"
  by (simp_all add: NetToHost_def HostToNet_involutive)

lemma NetToHost_mem_load:
  assumes "8 dvd LENGTH('a)" and "LENGTH('a) div 8 \<le> length bs"
  shows "NetToHost be (mem_load be bs) = (mem_load True bs :: 'a::len word)"
proof -
  let ?p = "take (LENGTH('a) div 8) bs"
  have load: "mem_load be bs = (mem_load be ?p :: 'a word)" for be
    by (simp add: mem_load_def)
  have st: "mem_store be (mem_load be ?p :: 'a word) = ?p"
    using assms by (intro mem_store_load) auto
  show ?thesis
  proof (cases be)
    case False
    then have "NetToHost be (mem_load be bs :: 'a word) = mem_load False (rev ?p)"
      using st load [of False] by (simp add: NetToHost_def HostToNet_def)
    also have "\<dots> = mem_load True ?p" using assms by (simp add: mem_load_def)
    finally show ?thesis using load [of True] by simp
  qed (simp add: NetToHost_def HostToNet_def)
qed

section \<open>Hash\<close>

text \<open>
  \<^verbatim>\<open>Hash::HashFunc\<close>. \<^verbatim>\<open>input.at(idx)\<close> is a plain \<^verbatim>\<open>char\<close>, whose signedness is the platform's
  choice (\<open>sc\<close>); the addition converts it to the unsigned type of the accumulator.
\<close>

definition char_value :: "bool \<Rightarrow> char \<Rightarrow> 'a::len word" where
  "char_value sc c = (if sc then scast (of_char c :: byte) else ucast (of_char c :: byte))"

definition HashFunc :: "bool \<Rightarrow> string \<Rightarrow> u64" where
  "HashFunc sc input = fold (\<lambda>c hash. hash * 33 + char_value sc c) input 0"

definition Hash32Func :: "bool \<Rightarrow> string \<Rightarrow> u32" where
  "Hash32Func sc input =
     (fold (\<lambda>c hash.
        let hash = push_bit 4 hash + char_value sc c;
            x = hash AND 0xf0000000;
            hash = (if x \<noteq> 0 then hash XOR drop_bit 24 x else hash)
        in hash AND NOT x) input 0) AND 0x7fffffff"

lemma HashFunc_snoc: "HashFunc sc (s @ [c]) = HashFunc sc s * 33 + char_value sc c"
  by (simp add: HashFunc_def)

lemma HashFunc_Nil [simp]: "HashFunc sc [] = 0"
  by (simp add: HashFunc_def)

lemma Hash32Func_bound: "unat (Hash32Func sc input) < 2147483648"
proof -
  have "Hash32Func sc input \<le> 0x7fffffff"
    unfolding Hash32Func_def by (rule word_and_le1)
  then show ?thesis by (simp add: word_le_nat_alt)
qed

end
