(* ===== verification/Frame_Header.thy ===== *)
theory Frame_Header
  imports Endian_Convert
begin

text \<open>
  The headers of \<^verbatim>\<open>communicator/src/frame_header.h\<close>, their conversion between host and network
  order (\<^verbatim>\<open>header_converter.cpp\<close>), the frame type of \<^verbatim>\<open>communicator_type_define.h\<close> and its packing
  into the packet-type byte, and the \<^verbatim>\<open>ParseResult\<close> that the receiving side fills in. Each header
  is an instance of \<open>struct_codec\<close>.
\<close>

section \<open>Frame types and labels\<close>

type_synonym LabelType = "byte list"

datatype FrameType =
    EMPTY
  | APPLICATION_MESSAGE
  | COMMUNICATION_LABEL_EXCHANGE
  | COMMUNICATION_LABEL_EXCHANGE_ACK
  | INVALID_MAX_FRAME_TYPE

definition COMM_LABEL_LENGTH :: nat where "COMM_LABEL_LENGTH = 32"
definition MAX_TOTAL_LEN :: nat where "MAX_TOTAL_LEN = 104857600"

primrec FrameType_code :: "FrameType \<Rightarrow> u8" where
  "FrameType_code EMPTY = 0"
| "FrameType_code APPLICATION_MESSAGE = 1"
| "FrameType_code COMMUNICATION_LABEL_EXCHANGE = 2"
| "FrameType_code COMMUNICATION_LABEL_EXCHANGE_ACK = 3"
| "FrameType_code INVALID_MAX_FRAME_TYPE = 4"

definition SetFrameType :: "u8 \<Rightarrow> FrameType \<Rightarrow> u8" where
  "SetFrameType inPacketType inFrameType =
     (inPacketType AND 0x0F) OR push_bit 4 (FrameType_code inFrameType)"

definition GetFrameType :: "u8 \<Rightarrow> FrameType" where
  "GetFrameType inPacketType =
     (let frameType = drop_bit 4 (inPacketType AND 0xF0) in
      if frameType \<ge> FrameType_code INVALID_MAX_FRAME_TYPE then INVALID_MAX_FRAME_TYPE
      else if frameType = 0 then EMPTY
      else if frameType = 1 then APPLICATION_MESSAGE
      else if frameType = 2 then COMMUNICATION_LABEL_EXCHANGE
      else COMMUNICATION_LABEL_EXCHANGE_ACK)"

definition PACKET_TYPE_FRAGMENTED :: u8 where "PACKET_TYPE_FRAGMENTED = 1"
definition PACKET_TYPE_NOT_FRAGMENTED :: u8 where "PACKET_TYPE_NOT_FRAGMENTED = 0"

lemma GetFrameType_SetFrameType:
  "GetFrameType (SetFrameType pt t) = t"
proof -
  have "(SetFrameType pt t AND 0xF0) = push_bit 4 (FrameType_code t)"
  proof (rule bit_eqI)
    fix i assume "possible_bit TYPE(byte) i"
    then have "i \<in> {0,1,2,3,4,5,6,7}" by auto
    then show "bit (SetFrameType pt t AND 0xF0) i = bit (push_bit 4 (FrameType_code t)) i"
      by (cases t) (auto simp: SetFrameType_def bit_simps)
  qed
  then show ?thesis
    by (cases t) (simp_all add: GetFrameType_def word_le_nat_alt)
qed

text \<open>The fragment flag sits in bit 0, out of reach of the frame type.\<close>

lemma GetFrameType_fragmented:
  "GetFrameType (pt OR PACKET_TYPE_FRAGMENTED) = GetFrameType pt"
proof -
  have "(pt OR 1) AND 0xF0 = pt AND 0xF0"
  proof (rule bit_eqI)
    fix i assume "possible_bit TYPE(byte) i"
    then have "i \<in> {0,1,2,3,4,5,6,7}" by auto
    then show "bit ((pt OR 1) AND 0xF0) i = bit (pt AND 0xF0) i"
      by (auto simp: bit_simps)
  qed
  then show ?thesis by (simp add: GetFrameType_def PACKET_TYPE_FRAGMENTED_def)
qed

lemma SetFrameType_not_fragmented: "SetFrameType 0 t AND PACKET_TYPE_FRAGMENTED = 0"
  by (cases t) (simp_all add: SetFrameType_def PACKET_TYPE_FRAGMENTED_def)

lemma fragmented_flag_set: "(pt OR PACKET_TYPE_FRAGMENTED) AND PACKET_TYPE_FRAGMENTED \<noteq> 0"
proof -
  have "bit ((pt OR 1) AND (1 :: u8)) 0" by (simp add: bit_simps)
  then have "(pt OR 1) AND (1 :: u8) \<noteq> 0" by (metis bit_0_eq bot_apply bot_bool_def)
  then show ?thesis by (simp add: PACKET_TYPE_FRAGMENTED_def)
qed

section \<open>The headers\<close>

record CommPhyHeader =
  magic :: u16
  phyVersion :: u16
  packetLen :: u32
  checkSum :: u64
  sourceId :: u64
  frameId :: u32
  packetType :: u8
  paddingLen :: u8
  dbIntVer :: u16

record CommPhyOptHeader =
  frameLen :: u32
  fragCount :: u16
  fragNo :: u16

record CommDivergeHeader =
  divVersion :: u16
  reserved :: u16
  payLoadLen :: u32
  commLabel :: "byte list"

record MessageHeader =
  msgVersion :: u16
  messageType :: u16
  messageId :: u32
  sessionId :: u32
  sequenceId :: u32
  errorNo :: u32
  dataLen :: u32

abbreviation (input) sizeof_CommPhyHeader :: nat where "sizeof_CommPhyHeader \<equiv> 32"
abbreviation (input) sizeof_CommPhyOptHeader :: nat where "sizeof_CommPhyOptHeader \<equiv> 8"
abbreviation (input) sizeof_CommDivergeHeader :: nat where "sizeof_CommDivergeHeader \<equiv> 40"
abbreviation (input) sizeof_MessageHeader :: nat where "sizeof_MessageHeader \<equiv> 24"

text \<open>Memory layout: the fields in order; every field is naturally aligned, so there is no gap.\<close>

definition phy_store :: "bool \<Rightarrow> CommPhyHeader \<Rightarrow> byte list" where
  "phy_store be h = mem_store be (magic h) @ mem_store be (phyVersion h) @ mem_store be (packetLen h) @
     mem_store be (checkSum h) @ mem_store be (sourceId h) @ mem_store be (frameId h) @
     mem_store be (packetType h) @ mem_store be (paddingLen h) @ mem_store be (dbIntVer h)"

definition phy_load :: "bool \<Rightarrow> byte list \<Rightarrow> CommPhyHeader" where
  "phy_load be bs = \<lparr>magic = mem_load be bs, phyVersion = mem_load be (drop 2 bs),
     packetLen = mem_load be (drop 4 bs), checkSum = mem_load be (drop 8 bs),
     sourceId = mem_load be (drop 16 bs), frameId = mem_load be (drop 24 bs),
     packetType = mem_load be (drop 28 bs), paddingLen = mem_load be (drop 29 bs),
     dbIntVer = mem_load be (drop 30 bs)\<rparr>"

definition opt_store :: "bool \<Rightarrow> CommPhyOptHeader \<Rightarrow> byte list" where
  "opt_store be h = mem_store be (frameLen h) @ mem_store be (fragCount h) @ mem_store be (fragNo h)"

definition opt_load :: "bool \<Rightarrow> byte list \<Rightarrow> CommPhyOptHeader" where
  "opt_load be bs = \<lparr>frameLen = mem_load be bs, fragCount = mem_load be (drop 4 bs),
     fragNo = mem_load be (drop 6 bs)\<rparr>"

definition diverge_store :: "bool \<Rightarrow> CommDivergeHeader \<Rightarrow> byte list" where
  "diverge_store be h = mem_store be (divVersion h) @ mem_store be (reserved h) @
     mem_store be (payLoadLen h) @ commLabel h"

definition diverge_load :: "bool \<Rightarrow> byte list \<Rightarrow> CommDivergeHeader" where
  "diverge_load be bs = \<lparr>divVersion = mem_load be bs, reserved = mem_load be (drop 2 bs),
     payLoadLen = mem_load be (drop 4 bs), commLabel = take COMM_LABEL_LENGTH (drop 8 bs)\<rparr>"

definition diverge_wf :: "CommDivergeHeader \<Rightarrow> bool" where
  "diverge_wf h \<longleftrightarrow> length (commLabel h) = COMM_LABEL_LENGTH"

definition msg_store :: "bool \<Rightarrow> MessageHeader \<Rightarrow> byte list" where
  "msg_store be h = mem_store be (msgVersion h) @ mem_store be (messageType h) @
     mem_store be (messageId h) @ mem_store be (sessionId h) @ mem_store be (sequenceId h) @
     mem_store be (errorNo h) @ mem_store be (dataLen h)"

definition msg_load :: "bool \<Rightarrow> byte list \<Rightarrow> MessageHeader" where
  "msg_load be bs = \<lparr>msgVersion = mem_load be bs, messageType = mem_load be (drop 2 bs),
     messageId = mem_load be (drop 4 bs), sessionId = mem_load be (drop 8 bs),
     sequenceId = mem_load be (drop 12 bs), errorNo = mem_load be (drop 16 bs),
     dataLen = mem_load be (drop 20 bs)\<rparr>"

lemma take_drop_join: "m = k + n \<Longrightarrow> take n (drop k bs) @ drop m bs = drop k bs"
  by (metis add.commute append_take_drop_id drop_drop)

lemma take_drop_last: "length bs = k + n \<Longrightarrow> take n (drop k bs) = drop k bs"
  by simp

lemmas codec_simps = mem8.load_store mem16.load_store mem32.load_store mem64.load_store
  mem8.store_load_take mem16.store_load_take mem32.store_load_take mem64.store_load_take

lemma mem_load_take_le: "LENGTH('a) div 8 \<le> n \<Longrightarrow> mem_load be (take n bs) = (mem_load be bs :: 'a::len word)"
  by (simp add: mem_load_def min_def)

interpretation phy: struct_codec "phy_store be" "phy_load be" 32 "\<lambda>_. True" for be
  by unfold_locales
    (simp_all add: phy_store_def phy_load_def codec_simps take_drop_join take_drop_last
      drop_take mem_load_take_le)

interpretation opt: struct_codec "opt_store be" "opt_load be" 8 "\<lambda>_. True" for be
  by unfold_locales
    (simp_all add: opt_store_def opt_load_def codec_simps take_drop_join take_drop_last
      drop_take mem_load_take_le)

interpretation diverge: struct_codec "diverge_store be" "diverge_load be" 40 diverge_wf for be
  by unfold_locales
    (simp_all add: diverge_store_def diverge_load_def diverge_wf_def COMM_LABEL_LENGTH_def codec_simps
      take_drop_join take_drop_last drop_take mem_load_take_le)

interpretation msg: struct_codec "msg_store be" "msg_load be" 24 "\<lambda>_. True" for be
  by unfold_locales
    (simp_all add: msg_store_def msg_load_def codec_simps take_drop_join take_drop_last
      drop_take mem_load_take_le)

section \<open>Conversion\<close>

definition ConvertHostToNet_phy :: "bool \<Rightarrow> CommPhyHeader \<Rightarrow> CommPhyHeader" where
  "ConvertHostToNet_phy be h = \<lparr>magic = HostToNet be (magic h), phyVersion = HostToNet be (phyVersion h),
     packetLen = HostToNet be (packetLen h), checkSum = HostToNet be (checkSum h),
     sourceId = HostToNet be (sourceId h), frameId = HostToNet be (frameId h),
     packetType = HostToNet be (packetType h), paddingLen = HostToNet be (paddingLen h),
     dbIntVer = HostToNet be (dbIntVer h)\<rparr>"

definition ConvertHostToNet_opt :: "bool \<Rightarrow> CommPhyOptHeader \<Rightarrow> CommPhyOptHeader" where
  "ConvertHostToNet_opt be h = \<lparr>frameLen = HostToNet be (frameLen h),
     fragCount = HostToNet be (fragCount h), fragNo = HostToNet be (fragNo h)\<rparr>"

definition ConvertNetToHost_diverge :: "bool \<Rightarrow> CommDivergeHeader \<Rightarrow> CommDivergeHeader" where
  "ConvertNetToHost_diverge be h = \<lparr>divVersion = NetToHost be (divVersion h),
     reserved = NetToHost be (reserved h), payLoadLen = NetToHost be (payLoadLen h),
     commLabel = commLabel h\<rparr>"

definition ConvertNetToHost_msg :: "bool \<Rightarrow> MessageHeader \<Rightarrow> MessageHeader" where
  "ConvertNetToHost_msg be h = \<lparr>msgVersion = NetToHost be (msgVersion h),
     messageType = NetToHost be (messageType h), messageId = NetToHost be (messageId h),
     sessionId = NetToHost be (sessionId h), sequenceId = NetToHost be (sequenceId h),
     errorNo = NetToHost be (errorNo h), dataLen = NetToHost be (dataLen h)\<rparr>"

definition ConvertHostToNet_diverge :: "bool \<Rightarrow> CommDivergeHeader \<Rightarrow> CommDivergeHeader" where
  "ConvertHostToNet_diverge be h = ConvertNetToHost_diverge be h"

definition ConvertHostToNet_msg :: "bool \<Rightarrow> MessageHeader \<Rightarrow> MessageHeader" where
  "ConvertHostToNet_msg be h = ConvertNetToHost_msg be h"

definition ConvertNetToHost_phy :: "bool \<Rightarrow> CommPhyHeader \<Rightarrow> CommPhyHeader" where
  "ConvertNetToHost_phy be h = ConvertHostToNet_phy be h"

definition ConvertNetToHost_opt :: "bool \<Rightarrow> CommPhyOptHeader \<Rightarrow> CommPhyOptHeader" where
  "ConvertNetToHost_opt be h = ConvertHostToNet_opt be h"

lemmas header_convert_defs = ConvertHostToNet_phy_def ConvertHostToNet_opt_def
  ConvertNetToHost_diverge_def ConvertNetToHost_msg_def ConvertHostToNet_diverge_def
  ConvertHostToNet_msg_def ConvertNetToHost_phy_def ConvertNetToHost_opt_def

lemma HostToNet_twice [simp]:
  "HostToNet be (HostToNet be (a :: u8)) = a"
  "HostToNet be (HostToNet be (b :: u16)) = b"
  "HostToNet be (HostToNet be (c :: u32)) = c"
  "HostToNet be (HostToNet be (d :: u64)) = d"
  by (simp_all add: HostToNet_involutive)

lemma header_convert_roundtrip [simp]:
  "ConvertNetToHost_phy be (ConvertHostToNet_phy be p) = p"
  "ConvertNetToHost_opt be (ConvertHostToNet_opt be q) = q"
  "ConvertNetToHost_diverge be (ConvertHostToNet_diverge be d) = d"
  "ConvertNetToHost_msg be (ConvertHostToNet_msg be m) = m"
  by (simp_all add: header_convert_defs NetToHost_def)

text \<open>On the wire the fields are in network order whatever the host.\<close>

lemma header_wire_order:
  "phy_store be (ConvertHostToNet_phy be p) = phy_store True p"
  "opt_store be (ConvertHostToNet_opt be q) = opt_store True q"
  "diverge_store be (ConvertHostToNet_diverge be d) = diverge_store True d"
  "msg_store be (ConvertHostToNet_msg be m) = msg_store True m"
  by (simp_all add: phy_store_def opt_store_def diverge_store_def msg_store_def header_convert_defs
      NetToHost_def mem_store_HostToNet)

section \<open>ParseResult\<close>

record ParseResult =
  pr_frameId :: u32
  pr_sourceId :: u64
  pr_packetLen :: u32
  pr_paddingLen :: u8
  pr_isFragment :: bool
  pr_frameType :: FrameType
  pr_frameLen :: u32
  pr_fragCount :: u16
  pr_fragNo :: u16
  pr_payloadLen :: u32
  pr_commLabel :: LabelType
  pr_labelExchangeDistinctValue :: u64
  pr_labelExchangeSequenceId :: u64
  pr_latestCommLabels :: "LabelType set"
  pr_dbVersion :: u16

definition ParseResult_init :: ParseResult where
  "ParseResult_init = \<lparr>pr_frameId = 0, pr_sourceId = 0, pr_packetLen = 0, pr_paddingLen = 0,
     pr_isFragment = False, pr_frameType = INVALID_MAX_FRAME_TYPE, pr_frameLen = 0, pr_fragCount = 0,
     pr_fragNo = 0, pr_payloadLen = 0, pr_commLabel = [], pr_labelExchangeDistinctValue = 0,
     pr_labelExchangeSequenceId = 0, pr_latestCommLabels = {}, pr_dbVersion = 0\<rparr>"

end
