(* ===== verification/Serial_Buffer.thy ===== *)
theory Serial_Buffer
  imports Frame_Header
begin

text \<open>
  \<^verbatim>\<open>communicator/src/serial_buffer.{h,cpp}\<close>. A buffer either owns an allocation
  (\<^verbatim>\<open>oringinalBytes_\<close>, with \<^verbatim>\<open>bytes_\<close> pointing into it behind the extension head) or borrows external
  stack memory. The owned allocation is the byte list \<open>sb_mem\<close> and \<^verbatim>\<open>bytes_\<close> the offset \<open>sb_off\<close>
  into it; the two pointers are null together. A writable region is an offset into \<open>sb_mem\<close> with a
  length, a read-only region the bytes from the pointer on with a length.
\<close>

record SerialBuffer =
  sb_mem :: "byte list option"
  sb_off :: nat
  externalBytes :: "byte list option"
  totalLen :: nat
  headerLen :: nat
  payloadLen :: nat
  padLen :: nat
  extendHeadLen :: nat
  isExternalStackMemory :: bool

definition SerialBuffer_init :: SerialBuffer where
  "SerialBuffer_init = \<lparr>sb_mem = None, sb_off = 0, externalBytes = None, totalLen = 0, headerLen = 0,
     payloadLen = 0, padLen = 0, extendHeadLen = 0, isExternalStackMemory = False\<rparr>"

definition MAX_EXTEND_HEAD_LENGTH :: nat where "MAX_EXTEND_HEAD_LENGTH = 512"

section \<open>Operations\<close>

definition SetExtendHeadLength :: "SerialBuffer \<Rightarrow> nat \<Rightarrow> SerialBuffer" where
  "SetExtendHeadLength b extendHeaderLen = b\<lparr>extendHeadLen := extendHeaderLen\<rparr>"

definition AllocBufferByPayloadLength ::
    "allocator \<Rightarrow> SerialBuffer \<Rightarrow> nat \<Rightarrow> nat \<Rightarrow> SerialBuffer \<times> errno" where
  "AllocBufferByPayloadLength al b inPayloadLen inHeaderLen =
     (if sb_mem b \<noteq> None \<or> externalBytes b \<noteq> None then (b, E_NOT_PERMIT)
      else
        let total = wrap32 (BYTE_8_ALIGN (wrap32 (inPayloadLen + inHeaderLen)));
            b = b\<lparr>payloadLen := inPayloadLen, headerLen := inHeaderLen, totalLen := total,
                  padLen := sub32 (sub32 total inPayloadLen) inHeaderLen\<rparr>
        in if total = 0 \<or> total > MAX_TOTAL_LEN then (b, E_INVALID_ARGS)
           else case new_array al (total + extendHeadLen b) of
                  None \<Rightarrow> (b, E_OUT_OF_MEMORY)
                | Some m \<Rightarrow> (b\<lparr>sb_mem := Some m, sb_off := extendHeadLen b\<rparr>, E_OK))"

definition AllocBufferByTotalLength ::
    "allocator \<Rightarrow> SerialBuffer \<Rightarrow> nat \<Rightarrow> nat \<Rightarrow> SerialBuffer \<times> errno" where
  "AllocBufferByTotalLength al b inTotalLen inHeaderLen =
     (if sb_mem b \<noteq> None \<or> externalBytes b \<noteq> None then (b, E_NOT_PERMIT)
      else if inTotalLen = 0 \<or> inTotalLen > MAX_TOTAL_LEN \<or> inTotalLen < inHeaderLen
      then (b, E_INVALID_ARGS)
      else
        let b = b\<lparr>totalLen := inTotalLen, headerLen := inHeaderLen,
                  payloadLen := inTotalLen - inHeaderLen, padLen := 0\<rparr>
        in case new_array al inTotalLen of
             None \<Rightarrow> (b, E_OUT_OF_MEMORY)
           | Some m \<Rightarrow> (b\<lparr>sb_mem := Some m, sb_off := 0\<rparr>, E_OK))"

definition SetExternalBuff ::
    "SerialBuffer \<Rightarrow> byte list option \<Rightarrow> nat \<Rightarrow> nat \<Rightarrow> SerialBuffer \<times> errno" where
  "SetExternalBuff b buff inTotalLen inHeaderLen =
     (if sb_mem b \<noteq> None \<or> externalBytes b \<noteq> None then (b, E_NOT_PERMIT)
      else if buff = None \<or> inTotalLen = 0 \<or> inTotalLen > MAX_TOTAL_LEN \<or> inTotalLen < inHeaderLen
      then (b, E_INVALID_ARGS)
      else (b\<lparr>totalLen := inTotalLen, headerLen := inHeaderLen,
              payloadLen := inTotalLen - inHeaderLen, padLen := 0,
              isExternalStackMemory := True, externalBytes := buff\<rparr>, E_OK))"

text \<open>
  \<^verbatim>\<open>Clone\<close> copies \<^verbatim>\<open>totalLen_\<close> bytes from \<^verbatim>\<open>bytes_\<close> into an allocation without room for an
  extension head, but keeps \<^verbatim>\<open>extendHeadLen_\<close>.
\<close>

definition Clone :: "allocator \<Rightarrow> SerialBuffer \<Rightarrow> SerialBuffer res" where
  "Clone al b =
     (if object_fails al then Inl E_OUT_OF_MEMORY
      else case sb_mem b of
        None \<Rightarrow> Inr (b\<lparr>sb_off := 0\<rparr>)
      | Some m \<Rightarrow>
          (case new_array al (totalLen b) of
             None \<Rightarrow> Inl E_OUT_OF_MEMORY
           | Some fresh \<Rightarrow>
               (case memcpy_s 0 (totalLen b) (peek (sb_off b) (totalLen b) m) fresh of
                  None \<Rightarrow> Inl E_SECUREC_ERROR
                | Some m' \<Rightarrow> Inr (b\<lparr>sb_mem := Some m', sb_off := 0\<rparr>))))"

definition ConvertForCrossThread :: "allocator \<Rightarrow> SerialBuffer \<Rightarrow> SerialBuffer \<times> errno" where
  "ConvertForCrossThread al b =
     (case externalBytes b of
        None \<Rightarrow> (b, E_OK)
      | Some e \<Rightarrow>
          (case new_array al (totalLen b) of
             None \<Rightarrow> (b, E_OUT_OF_MEMORY)
           | Some fresh \<Rightarrow>
               (case memcpy_s 0 (totalLen b) (peek 0 (totalLen b) e) fresh of
                  None \<Rightarrow> (b, E_SECUREC_ERROR)
                | Some m \<Rightarrow> (b\<lparr>sb_mem := Some m, sb_off := 0, externalBytes := None,
                              isExternalStackMemory := False, extendHeadLen := 0\<rparr>, E_OK))))"

definition GetSize :: "SerialBuffer \<Rightarrow> nat" where
  "GetSize b = (if sb_mem b = None \<and> externalBytes b = None then 0 else totalLen b)"

type_synonym wregion = "nat option \<times> nat"
type_synonym rregion = "byte list option \<times> nat"

definition GetWritableBytesForEntireFrame :: "SerialBuffer \<Rightarrow> wregion" where
  "GetWritableBytesForEntireFrame b =
     (if sb_mem b = None then (None, 0) else (Some (sb_off b), sub32 (totalLen b) (padLen b)))"

definition GetWritableBytesForHeader :: "SerialBuffer \<Rightarrow> wregion" where
  "GetWritableBytesForHeader b = (if sb_mem b = None then (None, 0) else (Some (sb_off b), headerLen b))"

definition GetWritableBytesForPayload :: "SerialBuffer \<Rightarrow> wregion" where
  "GetWritableBytesForPayload b =
     (if sb_mem b = None then (None, 0) else (Some (sb_off b + headerLen b), payloadLen b))"

definition ro_base :: "SerialBuffer \<Rightarrow> byte list option" where
  "ro_base b = (if isExternalStackMemory b then externalBytes b
                else map_option (drop (sb_off b)) (sb_mem b))"

definition GetReadOnlyBytesForEntireBuffer :: "SerialBuffer \<Rightarrow> rregion" where
  "GetReadOnlyBytesForEntireBuffer b =
     (if isExternalStackMemory b then (ro_base b, totalLen b)
      else if sb_mem b \<noteq> None then (ro_base b, totalLen b) else (None, 0))"

definition GetReadOnlyBytesForEntireFrame :: "SerialBuffer \<Rightarrow> rregion" where
  "GetReadOnlyBytesForEntireFrame b =
     (if isExternalStackMemory b then (ro_base b, sub32 (totalLen b) (padLen b))
      else if sb_mem b \<noteq> None then (ro_base b, sub32 (totalLen b) (padLen b)) else (None, 0))"

definition GetReadOnlyBytesForPayload :: "SerialBuffer \<Rightarrow> rregion" where
  "GetReadOnlyBytesForPayload b =
     (if isExternalStackMemory b then (map_option (drop (headerLen b)) (ro_base b), payloadLen b)
      else if sb_mem b \<noteq> None then (map_option (drop (headerLen b)) (ro_base b), payloadLen b)
      else (None, 0))"

text \<open>The bytes of a read-only region, and a write through a writable pointer.\<close>

definition region_bytes :: "rregion \<Rightarrow> byte list" where
  "region_bytes r = (case r of (None, n) \<Rightarrow> [] | (Some bs, n) \<Rightarrow> take n bs)"

definition write_mem :: "SerialBuffer \<Rightarrow> nat \<Rightarrow> byte list \<Rightarrow> SerialBuffer" where
  "write_mem b addr bs = b\<lparr>sb_mem := map_option (poke addr bs) (sb_mem b)\<rparr>"

section \<open>Well-formed buffers\<close>

text \<open>
  The lengths add up, an owned allocation is large enough, and exactly one of the two kinds of
  memory is present.
\<close>

definition sb_wf :: "SerialBuffer \<Rightarrow> bool" where
  "sb_wf b \<longleftrightarrow>
     totalLen b = headerLen b + payloadLen b + padLen b \<and> padLen b < 8 \<and>
     0 < totalLen b \<and> totalLen b \<le> MAX_TOTAL_LEN \<and>
     (case sb_mem b of
        Some m \<Rightarrow> externalBytes b = None \<and> \<not> isExternalStackMemory b \<and> sb_off b + totalLen b \<le> length m
      | None \<Rightarrow> isExternalStackMemory b \<and> (\<exists>e. externalBytes b = Some e \<and> totalLen b \<le> length e))"

text \<open>Whole content (with padding), and the frame proper.\<close>

definition buffer_bytes :: "SerialBuffer \<Rightarrow> byte list" where
  "buffer_bytes b = region_bytes (GetReadOnlyBytesForEntireBuffer b)"

definition frame_bytes :: "SerialBuffer \<Rightarrow> byte list" where
  "frame_bytes b = region_bytes (GetReadOnlyBytesForEntireFrame b)"

definition payload_bytes :: "SerialBuffer \<Rightarrow> byte list" where
  "payload_bytes b = region_bytes (GetReadOnlyBytesForPayload b)"

lemmas sb_getter_defs = GetReadOnlyBytesForEntireBuffer_def GetReadOnlyBytesForEntireFrame_def
  GetReadOnlyBytesForPayload_def GetWritableBytesForEntireFrame_def GetWritableBytesForHeader_def
  GetWritableBytesForPayload_def ro_base_def region_bytes_def

lemma sb_wf_lengths:
  assumes "sb_wf b"
  shows "totalLen b < 4294967296" "headerLen b + payloadLen b \<le> totalLen b"
    "sub32 (totalLen b) (padLen b) = headerLen b + payloadLen b"
    "length (buffer_bytes b) = totalLen b" "length (frame_bytes b) = headerLen b + payloadLen b"
    "length (payload_bytes b) = payloadLen b"
proof -
  show t: "totalLen b < 4294967296" using assms by (simp add: sb_wf_def MAX_TOTAL_LEN_def)
  show "headerLen b + payloadLen b \<le> totalLen b" using assms by (simp add: sb_wf_def)
  show s: "sub32 (totalLen b) (padLen b) = headerLen b + payloadLen b"
    using assms t by (simp add: sb_wf_def)
  show "length (buffer_bytes b) = totalLen b"
    using assms by (auto simp: buffer_bytes_def sb_getter_defs sb_wf_def split: option.splits)
  show "length (frame_bytes b) = headerLen b + payloadLen b"
    using assms s by (auto simp: frame_bytes_def sb_getter_defs sb_wf_def split: option.splits)
  show "length (payload_bytes b) = payloadLen b"
    using assms by (auto simp: payload_bytes_def sb_getter_defs sb_wf_def split: option.splits)
qed

lemma frame_bytes_prefix:
  assumes "sb_wf b"
  shows "frame_bytes b = take (headerLen b + payloadLen b) (buffer_bytes b)"
  using assms sb_wf_lengths(3) [OF assms]
  by (auto simp: frame_bytes_def buffer_bytes_def sb_getter_defs sb_wf_def split: option.splits)

lemma payload_bytes_suffix:
  assumes "sb_wf b"
  shows "payload_bytes b = drop (headerLen b) (frame_bytes b)"
  using assms sb_wf_lengths(3) [OF assms]
  by (auto simp: frame_bytes_def payload_bytes_def sb_getter_defs sb_wf_def split: option.splits)
    (auto simp: drop_take ac_simps)

text \<open>Writing inside the buffer keeps it well formed and changes exactly the bytes written.\<close>

lemma write_mem_buffer_bytes:
  assumes "sb_wf b" and "sb_mem b \<noteq> None" and "off + length bs \<le> totalLen b"
  shows "buffer_bytes (write_mem b (sb_off b + off) bs) = poke off bs (buffer_bytes b)"
proof -
  obtain m where m: "sb_mem b = Some m" using assms(2) by auto
  have wf: "\<not> isExternalStackMemory b" "sb_off b + totalLen b \<le> length m"
    using assms(1) m by (auto simp: sb_wf_def)
  have 1: "buffer_bytes b = peek (sb_off b) (totalLen b) m"
    using m wf by (simp add: buffer_bytes_def sb_getter_defs peek_def)
  have "buffer_bytes (write_mem b (sb_off b + off) bs)
      = peek (sb_off b) (totalLen b) (poke (sb_off b + off) bs m)"
    using m wf by (simp add: buffer_bytes_def sb_getter_defs write_mem_def peek_def)
  also have "\<dots> = poke off bs (peek (sb_off b) (totalLen b) m)"
    using wf assms(3) by (intro nth_equalityI) (auto simp: nth_peek nth_poke add.assoc intro: arg_cong2 [where f = nth])
  finally show ?thesis using 1 by simp
qed

lemma write_mem_wf [simp]:
  assumes "sb_wf b" and "off + length bs \<le> totalLen b"
  shows "sb_wf (write_mem b (sb_off b + off) bs)"
  using assms by (auto simp: sb_wf_def write_mem_def split: option.splits)

lemma write_mem_fields [simp]:
  "totalLen (write_mem b a bs) = totalLen b" "headerLen (write_mem b a bs) = headerLen b"
  "payloadLen (write_mem b a bs) = payloadLen b" "padLen (write_mem b a bs) = padLen b"
  "sb_off (write_mem b a bs) = sb_off b" "extendHeadLen (write_mem b a bs) = extendHeadLen b"
  "isExternalStackMemory (write_mem b a bs) = isExternalStackMemory b"
  "externalBytes (write_mem b a bs) = externalBytes b"
  "(sb_mem (write_mem b a bs) = None) = (sb_mem b = None)"
  by (simp_all add: write_mem_def)

section \<open>What the operations establish\<close>

lemma AllocBufferByPayloadLength_ok:
  assumes "AllocBufferByPayloadLength al b pl hl = (b', E_OK)" and "pl + hl + 8 < 4294967296"
    and "\<not> isExternalStackMemory b"
  shows "sb_wf b'" "sb_mem b' \<noteq> None" "headerLen b' = hl" "payloadLen b' = pl"
    "totalLen b' = BYTE_8_ALIGN (pl + hl)" "sb_off b' = extendHeadLen b"
    "extendHeadLen b' = extendHeadLen b"
proof -
  let ?t = "BYTE_8_ALIGN (pl + hl)"
  have t: "?t < 4294967296" "pl + hl \<le> ?t" "?t < pl + hl + 8"
    using assms(2) BYTE_8_ALIGN_less [of "pl + hl"] BYTE_8_ALIGN_ge [of "pl + hl"] by auto
  have w: "wrap32 (BYTE_8_ALIGN (wrap32 (pl + hl))) = ?t" using assms(2) t by simp
  have p: "sub32 (sub32 ?t pl) hl = ?t - (pl + hl)" using t by simp
  obtain m where m: "new_array al (?t + extendHeadLen b) = Some m"
    and b': "b' = b\<lparr>payloadLen := pl, headerLen := hl, totalLen := ?t, padLen := ?t - (pl + hl),
              sb_mem := Some m, sb_off := extendHeadLen b\<rparr>"
    and c: "externalBytes b = None" "sb_mem b = None" "0 < ?t" "?t \<le> MAX_TOTAL_LEN"
    using assms(1) unfolding AllocBufferByPayloadLength_def w p Let_def
    by (auto split: if_splits option.splits)
  have "length m = ?t + extendHeadLen b" using m by (rule new_array_length)
  then show "sb_wf b'" "sb_mem b' \<noteq> None" "headerLen b' = hl" "payloadLen b' = pl"
    "totalLen b' = ?t" "sb_off b' = extendHeadLen b" "extendHeadLen b' = extendHeadLen b"
    using b' c t assms(3) by (auto simp: sb_wf_def)
qed

lemma AllocBufferByPayloadLength_succeeds:
  assumes "reliable al" and "sb_mem b = None" and "externalBytes b = None"
    and "0 < pl + hl" and "pl + hl + 8 \<le> MAX_TOTAL_LEN"
  shows "\<exists>b'. AllocBufferByPayloadLength al b pl hl = (b', E_OK)"
proof -
  let ?t = "BYTE_8_ALIGN (pl + hl)"
  have t: "?t < pl + hl + 8" "pl + hl \<le> ?t" by (rule BYTE_8_ALIGN_less, rule BYTE_8_ALIGN_ge)
  have "wrap32 (BYTE_8_ALIGN (wrap32 (pl + hl))) = ?t"
    using t assms(5) by (simp add: MAX_TOTAL_LEN_def)
  moreover have "0 < ?t" "?t \<le> MAX_TOTAL_LEN" using t assms(4,5) by auto
  moreover obtain m where "new_array al (?t + extendHeadLen b) = Some m"
    using new_array_reliable [OF assms(1)] by blast
  ultimately show ?thesis using assms(2,3) by (simp add: AllocBufferByPayloadLength_def Let_def)
qed

lemma AllocBufferByTotalLength_ok:
  assumes "AllocBufferByTotalLength al b tlen hl = (b', E_OK)" and "\<not> isExternalStackMemory b"
  shows "sb_wf b'" "sb_mem b' \<noteq> None" "headerLen b' = hl" "payloadLen b' = tlen - hl"
    "totalLen b' = tlen" "padLen b' = 0" "sb_off b' = 0" "hl \<le> tlen" "extendHeadLen b' = extendHeadLen b"
proof -
  obtain m where m: "new_array al tlen = Some m"
    and b': "b' = b\<lparr>totalLen := tlen, headerLen := hl, payloadLen := tlen - hl, padLen := 0,
              sb_mem := Some m, sb_off := 0\<rparr>"
    and c: "externalBytes b = None" "sb_mem b = None" "0 < tlen" "tlen \<le> MAX_TOTAL_LEN" "hl \<le> tlen"
    using assms(1) unfolding AllocBufferByTotalLength_def Let_def
    by (auto split: if_splits option.splits)
  then show "sb_wf b'" "sb_mem b' \<noteq> None" "headerLen b' = hl" "payloadLen b' = tlen - hl"
    "totalLen b' = tlen" "padLen b' = 0" "sb_off b' = 0" "hl \<le> tlen" "extendHeadLen b' = extendHeadLen b"
    using new_array_length [OF m] assms(2) by (auto simp: sb_wf_def)
qed

lemma AllocBufferByTotalLength_succeeds:
  assumes "reliable al" and "sb_mem b = None" and "externalBytes b = None"
    and "0 < tlen" and "tlen \<le> MAX_TOTAL_LEN" and "hl \<le> tlen"
  shows "\<exists>b'. AllocBufferByTotalLength al b tlen hl = (b', E_OK)"
  using assms new_array_reliable [OF assms(1), of tlen]
  by (auto simp: AllocBufferByTotalLength_def Let_def)

lemma SetExternalBuff_ok:
  assumes "SetExternalBuff b buff tlen hl = (b', E_OK)"
    and "\<And>e. buff = Some e \<Longrightarrow> tlen \<le> length e"
  shows "sb_wf b'" "headerLen b' = hl" "totalLen b' = tlen" "payloadLen b' = tlen - hl"
    "\<exists>e. buff = Some e \<and> buffer_bytes b' = take tlen e"
  using assms
  by (auto simp: SetExternalBuff_def sb_wf_def buffer_bytes_def sb_getter_defs split: if_splits)

lemma ConvertForCrossThread_ok:
  assumes "ConvertForCrossThread al b = (b', E_OK)" and "sb_wf b"
  shows "sb_wf b'" "buffer_bytes b' = buffer_bytes b" "payload_bytes b' = payload_bytes b"
    "GetSize b' = GetSize b" "\<not> isExternalStackMemory b'"
proof -
  have "sb_wf b' \<and> buffer_bytes b' = buffer_bytes b \<and> GetSize b' = GetSize b \<and>
      headerLen b' = headerLen b \<and> payloadLen b' = payloadLen b \<and> \<not> isExternalStackMemory b'"
  proof (cases "externalBytes b")
    case None
    then show ?thesis using assms
      by (auto simp: ConvertForCrossThread_def sb_wf_def split: option.splits)
  next
    case (Some e)
    have ext: "isExternalStackMemory b" "sb_mem b = None" "totalLen b \<le> length e"
      using assms(2) Some by (auto simp: sb_wf_def split: option.splits)
    obtain fresh m where f: "new_array al (totalLen b) = Some fresh"
      and m: "m = poke 0 (peek 0 (totalLen b) e) fresh"
      and b': "b' = b\<lparr>sb_mem := Some m, sb_off := 0, externalBytes := None,
                 isExternalStackMemory := False, extendHeadLen := 0\<rparr>"
      using assms(1) Some by (auto simp: ConvertForCrossThread_def memcpy_s_def split: option.splits if_splits)
    have "m = take (totalLen b) e"
      using m new_array_length [OF f] ext by (simp add: poke_def peek_def)
    then show ?thesis
      using b' ext Some assms(2)
      by (auto simp: sb_wf_def buffer_bytes_def sb_getter_defs GetSize_def)
  qed
  then show "sb_wf b'" "buffer_bytes b' = buffer_bytes b" "payload_bytes b' = payload_bytes b"
    "GetSize b' = GetSize b" "\<not> isExternalStackMemory b'"
    using assms(2) by (auto simp: payload_bytes_suffix frame_bytes_prefix)
qed

lemma GetSize_wf: "sb_wf b \<Longrightarrow> GetSize b = totalLen b"
  by (auto simp: GetSize_def sb_wf_def split: option.splits)

lemma Clone_ok:
  assumes "Clone al b = Inr c" and "sb_wf b"
  shows "sb_wf c" "buffer_bytes c = buffer_bytes b" "sb_off c = 0" "extendHeadLen c = extendHeadLen b"
proof -
  have "sb_wf c \<and> buffer_bytes c = buffer_bytes b \<and> sb_off c = 0 \<and> extendHeadLen c = extendHeadLen b"
  proof (cases "sb_mem b")
    case None
    then show ?thesis using assms
      by (auto simp: Clone_def sb_wf_def buffer_bytes_def sb_getter_defs split: if_splits)
  next
    case (Some m)
    have own: "\<not> isExternalStackMemory b" "sb_off b + totalLen b \<le> length m"
      using assms(2) Some by (auto simp: sb_wf_def)
    obtain fresh where f: "new_array al (totalLen b) = Some fresh"
      and c: "c = b\<lparr>sb_mem := Some (poke 0 (peek (sb_off b) (totalLen b) m) fresh), sb_off := 0\<rparr>"
      using assms(1) Some by (auto simp: Clone_def memcpy_s_def split: option.splits if_splits)
    have "poke 0 (peek (sb_off b) (totalLen b) m) fresh = peek (sb_off b) (totalLen b) m"
      using new_array_length [OF f] own by (simp add: poke_def)
    then show ?thesis
      using c own Some assms(2)
      by (auto simp: sb_wf_def buffer_bytes_def sb_getter_defs peek_def)
  qed
  then show "sb_wf c" "buffer_bytes c = buffer_bytes b" "sb_off c = 0"
    "extendHeadLen c = extendHeadLen b" by auto
qed

end
