(* ===== verification/Software_Version.thy ===== *)
theory Software_Version
  imports DDB_Prelude
begin

text \<open>\<^verbatim>\<open>common/include/version.h\<close>: the versions of the software, as the build sets them (it defines
  \<^verbatim>\<open>RELATIONAL_STORE\<close>, \<^verbatim>\<open>BUILD.gn\<close>).\<close>

definition SOFTWARE_VERSION_RELEASE_2_0 :: u32 where "SOFTWARE_VERSION_RELEASE_2_0 = 102"
definition SOFTWARE_VERSION_RELEASE_3_0 :: u32 where "SOFTWARE_VERSION_RELEASE_3_0 = 103"
definition SOFTWARE_VERSION_RELEASE_4_0 :: u32 where "SOFTWARE_VERSION_RELEASE_4_0 = 104"
definition SOFTWARE_VERSION_RELEASE_6_0 :: u32 where "SOFTWARE_VERSION_RELEASE_6_0 = 106"
definition SOFTWARE_VERSION_EARLIEST :: u32 where "SOFTWARE_VERSION_EARLIEST = 101"
definition SOFTWARE_VERSION_CURRENT :: u32 where "SOFTWARE_VERSION_CURRENT = SOFTWARE_VERSION_RELEASE_6_0"
definition VERSION_INVALID :: u32 where "VERSION_INVALID = 0x7FFFFFFF"
definition TIME_SYNC_VERSION_V1 :: u32 where "TIME_SYNC_VERSION_V1 = SOFTWARE_VERSION_EARLIEST"

lemmas version_defs = SOFTWARE_VERSION_RELEASE_2_0_def SOFTWARE_VERSION_RELEASE_3_0_def SOFTWARE_VERSION_RELEASE_4_0_def
  SOFTWARE_VERSION_RELEASE_6_0_def SOFTWARE_VERSION_EARLIEST_def SOFTWARE_VERSION_CURRENT_def VERSION_INVALID_def

end
