(* ===== verification/Protocol_Proto.thy ===== *)
theory Protocol_Proto
  imports Serial_Buffer Software_Version
begin

text \<open>
  \<^verbatim>\<open>communicator/src/protocol_proto.cpp\<close> without fragmentation: messages and the registered
  transform functions, building frames, filling in the headers, and checking and parsing what was
  received. Transform functions and the extension-head handle are callbacks of other modules and
  enter as values; the registry \<^verbatim>\<open>msgIdMapFunc_\<close> is a map passed explicitly.
\<close>

section \<open>Constants\<close>

definition MAGIC_CODE :: u16 where "MAGIC_CODE = 0xAAAA"
definition PROTOCOL_VERSION :: u16 where "PROTOCOL_VERSION = 0"
definition DB_GLOBAL_VERSION :: u16 where
  "DB_GLOBAL_VERSION = ucast (SOFTWARE_VERSION_CURRENT - SOFTWARE_VERSION_EARLIEST)"
definition MAX_PADDING_LEN :: nat where "MAX_PADDING_LEN = 7"
definition LENGTH_BEFORE_SUM_RANGE :: nat where "LENGTH_BEFORE_SUM_RANGE = 8 + 8"
definition MAX_FRAME_LEN :: nat where "MAX_FRAME_LEN = 32 * 1024 * 1024"
definition LABEL_VER_LEN :: nat where "LABEL_VER_LEN = 8"
definition DISTINCT_VALUE_LEN :: nat where "DISTINCT_VALUE_LEN = 8"
definition SEQUENCE_ID_LEN :: nat where "SEQUENCE_ID_LEN = 8"
definition COMM_LABEL_COUNT_LEN :: nat where "COMM_LABEL_COUNT_LEN = 8"

definition GetAppLayerFrameHeaderLength :: nat where
  "GetAppLayerFrameHeaderLength = sizeof_CommPhyHeader + sizeof_CommDivergeHeader"
definition GetLengthBeforeSerializedData :: nat where
  "GetLengthBeforeSerializedData =
     sizeof_CommPhyHeader + sizeof_CommDivergeHeader + sizeof_MessageHeader"
definition GetCommLayerFrameHeaderLength :: nat where
  "GetCommLayerFrameHeaderLength = sizeof_CommPhyHeader"

lemmas proto_consts = MAX_PADDING_LEN_def LENGTH_BEFORE_SUM_RANGE_def MAX_FRAME_LEN_def LABEL_VER_LEN_def
  DISTINCT_VALUE_LEN_def SEQUENCE_ID_LEN_def COMM_LABEL_COUNT_LEN_def COMM_LABEL_LENGTH_def
  MAX_TOTAL_LEN_def GetAppLayerFrameHeaderLength_def GetLengthBeforeSerializedData_def
  GetCommLayerFrameHeaderLength_def

section \<open>Messages\<close>

datatype Priority = LOW | NORMAL | HIGH

definition TYPE_INVALID :: u16 where "TYPE_INVALID = 0"
definition TYPE_REQUEST :: u16 where "TYPE_REQUEST = 1"
definition TYPE_RESPONSE :: u16 where "TYPE_RESPONSE = 2"
definition TYPE_NOTIFY :: u16 where "TYPE_NOTIFY = 3"
definition MSG_VERSION_BASE :: u16 where "MSG_VERSION_BASE = 0"
definition MSG_VERSION_EXT :: u16 where "MSG_VERSION_EXT = 1"

text \<open>The object a message holds is of any type \<open>'o\<close>.\<close>

record 'o Message =
  m_version :: u16
  m_messageType :: u16
  m_messageId :: u32
  m_sessionId :: u32
  m_sequenceId :: u32
  m_errorNo :: u32
  m_holder :: "'o option"
  m_target :: string
  m_prio :: Priority

definition Message_init :: "'o Message" where
  "Message_init = \<lparr>m_version = MSG_VERSION_BASE, m_messageType = TYPE_INVALID, m_messageId = 0,
     m_sessionId = 0, m_sequenceId = 0, m_errorNo = 0, m_holder = None, m_target = [], m_prio = LOW\<rparr>"

definition SetMessageType :: "'o Message \<Rightarrow> u16 \<Rightarrow> 'o Message \<times> errno" where
  "SetMessageType m t =
     (if t \<noteq> TYPE_REQUEST \<and> t \<noteq> TYPE_RESPONSE \<and> t \<noteq> TYPE_NOTIFY then (m, E_INVALID_ARGS)
      else (m\<lparr>m_messageType := t\<rparr>, E_OK))"

definition SetVersion :: "'o Message \<Rightarrow> u16 \<Rightarrow> 'o Message" where
  "SetVersion m v = (if v \<noteq> MSG_VERSION_BASE \<and> v \<noteq> MSG_VERSION_EXT then m else m\<lparr>m_version := v\<rparr>)"

definition IsSupportMessageVersion :: "u16 \<Rightarrow> bool" where
  "IsSupportMessageVersion v \<longleftrightarrow> v = MSG_VERSION_BASE \<or> v = MSG_VERSION_EXT"

text \<open>\<^verbatim>\<open>E_FEEDBACK_UNKNOWN_MESSAGE\<close> is 1200 and \<^verbatim>\<open>E_FEEDBACK_COMMUNICATOR_NOT_FOUND\<close> 1201.\<close>

definition IsFeedbackErrorMessage :: "u32 \<Rightarrow> bool" where
  "IsFeedbackErrorMessage e \<longleftrightarrow> e = 1200 \<or> e = 1201"

text \<open>
  A transform function is a \<^verbatim>\<open>std::function\<close> and may be empty. The serializer maps the content of
  the region it is given to its content afterwards; the deserializer reads the region and changes
  the message.
\<close>

record 'o TransformFunc =
  computeFunc :: "('o Message \<Rightarrow> u32) option"
  serializeFunc :: "(byte list \<Rightarrow> 'o Message \<Rightarrow> errno \<times> byte list) option"
  deserializeFunc :: "(byte list \<Rightarrow> 'o Message \<Rightarrow> errno \<times> 'o Message) option"

type_synonym 'o registry = "u32 \<Rightarrow> 'o TransformFunc option"

definition RegTransformFunction ::
    "'o registry \<Rightarrow> u32 \<Rightarrow> 'o TransformFunc \<Rightarrow> 'o registry \<times> errno" where
  "RegTransformFunction reg msgId inFunc =
     (if reg msgId \<noteq> None then (reg, E_ALREADY_REGISTER)
      else if computeFunc inFunc = None \<or> serializeFunc inFunc = None \<or> deserializeFunc inFunc = None
      then (reg, E_INVALID_ARGS)
      else (reg(msgId \<mapsto> inFunc), E_OK))"

definition UnRegTransformFunction :: "'o registry \<Rightarrow> u32 \<Rightarrow> 'o registry" where
  "UnRegTransformFunction reg msgId = reg(msgId := None)"

text \<open>Registration keeps every registered entry complete.\<close>

definition reg_wf :: "'o registry \<Rightarrow> bool" where
  "reg_wf reg \<longleftrightarrow> (\<forall>i f. reg i = Some f \<longrightarrow>
     computeFunc f \<noteq> None \<and> serializeFunc f \<noteq> None \<and> deserializeFunc f \<noteq> None)"

lemma RegTransformFunction_wf:
  "reg_wf reg \<Longrightarrow> reg_wf (fst (RegTransformFunction reg i f))"
  by (auto simp: reg_wf_def RegTransformFunction_def)

lemma UnRegTransformFunction_wf: "reg_wf reg \<Longrightarrow> reg_wf (UnRegTransformFunction reg i)"
  by (auto simp: reg_wf_def UnRegTransformFunction_def)

lemma reg_wf_empty: "reg_wf (\<lambda>_. None)"
  by (simp add: reg_wf_def)

section \<open>Checksum\<close>

text \<open>The words are read in host order.\<close>

definition CalculateXorSum :: "bool \<Rightarrow> byte list \<Rightarrow> nat \<Rightarrow> u64 res" where
  "CalculateXorSum be bytes len =
     (if len mod 8 \<noteq> 0 then Inl E_LENGTH_ERROR
      else Inr (fold (\<lambda>i outSum. outSum XOR mem_load be (drop (8 * i) bytes)) [0..<len div 8] 0))"

section \<open>Serializing messages\<close>

definition CalculateDataSerializeLength :: "'o registry \<Rightarrow> 'o Message \<Rightarrow> nat res" where
  "CalculateDataSerializeLength reg inMsg =
     (case reg (m_messageId inMsg) of
        None \<Rightarrow> Inl E_NOT_REGISTER
      | Some function \<Rightarrow>
          (case computeFunc function of
             None \<Rightarrow> Inl ABORTED
           | Some compute \<Rightarrow>
               let serializeLen = unat (compute inMsg);
                   alignedLen = wrap32 (BYTE_8_ALIGN serializeLen)
               in if serializeLen = 0 \<or> alignedLen > MAX_FRAME_LEN - GetLengthBeforeSerializedData
                  then Inl E_LENGTH_ERROR else Inr serializeLen))"

text \<open>
  \<^verbatim>\<open>memcpy_s\<close> into the memory a buffer owns, and the pointer of a read-only region.
\<close>

definition write_s :: "SerialBuffer \<Rightarrow> nat \<Rightarrow> nat \<Rightarrow> byte list \<Rightarrow> SerialBuffer option" where
  "write_s b addr destMax src = (if length src \<le> destMax then Some (write_mem b addr src) else None)"

definition rptr :: "rregion \<Rightarrow> byte list" where
  "rptr r = (case fst r of None \<Rightarrow> [] | Some bs \<Rightarrow> bs)"

definition message_header :: "'o Message \<Rightarrow> nat \<Rightarrow> MessageHeader" where
  "message_header m dlen = \<lparr>msgVersion = m_version m, messageType = m_messageType m,
     messageId = m_messageId m, sessionId = m_sessionId m, sequenceId = m_sequenceId m,
     errorNo = m_errorNo m, dataLen = of_nat dlen\<rparr>"

definition SerializeMessage ::
    "bool \<Rightarrow> 'o registry \<Rightarrow> SerialBuffer \<Rightarrow> 'o Message \<Rightarrow> SerialBuffer \<times> errno" where
  "SerializeMessage be reg inBuff inMsg =
     (case GetWritableBytesForPayload inBuff of
        (None, n) \<Rightarrow> (inBuff, E_LENGTH_ERROR)
      | (Some a, n) \<Rightarrow>
          if n < sizeof_MessageHeader then (inBuff, E_LENGTH_ERROR)
          else
            let dlen = n - sizeof_MessageHeader;
                b = write_mem inBuff a (msg_store be (ConvertHostToNet_msg be (message_header inMsg dlen)))
            in if dlen = 0 then (b, E_OK)
               else case reg (m_messageId inMsg) of
                      None \<Rightarrow> (b, ABORTED)
                    | Some function \<Rightarrow>
                        (case serializeFunc function of
                           None \<Rightarrow> (b, ABORTED)
                         | Some ser \<Rightarrow>
                             let (result, region) =
                                   ser (peek (a + sizeof_MessageHeader) dlen (the (sb_mem b))) inMsg;
                                 b = write_mem b (a + sizeof_MessageHeader) region
                             in if result \<noteq> E_OK then (b, E_SERIALIZE_ERROR) else (b, E_OK)))"

definition DeSerializeMessage ::
    "bool \<Rightarrow> 'o registry \<Rightarrow> SerialBuffer \<Rightarrow> 'o Message \<Rightarrow> bool \<Rightarrow> 'o Message \<times> errno" where
  "DeSerializeMessage be reg inBuff inMsg onlyMsgHeader =
     (let r = GetReadOnlyBytesForPayload inBuff; bytes = rptr r; n = snd r in
      if n < 2 then (inMsg, E_LENGTH_ERROR)
      else
        let version = NetToHost be (mem_load be bytes :: u16) in
        if \<not> IsSupportMessageVersion version then (inMsg, E_VERSION_NOT_SUPPORT)
        else if n < sizeof_MessageHeader then (inMsg, E_LENGTH_ERROR)
        else
          let hdr = ConvertNetToHost_msg be (msg_load be bytes);
              m = SetVersion inMsg version;
              m = fst (SetMessageType m (messageType hdr));
              m = m\<lparr>m_messageId := messageId hdr, m_sessionId := sessionId hdr,
                    m_sequenceId := sequenceId hdr, m_errorNo := errorNo hdr\<rparr>;
              dlen = n - sizeof_MessageHeader
          in if dlen \<noteq> unat (dataLen hdr) then (m, E_LENGTH_ERROR)
             else if IsFeedbackErrorMessage (errorNo hdr) then (m, E_OK)
             else if onlyMsgHeader \<or> dlen = 0 then (m, E_OK)
             else case reg (m_messageId m) of
                    None \<Rightarrow> (m, E_NOT_REGISTER)
                  | Some function \<Rightarrow>
                      (case deserializeFunc function of
                         None \<Rightarrow> (m, ABORTED)
                       | Some deser \<Rightarrow>
                           let (result, m') = deser (take dlen (drop sizeof_MessageHeader bytes)) m
                           in if result \<noteq> E_OK then (m', E_DESERIALIZE_ERROR) else (m', E_OK)))"

text \<open>
  The extension head: \<^verbatim>\<open>GetHeadDataSize\<close> yields a size or refuses, \<^verbatim>\<open>FillHeadData\<close> yields the bytes
  it writes at the start of the memory or refuses.
\<close>

record ExtendHeaderHandle =
  GetHeadDataSize :: "nat option"
  FillHeadData :: "nat \<Rightarrow> nat \<Rightarrow> byte list option"

definition GetExtendHeadDataSize :: "ExtendHeaderHandle option \<Rightarrow> nat res" where
  "GetExtendHeadDataSize extendHandle =
     (case extendHandle of
        None \<Rightarrow> Inr 0
      | Some h \<Rightarrow>
          (case GetHeadDataSize h of
             None \<Rightarrow> Inl E_FEEDBACK_COMMUNICATOR_NOT_FOUND
           | Some headSize \<Rightarrow>
               if headSize > MAX_EXTEND_HEAD_LENGTH \<or> headSize \<noteq> BYTE_8_ALIGN headSize
               then Inl E_FEEDBACK_COMMUNICATOR_NOT_FOUND else Inr headSize))"

definition FillExtendHeadDataIfNeed ::
    "ExtendHeaderHandle option \<Rightarrow> SerialBuffer \<Rightarrow> nat \<Rightarrow> SerialBuffer \<times> errno" where
  "FillExtendHeadDataIfNeed extendHandle b headSize =
     (case extendHandle of
        None \<Rightarrow> (b, E_OK)
      | Some h \<Rightarrow>
          if headSize > 0 then
            (case FillHeadData h headSize (wrap32 (GetSize b + headSize)) of
               None \<Rightarrow> (b, E_FEEDBACK_COMMUNICATOR_NOT_FOUND)
             | Some bs \<Rightarrow> (write_mem b 0 bs, E_OK))
          else (b, E_OK))"

definition ToSerialBuffer ::
    "allocator \<Rightarrow> bool \<Rightarrow> 'o registry \<Rightarrow> 'o Message option \<Rightarrow> ExtendHeaderHandle option \<Rightarrow> bool \<Rightarrow>
     SerialBuffer res" where
  "ToSerialBuffer al be reg inMsg extendHandle onlyMsgHeader =
     (case inMsg of
        None \<Rightarrow> Inl E_INVALID_ARGS
      | Some m \<Rightarrow>
          (case (if onlyMsgHeader then Inr 0 else CalculateDataSerializeLength reg m) of
             Inl e \<Rightarrow> Inl e
           | Inr serializeLen \<Rightarrow>
               (case GetExtendHeadDataSize extendHandle of
                  Inl e \<Rightarrow> Inl e
                | Inr headSize \<Rightarrow>
                    if object_fails al then Inl E_OUT_OF_MEMORY
                    else
                      let b0 = (if headSize > 0 then SetExtendHeadLength SerialBuffer_init headSize
                                else SerialBuffer_init);
                          payLoadLength = wrap32 (serializeLen + sizeof_MessageHeader);
                          (b1, e1) = AllocBufferByPayloadLength al b0 payLoadLength
                                       GetAppLayerFrameHeaderLength
                      in if e1 \<noteq> E_OK then Inl e1
                         else
                           let (b2, e2) = FillExtendHeadDataIfNeed extendHandle b1 headSize
                           in if e2 \<noteq> E_OK then Inl e2
                              else
                                let (b3, e3) = SerializeMessage be reg b2 m
                                in if e3 \<noteq> E_OK then Inl e3 else Inr b3)))"

definition ToMessage ::
    "allocator \<Rightarrow> bool \<Rightarrow> 'o registry \<Rightarrow> SerialBuffer option \<Rightarrow> bool \<Rightarrow> ('o Message \<times> errno) res" where
  "ToMessage al be reg inBuff onlyMsgHeader =
     (case inBuff of
        None \<Rightarrow> Inl E_INVALID_ARGS
      | Some b \<Rightarrow>
          if object_fails al then Inl E_OUT_OF_MEMORY
          else
            let (m, e) = DeSerializeMessage be reg b Message_init onlyMsgHeader
            in if e \<noteq> E_OK \<and> e \<noteq> E_NOT_REGISTER then Inl e else Inr (m, e))"

section \<open>Building frames\<close>

definition SetDivergeHeader :: "bool \<Rightarrow> SerialBuffer \<Rightarrow> LabelType \<Rightarrow> SerialBuffer \<times> errno" where
  "SetDivergeHeader be inBuff inCommLabel =
     (case GetWritableBytesForHeader inBuff of
        (None, n) \<Rightarrow> (inBuff, E_INVALID_ARGS)
      | (Some a, n) \<Rightarrow>
          if n \<noteq> GetAppLayerFrameHeaderLength then (inBuff, E_INVALID_ARGS)
          else
            let plen = snd (GetReadOnlyBytesForPayload inBuff);
                hdr = ConvertHostToNet_diverge be
                        \<lparr>divVersion = PROTOCOL_VERSION, reserved = 0, payLoadLen = of_nat plen,
                         commLabel = take COMM_LABEL_LENGTH inCommLabel\<rparr>
            in case write_s inBuff (a + sizeof_CommPhyHeader) (n - sizeof_CommPhyHeader)
                      (diverge_store be hdr) of
                 None \<Rightarrow> (inBuff, E_SECUREC_ERROR)
               | Some b \<Rightarrow> (b, E_OK))"

record PhyHeaderInfo =
  phi_sourceId :: u64
  phi_frameId :: u32
  phi_frameType :: FrameType

definition FillPhyHeaderLenInfo :: "CommPhyHeader \<Rightarrow> nat \<Rightarrow> u64 \<Rightarrow> u8 \<Rightarrow> u8 \<Rightarrow> CommPhyHeader" where
  "FillPhyHeaderLenInfo header plen sm ptype pad =
     header\<lparr>packetLen := of_nat plen, checkSum := sm, packetType := packetType header OR ptype,
            paddingLen := pad\<rparr>"

definition SetPhyHeader :: "bool \<Rightarrow> SerialBuffer \<Rightarrow> PhyHeaderInfo \<Rightarrow> SerialBuffer \<times> errno" where
  "SetPhyHeader be inBuff inInfo =
     (case GetWritableBytesForHeader inBuff of
        (None, n) \<Rightarrow> (inBuff, E_INVALID_ARGS)
      | (Some a, n) \<Rightarrow>
          if n < sizeof_CommPhyHeader then (inBuff, E_INVALID_ARGS)
          else
            let plen = snd (GetReadOnlyBytesForEntireBuffer inBuff);
                pad = of_nat (sub32 plen (snd (GetReadOnlyBytesForEntireFrame inBuff)))
            in if phi_frameType inInfo = INVALID_MAX_FRAME_TYPE then (inBuff, E_INVALID_ARGS)
               else
                 let ptype = SetFrameType PACKET_TYPE_NOT_FRAGMENTED (phi_frameType inInfo);
                     hdr = \<lparr>magic = MAGIC_CODE, phyVersion = PROTOCOL_VERSION, packetLen = 0,
                            checkSum = 0, sourceId = phi_sourceId inInfo,
                            frameId = phi_frameId inInfo, packetType = 0, paddingLen = 0,
                            dbIntVer = DB_GLOBAL_VERSION\<rparr>;
                     hdr = ConvertHostToNet_phy be (FillPhyHeaderLenInfo hdr plen 0 ptype pad)
                 in case write_s inBuff a n (phy_store be hdr) of
                      None \<Rightarrow> (inBuff, E_SECUREC_ERROR)
                    | Some b \<Rightarrow>
                        (case CalculateXorSum be
                                (drop LENGTH_BEFORE_SUM_RANGE (rptr (GetReadOnlyBytesForEntireBuffer b)))
                                (sub32 plen LENGTH_BEFORE_SUM_RANGE) of
                           Inl _ \<Rightarrow> (b, E_SUM_CALCULATE_FAIL)
                         | Inr sumResult \<Rightarrow>
                             (write_mem b (a + 8) (mem_store be (HostToNet be sumResult)), E_OK)))"

definition BuildEmptyFrameForVersionNegotiate :: "allocator \<Rightarrow> SerialBuffer res" where
  "BuildEmptyFrameForVersionNegotiate al =
     (if object_fails al then Inl E_OUT_OF_MEMORY
      else let (b, e) = AllocBufferByPayloadLength al SerialBuffer_init 0 GetCommLayerFrameHeaderLength
           in if e \<noteq> E_OK then Inl e else Inr b)"

definition BuildFeedbackMessageFrame ::
    "allocator \<Rightarrow> bool \<Rightarrow> 'o registry \<Rightarrow> 'o Message option \<Rightarrow> LabelType \<Rightarrow> SerialBuffer res" where
  "BuildFeedbackMessageFrame al be reg inMsg inLabel =
     (case ToSerialBuffer al be reg inMsg None True of
        Inl e \<Rightarrow> Inl e
      | Inr b \<Rightarrow> let (b', e) = SetDivergeHeader be b inLabel in if e \<noteq> E_OK then Inl e else Inr b')"

definition net64 :: "bool \<Rightarrow> u64 \<Rightarrow> byte list" where
  "net64 be w = mem_store be (HostToNet be w)"

text \<open>The elements of the \<^verbatim>\<open>std::set\<close> of labels are given in iteration order.\<close>

definition BuildLabelExchange ::
    "allocator \<Rightarrow> bool \<Rightarrow> u64 \<Rightarrow> u64 \<Rightarrow> LabelType list \<Rightarrow> SerialBuffer res" where
  "BuildLabelExchange al be inDistinctValue inSequenceId inLabels =
     (let plen = wrap32 (LABEL_VER_LEN + DISTINCT_VALUE_LEN + SEQUENCE_ID_LEN + COMM_LABEL_COUNT_LEN +
                   length inLabels * COMM_LABEL_LENGTH)
      in if object_fails al then Inl E_OUT_OF_MEMORY
         else
           let (b, e) = AllocBufferByPayloadLength al SerialBuffer_init plen GetCommLayerFrameHeaderLength
           in if e \<noteq> E_OK then Inl e
              else case GetWritableBytesForPayload b of
                     (None, _) \<Rightarrow> Inl ABORTED
                   | (Some a, _) \<Rightarrow>
                       Inr (write_mem b a
                         (net64 be (ucast PROTOCOL_VERSION) @ net64 be inDistinctValue @
                          net64 be inSequenceId @ net64 be (of_nat (length inLabels)) @
                          concat inLabels)))"

definition BuildLabelExchangeAck :: "allocator \<Rightarrow> bool \<Rightarrow> u64 \<Rightarrow> u64 \<Rightarrow> SerialBuffer res" where
  "BuildLabelExchangeAck al be inDistinctValue inSequenceId =
     (let plen = LABEL_VER_LEN + DISTINCT_VALUE_LEN + SEQUENCE_ID_LEN
      in if object_fails al then Inl E_OUT_OF_MEMORY
         else
           let (b, e) = AllocBufferByPayloadLength al SerialBuffer_init plen GetCommLayerFrameHeaderLength
           in if e \<noteq> E_OK then Inl e
              else case GetWritableBytesForPayload b of
                     (None, _) \<Rightarrow> Inl ABORTED
                   | (Some a, _) \<Rightarrow>
                       Inr (write_mem b a
                         (net64 be (ucast PROTOCOL_VERSION) @ net64 be inDistinctValue @
                          net64 be inSequenceId)))"

section \<open>Checking and parsing\<close>

definition ParseCommPhyHeaderCheckMagicAndVersion :: "bool \<Rightarrow> byte list \<Rightarrow> nat \<Rightarrow> errno" where
  "ParseCommPhyHeaderCheckMagicAndVersion be bytes len =
     (if len < 2 + 2 then E_LENGTH_ERROR
      else if NetToHost be (mem_load be bytes) \<noteq> MAGIC_CODE then E_PARSE_FAIL
      else if NetToHost be (mem_load be (drop 2 bytes)) \<noteq> PROTOCOL_VERSION then E_VERSION_NOT_SUPPORT
      else E_OK)"

definition ParseCommPhyHeaderCheckField ::
    "bool \<Rightarrow> bool \<Rightarrow> string \<Rightarrow> CommPhyHeader \<Rightarrow> byte list \<Rightarrow> nat \<Rightarrow> errno" where
  "ParseCommPhyHeaderCheckField be sc srcTarget phyHeader bytes len =
     (if sourceId phyHeader \<noteq> HashFunc sc srcTarget then E_PARSE_FAIL
      else if unat (packetLen phyHeader) \<noteq> len then E_PARSE_FAIL
      else if unat (paddingLen phyHeader) > MAX_PADDING_LEN then E_PARSE_FAIL
      else if sizeof_CommPhyHeader + unat (paddingLen phyHeader) > unat (packetLen phyHeader)
      then E_PARSE_FAIL
      else case CalculateXorSum be (drop LENGTH_BEFORE_SUM_RANGE bytes)
                  (sub32 len LENGTH_BEFORE_SUM_RANGE) of
             Inl _ \<Rightarrow> E_SUM_CALCULATE_FAIL
           | Inr sumResult \<Rightarrow> if checkSum phyHeader \<noteq> sumResult then E_SUM_MISMATCH else E_OK)"

definition ParseCommPhyHeader ::
    "bool \<Rightarrow> bool \<Rightarrow> string \<Rightarrow> byte list \<Rightarrow> nat \<Rightarrow> ParseResult \<Rightarrow> ParseResult \<times> errno" where
  "ParseCommPhyHeader be sc srcTarget bytes len r =
     (let e = ParseCommPhyHeaderCheckMagicAndVersion be bytes len in
      if e \<noteq> E_OK then (r, e)
      else if len < sizeof_CommPhyHeader then (r, E_PARSE_FAIL)
      else
        let phyHeader = ConvertNetToHost_phy be (phy_load be bytes);
            e = ParseCommPhyHeaderCheckField be sc srcTarget phyHeader bytes len
        in if e \<noteq> E_OK then (r, e)
           else
             let r = r\<lparr>pr_frameId := frameId phyHeader, pr_sourceId := sourceId phyHeader,
                       pr_packetLen := packetLen phyHeader, pr_paddingLen := paddingLen phyHeader,
                       pr_dbVersion := dbIntVer phyHeader\<rparr>;
                 r = (if packetType phyHeader AND PACKET_TYPE_FRAGMENTED \<noteq> 0
                      then r\<lparr>pr_isFragment := True\<rparr> else r);
                 t = GetFrameType (packetType phyHeader)
             in if t = INVALID_MAX_FRAME_TYPE then (r, E_FRAME_TYPE_NOT_SUPPORT)
                else (r\<lparr>pr_frameType := t\<rparr>, E_OK))"

definition ParseCommPhyOptHeader ::
    "bool \<Rightarrow> byte list \<Rightarrow> nat \<Rightarrow> ParseResult \<Rightarrow> ParseResult \<times> errno" where
  "ParseCommPhyOptHeader be bytes len r =
     (if len < sizeof_CommPhyHeader + sizeof_CommPhyOptHeader then (r, E_LENGTH_ERROR)
      else
        let h = ConvertNetToHost_opt be (opt_load be (drop sizeof_CommPhyHeader bytes))
        in (r\<lparr>pr_frameLen := frameLen h, pr_fragCount := fragCount h, pr_fragNo := fragNo h\<rparr>, E_OK))"

definition ParseCommDivergeHeader ::
    "bool \<Rightarrow> byte list \<Rightarrow> nat \<Rightarrow> ParseResult \<Rightarrow> ParseResult \<times> errno" where
  "ParseCommDivergeHeader be bytes len r =
     (if len < sizeof_CommPhyHeader + 2 then (r, E_LENGTH_ERROR)
      else if NetToHost be (mem_load be (drop sizeof_CommPhyHeader bytes)) \<noteq> PROTOCOL_VERSION
      then (r, E_VERSION_NOT_SUPPORT)
      else if len < sizeof_CommPhyHeader + sizeof_CommDivergeHeader then (r, E_PARSE_FAIL)
      else
        let h = ConvertNetToHost_diverge be (diverge_load be (drop sizeof_CommPhyHeader bytes))
        in if sizeof_CommPhyHeader + sizeof_CommDivergeHeader + unat (payLoadLen h) +
                unat (pr_paddingLen r) \<noteq> unat (pr_packetLen r)
           then (r, E_PARSE_FAIL)
           else (r\<lparr>pr_payloadLen := payLoadLen h, pr_commLabel := commLabel h\<rparr>, E_OK))"

text \<open>The unsigned 64-bit fields behind the physical header.\<close>

definition field64 :: "bool \<Rightarrow> byte list \<Rightarrow> nat \<Rightarrow> u64" where
  "field64 be bytes i = NetToHost be (mem_load be (drop (sizeof_CommPhyHeader + 8 * i) bytes))"

definition ParseLabelExchange ::
    "bool \<Rightarrow> byte list \<Rightarrow> nat \<Rightarrow> ParseResult \<Rightarrow> ParseResult \<times> errno" where
  "ParseLabelExchange be bytes len r =
     (if len < sizeof_CommPhyHeader + LABEL_VER_LEN then (r, E_LENGTH_ERROR)
      else if field64 be bytes 0 \<noteq> ucast PROTOCOL_VERSION then (r, E_VERSION_NOT_SUPPORT)
      else if len < sizeof_CommPhyHeader + LABEL_VER_LEN + DISTINCT_VALUE_LEN + SEQUENCE_ID_LEN +
                COMM_LABEL_COUNT_LEN
      then (r, E_LENGTH_ERROR)
      else
        let r = r\<lparr>pr_labelExchangeDistinctValue := field64 be bytes 1,
                  pr_labelExchangeSequenceId := field64 be bytes 2\<rparr>;
            commLabelCount = unat (field64 be bytes 3)
        in if len < commLabelCount \<or> 4294967295 div COMM_LABEL_LENGTH < commLabelCount
           then (r, E_PARSE_FAIL)
           else if len < sizeof_CommPhyHeader + LABEL_VER_LEN + DISTINCT_VALUE_LEN + SEQUENCE_ID_LEN +
                     COMM_LABEL_COUNT_LEN + commLabelCount * COMM_LABEL_LENGTH
           then (r, E_LENGTH_ERROR)
           else
             let start = drop (sizeof_CommPhyHeader + 8 * 4) bytes;
                 commLabels = fold (\<lambda>i commLabels.
                    let l = peek (i * COMM_LABEL_LENGTH) COMM_LABEL_LENGTH start
                    in if l \<in> commLabels then commLabels else insert l commLabels)
                    [0..<commLabelCount] {}
             in (r\<lparr>pr_latestCommLabels := commLabels\<rparr>, E_OK))"

definition ParseLabelExchangeAck ::
    "bool \<Rightarrow> byte list \<Rightarrow> nat \<Rightarrow> ParseResult \<Rightarrow> ParseResult \<times> errno" where
  "ParseLabelExchangeAck be bytes len r =
     (if len < sizeof_CommPhyHeader + LABEL_VER_LEN then (r, E_LENGTH_ERROR)
      else if field64 be bytes 0 \<noteq> ucast PROTOCOL_VERSION then (r, E_VERSION_NOT_SUPPORT)
      else if len < sizeof_CommPhyHeader + LABEL_VER_LEN + DISTINCT_VALUE_LEN + SEQUENCE_ID_LEN
      then (r, E_LENGTH_ERROR)
      else (r\<lparr>pr_labelExchangeDistinctValue := field64 be bytes 1,
              pr_labelExchangeSequenceId := field64 be bytes 2\<rparr>, E_OK))"

definition ParseCommLayerPayload ::
    "bool \<Rightarrow> byte list \<Rightarrow> nat \<Rightarrow> ParseResult \<Rightarrow> ParseResult \<times> errno" where
  "ParseCommLayerPayload be bytes len r =
     (if pr_frameType r = COMMUNICATION_LABEL_EXCHANGE_ACK then ParseLabelExchangeAck be bytes len r
      else ParseLabelExchange be bytes len r)"

definition CheckAndParsePacket ::
    "bool \<Rightarrow> bool \<Rightarrow> string \<Rightarrow> byte list option \<Rightarrow> nat \<Rightarrow> ParseResult \<Rightarrow> ParseResult \<times> errno" where
  "CheckAndParsePacket be sc srcTarget bytes len r =
     (case bytes of
        None \<Rightarrow> (r, E_INVALID_ARGS)
      | Some bs \<Rightarrow>
          if len > MAX_TOTAL_LEN then (r, E_INVALID_ARGS)
          else
            let (r, e) = ParseCommPhyHeader be sc srcTarget bs len r
            in if e \<noteq> E_OK then (r, e)
               else if pr_frameType r = EMPTY then (r, E_OK)
               else if pr_isFragment r then ParseCommPhyOptHeader be bs len r
               else if pr_frameType r \<noteq> APPLICATION_MESSAGE then ParseCommLayerPayload be bs len r
               else ParseCommDivergeHeader be bs len r)"

definition CheckAndParseFrame ::
    "bool \<Rightarrow> SerialBuffer \<Rightarrow> ParseResult \<Rightarrow> ParseResult \<times> errno" where
  "CheckAndParseFrame be inBuff r =
     (if pr_isFragment r then (r, E_INTERNAL_ERROR)
      else
        let f = GetReadOnlyBytesForEntireFrame inBuff
        in if pr_frameType r \<noteq> APPLICATION_MESSAGE then ParseCommLayerPayload be (rptr f) (snd f) r
           else ParseCommDivergeHeader be (rptr f) (snd f) r)"

section \<open>The checksum\<close>

lemma CalculateXorSum_take:
  assumes "len \<le> k"
  shows "CalculateXorSum be (take k bs) len = CalculateXorSum be bs len"
proof -
  have "fold (\<lambda>i s. s XOR (mem_load be (drop (8 * i) (take k bs)) :: u64)) [0..<len div 8] a
      = fold (\<lambda>i s. s XOR mem_load be (drop (8 * i) bs)) [0..<len div 8] a" for a
  proof (rule fold_cong)
    fix i assume "i \<in> set [0..<len div 8]"
    then have "8 \<le> k - 8 * i" using assms by auto
    then show "(\<lambda>s. s XOR (mem_load be (drop (8 * i) (take k bs)) :: u64))
        = (\<lambda>s. s XOR mem_load be (drop (8 * i) bs))"
      by (simp add: drop_take mem_load_take_le)
  qed simp_all
  then show ?thesis by (simp add: CalculateXorSum_def)
qed

lemma fold_xor_split:
  fixes f :: "nat \<Rightarrow> 'a::len word"
  assumes "k < n"
  shows "fold (\<lambda>i s. s XOR f i) [0..<n] 0
    = f k XOR (fold (\<lambda>i s. s XOR (if i = k then 0 else f i)) [0..<n] 0)"
  using assms
proof (induction n)
  case (Suc n)
  have same: "fold (\<lambda>i s. s XOR (if i = n then 0 else f i)) [0..<n] 0 = fold (\<lambda>i s. s XOR f i) [0..<n] 0"
    by (rule fold_cong) auto
  show ?case
  proof (cases "k = n")
    case True
    then show ?thesis by (simp add: same xor.commute)
  next
    case False
    then show ?thesis using Suc by (simp add: xor.assoc)
  qed
qed simp

lemma xor_right_cancel:
  fixes x y r :: "'a::len word"
  assumes "x XOR r = y XOR r"
  shows "x = y"
proof -
  have "(x XOR r) XOR r = (y XOR r) XOR r" using assms by simp
  then show ?thesis by (simp add: xor.assoc)
qed

text \<open>Two inputs that differ in exactly one 64-bit word have different sums.\<close>

lemma CalculateXorSum_one_word:
  assumes "8 dvd len" and "8 * k + 8 \<le> len" and "length a = len" and "length b = len"
    and others: "\<And>i. i < len div 8 \<Longrightarrow> i \<noteq> k \<Longrightarrow> peek (8 * i) 8 a = peek (8 * i) 8 b"
    and differ: "peek (8 * k) 8 a \<noteq> peek (8 * k) 8 b"
  shows "CalculateXorSum be a len \<noteq> CalculateXorSum be b len"
proof
  let ?f = "\<lambda>x i. mem_load be (drop (8 * i) x) :: u64"
  assume eq: "CalculateXorSum be a len = CalculateXorSum be b len"
  have k: "k < len div 8" using assms(2) by linarith
  have "fold (\<lambda>i s. s XOR (if i = k then 0 else ?f a i)) [0..<len div 8] 0
      = fold (\<lambda>i s. s XOR (if i = k then 0 else ?f b i)) [0..<len div 8] 0"
  proof (rule fold_cong)
    fix i assume i: "i \<in> set [0..<len div 8]"
    then have "8 * i + 8 \<le> len" by auto
    then have "i \<noteq> k \<Longrightarrow> ?f a i = ?f b i"
      using others [of i] i mem64.load_peek [of "8 * i" a] mem64.load_peek [of "8 * i" b] assms(3,4)
      by simp
    then show "(\<lambda>s. s XOR (if i = k then 0 else ?f a i)) = (\<lambda>s. s XOR (if i = k then 0 else ?f b i))"
      by auto
  qed simp_all
  moreover have "fold (\<lambda>i s. s XOR ?f a i) [0..<len div 8] 0 = fold (\<lambda>i s. s XOR ?f b i) [0..<len div 8] 0"
    using eq assms(1) by (simp add: CalculateXorSum_def dvd_imp_mod_0)
  ultimately have "?f a k XOR fold (\<lambda>i s. s XOR (if i = k then 0 else ?f b i)) [0..<len div 8] 0
      = ?f b k XOR fold (\<lambda>i s. s XOR (if i = k then 0 else ?f b i)) [0..<len div 8] 0"
    using fold_xor_split [OF k, of "?f a"] fold_xor_split [OF k, of "?f b"] by simp
  then have "?f a k = ?f b k" by (rule xor_right_cancel)
  then have "peek (8 * k) 8 a = peek (8 * k) 8 b"
    using mem64.load_inj [of "peek (8 * k) 8 a" "peek (8 * k) 8 b" be] assms(2-4)
    by (simp add: mem64.load_peek)
  then show False using differ by simp
qed

section \<open>Headers on the wire\<close>

text \<open>Reading a header and converting it to host order is reading it in network order.\<close>

lemma ConvertNetToHost_load [simp]:
  "32 \<le> length bs \<Longrightarrow> ConvertNetToHost_phy be (phy_load be bs) = phy_load True bs"
  "8 \<le> length bs \<Longrightarrow> ConvertNetToHost_opt be (opt_load be bs) = opt_load True bs"
  "40 \<le> length bs \<Longrightarrow> ConvertNetToHost_diverge be (diverge_load be bs) = diverge_load True bs"
  "24 \<le> length bs \<Longrightarrow> ConvertNetToHost_msg be (msg_load be bs) = msg_load True bs"
  by (simp_all add: header_convert_defs phy_load_def opt_load_def diverge_load_def msg_load_def
      NetToHost_mem_load flip: NetToHost_def)

lemma phy_load_checkSum_poke:
  assumes "32 \<le> length bs"
  shows "phy_load be (poke 8 (mem_store be s) bs) = (phy_load be bs)\<lparr>checkSum := s\<rparr>"
proof -
  have "drop 0 (poke 8 (mem_store be s) bs) = poke 8 (mem_store be s) bs" by simp
  then have "mem_load be (poke 8 (mem_store be s) bs) = (mem_load be bs :: u16)"
    using mem16.load_unaffected_by_later_poke [of 0 8 "mem_store be s" bs be] assms by simp
  then show ?thesis
    using assms
    by (simp add: phy_load_def mem16.load_unaffected_by_later_poke mem32.load_unaffected_by_later_poke
        mem64.load_at_poke mem64.load_after_poke_before mem32.load_after_poke_before
        mem8.load_after_poke_before mem16.load_after_poke_before)
qed

text \<open>What makes a received packet pass the checks on its physical header.\<close>

definition phy_valid :: "bool \<Rightarrow> bool \<Rightarrow> string \<Rightarrow> byte list \<Rightarrow> bool" where
  "phy_valid be sc src bs \<longleftrightarrow>
     (let h = phy_load True bs in
      32 \<le> length bs \<and> magic h = MAGIC_CODE \<and> phyVersion h = PROTOCOL_VERSION \<and>
      sourceId h = HashFunc sc src \<and> unat (packetLen h) = length bs \<and> unat (paddingLen h) \<le> MAX_PADDING_LEN \<and>
      32 + unat (paddingLen h) \<le> length bs \<and>
      CalculateXorSum be (drop 16 bs) (length bs - 16) = Inr (checkSum h))"

definition phy_result :: "ParseResult \<Rightarrow> CommPhyHeader \<Rightarrow> ParseResult" where
  "phy_result r h = r\<lparr>pr_frameId := frameId h, pr_sourceId := sourceId h, pr_packetLen := packetLen h,
     pr_paddingLen := paddingLen h, pr_dbVersion := dbIntVer h,
     pr_isFragment := (pr_isFragment r \<or> packetType h AND PACKET_TYPE_FRAGMENTED \<noteq> 0)\<rparr>"

lemma NetToHost_magic_version:
  assumes "4 \<le> length bs"
  shows "NetToHost be (mem_load be bs) = magic (phy_load True bs)"
    "NetToHost be (mem_load be (drop 2 bs)) = phyVersion (phy_load True bs)"
  using assms by (simp_all add: NetToHost_mem_load phy_load_def)

lemma ParseCommPhyHeader_valid:
  assumes "phy_valid be sc src bs" and "length bs \<le> MAX_TOTAL_LEN"
  shows "ParseCommPhyHeader be sc src bs (length bs) r =
    (let h = phy_load True bs; t = GetFrameType (packetType h) in
     if t = INVALID_MAX_FRAME_TYPE then (phy_result r h, E_FRAME_TYPE_NOT_SUPPORT)
     else ((phy_result r h)\<lparr>pr_frameType := t\<rparr>, E_OK))"
  using assms NetToHost_magic_version [of bs be]
  by (simp add: ParseCommPhyHeader_def ParseCommPhyHeaderCheckMagicAndVersion_def
      ParseCommPhyHeaderCheckField_def phy_valid_def phy_result_def proto_consts Let_def)

lemma ParseCommPhyHeader_invalid:
  assumes "\<not> phy_valid be sc src bs" and "length bs \<le> MAX_TOTAL_LEN"
  shows "\<exists>e. ParseCommPhyHeader be sc src bs (length bs) r = (r, e) \<and> e \<noteq> E_OK \<and>
    e \<noteq> E_FRAME_TYPE_NOT_SUPPORT"
  using assms NetToHost_magic_version [of bs be]
  by (auto simp: ParseCommPhyHeader_def ParseCommPhyHeaderCheckMagicAndVersion_def
      ParseCommPhyHeaderCheckField_def phy_valid_def proto_consts Let_def split: sum.splits)

section \<open>What the frame builders establish\<close>

lemma rptr_regions:
  assumes "sb_wf b"
  shows "take (totalLen b) (rptr (GetReadOnlyBytesForEntireBuffer b)) = buffer_bytes b"
    "rptr (GetReadOnlyBytesForEntireFrame b) = rptr (GetReadOnlyBytesForEntireBuffer b)"
    "rptr (GetReadOnlyBytesForPayload b) = drop (headerLen b) (rptr (GetReadOnlyBytesForEntireBuffer b))"
    "snd (GetReadOnlyBytesForEntireBuffer b) = totalLen b"
    "snd (GetReadOnlyBytesForEntireFrame b) = headerLen b + payloadLen b"
    "snd (GetReadOnlyBytesForPayload b) = payloadLen b"
  using assms sb_wf_lengths(3) [OF assms]
  by (auto simp: rptr_def buffer_bytes_def sb_getter_defs sb_wf_def split: option.splits)

lemma payload_bytes_eq:
  assumes "sb_wf b"
  shows "payload_bytes b = take (payloadLen b) (drop (headerLen b) (buffer_bytes b))"
  using assms by (simp add: payload_bytes_suffix frame_bytes_prefix drop_take)

definition frame_phy_header :: "PhyHeaderInfo \<Rightarrow> SerialBuffer \<Rightarrow> u64 \<Rightarrow> CommPhyHeader" where
  "frame_phy_header info b s = \<lparr>magic = MAGIC_CODE, phyVersion = PROTOCOL_VERSION,
     packetLen = of_nat (totalLen b), checkSum = s, sourceId = phi_sourceId info,
     frameId = phi_frameId info, packetType = SetFrameType 0 (phi_frameType info),
     paddingLen = of_nat (padLen b), dbIntVer = DB_GLOBAL_VERSION\<rparr>"

lemma SetPhyHeader_ok:
  assumes wf: "sb_wf b" and m: "sb_mem b \<noteq> None" and h: "32 \<le> headerLen b" and al: "8 dvd totalLen b"
    and t: "phi_frameType info \<noteq> INVALID_MAX_FRAME_TYPE"
  obtains b' s where "SetPhyHeader be b info = (b', E_OK)" "sb_wf b'" "sb_mem b' \<noteq> None"
    "headerLen b' = headerLen b" "payloadLen b' = payloadLen b" "padLen b' = padLen b"
    "totalLen b' = totalLen b" "sb_off b' = sb_off b" "extendHeadLen b' = extendHeadLen b"
    "drop 32 (buffer_bytes b') = drop 32 (buffer_bytes b)"
    "phy_load True (buffer_bytes b') = frame_phy_header info b s"
    "CalculateXorSum be (drop 16 (buffer_bytes b')) (totalLen b - 16) = Inr s"
proof -
  let ?H = "frame_phy_header info b 0"
  define b1 where "b1 = write_mem b (sb_off b) (phy_store True ?H)"
  have tl: "32 \<le> totalLen b" "totalLen b < 4294967296" using sb_wf_lengths [OF wf] h by auto
  have wf1: "sb_wf b1" "buffer_bytes b1 = poke 0 (phy_store True ?H) (buffer_bytes b)"
    using write_mem_wf [OF wf, of 0] write_mem_buffer_bytes [OF wf m, of 0] tl
    by (simp_all add: b1_def phy.store_length)
  obtain s where s: "CalculateXorSum be (drop 16 (buffer_bytes b1)) (totalLen b - 16) = Inr s"
    using al tl(1) by (auto simp: CalculateXorSum_def dvd_imp_mod_0 dvd_diff_nat)
  define b' where "b' = write_mem b1 (sb_off b1 + 8) (mem_store True s)"
  have len: "length (buffer_bytes b) = totalLen b" "length (buffer_bytes b1) = totalLen b"
    using sb_wf_lengths(4) [OF wf] sb_wf_lengths(4) [OF wf1(1)] by (simp_all add: b1_def)
  have bb: "buffer_bytes b' = poke 8 (mem_store True s) (buffer_bytes b1)"
    using write_mem_buffer_bytes [OF wf1(1), of 8] m tl by (simp add: b'_def b1_def)
  have raw: "drop 16 (buffer_bytes b1) = take (totalLen b - 16) (drop 16 (rptr (GetReadOnlyBytesForEntireBuffer b1)))"
    using rptr_regions(1) [OF wf1(1)] by (simp add: b1_def flip: drop_take)
  have pad: "sub32 (totalLen b) (headerLen b + payloadLen b) = padLen b"
    using wf tl by (simp add: sb_wf_def)
  have s': "CalculateXorSum be (drop 16 (rptr (GetReadOnlyBytesForEntireBuffer b1))) (totalLen b - 16) = Inr s"
    using s by (simp add: raw CalculateXorSum_take)
  have w: "write_s b (sb_off b) (headerLen b) (phy_store be (ConvertHostToNet_phy be (FillPhyHeaderLenInfo
      \<lparr>magic = MAGIC_CODE, phyVersion = PROTOCOL_VERSION, packetLen = 0, checkSum = 0,
       sourceId = phi_sourceId info, frameId = phi_frameId info, packetType = 0, paddingLen = 0,
       dbIntVer = DB_GLOBAL_VERSION\<rparr> (totalLen b) 0
      (SetFrameType PACKET_TYPE_NOT_FRAGMENTED (phi_frameType info)) (of_nat (padLen b))))) = Some b1"
    using h by (simp add: write_s_def header_wire_order phy.store_length FillPhyHeaderLenInfo_def
        frame_phy_header_def PACKET_TYPE_NOT_FRAGMENTED_def b1_def)
  have "SetPhyHeader be b info = (b', E_OK)"
    using m h t s' w tl
    by (simp add: SetPhyHeader_def GetWritableBytesForHeader_def rptr_regions [OF wf] pad Let_def
        LENGTH_BEFORE_SUM_RANGE_def mem_store_HostToNet b'_def) (simp add: b1_def)
  moreover have "phy_load True (buffer_bytes b') = frame_phy_header info b s"
    using phy.load_at_poke [where s = ?H and off = 0 and buf = "buffer_bytes b" and be = True] len tl
    by (simp add: bb phy_load_checkSum_poke wf1 frame_phy_header_def)
  moreover have "drop 16 (buffer_bytes b') = drop 16 (buffer_bytes b1)"
    "drop 32 (buffer_bytes b') = drop 32 (buffer_bytes b)"
    using len tl by (simp_all add: bb wf1(2) drop_poke_before phy.store_length)
  moreover have "sb_wf b'" using write_mem_wf [OF wf1(1), of 8 "mem_store True s"] tl
    by (simp add: b'_def b1_def)
  ultimately show ?thesis using that [of b' s] m s by (simp add: b'_def b1_def)
qed

lemma SetDivergeHeader_ok:
  assumes wf: "sb_wf b" and m: "sb_mem b \<noteq> None" and h: "headerLen b = 72" and l: "length lab = 32"
  obtains b' where "SetDivergeHeader be b lab = (b', E_OK)" "sb_wf b'" "sb_mem b' \<noteq> None"
    "headerLen b' = headerLen b" "payloadLen b' = payloadLen b" "padLen b' = padLen b"
    "totalLen b' = totalLen b" "sb_off b' = sb_off b" "extendHeadLen b' = extendHeadLen b"
    "payload_bytes b' = payload_bytes b" "drop 72 (buffer_bytes b') = drop 72 (buffer_bytes b)"
    "diverge_load True (drop 32 (buffer_bytes b')) = \<lparr>divVersion = PROTOCOL_VERSION, reserved = 0,
       payLoadLen = of_nat (payloadLen b), commLabel = lab\<rparr>"
proof -
  let ?H = "\<lparr>divVersion = PROTOCOL_VERSION, reserved = 0, payLoadLen = of_nat (payloadLen b), commLabel = lab\<rparr>"
  define b' where "b' = write_mem b (sb_off b + 32) (diverge_store True ?H)"
  have dwf: "diverge_wf ?H" using l by (simp add: diverge_wf_def COMM_LABEL_LENGTH_def)
  have tl: "72 \<le> totalLen b" "length (buffer_bytes b) = totalLen b"
    using sb_wf_lengths [OF wf] h by auto
  have wf': "sb_wf b'" and bb: "buffer_bytes b' = poke 32 (diverge_store True ?H) (buffer_bytes b)"
    using write_mem_wf [OF wf, of 32] write_mem_buffer_bytes [OF wf m, of 32] tl dwf
    by (simp_all add: b'_def diverge.store_length)
  have d72: "drop 72 (buffer_bytes b') = drop 72 (buffer_bytes b)"
    using tl dwf by (simp add: bb drop_poke_before diverge.store_length)
  have "SetDivergeHeader be b lab = (b', E_OK)"
    using m h l dwf
    by (simp add: SetDivergeHeader_def GetWritableBytesForHeader_def rptr_regions [OF wf] write_s_def
        header_wire_order diverge.store_length proto_consts b'_def)
  moreover have "diverge_load True (drop 32 (buffer_bytes b')) = ?H"
    using diverge.load_at_poke [OF dwf, where off = 32 and buf = "buffer_bytes b" and be = True] tl by (simp add: bb)
  moreover have "payload_bytes b' = payload_bytes b"
    using d72 h payload_bytes_eq [OF wf] payload_bytes_eq [OF wf'] by (simp add: b'_def)
  ultimately show ?thesis using that [of b'] wf' d72 m by (simp add: b'_def)
qed

lemma sb_wf_words:
  assumes "sb_wf b"
  shows "unat (of_nat (totalLen b) :: u32) = totalLen b" "unat (of_nat (payloadLen b) :: u32) = payloadLen b"
    "unat (of_nat (padLen b) :: u8) = padLen b"
proof -
  have "totalLen b < 4294967296" "payloadLen b < 4294967296"
    using sb_wf_lengths(1,2) [OF assms] by auto
  then show "unat (of_nat (totalLen b) :: u32) = totalLen b"
    "unat (of_nat (payloadLen b) :: u32) = payloadLen b" by (simp_all add: unat_of_nat_eq)
  show "unat (of_nat (padLen b) :: u8) = padLen b"
    using assms by (simp add: sb_wf_def unat_of_nat_eq)
qed

lemma phy_valid_frame:
  assumes "sb_wf b" and "32 \<le> headerLen b" and "phi_sourceId info = HashFunc sc src"
    and "length bs = totalLen b" and "phy_load True bs = frame_phy_header info b s"
    and "CalculateXorSum be (drop 16 bs) (totalLen b - 16) = Inr s"
  shows "phy_valid be sc src bs"
proof -
  have "32 + padLen b \<le> totalLen b" "padLen b < 8" using assms(1,2) by (auto simp: sb_wf_def)
  then show ?thesis
    using assms by (simp add: phy_valid_def frame_phy_header_def MAX_PADDING_LEN_def sb_wf_words)
qed

text \<open>A frame whose physical header has been set passes the physical checks of the receiver.\<close>

lemma CheckAndParsePacket_SetPhyHeader:
  assumes wf: "sb_wf b" and "sb_mem b \<noteq> None" and h: "32 \<le> headerLen b" and "8 dvd totalLen b"
    and t: "phi_frameType info \<noteq> INVALID_MAX_FRAME_TYPE" and src: "phi_sourceId info = HashFunc sc src"
  obtains b' r where "SetPhyHeader be b info = (b', E_OK)" "sb_wf b'" "sb_mem b' \<noteq> None"
    "headerLen b' = headerLen b" "payloadLen b' = payloadLen b" "padLen b' = padLen b"
    "totalLen b' = totalLen b" "sb_off b' = sb_off b" "extendHeadLen b' = extendHeadLen b"
    "drop 32 (buffer_bytes b') = drop 32 (buffer_bytes b)"
    "pr_frameId r = phi_frameId info" "pr_sourceId r = phi_sourceId info" "pr_frameType r = phi_frameType info"
    "unat (pr_packetLen r) = totalLen b" "unat (pr_paddingLen r) = padLen b" "\<not> pr_isFragment r"
    "pr_dbVersion r = DB_GLOBAL_VERSION"
    "CheckAndParsePacket be sc src (Some (buffer_bytes b')) (totalLen b) ParseResult_init =
      (if phi_frameType info = EMPTY then (r, E_OK)
       else if phi_frameType info = APPLICATION_MESSAGE
       then ParseCommDivergeHeader be (buffer_bytes b') (totalLen b) r
       else ParseCommLayerPayload be (buffer_bytes b') (totalLen b) r)"
proof -
  obtain b' s where b': "SetPhyHeader be b info = (b', E_OK)" "sb_wf b'" "sb_mem b' \<noteq> None"
    "headerLen b' = headerLen b" "payloadLen b' = payloadLen b" "padLen b' = padLen b"
    "totalLen b' = totalLen b" "sb_off b' = sb_off b" "extendHeadLen b' = extendHeadLen b"
    "drop 32 (buffer_bytes b') = drop 32 (buffer_bytes b)"
    and ld: "phy_load True (buffer_bytes b') = frame_phy_header info b s"
    and sm: "CalculateXorSum be (drop 16 (buffer_bytes b')) (totalLen b - 16) = Inr s"
    using SetPhyHeader_ok [OF assms(1-5)] by blast
  have len: "length (buffer_bytes b') = totalLen b" "totalLen b \<le> MAX_TOTAL_LEN"
    using sb_wf_lengths(4) [OF b'(2)] b'(7) wf by (simp_all add: sb_wf_def)
  have v: "phy_valid be sc src (buffer_bytes b')"
    by (rule phy_valid_frame [OF wf h src len(1) ld sm])
  define r where "r = (phy_result ParseResult_init (frame_phy_header info b s))\<lparr>pr_frameType := phi_frameType info\<rparr>"
  have "ParseCommPhyHeader be sc src (buffer_bytes b') (totalLen b) ParseResult_init = (r, E_OK)"
    using ParseCommPhyHeader_valid [OF v, of ParseResult_init] len t
    by (simp add: ld r_def frame_phy_header_def GetFrameType_SetFrameType Let_def)
  moreover have r: "pr_frameId r = phi_frameId info" "pr_sourceId r = phi_sourceId info"
    "pr_frameType r = phi_frameType info" "\<not> pr_isFragment r"
    "pr_dbVersion r = DB_GLOBAL_VERSION"
    by (simp_all add: r_def phy_result_def frame_phy_header_def ParseResult_init_def
        SetFrameType_not_fragmented)
  moreover have "unat (pr_packetLen r) = totalLen b" "unat (pr_paddingLen r) = padLen b"
    using sb_wf_words [OF wf] by (simp_all add: r_def phy_result_def frame_phy_header_def)
  ultimately show ?thesis
    using that [of b' r] b' len by (simp add: CheckAndParsePacket_def)
qed

lemma ParseCommDivergeHeader_ok:
  assumes "72 \<le> len" and "len \<le> length bs" and "divVersion (diverge_load True (drop 32 bs)) = PROTOCOL_VERSION"
    and "72 + unat (payLoadLen (diverge_load True (drop 32 bs))) + unat (pr_paddingLen r) = unat (pr_packetLen r)"
  shows "ParseCommDivergeHeader be bs len r =
    (r\<lparr>pr_payloadLen := payLoadLen (diverge_load True (drop 32 bs)),
       pr_commLabel := commLabel (diverge_load True (drop 32 bs))\<rparr>, E_OK)"
proof -
  have "NetToHost be (mem_load be (drop 32 bs)) = divVersion (diverge_load True (drop 32 bs))"
    using assms(1,2) by (simp add: NetToHost_mem_load diverge_load_def)
  then show ?thesis using assms by (simp add: ParseCommDivergeHeader_def Let_def)
qed

section \<open>Label exchange\<close>

lemma peek_concat:
  assumes "\<And>l. l \<in> set ls \<Longrightarrow> length l = n" and "i < length ls"
  shows "peek (i * n) n (concat ls @ rest) = ls ! i"
  using assms
proof (induction ls arbitrary: i)
  case (Cons l ls)
  then show ?case by (cases i) (auto simp: peek_def)
qed simp

lemma fold_insert_labels:
  "fold (\<lambda>i s. let l = f i in if l \<in> s then s else insert l s) is S = S \<union> f ` set is"
  by (induction "is" arbitrary: S) (auto simp: Let_def)

lemma length_concat_same: "(\<And>l. l \<in> set ls \<Longrightarrow> length l = n) \<Longrightarrow> length (concat ls) = length ls * n"
  by (induction ls) auto

lemma net64_True [simp]: "net64 be w = mem_store True w"
  by (simp add: net64_def mem_store_HostToNet)

lemma field64_load:
  assumes "32 + 8 * i + 8 \<le> length bs"
  shows "field64 be bs i = mem_load True (drop (8 * i) (drop 32 bs))"
proof -
  have conv: "NetToHost be (mem_load be x) = (mem_load True x :: u64)" if "8 \<le> length x" for x
    using that by (simp add: NetToHost_mem_load)
  have "8 \<le> length (drop (32 + 8 * i) bs)" using assms by (simp only: length_drop)
  from conv [OF this] show ?thesis by (simp add: field64_def add.commute)
qed

text \<open>Writing the whole payload of a fresh frame.\<close>

lemma write_payload:
  assumes wf: "sb_wf b" and m: "sb_mem b \<noteq> None" and l: "length bs = payloadLen b"
  shows "sb_wf (write_mem b (sb_off b + headerLen b) bs)"
    "payload_bytes (write_mem b (sb_off b + headerLen b) bs) = bs"
proof -
  have fits: "headerLen b + length bs \<le> totalLen b" using sb_wf_lengths(2) [OF wf] l by simp
  show wf': "sb_wf (write_mem b (sb_off b + headerLen b) bs)" using write_mem_wf [OF wf fits] .
  show "payload_bytes (write_mem b (sb_off b + headerLen b) bs) = bs"
    using payload_bytes_eq [OF wf'] write_mem_buffer_bytes [OF wf m fits] sb_wf_lengths(4) [OF wf] fits l
    by (simp add: buf_simps)
qed

lemma AllocBufferByPayloadLength_fresh:
  assumes "reliable al" and "sb_mem b = None" and "externalBytes b = None" and "\<not> isExternalStackMemory b"
    and "0 < pl + hl" and "pl + hl + 8 \<le> MAX_TOTAL_LEN"
  obtains b' where "AllocBufferByPayloadLength al b pl hl = (b', E_OK)" "sb_wf b'" "sb_mem b' \<noteq> None"
    "headerLen b' = hl" "payloadLen b' = pl" "8 dvd totalLen b'" "sb_off b' = extendHeadLen b"
    "extendHeadLen b' = extendHeadLen b"
proof -
  obtain b' where b': "AllocBufferByPayloadLength al b pl hl = (b', E_OK)"
    using AllocBufferByPayloadLength_succeeds [OF assms(1-3,5,6)] by blast
  have "pl + hl + 8 < 4294967296" using assms(6) by (simp add: MAX_TOTAL_LEN_def)
  from AllocBufferByPayloadLength_ok [OF b' this assms(4)] show ?thesis
    using that [OF b'] by simp
qed

lemma SerialBuffer_init_fields [simp]:
  "sb_mem SerialBuffer_init = None" "externalBytes SerialBuffer_init = None"
  "\<not> isExternalStackMemory SerialBuffer_init" "extendHeadLen SerialBuffer_init = 0"
  by (simp_all add: SerialBuffer_init_def)

lemma BuildLabelExchange_ok:
  assumes "reliable al" and "\<And>l. l \<in> set labels \<Longrightarrow> length l = 32"
    and "32 + length labels * 32 + 40 \<le> MAX_TOTAL_LEN"
  obtains b where "BuildLabelExchange al be dv sq labels = Inr b" "sb_wf b" "sb_mem b \<noteq> None"
    "headerLen b = 32" "8 dvd totalLen b" "extendHeadLen b = 0"
    "payload_bytes b = mem_store True (0 :: u64) @ mem_store True dv @ mem_store True sq @
       mem_store True (of_nat (length labels) :: u64) @ concat labels"
proof -
  let ?p = "32 + length labels * 32"
  let ?bs = "mem_store True (0 :: u64) @ mem_store True dv @ mem_store True sq @
       mem_store True (of_nat (length labels) :: u64) @ concat labels"
  obtain b where b: "AllocBufferByPayloadLength al SerialBuffer_init ?p 32 = (b, E_OK)" "sb_wf b"
    "sb_mem b \<noteq> None" "headerLen b = 32" "payloadLen b = ?p" "8 dvd totalLen b"
    "extendHeadLen b = 0"
    by (rule AllocBufferByPayloadLength_fresh [OF assms(1), of SerialBuffer_init ?p 32])
      (use assms(3) in auto)
  have w: "wrap32 ?p = ?p" using assms(3) by (simp add: MAX_TOTAL_LEN_def)
  have l: "length ?bs = payloadLen b"
    using length_concat_same [of labels 32] assms(2) by (simp add: b)
  define b' where "b' = write_mem b (sb_off b + headerLen b) ?bs"
  have "BuildLabelExchange al be dv sq labels = Inr b'"
    using b assms(1) w
    by (simp add: BuildLabelExchange_def proto_consts reliable_def GetWritableBytesForPayload_def
        PROTOCOL_VERSION_def b'_def)
  then show ?thesis
    using that [of b'] write_payload [OF b(2,3) l] b by (simp add: b'_def)
qed

lemma ParseLabelExchange_ok:
  assumes "drop 32 bs = mem_store True (0 :: u64) @ mem_store True dv @ mem_store True sq @
       mem_store True (of_nat (length labels) :: u64) @ concat labels @ rest"
    and "\<And>l. l \<in> set labels \<Longrightarrow> length l = 32" and "length bs \<le> MAX_TOTAL_LEN" and "32 \<le> length bs"
  shows "ParseLabelExchange be bs (length bs) r =
    (r\<lparr>pr_labelExchangeDistinctValue := dv, pr_labelExchangeSequenceId := sq,
       pr_latestCommLabels := set labels\<rparr>, E_OK)"
proof -
  let ?n = "length labels"
  have "length (drop 32 bs) = 32 + ?n * 32 + length rest"
    using length_concat_same [of labels 32] assms(2) by (simp add: assms(1))
  then have len: "length bs = 64 + ?n * 32 + length rest" using assms(4) by simp
  have n: "unat (of_nat ?n :: u64) = ?n"
    using len assms(3) by (simp add: MAX_TOTAL_LEN_def unat_of_nat_eq)
  have f: "field64 be bs 0 = 0" "field64 be bs 1 = dv" "field64 be bs 2 = sq"
    "field64 be bs 3 = of_nat ?n"
    using len by (simp_all add: field64_load assms(1) mem64.load_store)
  have "drop 64 bs = drop 32 (drop 32 bs)" by simp
  then have start: "drop 64 bs = concat labels @ rest" by (simp add: assms(1))
  have "map (\<lambda>i. peek (i * 32) 32 (drop 64 bs)) [0..<?n] = labels"
    using peek_concat [of labels 32 _ rest] assms(2) by (intro nth_equalityI) (simp_all add: start)
  then have "set (map (\<lambda>i. peek (i * 32) 32 (drop 64 bs)) [0..<?n]) = set labels" by (rule arg_cong)
  then have ls: "fold (\<lambda>i s. if peek (i * 32) 32 (drop 64 bs) \<in> s then s
      else insert (peek (i * 32) 32 (drop 64 bs)) s) [0..<?n] {} = set labels"
    by (subst fold_insert_labels [unfolded Let_def]) (simp only: set_map Un_empty_left)
  show ?thesis
    using len assms(3) f n ls
    by (simp add: ParseLabelExchange_def proto_consts PROTOCOL_VERSION_def Let_def)
qed

end
