(* ===== verification/Frame_Roundtrip.thy ===== *)
theory Frame_Roundtrip
  imports Protocol_Proto
begin

text \<open>
  What a sender builds with \<^verbatim>\<open>ProtocolProto\<close> is what a receiver parses: application messages, label
  exchanges and their acknowledgements, and the empty frame of version negotiation. Also: which
  corruptions the checksum detects, and what it does between hosts of different byte order.
\<close>

section \<open>Extension heads and messages\<close>

text \<open>
  The contract of an \<^verbatim>\<open>ExtendHeaderHandle\<close> that permits sending: a size that is a multiple of eight
  and at most 512, and a fill that writes exactly that many bytes.
\<close>

definition ext_permits :: "ExtendHeaderHandle option \<Rightarrow> bool" where
  "ext_permits ext = (case ext of None \<Rightarrow> True
     | Some h \<Rightarrow> (case GetHeadDataSize h of None \<Rightarrow> False
         | Some n \<Rightarrow> n \<le> MAX_EXTEND_HEAD_LENGTH \<and> n mod 8 = 0 \<and>
             (\<forall>t. \<exists>bs. FillHeadData h n t = Some bs \<and> length bs = n)))"

definition ext_size :: "ExtendHeaderHandle option \<Rightarrow> nat" where
  "ext_size ext = (case ext of None \<Rightarrow> 0 | Some h \<Rightarrow> (case GetHeadDataSize h of None \<Rightarrow> 0 | Some n \<Rightarrow> n))"

lemma GetExtendHeadDataSize_permits:
  assumes "ext_permits ext"
  shows "GetExtendHeadDataSize ext = Inr (ext_size ext)" "ext_size ext \<le> 512"
  using assms
  by (auto simp: ext_permits_def GetExtendHeadDataSize_def ext_size_def MAX_EXTEND_HEAD_LENGTH_def
      BYTE_8_ALIGN_aligned split: option.splits)

lemma write_mem_head:
  assumes "sb_wf b" and "sb_mem b \<noteq> None" and "a + length bs \<le> sb_off b"
  shows "sb_wf (write_mem b a bs)" "buffer_bytes (write_mem b a bs) = buffer_bytes b"
proof -
  obtain m where m: "sb_mem b = Some m" using assms(2) by auto
  have l: "sb_off b + totalLen b \<le> length m" "\<not> isExternalStackMemory b" "externalBytes b = None"
    using assms(1) m by (auto simp: sb_wf_def)
  show "sb_wf (write_mem b a bs)"
    using assms m l by (auto simp: sb_wf_def write_mem_def)
  have "drop (sb_off b) (poke a bs m) = drop (sb_off b) m"
    using assms(3) l by (simp add: drop_poke_before)
  then show "buffer_bytes (write_mem b a bs) = buffer_bytes b"
    using m l by (simp add: buffer_bytes_def sb_getter_defs write_mem_def)
qed

lemma FillExtendHeadDataIfNeed_permits:
  assumes "ext_permits ext" and "sb_wf b" and "sb_mem b \<noteq> None" and "ext_size ext = sb_off b"
  obtains b' where "FillExtendHeadDataIfNeed ext b (ext_size ext) = (b', E_OK)" "sb_wf b'"
    "sb_mem b' \<noteq> None" "headerLen b' = headerLen b" "payloadLen b' = payloadLen b"
    "totalLen b' = totalLen b" "sb_off b' = sb_off b" "extendHeadLen b' = extendHeadLen b"
    "buffer_bytes b' = buffer_bytes b"
proof (cases "ext = None \<or> ext_size ext = 0")
  case True
  then have "FillExtendHeadDataIfNeed ext b (ext_size ext) = (b, E_OK)"
    by (auto simp: FillExtendHeadDataIfNeed_def split: option.splits)
  then show ?thesis using that assms by blast
next
  case False
  then obtain h where h: "ext = Some h" "GetHeadDataSize h = Some (ext_size ext)"
    using assms(1) by (auto simp: ext_size_def ext_permits_def split: option.splits)
  then obtain bs where bs: "FillHeadData h (ext_size ext) (wrap32 (GetSize b + ext_size ext)) = Some bs"
    "length bs = ext_size ext"
    using assms(1) by (auto simp: ext_permits_def)
  have "FillExtendHeadDataIfNeed ext b (ext_size ext) = (write_mem b 0 bs, E_OK)"
    using False h bs by (simp add: FillExtendHeadDataIfNeed_def)
  then show ?thesis
    using that write_mem_head [OF assms(2,3), of 0 bs] assms bs by (simp del: not_None_eq)
qed

text \<open>
  The contract of a registered transform function on a message: it announces the length of the data,
  fills a region of that length completely, and the deserializer restores the object from those
  bytes into a message that has the header fields only.
\<close>

definition header_only :: "'o Message \<Rightarrow> 'o Message" where
  "header_only m = m\<lparr>m_holder := None, m_target := [], m_prio := LOW\<rparr>"

text \<open>
  The transformation functions of a sender and of a receiver fit: what the sender's function writes into a buffer of the
  computed length is read by the receiver's as the object \<open>h\<close>.
\<close>

definition transforms_to :: "'o TransformFunc \<Rightarrow> 'o TransformFunc \<Rightarrow> 'o Message \<Rightarrow> 'o option \<Rightarrow> bool" where
  "transforms_to f g m h \<longleftrightarrow>
     (case (computeFunc f, serializeFunc f, deserializeFunc g) of
        (Some c, Some s, Some d) \<Rightarrow>
          (\<forall>region. length region = unat (c m) \<longrightarrow>
             (\<exists>bs. s region m = (E_OK, bs) \<and> length bs = unat (c m) \<and>
                d bs (header_only m) = (E_OK, (header_only m)\<lparr>m_holder := h\<rparr>)))
      | _ \<Rightarrow> False)"

definition data_length :: "'o TransformFunc \<Rightarrow> 'o Message \<Rightarrow> nat" where
  "data_length f m = (case computeFunc f of None \<Rightarrow> 0 | Some c \<Rightarrow> unat (c m))"

definition MAX_DATA_LEN :: nat where "MAX_DATA_LEN = MAX_FRAME_LEN - GetLengthBeforeSerializedData"

lemma CalculateDataSerializeLength_sound:
  assumes "reg (m_messageId m) = Some f" and "transforms_to f g m h"
    and "0 < data_length f m" and "data_length f m \<le> MAX_DATA_LEN"
  shows "CalculateDataSerializeLength reg m = Inr (data_length f m)"
proof -
  have "BYTE_8_ALIGN (data_length f m) \<le> BYTE_8_ALIGN MAX_DATA_LEN"
    by (rule BYTE_8_ALIGN_mono [OF assms(4)])
  also have "\<dots> = MAX_DATA_LEN" by (simp add: MAX_DATA_LEN_def proto_consts BYTE_8_ALIGN_def)
  finally have "BYTE_8_ALIGN (data_length f m) \<le> MAX_DATA_LEN" .
  then show ?thesis
    using assms
    by (auto simp: CalculateDataSerializeLength_def data_length_def transforms_to_def MAX_DATA_LEN_def
        proto_consts Let_def split: option.splits)
qed

lemma SerializeMessage_sound:
  assumes wf: "sb_wf b" and m: "sb_mem b \<noteq> None" and reg: "reg (m_messageId msg) = Some f"
    and ts: "transforms_to f g msg h" and pl: "payloadLen b = 24 + data_length f msg"
    and pos: "0 < data_length f msg"
  obtains b' bs where "SerializeMessage be reg b msg = (b', E_OK)" "sb_wf b'" "sb_mem b' \<noteq> None"
    "headerLen b' = headerLen b" "payloadLen b' = payloadLen b" "totalLen b' = totalLen b"
    "sb_off b' = sb_off b" "extendHeadLen b' = extendHeadLen b" "length bs = data_length f msg"
    "payload_bytes b' = msg_store True (message_header msg (data_length f msg)) @ bs"
    "(the (deserializeFunc g)) bs (header_only msg) = (E_OK, (header_only msg)\<lparr>m_holder := h\<rparr>)"
proof -
  let ?H = "msg_store True (message_header msg (data_length f msg))"
  let ?a = "sb_off b + headerLen b"
  obtain s where s: "serializeFunc f = Some s" and rg: "\<And>region. length region = data_length f msg \<Longrightarrow>
      \<exists>bs. s region msg = (E_OK, bs) \<and> length bs = data_length f msg \<and>
        (the (deserializeFunc g)) bs (header_only msg) = (E_OK, (header_only msg)\<lparr>m_holder := h\<rparr>)"
    using ts by (auto simp: transforms_to_def data_length_def split: option.splits)
  obtain mem where mem: "sb_mem b = Some mem" using m by auto
  have fits: "headerLen b + 24 + data_length f msg \<le> totalLen b" "sb_off b + totalLen b \<le> length mem"
    using wf pl mem by (auto simp: sb_wf_def)
  define b1 where "b1 = write_mem b ?a ?H"
  have lr: "length (peek (?a + 24) (data_length f msg) (the (sb_mem b1))) = data_length f msg"
    using fits by (simp add: b1_def write_mem_def mem msg.store_length)
  then obtain bs where bs: "s (peek (?a + 24) (data_length f msg) (the (sb_mem b1))) msg = (E_OK, bs)"
    "length bs = data_length f msg"
    "(the (deserializeFunc g)) bs (header_only msg) = (E_OK, (header_only msg)\<lparr>m_holder := h\<rparr>)"
    using rg by blast
  define b' where "b' = write_mem b1 (?a + 24) bs"
  have "SerializeMessage be reg b msg = (b', E_OK)"
    using m reg pl pos s bs(1)
    by (simp add: SerializeMessage_def GetWritableBytesForPayload_def header_wire_order Let_def
        b'_def b1_def)
  moreover have same: "b' = write_mem b ?a (?H @ bs)"
    using fits bs(2) by (simp add: b'_def b1_def write_mem_def mem poke_def msg.store_length ac_simps)
  ultimately show ?thesis
    using that [of b' bs] write_payload [OF wf m, of "?H @ bs"] pl bs m
    by (simp add: msg.store_length del: not_None_eq)
qed

lemma ToSerialBuffer_sound:
  assumes al: "reliable al" and ext: "ext_permits ext" and reg: "reg (m_messageId msg) = Some f"
    and ts: "transforms_to f g msg h" and pos: "0 < data_length f msg" and mx: "data_length f msg \<le> MAX_DATA_LEN"
  obtains b bs where "ToSerialBuffer al be reg (Some msg) ext False = Inr b" "sb_wf b" "sb_mem b \<noteq> None"
    "headerLen b = 72" "payloadLen b = 24 + data_length f msg" "8 dvd totalLen b"
    "sb_off b = ext_size ext" "extendHeadLen b = ext_size ext" "length bs = data_length f msg"
    "payload_bytes b = msg_store True (message_header msg (data_length f msg)) @ bs"
    "(the (deserializeFunc g)) bs (header_only msg) = (E_OK, (header_only msg)\<lparr>m_holder := h\<rparr>)"
proof -
  let ?L = "data_length f msg"
  define b0 where "b0 = (if ext_size ext > 0 then SetExtendHeadLength SerialBuffer_init (ext_size ext)
                else SerialBuffer_init)"
  have b0: "sb_mem b0 = None" "externalBytes b0 = None" "\<not> isExternalStackMemory b0"
    "extendHeadLen b0 = ext_size ext"
    by (simp_all add: b0_def SetExtendHeadLength_def)
  have small: "24 + ?L + 72 + 8 \<le> MAX_TOTAL_LEN" "wrap32 (?L + 24) = 24 + ?L"
    using mx by (simp_all add: MAX_DATA_LEN_def proto_consts)
  obtain b1 where b1: "AllocBufferByPayloadLength al b0 (24 + ?L) 72 = (b1, E_OK)" "sb_wf b1"
    "sb_mem b1 \<noteq> None" "headerLen b1 = 72" "payloadLen b1 = 24 + ?L" "8 dvd totalLen b1"
    "sb_off b1 = ext_size ext" "extendHeadLen b1 = ext_size ext"
    using AllocBufferByPayloadLength_fresh [OF al b0(1-3), of "24 + ?L" 72] small(1) b0(4) by auto
  obtain b2 where b2: "FillExtendHeadDataIfNeed ext b1 (ext_size ext) = (b2, E_OK)" "sb_wf b2"
    "sb_mem b2 \<noteq> None" "headerLen b2 = 72" "payloadLen b2 = 24 + ?L" "totalLen b2 = totalLen b1"
    "sb_off b2 = ext_size ext" "extendHeadLen b2 = ext_size ext"
    using FillExtendHeadDataIfNeed_permits [OF ext b1(2,3) b1(7) [symmetric]] b1 by metis
  obtain b3 bs where b3: "SerializeMessage be reg b2 msg = (b3, E_OK)" "sb_wf b3" "sb_mem b3 \<noteq> None"
    "headerLen b3 = 72" "payloadLen b3 = 24 + ?L" "totalLen b3 = totalLen b1" "sb_off b3 = ext_size ext"
    "extendHeadLen b3 = ext_size ext" "length bs = ?L"
    "payload_bytes b3 = msg_store True (message_header msg ?L) @ bs"
    "(the (deserializeFunc g)) bs (header_only msg) = (E_OK, (header_only msg)\<lparr>m_holder := h\<rparr>)"
    using SerializeMessage_sound [where reg = reg, OF b2(2,3) reg ts b2(5) pos, where be = be] b2 by metis
  have "ToSerialBuffer al be reg (Some msg) ext False = Inr b3"
    using al small(2) b1(1) b2(1) b3(1)
    by (simp add: ToSerialBuffer_def CalculateDataSerializeLength_sound [where reg = reg, OF reg ts pos mx]
        GetExtendHeadDataSize_permits [OF ext] reliable_def GetAppLayerFrameHeaderLength_def
        flip: b0_def)
  then show ?thesis using that b3 b1(6) by simp
qed

definition sendable :: "'o Message \<Rightarrow> bool" where
  "sendable m \<longleftrightarrow> IsSupportMessageVersion (m_version m) \<and>
     m_messageType m \<in> {TYPE_REQUEST, TYPE_RESPONSE, TYPE_NOTIFY} \<and> \<not> IsFeedbackErrorMessage (m_errorNo m)"

lemma rptr_payload:
  assumes "sb_wf b"
  shows "take (payloadLen b) (rptr (GetReadOnlyBytesForPayload b)) = payload_bytes b"
  using assms
  by (auto simp: rptr_def payload_bytes_def sb_getter_defs sb_wf_def split: option.splits)

lemma DeSerializeMessage_header:
  assumes "sb_wf b" and "payload_bytes b = msg_store True (message_header msg L) @ bs"
    and "length bs = L" and "IsSupportMessageVersion (m_version msg)"
    and "m_messageType msg \<in> {TYPE_REQUEST, TYPE_RESPONSE, TYPE_NOTIFY}"
  shows "DeSerializeMessage be reg b Message_init only =
    (if IsFeedbackErrorMessage (m_errorNo msg) \<or> only \<or> L = 0 then (header_only msg, E_OK)
     else case reg (m_messageId msg) of
            None \<Rightarrow> (header_only msg, E_NOT_REGISTER)
          | Some f \<Rightarrow> (case deserializeFunc f of
              None \<Rightarrow> (header_only msg, ABORTED)
            | Some d \<Rightarrow> (case d bs (header_only msg) of
                (e, m') \<Rightarrow> if e \<noteq> E_OK then (m', E_DESERIALIZE_ERROR) else (m', E_OK))))"
proof -
  let ?r = "rptr (GetReadOnlyBytesForPayload b)"
  have pl: "payloadLen b = 24 + L" using sb_wf_lengths(6) [OF assms(1)] assms(2,3) by (simp add: msg.store_length)
  have tk: "take (24 + L) ?r = msg_store True (message_header msg L) @ bs"
    using rptr_payload [OF assms(1)] assms(2) pl by simp
  then have r: "?r = msg_store True (message_header msg L) @ bs @ drop (24 + L) ?r"
    by (metis append.assoc append_take_drop_id)
  have len: "24 + L \<le> length ?r"
    using arg_cong [OF tk, of length] assms(3) by (simp add: msg.store_length)
  have ld: "msg_load True ?r = message_header msg L" by (subst r) (simp add: msg.load_store)
  have v: "NetToHost be (mem_load be ?r) = m_version msg"
    using ld len by (simp add: NetToHost_mem_load msg_load_def message_header_def)
  have "L < 4294967296" using sb_wf_lengths(1,2) [OF assms(1)] pl by simp
  then have dl: "unat (of_nat L :: u32) = L" by (simp add: unat_of_nat_eq)
  have data: "take L (drop 24 ?r) = bs"
    by (subst r) (simp add: msg.store_length assms(3))
  have m: "(fst (SetMessageType (SetVersion Message_init (m_version msg)) (m_messageType msg)))
      \<lparr>m_messageId := m_messageId msg, m_sessionId := m_sessionId msg, m_sequenceId := m_sequenceId msg,
       m_errorNo := m_errorNo msg\<rparr> = header_only msg"
    using assms(4,5) by (cases msg)
      (auto simp: SetMessageType_def SetVersion_def Message_init_def header_only_def IsSupportMessageVersion_def)
  show ?thesis
    using assms(4) pl len ld v dl data m rptr_regions(6) [OF assms(1)]
    by (simp add: DeSerializeMessage_def Let_def message_header_def header_only_def
        split: option.splits prod.splits)
qed

section \<open>Round trips\<close>

lemma payload_split:
  assumes "sb_wf b"
  shows "drop (headerLen b) (buffer_bytes b) =
    payload_bytes b @ drop (headerLen b + payloadLen b) (buffer_bytes b)"
  by (simp add: payload_bytes_eq [OF assms] take_drop_join)

lemma message_travels:
  assumes "reliable al" and "ext_permits ext" and "reg (m_messageId msg) = Some f" and "reg' (m_messageId msg) = Some g"
    and "transforms_to f g msg h" and "0 < data_length f msg" and "data_length f msg \<le> MAX_DATA_LEN"
    and "sendable msg"
  shows "\<exists>b. ToSerialBuffer al be reg (Some msg) ext False = Inr b \<and>
    ToMessage al be' reg' (Some b) False = Inr (msg\<lparr>m_holder := h, m_target := [], m_prio := LOW\<rparr>, E_OK)"
proof -
  obtain b bs where b: "ToSerialBuffer al be reg (Some msg) ext False = Inr b" "sb_wf b"
    "length bs = data_length f msg"
    "payload_bytes b = msg_store True (message_header msg (data_length f msg)) @ bs"
    "(the (deserializeFunc g)) bs (header_only msg) = (E_OK, (header_only msg)\<lparr>m_holder := h\<rparr>)"
    by (rule ToSerialBuffer_sound [where reg = reg, OF assms(1-3,5-7), where be = be])
  obtain d where d: "deserializeFunc g = Some d"
    using assms(5) by (auto simp: transforms_to_def split: option.splits)
  have "header_only msg\<lparr>m_holder := h\<rparr> = msg\<lparr>m_holder := h, m_target := [], m_prio := LOW\<rparr>"
    by (cases msg) (simp add: header_only_def)
  then have "ToMessage al be' reg' (Some b) False = Inr (msg\<lparr>m_holder := h, m_target := [], m_prio := LOW\<rparr>, E_OK)"
    using DeSerializeMessage_header [OF b(2,4,3), where be = be' and reg = reg' and only = False]
      assms(1,4,6,8) b(5) d
    by (simp add: ToMessage_def reliable_def sendable_def)
  then show ?thesis using b(1) by blast
qed

text \<open>
  C5. A registered message that the communicator can carry survives serialization: \<^verbatim>\<open>ToSerialBuffer\<close>
  succeeds, and \<^verbatim>\<open>ToMessage\<close>, on a host of any byte order, yields the same version, type, ids,
  error number and the object that the receiver's function reads; only the local target and priority are not
  transferred.
\<close>

theorem message_roundtrip:
  assumes "reliable al" and "ext_permits ext" and "reg (m_messageId msg) = Some f" and "reg' (m_messageId msg) = Some g"
    and "transforms_to f g msg h" and "0 < data_length f msg" and "data_length f msg \<le> MAX_DATA_LEN"
    and "sendable msg"
  shows "\<exists>b. ToSerialBuffer al be reg (Some msg) ext False = Inr b \<and>
    ToMessage al be' reg' (Some b) False = Inr (msg\<lparr>m_holder := h, m_target := [], m_prio := LOW\<rparr>, E_OK)"
  using assms by (rule message_travels)

text \<open>
  C7. An application frame whose two headers have been set is accepted by the receiver, which
  recovers frame id, source, communicator label and payload length; setting the headers leaves the
  payload alone.
\<close>

theorem application_frame_accepted:
  assumes "sb_wf b" and "sb_mem b \<noteq> None" and "headerLen b = GetAppLayerFrameHeaderLength"
    and "8 dvd totalLen b" and "length lab = COMM_LABEL_LENGTH"
    and "phi_frameType info = APPLICATION_MESSAGE" and "phi_sourceId info = HashFunc sc src"
  shows "\<exists>b1 b2 r. SetDivergeHeader be b lab = (b1, E_OK) \<and> SetPhyHeader be b1 info = (b2, E_OK) \<and>
    CheckAndParsePacket be sc src (Some (buffer_bytes b2)) (GetSize b2) ParseResult_init = (r, E_OK) \<and>
    payload_bytes b2 = payload_bytes b \<and> extendHeadLen b2 = extendHeadLen b \<and> sb_wf b2 \<and>
    pr_frameId r = phi_frameId info \<and> pr_sourceId r = phi_sourceId info \<and> pr_commLabel r = lab \<and>
    pr_frameType r = APPLICATION_MESSAGE \<and> \<not> pr_isFragment r \<and>
    unat (pr_payloadLen r) = payloadLen b \<and>
    unat (pr_packetLen r) - unat (pr_paddingLen r) = headerLen b + payloadLen b"
proof -
  have h: "headerLen b = 72" and l: "length lab = 32" using assms(3,5) by (simp_all add: proto_consts)
  obtain b1 where b1: "SetDivergeHeader be b lab = (b1, E_OK)" "sb_wf b1" "sb_mem b1 \<noteq> None"
    "headerLen b1 = headerLen b" "payloadLen b1 = payloadLen b" "padLen b1 = padLen b"
    "totalLen b1 = totalLen b" "extendHeadLen b1 = extendHeadLen b" "payload_bytes b1 = payload_bytes b"
    "diverge_load True (drop 32 (buffer_bytes b1)) = \<lparr>divVersion = PROTOCOL_VERSION, reserved = 0,
       payLoadLen = of_nat (payloadLen b), commLabel = lab\<rparr>"
    by (rule SetDivergeHeader_ok [OF assms(1,2) h l, where be = be])
  obtain b2 r where b2: "SetPhyHeader be b1 info = (b2, E_OK)" "sb_wf b2"
    "headerLen b2 = headerLen b1" "payloadLen b2 = payloadLen b1" "totalLen b2 = totalLen b1"
    "extendHeadLen b2 = extendHeadLen b1" "drop 32 (buffer_bytes b2) = drop 32 (buffer_bytes b1)"
    and r: "pr_frameId r = phi_frameId info" "pr_sourceId r = phi_sourceId info"
    "pr_frameType r = phi_frameType info" "unat (pr_packetLen r) = totalLen b1"
    "unat (pr_paddingLen r) = padLen b1" "\<not> pr_isFragment r"
    and parse: "CheckAndParsePacket be sc src (Some (buffer_bytes b2)) (totalLen b1) ParseResult_init =
      (if phi_frameType info = EMPTY then (r, E_OK)
       else if phi_frameType info = APPLICATION_MESSAGE
       then ParseCommDivergeHeader be (buffer_bytes b2) (totalLen b1) r
       else ParseCommLayerPayload be (buffer_bytes b2) (totalLen b1) r)"
    by (rule CheckAndParsePacket_SetPhyHeader [OF b1(2,3), where info = info and sc = sc and src = src and be = be])
      (use assms b1 h in auto)
  have len: "length (buffer_bytes b2) = totalLen b" "72 + payloadLen b + padLen b = totalLen b"
    using sb_wf_lengths(4) [OF b2(2)] b2(5) b1(7) assms(1) h by (simp_all add: sb_wf_def)
  have "ParseCommDivergeHeader be (buffer_bytes b2) (totalLen b) r =
      (r\<lparr>pr_payloadLen := of_nat (payloadLen b), pr_commLabel := lab\<rparr>, E_OK)"
    using len b1(5-7,10) b2(7) r sb_wf_words(2) [OF assms(1)]
    by (subst ParseCommDivergeHeader_ok) auto
  moreover have "payload_bytes b2 = payload_bytes b1"
    using payload_bytes_eq [OF b2(2)] payload_bytes_eq [OF b1(2)] b2(3,4) b1(4) h
      arg_cong [OF b2(7), of "drop 40"] by simp
  ultimately show ?thesis
    using b1 b2 r parse len sb_wf_words(2) [OF assms(1)] assms(6) h GetSize_wf [OF b2(2)] by auto
qed

text \<open>
  C30. A label exchange built for a set of labels is parsed back to the same distinct value, sequence
  id and label set.
\<close>

theorem label_exchange_roundtrip:
  assumes "reliable al" and "\<forall>l \<in> set labels. length l = COMM_LABEL_LENGTH"
    and "72 + length labels * 32 \<le> MAX_TOTAL_LEN"
    and "phi_frameType info = COMMUNICATION_LABEL_EXCHANGE" and "phi_sourceId info = HashFunc sc src"
  shows "\<exists>b b' r. BuildLabelExchange al be dv sq labels = Inr b \<and> SetPhyHeader be b info = (b', E_OK) \<and>
    CheckAndParsePacket be sc src (Some (buffer_bytes b')) (GetSize b') ParseResult_init = (r, E_OK) \<and>
    pr_frameType r = COMMUNICATION_LABEL_EXCHANGE \<and> pr_frameId r = phi_frameId info \<and>
    pr_labelExchangeDistinctValue r = dv \<and> pr_labelExchangeSequenceId r = sq \<and>
    pr_latestCommLabels r = set labels"
proof -
  have ls: "\<And>l. l \<in> set labels \<Longrightarrow> length l = 32" using assms(2) by (simp add: proto_consts)
  let ?P = "mem_store True (0 :: u64) @ mem_store True dv @ mem_store True sq @
       mem_store True (of_nat (length labels) :: u64) @ concat labels"
  obtain b where b: "BuildLabelExchange al be dv sq labels = Inr b" "sb_wf b" "sb_mem b \<noteq> None"
    "headerLen b = 32" "8 dvd totalLen b" "payload_bytes b = ?P"
    by (rule BuildLabelExchange_ok [OF assms(1) ls, where be = be and dv = dv and sq = sq])
      (use assms(3) in auto)
  obtain b' r where b': "SetPhyHeader be b info = (b', E_OK)" "sb_wf b'" "totalLen b' = totalLen b"
    "drop 32 (buffer_bytes b') = drop 32 (buffer_bytes b)"
    and r: "pr_frameId r = phi_frameId info" "pr_frameType r = phi_frameType info"
    and parse: "CheckAndParsePacket be sc src (Some (buffer_bytes b')) (totalLen b) ParseResult_init =
      (if phi_frameType info = EMPTY then (r, E_OK)
       else if phi_frameType info = APPLICATION_MESSAGE
       then ParseCommDivergeHeader be (buffer_bytes b') (totalLen b) r
       else ParseCommLayerPayload be (buffer_bytes b') (totalLen b) r)"
    by (rule CheckAndParsePacket_SetPhyHeader [OF b(2,3), where info = info and sc = sc and src = src and be = be])
      (use assms b in auto)
  have len: "length (buffer_bytes b') = totalLen b" "32 \<le> totalLen b" "totalLen b \<le> MAX_TOTAL_LEN"
    using sb_wf_lengths(4) [OF b'(2)] b'(3) b(2,4) by (auto simp: sb_wf_def)
  have "drop 32 (buffer_bytes b) = payload_bytes b @ drop (32 + payloadLen b) (buffer_bytes b)"
    using payload_split [OF b(2)] b(4) by simp
  then have "drop 32 (buffer_bytes b') = mem_store True (0 :: u64) @ mem_store True dv @ mem_store True sq @
      mem_store True (of_nat (length labels) :: u64) @ concat labels @ drop (32 + payloadLen b) (buffer_bytes b)"
    using b'(4) b(6) by simp
  from ParseLabelExchange_ok [OF this ls, where be = be and r = r] show ?thesis
    using b b' r len parse assms(4) GetSize_wf [OF b'(2)] by (auto simp: ParseCommLayerPayload_def)
qed

text \<open>
  The acknowledgement of a label exchange is parsed back to the distinct value and sequence id it
  was built with.
\<close>

theorem label_exchange_ack_roundtrip:
  assumes "reliable al" and "phi_frameType info = COMMUNICATION_LABEL_EXCHANGE_ACK"
    and "phi_sourceId info = HashFunc sc src"
  shows "\<exists>b b' r. BuildLabelExchangeAck al be dv sq = Inr b \<and> SetPhyHeader be b info = (b', E_OK) \<and>
    CheckAndParsePacket be sc src (Some (buffer_bytes b')) (GetSize b') ParseResult_init = (r, E_OK) \<and>
    pr_frameType r = COMMUNICATION_LABEL_EXCHANGE_ACK \<and> pr_frameId r = phi_frameId info \<and>
    pr_labelExchangeDistinctValue r = dv \<and> pr_labelExchangeSequenceId r = sq"
proof -
  let ?P = "mem_store True (0 :: u64) @ mem_store True dv @ mem_store True sq"
  obtain a where a: "AllocBufferByPayloadLength al SerialBuffer_init 24 32 = (a, E_OK)" "sb_wf a"
    "sb_mem a \<noteq> None" "headerLen a = 32" "payloadLen a = 24" "8 dvd totalLen a"
    by (rule AllocBufferByPayloadLength_fresh [OF assms(1), of SerialBuffer_init 24 32])
      (auto simp: MAX_TOTAL_LEN_def)
  define b where "b = write_mem a (sb_off a + headerLen a) ?P"
  have b: "BuildLabelExchangeAck al be dv sq = Inr b" "sb_wf b" "sb_mem b \<noteq> None" "headerLen b = 32"
    "8 dvd totalLen b" "payload_bytes b = ?P"
    using a assms(1) write_payload [OF a(2,3), of ?P]
    by (simp_all add: BuildLabelExchangeAck_def b_def proto_consts reliable_def PROTOCOL_VERSION_def
        GetWritableBytesForPayload_def del: not_None_eq)
  obtain b' r where b': "SetPhyHeader be b info = (b', E_OK)" "sb_wf b'" "totalLen b' = totalLen b"
    "drop 32 (buffer_bytes b') = drop 32 (buffer_bytes b)"
    and r: "pr_frameId r = phi_frameId info" "pr_frameType r = phi_frameType info"
    and parse: "CheckAndParsePacket be sc src (Some (buffer_bytes b')) (totalLen b) ParseResult_init =
      (if phi_frameType info = EMPTY then (r, E_OK)
       else if phi_frameType info = APPLICATION_MESSAGE
       then ParseCommDivergeHeader be (buffer_bytes b') (totalLen b) r
       else ParseCommLayerPayload be (buffer_bytes b') (totalLen b) r)"
    by (rule CheckAndParsePacket_SetPhyHeader [OF b(2,3), where info = info and sc = sc and src = src and be = be])
      (use assms b in auto)
  have len: "length (buffer_bytes b') = totalLen b" "56 \<le> totalLen b"
    using sb_wf_lengths(4) [OF b'(2)] b'(3) b(2,4) a(5) by (auto simp: sb_wf_def b_def)
  have d: "drop 32 (buffer_bytes b') = mem_store True (0 :: u64) @ mem_store True dv @ mem_store True sq @
      drop (32 + payloadLen b) (buffer_bytes b)"
    using payload_split [OF b(2)] b(4,6) b'(4) by simp
  have "field64 be (buffer_bytes b') 0 = 0" "field64 be (buffer_bytes b') 1 = dv"
    "field64 be (buffer_bytes b') 2 = sq"
    using len by (simp_all add: field64_load d mem64.load_store)
  then have "ParseLabelExchangeAck be (buffer_bytes b') (totalLen b) r =
      (r\<lparr>pr_labelExchangeDistinctValue := dv, pr_labelExchangeSequenceId := sq\<rparr>, E_OK)"
    using len by (simp add: ParseLabelExchangeAck_def proto_consts PROTOCOL_VERSION_def)
  then show ?thesis
    using b b' r parse assms(2) GetSize_wf [OF b'(2)] by (auto simp: ParseCommLayerPayload_def)
qed

section \<open>What the checks detect\<close>

lemma peek_eq_of_words:
  assumes "length a = length b" and "8 * n \<le> length a"
    and "\<And>i. m \<le> i \<Longrightarrow> i < n \<Longrightarrow> peek (8 * i) 8 a = peek (8 * i) 8 b"
  shows "peek (8 * m) (8 * n - 8 * m) a = peek (8 * m) (8 * n - 8 * m) b"
proof (rule nth_equalityI)
  show "length (peek (8 * m) (8 * n - 8 * m) a) = length (peek (8 * m) (8 * n - 8 * m) b)"
    using assms(1) by (simp add: peek_def)
next
  fix j assume "j < length (peek (8 * m) (8 * n - 8 * m) a)"
  then have j: "8 * m + j < 8 * n" "j < 8 * n - 8 * m" by (auto simp: peek_def)
  define i where "i = m + j div 8"
  have i: "m \<le> i" "i < n" "8 * i + j mod 8 = 8 * m + j" using j(1) by (auto simp: i_def)
  then have "8 * i + 8 \<le> length a" using assms(2) by linarith
  have "peek (8 * i) 8 a ! (j mod 8) = peek (8 * i) 8 b ! (j mod 8)" using assms(3) i by simp
  then have "a ! (8 * m + j) = b ! (8 * m + j)"
    using i assms(1) \<open>8 * i + 8 \<le> length a\<close> by (simp add: nth_peek)
  then show "peek (8 * m) (8 * n - 8 * m) a ! j = peek (8 * m) (8 * n - 8 * m) b ! j"
    using j assms(1,2) by (simp add: nth_peek)
qed

lemma CheckAndParsePacket_ok_valid:
  assumes "snd (CheckAndParsePacket be sc src (Some bs) (length bs) r) = E_OK"
  shows "phy_valid be sc src bs" "length bs \<le> MAX_TOTAL_LEN"
proof -
  show l: "length bs \<le> MAX_TOTAL_LEN"
    using assms by (auto simp: CheckAndParsePacket_def split: if_splits)
  show "phy_valid be sc src bs"
  proof (rule ccontr)
    assume "\<not> phy_valid be sc src bs"
    from ParseCommPhyHeader_invalid [OF this l, of r] show False
      using assms l by (auto simp: CheckAndParsePacket_def)
  qed
qed

lemma CheckAndParsePacket_invalid:
  assumes "\<not> phy_valid be sc src bs" and "length bs \<le> MAX_TOTAL_LEN"
  shows "\<exists>e. CheckAndParsePacket be sc src (Some bs) (length bs) r = (r, e) \<and> e \<noteq> E_OK"
  using ParseCommPhyHeader_invalid [OF assms, of r] assms(2)
  by (auto simp: CheckAndParsePacket_def)

lemma phy_valid_mod8: "phy_valid be sc src bs \<Longrightarrow> 8 dvd length bs"
proof -
  assume "phy_valid be sc src bs"
  then have "32 \<le> length bs" "(length bs - 16) mod 8 = 0"
    by (auto simp: phy_valid_def Let_def CalculateXorSum_def split: if_splits)
  then show ?thesis by presburger
qed

text \<open>The words of the header: word 0 is fixed by the checks, word 1 is the checksum.\<close>

lemma phy_valid_word0:
  assumes "phy_valid be sc src a" and "phy_valid be sc src b" and "length a = length b"
  shows "peek 0 8 a = peek 0 8 b"
proof -
  have l: "32 \<le> length a" "32 \<le> length b"
    and f: "mem_load True a = (mem_load True b :: u16)"
    "mem_load True (drop 2 a) = (mem_load True (drop 2 b) :: u16)"
    "mem_load True (drop 4 a) = (mem_load True (drop 4 b) :: u32)"
    using assms by (auto simp: phy_valid_def Let_def phy_load_def word_unat_eq_iff)
  have split: "peek 0 8 x = peek 0 2 x @ peek 2 2 x @ peek 4 4 x" if "32 \<le> length x" for x :: "byte list"
    using that by (simp add: peek_def list_eq_iff_nth_eq nth_append) (auto simp: less_Suc_eq numeral_eq_Suc)
  have "peek 0 2 a = peek 0 2 b"
    by (rule mem16.load_inj [where be = True]) (use l f mem16.load_peek [of 0 a True] mem16.load_peek [of 0 b True] in simp_all)
  moreover have "peek 2 2 a = peek 2 2 b"
    by (rule mem16.load_inj [where be = True]) (use l f in \<open>simp_all add: mem16.load_peek\<close>)
  moreover have "peek 4 4 a = peek 4 4 b"
    by (rule mem32.load_inj [where be = True]) (use l f in \<open>simp_all add: mem32.load_peek\<close>)
  ultimately show ?thesis using split l by simp
qed

lemma checkSum_word1:
  assumes "32 \<le> length a" and "32 \<le> length b"
  shows "checkSum (phy_load True a) = checkSum (phy_load True b) \<longleftrightarrow> peek 8 8 a = peek 8 8 b"
  using assms mem64.load_inj [of "peek 8 8 a" "peek 8 8 b" True] mem64.load_peek [of 8 a True]
    mem64.load_peek [of 8 b True]
  by (auto simp: phy_load_def)

text \<open>
  C24. A packet that a host accepts is rejected by that host as soon as exactly one of its 64-bit
  words is changed, wherever that word is: in the checked fields, in the checksum, or in the range
  the checksum covers; the parse result is not touched.
\<close>

theorem single_word_corruption_rejected:
  assumes "snd (CheckAndParsePacket be sc src (Some bs) (length bs) r) = E_OK"
    and "length bs' = length bs" and "8 * k + 8 \<le> length bs"
    and "\<forall>i < length bs div 8. i \<noteq> k \<longrightarrow> peek (8 * i) 8 bs' = peek (8 * i) 8 bs"
    and "peek (8 * k) 8 bs' \<noteq> peek (8 * k) 8 bs"
  shows "\<exists>e. CheckAndParsePacket be sc src (Some bs') (length bs') r' = (r', e) \<and> e \<noteq> E_OK"
proof -
  note v = CheckAndParsePacket_ok_valid [OF assms(1)]
  define n where "n = length bs div 8"
  have n: "length bs = 8 * n" "4 \<le> n" "k < n"
    using phy_valid_mod8 [OF v(1)] v(1) assms(3) by (auto simp: n_def phy_valid_def Let_def)
  have w: "peek (8 * i) 8 bs' = peek (8 * i) 8 bs" if "i < n" "i \<noteq> k" for i
    using assms(4) that by (simp add: n_def)
  have tail: "drop 16 x = peek 16 (8 * n - 16) x" if "length x = 8 * n" for x :: "byte list"
    using that by (simp add: peek_def)
  have "\<not> phy_valid be sc src bs'"
  proof
    assume v': "phy_valid be sc src bs'"
    have k0: "k \<noteq> 0" using phy_valid_word0 [OF v' v(1)] assms(2,5) by (cases k) auto
    have sums: "CalculateXorSum be (drop 16 bs) (8 * n - 16) = Inr (checkSum (phy_load True bs))"
      "CalculateXorSum be (drop 16 bs') (8 * n - 16) = Inr (checkSum (phy_load True bs'))"
      using v(1) v' n assms(2) by (simp_all add: phy_valid_def Let_def)
    have k1: "k \<noteq> 1"
    proof
      assume "k = 1"
      then have "peek (8 * 2) (8 * n - 8 * 2) bs' = peek (8 * 2) (8 * n - 8 * 2) bs"
        using w n assms(2) by (intro peek_eq_of_words) auto
      then have "drop 16 bs' = drop 16 bs" using tail n assms(2) by simp
      then show False
        using sums checkSum_word1 [of bs' bs] n assms(2,5) \<open>k = 1\<close> by simp
    qed
    have "peek (8 * 1) 8 bs' = peek (8 * 1) 8 bs" using w [of 1] k1 n by simp
    then have same: "checkSum (phy_load True bs') = checkSum (phy_load True bs)"
      using checkSum_word1 [of bs' bs] n assms(2) by simp
    have "2 \<le> k" using k0 k1 by simp
    then obtain j where j: "k = 2 + j" using le_Suc_ex by blast
    have pk: "peek (8 * i) 8 (drop 16 x) = peek (8 * (i + 2)) 8 x" for i and x :: "byte list"
      by (simp add: peek_def add.commute)
    have "CalculateXorSum be (drop 16 bs') (8 * n - 16) \<noteq> CalculateXorSum be (drop 16 bs) (8 * n - 16)"
      by (rule CalculateXorSum_one_word [where k = j])
        (use n j w [of "_ + 2"] assms(2,5) in \<open>auto simp: pk less_eq_Suc_le\<close>)
    then show False using sums same by simp
  qed
  then show ?thesis using CheckAndParsePacket_invalid [of be sc src bs' r'] v(2) assms(2) by simp
qed

subsection \<open>Hosts of different byte order\<close>

text \<open>The checksum of a host is the byte-reversed checksum of a host of the other order.\<close>

lemma bit_HostToNet64:
  "bit (HostToNet False (w :: u64)) i \<longleftrightarrow> i < 64 \<and> bit w (8 * (7 - i div 8) + i mod 8)"
proof -
  have "HostToNet False w = (from_le (rev (le_bytes 8 w)) :: u64)"
    by (simp add: HostToNet_def mem_load_def mem_store_def)
  moreover have "rev (le_bytes 8 w) ! (i div 8) = ucast (drop_bit (8 * (7 - i div 8)) w)" if "i < 64"
  proof -
    have "i div 8 < 8" using that by simp
    then show ?thesis by (simp add: rev_nth le_bytes_nth del: le_bytes_numeral)
  qed
  ultimately show ?thesis
    by (auto simp: bit_from_le bit_simps ac_simps simp del: le_bytes_numeral)
qed

lemma HostToNet64_xor: "HostToNet False (a XOR b :: u64) = HostToNet False a XOR HostToNet False b"
  by (rule bit_eqI) (auto simp: bit_HostToNet64 bit_xor_iff)

lemma HostToNet64_zero: "HostToNet False (0 :: u64) = 0"
  by (rule bit_eqI) (simp add: bit_HostToNet64)

lemma mem_load_other_order:
  assumes "8 \<le> length bs"
  shows "mem_load (\<not> be) bs = HostToNet False (mem_load be bs :: u64)"
proof -
  have T: "mem_load True bs = HostToNet False (mem_load False bs :: u64)"
    using NetToHost_mem_load [where 'a = 64 and be = False and bs = bs] assms by (simp add: NetToHost_def)
  then show ?thesis by (cases be) simp_all
qed

lemma CalculateXorSum_other_order:
  assumes "CalculateXorSum be bs len = Inr s" and "len \<le> length bs"
  shows "CalculateXorSum (\<not> be) bs len = Inr (HostToNet False s)"
proof -
  have "fold (\<lambda>i s. s XOR (mem_load (\<not> be) (drop (8 * i) bs) :: u64)) [0..<n] 0
      = HostToNet False (fold (\<lambda>i s. s XOR (mem_load be (drop (8 * i) bs) :: u64)) [0..<n] 0)"
    if "8 * n \<le> length bs" for n
    using that
  proof (induction n)
    case (Suc n)
    have "8 \<le> length (drop (8 * n) bs)" using Suc.prems by simp
    then show ?case using Suc mem_load_other_order by (simp add: HostToNet64_xor)
  qed (simp add: HostToNet64_zero)
  moreover have "8 * (len div 8) \<le> length bs" using assms(2) by linarith
  ultimately show ?thesis using assms(1) by (auto simp: CalculateXorSum_def split: if_splits)
qed

text \<open>
  C39. The checksum is computed over host-order words but transferred in network order. A packet that
  passes on a host of one byte order is rejected with \<^verbatim>\<open>E_SUM_MISMATCH\<close> by every host of the other
  byte order, unless its checksum happens to read the same backwards.
\<close>

theorem other_byte_order_rejects:
  assumes "snd (CheckAndParsePacket be sc src (Some bs) (length bs) r) = E_OK"
    and "HostToNet False (checkSum (phy_load True bs)) \<noteq> checkSum (phy_load True bs)"
  shows "CheckAndParsePacket (\<not> be) sc src (Some bs) (length bs) r' = (r', E_SUM_MISMATCH)"
proof -
  note v = CheckAndParsePacket_ok_valid [OF assms(1)]
  have s: "CalculateXorSum be (drop 16 bs) (length bs - 16) = Inr (checkSum (phy_load True bs))"
    and l: "32 \<le> length bs" using v(1) by (simp_all add: phy_valid_def Let_def)
  have s': "CalculateXorSum (\<not> be) (drop 16 bs) (length bs - 16)
      = Inr (HostToNet False (checkSum (phy_load True bs)))"
    by (rule CalculateXorSum_other_order [OF s]) simp
  show ?thesis
    using v assms(2) s' l NetToHost_magic_version [of bs "\<not> be"]
    by (simp add: CheckAndParsePacket_def ParseCommPhyHeader_def ParseCommPhyHeaderCheckMagicAndVersion_def
        ParseCommPhyHeaderCheckField_def phy_valid_def proto_consts Let_def)
qed

section \<open>Concrete inputs\<close>

text \<open>A transform function for raw bytes, a message, a frame and a packet.\<close>

definition raw_transform :: "byte list TransformFunc" where
  "raw_transform = \<lparr>
     computeFunc = Some (\<lambda>m. case m_holder m of None \<Rightarrow> 0 | Some bs \<Rightarrow> of_nat (length bs)),
     serializeFunc = Some (\<lambda>region m. case m_holder m of None \<Rightarrow> (E_INVALID_ARGS, region) | Some bs \<Rightarrow> (E_OK, bs)),
     deserializeFunc = Some (\<lambda>bs m. (E_OK, m\<lparr>m_holder := Some bs\<rparr>))\<rparr>"

definition sample_message :: "byte list Message" where
  "sample_message = \<lparr>m_version = MSG_VERSION_EXT, m_messageType = TYPE_REQUEST, m_messageId = 7,
     m_sessionId = 11, m_sequenceId = 1, m_errorNo = 0, m_holder = Some [1, 2, 3], m_target = ''peer'',
     m_prio = HIGH\<rparr>"

definition sample_frame :: SerialBuffer where
  "sample_frame = fst (AllocBufferByPayloadLength test_allocator SerialBuffer_init 27 72)"

definition sample_label :: LabelType where "sample_label = replicate 32 0x41"

definition sample_info :: "FrameType \<Rightarrow> PhyHeaderInfo" where
  "sample_info t = \<lparr>phi_sourceId = HashFunc True ''dev'', phi_frameId = 9, phi_frameType = t\<rparr>"

definition sample_packet :: "byte list" where
  "sample_packet = [0xAA, 0xAA, 0, 0, 0, 0, 0, 32, 0, 0, 0, 9, 0, 0, 0, 5,
     0, 0, 0, 0, 0, 0, 0, 0, 0, 0, 0, 9, 0, 0, 0, 5]"

theorem message_roundtrip_witness:
  "\<exists>b. ToSerialBuffer test_allocator False [7 \<mapsto> raw_transform] (Some sample_message) None False = Inr b \<and>
    ToMessage test_allocator True [7 \<mapsto> raw_transform] (Some b) False =
      Inr (sample_message\<lparr>m_holder := m_holder sample_message, m_target := [], m_prio := LOW\<rparr>, E_OK)"
  by (rule message_roundtrip [where f = raw_transform and g = raw_transform])
    (simp_all add: ext_permits_def sample_message_def transforms_to_def raw_transform_def
      header_only_def data_length_def MAX_DATA_LEN_def proto_consts sendable_def
      IsSupportMessageVersion_def IsFeedbackErrorMessage_def)

lemma sample_frame_ok:
  "sb_wf sample_frame" "sb_mem sample_frame \<noteq> None" "headerLen sample_frame = 72"
  "8 dvd totalLen sample_frame" "payloadLen sample_frame = 27"
  by (simp_all add: sample_frame_def AllocBufferByPayloadLength_def SerialBuffer_init_def
      new_array_def test_allocator_def BYTE_8_ALIGN_def MAX_TOTAL_LEN_def sb_wf_def)

theorem application_frame_accepted_witness:
  "\<exists>b1 b2 r. SetDivergeHeader False sample_frame sample_label = (b1, E_OK) \<and>
    SetPhyHeader False b1 (sample_info APPLICATION_MESSAGE) = (b2, E_OK) \<and>
    CheckAndParsePacket False True ''dev'' (Some (buffer_bytes b2)) (GetSize b2) ParseResult_init = (r, E_OK) \<and>
    pr_frameId r = 9 \<and> pr_commLabel r = sample_label"
  using application_frame_accepted [of sample_frame sample_label "sample_info APPLICATION_MESSAGE" True
      "''dev''" False] sample_frame_ok
  by (fastforce simp: proto_consts sample_info_def sample_label_def)

theorem label_exchange_roundtrip_witness:
  "\<exists>b b' r. BuildLabelExchange test_allocator False 5 6 [sample_label, replicate 32 0x42] = Inr b \<and>
    SetPhyHeader False b (sample_info COMMUNICATION_LABEL_EXCHANGE) = (b', E_OK) \<and>
    CheckAndParsePacket False True ''dev'' (Some (buffer_bytes b')) (GetSize b') ParseResult_init = (r, E_OK) \<and>
    pr_latestCommLabels r = {sample_label, replicate 32 0x42}"
  using label_exchange_roundtrip [of test_allocator "[sample_label, replicate 32 0x42]"
      "sample_info COMMUNICATION_LABEL_EXCHANGE" True "''dev''" False 5 6]
  by (fastforce simp: proto_consts sample_info_def sample_label_def)

theorem label_exchange_ack_roundtrip_witness:
  "\<exists>b b' r. BuildLabelExchangeAck test_allocator True 5 6 = Inr b \<and>
    SetPhyHeader True b (sample_info COMMUNICATION_LABEL_EXCHANGE_ACK) = (b', E_OK) \<and>
    CheckAndParsePacket True True ''dev'' (Some (buffer_bytes b')) (GetSize b') ParseResult_init = (r, E_OK) \<and>
    pr_labelExchangeDistinctValue r = 5 \<and> pr_labelExchangeSequenceId r = 6"
  using label_exchange_ack_roundtrip [of test_allocator "sample_info COMMUNICATION_LABEL_EXCHANGE_ACK" True
      "''dev''" True 5 6]
  by (fastforce simp: sample_info_def)

lemma sample_packet_load:
  "phy_load True sample_packet = \<lparr>magic = MAGIC_CODE, phyVersion = 0, packetLen = 32,
     checkSum = 0x900000005, sourceId = 0, frameId = 9, packetType = 0, paddingLen = 0, dbIntVer = 5\<rparr>"
  by (simp add: sample_packet_def phy_load_def mem_load_def MAGIC_CODE_def push_bit_eq_mult)

lemma sample_packet_sum: "CalculateXorSum True (drop 16 sample_packet) 16 = Inr 0x900000005"
  by (simp add: sample_packet_def CalculateXorSum_def mem_load_def push_bit_eq_mult upt_rec)

lemma sample_packet_accepted:
  "snd (CheckAndParsePacket True True [] (Some sample_packet) 32 ParseResult_init) = E_OK"
proof -
  have l: "length sample_packet = 32" by (simp add: sample_packet_def)
  have v: "phy_valid True True [] sample_packet"
    using sample_packet_sum
    by (simp add: phy_valid_def l sample_packet_load PROTOCOL_VERSION_def)
  have "GetFrameType 0 = EMPTY" by (simp add: GetFrameType_def word_le_nat_alt)
  then show ?thesis
    using ParseCommPhyHeader_valid [OF v, of ParseResult_init]
    by (simp add: l MAX_TOTAL_LEN_def CheckAndParsePacket_def sample_packet_load)
qed

theorem single_word_corruption_rejected_witness:
  "\<exists>e. CheckAndParsePacket True True [] (Some (sample_packet[27 := 8])) 32 ParseResult_init =
    (ParseResult_init, e) \<and> e \<noteq> E_OK"
proof -
  have l: "length sample_packet = 32" by (simp add: sample_packet_def)
  have "peek (8 * i) 8 (sample_packet[27 := 8]) = peek (8 * i) 8 sample_packet" if "i < 4" "i \<noteq> 3" for i :: nat
  proof -
    have "i \<in> {0, 1, 2}" using that by auto
    then show ?thesis by (auto simp: sample_packet_def peek_def)
  qed
  moreover have "peek 24 8 (sample_packet[27 := 8]) \<noteq> peek 24 8 sample_packet"
    by (simp add: sample_packet_def peek_def)
  ultimately show ?thesis
    using single_word_corruption_rejected [of True True "[]" sample_packet ParseResult_init
      "sample_packet[27 := 8]" 3 ParseResult_init] sample_packet_accepted l by simp
qed

theorem other_byte_order_rejects_witness:
  "CheckAndParsePacket False True [] (Some sample_packet) 32 ParseResult_init =
    (ParseResult_init, E_SUM_MISMATCH)"
proof -
  have "HostToNet False (checkSum (phy_load True sample_packet)) \<noteq> checkSum (phy_load True sample_packet)"
    by (simp add: sample_packet_load HostToNet_def mem_load_def mem_store_def push_bit_eq_mult drop_bit_eq_div)
  moreover have "length sample_packet = 32" by (simp add: sample_packet_def)
  ultimately show ?thesis
    using other_byte_order_rejects [of True True "[]" sample_packet ParseResult_init ParseResult_init]
      sample_packet_accepted by simp
qed

end
