(* ===== verification/Fragmentation.thy ===== *)
theory Fragmentation
  imports Frame_Roundtrip
begin

text \<open>
  The fragmentation half of \<^verbatim>\<open>communicator/src/protocol_proto.cpp\<close>: splitting a frame that exceeds the
  MTU into packets, checking the split structure of a received fragment, and copying a fragment into
  the frame under reassembly. The lemmas give the packets in closed form and show that a receiver
  accepts each of them.
\<close>

section \<open>Splitting\<close>

definition MIN_FRAGMENT_COUNT :: nat where "MIN_FRAGMENT_COUNT = 2"

text \<open>\<^verbatim>\<open>oringinalBytesAddr\<close> points at the memory of the frame; \<open>ffi_head\<close> is what is found there.\<close>

record FrameFragmentInfo =
  ffi_head :: "byte list"
  ffi_extendHeadSize :: nat
  ffi_splitLength :: nat
  ffi_fragCount :: nat

definition FillFragmentPacketExtendHead ::
    "byte list \<Rightarrow> nat \<Rightarrow> byte list \<Rightarrow> nat \<Rightarrow> nat \<Rightarrow> byte list res" where
  "FillFragmentPacketExtendHead headBytes headLen mem off leftLength =
     (if headLen > leftLength then Inl E_INVALID_ARGS
      else case memcpy_s off leftLength (take headLen headBytes) mem of
             None \<Rightarrow> Inl E_SECUREC_ERROR
           | Some mem \<Rightarrow> Inr mem)"

definition FillFragmentPacket ::
    "bool \<Rightarrow> CommPhyHeader \<Rightarrow> CommPhyOptHeader \<Rightarrow> byte list \<Rightarrow> nat \<Rightarrow> byte list \<Rightarrow> nat \<Rightarrow> nat \<Rightarrow>
     byte list res" where
  "FillFragmentPacket be phyHeader phyOptHeader fragBytes fragLen mem off leftLength =
     (if leftLength = 0 then Inl E_INVALID_ARGS
      else
        case memcpy_s off leftLength (phy_store be phyHeader) mem of
          None \<Rightarrow> Inl E_SECUREC_ERROR
        | Some mem \<Rightarrow>
            let left1 = sub32 leftLength sizeof_CommPhyHeader; off1 = off + sizeof_CommPhyHeader in
            (case memcpy_s off1 left1 (opt_store be phyOptHeader) mem of
               None \<Rightarrow> Inl E_SECUREC_ERROR
             | Some mem \<Rightarrow>
                 let left2 = sub32 left1 sizeof_CommPhyOptHeader; off2 = off1 + sizeof_CommPhyOptHeader in
                 (case memcpy_s off2 left2 (take fragLen fragBytes) mem of
                    None \<Rightarrow> Inl E_SECUREC_ERROR
                  | Some mem \<Rightarrow>
                      (case CalculateXorSum be (drop (off + LENGTH_BEFORE_SUM_RANGE) mem)
                              (sub32 leftLength LENGTH_BEFORE_SUM_RANGE) of
                         Inl _ \<Rightarrow> Inl E_SUM_CALCULATE_FAIL
                       | Inr sumResult \<Rightarrow>
                           Inr (poke (off + 8) (mem_store be (HostToNet be sumResult)) mem)))))"

text \<open>
  One round of the loop of \<^verbatim>\<open>FrameFragmentation\<close>: the packet of one fragment with the length of its
  extension head, and the length of the fragment. The vector is zero-filled by \<^verbatim>\<open>resize\<close>.
\<close>

definition fragment_piece ::
    "allocator \<Rightarrow> bool \<Rightarrow> byte list \<Rightarrow> FrameFragmentInfo \<Rightarrow> CommPhyHeader \<Rightarrow> nat \<Rightarrow> nat \<Rightarrow>
     ((byte list \<times> nat) \<times> nat) res" where
  "fragment_piece al be splitStartBytes info framePhyHeader no byteOffset =
     (let quotient = ffi_splitLength info div ffi_fragCount info;
          remainder = ffi_splitLength info mod ffi_fragCount info;
          pieceFragLen = (if no \<noteq> ffi_fragCount info - 1 then quotient else quotient + remainder);
          alignedFragLen = BYTE_8_ALIGN pieceFragLen;
          pieceTotalLen = alignedFragLen + sizeof_CommPhyHeader + sizeof_CommPhyOptHeader;
          total = pieceTotalLen + ffi_extendHeadSize info
      in if array_fails al total then Inl E_OUT_OF_MEMORY
         else
           let pkt = ConvertNetToHost_phy be framePhyHeader;
               pkt = FillPhyHeaderLenInfo pkt pieceTotalLen 0 PACKET_TYPE_FRAGMENTED
                       (of_nat (alignedFragLen - pieceFragLen));
               pkt = ConvertHostToNet_phy be pkt;
               opt = ConvertHostToNet_opt be
                       \<lparr>frameLen = of_nat (ffi_splitLength info + sizeof_CommPhyHeader),
                        fragCount = of_nat (ffi_fragCount info), fragNo = of_nat no\<rparr>;
               mem = replicate total 0
           in case (if ffi_extendHeadSize info > 0
                    then FillFragmentPacketExtendHead (ffi_head info) (ffi_extendHeadSize info) mem 0
                           (ffi_extendHeadSize info)
                    else Inr mem) of
                Inl e \<Rightarrow> Inl e
              | Inr mem \<Rightarrow>
                  (case FillFragmentPacket be pkt opt (drop byteOffset splitStartBytes) pieceFragLen mem
                          (ffi_extendHeadSize info) (total - ffi_extendHeadSize info) of
                     Inl e \<Rightarrow> Inl e
                   | Inr mem \<Rightarrow> Inr ((mem, ffi_extendHeadSize info), pieceFragLen)))"

fun fragment_loop ::
    "allocator \<Rightarrow> bool \<Rightarrow> byte list \<Rightarrow> FrameFragmentInfo \<Rightarrow> CommPhyHeader \<Rightarrow> nat \<Rightarrow> nat \<Rightarrow> nat \<Rightarrow>
     (byte list \<times> nat) list res" where
  "fragment_loop al be start info phy 0 no byteOffset = Inr []"
| "fragment_loop al be start info phy (Suc left) no byteOffset =
     (case fragment_piece al be start info phy no byteOffset of
        Inl e \<Rightarrow> Inl e
      | Inr (entry, pieceFragLen) \<Rightarrow>
          (case fragment_loop al be start info phy left (no + 1) (byteOffset + pieceFragLen) of
             Inl e \<Rightarrow> Inl e
           | Inr rest \<Rightarrow> Inr (entry # rest)))"

definition FrameFragmentation ::
    "allocator \<Rightarrow> bool \<Rightarrow> byte list \<Rightarrow> FrameFragmentInfo \<Rightarrow> CommPhyHeader \<Rightarrow> (byte list \<times> nat) list res" where
  "FrameFragmentation al be splitStartBytes info framePhyHeader =
     (if ffi_fragCount info < MIN_FRAGMENT_COUNT then Inl E_INVALID_ARGS
      else fragment_loop al be splitStartBytes info framePhyHeader (ffi_fragCount info) 0 0)"

text \<open>The number of fragments, in the 16 bits the code computes it in.\<close>

definition split_count :: "nat \<Rightarrow> nat \<Rightarrow> nat" where
  "split_count lengthToSplit maxFragmentLen =
     (let quotient = wrap16 (lengthToSplit div maxFragmentLen);
          remainder = lengthToSplit mod maxFragmentLen
      in if remainder = 0 then quotient else wrap16 (quotient + 1))"

definition SplitFrameIntoPacketsIfNeed ::
    "allocator \<Rightarrow> bool \<Rightarrow> SerialBuffer \<Rightarrow> nat \<Rightarrow> (byte list \<times> nat) list res" where
  "SplitFrameIntoPacketsIfNeed al be inBuff inMtuSize =
     (let ext = extendHeadLen inBuff;
          total = snd (GetReadOnlyBytesForEntireBuffer inBuff)
      in if wrap32 (total + ext) \<le> inMtuSize then Inr []
         else
           let modifyMtuSize = sub32 inMtuSize ext;
               frame = GetReadOnlyBytesForEntireFrame inBuff;
               lengthToSplit = sub32 (snd frame) sizeof_CommPhyHeader;
               maxFragmentLen = sub32 (sub32 modifyMtuSize sizeof_CommPhyHeader) sizeof_CommPhyOptHeader
           in if maxFragmentLen = 0 then Inl ABORTED
              else FrameFragmentation al be (drop sizeof_CommPhyHeader (rptr frame))
                     \<lparr>ffi_head = (case sb_mem inBuff of None \<Rightarrow> [] | Some m \<Rightarrow> m), ffi_extendHeadSize = ext,
                      ffi_splitLength = lengthToSplit,
                      ffi_fragCount = split_count lengthToSplit maxFragmentLen\<rparr>
                     (phy_load be (rptr frame)))"

section \<open>Receiving fragments\<close>

definition AnalyzeSplitStructure :: "ParseResult \<Rightarrow> (nat \<times> nat) res" where
  "AnalyzeSplitStructure inResult =
     (let flen = unat (pr_frameLen inResult);
          count = unat (pr_fragCount inResult);
          no = unat (pr_fragNo inResult)
      in if flen \<le> sizeof_CommPhyHeader \<or> flen > MAX_FRAME_LEN then Inl E_PARSE_FAIL
         else
           let lengthBeSplit = flen - sizeof_CommPhyHeader
           in if count = 0 \<or> count < MIN_FRAGMENT_COUNT \<or> count > lengthBeSplit \<or> no \<ge> count
              then Inl E_PARSE_FAIL
              else
                let quotient = lengthBeSplit div count;
                    remainder = lengthBeSplit mod count;
                    outFragLen = quotient;
                    outLastFragLen = quotient + remainder;
                    thisFragLen = (if no \<noteq> count - 1 then outFragLen else outLastFragLen)
                in if sizeof_CommPhyHeader + sizeof_CommPhyOptHeader + thisFragLen +
                        unat (pr_paddingLen inResult) \<noteq> unat (pr_packetLen inResult)
                   then Inl E_PARSE_FAIL
                   else Inr (outFragLen, outLastFragLen))"

definition CombinePacketIntoFrame ::
    "SerialBuffer \<Rightarrow> byte list \<Rightarrow> nat \<Rightarrow> nat \<Rightarrow> nat \<Rightarrow> SerialBuffer \<times> errno" where
  "CombinePacketIntoFrame inFrame pktBytes pktLength fragOffset fragLength =
     (if sizeof_CommPhyHeader + sizeof_CommPhyOptHeader + fragLength > pktLength
      then (inFrame, E_LENGTH_ERROR)
      else
        case GetWritableBytesForEntireFrame inFrame of
          (None, n) \<Rightarrow> (inFrame, E_LENGTH_ERROR)
        | (Some a, n) \<Rightarrow>
            if sizeof_CommPhyHeader + fragOffset + fragLength > n then (inFrame, E_LENGTH_ERROR)
            else
              let src = take fragLength (drop (sizeof_CommPhyHeader + sizeof_CommPhyOptHeader) pktBytes);
                  dstLeftLen = sub32 (sub32 n sizeof_CommPhyHeader) fragOffset
              in case write_s inFrame (a + sizeof_CommPhyHeader + fragOffset) dstLeftLen src of
                   None \<Rightarrow> (inFrame, E_SECUREC_ERROR)
                 | Some b \<Rightarrow> (b, E_OK))"

section \<open>Closed form of the packets\<close>

text \<open>\<open>seal\<close> writes the checksum of a packet into its header.\<close>

definition xor_sum :: "bool \<Rightarrow> byte list \<Rightarrow> u64" where
  "xor_sum be bs = (case CalculateXorSum be (drop 16 bs) (length bs - 16) of Inl _ \<Rightarrow> 0 | Inr s \<Rightarrow> s)"

definition seal :: "bool \<Rightarrow> byte list \<Rightarrow> byte list" where
  "seal be bs = poke 8 (mem_store True (xor_sum be bs)) bs"

lemma seal_facts:
  assumes "32 \<le> length bs" and "8 dvd length bs"
  shows "length (seal be bs) = length bs" "drop 16 (seal be bs) = drop 16 bs"
    "phy_load True (seal be bs) = (phy_load True bs)\<lparr>checkSum := xor_sum be bs\<rparr>"
    "CalculateXorSum be (drop 16 (seal be bs)) (length bs - 16) = Inr (xor_sum be bs)"
proof -
  show "length (seal be bs) = length bs" using assms(1) by (simp add: seal_def)
  show d: "drop 16 (seal be bs) = drop 16 bs" using assms(1) by (simp add: seal_def drop_poke_before)
  show "phy_load True (seal be bs) = (phy_load True bs)\<lparr>checkSum := xor_sum be bs\<rparr>"
    using assms(1) by (simp add: seal_def phy_load_checkSum_poke)
  show "CalculateXorSum be (drop 16 (seal be bs)) (length bs - 16) = Inr (xor_sum be bs)"
    using assms by (simp add: d xor_sum_def CalculateXorSum_def dvd_imp_mod_0)
qed

definition frag_body :: "CommPhyHeader \<Rightarrow> CommPhyOptHeader \<Rightarrow> byte list \<Rightarrow> byte list" where
  "frag_body h q frag = phy_store True h @ opt_store True q @ frag @
     replicate (BYTE_8_ALIGN (length frag) - length frag) 0"

lemma length_frag_body [simp]: "length (frag_body h q frag) = 40 + BYTE_8_ALIGN (length frag)"
  using BYTE_8_ALIGN_ge [of "length frag"] by (simp add: frag_body_def phy.store_length opt.store_length)

lemma poke_append_right: "length x = off \<Longrightarrow> poke (off + k) src (x @ y) = x @ poke k src y"
  by (simp add: poke_def)

lemma FillFragmentPacket_ok:
  assumes head: "length head = off" and frag: "length frag = fragLen" "take fragLen fragBytes = frag"
    and L: "L = 40 + BYTE_8_ALIGN fragLen" and small: "L < 4294967296"
  shows "FillFragmentPacket be (ConvertHostToNet_phy be h) (ConvertHostToNet_opt be q) fragBytes fragLen
      (head @ replicate L 0) off L = Inr (head @ seal be (frag_body h q frag))"
proof -
  let ?pad = "BYTE_8_ALIGN fragLen - fragLen"
  have ge: "fragLen \<le> BYTE_8_ALIGN fragLen" by (rule BYTE_8_ALIGN_ge)
  have rep: "replicate L (0::byte) = replicate 32 0 @ replicate 8 0 @ replicate fragLen 0 @ replicate ?pad 0"
    using L ge by (simp flip: replicate_add)
  define m1 where "m1 = head @ phy_store True h @ replicate 8 0 @ replicate fragLen 0 @ replicate ?pad 0"
  define m2 where "m2 = head @ phy_store True h @ opt_store True q @ replicate fragLen 0 @ replicate ?pad 0"
  define m3 where "m3 = head @ frag_body h q frag"
  have 1: "memcpy_s off L (phy_store be (ConvertHostToNet_phy be h)) (head @ replicate L 0) = Some m1"
    unfolding rep using head L by (simp add: memcpy_s_def header_wire_order phy.store_length m1_def poke_def)
  have 2: "memcpy_s (off + 32) (L - 32) (opt_store be (ConvertHostToNet_opt be q)) m1 = Some m2"
    using head L by (simp add: memcpy_s_def header_wire_order phy.store_length opt.store_length
        m1_def m2_def poke_def)
  have 3: "memcpy_s (off + 40) (L - 40) (take fragLen fragBytes) m2 = Some m3"
    using head frag L ge by (simp add: memcpy_s_def phy.store_length opt.store_length
        m2_def m3_def frag_body_def poke_def)
  have len: "length (frag_body h q frag) = L" using frag(1) L by simp
  have al: "8 dvd L" "16 \<le> L" using L by (simp_all add: dvd_add)
  have 4: "CalculateXorSum be (drop (off + 16) m3) (L - 16) = Inr (xor_sum be (frag_body h q frag))"
    using head al by (simp add: m3_def xor_sum_def len CalculateXorSum_def del: length_frag_body)
  have 5: "poke (off + 8) (mem_store True (xor_sum be (frag_body h q frag))) m3
      = head @ seal be (frag_body h q frag)"
    using head by (simp add: m3_def seal_def poke_append_right)
  have "sub32 L 32 = L - 32" "sub32 (L - 32) 8 = L - 40" "sub32 L 16 = L - 16" "L \<noteq> 0"
    using L small by simp_all
  then show ?thesis
    using 1 2 3 4 5
    by (simp add: FillFragmentPacket_def LENGTH_BEFORE_SUM_RANGE_def mem_store_HostToNet add.assoc)
qed

text \<open>The fragments: every one but the last has the length of the quotient.\<close>

definition frag_len :: "nat \<Rightarrow> nat \<Rightarrow> nat \<Rightarrow> nat" where
  "frag_len S n k = (if k \<noteq> n - 1 then S div n else S div n + S mod n)"

definition frag_at :: "nat \<Rightarrow> nat \<Rightarrow> byte list \<Rightarrow> nat \<Rightarrow> byte list" where
  "frag_at S n data k = peek (k * (S div n)) (frag_len S n k) data"

lemma frag_end:
  assumes "k < n"
  shows "k * (S div n) + frag_len S n k \<le> S"
    "k \<noteq> n - 1 \<Longrightarrow> k * (S div n) + frag_len S n k = (k + 1) * (S div n)"
    "k = n - 1 \<Longrightarrow> k * (S div n) + frag_len S n k = S"
proof -
  have S: "n * (S div n) + S mod n = S" by simp
  show 1: "k \<noteq> n - 1 \<Longrightarrow> k * (S div n) + frag_len S n k = (k + 1) * (S div n)"
    by (simp add: frag_len_def)
  show 2: "k = n - 1 \<Longrightarrow> k * (S div n) + frag_len S n k = S"
  proof -
    assume k: "k = n - 1"
    have "k * (S div n) + S div n = n * (S div n)"
      using assms k by (metis Suc_diff_1 add.commute gr_implies_not0 mult_Suc not_gr_zero)
    moreover have "frag_len S n k = S div n + S mod n" using k by (simp add: frag_len_def)
    ultimately show ?thesis using S by linarith
  qed
  show "k * (S div n) + frag_len S n k \<le> S"
  proof (cases "k = n - 1")
    case False
    have "(k + 1) * (S div n) \<le> n * (S div n)" using assms by (intro mult_right_mono) auto
    then show ?thesis using 1 [OF False] S by linarith
  next
    case True
    from 2 [OF this] show ?thesis by linarith
  qed
qed

lemma length_frag_at: "k < n \<Longrightarrow> length data = S \<Longrightarrow> length (frag_at S n data k) = frag_len S n k"
  using frag_end(1) [of k n S] by (simp add: frag_at_def)

text \<open>The header of a fragment packet, from the header of the frame.\<close>

definition frag_phy :: "CommPhyHeader \<Rightarrow> nat \<Rightarrow> CommPhyHeader" where
  "frag_phy h flen = FillPhyHeaderLenInfo h (40 + BYTE_8_ALIGN flen) 0 PACKET_TYPE_FRAGMENTED
     (of_nat (BYTE_8_ALIGN flen - flen))"

definition frag_opt :: "nat \<Rightarrow> nat \<Rightarrow> nat \<Rightarrow> CommPhyOptHeader" where
  "frag_opt S n k = \<lparr>frameLen = of_nat (S + 32), fragCount = of_nat n, fragNo = of_nat k\<rparr>"

definition frag_packet :: "bool \<Rightarrow> CommPhyHeader \<Rightarrow> nat \<Rightarrow> nat \<Rightarrow> byte list \<Rightarrow> nat \<Rightarrow> byte list" where
  "frag_packet be h S n data k =
     seal be (frag_body (frag_phy h (frag_len S n k)) (frag_opt S n k) (frag_at S n data k))"

lemma frag_len_bound: "k < n \<Longrightarrow> frag_len S n k \<le> S"
  using frag_end(1) [of k n S] by linarith

lemma fragment_piece_ok:
  assumes al: "reliable al" and k: "k < n" and S: "S \<le> MAX_TOTAL_LEN" and ext: "ext \<le> length mem0" "ext \<le> 512"
    and data: "S \<le> length start"
  shows "fragment_piece al be start \<lparr>ffi_head = mem0, ffi_extendHeadSize = ext, ffi_splitLength = S, ffi_fragCount = n\<rparr>
      (ConvertHostToNet_phy be h) k (k * (S div n)) =
    Inr ((take ext mem0 @ frag_packet be h S n (take S start) k, ext), frag_len S n k)"
proof -
  let ?F = "frag_len S n k" and ?L = "40 + BYTE_8_ALIGN (frag_len S n k)"
  have F: "?F \<le> S" "k * (S div n) + ?F \<le> S" using frag_len_bound [OF k] frag_end(1) [OF k] by auto
  have small: "?L < 4294967296" using BYTE_8_ALIGN_less [of ?F] F S by (simp add: MAX_TOTAL_LEN_def)
  have fr: "take ?F (drop (k * (S div n)) start) = frag_at S n (take S start) k"
    using F by (simp add: frag_at_def peek_def drop_take min_def)
  have lf: "length (frag_at S n (take S start) k) = ?F" using data by (intro length_frag_at [OF k]) simp
  have head: "(if ext > 0 then FillFragmentPacketExtendHead mem0 ext (replicate (?L + ext) 0) 0 ext
      else Inr (replicate (?L + ext) 0)) = Inr (take ext mem0 @ replicate ?L 0)"
    using ext by (simp add: FillFragmentPacketExtendHead_def memcpy_s_def poke_def)
  have pk: "FillFragmentPacket be (ConvertHostToNet_phy be (frag_phy h ?F)) (ConvertHostToNet_opt be (frag_opt S n k))
      (drop (k * (S div n)) start) ?F (take ext mem0 @ replicate ?L 0) ext ?L =
      Inr (take ext mem0 @ frag_packet be h S n (take S start) k)"
    using ext lf fr small by (subst FillFragmentPacket_ok) (auto simp: frag_packet_def)
  have L: "BYTE_8_ALIGN ?F + 32 + 8 = ?L" by simp
  show ?thesis
    unfolding fragment_piece_def Let_def FrameFragmentInfo.select_convs frag_len_def [symmetric] L
    using al head pk by (simp add: reliable_def frag_phy_def frag_opt_def split del: if_split)
qed

lemma fragment_loop_ok:
  assumes "reliable al" and "S \<le> MAX_TOTAL_LEN" and "ext \<le> length mem0" "ext \<le> 512"
    and "S \<le> length start" and "k + left = n"
  shows "fragment_loop al be start
      \<lparr>ffi_head = mem0, ffi_extendHeadSize = ext, ffi_splitLength = S, ffi_fragCount = n\<rparr>
      (ConvertHostToNet_phy be h) left k (k * (S div n)) =
    Inr (map (\<lambda>k. (take ext mem0 @ frag_packet be h S n (take S start) k, ext)) [k..<n])"
  using assms(6)
proof (induction left arbitrary: k)
  case (Suc left)
  have k: "k < n" using Suc.prems by simp
  note piece = fragment_piece_ok [OF assms(1) k assms(2-5), of be h]
  have rest: "fragment_loop al be start
      \<lparr>ffi_head = mem0, ffi_extendHeadSize = ext, ffi_splitLength = S, ffi_fragCount = n\<rparr>
      (ConvertHostToNet_phy be h) left (k + 1) (k * (S div n) + frag_len S n k) =
    Inr (map (\<lambda>k. (take ext mem0 @ frag_packet be h S n (take S start) k, ext)) [k + 1..<n])"
  proof (cases "k = n - 1")
    case True
    then have "left = 0" using Suc.prems by simp
    then show ?thesis using True by simp
  next
    case False
    then show ?thesis using Suc.IH [of "k + 1"] Suc.prems frag_end(2) [OF k False, of S]
      by (simp add: add.commute)
  qed
  show ?case using piece rest k by (simp add: upt_conv_Cons)
qed simp

lemma phy_load_take:
  assumes "32 \<le> k" and "k \<le> length bs"
  shows "phy_load be (take k bs) = phy_load be bs"
  using assms phy.load_prefix [of "take k bs" be] phy.load_prefix [of bs be] by (simp add: min_def)

lemma phy_convert_back: "ConvertHostToNet_phy be (ConvertNetToHost_phy be h) = h"
  by (simp add: header_convert_defs)

text \<open>Splitting a well-formed frame succeeds and yields the packets in order.\<close>

lemma SplitFrame_pieces:
  assumes wf: "sb_wf b" and m: "sb_mem b = Some mem0" and al: "reliable al"
    and off: "sb_off b = extendHeadLen b" and ext: "extendHeadLen b \<le> 512"
    and h: "32 \<le> headerLen b + payloadLen b" and hdr: "phy_load True (buffer_bytes b) = hd1"
    and mtu: "extendHeadLen b + 40 < mtu" "mtu < 4294967296" "mtu < totalLen b + extendHeadLen b"
    and S: "S = headerLen b + payloadLen b - 32"
    and n: "n = split_count S (mtu - extendHeadLen b - 40)" "2 \<le> n"
  shows "SplitFrameIntoPacketsIfNeed al be b mtu =
    Inr (map (\<lambda>k. (take (extendHeadLen b) mem0 @ frag_packet be hd1 S n (drop 32 (frame_bytes b)) k,
      extendHeadLen b)) [0..<n])"
proof -
  let ?e = "extendHeadLen b"
  let ?r = "rptr (GetReadOnlyBytesForEntireBuffer b)"
  have tot: "totalLen b \<le> MAX_TOTAL_LEN" "totalLen b < 4294967296" "headerLen b + payloadLen b \<le> totalLen b"
    using wf sb_wf_lengths [OF wf] by (auto simp: sb_wf_def)
  have wr: "wrap32 (totalLen b + ?e) = totalLen b + ?e" using tot(1) ext by (simp add: MAX_TOTAL_LEN_def)
  define mf where "mf = mtu - ?e - 40"
  have sub: "sub32 (sub32 (sub32 mtu ?e) 32) 8 = mf" "sub32 (headerLen b + payloadLen b) 32 = S"
    "0 < mf" "split_count S mf = n"
    using mtu h tot S n by (simp_all add: mf_def)
  have lr: "take (totalLen b) ?r = buffer_bytes b" using rptr_regions(1) [OF wf] .
  then have "min (length ?r) (totalLen b) = totalLen b" using sb_wf_lengths(4) [OF wf] by (metis length_take)
  then have len: "totalLen b \<le> length ?r" by linarith
  have ld: "phy_load be ?r = ConvertHostToNet_phy be hd1"
  proof -
    have "32 \<le> length ?r" using len tot h by linarith
    moreover have "phy_load True ?r = hd1"
      using hdr lr len tot h phy_load_take [of "totalLen b" ?r True] by simp
    ultimately show ?thesis
      using ConvertNetToHost_load(1) [of ?r be] phy_convert_back [of be "phy_load be ?r"] by simp
  qed
  have fb: "drop 32 (frame_bytes b) = take S (drop 32 ?r)"
    using frame_bytes_prefix [OF wf] tot(3) S by (simp add: drop_take min_def flip: lr)
  have mem: "?e \<le> length mem0" using wf m off by (auto simp: sb_wf_def)
  have ls: "S \<le> length (drop 32 ?r)" "S \<le> MAX_TOTAL_LEN" using len tot S by auto
  show ?thesis
    using fragment_loop_ok [OF al ls(2) mem ext ls(1), of 0 n n be hd1] wr mtu n(2) m
    by (simp add: SplitFrameIntoPacketsIfNeed_def rptr_regions [OF wf] sub ld fb FrameFragmentation_def
        MIN_FRAGMENT_COUNT_def Let_def del: sub32_exact)
qed

section \<open>Each packet is accepted\<close>

text \<open>The frame header a sender has set, as far as the fragments inherit it.\<close>

definition frame_header_ok :: "bool \<Rightarrow> string \<Rightarrow> CommPhyHeader \<Rightarrow> bool" where
  "frame_header_ok sc src h \<longleftrightarrow> magic h = MAGIC_CODE \<and> phyVersion h = PROTOCOL_VERSION \<and>
     sourceId h = HashFunc sc src \<and> GetFrameType (packetType h) \<noteq> INVALID_MAX_FRAME_TYPE \<and>
     GetFrameType (packetType h) \<noteq> EMPTY"

definition frag_result :: "CommPhyHeader \<Rightarrow> nat \<Rightarrow> nat \<Rightarrow> nat \<Rightarrow> ParseResult" where
  "frag_result h S n k = ParseResult_init\<lparr>pr_frameId := frameId h, pr_sourceId := sourceId h,
     pr_packetLen := of_nat (40 + BYTE_8_ALIGN (frag_len S n k)),
     pr_paddingLen := of_nat (BYTE_8_ALIGN (frag_len S n k) - frag_len S n k),
     pr_dbVersion := dbIntVer h, pr_isFragment := True, pr_frameType := GetFrameType (packetType h),
     pr_frameLen := of_nat (S + 32), pr_fragCount := of_nat n, pr_fragNo := of_nat k\<rparr>"

lemma frag_packet_facts:
  assumes "k < n" and "length data = S"
  shows "length (frag_packet be h S n data k) = 40 + BYTE_8_ALIGN (frag_len S n k)"
    "drop 40 (frag_packet be h S n data k) =
      frag_at S n data k @ replicate (BYTE_8_ALIGN (frag_len S n k) - frag_len S n k) 0"
    "opt_load True (drop 32 (frag_packet be h S n data k)) = frag_opt S n k"
    "\<exists>s. phy_load True (frag_packet be h S n data k) = (frag_phy h (frag_len S n k))\<lparr>checkSum := s\<rparr> \<and>
      CalculateXorSum be (drop 16 (frag_packet be h S n data k)) (24 + BYTE_8_ALIGN (frag_len S n k)) = Inr s"
proof -
  let ?B = "frag_body (frag_phy h (frag_len S n k)) (frag_opt S n k) (frag_at S n data k)"
  have lf: "length (frag_at S n data k) = frag_len S n k" using length_frag_at assms by blast
  have L: "length ?B = 40 + BYTE_8_ALIGN (frag_len S n k)" by (simp add: lf)
  have al: "32 \<le> length ?B" "8 dvd length ?B" unfolding L by (auto intro: dvd_add)
  note sf = seal_facts [OF al, of be, folded frag_packet_def]
  show "length (frag_packet be h S n data k) = 40 + BYTE_8_ALIGN (frag_len S n k)" using sf(1) L by simp
  have d: "drop j (frag_packet be h S n data k) = drop j ?B" if "16 \<le> j" for j
    using arg_cong [OF sf(2), of "drop (j - 16)"] that by simp
  show "drop 40 (frag_packet be h S n data k) =
      frag_at S n data k @ replicate (BYTE_8_ALIGN (frag_len S n k) - frag_len S n k) 0"
    using d [of 40] by (simp add: frag_body_def phy.store_length opt.store_length lf)
  show "opt_load True (drop 32 (frag_packet be h S n data k)) = frag_opt S n k"
    using d [of 32] by (simp add: frag_body_def phy.store_length opt.load_store)
  have "phy_load True ?B = frag_phy h (frag_len S n k)" by (simp add: frag_body_def phy.load_store)
  then show "\<exists>s. phy_load True (frag_packet be h S n data k) = (frag_phy h (frag_len S n k))\<lparr>checkSum := s\<rparr> \<and>
      CalculateXorSum be (drop 16 (frag_packet be h S n data k)) (24 + BYTE_8_ALIGN (frag_len S n k)) = Inr s"
    using sf(3,4) L by simp
qed

lemma unat_frag_words:
  assumes "k < n" and "S + 40 \<le> MAX_FRAME_LEN" and "n < 65536"
  shows "unat (of_nat (40 + BYTE_8_ALIGN (frag_len S n k)) :: u32) = 40 + BYTE_8_ALIGN (frag_len S n k)"
    "unat (of_nat (BYTE_8_ALIGN (frag_len S n k) - frag_len S n k) :: u8) =
      BYTE_8_ALIGN (frag_len S n k) - frag_len S n k"
    "unat (of_nat (S + 32) :: u32) = S + 32" "unat (of_nat n :: u16) = n" "unat (of_nat k :: u16) = k"
  using assms frag_len_bound [of k n S] BYTE_8_ALIGN_less [of "frag_len S n k"]
  by (simp_all only: unat_of_nat_eq MAX_FRAME_LEN_def)
    (rule unat_of_nat_eq, simp add: MAX_FRAME_LEN_def)+

lemma frag_packet_parsed:
  assumes k: "k < n" and l: "length data = S" and S: "S + 40 \<le> MAX_FRAME_LEN" and n: "n < 65536"
    and h: "frame_header_ok sc src h"
  shows "CheckAndParsePacket be sc src (Some (frag_packet be h S n data k))
      (length (frag_packet be h S n data k)) ParseResult_init = (frag_result h S n k, E_OK)"
proof -
  let ?P = "frag_packet be h S n data k" and ?F = "frag_len S n k"
  note f = frag_packet_facts [OF k l, of be h] and u = unat_frag_words [OF k S n]
  obtain s where s: "phy_load True ?P = (frag_phy h ?F)\<lparr>checkSum := s\<rparr>"
    "CalculateXorSum be (drop 16 ?P) (24 + BYTE_8_ALIGN ?F) = Inr s" using f(4) by blast
  have pad: "BYTE_8_ALIGN ?F - ?F < 8" "BYTE_8_ALIGN ?F - ?F \<le> BYTE_8_ALIGN ?F"
    using BYTE_8_ALIGN_less [of ?F] by auto
  have small: "40 + BYTE_8_ALIGN ?F \<le> MAX_TOTAL_LEN"
    using BYTE_8_ALIGN_less [of ?F] frag_len_bound [OF k, of S] S by (simp add: proto_consts)
  have v: "phy_valid be sc src ?P"
    using h s f(1) u(1,2) pad
    by (simp add: phy_valid_def Let_def frame_header_ok_def frag_phy_def FillPhyHeaderLenInfo_def
        MAX_PADDING_LEN_def)
  have t: "GetFrameType (packetType (phy_load True ?P)) = GetFrameType (packetType h)"
    by (simp add: s frag_phy_def FillPhyHeaderLenInfo_def GetFrameType_fragmented)
  have r: "(phy_result ParseResult_init (phy_load True ?P))\<lparr>pr_frameType := GetFrameType (packetType h),
      pr_frameLen := of_nat (S + 32), pr_fragCount := of_nat n, pr_fragNo := of_nat k\<rparr> = frag_result h S n k"
    using fragmented_flag_set [of "packetType h"]
    by (simp add: s phy_result_def frag_result_def frag_phy_def FillPhyHeaderLenInfo_def)
  show ?thesis
    using ParseCommPhyHeader_valid [OF v, of ParseResult_init] small h f(1,3) r
      fragmented_flag_set [of "packetType h"]
    by (simp add: CheckAndParsePacket_def t frame_header_ok_def ParseCommPhyOptHeader_def frag_opt_def
        s phy_result_def frag_phy_def FillPhyHeaderLenInfo_def GetFrameType_fragmented Let_def)
qed

lemma frag_result_analyzed:
  assumes "k < n" and "S + 40 \<le> MAX_FRAME_LEN" and "2 \<le> n" and "n < 65536" and "n \<le> S"
  shows "AnalyzeSplitStructure (frag_result h S n k) = Inr (S div n, S div n + S mod n)"
proof -
  note u = unat_frag_words [OF assms(1,2,4)]
  have "40 + frag_len S n k + (BYTE_8_ALIGN (frag_len S n k) - frag_len S n k) =
      40 + BYTE_8_ALIGN (frag_len S n k)"
    using BYTE_8_ALIGN_ge [of "frag_len S n k"] by simp
  then show ?thesis
    using assms u
    by (simp add: AnalyzeSplitStructure_def frag_result_def MIN_FRAGMENT_COUNT_def frag_len_def Let_def)
qed

lemma CombinePacketIntoFrame_ok:
  assumes wf: "sb_wf b" and m: "sb_mem b \<noteq> None" and p: "padLen b = 0" and l: "40 + flen \<le> length pkt"
    and fits: "32 + foff + flen \<le> totalLen b"
  shows "CombinePacketIntoFrame b pkt (length pkt) foff flen =
    (write_mem b (sb_off b + (32 + foff)) (take flen (drop 40 pkt)), E_OK)"
proof -
  have t: "sub32 (totalLen b) 0 = totalLen b" "totalLen b < 4294967296"
    using sb_wf_lengths(1) [OF wf] by simp_all
  have "sub32 (sub32 (totalLen b) 32) foff = totalLen b - 32 - foff" using fits t(2) by simp
  then show ?thesis
    using m p l fits t
    by (simp add: CombinePacketIntoFrame_def GetWritableBytesForEntireFrame_def write_s_def add.assoc)
qed

section \<open>Properties\<close>

lemma split_count_exact:
  assumes "0 < mf" and "mf < S" and "S < 65535 * mf"
  shows "2 \<le> split_count S mf" "split_count S mf < 65536" "split_count S mf \<le> S"
    "S div split_count S mf \<le> mf"
proof -
  let ?q = "S div mf" and ?r = "S mod mf"
  have S: "S = mf * ?q + ?r" by simp
  have q: "?q < 65535" using assms by (simp add: div_less_iff_less_mult mult.commute)
  have r: "?r < mf" using assms(1) by simp
  have c: "split_count S mf = (if ?r = 0 then ?q else ?q + 1)"
    using q by (simp add: split_count_def Let_def)
  have q1: "1 \<le> ?q" using assms by (simp add: Suc_leI div_greater_zero_iff)
  have r2: "?r = 0 \<Longrightarrow> 2 \<le> ?q"
  proof (rule ccontr)
    assume "?r = 0" "\<not> 2 \<le> ?q"
    then have "?q = 1" "S = mf * ?q" using q1 S by auto
    then show False using assms(2) by simp
  qed
  show two: "2 \<le> split_count S mf" using c q1 r2 by auto
  show "split_count S mf < 65536" using c q by auto
  have "?q \<le> mf * ?q" using assms(1) by simp
  then show "split_count S mf \<le> S"
  proof (cases "?r = 0")
    case True
    then have "split_count S mf = ?q" using c by simp
    then show ?thesis using \<open>?q \<le> mf * ?q\<close> S by linarith
  next
    case False
    then have "1 \<le> ?r" "split_count S mf = ?q + 1" using c by auto
    then show ?thesis using \<open>?q \<le> mf * ?q\<close> S by linarith
  qed
  have "S \<le> split_count S mf * mf"
  proof (cases "?r = 0")
    case True
    then have "split_count S mf * mf = mf * ?q" using c by simp
    then show ?thesis using S True by linarith
  next
    case False
    then have "split_count S mf * mf = mf * ?q + mf" using c by (simp add: algebra_simps)
    then show ?thesis using S r by linarith
  qed
  then have "S div split_count S mf \<le> (split_count S mf * mf) div split_count S mf" by (rule div_le_mono)
  then show "S div split_count S mf \<le> mf" using two by simp
qed

text \<open>
  The claim in the comments of \<^verbatim>\<open>SplitFrameIntoPacketsIfNeed\<close>: a frame that does not fit into the MTU
  is longer than the largest fragment.
\<close>

lemma split_needed:
  assumes "sb_wf b" and "32 \<le> headerLen b + payloadLen b" and "extendHeadLen b + 40 < mtu"
    and "mtu < totalLen b + extendHeadLen b"
  shows "mtu - extendHeadLen b - 40 < headerLen b + payloadLen b - 32"
  using assms by (auto simp: sb_wf_def)

text \<open>
  C29. Splitting a frame that exceeds the MTU succeeds, and a receiver accepts every packet: each one
  parses as fragment number \<open>k\<close> of \<open>n\<close> of a frame of the original length, with the frame's id and
  source, and passes the check of the split structure. The code's comment that a frame to be split
  always yields at least two fragments holds as long as the fragment count fits into 16 bits.
\<close>

theorem split_packets_accepted:
  assumes "sb_wf b" and "sb_mem b \<noteq> None" and "reliable al" and "sb_off b = extendHeadLen b"
    and "extendHeadLen b \<le> MAX_EXTEND_HEAD_LENGTH" and "32 \<le> headerLen b + payloadLen b"
    and "headerLen b + payloadLen b + 8 \<le> MAX_FRAME_LEN"
    and "frame_header_ok sc src (phy_load True (buffer_bytes b))"
    and "extendHeadLen b + 40 < mtu" and "mtu < totalLen b + extendHeadLen b"
    and "headerLen b + payloadLen b - 32 < 65535 * (mtu - extendHeadLen b - 40)"
  shows "\<exists>n pieces. 2 \<le> n \<and> SplitFrameIntoPacketsIfNeed al be b mtu = Inr pieces \<and> length pieces = n \<and>
    (\<forall>k < n. snd (pieces ! k) = extendHeadLen b \<and>
      (let pkt = drop (snd (pieces ! k)) (fst (pieces ! k));
           (r, e) = CheckAndParsePacket be sc src (Some pkt) (length pkt) ParseResult_init
       in e = E_OK \<and> pr_isFragment r \<and> unat (pr_fragNo r) = k \<and> unat (pr_fragCount r) = n \<and>
          unat (pr_frameLen r) = headerLen b + payloadLen b \<and>
          pr_frameId r = frameId (phy_load True (buffer_bytes b)) \<and>
          (\<exists>fl ll. AnalyzeSplitStructure r = Inr (fl, ll))))"
proof -
  let ?h = "phy_load True (buffer_bytes b)" and ?S = "headerLen b + payloadLen b - 32"
  let ?d = "drop 32 (frame_bytes b)"
  define n where "n = split_count ?S (mtu - extendHeadLen b - 40)"
  obtain m where m: "sb_mem b = Some m" using assms(2) by auto
  have e: "extendHeadLen b \<le> 512" using assms(5) by (simp add: MAX_EXTEND_HEAD_LENGTH_def)
  have mt: "mtu < 4294967296" using assms(1,10) e by (auto simp: sb_wf_def MAX_TOTAL_LEN_def)
  have mf: "0 < mtu - extendHeadLen b - 40" using assms(9) by simp
  note n = split_count_exact [OF mf split_needed [OF assms(1,6,9,10)] assms(11), folded n_def]
  have pieces: "SplitFrameIntoPacketsIfNeed al be b mtu = Inr (map (\<lambda>k. (take (extendHeadLen b) m @
      frag_packet be ?h ?S n ?d k, extendHeadLen b)) [0..<n])"
    by (rule SplitFrame_pieces [OF assms(1) m assms(3,4) e assms(6) refl assms(9) mt assms(10) refl n_def n(1)])
  have l: "length ?d = ?S" using sb_wf_lengths(5) [OF assms(1)] by simp
  have S: "?S + 40 \<le> MAX_FRAME_LEN" using assms(6,7) by simp
  have lm: "length (take (extendHeadLen b) m) = extendHeadLen b"
    using assms(1,4) m by (auto simp: sb_wf_def)
  have pk: "CheckAndParsePacket be sc src (Some (frag_packet be ?h ?S n ?d k))
      (length (frag_packet be ?h ?S n ?d k)) ParseResult_init = (frag_result ?h ?S n k, E_OK)"
    "AnalyzeSplitStructure (frag_result ?h ?S n k) = Inr (?S div n, ?S div n + ?S mod n)"
    "unat (pr_fragNo (frag_result ?h ?S n k)) = k" "unat (pr_fragCount (frag_result ?h ?S n k)) = n"
    "unat (pr_frameLen (frag_result ?h ?S n k)) = headerLen b + payloadLen b" if "k < n" for k
    using frag_packet_parsed [OF that l S n(2) assms(8), of be] frag_result_analyzed [OF that S n(1,2,3)]
      unat_frag_words(3-5) [OF that S n(2)] assms(6)
    by (simp_all add: frag_result_def)
  have isf: "pr_isFragment (frag_result ?h ?S n k)" "pr_frameId (frag_result ?h ?S n k) = frameId ?h" for k
    by (simp_all add: frag_result_def)
  show ?thesis
    by (rule exI [of _ n], rule exI, intro conjI allI impI, rule n(1), rule pieces)
      (simp_all add: lm pk isf Let_def del: length_take)
qed

text \<open>C37. Every packet of a split frame but the last fits into the MTU, for an MTU and an extension head that are multiples of
  eight, which \<^verbatim>\<open>NetworkAdapter\<close> and \<^verbatim>\<open>GetExtendHeadDataSize\<close> ensure, and for a frame whose number of fragments, computed from the bytes
  that a packet of this MTU carries, fits into the 16 bits that the fragment count has in the packet. The code does not check the
  latter; its comment takes it for granted, and for a larger frame the count is truncated.\<close>

theorem split_packets_fit_mtu:
  assumes "sb_wf b" and "sb_mem b \<noteq> None" and "reliable al" and "sb_off b = extendHeadLen b"
    and "extendHeadLen b \<le> MAX_EXTEND_HEAD_LENGTH" and "32 \<le> headerLen b + payloadLen b"
    and "extendHeadLen b + 40 < mtu" and "mtu < totalLen b + extendHeadLen b"
    and "headerLen b + payloadLen b - 32 < 65535 * (mtu - extendHeadLen b - 40)"
    and "8 dvd mtu" and "8 dvd extendHeadLen b"
  shows "\<exists>pieces. SplitFrameIntoPacketsIfNeed al be b mtu = Inr pieces \<and>
    (\<forall>k. Suc k < length pieces \<longrightarrow> length (fst (pieces ! k)) \<le> mtu)"
proof -
  let ?h = "phy_load True (buffer_bytes b)" and ?S = "headerLen b + payloadLen b - 32"
  let ?d = "drop 32 (frame_bytes b)" and ?mf = "mtu - extendHeadLen b - 40"
  define n where "n = split_count ?S ?mf"
  obtain m where m: "sb_mem b = Some m" using assms(2) by auto
  have e: "extendHeadLen b \<le> 512" using assms(5) by (simp add: MAX_EXTEND_HEAD_LENGTH_def)
  have mt: "mtu < 4294967296" using assms(1,8) e by (auto simp: sb_wf_def MAX_TOTAL_LEN_def)
  have mf: "0 < ?mf" using assms(7) by simp
  note n = split_count_exact [OF mf split_needed [OF assms(1,6,7,8)] assms(9), folded n_def]
  have pieces: "SplitFrameIntoPacketsIfNeed al be b mtu = Inr (map (\<lambda>k. (take (extendHeadLen b) m @
      frag_packet be ?h ?S n ?d k, extendHeadLen b)) [0..<n])"
    by (rule SplitFrame_pieces [OF assms(1) m assms(3,4) e assms(6) refl assms(7) mt assms(8) refl n_def n(1)])
  have l: "length ?d = ?S" using sb_wf_lengths(5) [OF assms(1)] by simp
  have "8 dvd ?mf" using assms(10,11) by (simp add: dvd_diff_nat)
  then have "BYTE_8_ALIGN (?S div n) \<le> ?mf"
    using BYTE_8_ALIGN_mono [OF n(4)] by (simp add: BYTE_8_ALIGN_aligned)
  then have fit: "length (take (extendHeadLen b) m @ frag_packet be ?h ?S n ?d k) \<le> mtu" if "Suc k < n" for k
    using that frag_packet_facts(1) [of k n ?d ?S be ?h] l assms(7) by (auto simp: frag_len_def)
  show ?thesis by (rule exI, rule conjI, rule pieces) (use fit in simp)
qed

section \<open>Concrete inputs\<close>

text \<open>A frame of 2983 bytes with its header set.\<close>

definition large_buffer :: SerialBuffer where
  "large_buffer = fst (AllocBufferByPayloadLength test_allocator SerialBuffer_init 2911 72)"

definition large_frame :: SerialBuffer where
  "large_frame = fst (SetPhyHeader False large_buffer (sample_info APPLICATION_MESSAGE))"

lemma large_buffer_ok:
  "sb_wf large_buffer" "sb_mem large_buffer \<noteq> None" "headerLen large_buffer = 72"
  "8 dvd totalLen large_buffer" "payloadLen large_buffer = 2911" "totalLen large_buffer = 2984"
  "sb_off large_buffer = 0" "extendHeadLen large_buffer = 0"
  by (simp_all add: large_buffer_def AllocBufferByPayloadLength_def SerialBuffer_init_def
      new_array_def test_allocator_def BYTE_8_ALIGN_def MAX_TOTAL_LEN_def sb_wf_def)

lemma large_frame_ok:
  "sb_wf large_frame" "sb_mem large_frame \<noteq> None" "headerLen large_frame = 72"
  "payloadLen large_frame = 2911" "totalLen large_frame = 2984" "sb_off large_frame = 0"
  "extendHeadLen large_frame = 0"
  "frame_header_ok True ''dev'' (phy_load True (buffer_bytes large_frame))"
proof -
  let ?i = "sample_info APPLICATION_MESSAGE"
  have t: "phi_frameType ?i \<noteq> INVALID_MAX_FRAME_TYPE" by (simp add: sample_info_def)
  obtain b' s where b': "SetPhyHeader False large_buffer ?i = (b', E_OK)" "sb_wf b'" "sb_mem b' \<noteq> None"
    "headerLen b' = headerLen large_buffer" "payloadLen b' = payloadLen large_buffer"
    "totalLen b' = totalLen large_buffer" "sb_off b' = sb_off large_buffer"
    "extendHeadLen b' = extendHeadLen large_buffer"
    "phy_load True (buffer_bytes b') = frame_phy_header ?i large_buffer s"
    by (rule SetPhyHeader_ok [OF large_buffer_ok(1,2) _ large_buffer_ok(4) t, where be = False])
      (simp_all add: large_buffer_ok)
  have "large_frame = b'" by (simp add: large_frame_def b'(1))
  then show "sb_wf large_frame" "sb_mem large_frame \<noteq> None" "headerLen large_frame = 72"
    "payloadLen large_frame = 2911" "totalLen large_frame = 2984" "sb_off large_frame = 0"
    "extendHeadLen large_frame = 0"
    "frame_header_ok True ''dev'' (phy_load True (buffer_bytes large_frame))"
    using b' large_buffer_ok
    by (simp_all add: frame_header_ok_def frame_phy_header_def sample_info_def GetFrameType_SetFrameType
        del: not_None_eq)
qed

theorem split_packets_accepted_witness:
  "\<exists>n pieces. 2 \<le> n \<and> SplitFrameIntoPacketsIfNeed test_allocator False large_frame 1024 = Inr pieces \<and>
    length pieces = n \<and>
    (\<forall>k < n. snd (pieces ! k) = 0 \<and>
      (let pkt = drop (snd (pieces ! k)) (fst (pieces ! k));
           (r, e) = CheckAndParsePacket False True ''dev'' (Some pkt) (length pkt) ParseResult_init
       in e = E_OK \<and> pr_isFragment r \<and> unat (pr_fragNo r) = k \<and> unat (pr_fragCount r) = n \<and>
          unat (pr_frameLen r) = 2983 \<and>
          pr_frameId r = frameId (phy_load True (buffer_bytes large_frame)) \<and>
          (\<exists>fl ll. AnalyzeSplitStructure r = Inr (fl, ll))))"
  using split_packets_accepted [of large_frame test_allocator True "''dev''" 1024 False]
  by (simp add: large_frame_ok MAX_EXTEND_HEAD_LENGTH_def MAX_FRAME_LEN_def del: not_None_eq)

theorem split_packets_fit_mtu_witness:
  "\<exists>pieces. SplitFrameIntoPacketsIfNeed test_allocator False large_frame 1024 = Inr pieces \<and>
    (\<forall>k. Suc k < length pieces \<longrightarrow> length (fst (pieces ! k)) \<le> 1024)"
  using split_packets_fit_mtu [of large_frame test_allocator 1024 False]
  by (simp add: large_frame_ok MAX_EXTEND_HEAD_LENGTH_def del: not_None_eq)

text \<open>
  The last packet may exceed the MTU: the whole remainder of the division goes into the last
  fragment, although the fragment count was computed as if the remainder were spread. A frame of
  2983 bytes is split for an MTU of 1024 into three packets, the last of which has 1032 bytes.
\<close>

theorem last_packet_exceeds_mtu:
  "\<exists>pieces. SplitFrameIntoPacketsIfNeed test_allocator False large_frame 1024 = Inr pieces \<and>
    map (length \<circ> fst) pieces = [1024, 1024, 1032]"
proof -
  obtain m where m: "sb_mem large_frame = Some m" using large_frame_ok(2) by auto
  have c: "split_count 2951 984 = 3" by (simp add: split_count_def)
  have l: "length (drop 32 (frame_bytes large_frame)) = 2951"
    using sb_wf_lengths(5) [OF large_frame_ok(1)] by (simp add: large_frame_ok)
  have len: "length (frag_packet False h 2951 3 (drop 32 (frame_bytes large_frame)) k)
      = 40 + BYTE_8_ALIGN (frag_len 2951 3 k)" if "k < 3" for k h
    by (rule frag_packet_facts(1) [OF that l])
  have "SplitFrameIntoPacketsIfNeed test_allocator False large_frame 1024 =
    Inr (map (\<lambda>k. (take 0 m @ frag_packet False (phy_load True (buffer_bytes large_frame)) 2951 3
      (drop 32 (frame_bytes large_frame)) k, 0)) [0..<3])"
    using SplitFrame_pieces [OF large_frame_ok(1) m reliable_test_allocator, of _ 1024 2951 3 False] c
    by (simp add: large_frame_ok)
  moreover have "[0..<3] = [0, 1, 2 :: nat]" by (simp add: upt_rec)
  ultimately show ?thesis using len by (simp add: frag_len_def BYTE_8_ALIGN_def)
qed

text \<open>
  The fragment count is computed in 16 bits. With the smallest MTU and the largest extension
  head a frame of the maximal length needs 71090 fragments, but the code computes 5554.
\<close>

theorem split_count_truncated:
  "split_count (MAX_FRAME_LEN - 32) (1024 - MAX_EXTEND_HEAD_LENGTH - 40) = 5554 \<and>
   (MAX_FRAME_LEN - 32 + (1024 - MAX_EXTEND_HEAD_LENGTH - 40) - 1) div (1024 - MAX_EXTEND_HEAD_LENGTH - 40) = 71090"
  by (simp add: split_count_def MAX_FRAME_LEN_def MAX_EXTEND_HEAD_LENGTH_def)

end
