(* ===== verification/Std_Map.thy ===== *)
theory Std_Map
  imports DDB_Prelude "HOL-Library.List_Lexorder" "HOL-Library.Char_ord"
begin

text \<open>
  \<^verbatim>\<open>std::map\<close> as an association list in increasing key order, the order in which the code iterates
  over it. Keys are integers, strings (ordered by unsigned characters) and labels (byte vectors,
  ordered lexicographically). The locale \<open>ordered_map\<close> states what the clients rely on.
\<close>

type_synonym ('k, 'v) smap = "('k \<times> 'v) list"

fun smap_insert :: "'k::linorder \<Rightarrow> 'v \<Rightarrow> ('k, 'v) smap \<Rightarrow> ('k, 'v) smap" where
  "smap_insert k v [] = [(k, v)]"
| "smap_insert k v ((a, w) # m) =
     (if k < a then (k, v) # (a, w) # m else if k = a then (k, v) # m else (a, w) # smap_insert k v m)"

definition smap_erase :: "'k \<Rightarrow> ('k, 'v) smap \<Rightarrow> ('k, 'v) smap" where
  "smap_erase k m = filter (\<lambda>e. fst e \<noteq> k) m"

definition smap_inv :: "('k::linorder, 'v) smap \<Rightarrow> bool" where
  "smap_inv m = sorted_wrt (<) (map fst m)"

text \<open>\<^verbatim>\<open>m[k]\<close> on a missing key creates the default element.\<close>

definition smap_get :: "'v \<Rightarrow> ('k, 'v) smap \<Rightarrow> 'k \<Rightarrow> 'v" where
  "smap_get d m k = (case map_of m k of None \<Rightarrow> d | Some v \<Rightarrow> v)"

locale ordered_map =
  fixes find :: "'m \<Rightarrow> 'k \<Rightarrow> 'v option" and ins :: "'k \<Rightarrow> 'v \<Rightarrow> 'm \<Rightarrow> 'm" and del :: "'k \<Rightarrow> 'm \<Rightarrow> 'm"
    and nil :: 'm and inv :: "'m \<Rightarrow> bool"
  assumes inv_nil: "inv nil" and inv_ins: "inv m \<Longrightarrow> inv (ins k v m)" and inv_del: "inv m \<Longrightarrow> inv (del k m)"
    and find_nil: "find nil k = None"
    and find_ins: "inv m \<Longrightarrow> find (ins k v m) j = (if j = k then Some v else find m j)"
    and find_del: "inv m \<Longrightarrow> find (del k m) j = (if j = k then None else find m j)"
begin

lemma find_ins_same: "inv m \<Longrightarrow> find (ins k v m) k = Some v"
  by (simp add: find_ins)

lemma find_del_ins: "inv m \<Longrightarrow> find (del k (ins k v m)) = find (del k m)"
  by (rule ext) (simp add: find_del find_ins inv_ins)

lemma find_ins_ins: "inv m \<Longrightarrow> find (ins k v (ins k w m)) = find (ins k v m)"
  by (rule ext) (simp add: find_ins inv_ins)

lemma find_del_all:
  assumes "inv m"
  shows "find (fold del ks m) j = (if j \<in> set ks then None else find m j)" "inv (fold del ks m)"
  using assms by (induction ks arbitrary: m) (simp_all add: find_del inv_del)

end

lemma smap_inv_nil [simp]: "smap_inv []"
  by (simp add: smap_inv_def)

lemma map_of_smap_insert: "smap_inv m \<Longrightarrow> map_of (smap_insert k v m) = (map_of m)(k \<mapsto> v)"
proof (induction m)
  case (Cons e m)
  obtain a w where e: "e = (a, w)" by (cases e)
  have "smap_inv m" using Cons.prems by (simp add: smap_inv_def)
  then show ?case using Cons.IH by (auto simp: e)
qed simp

lemma set_smap_insert_keys: "set (map fst (smap_insert k v m)) = insert k (set (map fst m))"
  by (induction k v m rule: smap_insert.induct) auto

lemma smap_inv_insert: "smap_inv m \<Longrightarrow> smap_inv (smap_insert k v m)"
proof (induction m)
  case (Cons e m)
  obtain a w where e: "e = (a, w)" by (cases e)
  have m: "smap_inv m" "\<forall>x \<in> set (map fst m). a < x" using Cons.prems by (auto simp: smap_inv_def e)
  consider "k < a" | "k = a" | "a < k" by fastforce
  then show ?case
  proof cases
    case 3
    have "\<forall>x \<in> set (map fst (smap_insert k v m)). a < x"
      using m(2) 3 by (simp only: set_smap_insert_keys) auto
    then show ?thesis using Cons.IH [OF m(1)] 3 by (auto simp: smap_inv_def e)
  qed (use m in \<open>auto simp: smap_inv_def e\<close>)
qed (simp add: smap_inv_def)

lemma map_of_smap_erase: "map_of (smap_erase k m) = (map_of m)(k := None)"
  by (induction m) (auto simp: smap_erase_def)

lemma smap_inv_filter: "smap_inv m \<Longrightarrow> smap_inv (filter P m)"
  by (induction m) (auto simp: smap_inv_def)

lemma smap_inv_erase: "smap_inv m \<Longrightarrow> smap_inv (smap_erase k m)"
  by (simp add: smap_erase_def smap_inv_filter)

interpretation smap: ordered_map map_of smap_insert smap_erase "[]" "smap_inv"
  by unfold_locales (simp_all add: smap_inv_insert smap_inv_erase map_of_smap_insert map_of_smap_erase)

lemma smap_inv_distinct: "smap_inv m \<Longrightarrow> distinct (map fst m)"
  by (simp add: smap_inv_def strict_sorted_iff)

lemma smap_find_mem: "smap_inv m \<Longrightarrow> map_of m k = Some v \<longleftrightarrow> (k, v) \<in> set m"
  using smap_inv_distinct [of m] by simp

lemma smap_in_insert:
  "smap_inv m \<Longrightarrow> (j, x) \<in> set (smap_insert k v m) \<longleftrightarrow> (if j = k then x = v else (j, x) \<in> set m)"
  using smap_find_mem [of "smap_insert k v m" j x] smap_find_mem [of m j x] smap_inv_insert [of m k v]
  by (auto simp: map_of_smap_insert)

lemma smap_in_erase: "(j, x) \<in> set (smap_erase k m) \<longleftrightarrow> j \<noteq> k \<and> (j, x) \<in> set m"
  by (auto simp: smap_erase_def)

lemma length_smap_insert:
  "smap_inv m \<Longrightarrow> length (smap_insert k v m) = (if map_of m k = None then Suc (length m) else length m)"
proof -
  assume m: "smap_inv m"
  have "length (smap_insert k v m) = card (set (map fst (smap_insert k v m)))"
    using smap_inv_distinct [OF smap_inv_insert [OF m]] by (metis distinct_card length_map)
  also have "\<dots> = card (insert k (set (map fst m)))" by (simp only: set_smap_insert_keys)
  also have "\<dots> = (if map_of m k = None then Suc (length m) else length m)"
    using smap_inv_distinct [OF m] distinct_card [of "map fst m"]
    by (auto simp: card_insert_if map_of_eq_None_iff)
  finally show ?thesis .
qed

lemma smap_insert_not_Nil [simp]: "smap_insert k v m \<noteq> []"
  by (cases m) (auto split: prod.splits if_splits)

lemma smap_singleton:
  "smap_inv m \<Longrightarrow> length m = 1 \<Longrightarrow> map_of m k = Some v \<Longrightarrow> m = [(k, v)]"
  by (cases m) (auto split: if_splits)

text \<open>Building a map by inserting the elements of a list with distinct keys.\<close>

lemma smap_inv_fold_insert: "smap_inv m \<Longrightarrow> smap_inv (fold (\<lambda>(k, v). smap_insert k v) xs m)"
  by (induction xs arbitrary: m) (auto simp: smap_inv_insert)

lemma set_fold_insert:
  assumes "smap_inv m" and "distinct (map fst xs)" and "fst ` set xs \<inter> fst ` set m = {}"
  shows "set (fold (\<lambda>(k, v). smap_insert k v) xs m) = set xs \<union> set m"
  using assms
proof (induction xs arbitrary: m)
  case (Cons x xs)
  obtain k v where x: "x = (k, v)" by (cases x)
  have fresh: "k \<notin> fst ` set m" using Cons.prems(3) x by auto
  have ins: "set (smap_insert k v m) = insert (k, v) (set m)"
    using smap_in_insert [OF Cons.prems(1), of _ _ k v] fresh by (auto simp: image_iff split: if_splits)
  have "fst ` set xs \<inter> fst ` set (smap_insert k v m) = {}"
    using Cons.prems(2,3) x by (auto simp: ins)
  then show ?case
    using Cons.IH [of "smap_insert k v m"] Cons.prems(1,2) x ins by (simp add: smap_inv_insert)
qed simp

lemma smap_get_insert: "smap_inv m \<Longrightarrow> smap_get d (smap_insert k v m) j = (if j = k then v else smap_get d m j)"
  by (simp add: smap_get_def map_of_smap_insert)

text \<open>Changing every value, and dropping the empty containers.\<close>

lemma smap_inv_map [simp]: "smap_inv (map (\<lambda>(k, v). (k, f v)) m) = smap_inv m"
proof -
  have "map fst (map (\<lambda>(k, v). (k, f v)) m) = map fst m" by (induction m) auto
  then show ?thesis by (simp add: smap_inv_def del: map_map)
qed

lemma smap_get_map:
  assumes "f d = d"
  shows "smap_get d (map (\<lambda>(k, v). (k, f v)) m) k = f (smap_get d m k)"
  using assms by (induction m) (auto simp: smap_get_def)

lemma smap_get_nonempty:
  assumes "distinct (map fst m)"
  shows "smap_get [] (filter (\<lambda>(k, v). v \<noteq> []) m) k = smap_get [] m k"
  using assms
proof (induction m)
  case (Cons e m)
  obtain j v where e: "e = (j, v)" by (cases e)
  have "map_of (filter (\<lambda>(k, v). v \<noteq> []) m) j = None" if "j \<notin> set (map fst m)"
    using that by (auto simp: map_of_eq_None_iff)
  then show ?case using Cons by (auto simp: e smap_get_def)
qed simp

lemma smap_tl: "smap_inv m \<Longrightarrow> m \<noteq> [] \<Longrightarrow> tl m = smap_erase (fst (hd m)) m"
  by (cases m) (auto simp: smap_erase_def smap_inv_def intro!: filter_True [symmetric])

end
