(* ===== verification/Frame_Combiner.thy ===== *)
theory Frame_Combiner
  imports Fragmentation Std_Map
begin

text \<open>
  Reassembly of fragmented frames: \<^verbatim>\<open>communicator/src/combine_status.cpp\<close> and
  \<^verbatim>\<open>communicator/src/frame_combiner.cpp\<close>. The combiner keeps, per source, the frames under
  reassembly by frame id. The lemmas show that the fragments of a frame may arrive in any order and
  interleaved with those of other sources.
\<close>

section \<open>CombineStatus\<close>

record CombineStatus =
  cs_progressId :: nat
  cs_hasProgressFlag :: bool
  cs_fragmentLen :: nat
  cs_lastFragmentLen :: nat
  cs_fragmentCount :: nat
  cs_combinedFragmentNo :: "nat set"

definition CombineStatus_init :: CombineStatus where
  "CombineStatus_init = \<lparr>cs_progressId = 0, cs_hasProgressFlag = True, cs_fragmentLen = 0,
     cs_lastFragmentLen = 0, cs_fragmentCount = 0, cs_combinedFragmentNo = {}\<rparr>"

definition UpdateProgressId :: "CombineStatus \<Rightarrow> nat \<Rightarrow> CombineStatus" where
  "UpdateProgressId s inProgressId = s\<lparr>cs_progressId := inProgressId, cs_hasProgressFlag := True\<rparr>"

definition CheckProgress :: "CombineStatus \<Rightarrow> CombineStatus \<times> bool" where
  "CheckProgress s = (s\<lparr>cs_hasProgressFlag := False\<rparr>, cs_hasProgressFlag s)"

definition GetThisFragmentLength :: "CombineStatus \<Rightarrow> nat \<Rightarrow> nat" where
  "GetThisFragmentLength s inFragNo =
     (if int inFragNo \<noteq> int (cs_fragmentCount s) - 1 then cs_fragmentLen s else cs_lastFragmentLen s)"

definition GetThisFragmentOffset :: "CombineStatus \<Rightarrow> nat \<Rightarrow> nat" where
  "GetThisFragmentOffset s inFragNo = wrap32 (cs_fragmentLen s * inFragNo)"

definition IsFragNoAlreadyExist :: "CombineStatus \<Rightarrow> nat \<Rightarrow> bool" where
  "IsFragNoAlreadyExist s inFragNo \<longleftrightarrow> inFragNo \<in> cs_combinedFragmentNo s"

definition CheckInFragmentNo :: "CombineStatus \<Rightarrow> nat \<Rightarrow> CombineStatus" where
  "CheckInFragmentNo s inFragNo =
     (if inFragNo \<ge> cs_fragmentCount s then s
      else s\<lparr>cs_combinedFragmentNo := insert inFragNo (cs_combinedFragmentNo s)\<rparr>)"

definition IsCombineDone :: "CombineStatus \<Rightarrow> bool" where
  "IsCombineDone s \<longleftrightarrow> card (cs_combinedFragmentNo s) \<ge> cs_fragmentCount s"

section \<open>FrameCombiner\<close>

record CombineWork =
  cw_buffer :: "SerialBuffer option"
  cw_status :: CombineStatus
  cw_frameInfo :: ParseResult

text \<open>
  \<^verbatim>\<open>combineWorkPool_\<close> maps a source to its works; a source without an entry and a source with an
  empty inner map are not distinguished.
\<close>

record FrameCombiner =
  isTimerWork :: bool
  incProgressId :: nat
  totalSizeByByte :: nat
  combineWorkPool :: "u64 \<Rightarrow> (u32, CombineWork) smap"

definition MAX_WORK_PER_SRC_TARGET :: nat where "MAX_WORK_PER_SRC_TARGET = 1"

definition FrameCombiner_init :: FrameCombiner where
  "FrameCombiner_init = \<lparr>isTimerWork = False, incProgressId = 0, totalSizeByByte = 0,
     combineWorkPool = (\<lambda>_. [])\<rparr>"

text \<open>\<open>timerErr\<close> is what \<^verbatim>\<open>RuntimeContext::SetTimer\<close> returns.\<close>

definition Combiner_Initialize :: "FrameCombiner \<Rightarrow> errno \<Rightarrow> FrameCombiner" where
  "Combiner_Initialize st timerErr = (if timerErr \<noteq> E_OK then st else st\<lparr>isTimerWork := True\<rparr>)"

definition Combiner_Finalize :: "FrameCombiner \<Rightarrow> FrameCombiner" where
  "Combiner_Finalize st = st\<lparr>combineWorkPool :=
     (\<lambda>s. map (\<lambda>(f, w). (f, w\<lparr>cw_buffer := None\<rparr>)) (combineWorkPool st s))\<rparr>"

definition CheckPacketWithOriWork :: "ParseResult \<Rightarrow> CombineWork \<Rightarrow> bool" where
  "CheckPacketWithOriWork inPacketInfo inWork \<longleftrightarrow>
     pr_frameLen inPacketInfo = pr_frameLen (cw_frameInfo inWork) \<and>
     pr_fragCount inPacketInfo = pr_fragCount (cw_frameInfo inWork) \<and>
     \<not> pr_fragNo inPacketInfo \<ge> pr_fragCount inPacketInfo \<and>
     \<not> IsFragNoAlreadyExist (cw_status inWork) (unat (pr_fragNo inPacketInfo))"

definition CreateNewFrameBuffer :: "allocator \<Rightarrow> ParseResult \<Rightarrow> SerialBuffer option" where
  "CreateNewFrameBuffer al inInfo =
     (if object_fails al then None
      else
        let frameHeaderLength = (if pr_frameType inInfo \<noteq> APPLICATION_MESSAGE
              then GetCommLayerFrameHeaderLength else GetAppLayerFrameHeaderLength);
            (b, e) = AllocBufferByTotalLength al SerialBuffer_init (unat (pr_frameLen inInfo))
                       frameHeaderLength
        in if e \<noteq> E_OK then None else Some b)"

definition set_work :: "FrameCombiner \<Rightarrow> u64 \<Rightarrow> u32 \<Rightarrow> CombineWork \<Rightarrow> FrameCombiner" where
  "set_work st s f w = st\<lparr>combineWorkPool :=
     (combineWorkPool st)(s := smap_insert f w (combineWorkPool st s))\<rparr>"

definition erase_work :: "FrameCombiner \<Rightarrow> u64 \<Rightarrow> u32 \<Rightarrow> FrameCombiner" where
  "erase_work st s f = st\<lparr>combineWorkPool :=
     (combineWorkPool st)(s := smap_erase f (combineWorkPool st s))\<rparr>"

text \<open>\<open>work\<close> is the entry that \<^verbatim>\<open>combineWorkPool_[sourceId][frameId]\<close> refers to.\<close>

definition ContinueExistCombineWork ::
    "FrameCombiner \<Rightarrow> CombineWork \<Rightarrow> byte list \<Rightarrow> nat \<Rightarrow> ParseResult \<Rightarrow> FrameCombiner \<times> errno" where
  "ContinueExistCombineWork st work bytes len inPacketInfo =
     (if \<not> CheckPacketWithOriWork inPacketInfo work then (st, E_COMBINE_FAIL)
      else
        let no = unat (pr_fragNo inPacketInfo);
            fragOffset = GetThisFragmentOffset (cw_status work) no;
            fragLength = GetThisFragmentLength (cw_status work) no
        in case cw_buffer work of
             None \<Rightarrow> (st, ABORTED)
           | Some buf \<Rightarrow>
               let (b, e) = CombinePacketIntoFrame buf bytes len fragOffset fragLength
               in if e \<noteq> E_OK then (st, E_COMBINE_FAIL)
                  else
                    let status = CheckInFragmentNo (UpdateProgressId (cw_status work) (incProgressId st)) no;
                        st = st\<lparr>incProgressId := wrap64 (incProgressId st + 1)\<rparr>
                    in (set_work st (pr_sourceId inPacketInfo) (pr_frameId inPacketInfo)
                          (work\<lparr>cw_buffer := Some b, cw_status := status\<rparr>), E_OK))"

definition CreateNewCombineWork ::
    "allocator \<Rightarrow> FrameCombiner \<Rightarrow> byte list \<Rightarrow> nat \<Rightarrow> ParseResult \<Rightarrow> FrameCombiner \<times> errno" where
  "CreateNewCombineWork al st bytes len inPacketInfo =
     (case AnalyzeSplitStructure inPacketInfo of
        Inl e \<Rightarrow> (st, e)
      | Inr (fragLen, lastFragLen) \<Rightarrow>
          let frameInfo = ParseResult_init\<lparr>pr_packetLen := pr_frameLen inPacketInfo,
                pr_sourceId := pr_sourceId inPacketInfo, pr_frameId := pr_frameId inPacketInfo,
                pr_frameType := pr_frameType inPacketInfo, pr_frameLen := pr_frameLen inPacketInfo,
                pr_fragCount := pr_fragCount inPacketInfo\<rparr>;
              status = CombineStatus_init\<lparr>cs_fragmentLen := fragLen, cs_lastFragmentLen := lastFragLen,
                cs_fragmentCount := unat (pr_fragCount inPacketInfo)\<rparr>;
              no = unat (pr_fragNo inPacketInfo)
          in case CreateNewFrameBuffer al inPacketInfo of
               None \<Rightarrow> (st, E_OUT_OF_MEMORY)
             | Some buf \<Rightarrow>
                 let (b, e) = CombinePacketIntoFrame buf bytes len (GetThisFragmentOffset status no)
                                (GetThisFragmentLength status no)
                 in if e \<noteq> E_OK then (st, e)
                    else
                      let status = CheckInFragmentNo (UpdateProgressId status (incProgressId st)) no;
                          st = st\<lparr>totalSizeByByte := wrap64 (totalSizeByByte st + GetSize b),
                                  incProgressId := wrap64 (incProgressId st + 1)\<rparr>
                      in (set_work st (pr_sourceId inPacketInfo) (pr_frameId inPacketInfo)
                            \<lparr>cw_buffer = Some b, cw_status = status, cw_frameInfo = frameInfo\<rparr>, E_OK))"

definition AbortCombineWorkBySource :: "FrameCombiner \<Rightarrow> u64 \<Rightarrow> FrameCombiner" where
  "AbortCombineWorkBySource st inSourceId =
     (if combineWorkPool st inSourceId = [] then st
      else
        let (toBeAbortFrameId, _) =
              fold (\<lambda>(f, w) (fid, pid). if cs_progressId (cw_status w) < pid
                                        then (f, cs_progressId (cw_status w)) else (fid, pid))
                (combineWorkPool st inSourceId) (0, 18446744073709551615)
        in erase_work st inSourceId toBeAbortFrameId)"

definition AssembleFrameFragment ::
    "allocator \<Rightarrow> FrameCombiner \<Rightarrow> byte list \<Rightarrow> nat \<Rightarrow> ParseResult \<Rightarrow>
     FrameCombiner \<times> (SerialBuffer option \<times> ParseResult) option \<times> errno" where
  "AssembleFrameFragment al st bytes len inPacketInfo =
     (let s = pr_sourceId inPacketInfo; f = pr_frameId inPacketInfo in
      case map_of (combineWorkPool st s) f of
        Some work \<Rightarrow>
          (let (st, e) = ContinueExistCombineWork st work bytes len inPacketInfo
           in if e \<noteq> E_OK then (st, None, e)
              else case map_of (combineWorkPool st s) f of
                     None \<Rightarrow> (st, None, E_OK)
                   | Some work \<Rightarrow>
                       if IsCombineDone (cw_status work)
                       then (erase_work st s f, Some (cw_buffer work, cw_frameInfo work), E_OK)
                       else (st, None, E_OK))
      | None \<Rightarrow>
          (let (st, e) = CreateNewCombineWork al st bytes len inPacketInfo
           in if e \<noteq> E_OK then (st, None, e)
              else if length (combineWorkPool st s) > MAX_WORK_PER_SRC_TARGET
              then (AbortCombineWorkBySource st s, None, E_OK)
              else (st, None, E_OK)))"

definition Combiner_PeriodicalSurveillance :: "FrameCombiner \<Rightarrow> FrameCombiner" where
  "Combiner_PeriodicalSurveillance st = st\<lparr>combineWorkPool := (\<lambda>s.
     map (\<lambda>(f, w). (f, w\<lparr>cw_status := fst (CheckProgress (cw_status w))\<rparr>))
       (filter (\<lambda>(f, w). snd (CheckProgress (cw_status w))) (combineWorkPool st s)))\<rparr>"

section \<open>Fragments cover the frame\<close>

lemma frag_disjoint:
  assumes "j < n" and "k < n" and "j < k"
  shows "j * (S div n) + frag_len S n j \<le> k * (S div n)"
proof -
  have "j \<noteq> n - 1" using assms by simp
  then have "j * (S div n) + frag_len S n j = (j + 1) * (S div n)" using frag_end(2) [OF assms(1)] by blast
  also have "\<dots> \<le> k * (S div n)" using assms(3) by (intro mult_right_mono) auto
  finally show ?thesis .
qed

lemma frag_covers:
  assumes "0 < n" and "n \<le> S" and "i < S"
  obtains k where "k < n" "k * (S div n) \<le> i" "i < k * (S div n) + frag_len S n k"
proof (cases "i div (S div n) < n - 1")
  case True
  let ?q = "S div n" and ?k = "i div (S div n)"
  have q: "0 < ?q" using assms by (simp add: div_greater_zero_iff)
  have "?k * ?q \<le> i" by simp
  moreover have "i < (?k + 1) * ?q" using q by (simp add: dividend_less_times_div mult.commute add.commute)
  moreover have "?k \<noteq> n - 1" "?k < n" using True by auto
  ultimately show ?thesis using that [of ?k] frag_end(2) [of ?k n S] by simp
next
  case False
  have "(n - 1) * (S div n) \<le> (i div (S div n)) * (S div n)" using False by (intro mult_right_mono) auto
  also have "\<dots> \<le> i" by simp
  finally have "(n - 1) * (S div n) \<le> i" .
  then show ?thesis using that [of "n - 1"] assms frag_end(3) [of "n - 1" n S] by simp
qed

lemma fragments_determine:
  assumes "0 < n" and "n \<le> S" and "length x = S" and "length data = S"
    and "\<And>k. k < n \<Longrightarrow> peek (k * (S div n)) (frag_len S n k) x = frag_at S n data k"
  shows "x = data"
proof (rule nth_equalityI)
  fix i assume "i < length x"
  then have i: "i < S" using assms(3) by simp
  then obtain k where k: "k < n" "k * (S div n) \<le> i" "i < k * (S div n) + frag_len S n k"
    using frag_covers [OF assms(1,2)] by blast
  have e: "k * (S div n) + frag_len S n k \<le> S" by (rule frag_end(1) [OF k(1)])
  have "peek (k * (S div n)) (frag_len S n k) x ! (i - k * (S div n))
      = peek (k * (S div n)) (frag_len S n k) data ! (i - k * (S div n))"
    using assms(5) [OF k(1)] by (simp add: frag_at_def)
  then show "x ! i = data ! i" using k e assms(3,4) by (simp add: nth_peek)
qed (use assms in simp)

section \<open>A frame under reassembly\<close>

definition frame_header_len :: "CommPhyHeader \<Rightarrow> nat" where
  "frame_header_len h = (if GetFrameType (packetType h) \<noteq> APPLICATION_MESSAGE then 32 else 72)"

definition combined_info :: "CommPhyHeader \<Rightarrow> nat \<Rightarrow> nat \<Rightarrow> ParseResult" where
  "combined_info h S n = ParseResult_init\<lparr>pr_packetLen := of_nat (S + 32), pr_sourceId := sourceId h,
     pr_frameId := frameId h, pr_frameType := GetFrameType (packetType h),
     pr_frameLen := of_nat (S + 32), pr_fragCount := of_nat n\<rparr>"

text \<open>\<open>split_ok\<close>: the shape of a split that the sender produces and the receiver accepts.\<close>

definition split_ok :: "CommPhyHeader \<Rightarrow> nat \<Rightarrow> nat \<Rightarrow> byte list \<Rightarrow> bool" where
  "split_ok h S n data \<longleftrightarrow> 2 \<le> n \<and> n < 65536 \<and> n \<le> S \<and> S + 40 \<le> MAX_FRAME_LEN \<and> length data = S \<and>
     frame_header_len h \<le> S + 32"

definition buf_ok :: "CommPhyHeader \<Rightarrow> nat \<Rightarrow> nat \<Rightarrow> byte list \<Rightarrow> nat set \<Rightarrow> SerialBuffer \<Rightarrow> bool" where
  "buf_ok h S n data K b \<longleftrightarrow> sb_wf b \<and> sb_mem b \<noteq> None \<and> padLen b = 0 \<and> totalLen b = S + 32 \<and>
     headerLen b = frame_header_len h \<and>
     (\<forall>k \<in> K. peek (32 + k * (S div n)) (frag_len S n k) (buffer_bytes b) = frag_at S n data k)"

definition status_ok :: "nat \<Rightarrow> nat \<Rightarrow> nat set \<Rightarrow> CombineStatus \<Rightarrow> bool" where
  "status_ok S n K s \<longleftrightarrow> cs_fragmentLen s = S div n \<and> cs_lastFragmentLen s = S div n + S mod n \<and>
     cs_fragmentCount s = n \<and> cs_combinedFragmentNo s = K"

definition work_ok :: "CommPhyHeader \<Rightarrow> nat \<Rightarrow> nat \<Rightarrow> byte list \<Rightarrow> nat set \<Rightarrow> CombineWork \<Rightarrow> bool" where
  "work_ok h S n data K w \<longleftrightarrow> (\<exists>b. cw_buffer w = Some b \<and> buf_ok h S n data K b) \<and>
     status_ok S n K (cw_status w) \<and> cw_frameInfo w = combined_info h S n"

lemma status_lookups:
  assumes "status_ok S n K s" and "k < n" and "S + 40 \<le> MAX_FRAME_LEN"
  shows "GetThisFragmentOffset s k = k * (S div n)" "GetThisFragmentLength s k = frag_len S n k"
proof -
  have "k * (S div n) \<le> S" using frag_end(1) [OF assms(2), of S] by simp
  then have "k * (S div n) < 4294967296" using assms(3) by (simp add: MAX_FRAME_LEN_def)
  then show "GetThisFragmentOffset s k = k * (S div n)"
    using assms(1) by (simp add: GetThisFragmentOffset_def status_ok_def mult.commute)
  have "int k = int n - 1 \<longleftrightarrow> k = n - 1" using assms(2) by auto
  then show "GetThisFragmentLength s k = frag_len S n k"
    using assms(1) by (simp add: GetThisFragmentLength_def status_ok_def frag_len_def)
qed

lemma buf_ok_combine:
  assumes ok: "buf_ok h S n data K b" and sp: "split_ok h S n data" and k: "k < n" "k \<notin> K"
    and K: "\<And>j. j \<in> K \<Longrightarrow> j < n"
  obtains b' where "CombinePacketIntoFrame b (frag_packet be hh S n data k) (length (frag_packet be hh S n data k))
      (k * (S div n)) (frag_len S n k) = (b', E_OK)" "buf_ok h S n data (insert k K) b'"
proof -
  let ?P = "frag_packet be hh S n data k" and ?F = "frag_len S n k" and ?o = "32 + k * (S div n)"
  have l: "length data = S" using sp by (simp add: split_ok_def)
  have wf: "sb_wf b" "sb_mem b \<noteq> None" "padLen b = 0" "totalLen b = S + 32" using ok by (simp_all add: buf_ok_def)
  have e: "k * (S div n) + ?F \<le> S" by (rule frag_end(1) [OF k(1)])
  have pl: "40 + ?F \<le> length ?P" using frag_packet_facts(1) [OF k(1) l] BYTE_8_ALIGN_ge [of ?F] by simp
  have src: "take ?F (drop 40 ?P) = frag_at S n data k"
    using frag_packet_facts(2) [OF k(1) l, of be hh] length_frag_at [OF k(1) l] by simp
  define b' where "b' = write_mem b (sb_off b + ?o) (frag_at S n data k)"
  have c: "CombinePacketIntoFrame b ?P (length ?P) (k * (S div n)) ?F = (b', E_OK)"
    using CombinePacketIntoFrame_ok [OF wf(1-3) pl, of "k * (S div n)"] e wf(4) src by (simp add: b'_def)
  have fits: "?o + length (frag_at S n data k) \<le> totalLen b"
    using e wf(4) length_frag_at [OF k(1) l] by simp
  have bb: "buffer_bytes b' = poke ?o (frag_at S n data k) (buffer_bytes b)"
    unfolding b'_def by (rule write_mem_buffer_bytes [OF wf(1,2) fits])
  have lb: "length (buffer_bytes b) = S + 32" using sb_wf_lengths(4) [OF wf(1)] wf(4) by simp
  have "peek (32 + j * (S div n)) (frag_len S n j) (buffer_bytes b') = frag_at S n data j"
    if "j \<in> insert k K" for j
  proof (cases "j = k")
    case True
    then show ?thesis using bb fits lb wf(4) length_frag_at [OF k(1) l] by simp
  next
    case False
    then have j: "j \<in> K" "j < n" using that K by auto
    then have "peek (32 + j * (S div n)) (frag_len S n j) (buffer_bytes b) = frag_at S n data j"
      using ok by (simp add: buf_ok_def)
    moreover have "peek (32 + j * (S div n)) (frag_len S n j) (buffer_bytes b')
        = peek (32 + j * (S div n)) (frag_len S n j) (buffer_bytes b)"
    proof (cases "j < k")
      case True
      then show ?thesis
        using bb frag_disjoint [OF j(2) k(1) True, of S] fits lb wf(4) by (simp add: peek_poke_before)
    next
      case nless: False
      then have "k < j" using False by simp
      then show ?thesis
        using bb frag_disjoint [OF k(1) j(2), of S] frag_end(1) [OF j(2), of S] lb length_frag_at [OF k(1) l]
        by (simp add: peek_poke_after)
    qed
    ultimately show ?thesis by simp
  qed
  then have "buf_ok h S n data (insert k K) b'"
    using ok write_mem_wf [OF wf(1) fits] by (simp add: buf_ok_def b'_def del: not_None_eq)
  with c show ?thesis using that by blast
qed

lemma peek_drop: "peek off n (drop k xs) = peek (k + off) n xs"
  by (simp add: peek_def add.commute)

lemma buf_ok_complete:
  assumes "buf_ok h S n data {0..<n} b" and "split_ok h S n data"
  shows "drop 32 (buffer_bytes b) = data" "length (buffer_bytes b) = S + 32"
proof -
  have wf: "sb_wf b" "totalLen b = S + 32"
    and p: "\<And>k. k < n \<Longrightarrow> peek (32 + k * (S div n)) (frag_len S n k) (buffer_bytes b) = frag_at S n data k"
    using assms(1) by (simp_all add: buf_ok_def)
  show l: "length (buffer_bytes b) = S + 32" using sb_wf_lengths(4) [OF wf(1)] wf(2) by simp
  show "drop 32 (buffer_bytes b) = data"
    by (rule fragments_determine [of n S])
      (use assms(2) l p in \<open>simp_all add: split_ok_def peek_drop\<close>)
qed

section \<open>Invariant of the combiner\<close>

text \<open>
  Every source has at most \<^verbatim>\<open>MAX_WORK_PER_SRC_TARGET\<close> works, and the progress ids in use are older
  than the next one. The 64-bit progress counter is assumed not to wrap.
\<close>

definition comb_inv :: "FrameCombiner \<Rightarrow> bool" where
  "comb_inv st \<longleftrightarrow> (\<forall>s. smap_inv (combineWorkPool st s) \<and>
     length (combineWorkPool st s) \<le> MAX_WORK_PER_SRC_TARGET \<and>
     (\<forall>(f, w) \<in> set (combineWorkPool st s). cs_progressId (cw_status w) < incProgressId st))"

definition progress_room :: "FrameCombiner \<Rightarrow> bool" where
  "progress_room st \<longleftrightarrow> incProgressId st + 1 < 18446744073709551615"

lemma comb_inv_init: "comb_inv FrameCombiner_init"
  by (simp add: comb_inv_def FrameCombiner_init_def)

lemma comb_invD:
  assumes "comb_inv st"
  shows "smap_inv (combineWorkPool st s)" "length (combineWorkPool st s) \<le> 1"
    "(f, w) \<in> set (combineWorkPool st s) \<Longrightarrow> cs_progressId (cw_status w) < incProgressId st"
  using assms by (simp_all add: comb_inv_def MAX_WORK_PER_SRC_TARGET_def) fastforce

lemma pool_cases:
  assumes "comb_inv st"
  obtains "combineWorkPool st s = []"
  | f w where "combineWorkPool st s = [(f, w)]" "cs_progressId (cw_status w) < incProgressId st"
proof (cases "combineWorkPool st s")
  case (Cons e es)
  have l: "length (combineWorkPool st s) \<le> 1"
    and p: "\<forall>(f, w) \<in> set (combineWorkPool st s). cs_progressId (cw_status w) < incProgressId st"
    using assms by (simp_all add: comb_inv_def MAX_WORK_PER_SRC_TARGET_def)
  obtain f w where "e = (f, w)" by (cases e)
  then show ?thesis using that(2) l p Cons by auto
qed

lemma comb_inv_update:
  assumes "comb_inv st" and "combineWorkPool st' = (combineWorkPool st)(s := m)"
    and "smap_inv m" and "length m \<le> 1" and "incProgressId st \<le> incProgressId st'"
    and "\<And>f w. (f, w) \<in> set m \<Longrightarrow> cs_progressId (cw_status w) < incProgressId st'"
  shows "comb_inv st'"
  unfolding comb_inv_def
proof (intro allI)
  fix t
  have t: "smap_inv (combineWorkPool st t)" "length (combineWorkPool st t) \<le> 1"
    "\<And>f w. (f, w) \<in> set (combineWorkPool st t) \<Longrightarrow> cs_progressId (cw_status w) < incProgressId st'"
    using comb_invD [OF assms(1)] assms(5) by (blast intro: less_le_trans)+
  show "smap_inv (combineWorkPool st' t) \<and> length (combineWorkPool st' t) \<le> MAX_WORK_PER_SRC_TARGET \<and>
     (\<forall>(f, w) \<in> set (combineWorkPool st' t). cs_progressId (cw_status w) < incProgressId st')"
    using t assms(2-4,6) by (cases "t = s") (auto simp: MAX_WORK_PER_SRC_TARGET_def)
qed

text \<open>A new work displaces the one its source had before.\<close>

lemma displace_work:
  assumes inv: "comb_inv st" and fresh: "map_of (combineWorkPool st s) f = None"
    and p: "cs_progressId (cw_status w) = incProgressId st" and room: "progress_room st"
    and st1: "combineWorkPool st1 = (combineWorkPool st)(s := smap_insert f w (combineWorkPool st s))"
    and inc: "incProgressId st1 = incProgressId st + 1"
  defines "st2 \<equiv> (if length (combineWorkPool st1 s) > MAX_WORK_PER_SRC_TARGET
                   then AbortCombineWorkBySource st1 s else st1)"
  shows "combineWorkPool st2 = (combineWorkPool st)(s := [(f, w)])" "incProgressId st2 = incProgressId st + 1"
    "comb_inv st2"
proof -
  have "combineWorkPool st2 = (combineWorkPool st)(s := [(f, w)]) \<and> incProgressId st2 = incProgressId st + 1"
  proof (rule pool_cases [OF inv, of s])
    assume "combineWorkPool st s = []"
    then show ?thesis using st1 inc by (simp add: st2_def MAX_WORK_PER_SRC_TARGET_def)
  next
    fix g v assume g: "combineWorkPool st s = [(g, v)]" "cs_progressId (cw_status v) < incProgressId st"
    have ne: "f \<noteq> g" using fresh g(1) by auto
    then show ?thesis
      using st1 inc g p room
      by (cases "f < g")
        (auto simp: st2_def MAX_WORK_PER_SRC_TARGET_def AbortCombineWorkBySource_def erase_work_def
          smap_erase_def progress_room_def fun_eq_iff)
  qed
  then show "combineWorkPool st2 = (combineWorkPool st)(s := [(f, w)])"
    "incProgressId st2 = incProgressId st + 1" by simp_all
  then show "comb_inv st2"
    using p by (intro comb_inv_update [OF inv, where s = s and m = "[(f, w)]"]) (auto simp: smap_inv_def)
qed

lemma wrap64_room: "progress_room st \<Longrightarrow> wrap64 (Suc (incProgressId st)) = incProgressId st + 1"
  by (simp add: progress_room_def)

text \<open>What continuing and creating a work do to the state.\<close>

lemma CheckIn_progress [simp]: "cs_progressId (CheckInFragmentNo s k) = cs_progressId s"
  by (simp add: CheckInFragmentNo_def)

lemma Continue_cases:
  obtains (fail) e where "ContinueExistCombineWork st work bytes len info = (st, e)" "e \<noteq> E_OK"
  | (ok) w where "ContinueExistCombineWork st work bytes len info =
      (set_work (st\<lparr>incProgressId := wrap64 (incProgressId st + 1)\<rparr>) (pr_sourceId info) (pr_frameId info) w, E_OK)"
    "cs_progressId (cw_status w) = incProgressId st"
proof (cases "CheckPacketWithOriWork info work")
  case False
  then show ?thesis using fail [of E_COMBINE_FAIL] by (simp add: ContinueExistCombineWork_def)
next
  case True
  show ?thesis
  proof (cases "cw_buffer work")
    case None
    then show ?thesis using True fail [of ABORTED] by (simp add: ContinueExistCombineWork_def Let_def)
  next
    case (Some buf)
    let ?no = "unat (pr_fragNo info)"
    obtain b e where c: "CombinePacketIntoFrame buf bytes len (GetThisFragmentOffset (cw_status work) ?no)
        (GetThisFragmentLength (cw_status work) ?no) = (b, e)" by (metis surj_pair)
    show ?thesis
    proof (cases "e = E_OK")
      case False
      then show ?thesis using True Some c fail [of E_COMBINE_FAIL]
        by (simp add: ContinueExistCombineWork_def Let_def)
    next
      case eok: True
      show ?thesis
        by (rule ok [of "work\<lparr>cw_buffer := Some b,
              cw_status := CheckInFragmentNo (UpdateProgressId (cw_status work) (incProgressId st)) ?no\<rparr>"])
          (use True Some c eok in \<open>simp_all add: ContinueExistCombineWork_def UpdateProgressId_def Let_def\<close>)
    qed
  qed
qed

lemma Create_cases:
  obtains (fail) e where "CreateNewCombineWork al st bytes len info = (st, e)" "e \<noteq> E_OK"
  | (ok) w z where "CreateNewCombineWork al st bytes len info =
      (set_work (st\<lparr>totalSizeByByte := z, incProgressId := wrap64 (incProgressId st + 1)\<rparr>)
        (pr_sourceId info) (pr_frameId info) w, E_OK)"
    "cs_progressId (cw_status w) = incProgressId st"
proof (cases "AnalyzeSplitStructure info")
  case (Inl e)
  moreover have "e \<noteq> E_OK" using Inl by (auto simp: AnalyzeSplitStructure_def Let_def split: if_splits)
  ultimately show ?thesis using fail [of e] by (simp add: CreateNewCombineWork_def)
next
  case (Inr q)
  obtain fl ll where q: "q = (fl, ll)" by (cases q)
  define s0 where "s0 = CombineStatus_init\<lparr>cs_fragmentLen := fl, cs_lastFragmentLen := ll,
                cs_fragmentCount := unat (pr_fragCount info)\<rparr>"
  let ?no = "unat (pr_fragNo info)"
  show ?thesis
  proof (cases "CreateNewFrameBuffer al info")
    case None
    then show ?thesis using Inr q fail [of E_OUT_OF_MEMORY] by (simp add: CreateNewCombineWork_def Let_def)
  next
    case (Some buf)
    obtain b e where c: "CombinePacketIntoFrame buf bytes len (GetThisFragmentOffset s0 ?no)
        (GetThisFragmentLength s0 ?no) = (b, e)" by (metis surj_pair)
    show ?thesis
    proof (cases "e = E_OK")
      case False
      then show ?thesis using Inr q Some c fail [of e]
        by (simp add: CreateNewCombineWork_def Let_def s0_def)
    next
      case True
      show ?thesis
        by (rule ok [where w = "\<lparr>cw_buffer = Some b,
              cw_status = CheckInFragmentNo (UpdateProgressId s0 (incProgressId st)) ?no,
              cw_frameInfo = ParseResult_init\<lparr>pr_packetLen := pr_frameLen info,
                pr_sourceId := pr_sourceId info, pr_frameId := pr_frameId info,
                pr_frameType := pr_frameType info, pr_frameLen := pr_frameLen info,
                pr_fragCount := pr_fragCount info\<rparr>\<rparr>" and z = "wrap64 (totalSizeByByte st + GetSize b)"])
          (use Inr q Some c True in \<open>simp_all add: CreateNewCombineWork_def UpdateProgressId_def Let_def s0_def\<close>)
    qed
  qed
qed

lemma set_work_simps [simp]:
  "combineWorkPool (set_work st s f w) = (combineWorkPool st)(s := smap_insert f w (combineWorkPool st s))"
  "incProgressId (set_work st s f w) = incProgressId st"
  "combineWorkPool (erase_work st s f) = (combineWorkPool st)(s := smap_erase f (combineWorkPool st s))"
  "incProgressId (erase_work st s f) = incProgressId st"
  by (simp_all add: set_work_def erase_work_def)

lemma pool_lookup:
  assumes "comb_inv st" and "map_of (combineWorkPool st s) f = Some w"
  shows "combineWorkPool st s = [(f, w)]"
  using comb_invD(2) [OF assms(1), of s] assms(2)
  by (cases "combineWorkPool st s") (auto split: if_splits)

text \<open>
  Whatever packet arrives, the invariant is kept, and the frames of other sources are not changed.
\<close>

lemma assemble_step:
  assumes "comb_inv st" and "progress_room st"
  shows "comb_inv (fst (AssembleFrameFragment al st bytes len info)) \<and>
    incProgressId (fst (AssembleFrameFragment al st bytes len info)) \<le> incProgressId st + 1 \<and>
    (\<forall>s. s \<noteq> pr_sourceId info \<longrightarrow>
      combineWorkPool (fst (AssembleFrameFragment al st bytes len info)) s = combineWorkPool st s)"
proof (cases "map_of (combineWorkPool st (pr_sourceId info)) (pr_frameId info)")
  case (Some work)
  let ?s = "pr_sourceId info" and ?f = "pr_frameId info"
  note one = pool_lookup [OF assms(1) Some]
  show ?thesis
  proof (rule Continue_cases [of st work bytes len info])
    fix e assume "ContinueExistCombineWork st work bytes len info = (st, e)" "e \<noteq> E_OK"
    then show ?thesis using Some assms(1) by (simp add: AssembleFrameFragment_def)
  next
    fix w
    define st1 where "st1 = set_work (st\<lparr>incProgressId := wrap64 (incProgressId st + 1)\<rparr>) ?s ?f w"
    assume "ContinueExistCombineWork st work bytes len info =
      (set_work (st\<lparr>incProgressId := wrap64 (incProgressId st + 1)\<rparr>) ?s ?f w, E_OK)"
      and p: "cs_progressId (cw_status w) = incProgressId st"
    then have c: "ContinueExistCombineWork st work bytes len info = (st1, E_OK)" by (simp add: st1_def)
    have st1: "combineWorkPool st1 = (combineWorkPool st)(?s := [(?f, w)])" "incProgressId st1 = incProgressId st + 1"
      using one wrap64_room [OF assms(2)] by (simp_all add: st1_def)
    have i1: "comb_inv st1"
      using p st1 by (intro comb_inv_update [OF assms(1) st1(1)]) (auto simp: smap_inv_def)
    have i2: "comb_inv (erase_work st1 ?s ?f)"
      using st1 by (intro comb_inv_update [OF assms(1), where s = ?s and m = "[]"]) (auto simp: smap_erase_def)
    show ?thesis
      using Some c st1 i1 i2 by (simp add: AssembleFrameFragment_def)
  qed
next
  case None
  let ?s = "pr_sourceId info" and ?f = "pr_frameId info"
  show ?thesis
  proof (rule Create_cases [of al st bytes len info])
    fix e assume "CreateNewCombineWork al st bytes len info = (st, e)" "e \<noteq> E_OK"
    then show ?thesis using None assms(1) by (simp add: AssembleFrameFragment_def)
  next
    fix w z
    define st1 where "st1 = set_work (st\<lparr>totalSizeByByte := z, incProgressId := wrap64 (incProgressId st + 1)\<rparr>) ?s ?f w"
    assume "CreateNewCombineWork al st bytes len info =
      (set_work (st\<lparr>totalSizeByByte := z, incProgressId := wrap64 (incProgressId st + 1)\<rparr>) ?s ?f w, E_OK)"
      and p: "cs_progressId (cw_status w) = incProgressId st"
    then have c: "CreateNewCombineWork al st bytes len info = (st1, E_OK)" by (simp add: st1_def)
    have "combineWorkPool st1 = (combineWorkPool st)(?s := smap_insert ?f w (combineWorkPool st ?s))"
      "incProgressId st1 = incProgressId st + 1"
      using wrap64_room [OF assms(2)] by (simp_all add: st1_def)
    from displace_work [OF assms(1) None p assms(2) this] show ?thesis
      using None c by (simp add: AssembleFrameFragment_def split: if_splits)
  qed
qed

section \<open>Reassembly\<close>

lemma frag_result_fields [simp]:
  "pr_sourceId (frag_result h S n k) = sourceId h" "pr_frameId (frag_result h S n k) = frameId h"
  "pr_frameLen (frag_result h S n k) = of_nat (S + 32)" "pr_fragCount (frag_result h S n k) = of_nat n"
  "pr_fragNo (frag_result h S n k) = of_nat k" "pr_frameType (frag_result h S n k) = GetFrameType (packetType h)"
  by (simp_all add: frag_result_def)

lemma work_ok_check:
  assumes "work_ok h S n data K w" and "split_ok h S n data" and "k < n" and "k \<notin> K"
  shows "CheckPacketWithOriWork (frag_result h S n k) w"
proof -
  have "S + 40 \<le> MAX_FRAME_LEN" "n < 65536" using assms(2) by (simp_all add: split_ok_def)
  from unat_frag_words(4,5) [OF assms(3) this] show ?thesis
    using assms by (simp add: CheckPacketWithOriWork_def work_ok_def combined_info_def status_ok_def
        IsFragNoAlreadyExist_def word_le_nat_alt)
qed

lemma status_ok_checkin:
  "status_ok S n K s \<Longrightarrow> k < n \<Longrightarrow> status_ok S n (insert k K) (CheckInFragmentNo (UpdateProgressId s p) k)"
  by (simp add: status_ok_def CheckInFragmentNo_def UpdateProgressId_def)

lemma status_ok_done:
  assumes "status_ok S n K s" and "K \<subseteq> {0..<n}"
  shows "IsCombineDone s \<longleftrightarrow> K = {0..<n}"
proof -
  have le: "card K \<le> n" using card_mono [OF _ assms(2)] by simp
  have "IsCombineDone s \<longleftrightarrow> n \<le> card K" using assms(1) by (simp add: status_ok_def IsCombineDone_def)
  also have "\<dots> \<longleftrightarrow> K = {0..<n}"
  proof
    assume "n \<le> card K"
    then have "card K = card {0..<n}" using le by simp
    from card_subset_eq [OF _ assms(2) this] show "K = {0..<n}" by simp
  qed simp
  finally show ?thesis .
qed

lemma Assemble_next:
  assumes inv: "comb_inv st" and room: "progress_room st" and sp: "split_ok h S n data"
    and pool: "combineWorkPool st (sourceId h) = [(frameId h, w)]" and w: "work_ok h S n data K w"
    and k: "k < n" "k \<notin> K" and K: "K \<subseteq> {0..<n}" and P_def: "P = frag_packet be h S n data k"
  obtains st' b where "buf_ok h S n data (insert k K) b" "comb_inv st'" "incProgressId st' = incProgressId st + 1"
    "insert k K = {0..<n} \<Longrightarrow> AssembleFrameFragment al st P (length P) (frag_result h S n k)
       = (st', Some (Some b, combined_info h S n), E_OK)"
    "insert k K = {0..<n} \<Longrightarrow> combineWorkPool st' = (combineWorkPool st)(sourceId h := [])"
    "insert k K \<noteq> {0..<n} \<Longrightarrow> AssembleFrameFragment al st P (length P) (frag_result h S n k) = (st', None, E_OK)"
    "insert k K \<noteq> {0..<n} \<Longrightarrow> \<exists>w'. combineWorkPool st' = (combineWorkPool st)(sourceId h := [(frameId h, w')]) \<and>
       work_ok h S n data (insert k K) w'"
proof -
  have sm: "S + 40 \<le> MAX_FRAME_LEN" "n < 65536" using sp by (simp_all add: split_ok_def)
  note u = unat_frag_words(5) [OF k(1) sm]
  obtain b0 where b0: "cw_buffer w = Some b0" "buf_ok h S n data K b0" using w by (auto simp: work_ok_def)
  have s: "status_ok S n K (cw_status w)" "cw_frameInfo w = combined_info h S n" using w by (simp_all add: work_ok_def)
  have Kn: "\<And>j. j \<in> K \<Longrightarrow> j < n" using K by auto
  obtain b where c: "CombinePacketIntoFrame b0 P (length P) (k * (S div n)) (frag_len S n k) = (b, E_OK)"
    and b: "buf_ok h S n data (insert k K) b"
    using buf_ok_combine [OF b0(2) sp k Kn, where be = be and hh = h] unfolding P_def by blast
  define w' where "w' = w\<lparr>cw_buffer := Some b,
    cw_status := CheckInFragmentNo (UpdateProgressId (cw_status w) (incProgressId st)) k\<rparr>"
  define st1 where "st1 = set_work (st\<lparr>incProgressId := incProgressId st + 1\<rparr>) (sourceId h) (frameId h) w'"
  have cont: "ContinueExistCombineWork st w P (length P) (frag_result h S n k) = (st1, E_OK)"
    using work_ok_check [OF w sp k] b0(1) c status_lookups [OF s(1) k(1) sm(1)] wrap64_room [OF room] u
    by (simp add: ContinueExistCombineWork_def Let_def st1_def w'_def)
  have p1: "combineWorkPool st1 = (combineWorkPool st)(sourceId h := [(frameId h, w')])"
    "incProgressId st1 = incProgressId st + 1" by (simp_all add: st1_def pool)
  have w1: "work_ok h S n data (insert k K) w'"
    using status_ok_checkin [OF s(1) k(1)] s(2) b by (simp add: work_ok_def w'_def)
  have dn: "IsCombineDone (cw_status w') \<longleftrightarrow> insert k K = {0..<n}"
    using w1 K k by (intro status_ok_done [of S n]) (auto simp: work_ok_def)
  have asm: "AssembleFrameFragment al st P (length P) (frag_result h S n k) =
    (if insert k K = {0..<n} then (erase_work st1 (sourceId h) (frameId h), Some (Some b, combined_info h S n), E_OK)
     else (st1, None, E_OK))"
    using cont pool p1 dn s(2) by (simp add: AssembleFrameFragment_def w'_def)
  have e: "combineWorkPool (erase_work st1 (sourceId h) (frameId h)) = (combineWorkPool st)(sourceId h := [])"
    by (simp add: p1 smap_erase_def)
  have i1: "comb_inv st1"
    using p1 by (intro comb_inv_update [OF inv p1(1)]) (auto simp: smap_inv_def w'_def UpdateProgressId_def)
  have i2: "comb_inv (erase_work st1 (sourceId h) (frameId h))"
    by (rule comb_inv_update [OF inv e]) (simp_all add: p1)
  show ?thesis
  proof (cases "insert k K = {0..<n}")
    case True
    show ?thesis by (rule that [OF b i2]) (use True asm e p1 in simp_all)
  next
    case False
    show ?thesis by (rule that [OF b i1]) (use False asm w1 p1 in auto)
  qed
qed

lemma CreateNewFrameBuffer_ok:
  assumes al: "reliable al" and sp: "split_ok h S n data" and k: "k < n"
  obtains b where "CreateNewFrameBuffer al (frag_result h S n k) = Some b" "buf_ok h S n data {} b"
proof -
  have sm: "S + 40 \<le> MAX_FRAME_LEN" "n < 65536" "frame_header_len h \<le> S + 32"
    using sp by (simp_all add: split_ok_def)
  note u = unat_frag_words(3) [OF k sm(1,2)]
  have fits: "0 < S + 32" "S + 32 \<le> MAX_TOTAL_LEN" using sm by (simp_all add: proto_consts)
  obtain b where b: "AllocBufferByTotalLength al SerialBuffer_init (S + 32) (frame_header_len h) = (b, E_OK)"
    using AllocBufferByTotalLength_succeeds [OF al _ _ fits sm(3), of SerialBuffer_init] by auto
  note f = AllocBufferByTotalLength_ok [OF b]
  have "CreateNewFrameBuffer al (frag_result h S n k) = Some b"
    using al b u by (auto simp: CreateNewFrameBuffer_def reliable_def frame_header_len_def proto_consts Let_def)
  moreover have "buf_ok h S n data {} b" using f by (simp add: buf_ok_def)
  ultimately show ?thesis using that by blast
qed

lemma Assemble_first:
  assumes inv: "comb_inv st" and room: "progress_room st" and sp: "split_ok h S n data" and al: "reliable al"
    and fresh: "map_of (combineWorkPool st (sourceId h)) (frameId h) = None" and k: "k < n"
    and P_def: "P = frag_packet be h S n data k"
  obtains st' w where "AssembleFrameFragment al st P (length P) (frag_result h S n k) = (st', None, E_OK)"
    "comb_inv st'" "incProgressId st' = incProgressId st + 1"
    "combineWorkPool st' = (combineWorkPool st)(sourceId h := [(frameId h, w)])" "work_ok h S n data {k} w"
proof -
  have sm: "S + 40 \<le> MAX_FRAME_LEN" "n < 65536" "2 \<le> n" "n \<le> S" using sp by (simp_all add: split_ok_def)
  note u = unat_frag_words(4,5) [OF k sm(1,2)]
  obtain b0 where b0: "CreateNewFrameBuffer al (frag_result h S n k) = Some b0" "buf_ok h S n data {} b0"
    using CreateNewFrameBuffer_ok [OF al sp k] by blast
  define s0 where "s0 = CombineStatus_init\<lparr>cs_fragmentLen := S div n, cs_lastFragmentLen := S div n + S mod n,
                cs_fragmentCount := n\<rparr>"
  have s0: "status_ok S n {} s0" by (simp add: s0_def status_ok_def CombineStatus_init_def)
  obtain b where c: "CombinePacketIntoFrame b0 P (length P) (k * (S div n)) (frag_len S n k) = (b, E_OK)"
    and b: "buf_ok h S n data {k} b"
    using buf_ok_combine [OF b0(2) sp k, where be = be and hh = h] unfolding P_def by auto
  define w where "w = \<lparr>cw_buffer = Some b, cw_status = CheckInFragmentNo (UpdateProgressId s0 (incProgressId st)) k,
    cw_frameInfo = combined_info h S n\<rparr>"
  define st1 where "st1 = set_work (st\<lparr>totalSizeByByte := wrap64 (totalSizeByByte st + GetSize b),
    incProgressId := incProgressId st + 1\<rparr>) (sourceId h) (frameId h) w"
  have cr: "CreateNewCombineWork al st P (length P) (frag_result h S n k) = (st1, E_OK)"
    using frag_result_analyzed [OF k sm(1,3,2,4), of h] b0(1) c status_lookups [OF s0 k sm(1)]
      wrap64_room [OF room] u
    by (simp add: CreateNewCombineWork_def Let_def st1_def w_def combined_info_def flip: s0_def)
  have p1: "combineWorkPool st1 = (combineWorkPool st)(sourceId h := smap_insert (frameId h) w (combineWorkPool st (sourceId h)))"
    "incProgressId st1 = incProgressId st + 1" by (simp_all add: st1_def)
  have p: "cs_progressId (cw_status w) = incProgressId st" by (simp add: w_def UpdateProgressId_def)
  note d = displace_work [OF inv fresh p room p1]
  have "work_ok h S n data {k} w"
    using status_ok_checkin [OF s0 k] b by (simp add: work_ok_def w_def)
  with d show ?thesis
    using that cr fresh by (simp add: AssembleFrameFragment_def split: if_splits)
qed

text \<open>A sequence of received packets, and the results for the packets of one source.\<close>

fun assemble_all ::
    "allocator \<Rightarrow> FrameCombiner \<Rightarrow> (byte list \<times> ParseResult) list \<Rightarrow>
     FrameCombiner \<times> ((SerialBuffer option \<times> ParseResult) option \<times> errno) list" where
  "assemble_all al st [] = (st, [])"
| "assemble_all al st ((bytes, info) # evs) =
     (let (st', out) = AssembleFrameFragment al st bytes (length bytes) info;
          (st'', outs) = assemble_all al st' evs
      in (st'', out # outs))"

definition results_of :: "u64 \<Rightarrow> (byte list \<times> ParseResult) list \<Rightarrow> 'r list \<Rightarrow> 'r list" where
  "results_of s evs outs = map snd (filter (\<lambda>(ev, _). pr_sourceId (snd ev) = s) (zip evs outs))"

definition packets_of :: "u64 \<Rightarrow> (byte list \<times> ParseResult) list \<Rightarrow> (byte list \<times> ParseResult) list" where
  "packets_of s evs = filter (\<lambda>ev. pr_sourceId (snd ev) = s) evs"

definition fragments :: "bool \<Rightarrow> CommPhyHeader \<Rightarrow> nat \<Rightarrow> nat \<Rightarrow> byte list \<Rightarrow> nat list \<Rightarrow> (byte list \<times> ParseResult) list" where
  "fragments be h S n data ks = map (\<lambda>k. (frag_packet be h S n data k, frag_result h S n k)) ks"

definition room_for :: "FrameCombiner \<Rightarrow> nat \<Rightarrow> bool" where
  "room_for st m \<longleftrightarrow> incProgressId st + m < 18446744073709551615"

lemma room_for_Suc: "room_for st (Suc m) \<Longrightarrow> progress_room st"
  by (simp add: room_for_def progress_room_def)

lemma assemble_all_Cons:
  "assemble_all al st ((bytes, info) # evs) =
    (fst (assemble_all al (fst (AssembleFrameFragment al st bytes (length bytes) info)) evs),
     snd (AssembleFrameFragment al st bytes (length bytes) info) #
       snd (assemble_all al (fst (AssembleFrameFragment al st bytes (length bytes) info)) evs))"
  by (simp add: Let_def split: prod.splits)

lemma assemble_other:
  assumes "comb_inv st" and "room_for st (Suc m)" and "pr_sourceId info \<noteq> s"
  shows "comb_inv (fst (AssembleFrameFragment al st bytes len info))"
    "room_for (fst (AssembleFrameFragment al st bytes len info)) m"
    "combineWorkPool (fst (AssembleFrameFragment al st bytes len info)) s = combineWorkPool st s"
  using assemble_step [OF assms(1) room_for_Suc [OF assms(2)], of al bytes len info] assms(2,3)
  by (auto simp: room_for_def)

lemma assemble_idle:
  assumes "packets_of s evs = []" and "comb_inv st" and "room_for st (length evs)"
  shows "results_of s evs (snd (assemble_all al st evs)) = [] \<and>
    combineWorkPool (fst (assemble_all al st evs)) s = combineWorkPool st s"
  using assms
proof (induction evs arbitrary: st)
  case (Cons ev evs)
  obtain bytes info where ev: "ev = (bytes, info)" by (cases ev)
  have ne: "pr_sourceId info \<noteq> s" and rest: "packets_of s evs = []"
    using Cons.prems(1) by (auto simp: packets_of_def ev split: if_splits)
  have room: "room_for st (Suc (length evs))" using Cons.prems(3) by simp
  note o = assemble_other [OF Cons.prems(2) room ne, of al bytes "length bytes"]
  show ?case using Cons.IH [OF rest o(1,2)] o(3) ne
    by (simp add: ev assemble_all_Cons results_of_def del: assemble_all.simps)
qed (simp add: results_of_def)

lemma assemble_rest:
  assumes "packets_of (sourceId h) evs = fragments be h S n data ks" and "ks \<noteq> []" and "distinct ks"
    and "K \<inter> set ks = {}" and "K \<union> set ks = {0..<n}" and "split_ok h S n data"
    and "comb_inv st" and "room_for st (length evs)"
    and "combineWorkPool st (sourceId h) = [(frameId h, w)]" and "work_ok h S n data K w"
  shows "\<exists>b. buf_ok h S n data {0..<n} b \<and>
    results_of (sourceId h) evs (snd (assemble_all al st evs)) =
      replicate (length ks - 1) (None, E_OK) @ [(Some (Some b, combined_info h S n), E_OK)] \<and>
    combineWorkPool (fst (assemble_all al st evs)) (sourceId h) = []"
  using assms
proof (induction evs arbitrary: st ks K w)
  case Nil
  then show ?case by (simp add: packets_of_def fragments_def)
next
  case (Cons ev evs)
  obtain bytes info where ev: "ev = (bytes, info)" by (cases ev)
  have room: "room_for st (Suc (length evs))" using Cons.prems(8) by simp
  show ?case
  proof (cases "pr_sourceId info = sourceId h")
    case False
    note o = assemble_other [OF Cons.prems(7) room False, of al bytes "length bytes"]
    have p: "packets_of (sourceId h) evs = fragments be h S n data ks"
      using Cons.prems(1) False by (simp add: packets_of_def ev)
    show ?thesis
      using Cons.IH [OF p Cons.prems(2-6) o(1,2) _ Cons.prems(10)] o(3) Cons.prems(9) False
      by (simp add: ev assemble_all_Cons results_of_def del: assemble_all.simps)
  next
    case True
    obtain k ks' where ks: "ks = k # ks'" using Cons.prems(2) by (cases ks) auto
    have hd: "bytes = frag_packet be h S n data k" "info = frag_result h S n k"
      and p: "packets_of (sourceId h) evs = fragments be h S n data ks'"
      using Cons.prems(1) True by (simp_all add: packets_of_def ev ks fragments_def)
    have k: "k < n" "k \<notin> K" "K \<subseteq> {0..<n}" using Cons.prems(4,5) ks by auto
    obtain st' b where b: "buf_ok h S n data (insert k K) b" "comb_inv st'" "incProgressId st' = incProgressId st + 1"
      and fin: "insert k K = {0..<n} \<Longrightarrow> AssembleFrameFragment al st bytes (length bytes) info
         = (st', Some (Some b, combined_info h S n), E_OK)"
        "insert k K = {0..<n} \<Longrightarrow> combineWorkPool st' = (combineWorkPool st)(sourceId h := [])"
      and more: "insert k K \<noteq> {0..<n} \<Longrightarrow> AssembleFrameFragment al st bytes (length bytes) info = (st', None, E_OK)"
        "insert k K \<noteq> {0..<n} \<Longrightarrow> \<exists>w'. combineWorkPool st' = (combineWorkPool st)(sourceId h := [(frameId h, w')]) \<and>
           work_ok h S n data (insert k K) w'"
      using Assemble_next [OF Cons.prems(7) room_for_Suc [OF room] Cons.prems(6,9,10) k hd(1)] hd(2) by metis
    have r': "room_for st' (length evs)" using room b(3) by (simp add: room_for_def)
    show ?thesis
    proof (cases "ks' = []")
      case last: True
      then have full: "insert k K = {0..<n}" using Cons.prems(5) ks by auto
      have "packets_of (sourceId h) evs = []" using p last by (simp add: fragments_def)
      from assemble_idle [OF this b(2) r', of al] show ?thesis
        using fin [OF full] b(1) full True last ks
        by (auto simp: ev assemble_all_Cons results_of_def simp del: assemble_all.simps)
    next
      case False
      then obtain j where "j \<in> set ks'" by (cases ks') auto
      then have nf: "insert k K \<noteq> {0..<n}" using Cons.prems(3-5) ks by auto
      obtain w' where w': "combineWorkPool st' (sourceId h) = [(frameId h, w')]" "work_ok h S n data (insert k K) w'"
        using more(2) [OF nf] by auto
      have "distinct ks'" "insert k K \<inter> set ks' = {}" "insert k K \<union> set ks' = {0..<n}"
        using Cons.prems(3-5) ks by auto
      from Cons.IH [OF p False this Cons.prems(6) b(2) r' w'] show ?thesis
        using more(1) [OF nf] True ks False
        by (cases ks') (auto simp: ev assemble_all_Cons results_of_def simp del: assemble_all.simps)
    qed
  qed
qed

lemma assemble_any_order:
  assumes al: "reliable al" and inv: "comb_inv st" and room: "room_for st (length evs)" and sp: "split_ok h S n data"
    and fresh: "map_of (combineWorkPool st (sourceId h)) (frameId h) = None"
    and pk: "packets_of (sourceId h) evs = fragments be h S n data ks"
    and ks: "distinct ks" "set ks = {0..<n}"
  shows "\<exists>b. buf_ok h S n data {0..<n} b \<and>
    results_of (sourceId h) evs (snd (assemble_all al st evs)) =
      replicate (n - 1) (None, E_OK) @ [(Some (Some b, combined_info h S n), E_OK)] \<and>
    combineWorkPool (fst (assemble_all al st evs)) (sourceId h) = []"
proof -
  have len: "length ks = n" using distinct_card [OF ks(1)] ks(2) by simp
  have n2: "2 \<le> n" using sp by (simp add: split_ok_def)
  then obtain k ks' where kk: "ks = k # ks'" "ks' \<noteq> []" using len by (cases ks; cases "tl ks") auto
  show ?thesis
    using pk inv room fresh
  proof (induction evs arbitrary: st)
    case Nil
    then show ?case by (simp add: packets_of_def fragments_def kk)
  next
    case (Cons ev evs)
    obtain bytes info where ev: "ev = (bytes, info)" by (cases ev)
    have room: "room_for st (Suc (length evs))" using Cons.prems(3) by simp
    show ?case
    proof (cases "pr_sourceId info = sourceId h")
      case False
      note o = assemble_other [OF Cons.prems(2) room False, of al bytes "length bytes"]
      have p: "packets_of (sourceId h) evs = fragments be h S n data ks"
        using Cons.prems(1) False by (simp add: packets_of_def ev)
      show ?thesis
        using Cons.IH [OF p o(1,2)] o(3) Cons.prems(4) False
        by (simp add: ev assemble_all_Cons results_of_def del: assemble_all.simps)
    next
      case True
      have hd: "bytes = frag_packet be h S n data k" "info = frag_result h S n k"
        and p: "packets_of (sourceId h) evs = fragments be h S n data ks'"
        using Cons.prems(1) True by (simp_all add: packets_of_def ev kk fragments_def)
      have k: "k < n" using ks(2) kk by auto
      obtain st' w where st': "AssembleFrameFragment al st bytes (length bytes) info = (st', None, E_OK)"
        "comb_inv st'" "incProgressId st' = incProgressId st + 1"
        "combineWorkPool st' = (combineWorkPool st)(sourceId h := [(frameId h, w)])" "work_ok h S n data {k} w"
        using Assemble_first [OF Cons.prems(2) room_for_Suc [OF room] sp al Cons.prems(4) k hd(1)] hd(2) by metis
      have r': "room_for st' (length evs)" using room st'(3) by (simp add: room_for_def)
      have "distinct ks'" "{k} \<inter> set ks' = {}" "{k} \<union> set ks' = {0..<n}" using ks kk by auto
      from assemble_rest [OF p kk(2) this sp st'(2) r' _ st'(5), of al] show ?thesis
        using st'(1,4) True kk len n2
        by (cases ks') (auto simp: ev assemble_all_Cons results_of_def simp del: assemble_all.simps)
    qed
  qed
qed

lemma buf_ok_parsed:
  assumes b: "buf_ok h S n data {0..<n} b'" and sp: "split_ok h S n data"
    and t: "GetFrameType (packetType h) = APPLICATION_MESSAGE"
    and dv: "diverge_load True data = \<lparr>divVersion = PROTOCOL_VERSION, reserved = 0,
       payLoadLen = of_nat (S - 40), commLabel = lab\<rparr>"
  shows "\<exists>r. CheckAndParseFrame be b' (combined_info h S n) = (r, E_OK) \<and> pr_commLabel r = lab \<and>
    unat (pr_payloadLen r) = S - 40 \<and> pr_frameId r = frameId h \<and> pr_frameType r = APPLICATION_MESSAGE"
    "payload_bytes b' = drop 40 data"
proof -
  have wf: "sb_wf b'" "padLen b' = 0" "totalLen b' = S + 32" "headerLen b' = 72"
    using b t by (simp_all add: buf_ok_def frame_header_len_def)
  have S: "40 \<le> S" "S + 40 \<le> MAX_FRAME_LEN" "n < 65536" using sp t by (simp_all add: split_ok_def frame_header_len_def)
  have tl: "headerLen b' + payloadLen b' = S + 32" using wf by (simp add: sb_wf_def)
  note bc = buf_ok_complete [OF b sp]
  have "drop 72 (buffer_bytes b') = drop 40 (drop 32 (buffer_bytes b'))" by simp
  then show "payload_bytes b' = drop 40 data"
    using payload_bytes_eq [OF wf(1)] wf(4) tl bc sp by (simp only: bc(1)) (simp add: split_ok_def)
  let ?r = "rptr (GetReadOnlyBytesForEntireBuffer b')"
  have rt: "take (S + 32) ?r = buffer_bytes b'" using rptr_regions(1) [OF wf(1)] wf(3) by simp
  have lr: "S + 32 \<le> length ?r" using arg_cong [OF rt, of length] bc(2) by simp
  have "data = take S (drop 32 ?r)" using bc(1) by (simp add: drop_take flip: rt)
  then have "take 40 (drop 32 ?r) = take 40 data" using S(1) by (simp add: min_def)
  then have ld: "diverge_load True (drop 32 ?r) = diverge_load True data"
    using diverge.load_prefix [of "drop 32 ?r" True] diverge.load_prefix [of data True] lr S sp
    by (simp add: split_ok_def)
  have u: "unat (of_nat (S - 40) :: u32) = S - 40" "unat (of_nat (S + 32) :: u32) = S + 32"
    using S by (simp_all only: unat_of_nat_eq MAX_FRAME_LEN_def) (rule unat_of_nat_eq, simp)+
  show "\<exists>r. CheckAndParseFrame be b' (combined_info h S n) = (r, E_OK) \<and> pr_commLabel r = lab \<and>
    unat (pr_payloadLen r) = S - 40 \<and> pr_frameId r = frameId h \<and> pr_frameType r = APPLICATION_MESSAGE"
    using t lr S tl u ParseCommDivergeHeader_ok [of "S + 32" ?r "combined_info h S n" be]
    by (simp add: CheckAndParseFrame_def rptr_regions [OF wf(1)] ld dv combined_info_def ParseResult_init_def)
qed

text \<open>The packets of a split frame, as the receiver parses them.\<close>

definition parsed_piece :: "bool \<Rightarrow> bool \<Rightarrow> string \<Rightarrow> byte list \<times> nat \<Rightarrow> byte list \<times> ParseResult" where
  "parsed_piece be sc target piece = (let p = drop (snd piece) (fst piece)
     in (p, fst (CheckAndParsePacket be sc target (Some p) (length p) ParseResult_init)))"

lemma split_pieces_fragments:
  assumes wf: "sb_wf b" and m: "sb_mem b \<noteq> None" and al: "reliable al" and off: "sb_off b = extendHeadLen b"
    and ext: "extendHeadLen b \<le> MAX_EXTEND_HEAD_LENGTH" and h72: "headerLen b = 72"
    and sz: "headerLen b + payloadLen b + 8 \<le> MAX_FRAME_LEN"
    and hdr: "h = phy_load True (buffer_bytes b)" "frame_header_ok sc target h"
    and mtu: "extendHeadLen b + 40 < mtu" "mtu < totalLen b + extendHeadLen b"
      "headerLen b + payloadLen b - 32 < 65535 * (mtu - extendHeadLen b - 40)"
    and split: "SplitFrameIntoPacketsIfNeed al be b mtu = Inr pieces"
    and S: "S = 40 + payloadLen b" and d: "d = drop 32 (frame_bytes b)"
  shows "split_ok h S (length pieces) d"
    "set ks \<subseteq> {0..<length pieces} \<Longrightarrow>
      map (\<lambda>k. parsed_piece be sc target (pieces ! k)) ks = fragments be h S (length pieces) d ks"
proof -
  define n where "n = split_count S (mtu - extendHeadLen b - 40)"
  have h32: "32 \<le> headerLen b + payloadLen b" and Sd: "S = headerLen b + payloadLen b - 32"
    using h72 S by simp_all
  obtain m0 where m0: "sb_mem b = Some m0" using m by auto
  have e: "extendHeadLen b \<le> 512" using ext by (simp add: MAX_EXTEND_HEAD_LENGTH_def)
  have mt: "mtu < 4294967296" using wf mtu(2) e by (auto simp: sb_wf_def MAX_TOTAL_LEN_def)
  have mf: "0 < mtu - extendHeadLen b - 40" using mtu(1) by simp
  note n = split_count_exact [OF mf split_needed [OF wf h32 mtu(1,2)] mtu(3), folded Sd, folded n_def]
  have pc: "pieces = map (\<lambda>k. (take (extendHeadLen b) m0 @ frag_packet be h S n d k, extendHeadLen b)) [0..<n]"
    using SplitFrame_pieces [OF wf m0 al off e h32 hdr(1) [symmetric] mtu(1) mt mtu(2) Sd n_def n(1), of be] split
    by (simp add: d)
  have len: "length pieces = n" by (simp add: pc)
  have l: "length d = S" using sb_wf_lengths(5) [OF wf] by (simp add: d Sd)
  have S40: "S + 40 \<le> MAX_FRAME_LEN" using sz h72 by (simp add: S)
  show "split_ok h S (length pieces) d" using n S40 l S len by (simp add: split_ok_def frame_header_len_def)
  have lm: "length (take (extendHeadLen b) m0) = extendHeadLen b" using wf m0 off by (auto simp: sb_wf_def)
  show "map (\<lambda>k. parsed_piece be sc target (pieces ! k)) ks = fragments be h S (length pieces) d ks"
    if "set ks \<subseteq> {0..<length pieces}"
    unfolding fragments_def
  proof (rule map_cong [OF refl])
    fix k assume "k \<in> set ks"
    then have k: "k < n" using that len by auto
    from frag_packet_parsed [OF k l S40 n(2) hdr(2), of be]
    show "parsed_piece be sc target (pieces ! k) =
      (frag_packet be h S (length pieces) d k, frag_result h S (length pieces) k)"
      using k lm by (simp add: pc parsed_piece_def Let_def del: length_take)
  qed
qed

text \<open>
  C2. A fragmented application frame is delivered. The packets that \<^verbatim>\<open>SplitFrameIntoPacketsIfNeed\<close>
  makes of a frame are parsed and handed to the combiner in any order and interleaved with arbitrary
  packets of other sources. Every packet but the last to arrive is absorbed, the last one yields a
  frame that \<^verbatim>\<open>CheckAndParseFrame\<close> accepts with the label of the sender, and whose payload is the
  payload that was sent.
\<close>

theorem fragmented_frame_delivered:
  assumes wf: "sb_wf b" and m: "sb_mem b \<noteq> None" and al: "reliable al" and off: "sb_off b = extendHeadLen b"
    and ext: "extendHeadLen b \<le> MAX_EXTEND_HEAD_LENGTH" and hl: "headerLen b = GetAppLayerFrameHeaderLength"
    and sz: "headerLen b + payloadLen b + 8 \<le> MAX_FRAME_LEN"
    and hdr: "h = phy_load True (buffer_bytes b)" "frame_header_ok sc target h"
      "GetFrameType (packetType h) = APPLICATION_MESSAGE"
    and dv: "diverge_load True (drop 32 (buffer_bytes b)) = \<lparr>divVersion = PROTOCOL_VERSION, reserved = 0,
      payLoadLen = of_nat (payloadLen b), commLabel = lab\<rparr>"
    and mtu: "extendHeadLen b + 40 < mtu" "mtu < totalLen b + extendHeadLen b"
      "headerLen b + payloadLen b - 32 < 65535 * (mtu - extendHeadLen b - 40)"
    and split: "SplitFrameIntoPacketsIfNeed al be b mtu = Inr pieces"
    and st: "comb_inv st" "room_for st (length evs)"
      "map_of (combineWorkPool st (sourceId h)) (frameId h) = None"
    and pkts: "packets_of (sourceId h) evs = map (\<lambda>k. parsed_piece be sc target (pieces ! k)) ks"
    and ks: "distinct ks" "set ks = {0..<length pieces}"
  shows "\<exists>b' info r. results_of (sourceId h) evs (snd (assemble_all al st evs)) =
      replicate (length pieces - 1) (None, E_OK) @ [(Some (Some b', info), E_OK)] \<and>
    CheckAndParseFrame be b' info = (r, E_OK) \<and> pr_commLabel r = lab \<and> pr_frameId r = frameId h \<and>
    unat (pr_payloadLen r) = payloadLen b \<and> payload_bytes b' = payload_bytes b"
proof -
  define S where "S = 40 + payloadLen b"
  define d where "d = drop 32 (frame_bytes b)"
  have h72: "headerLen b = 72" using hl by (simp add: proto_consts)
  note sf = split_pieces_fragments [OF wf m al off ext h72 sz hdr(1,2) mtu split S_def d_def]
  have "packets_of (sourceId h) evs = fragments be h S (length pieces) d ks"
    using sf(2) [of ks] pkts ks(2) by simp
  from assemble_any_order [OF al st(1,2) sf(1) st(3) this ks]
  obtain b' where b': "buf_ok h S (length pieces) d {0..<length pieces} b'"
    and res: "results_of (sourceId h) evs (snd (assemble_all al st evs)) = replicate (length pieces - 1) (None, E_OK) @
      [(Some (Some b', combined_info h S (length pieces)), E_OK)]" by auto
  have fb: "frame_bytes b = take (S + 32) (buffer_bytes b)"
    using frame_bytes_prefix [OF wf] h72 by (simp add: S_def)
  have l: "length d = S" using sb_wf_lengths(5) [OF wf] h72 by (simp add: d_def S_def)
  have "diverge_load True d = diverge_load True (drop 32 (buffer_bytes b))"
    using diverge.load_prefix [of d True] diverge.load_prefix [of "drop 32 (buffer_bytes b)" True] l fb
      sb_wf_lengths(2,4) [OF wf] h72
    by (simp add: d_def S_def drop_take min_def)
  then have dd: "diverge_load True d = \<lparr>divVersion = PROTOCOL_VERSION, reserved = 0,
      payLoadLen = of_nat (S - 40), commLabel = lab\<rparr>" using dv by (simp add: S_def)
  note fin = buf_ok_parsed(1) [OF b' sf(1) hdr(3) dd, of be] buf_ok_parsed(2) [OF b' sf(1) hdr(3) dd]
  have "payload_bytes b' = payload_bytes b"
    using fin(2) payload_bytes_suffix [OF wf] h72 by (simp add: d_def)
  then show ?thesis using fin(1) res by (auto simp: S_def)
qed

section \<open>Reachable states\<close>

text \<open>
  The combiner runs: a packet arrives, or the surveillance timer fires. The index counts the packets.
\<close>

inductive combiner_reach :: "nat \<Rightarrow> FrameCombiner \<Rightarrow> bool" where
  start: "combiner_reach 0 (Combiner_Initialize FrameCombiner_init timerErr)"
| packet: "combiner_reach n st \<Longrightarrow>
    combiner_reach (Suc n) (fst (AssembleFrameFragment al st bytes len info))"
| tick: "combiner_reach n st \<Longrightarrow> combiner_reach n (Combiner_PeriodicalSurveillance st)"

lemma surveillance_inv: "comb_inv st \<Longrightarrow> comb_inv (Combiner_PeriodicalSurveillance st)"
proof -
  assume inv: "comb_inv st"
  have keys: "map fst (map (\<lambda>(f, w). (f, w\<lparr>cw_status := g w\<rparr>)) m) = map fst m" for g and m :: "(u32, CombineWork) smap"
    by (induction m) auto
  show ?thesis
    unfolding comb_inv_def
  proof (intro allI conjI)
    fix s
    let ?m = "filter (\<lambda>(f, w). snd (CheckProgress (cw_status w))) (combineWorkPool st s)"
    have "smap_inv ?m" using comb_invD(1) [OF inv, of s] by (rule smap_inv_filter)
    then show "smap_inv (combineWorkPool (Combiner_PeriodicalSurveillance st) s)"
      by (simp add: Combiner_PeriodicalSurveillance_def smap_inv_def keys del: map_map)
    show "length (combineWorkPool (Combiner_PeriodicalSurveillance st) s) \<le> MAX_WORK_PER_SRC_TARGET"
      using comb_invD(2) [OF inv, of s] length_filter_le [of _ "combineWorkPool st s"]
      by (simp add: Combiner_PeriodicalSurveillance_def MAX_WORK_PER_SRC_TARGET_def)
        (metis le_trans length_filter_le)
    show "\<forall>(f, w) \<in> set (combineWorkPool (Combiner_PeriodicalSurveillance st) s).
        cs_progressId (cw_status w) < incProgressId (Combiner_PeriodicalSurveillance st)"
      using comb_invD(3) [OF inv, of _ _ s]
      by (auto simp: Combiner_PeriodicalSurveillance_def CheckProgress_def)
  qed
qed

lemma combiner_reach_inv:
  assumes "combiner_reach n st" and "n < 18446744073709551614"
  shows "comb_inv st \<and> incProgressId st \<le> n"
  using assms
proof (induction rule: combiner_reach.induct)
  case (start timerErr)
  then show ?case using comb_inv_init
    by (auto simp: Combiner_Initialize_def comb_inv_def FrameCombiner_init_def)
next
  case (packet n st al bytes len info)
  then have "comb_inv st" "incProgressId st \<le> n" by simp_all
  moreover have "progress_room st" using packet.prems calculation by (simp add: progress_room_def)
  ultimately show ?case using assemble_step [of st al bytes len info] by auto
next
  case (tick n st)
  then show ?case using surveillance_inv
    by (auto simp: Combiner_PeriodicalSurveillance_def)
qed

text \<open>
  C32. In every state the combiner can reach (over fewer than \<open>2^64 - 2\<close> packets), whatever packets
  arrived, each source has at most one frame under reassembly.
\<close>

theorem combiner_one_work_per_source:
  assumes "combiner_reach n st" and "n < 18446744073709551614"
  shows "length (combineWorkPool st s) \<le> MAX_WORK_PER_SRC_TARGET"
  using combiner_reach_inv [OF assms] by (auto simp: comb_inv_def)

text \<open>
  The surveillance drops exactly the works without progress since its last round: a work that
  received a fragment survives one round, and is dropped by the next one if nothing arrived.
\<close>

theorem surveillance_drops_stalled:
  assumes "comb_inv st" and "map_of (combineWorkPool st s) f = Some w"
  shows "(\<exists>w'. map_of (combineWorkPool (Combiner_PeriodicalSurveillance st) s) f = Some w')
      = cs_hasProgressFlag (cw_status w) \<and>
    combineWorkPool (Combiner_PeriodicalSurveillance (Combiner_PeriodicalSurveillance st)) s = []"
  using pool_lookup [OF assms] by (simp add: Combiner_PeriodicalSurveillance_def CheckProgress_def)

text \<open>
  A fragment that does not belong to the frame under reassembly (another frame length, another
  fragment count, a fragment number out of range, or a fragment received before) is refused with
  \<^verbatim>\<open>E_COMBINE_FAIL\<close> and changes nothing.
\<close>

theorem mismatched_fragment_refused:
  assumes "map_of (combineWorkPool st (pr_sourceId info)) (pr_frameId info) = Some w"
    and "pr_frameLen info \<noteq> pr_frameLen (cw_frameInfo w) \<or> pr_fragCount info \<noteq> pr_fragCount (cw_frameInfo w) \<or>
      pr_fragNo info \<ge> pr_fragCount info \<or> unat (pr_fragNo info) \<in> cs_combinedFragmentNo (cw_status w)"
  shows "AssembleFrameFragment al st bytes len info = (st, None, E_COMBINE_FAIL)"
proof -
  have "\<not> CheckPacketWithOriWork info w"
    using assms(2) by (auto simp: CheckPacketWithOriWork_def IsFragNoAlreadyExist_def)
  then show ?thesis using assms(1) by (simp add: AssembleFrameFragment_def ContinueExistCombineWork_def)
qed

section \<open>Concrete inputs\<close>

text \<open>The large frame as an application message, and its packets in the order 2, 0, 1.\<close>

definition labelled_buffer :: SerialBuffer where
  "labelled_buffer = fst (SetDivergeHeader False large_buffer sample_label)"

definition app_frame :: SerialBuffer where
  "app_frame = fst (SetPhyHeader False labelled_buffer (sample_info APPLICATION_MESSAGE))"

definition app_pieces :: "(byte list \<times> nat) list" where
  "app_pieces = (case SplitFrameIntoPacketsIfNeed test_allocator False app_frame 1024 of Inl _ \<Rightarrow> [] | Inr p \<Rightarrow> p)"

definition app_packets :: "(byte list \<times> ParseResult) list" where
  "app_packets = map (\<lambda>k. parsed_piece False True ''dev'' (app_pieces ! k)) [2, 0, 1]"

lemma app_frame_ok:
  "sb_wf app_frame" "sb_mem app_frame \<noteq> None" "headerLen app_frame = 72"
  "payloadLen app_frame = 2911" "totalLen app_frame = 2984" "sb_off app_frame = 0" "extendHeadLen app_frame = 0"
  "frame_header_ok True ''dev'' (phy_load True (buffer_bytes app_frame))"
  "GetFrameType (packetType (phy_load True (buffer_bytes app_frame))) = APPLICATION_MESSAGE"
  "diverge_load True (drop 32 (buffer_bytes app_frame)) = \<lparr>divVersion = PROTOCOL_VERSION, reserved = 0,
     payLoadLen = of_nat 2911, commLabel = sample_label\<rparr>"
proof -
  let ?i = "sample_info APPLICATION_MESSAGE"
  have ll: "length sample_label = 32" by (simp add: sample_label_def)
  obtain b1 where b1: "SetDivergeHeader False large_buffer sample_label = (b1, E_OK)" "sb_wf b1" "sb_mem b1 \<noteq> None"
    "headerLen b1 = 72" "payloadLen b1 = 2911" "totalLen b1 = 2984" "sb_off b1 = 0" "extendHeadLen b1 = 0"
    "diverge_load True (drop 32 (buffer_bytes b1)) = \<lparr>divVersion = PROTOCOL_VERSION, reserved = 0,
       payLoadLen = of_nat 2911, commLabel = sample_label\<rparr>"
    by (rule SetDivergeHeader_ok [OF large_buffer_ok(1-3) ll, where be = False])
      (simp add: large_buffer_ok del: not_None_eq)
  have t: "phi_frameType ?i \<noteq> INVALID_MAX_FRAME_TYPE" by (simp add: sample_info_def)
  obtain b' s where b': "SetPhyHeader False b1 ?i = (b', E_OK)" "sb_wf b'" "sb_mem b' \<noteq> None"
    "headerLen b' = headerLen b1" "payloadLen b' = payloadLen b1" "totalLen b' = totalLen b1" "sb_off b' = sb_off b1"
    "extendHeadLen b' = extendHeadLen b1" "drop 32 (buffer_bytes b') = drop 32 (buffer_bytes b1)"
    "phy_load True (buffer_bytes b') = frame_phy_header ?i b1 s"
    by (rule SetPhyHeader_ok [OF b1(2,3) _ _ t, where be = False]) (simp_all add: b1)
  have "app_frame = b'" by (simp add: app_frame_def labelled_buffer_def b1(1) b'(1))
  then show "sb_wf app_frame" "sb_mem app_frame \<noteq> None" "headerLen app_frame = 72"
    "payloadLen app_frame = 2911" "totalLen app_frame = 2984" "sb_off app_frame = 0" "extendHeadLen app_frame = 0"
    "frame_header_ok True ''dev'' (phy_load True (buffer_bytes app_frame))"
    "GetFrameType (packetType (phy_load True (buffer_bytes app_frame))) = APPLICATION_MESSAGE"
    "diverge_load True (drop 32 (buffer_bytes app_frame)) = \<lparr>divVersion = PROTOCOL_VERSION, reserved = 0,
       payLoadLen = of_nat 2911, commLabel = sample_label\<rparr>"
    using b' b1
    by (simp_all add: frame_header_ok_def frame_phy_header_def sample_info_def GetFrameType_SetFrameType
        del: not_None_eq)
qed

lemma app_pieces_ok:
  "SplitFrameIntoPacketsIfNeed test_allocator False app_frame 1024 = Inr app_pieces" "length app_pieces = 3"
proof -
  obtain m where m: "sb_mem app_frame = Some m" using app_frame_ok(2) by auto
  have c: "split_count 2951 984 = 3" by (simp add: split_count_def)
  have "SplitFrameIntoPacketsIfNeed test_allocator False app_frame 1024 =
    Inr (map (\<lambda>k. (take 0 m @ frag_packet False (phy_load True (buffer_bytes app_frame)) 2951 3
      (drop 32 (frame_bytes app_frame)) k, 0)) [0..<3])"
    using SplitFrame_pieces [OF app_frame_ok(1) m reliable_test_allocator, of _ 1024 2951 3 False] c
    by (simp add: app_frame_ok)
  then show "SplitFrameIntoPacketsIfNeed test_allocator False app_frame 1024 = Inr app_pieces"
    "length app_pieces = 3" by (simp_all add: app_pieces_def)
qed

lemma app_frame_sizes:
  "sb_off app_frame = extendHeadLen app_frame" "extendHeadLen app_frame \<le> MAX_EXTEND_HEAD_LENGTH"
  "headerLen app_frame + payloadLen app_frame + 8 \<le> MAX_FRAME_LEN"
  "extendHeadLen app_frame + 40 < 1024" "1024 < totalLen app_frame + extendHeadLen app_frame"
  "headerLen app_frame + payloadLen app_frame - 32 < 65535 * (1024 - extendHeadLen app_frame - 40)"
  "headerLen app_frame = GetAppLayerFrameHeaderLength"
  by (simp_all add: app_frame_ok(3-7) MAX_FRAME_LEN_def GetAppLayerFrameHeaderLength_def)

lemma packets_of_fragments: "packets_of (sourceId h) (fragments be h S n d ks) = fragments be h S n d ks"
  by (induction ks) (simp_all add: packets_of_def fragments_def)

lemma app_packets_own:
  "packets_of (sourceId (phy_load True (buffer_bytes app_frame))) app_packets = app_packets"
proof -
  let ?h = "phy_load True (buffer_bytes app_frame)"
  have "2951 = 40 + payloadLen app_frame" "set [2, 0, 1] \<subseteq> {0..<length app_pieces}"
    by (simp_all add: app_frame_ok(4) app_pieces_ok(2))
  from split_pieces_fragments(2) [OF app_frame_ok(1,2) reliable_test_allocator app_frame_sizes(1,2)
      app_frame_ok(3) app_frame_sizes(3) refl app_frame_ok(8) app_frame_sizes(4-6) app_pieces_ok(1) this(1) refl this(2)]
  have "app_packets = fragments False ?h 2951 (length app_pieces) (drop 32 (frame_bytes app_frame)) [2, 0, 1]"
    by (simp only: app_packets_def)
  then show ?thesis using packets_of_fragments by metis
qed

theorem fragmented_frame_delivered_witness:
  "\<exists>b' info r. results_of (sourceId (phy_load True (buffer_bytes app_frame))) app_packets
      (snd (assemble_all test_allocator FrameCombiner_init app_packets)) =
      replicate (length app_pieces - 1) (None, E_OK) @ [(Some (Some b', info), E_OK)] \<and>
    CheckAndParseFrame False b' info = (r, E_OK) \<and> pr_commLabel r = sample_label \<and>
    pr_frameId r = frameId (phy_load True (buffer_bytes app_frame)) \<and>
    unat (pr_payloadLen r) = payloadLen app_frame \<and> payload_bytes b' = payload_bytes app_frame"
proof (rule fragmented_frame_delivered [OF app_frame_ok(1,2) reliable_test_allocator app_frame_sizes(1,2,7,3) refl
      app_frame_ok(8,9) _ app_frame_sizes(4-6) app_pieces_ok(1) comb_inv_init, where ks = "[2, 0, 1]"])
  show "diverge_load True (drop 32 (buffer_bytes app_frame)) = \<lparr>divVersion = PROTOCOL_VERSION, reserved = 0,
      payLoadLen = of_nat (payloadLen app_frame), commLabel = sample_label\<rparr>"
    using app_frame_ok(10) by (simp only: app_frame_ok(4))
  show "room_for FrameCombiner_init (length app_packets)"
    by (simp add: room_for_def FrameCombiner_init_def app_packets_def)
  show "packets_of (sourceId (phy_load True (buffer_bytes app_frame))) app_packets
      = map (\<lambda>k. parsed_piece False True ''dev'' (app_pieces ! k)) [2, 0, 1]"
    using app_packets_own by (simp only: app_packets_def)
qed (auto simp: FrameCombiner_init_def app_pieces_ok(2))

text \<open>One packet received, the timer, and a duplicate.\<close>

definition first_state :: FrameCombiner where
  "first_state = fst (AssembleFrameFragment test_allocator FrameCombiner_init (fst (app_packets ! 0))
     (length (fst (app_packets ! 0))) (snd (app_packets ! 0)))"

theorem combiner_one_work_per_source_witness:
  "length (combineWorkPool first_state 7) \<le> MAX_WORK_PER_SRC_TARGET"
proof (rule combiner_one_work_per_source)
  have "combiner_reach 0 (Combiner_Initialize FrameCombiner_init E_TIMEOUT)" by (rule combiner_reach.start)
  then have "combiner_reach 0 FrameCombiner_init" by (simp add: Combiner_Initialize_def)
  then show "combiner_reach (Suc 0) first_state" unfolding first_state_def by (rule combiner_reach.packet)
qed simp

definition stalled_work :: CombineWork where
  "stalled_work = \<lparr>cw_buffer = None,
     cw_status = CombineStatus_init\<lparr>cs_fragmentCount := 3, cs_combinedFragmentNo := {2}\<rparr>,
     cw_frameInfo = ParseResult_init\<lparr>pr_frameLen := 2983, pr_fragCount := 3\<rparr>\<rparr>"

definition stalled_state :: FrameCombiner where
  "stalled_state = FrameCombiner_init\<lparr>incProgressId := 1,
     combineWorkPool := (\<lambda>s. if s = 7 then [(9, stalled_work)] else [])\<rparr>"

lemma stalled_state_inv: "comb_inv stalled_state"
  by (auto simp: comb_inv_def stalled_state_def stalled_work_def MAX_WORK_PER_SRC_TARGET_def smap_inv_def
      CombineStatus_init_def FrameCombiner_init_def)

theorem surveillance_drops_stalled_witness:
  "combineWorkPool (Combiner_PeriodicalSurveillance (Combiner_PeriodicalSurveillance stalled_state)) 7 = []"
  using surveillance_drops_stalled [OF stalled_state_inv, of 7 9 stalled_work] by (simp add: stalled_state_def)

theorem mismatched_fragment_refused_witness:
  "AssembleFrameFragment test_allocator stalled_state [] 0
     (ParseResult_init\<lparr>pr_sourceId := 7, pr_frameId := 9, pr_frameLen := 2983, pr_fragCount := 3, pr_fragNo := 2\<rparr>) =
   (stalled_state, None, E_COMBINE_FAIL)"
  by (rule mismatched_fragment_refused [where w = stalled_work]) (simp_all add: stalled_state_def stalled_work_def)

end
