(* ===== verification/Frame_Retainer.thy ===== *)
theory Frame_Retainer
  imports Serial_Buffer Std_Map
begin

text \<open>
  \<^verbatim>\<open>communicator/src/frame_retainer.cpp\<close>: frames for communicators that are not registered yet are
  kept for a while, by label, source target and order of arrival. The pool is a map of maps of maps,
  as in the code.
\<close>

section \<open>State\<close>

record FrameInfo =
  fi_buffer :: "SerialBuffer option"
  fi_srcTarget :: string
  fi_commLabel :: LabelType
  fi_frameId :: u32

record RetainWork =
  rw_buffer :: SerialBuffer
  rw_frameId :: u32
  rw_remainTime :: nat

type_synonym frame_map = "(nat, RetainWork) smap"
type_synonym retain_pool = "(LabelType, (string, frame_map) smap) smap"

record FrameRetainer =
  fr_isTimerWork :: bool
  fr_totalSizeByByte :: nat
  fr_totalRetainFrames :: nat
  fr_incRetainOrder :: nat
  fr_retainWorkPool :: retain_pool

definition FrameRetainer_init :: FrameRetainer where
  "FrameRetainer_init = \<lparr>fr_isTimerWork = False, fr_totalSizeByByte = 0, fr_totalRetainFrames = 0,
     fr_incRetainOrder = 0, fr_retainWorkPool = []\<rparr>"

definition RETAIN_MAX_CAPACITY :: nat where "RETAIN_MAX_CAPACITY = 67108864"
definition MAX_RETAIN_TIME :: nat where "MAX_RETAIN_TIME = 10"
definition MAX_RETAIN_FRAME_SIZE :: nat where "MAX_RETAIN_FRAME_SIZE = 33554432"
definition MAX_RETAIN_FRAME_PER_LABEL_PER_TARGET :: nat where "MAX_RETAIN_FRAME_PER_LABEL_PER_TARGET = 5"

lemmas retain_consts = RETAIN_MAX_CAPACITY_def MAX_RETAIN_TIME_def MAX_RETAIN_FRAME_SIZE_def
  MAX_RETAIN_FRAME_PER_LABEL_PER_TARGET_def

text \<open>\<^verbatim>\<open>retainWorkPool_[label][target]\<close>, read and written, and the iteration over all works.\<close>

definition rp_get :: "retain_pool \<Rightarrow> LabelType \<Rightarrow> string \<Rightarrow> frame_map" where
  "rp_get pool l t = smap_get [] (smap_get [] pool l) t"

definition rp_set :: "retain_pool \<Rightarrow> LabelType \<Rightarrow> string \<Rightarrow> frame_map \<Rightarrow> retain_pool" where
  "rp_set pool l t fm = smap_insert l (smap_insert t fm (smap_get [] pool l)) pool"

type_synonym retained = "LabelType \<times> string \<times> nat \<times> RetainWork"

definition all_works :: "retain_pool \<Rightarrow> retained list" where
  "all_works pool = concat (map (\<lambda>(l, tm). concat (map (\<lambda>(t, fm). map (\<lambda>(i, w). (l, t, i, w)) fm) tm)) pool)"

section \<open>Operations\<close>

definition Retainer_Initialize :: "FrameRetainer \<Rightarrow> errno \<Rightarrow> FrameRetainer" where
  "Retainer_Initialize st timerErr = (if timerErr \<noteq> E_OK then st else st\<lparr>fr_isTimerWork := True\<rparr>)"

definition Retainer_Finalize :: "FrameRetainer \<Rightarrow> FrameRetainer" where
  "Retainer_Finalize st = st\<lparr>fr_isTimerWork := False, fr_retainWorkPool := [], fr_totalSizeByByte := 0,
     fr_totalRetainFrames := 0\<rparr>"

definition ShrinkRetainWorkPool :: "FrameRetainer \<Rightarrow> FrameRetainer" where
  "ShrinkRetainWorkPool st = st\<lparr>fr_retainWorkPool :=
     filter (\<lambda>(l, tm). tm \<noteq> []) (map (\<lambda>(l, tm). (l, filter (\<lambda>(t, fm). fm \<noteq> []) tm)) (fr_retainWorkPool st))\<rparr>"

text \<open>Subtracting a discarded work from the statistics.\<close>

definition forget :: "RetainWork \<Rightarrow> FrameRetainer \<Rightarrow> FrameRetainer" where
  "forget w st = st\<lparr>fr_totalSizeByByte := sub32 (fr_totalSizeByByte st) (GetSize (rw_buffer w)),
     fr_totalRetainFrames := sub32 (fr_totalRetainFrames st) 1\<rparr>"

text \<open>
  The loop of \<^verbatim>\<open>DiscardObsoleteFramesIfNeed\<close> over the works by retention order; the flag tells
  whether the pool is shrunk afterwards.
\<close>

fun discard_loop :: "FrameRetainer \<Rightarrow> (nat \<times> LabelType \<times> string) list \<Rightarrow> FrameRetainer \<times> bool" where
  "discard_loop st order =
     (if fr_totalSizeByByte st \<le> RETAIN_MAX_CAPACITY then (st, True)
      else case order of
             [] \<Rightarrow> (st, False)
           | (i, l, t) # rest \<Rightarrow>
               let fm = rp_get (fr_retainWorkPool st) l t in
               (case map_of fm i of
                  None \<Rightarrow> (st, False)
                | Some w \<Rightarrow>
                    discard_loop ((forget w st)\<lparr>fr_retainWorkPool :=
                       rp_set (fr_retainWorkPool st) l t (smap_erase i fm)\<rparr>) rest))"

declare discard_loop.simps [simp del]

definition DiscardObsoleteFramesIfNeed :: "FrameRetainer \<Rightarrow> FrameRetainer" where
  "DiscardObsoleteFramesIfNeed st =
     (if fr_totalSizeByByte st \<le> RETAIN_MAX_CAPACITY then st
      else
        let discardOrder = fold (\<lambda>(l, t, i, w). smap_insert i (l, t)) (all_works (fr_retainWorkPool st)) [];
            (st, shrink) = discard_loop st discardOrder
        in if shrink then ShrinkRetainWorkPool st else st)"

text \<open>
  \<^verbatim>\<open>RetainFrame\<close>: the oldest frame of the label and target makes room if there are too many of them,
  the new one is added, and obsolete frames are discarded.
\<close>

definition evict_oldest :: "FrameRetainer \<Rightarrow> LabelType \<Rightarrow> string \<Rightarrow> FrameRetainer" where
  "evict_oldest st l t =
     (let perLabelPerTarget = rp_get (fr_retainWorkPool st) l t
      in if length perLabelPerTarget \<ge> MAX_RETAIN_FRAME_PER_LABEL_PER_TARGET
         then (forget (snd (hd perLabelPerTarget)) st)\<lparr>fr_retainWorkPool :=
                rp_set (fr_retainWorkPool st) l t (tl perLabelPerTarget)\<rparr>
         else st\<lparr>fr_retainWorkPool := rp_set (fr_retainWorkPool st) l t perLabelPerTarget\<rparr>)"

definition add_work :: "FrameRetainer \<Rightarrow> LabelType \<Rightarrow> string \<Rightarrow> RetainWork \<Rightarrow> FrameRetainer" where
  "add_work st l t work =
     st\<lparr>fr_retainWorkPool := rp_set (fr_retainWorkPool st) l t
          (smap_insert (fr_incRetainOrder st) work (rp_get (fr_retainWorkPool st) l t)),
        fr_incRetainOrder := wrap64 (fr_incRetainOrder st + 1),
        fr_totalSizeByByte := wrap32 (fr_totalSizeByByte st + GetSize (rw_buffer work)),
        fr_totalRetainFrames := wrap32 (fr_totalRetainFrames st + 1)\<rparr>"

definition RetainFrame :: "allocator \<Rightarrow> FrameRetainer \<Rightarrow> FrameInfo \<Rightarrow> FrameRetainer" where
  "RetainFrame al st inFrame =
     (case fi_buffer inFrame of
        None \<Rightarrow> st
      | Some buf \<Rightarrow>
          if GetSize buf > MAX_RETAIN_FRAME_SIZE then st
          else
            let (b, e) = ConvertForCrossThread al buf
            in if e \<noteq> E_OK then st
               else
                 let work = \<lparr>rw_buffer = b, rw_frameId = fi_frameId inFrame, rw_remainTime = MAX_RETAIN_TIME\<rparr>;
                     l = fi_commLabel inFrame; t = fi_srcTarget inFrame
                 in DiscardObsoleteFramesIfNeed (add_work (evict_oldest st l t) l t work))"

text \<open>The frames of one label by retention order.\<close>

definition FetchFramesForSpecificCommunicator ::
    "FrameRetainer \<Rightarrow> LabelType \<Rightarrow> FrameRetainer \<times> FrameInfo list" where
  "FetchFramesForSpecificCommunicator st inCommLabel =
     (case map_of (fr_retainWorkPool st) inCommLabel of
        None \<Rightarrow> (st, [])
      | Some perLabel \<Rightarrow>
          let fetchOrder = fold (\<lambda>(t, fm). fold (\<lambda>(i, w). smap_insert i t) fm) perLabel [];
              works = concat (map (\<lambda>(i, t). case map_of (smap_get [] perLabel t) i of
                                      None \<Rightarrow> [] | Some w \<Rightarrow> [(t, w)]) fetchOrder);
              outFrameList = map (\<lambda>(t, w). \<lparr>fi_buffer = Some (rw_buffer w), fi_srcTarget = t,
                                            fi_commLabel = inCommLabel, fi_frameId = rw_frameId w\<rparr>) works;
              st = fold (\<lambda>(t, w). forget w) works st
          in (st\<lparr>fr_retainWorkPool := smap_erase inCommLabel (fr_retainWorkPool st)\<rparr>, outFrameList))"

text \<open>One round of the timer: one second less, and overtime works are discarded.\<close>

definition tick_map :: "frame_map \<Rightarrow> frame_map" where
  "tick_map fm = filter (\<lambda>(i, w). rw_remainTime w \<noteq> 0)
     (map (\<lambda>(i, w). (i, w\<lparr>rw_remainTime := sub32 (rw_remainTime w) 1\<rparr>)) fm)"

definition Retainer_PeriodicalSurveillance :: "FrameRetainer \<Rightarrow> FrameRetainer" where
  "Retainer_PeriodicalSurveillance st =
     (let overtime = filter (\<lambda>(l, t, i, w). sub32 (rw_remainTime w) 1 = 0) (all_works (fr_retainWorkPool st));
          st = fold (\<lambda>(l, t, i, w). forget w) overtime st
      in ShrinkRetainWorkPool (st\<lparr>fr_retainWorkPool :=
           map (\<lambda>(l, tm). (l, map (\<lambda>(t, fm). (t, tick_map fm)) tm)) (fr_retainWorkPool st)\<rparr>))"

section \<open>The pool as a function of label and target\<close>

definition rp_inv :: "retain_pool \<Rightarrow> bool" where
  "rp_inv pool \<longleftrightarrow> smap_inv pool \<and>
     (\<forall>(l, tm) \<in> set pool. smap_inv tm \<and> (\<forall>(t, fm) \<in> set tm. smap_inv fm))"

lemma rp_invD:
  assumes "rp_inv pool" and "(l, tm) \<in> set pool"
  shows "smap_inv tm" "(t, fm) \<in> set tm \<Longrightarrow> smap_inv fm"
  using assms by (auto simp: rp_inv_def)

lemma rp_invI:
  assumes "smap_inv pool" and "\<And>l tm. (l, tm) \<in> set pool \<Longrightarrow> smap_inv tm"
    and "\<And>l tm t fm. (l, tm) \<in> set pool \<Longrightarrow> (t, fm) \<in> set tm \<Longrightarrow> smap_inv fm"
  shows "rp_inv pool"
  using assms by (fastforce simp: rp_inv_def)

lemma in_smap_get: "x \<in> set (smap_get [] m k) \<Longrightarrow> \<exists>v. (k, v) \<in> set m \<and> x \<in> set v"
  by (cases "map_of m k") (auto simp: smap_get_def dest: map_of_SomeD)

lemma rp_inv_inner:
  assumes "rp_inv pool"
  shows "smap_inv pool" "smap_inv (smap_get [] pool l)" "smap_inv (rp_get pool l t)"
proof -
  have nil: "smap_inv ([] :: ('a::linorder, 'b) smap)" by (simp add: smap_inv_def)
  show "smap_inv pool" using assms by (simp add: rp_inv_def)
  show "smap_inv (smap_get [] pool l)"
    using rp_invD(1) [OF assms] nil by (cases "map_of pool l") (auto simp: smap_get_def dest: map_of_SomeD)
  have "smap_inv fm" if "(t, fm) \<in> set (smap_get [] pool l)" for fm
    using in_smap_get [OF that] rp_invD(2) [OF assms] by blast
  then show "smap_inv (rp_get pool l t)"
    using nil by (cases "map_of (smap_get [] pool l) t")
      (auto simp: rp_get_def smap_get_def [of "[]" "smap_get [] pool l"] dest: map_of_SomeD)
qed

lemma rp_get_set:
  assumes "rp_inv pool"
  shows "rp_get (rp_set pool l t fm) l' t' = (if l' = l \<and> t' = t then fm else rp_get pool l' t')"
  using rp_inv_inner [OF assms] by (simp add: rp_get_def rp_set_def smap_get_insert)

lemma rp_inv_set:
  assumes "rp_inv pool" and "smap_inv fm"
  shows "rp_inv (rp_set pool l t fm)"
proof -
  note i = rp_inv_inner [OF assms(1)]
  let ?tm = "smap_insert t fm (smap_get [] pool l)"
  have new: "smap_inv ?tm" "(t', fm') \<in> set ?tm \<Longrightarrow> smap_inv fm'" for t' fm'
  proof -
    have "smap_inv fm'" if "(t', fm') \<in> set (smap_get [] pool l)" for t' fm'
      using in_smap_get [OF that] rp_invD(2) [OF assms(1)] by blast
    then show "smap_inv ?tm" "(t', fm') \<in> set ?tm \<Longrightarrow> smap_inv fm'"
      using i(2) [of l] assms(2) by (auto simp: smap_inv_insert smap_in_insert split: if_splits)
  qed
  show ?thesis
    unfolding rp_set_def
  proof (rule rp_invI)
    show "smap_inv (smap_insert l ?tm pool)" using i(1) by (rule smap_inv_insert)
    fix l' tm assume "(l', tm) \<in> set (smap_insert l ?tm pool)"
    then have tm: "tm = ?tm \<or> (l', tm) \<in> set pool" using i(1) by (auto simp: smap_in_insert split: if_splits)
    then show "smap_inv tm" using new(1) rp_invD(1) [OF assms(1)] by blast
    show "smap_inv fm'" if "(t', fm') \<in> set tm" for t' fm'
      using tm that new(2) rp_invD(2) [OF assms(1)] by blast
  qed
qed

lemma in_all_works:
  assumes "rp_inv pool"
  shows "(l, t, i, w) \<in> set (all_works pool) \<longleftrightarrow> (i, w) \<in> set (rp_get pool l t)"
proof -
  have tm: "(l, tm) \<in> set pool \<longleftrightarrow> map_of pool l = Some tm" for tm
    using smap_find_mem [OF rp_inv_inner(1) [OF assms]] by simp
  have fm: "(t, fm) \<in> set (smap_get [] pool l) \<longleftrightarrow> map_of (smap_get [] pool l) t = Some fm" for fm
    using smap_find_mem [OF rp_inv_inner(2) [OF assms, of l]] by simp
  have "(l, t, i, w) \<in> set (all_works pool) \<longleftrightarrow>
      (\<exists>tm fm. (l, tm) \<in> set pool \<and> (t, fm) \<in> set tm \<and> (i, w) \<in> set fm)"
    by (fastforce simp: all_works_def)
  also have "\<dots> \<longleftrightarrow> (\<exists>fm. (t, fm) \<in> set (smap_get [] pool l) \<and> (i, w) \<in> set fm)"
    by (cases "map_of pool l") (auto simp: tm smap_get_def)
  also have "\<dots> \<longleftrightarrow> (i, w) \<in> set (rp_get pool l t)"
    by (cases "map_of (smap_get [] pool l) t") (auto simp: fm rp_get_def smap_get_def [of "[]" "smap_get [] pool l"])
  finally show ?thesis .
qed

lemma in_works_rp_set:
  assumes "rp_inv pool" and "smap_inv fm"
  shows "(l', t', i, w) \<in> set (all_works (rp_set pool l t fm)) \<longleftrightarrow>
    (if l' = l \<and> t' = t then (i, w) \<in> set fm else (l', t', i, w) \<in> set (all_works pool))"
  using in_all_works [OF rp_inv_set [OF assms]] in_all_works [OF assms(1)] rp_get_set [OF assms(1)] by auto

lemma distinct_concat_map_keys:
  assumes "distinct (map fst m)" and "\<And>k v. (k, v) \<in> set m \<Longrightarrow> distinct (f k v)"
    and "\<And>k v x. (k, v) \<in> set m \<Longrightarrow> x \<in> set (f k v) \<Longrightarrow> key x = k"
  shows "distinct (concat (map (\<lambda>(k, v). f k v) m))"
  using assms
proof (induction m)
  case (Cons e m)
  obtain k v where e: "e = (k, v)" by (cases e)
  have "distinct (concat (map (\<lambda>(k, v). f k v) m))"
  proof (rule Cons.IH)
    show "distinct (map fst m)" using Cons.prems(1) by simp
    show "distinct (f k v)" if "(k, v) \<in> set m" for k v using Cons.prems(2) [of k v] that by simp
    show "key x = k" if "(k, v) \<in> set m" "x \<in> set (f k v)" for k v x using Cons.prems(3) [of k v x] that by simp
  qed
  moreover have "set (f k v) \<inter> set (concat (map (\<lambda>(k, v). f k v) m)) = {}"
  proof (rule ccontr)
    assume "set (f k v) \<inter> set (concat (map (\<lambda>(k, v). f k v) m)) \<noteq> {}"
    then obtain x j u where x: "x \<in> set (f k v)" "(j, u) \<in> set m" "x \<in> set (f j u)" by auto
    then have "k = j" using Cons.prems(3) [of k v x] Cons.prems(3) [of j u x] e by auto
    then show False using Cons.prems(1) x(2) e by (auto simp: image_iff)
  qed
  ultimately show ?case using Cons.prems(2) [of k v] e by simp
qed simp

lemma distinct_all_works:
  assumes "rp_inv pool"
  shows "distinct (all_works pool)"
  unfolding all_works_def
proof (rule distinct_concat_map_keys [where key = fst])
  show "distinct (map fst pool)" using smap_inv_distinct [OF rp_inv_inner(1) [OF assms]] .
next
  fix l tm assume l: "(l, tm) \<in> set pool"
  then have tm: "smap_inv tm" "\<And>t fm. (t, fm) \<in> set tm \<Longrightarrow> smap_inv fm" using assms by (fastforce simp: rp_inv_def)+
  show "distinct (concat (map (\<lambda>(t, fm). map (\<lambda>(i, w). (l, t, i, w)) fm) tm))"
  proof (rule distinct_concat_map_keys [where key = "fst \<circ> snd"])
    show "distinct (map fst tm)" by (rule smap_inv_distinct [OF tm(1)])
  next
    fix t fm assume "(t, fm) \<in> set tm"
    then have "distinct fm" using smap_inv_distinct [OF tm(2)] by (simp add: distinct_map)
    then show "distinct (map (\<lambda>(i, w). (l, t, i, w)) fm)" by (auto simp: distinct_map inj_on_def)
  qed auto
qed auto

section \<open>The invariant\<close>

abbreviation works :: "FrameRetainer \<Rightarrow> retained set" where
  "works st \<equiv> set (all_works (fr_retainWorkPool st))"

definition ret_order :: "retained \<Rightarrow> nat" where "ret_order x = fst (snd (snd x))"
definition ret_size :: "retained \<Rightarrow> nat" where "ret_size x = GetSize (rw_buffer (snd (snd (snd x))))"
definition ret_remain :: "retained \<Rightarrow> nat" where "ret_remain x = rw_remainTime (snd (snd (snd x)))"

lemma ret_simps [simp]:
  "ret_order (l, t, i, w) = i" "ret_size (l, t, i, w) = GetSize (rw_buffer w)"
  "ret_remain (l, t, i, w) = rw_remainTime w"
  by (simp_all add: ret_order_def ret_size_def ret_remain_def)

text \<open>The statistics are exact, and every work is within its limits.\<close>

definition stats_ok :: "FrameRetainer \<Rightarrow> bool" where
  "stats_ok st \<longleftrightarrow> rp_inv (fr_retainWorkPool st) \<and> fr_totalSizeByByte st = sum ret_size (works st) \<and>
     fr_totalSizeByByte st < 4294967296 \<and> fr_totalRetainFrames st = wrap32 (card (works st))"

definition works_ok :: "FrameRetainer \<Rightarrow> bool" where
  "works_ok st \<longleftrightarrow> inj_on ret_order (works st) \<and>
     (\<forall>x \<in> works st. ret_order x < fr_incRetainOrder st \<and> ret_size x \<le> MAX_RETAIN_FRAME_SIZE \<and>
        0 < ret_remain x \<and> ret_remain x \<le> MAX_RETAIN_TIME) \<and>
     (\<forall>l t. length (rp_get (fr_retainWorkPool st) l t) \<le> MAX_RETAIN_FRAME_PER_LABEL_PER_TARGET)"

definition retainer_inv :: "FrameRetainer \<Rightarrow> bool" where
  "retainer_inv st \<longleftrightarrow> stats_ok st \<and> works_ok st \<and> fr_totalSizeByByte st \<le> RETAIN_MAX_CAPACITY"

text \<open>Taking works out of the pool and subtracting them from the statistics.\<close>

lemma sub32_wrap: "k \<le> n \<Longrightarrow> sub32 (wrap32 n) k = wrap32 (n - k)"
proof -
  assume "k \<le> n"
  have "sub32 (wrap32 n) k = (n + (4294967296 - k mod 4294967296)) mod 4294967296"
    by (simp only: sub32_def mod_add_left_eq)
  also have "n + (4294967296 - k mod 4294967296) = (n - k) + (k - k mod 4294967296) + 4294967296"
    using \<open>k \<le> n\<close> mod_less_eq_dividend [of k 4294967296] mod_less_divisor [of 4294967296 k] by linarith
  also have "\<dots> mod 4294967296 = (n - k) mod 4294967296"
    by (simp add: minus_mod_eq_mult_div mod_add_left_eq)
  finally show ?thesis .
qed

lemma forget_fields [simp]:
  "fr_retainWorkPool (forget w st) = fr_retainWorkPool st" "fr_incRetainOrder (forget w st) = fr_incRetainOrder st"
  "fr_totalSizeByByte (forget w st) = sub32 (fr_totalSizeByByte st) (GetSize (rw_buffer w))"
  "fr_totalRetainFrames (forget w st) = sub32 (fr_totalRetainFrames st) 1"
  by (simp_all add: forget_def)

lemma works_erase:
  assumes "rp_inv pool" and "map_of (rp_get pool l t) i = Some w"
  shows "set (all_works (rp_set pool l t (smap_erase i (rp_get pool l t)))) = set (all_works pool) - {(l, t, i, w)}"
proof -
  have g: "smap_inv (rp_get pool l t)" by (rule rp_inv_inner(3) [OF assms(1)])
  have w: "(i, w') \<in> set (rp_get pool l t) \<longleftrightarrow> w' = w" for w'
    using smap_find_mem [OF g, of i w'] assms(2) by auto
  show ?thesis
  proof (rule set_eqI)
    fix x :: retained
    obtain l' t' j v where x: "x = (l', t', j, v)" by (cases x)
    show "x \<in> set (all_works (rp_set pool l t (smap_erase i (rp_get pool l t)))) \<longleftrightarrow>
        x \<in> set (all_works pool) - {(l, t, i, w)}"
      unfolding x in_works_rp_set [OF assms(1) smap_inv_erase [OF g]] Diff_iff in_all_works [OF assms(1)] smap_in_erase
      using w [of v] by auto
  qed
qed

lemma works_insert:
  assumes "rp_inv pool" and "map_of (rp_get pool l t) i = None"
  shows "set (all_works (rp_set pool l t (smap_insert i w (rp_get pool l t)))) = insert (l, t, i, w) (set (all_works pool))"
proof -
  have g: "smap_inv (rp_get pool l t)" by (rule rp_inv_inner(3) [OF assms(1)])
  have n: "(i, w') \<notin> set (rp_get pool l t)" for w'
    using smap_find_mem [OF g, of i w'] assms(2) by auto
  show ?thesis
  proof (rule set_eqI)
    fix x :: retained
    obtain l' t' j v where x: "x = (l', t', j, v)" by (cases x)
    show "x \<in> set (all_works (rp_set pool l t (smap_insert i w (rp_get pool l t)))) \<longleftrightarrow>
        x \<in> insert (l, t, i, w) (set (all_works pool))"
      unfolding x in_works_rp_set [OF assms(1) smap_inv_insert [OF g]] insert_iff in_all_works [OF assms(1)]
        smap_in_insert [OF g]
      using n [of v] by auto
  qed
qed

text \<open>Removing a work, together with its share of the statistics, keeps the invariants.\<close>

lemma stats_ok_forget:
  assumes "stats_ok st" and "x \<in> works st" and "x = (l, t, i, w)"
    and "rp_inv pool" and "set (all_works pool) = works st - {x}"
  shows "stats_ok ((forget w st)\<lparr>fr_retainWorkPool := pool\<rparr>)"
    "fr_totalSizeByByte (forget w st) = fr_totalSizeByByte st - ret_size x" "ret_size x \<le> fr_totalSizeByByte st"
proof -
  have s: "sum ret_size (works st) = ret_size x + sum ret_size (works st - {x})"
    using assms(2) by (simp add: sum.remove)
  show le: "ret_size x \<le> fr_totalSizeByByte st" using assms(1) s by (simp add: stats_ok_def)
  then show "fr_totalSizeByByte (forget w st) = fr_totalSizeByByte st - ret_size x"
    using assms(1,3) by (simp add: stats_ok_def)
  moreover have "0 < card (works st)" using assms(2) by (auto simp: card_gt_0_iff)
  ultimately show "stats_ok ((forget w st)\<lparr>fr_retainWorkPool := pool\<rparr>)"
    using assms s le sub32_wrap [of 1 "card (works st)"] by (simp add: stats_ok_def)
qed

lemma works_ok_subset:
  assumes "works_ok st" and "works st' \<subseteq> works st" and "fr_incRetainOrder st' = fr_incRetainOrder st"
    and "\<And>l t. length (rp_get (fr_retainWorkPool st') l t) \<le> length (rp_get (fr_retainWorkPool st) l t)"
  shows "works_ok st'"
  using assms inj_on_subset [OF _ assms(2)] le_trans [OF assms(4)] by (auto simp: works_ok_def)

lemma Shrink_get:
  assumes "rp_inv (fr_retainWorkPool st)"
  shows "rp_get (fr_retainWorkPool (ShrinkRetainWorkPool st)) l t = rp_get (fr_retainWorkPool st) l t"
proof -
  let ?p = "fr_retainWorkPool st" and ?f = "filter (\<lambda>(t, fm). fm \<noteq> []) :: (string, frame_map) smap \<Rightarrow> _"
  have d: "distinct (map fst (map (\<lambda>(l, tm). (l, ?f tm)) ?p))"
    using rp_inv_inner(1) [OF assms] by (intro smap_inv_distinct) simp
  have "smap_get [] (fr_retainWorkPool (ShrinkRetainWorkPool st)) l = ?f (smap_get [] ?p l)"
    using smap_get_nonempty [OF d] smap_get_map [of ?f "[]" ?p l] by (simp add: ShrinkRetainWorkPool_def)
  then show ?thesis
    using smap_get_nonempty [OF smap_inv_distinct [OF rp_inv_inner(2) [OF assms]]] by (simp add: rp_get_def)
qed

lemma Shrink_inv:
  assumes "rp_inv (fr_retainWorkPool st)"
  shows "rp_inv (fr_retainWorkPool (ShrinkRetainWorkPool st))"
proof (rule rp_invI)
  let ?p = "fr_retainWorkPool st" and ?f = "filter (\<lambda>(t, fm). fm \<noteq> []) :: (string, frame_map) smap \<Rightarrow> _"
  show "smap_inv (fr_retainWorkPool (ShrinkRetainWorkPool st))"
    using rp_inv_inner(1) [OF assms] by (simp add: ShrinkRetainWorkPool_def smap_inv_filter)
  fix l tm assume "(l, tm) \<in> set (fr_retainWorkPool (ShrinkRetainWorkPool st))"
  then obtain tm0 where tm0: "(l, tm0) \<in> set ?p" "tm = ?f tm0" by (auto simp: ShrinkRetainWorkPool_def)
  then show "smap_inv tm" using rp_invD(1) [OF assms tm0(1)] by (simp add: smap_inv_filter)
  show "smap_inv fm" if "(t, fm) \<in> set tm" for t fm using rp_invD(2) [OF assms tm0(1)] that tm0(2) by auto
qed

lemma Shrink_works:
  assumes "rp_inv (fr_retainWorkPool st)"
  shows "works (ShrinkRetainWorkPool st) = works st"
proof (rule set_eqI)
  fix x :: retained
  obtain l t i w where x: "x = (l, t, i, w)" by (cases x)
  show "x \<in> works (ShrinkRetainWorkPool st) \<longleftrightarrow> x \<in> works st"
    unfolding x in_all_works [OF Shrink_inv [OF assms]] in_all_works [OF assms] Shrink_get [OF assms] ..
qed

lemma Shrink_fields [simp]:
  "fr_incRetainOrder (ShrinkRetainWorkPool st) = fr_incRetainOrder st"
  "fr_totalSizeByByte (ShrinkRetainWorkPool st) = fr_totalSizeByByte st"
  "fr_totalRetainFrames (ShrinkRetainWorkPool st) = fr_totalRetainFrames st"
  by (simp_all add: ShrinkRetainWorkPool_def)

lemma Shrink_ok:
  "stats_ok st \<Longrightarrow> stats_ok (ShrinkRetainWorkPool st)"
  "stats_ok st \<Longrightarrow> works_ok st \<Longrightarrow> works_ok (ShrinkRetainWorkPool st)"
  by (auto simp: stats_ok_def Shrink_inv Shrink_works intro: works_ok_subset simp: Shrink_get)

section \<open>Discarding\<close>

definition discard_of :: "retained \<Rightarrow> nat \<times> LabelType \<times> string" where
  "discard_of x = (ret_order x, fst x, fst (snd x))"

text \<open>Works in the pool are discarded oldest first, and no more of them than needed.\<close>

definition discarded_oldest :: "retained set \<Rightarrow> retained set \<Rightarrow> bool" where
  "discarded_oldest W W' \<longleftrightarrow> W' \<subseteq> W \<and>
     (\<forall>x \<in> W - W'. (\<forall>y \<in> W'. ret_order x < ret_order y) \<and>
        RETAIN_MAX_CAPACITY < sum ret_size {y \<in> W. ret_order x \<le> ret_order y})"

lemma discarded_oldest_refl: "discarded_oldest W W" by (simp add: discarded_oldest_def)

lemma discarded_oldest_step:
  assumes d: "discarded_oldest (W - {x}) W'" and x: "x \<in> W" "\<And>y. y \<in> W - {x} \<Longrightarrow> ret_order x < ret_order y"
    and big: "RETAIN_MAX_CAPACITY < sum ret_size W"
  shows "discarded_oldest W W'"
  unfolding discarded_oldest_def
proof (intro conjI ballI)
  show "W' \<subseteq> W" using d by (auto simp: discarded_oldest_def)
  fix z assume z: "z \<in> W - W'"
  show "ret_order z < ret_order y" if "y \<in> W'" for y
    using d z x(2) [of y] that by (cases "z = x") (auto simp: discarded_oldest_def)
  show "RETAIN_MAX_CAPACITY < sum ret_size {y \<in> W. ret_order z \<le> ret_order y}"
  proof (cases "z = x")
    case True
    have "{y \<in> W. ret_order x \<le> ret_order y} = W" using x(2) less_imp_le by fastforce
    then show ?thesis using True big by simp
  next
    case False
    then have "{y \<in> W. ret_order z \<le> ret_order y} = {y \<in> W - {x}. ret_order z \<le> ret_order y}"
      using z x(2) [of z] by auto
    then show ?thesis using d z False by (auto simp: discarded_oldest_def)
  qed
qed

lemma discard_first:
  assumes "smap_inv (discard_of x # rest)" and "set (discard_of x # rest) = discard_of ` W"
    and "inj_on ret_order W" and "x \<in> W"
  shows "y \<in> W - {x} \<Longrightarrow> ret_order x < ret_order y" "set rest = discard_of ` (W - {x})"
proof -
  have later: "ret_order x < ret_order y" if "y \<in> W - {x}" for y
  proof -
    have "discard_of y \<in> set (discard_of x # rest)" unfolding assms(2) using that by blast
    moreover have "ret_order y \<noteq> ret_order x" using that assms(3,4) by (auto simp: inj_on_def)
    ultimately show ?thesis using assms(1) by (auto simp: smap_inv_def discard_of_def)
  qed
  then show "y \<in> W - {x} \<Longrightarrow> ret_order x < ret_order y" .
  have "discard_of x \<notin> set rest" using assms(1) by (auto simp: smap_inv_def)
  then have "set rest = discard_of ` W - {discard_of x}" using assms(2) by auto
  moreover have "discard_of y \<noteq> discard_of x" if "y \<in> W - {x}" for y
    using later [OF that] by (auto simp: discard_of_def)
  ultimately show "set rest = discard_of ` (W - {x})" by blast
qed

lemma discard_loop_ok:
  assumes "stats_ok st" "works_ok st" "smap_inv order" "set order = discard_of ` works st"
  shows "\<exists>st'. discard_loop st order = (st', True) \<and> stats_ok st' \<and> works_ok st' \<and>
    fr_totalSizeByByte st' \<le> RETAIN_MAX_CAPACITY \<and> fr_incRetainOrder st' = fr_incRetainOrder st \<and>
    discarded_oldest (works st) (works st')"
  using assms
proof (induction order arbitrary: st)
  case Nil
  then show ?case
    by (simp add: discard_loop.simps [of st] stats_ok_def discarded_oldest_refl)
next
  case (Cons e rest)
  show ?case
  proof (cases "fr_totalSizeByByte st \<le> RETAIN_MAX_CAPACITY")
    case True
    then show ?thesis using Cons.prems by (simp add: discard_loop.simps [of st] discarded_oldest_refl)
  next
    case False
    let ?p = "fr_retainWorkPool st"
    have inv: "rp_inv ?p" using Cons.prems(1) by (simp add: stats_ok_def)
    have "e \<in> discard_of ` works st" using Cons.prems(4) by auto
    then obtain x where x: "x \<in> works st" "e = discard_of x" by auto
    obtain l t i w where xt: "x = (l, t, i, w)" by (cases x)
    have m: "map_of (rp_get ?p l t) i = Some w"
      using x(1) in_all_works [OF inv] smap_find_mem [OF rp_inv_inner(3) [OF inv]] by (simp add: xt)
    define p' where "p' = rp_set ?p l t (smap_erase i (rp_get ?p l t))"
    have p': "rp_inv p'" "set (all_works p') = works st - {x}"
      using works_erase [OF inv m] rp_inv_set [OF inv smap_inv_erase [OF rp_inv_inner(3) [OF inv]]] by (simp_all add: p'_def xt)
    define st1 where "st1 = (forget w st)\<lparr>fr_retainWorkPool := p'\<rparr>"
    have st1: "stats_ok st1" "works_ok st1"
    proof -
      show "stats_ok st1" unfolding st1_def by (rule stats_ok_forget(1) [OF Cons.prems(1) x(1) xt p'])
      show "works_ok st1"
        by (rule works_ok_subset [OF Cons.prems(2)])
          (use p' in \<open>auto simp: st1_def p'_def rp_get_set [OF inv] smap_erase_def\<close>)
    qed
    have inj: "inj_on ret_order (works st)" using Cons.prems(2) by (simp add: works_ok_def)
    note first = discard_first [OF Cons.prems(3,4) [unfolded x(2)] inj x(1)]
    have "set rest = discard_of ` works st1" using first(2) p'(2) by (simp add: st1_def)
    moreover have "smap_inv rest" using Cons.prems(3) by (simp add: smap_inv_def)
    ultimately obtain st' where st': "discard_loop st1 rest = (st', True)" "stats_ok st'" "works_ok st'"
      "fr_totalSizeByByte st' \<le> RETAIN_MAX_CAPACITY" "fr_incRetainOrder st' = fr_incRetainOrder st1"
      "discarded_oldest (works st1) (works st')" using Cons.IH [OF st1] by blast
    have "discarded_oldest (works st) (works st')"
      by (rule discarded_oldest_step [OF _ x(1) first(1)])
        (use st'(6) p'(2) False Cons.prems(1) in \<open>auto simp: st1_def stats_ok_def\<close>)
    moreover have "discard_loop st (e # rest) = discard_loop st1 rest"
      using False m by (simp add: discard_loop.simps [of st] x(2) discard_of_def xt st1_def p'_def)
    ultimately show ?thesis using st' by (simp add: st1_def)
  qed
qed

lemma discard_order:
  assumes "rp_inv pool" and "inj_on ret_order (set (all_works pool))"
  shows "smap_inv (fold (\<lambda>(l, t, i, w). smap_insert i (l, t)) (all_works pool) [])"
    "set (fold (\<lambda>(l, t, i, w). smap_insert i (l, t)) (all_works pool) []) = discard_of ` set (all_works pool)"
proof -
  let ?xs = "map discard_of (all_works pool)"
  have "(\<lambda>(l, t, i, w). smap_insert i (l, t)) = (\<lambda>(k, v). smap_insert k v) \<circ> discard_of"
    by (auto simp: fun_eq_iff discard_of_def)
  then have eq: "fold (\<lambda>(l, t, i, w). smap_insert i (l, t)) (all_works pool) [] = fold (\<lambda>(k, v). smap_insert k v) ?xs []"
    by (simp only: fold_map)
  have nil: "smap_inv ([] :: (nat, LabelType \<times> string) smap)" by (simp add: smap_inv_def)
  have "map fst ?xs = map ret_order (all_works pool)" by (simp add: discard_of_def)
  then have "distinct (map fst ?xs)" using distinct_all_works [OF assms(1)] assms(2) by (simp only: distinct_map)
  then show "set (fold (\<lambda>(l, t, i, w). smap_insert i (l, t)) (all_works pool) []) = discard_of ` set (all_works pool)"
    using set_fold_insert [OF nil, of ?xs] by (simp add: eq)
  show "smap_inv (fold (\<lambda>(l, t, i, w). smap_insert i (l, t)) (all_works pool) [])"
    unfolding eq by (rule smap_inv_fold_insert [OF nil])
qed

lemma Discard_ok:
  assumes "stats_ok st" "works_ok st"
  shows "retainer_inv (DiscardObsoleteFramesIfNeed st) \<and>
    fr_incRetainOrder (DiscardObsoleteFramesIfNeed st) = fr_incRetainOrder st \<and>
    discarded_oldest (works st) (works (DiscardObsoleteFramesIfNeed st))"
proof (cases "fr_totalSizeByByte st \<le> RETAIN_MAX_CAPACITY")
  case True
  then show ?thesis using assms by (simp add: DiscardObsoleteFramesIfNeed_def retainer_inv_def discarded_oldest_refl)
next
  case False
  have inv: "rp_inv (fr_retainWorkPool st)" "inj_on ret_order (works st)"
    using assms by (simp_all add: stats_ok_def works_ok_def)
  obtain st' where st': "discard_loop st (fold (\<lambda>(l, t, i, w). smap_insert i (l, t)) (all_works (fr_retainWorkPool st)) [])
      = (st', True)" "stats_ok st'" "works_ok st'" "fr_totalSizeByByte st' \<le> RETAIN_MAX_CAPACITY"
    "fr_incRetainOrder st' = fr_incRetainOrder st" "discarded_oldest (works st) (works st')"
    using discard_loop_ok [OF assms discard_order [OF inv]] by blast
  moreover have "rp_inv (fr_retainWorkPool st')" using st'(2) by (simp add: stats_ok_def)
  ultimately show ?thesis
    using False by (simp add: DiscardObsoleteFramesIfNeed_def retainer_inv_def Shrink_ok Shrink_works)
qed

section \<open>Retaining\<close>

definition room_made :: "FrameRetainer \<Rightarrow> LabelType \<Rightarrow> string \<Rightarrow> FrameRetainer \<Rightarrow> bool" where
  "room_made st l t st' \<longleftrightarrow> stats_ok st' \<and> works_ok st' \<and> fr_totalSizeByByte st' \<le> RETAIN_MAX_CAPACITY \<and>
     length (rp_get (fr_retainWorkPool st') l t) < MAX_RETAIN_FRAME_PER_LABEL_PER_TARGET \<and>
     fr_incRetainOrder st' = fr_incRetainOrder st \<and> works st' \<subseteq> works st \<and>
     (\<forall>x \<in> works st - works st'. fst x = l \<and> fst (snd x) = t)"

lemma evict_full:
  assumes st: "retainer_inv st" and full: "rp_get (fr_retainWorkPool st) l t = (i, w) # rest"
    "MAX_RETAIN_FRAME_PER_LABEL_PER_TARGET \<le> length (rp_get (fr_retainWorkPool st) l t)"
  shows "room_made st l t (evict_oldest st l t)"
proof -
  let ?p = "fr_retainWorkPool st" and ?x = "(l, t, i, w)"
  have ok: "stats_ok st" "works_ok st" "fr_totalSizeByByte st \<le> RETAIN_MAX_CAPACITY" and inv: "rp_inv ?p"
    using st by (simp_all add: retainer_inv_def stats_ok_def)
  have fm: "smap_inv (rp_get ?p l t)" by (rule rp_inv_inner(3) [OF inv])
  have tl: "rest = smap_erase i (rp_get ?p l t)" using smap_tl [OF fm] by (simp add: full(1))
  define q where "q = rp_set ?p l t rest"
  have m: "map_of (rp_get ?p l t) i = Some w" by (simp add: full(1))
  have q: "rp_inv q" "set (all_works q) = works st - {?x}"
    unfolding q_def tl by (rule rp_inv_set [OF inv smap_inv_erase [OF fm]], rule works_erase [OF inv m])
  have eq: "evict_oldest st l t = (forget w st)\<lparr>fr_retainWorkPool := q\<rparr>"
    using full by (simp add: evict_oldest_def q_def)
  have x: "?x \<in> works st" using in_all_works [OF inv] by (simp add: full(1))
  note fg = stats_ok_forget [OF ok(1) x refl q]
  have get: "rp_get q l' t' = (if l' = l \<and> t' = t then rest else rp_get ?p l' t')" for l' t'
    by (simp add: q_def rp_get_set [OF inv])
  have "length (rp_get ?p l t) \<le> MAX_RETAIN_FRAME_PER_LABEL_PER_TARGET" using ok(2) by (simp add: works_ok_def)
  then have len: "length rest < MAX_RETAIN_FRAME_PER_LABEL_PER_TARGET" by (simp add: full(1))
  have "works_ok (evict_oldest st l t)"
    by (rule works_ok_subset [OF ok(2)]) (simp_all add: eq q(2) get full(1) Diff_subset)
  then show ?thesis
    unfolding room_made_def eq using fg(1,2) ok(3) len by (auto simp: q(2) get)
qed

lemma evict_room:
  assumes st: "retainer_inv st" and room: "\<not> MAX_RETAIN_FRAME_PER_LABEL_PER_TARGET \<le> length (rp_get (fr_retainWorkPool st) l t)"
  shows "room_made st l t (evict_oldest st l t)"
proof -
  let ?p = "fr_retainWorkPool st"
  have ok: "stats_ok st" "works_ok st" "fr_totalSizeByByte st \<le> RETAIN_MAX_CAPACITY" and inv: "rp_inv ?p"
    using st by (simp_all add: retainer_inv_def stats_ok_def)
  have fm: "smap_inv (rp_get ?p l t)" by (rule rp_inv_inner(3) [OF inv])
  define q where "q = rp_set ?p l t (rp_get ?p l t)"
  have q: "rp_inv q" "rp_get q l' t' = rp_get ?p l' t'" for l' t'
    by (simp_all add: q_def rp_inv_set [OF inv fm] rp_get_set [OF inv])
  have w: "set (all_works q) = works st"
  proof (rule set_eqI)
    fix x :: retained
    obtain l' t' i w where x: "x = (l', t', i, w)" by (cases x)
    show "x \<in> set (all_works q) \<longleftrightarrow> x \<in> works st" unfolding x in_all_works [OF q(1)] in_all_works [OF inv] q(2) ..
  qed
  have eq: "evict_oldest st l t = st\<lparr>fr_retainWorkPool := q\<rparr>" using room by (simp add: evict_oldest_def q_def)
  have "stats_ok (evict_oldest st l t)" "works_ok (evict_oldest st l t)"
    using ok q by (simp_all add: eq stats_ok_def works_ok_def w)
  then show ?thesis unfolding room_made_def using ok(3) room by (simp add: eq q(2) w)
qed

lemma evict_ok: "retainer_inv st \<Longrightarrow> room_made st l t (evict_oldest st l t)"
  using evict_full [of st l t] evict_room [of st l t]
  by (cases "rp_get (fr_retainWorkPool st) l t") (auto simp: retain_consts)

text \<open>The new work joins the pool with the highest order.\<close>

lemma add_work_ok:
  assumes st: "room_made st0 l t st" and n: "fr_incRetainOrder st < 18446744073709551615"
    and w: "GetSize (rw_buffer w) \<le> MAX_RETAIN_FRAME_SIZE" "rw_remainTime w = MAX_RETAIN_TIME"
  shows "stats_ok (add_work st l t w)" "works_ok (add_work st l t w)"
    "works (add_work st l t w) = insert (l, t, fr_incRetainOrder st, w) (works st)"
    "fr_incRetainOrder (add_work st l t w) = Suc (fr_incRetainOrder st)"
proof -
  let ?p = "fr_retainWorkPool st" and ?n = "fr_incRetainOrder st" and ?st = "add_work st l t w"
  let ?x = "(l, t, ?n, w)" and ?fm = "smap_insert ?n w (rp_get ?p l t)"
  have ok: "stats_ok st" "works_ok st" "fr_totalSizeByByte st \<le> RETAIN_MAX_CAPACITY" and inv: "rp_inv ?p"
    using st by (simp_all add: room_made_def stats_ok_def)
  have fm: "smap_inv (rp_get ?p l t)" by (rule rp_inv_inner(3) [OF inv])
  have fresh: "ret_order x < ?n" if "x \<in> works st" for x using ok(2) that by (simp add: works_ok_def)
  have none: "map_of (rp_get ?p l t) ?n = None"
    using fresh [of "(l, t, ?n, v)" for v] in_all_works [OF inv] smap_find_mem [OF fm, of ?n]
    by (metis less_irrefl not_Some_eq ret_simps(1))
  show inc: "fr_incRetainOrder ?st = Suc ?n" using n by (simp add: add_work_def)
  show ws: "works ?st = insert ?x (works st)" using works_insert [OF inv none] by (simp add: add_work_def)
  have new: "?x \<notin> works st" using fresh [of ?x] by auto
  have total: "fr_totalSizeByByte st + GetSize (rw_buffer w) < 4294967296" using ok(3) w(1) by (simp add: retain_consts)
  show "stats_ok ?st"
    unfolding stats_ok_def ws using ok(1) new total rp_inv_set [OF inv smap_inv_insert [OF fm]]
    by (simp add: add_work_def stats_ok_def mod_Suc_eq)
  have len: "length (rp_get (fr_retainWorkPool ?st) l' t') \<le> MAX_RETAIN_FRAME_PER_LABEL_PER_TARGET" for l' t'
    using st ok(2) none by (auto simp: add_work_def rp_get_set [OF inv] length_smap_insert [OF fm] room_made_def works_ok_def)
  have inj: "inj_on ret_order (works ?st)"
    using ok(2) fresh unfolding ws inj_on_insert by (force simp: works_ok_def)
  show "works_ok ?st"
    unfolding works_ok_def inc
  proof (intro conjI ballI allI)
    fix x assume "x \<in> works ?st"
    then have x: "x = ?x \<or> x \<in> works st" using ws by simp
    show "ret_order x < Suc ?n" using x fresh [of x] by auto
    show "ret_size x \<le> MAX_RETAIN_FRAME_SIZE" "0 < ret_remain x" "ret_remain x \<le> MAX_RETAIN_TIME"
      using x w ok(2) by (auto simp: works_ok_def retain_consts)
  qed (use inj len in simp_all)
qed

lemma RetainFrame_accepted:
  assumes st: "retainer_inv st" and n: "fr_incRetainOrder st < 18446744073709551615"
    and fr: "fi_buffer fr = Some buf" "GetSize buf \<le> MAX_RETAIN_FRAME_SIZE" "ConvertForCrossThread al buf = (b, E_OK)"
    and x: "x = (fi_commLabel fr, fi_srcTarget fr, fr_incRetainOrder st,
      \<lparr>rw_buffer = b, rw_frameId = fi_frameId fr, rw_remainTime = MAX_RETAIN_TIME\<rparr>)"
  shows "retainer_inv (RetainFrame al st fr)" "fr_incRetainOrder (RetainFrame al st fr) = Suc (fr_incRetainOrder st)"
    "x \<in> works (RetainFrame al st fr)" "works (RetainFrame al st fr) \<subseteq> insert x (works st)"
    "y \<in> works (RetainFrame al st fr) \<Longrightarrow> y = x \<or> ret_order y < ret_order x"
    "\<exists>ev. room_made st (fi_commLabel fr) (fi_srcTarget fr) ev \<and>
      discarded_oldest (insert x (works ev)) (works (RetainFrame al st fr))"
proof -
  let ?l = "fi_commLabel fr" and ?t = "fi_srcTarget fr"
  define w where "w = \<lparr>rw_buffer = b, rw_frameId = fi_frameId fr, rw_remainTime = MAX_RETAIN_TIME\<rparr>"
  define ev where "ev = evict_oldest st ?l ?t"
  have rm: "room_made st ?l ?t ev" using evict_ok [OF st] by (simp add: ev_def)
  have inc: "fr_incRetainOrder ev = fr_incRetainOrder st" "works ev \<subseteq> works st" using rm by (simp_all add: room_made_def)
  have "GetSize b = GetSize buf"
    using fr(3) by (auto simp: ConvertForCrossThread_def GetSize_def split: option.splits)
  then have w: "GetSize (rw_buffer w) \<le> MAX_RETAIN_FRAME_SIZE" "rw_remainTime w = MAX_RETAIN_TIME"
    using fr(2) by (simp_all add: w_def)
  have n': "fr_incRetainOrder ev < 18446744073709551615" using n inc(1) by simp
  note add = add_work_ok [OF rm n' w]
  have eq: "RetainFrame al st fr = DiscardObsoleteFramesIfNeed (add_work ev ?l ?t w)"
    using fr by (simp add: RetainFrame_def ev_def w_def Let_def)
  have ws: "works (add_work ev ?l ?t w) = insert x (works ev)" using add(3) inc(1) by (simp add: x w_def)
  note dis = Discard_ok [OF add(1,2)]
  show "retainer_inv (RetainFrame al st fr)" "fr_incRetainOrder (RetainFrame al st fr) = Suc (fr_incRetainOrder st)"
    using dis add(4) inc(1) by (simp_all add: eq)
  have d: "discarded_oldest (insert x (works ev)) (works (RetainFrame al st fr))" using dis by (simp add: eq ws)
  then show "\<exists>ev. room_made st ?l ?t ev \<and> discarded_oldest (insert x (works ev)) (works (RetainFrame al st fr))"
    using rm by blast
  have sub: "works (RetainFrame al st fr) \<subseteq> insert x (works ev)" using d by (simp add: discarded_oldest_def)
  then show "works (RetainFrame al st fr) \<subseteq> insert x (works st)" using inc(2) by auto
  have older: "ret_order y < ret_order x" if "y \<in> works ev" for y
    using rm that inc(1) by (auto simp: room_made_def works_ok_def x)
  then show "y \<in> works (RetainFrame al st fr) \<Longrightarrow> y = x \<or> ret_order y < ret_order x" using sub by blast
  show "x \<in> works (RetainFrame al st fr)"
  proof (rule ccontr)
    assume "x \<notin> works (RetainFrame al st fr)"
    then have "RETAIN_MAX_CAPACITY < sum ret_size {y \<in> insert x (works ev). ret_order x \<le> ret_order y}"
      using d by (simp add: discarded_oldest_def)
    moreover have "{y \<in> insert x (works ev). ret_order x \<le> ret_order y} = {x}" using older by fastforce
    ultimately show False using w(1) by (simp add: x w_def retain_consts)
  qed
qed

lemma RetainFrame_cases:
  obtains "RetainFrame al st fr = st"
  | buf b where "fi_buffer fr = Some buf" "GetSize buf \<le> MAX_RETAIN_FRAME_SIZE" "ConvertForCrossThread al buf = (b, E_OK)"
proof (cases "RetainFrame al st fr = st")
  case False
  then obtain buf where buf: "fi_buffer fr = Some buf" "GetSize buf \<le> MAX_RETAIN_FRAME_SIZE"
    by (cases "fi_buffer fr") (auto simp: RetainFrame_def split: if_splits)
  obtain b e where b: "ConvertForCrossThread al buf = (b, e)" by (cases "ConvertForCrossThread al buf")
  have "e = E_OK" using False buf b by (auto simp: RetainFrame_def split: if_splits)
  then show thesis using that(2) buf b by blast
qed

lemma RetainFrame_ok:
  assumes "retainer_inv st" and "fr_incRetainOrder st < 18446744073709551615"
  shows "retainer_inv (RetainFrame al st fr) \<and> fr_incRetainOrder (RetainFrame al st fr) \<le> Suc (fr_incRetainOrder st)"
proof (cases rule: RetainFrame_cases [of al st fr])
  case 1
  then show ?thesis using assms by simp
next
  case (2 buf b)
  show ?thesis using RetainFrame_accepted(1,2) [OF assms 2 refl] by simp
qed

section \<open>Fetching\<close>

definition frame_of :: "retained \<Rightarrow> FrameInfo" where
  "frame_of x = (case x of (l, t, i, w) \<Rightarrow>
     \<lparr>fi_buffer = Some (rw_buffer w), fi_srcTarget = t, fi_commLabel = l, fi_frameId = rw_frameId w\<rparr>)"

abbreviation work_of :: "retained \<Rightarrow> RetainWork" where "work_of x \<equiv> snd (snd (snd x))"

lemma fold_forget:
  assumes "fr_totalSizeByByte st < 4294967296" and "sum_list (map (\<lambda>w. GetSize (rw_buffer w)) ws) \<le> fr_totalSizeByByte st"
    and "fr_totalRetainFrames st = wrap32 n" and "length ws \<le> n"
  shows "fr_retainWorkPool (fold forget ws st) = fr_retainWorkPool st \<and>
    fr_incRetainOrder (fold forget ws st) = fr_incRetainOrder st \<and>
    fr_totalSizeByByte (fold forget ws st) = fr_totalSizeByByte st - sum_list (map (\<lambda>w. GetSize (rw_buffer w)) ws) \<and>
    fr_totalRetainFrames (fold forget ws st) = wrap32 (n - length ws)"
  using assms
proof (induction ws arbitrary: st n)
  case (Cons w ws)
  have t: "sub32 (fr_totalSizeByByte st) (GetSize (rw_buffer w)) = fr_totalSizeByByte st - GetSize (rw_buffer w)"
    using Cons.prems by simp
  have c: "fr_totalRetainFrames (forget w st) = wrap32 (n - 1)"
    using Cons.prems sub32_wrap [of 1 n] by simp
  show ?case using Cons.IH [of "forget w st" "n - 1"] Cons.prems t c by simp
qed simp

lemma stats_ok_forget_all:
  assumes st: "stats_ok st" and xs: "set xs \<subseteq> works st" "distinct xs" and pool: "rp_inv pool"
    and eq: "sum ret_size (set (all_works pool)) = sum ret_size (works st - set xs)"
      "card (set (all_works pool)) = card (works st - set xs)"
  shows "stats_ok ((fold forget (map work_of xs) st)\<lparr>fr_retainWorkPool := pool\<rparr>)"
    "fr_totalSizeByByte (fold forget (map work_of xs) st) \<le> fr_totalSizeByByte st"
    "fr_incRetainOrder (fold forget (map work_of xs) st) = fr_incRetainOrder st"
    "fr_retainWorkPool (fold forget (map work_of xs) st) = fr_retainWorkPool st"
proof -
  have sz: "sum_list (map (\<lambda>w. GetSize (rw_buffer w)) (map work_of xs)) = sum ret_size (set xs)"
    unfolding sum_list_distinct_conv_sum_set [OF xs(2), of ret_size, symmetric]
    by (rule arg_cong [where f = sum_list]) (simp add: ret_size_def)
  have sum: "sum ret_size (works st - set xs) = sum ret_size (works st) - sum ret_size (set xs)"
    and le: "sum ret_size (set xs) \<le> sum ret_size (works st)"
    using xs(1) by (simp_all add: sum_diff_nat sum_mono2)
  have len: "length xs \<le> card (works st)" "card (works st - set xs) = card (works st) - length xs"
    using xs by (simp_all add: distinct_card [symmetric] card_mono card_Diff_subset)
  have f: "fr_retainWorkPool (fold forget (map work_of xs) st) = fr_retainWorkPool st \<and>
      fr_incRetainOrder (fold forget (map work_of xs) st) = fr_incRetainOrder st \<and>
      fr_totalSizeByByte (fold forget (map work_of xs) st) = fr_totalSizeByByte st - sum ret_size (set xs) \<and>
      fr_totalRetainFrames (fold forget (map work_of xs) st) = wrap32 (card (works st) - length xs)"
    using fold_forget [of st "map work_of xs" "card (works st)"] st le len(1) unfolding sz by (simp add: stats_ok_def)
  then show "fr_totalSizeByByte (fold forget (map work_of xs) st) \<le> fr_totalSizeByByte st"
    "fr_incRetainOrder (fold forget (map work_of xs) st) = fr_incRetainOrder st"
    "fr_retainWorkPool (fold forget (map work_of xs) st) = fr_retainWorkPool st" by simp_all
  show "stats_ok ((fold forget (map work_of xs) st)\<lparr>fr_retainWorkPool := pool\<rparr>)"
    using f st pool eq sum len(2) by (auto simp: stats_ok_def)
qed

text \<open>The works of a label, and the order in which they are fetched.\<close>

definition label_works :: "(string, frame_map) smap \<Rightarrow> (nat \<times> string) list" where
  "label_works perLabel = concat (map (\<lambda>(t, fm). map (\<lambda>(i, w). (i, t)) fm) perLabel)"

lemma fold_fetch:
  "fold (\<lambda>(t, fm). fold (\<lambda>(i, w). smap_insert i t) fm) perLabel m =
   fold (\<lambda>(k, v). smap_insert k v) (label_works perLabel) m"
proof -
  have inner: "fold (\<lambda>(i, w). smap_insert i t) fm m = fold (\<lambda>(k, v). smap_insert k v) (map (\<lambda>(i, w). (i, t)) fm) m"
    for t and fm :: frame_map and m by (induction fm arbitrary: m) auto
  show ?thesis by (induction perLabel arbitrary: m) (auto simp: label_works_def inner)
qed

lemma part_of_concat:
  "ys \<in> set xss \<Longrightarrow> distinct (concat xss) \<Longrightarrow> distinct ys"
  "ys \<in> set xss \<Longrightarrow> distinct (concat xss) \<Longrightarrow> set ys \<subseteq> set (concat xss)"
  by (auto simp: distinct_concat_iff)

lemma fetch_order:
  assumes st: "stats_ok st" "works_ok st" and l: "map_of (fr_retainWorkPool st) l = Some tm"
    and ord: "fetchOrder = fold (\<lambda>(t, fm). fold (\<lambda>(i, w). smap_insert i t) fm) tm []"
  shows "smap_inv fetchOrder" "(i, t) \<in> set fetchOrder \<longleftrightarrow> (\<exists>w. (l, t, i, w) \<in> works st)"
    "map_of (smap_get [] tm t) i = Some w \<longleftrightarrow> (l, t, i, w) \<in> works st"
proof -
  let ?p = "fr_retainWorkPool st"
  have inv: "rp_inv ?p" and inj: "inj_on ret_order (works st)" using st by (simp_all add: stats_ok_def works_ok_def)
  have tm: "smap_get [] ?p l = tm" using l by (simp add: smap_get_def)
  have get: "smap_get [] tm t = rp_get ?p l t" for t by (simp add: rp_get_def tm)
  show look: "map_of (smap_get [] tm t) i = Some w \<longleftrightarrow> (l, t, i, w) \<in> works st" for t i w
    using smap_find_mem [OF rp_inv_inner(3) [OF inv]] by (simp add: get in_all_works [OF inv])
  have stm: "smap_inv tm" using rp_inv_inner(2) [OF inv, of l] tm by simp
  have mem: "(i, t) \<in> set (label_works tm) \<longleftrightarrow> (\<exists>w. (l, t, i, w) \<in> works st)" for i t
  proof -
    have "(i, t) \<in> set (label_works tm) \<longleftrightarrow> (\<exists>fm w. (t, fm) \<in> set tm \<and> (i, w) \<in> set fm)"
      by (fastforce simp: label_works_def)
    also have "\<dots> \<longleftrightarrow> (\<exists>w. (i, w) \<in> set (smap_get [] tm t))"
      by (cases "map_of tm t") (auto simp: smap_get_def smap_find_mem [OF stm, symmetric])
    finally show ?thesis by (simp add: get in_all_works [OF inv])
  qed
  have "distinct (map fst (label_works tm))"
  proof -
    let ?xs = "concat (map (\<lambda>(t, fm). map (\<lambda>(i, w). (l, t, i, w)) fm) tm)"
    have "(l, tm) \<in> set ?p" using l by (rule map_of_SomeD)
    then have "?xs \<in> set (map (\<lambda>(l, tm). concat (map (\<lambda>(t, fm). map (\<lambda>(i, w). (l, t, i, w)) fm) tm)) ?p)" by force
    then have xs: "distinct ?xs" "set ?xs \<subseteq> works st"
      using part_of_concat [OF _ distinct_all_works [OF inv, unfolded all_works_def]] by (simp_all only: all_works_def)
    have "map fst (label_works tm) = map ret_order ?xs"
      by (simp add: label_works_def map_concat comp_def case_prod_unfold ret_order_def)
    then show ?thesis using xs inj_on_subset [OF inj xs(2)] by (simp only: distinct_map)
  qed
  then have "set fetchOrder = set (label_works tm)"
    using set_fold_insert [of "[]" "label_works tm"] by (simp add: ord fold_fetch smap_inv_def)
  then show "(i, t) \<in> set fetchOrder \<longleftrightarrow> (\<exists>w. (l, t, i, w) \<in> works st)" using mem by simp
  show "smap_inv fetchOrder" using smap_inv_fold_insert [of "[]"] by (simp add: ord fold_fetch smap_inv_def)
qed

lemma fetch_list:
  assumes st: "stats_ok st" "works_ok st" and l: "map_of (fr_retainWorkPool st) l = Some tm"
    and ord: "ord = fold (\<lambda>(t, fm). fold (\<lambda>(i, w). smap_insert i t) fm) tm []"
  obtains xs where "set xs = {x \<in> works st. fst x = l}" "sorted_wrt (<) (map ret_order xs)"
    "concat (map (\<lambda>(i, t). case map_of (smap_get [] tm t) i of None \<Rightarrow> [] | Some w \<Rightarrow> [(t, w)]) ord)
       = map (\<lambda>x. (fst (snd x), work_of x)) xs"
proof
  note o = fetch_order [OF st l ord]
  define entry where "entry = (\<lambda>(i, t). (l, t, i, the (map_of (smap_get [] tm t) i)))"
  have look: "\<exists>w. map_of (smap_get [] tm t) i = Some w \<and> entry (i, t) = (l, t, i, w) \<and> (l, t, i, w) \<in> works st"
    if e: "(i, t) \<in> set ord" for i t
  proof -
    obtain w where w: "(l, t, i, w) \<in> works st" using o(2) e by blast
    then have "map_of (smap_get [] tm t) i = Some w" using o(3) by simp
    then show ?thesis using w by (simp add: entry_def)
  qed
  show "concat (map (\<lambda>(i, t). case map_of (smap_get [] tm t) i of None \<Rightarrow> [] | Some w \<Rightarrow> [(t, w)]) ord)
       = map (\<lambda>x. (fst (snd x), work_of x)) (map entry ord)"
    using look by (induction ord) fastforce+
  have "x \<in> entry ` set ord" if x: "x \<in> works st" "fst x = l" for x
  proof -
    obtain t i w where xt: "x = (l, t, i, w)" using x(2) by (cases x) auto
    then have "(i, t) \<in> set ord" using x(1) o(2) by blast
    moreover have "x = entry (i, t)" using o(3) [of t i w] x(1) by (simp add: xt entry_def)
    ultimately show ?thesis by (rule rev_image_eqI)
  qed
  then show "set (map entry ord) = {x \<in> works st. fst x = l}" using look by fastforce
  have "map ret_order (map entry ord) = map fst ord" by (auto simp: entry_def)
  then show "sorted_wrt (<) (map ret_order (map entry ord))" using o(1) by (simp only: smap_inv_def)
qed

lemma erase_label:
  assumes "rp_inv pool"
  shows "rp_inv (smap_erase l pool)" "set (all_works (smap_erase l pool)) = set (all_works pool) - {x. fst x = l}"
    "rp_get (smap_erase l pool) l' t' = (if l' = l then [] else rp_get pool l' t')"
proof -
  show get: "rp_get (smap_erase l pool) l' t' = (if l' = l then [] else rp_get pool l' t')" for l' t'
    by (auto simp: rp_get_def smap_get_def map_of_smap_erase)
  show q: "rp_inv (smap_erase l pool)"
    using rp_invD [OF assms] rp_inv_inner(1) [OF assms] by (intro rp_invI smap_inv_erase) (auto simp: smap_in_erase)
  show "set (all_works (smap_erase l pool)) = set (all_works pool) - {x. fst x = l}"
  proof (rule set_eqI)
    fix x :: retained
    obtain l' t' i w where x: "x = (l', t', i, w)" by (cases x)
    show "x \<in> set (all_works (smap_erase l pool)) \<longleftrightarrow> x \<in> set (all_works pool) - {x. fst x = l}"
      by (simp add: x in_all_works [OF q] get in_all_works [OF assms])
  qed
qed

lemma Fetch_ok:
  assumes st: "retainer_inv st"
  shows "\<exists>xs. set xs = {x \<in> works st. fst x = l} \<and> sorted_wrt (<) (map ret_order xs) \<and>
    snd (FetchFramesForSpecificCommunicator st l) = map frame_of xs \<and>
    works (fst (FetchFramesForSpecificCommunicator st l)) = works st - {x. fst x = l} \<and>
    retainer_inv (fst (FetchFramesForSpecificCommunicator st l)) \<and>
    fr_incRetainOrder (fst (FetchFramesForSpecificCommunicator st l)) = fr_incRetainOrder st"
proof (cases "map_of (fr_retainWorkPool st) l")
  case None
  have inv: "rp_inv (fr_retainWorkPool st)" using st by (simp add: retainer_inv_def stats_ok_def)
  have "x \<notin> works st" if fx: "fst x = l" for x
  proof -
    obtain t i w where "x = (l, t, i, w)" using fx by (cases x) auto
    then show ?thesis using None by (simp add: in_all_works [OF inv] rp_get_def smap_get_def)
  qed
  then show ?thesis using st None by (intro exI [of _ "[]"]) (auto simp: FetchFramesForSpecificCommunicator_def)
next
  case (Some tm)
  let ?p = "fr_retainWorkPool st"
  have ok: "stats_ok st" "works_ok st" "fr_totalSizeByByte st \<le> RETAIN_MAX_CAPACITY" and inv: "rp_inv ?p"
    using st by (simp_all add: retainer_inv_def stats_ok_def)
  define ord where "ord = fold (\<lambda>(t, fm). fold (\<lambda>(i, w). smap_insert i t) fm) tm []"
  obtain xs where set: "set xs = {x \<in> works st. fst x = l}" and srt: "sorted_wrt (<) (map ret_order xs)"
    and ws: "concat (map (\<lambda>(i, t). case map_of (smap_get [] tm t) i of None \<Rightarrow> [] | Some w \<Rightarrow> [(t, w)]) ord)
       = map (\<lambda>x. (fst (snd x), work_of x)) xs"
    by (rule fetch_list [OF ok(1,2) Some ord_def])
  have dist: "distinct xs" using srt strict_sorted_iff distinct_map by blast
  note q = erase_label [OF inv, where l = l]
  have w: "set (all_works (smap_erase l ?p)) = works st - set xs" using q(2) set by auto
  let ?st = "(fold forget (map work_of xs) st)\<lparr>fr_retainWorkPool := smap_erase l ?p\<rparr>"
  have sub: "set xs \<subseteq> works st" using set by auto
  note fa = stats_ok_forget_all [OF ok(1) sub dist q(1) arg_cong [OF w] arg_cong [OF w]]
  have "map (\<lambda>(t, w). \<lparr>fi_buffer = Some (rw_buffer w), fi_srcTarget = t, fi_commLabel = l, fi_frameId = rw_frameId w\<rparr>)
      (map (\<lambda>x. (fst (snd x), work_of x)) xs) = map frame_of xs"
    using set by (auto simp: frame_of_def)
  moreover have "fold (\<lambda>(t, w). forget w) (map (\<lambda>x. (fst (snd x), work_of x)) xs) st = fold forget (map work_of xs) st"
    by (simp add: fold_map comp_def)
  ultimately have fetch: "FetchFramesForSpecificCommunicator st l = (?st, map frame_of xs)"
    using Some fa(4) by (simp only: FetchFramesForSpecificCommunicator_def option.case Let_def ord_def [symmetric] ws)
  have "works_ok ?st" by (rule works_ok_subset [OF ok(2)]) (auto simp: fa(3) w q(3))
  then show ?thesis using fa ok(3) set srt q(2) by (intro exI [of _ xs]) (auto simp: fetch retainer_inv_def)
qed

end
