(* ===== verification/Frame_Retention.thy ===== *)
theory Frame_Retention
  imports Frame_Retainer
begin

text \<open>
  What the frame retainer guarantees in every state it can reach: exact statistics within the limits,
  frames fetched in the order of their retention, obsolete frames discarded oldest first, and frames
  dropped when their time is over.
\<close>

section \<open>The surveillance\<close>

definition aged :: "nat \<Rightarrow> retained \<Rightarrow> retained" where
  "aged k x = (case x of (l, t, i, w) \<Rightarrow> (l, t, i, w\<lparr>rw_remainTime := rw_remainTime w - k\<rparr>))"

lemma aged_simps [simp]:
  "aged k (l, t, i, w) = (l, t, i, w\<lparr>rw_remainTime := rw_remainTime w - k\<rparr>)"
  "ret_order (aged k x) = ret_order x" "ret_size (aged k x) = ret_size x" "ret_remain (aged k x) = ret_remain x - k"
  "aged 0 x = x" "aged j (aged k x) = aged (k + j) x"
  by (cases x, simp add: aged_def)+

definition ticked :: "retain_pool \<Rightarrow> retain_pool" where
  "ticked pool = map (\<lambda>(l, tm). (l, map (\<lambda>(t, fm). (t, tick_map fm)) tm)) pool"

lemma smap_inv_tick: "smap_inv fm \<Longrightarrow> smap_inv (tick_map fm)"
  unfolding tick_map_def by (rule smap_inv_filter) simp

lemma ticked_get: "rp_get (ticked pool) l t = tick_map (rp_get pool l t)"
proof -
  have "smap_get [] (ticked pool) l = map (\<lambda>(t, fm). (t, tick_map fm)) (smap_get [] pool l)"
    unfolding ticked_def by (rule smap_get_map) simp
  then show ?thesis unfolding rp_get_def by (simp add: smap_get_map tick_map_def [of "[]"])
qed

lemma ticked_inv:
  assumes "rp_inv pool"
  shows "rp_inv (ticked pool)"
proof (rule rp_invI)
  show "smap_inv (ticked pool)" using rp_inv_inner(1) [OF assms] by (simp add: ticked_def)
  fix l tm assume "(l, tm) \<in> set (ticked pool)"
  then obtain tm0 where tm0: "(l, tm0) \<in> set pool" "tm = map (\<lambda>(t, fm). (t, tick_map fm)) tm0"
    by (auto simp: ticked_def)
  show "smap_inv tm" using rp_invD(1) [OF assms tm0(1)] by (simp add: tm0(2))
  show "smap_inv fm" if "(t, fm) \<in> set tm" for t fm
    using that rp_invD(2) [OF assms tm0(1)] by (auto simp: tm0(2) smap_inv_tick)
qed

lemma ticked_works:
  assumes "stats_ok st" "works_ok st"
  shows "set (all_works (ticked (fr_retainWorkPool st))) = aged 1 ` {x \<in> works st. ret_remain x \<noteq> 1}"
proof (rule set_eqI)
  fix x :: retained
  let ?p = "fr_retainWorkPool st"
  have inv: "rp_inv ?p" using assms(1) by (simp add: stats_ok_def)
  have rem: "0 < rw_remainTime w \<and> rw_remainTime w < 4294967296" if "(l, t, i, w) \<in> works st" for l t i w
    using assms(2) that by (fastforce simp: works_ok_def retain_consts)
  obtain l t i v where x: "x = (l, t, i, v)" by (cases x)
  have "x \<in> set (all_works (ticked ?p)) \<longleftrightarrow>
      (\<exists>w. (l, t, i, w) \<in> works st \<and> v = w\<lparr>rw_remainTime := sub32 (rw_remainTime w) 1\<rparr> \<and> rw_remainTime v \<noteq> 0)"
    unfolding x in_all_works [OF ticked_inv [OF inv]] in_all_works [OF inv] ticked_get by (auto simp: tick_map_def)
  also have "\<dots> \<longleftrightarrow> (\<exists>w. (l, t, i, w) \<in> works st \<and> v = w\<lparr>rw_remainTime := rw_remainTime w - 1\<rparr> \<and> rw_remainTime w \<noteq> 1)"
    using rem by (intro ex_cong1) fastforce
  also have "\<dots> \<longleftrightarrow> x \<in> aged 1 ` {x \<in> works st. ret_remain x \<noteq> 1}" by (force simp: x image_iff)
  finally show "x \<in> set (all_works (ticked ?p)) \<longleftrightarrow> x \<in> aged 1 ` {x \<in> works st. ret_remain x \<noteq> 1}" .
qed

lemma inj_aged:
  assumes "inj_on ret_order W" and "A \<subseteq> W"
  shows "inj_on (aged k) A" "inj_on ret_order (aged k ` A)"
proof -
  have "ret_order \<circ> aged k = ret_order" by (simp add: fun_eq_iff)
  then have "inj_on (ret_order \<circ> aged k) A" using inj_on_subset [OF assms] by simp
  then show "inj_on (aged k) A" "inj_on ret_order (aged k ` A)" by (rule inj_on_imageI2, rule inj_on_imageI)
qed

lemma length_tick_map: "length (tick_map fm) \<le> length fm"
  unfolding tick_map_def by (rule order_trans [OF length_filter_le]) simp

lemma Surveillance_ok:
  assumes st: "retainer_inv st"
  shows "retainer_inv (Retainer_PeriodicalSurveillance st)"
    "works (Retainer_PeriodicalSurveillance st) = aged 1 ` {x \<in> works st. ret_remain x \<noteq> 1}"
    "fr_incRetainOrder (Retainer_PeriodicalSurveillance st) = fr_incRetainOrder st"
proof -
  let ?p = "fr_retainWorkPool st" and ?A = "{x \<in> works st. ret_remain x \<noteq> 1}"
  have ok: "stats_ok st" "works_ok st" "fr_totalSizeByByte st \<le> RETAIN_MAX_CAPACITY" and inv: "rp_inv ?p"
    using st by (simp_all add: retainer_inv_def stats_ok_def)
  define xs where "xs = filter (\<lambda>(l, t, i, w). sub32 (rw_remainTime w) 1 = 0) (all_works ?p)"
  have "sub32 (ret_remain x) 1 = 0 \<longleftrightarrow> ret_remain x = 1" if "x \<in> works st" for x
    using ok(2) that by (fastforce simp: works_ok_def retain_consts)
  then have set: "set xs = {x \<in> works st. ret_remain x = 1}"
    by (auto simp: xs_def ret_remain_def case_prod_unfold)
  have dist: "distinct xs" unfolding xs_def by (rule distinct_filter [OF distinct_all_works [OF inv]])
  have diff: "works st - set xs = ?A" "set xs \<subseteq> works st" using set by auto
  note w = ticked_works [OF ok(1,2)]
  have inj: "inj_on ret_order (works st)" using ok(2) by (simp add: works_ok_def)
  then have injA: "inj_on (aged 1) ?A" "inj_on ret_order (aged 1 ` ?A)" using inj_aged [of "works st" ?A 1] by auto
  have sz: "sum ret_size (set (all_works (ticked ?p))) = sum ret_size (works st - set xs)"
    "card (set (all_works (ticked ?p))) = card (works st - set xs)"
    using injA(1) by (simp_all add: w diff sum.reindex card_image comp_def)
  note fa = stats_ok_forget_all [OF ok(1) diff(2) dist ticked_inv [OF inv] sz]
  let ?st = "(fold forget (map work_of xs) st)\<lparr>fr_retainWorkPool := ticked ?p\<rparr>"
  have "fold (\<lambda>(l, t, i, w). forget w) xs st = fold forget (map work_of xs) st"
    by (simp add: fold_map comp_def case_prod_unfold)
  then have eq: "Retainer_PeriodicalSurveillance st = ShrinkRetainWorkPool ?st"
    using fa(4) by (simp only: Retainer_PeriodicalSurveillance_def xs_def [symmetric] ticked_def Let_def)
  have wst: "works ?st = aged 1 ` ?A" using w by simp
  have "works_ok ?st"
    unfolding works_ok_def wst
  proof (intro conjI ballI allI)
    show "inj_on ret_order (aged 1 ` ?A)" by (rule injA(2))
    fix x assume "x \<in> aged 1 ` ?A"
    then obtain y where y: "x = aged 1 y" "y \<in> works st" "ret_remain y \<noteq> 1" by auto
    then have "0 < ret_remain y" "ret_remain y \<le> MAX_RETAIN_TIME" "ret_order y < fr_incRetainOrder st"
      "ret_size y \<le> MAX_RETAIN_FRAME_SIZE" using ok(2) by (auto simp: works_ok_def)
    then show "ret_order x < fr_incRetainOrder ?st" "ret_size x \<le> MAX_RETAIN_FRAME_SIZE" "0 < ret_remain x"
      "ret_remain x \<le> MAX_RETAIN_TIME" using y fa(3) by simp_all
  next
    show "length (rp_get (fr_retainWorkPool ?st) l t) \<le> MAX_RETAIN_FRAME_PER_LABEL_PER_TARGET" for l t
      using ok(2) length_tick_map [of "rp_get ?p l t"] by (auto simp: ticked_get works_ok_def intro: le_trans)
  qed
  then show "retainer_inv (Retainer_PeriodicalSurveillance st)"
    unfolding eq using Shrink_ok fa(1,2) ok(3) by (simp add: retainer_inv_def)
  show "works (Retainer_PeriodicalSurveillance st) = aged 1 ` ?A"
    unfolding eq using Shrink_works [of ?st] ticked_inv [OF inv] wst by simp
  show "fr_incRetainOrder (Retainer_PeriodicalSurveillance st) = fr_incRetainOrder st" using fa(3) by (simp add: eq)
qed

text \<open>Rounds of the surveillance with nothing in between.\<close>

lemma Surveillance_rounds:
  assumes "retainer_inv st"
  shows "retainer_inv ((Retainer_PeriodicalSurveillance ^^ k) st) \<and>
    works ((Retainer_PeriodicalSurveillance ^^ k) st) = aged k ` {x \<in> works st. k < ret_remain x}"
proof (induction k)
  case 0
  have "0 < ret_remain x" if "x \<in> works st" for x using assms that by (simp add: retainer_inv_def works_ok_def)
  then show ?case using assms by (auto simp: image_iff)
next
  case (Suc k)
  let ?st = "(Retainer_PeriodicalSurveillance ^^ k) st"
  have "{x \<in> aged k ` {x \<in> works st. k < ret_remain x}. ret_remain x \<noteq> 1} =
      aged k ` {x \<in> works st. Suc k < ret_remain x}" by auto
  then have "works (Retainer_PeriodicalSurveillance ?st) = aged 1 ` aged k ` {x \<in> works st. Suc k < ret_remain x}"
    using Surveillance_ok(2) [of ?st] Suc by simp
  also have "\<dots> = aged (Suc k) ` {x \<in> works st. Suc k < ret_remain x}" by (simp add: image_image)
  finally show ?case using Surveillance_ok(1) [of ?st] Suc by simp
qed

lemma Shrink_empty:
  assumes "works (ShrinkRetainWorkPool st) = {}"
  shows "fr_retainWorkPool (ShrinkRetainWorkPool st) = []"
proof (rule ccontr)
  let ?q = "fr_retainWorkPool (ShrinkRetainWorkPool st)"
  assume "?q \<noteq> []"
  then obtain l tm where "(l, tm) \<in> set ?q" by (metis list.set_sel(1) surj_pair)
  then have tm: "(l, tm) \<in> set ?q" "tm \<noteq> []" "\<forall>(t, fm) \<in> set tm. fm \<noteq> []" by (auto simp: ShrinkRetainWorkPool_def)
  then obtain t fm tms where t: "tm = (t, fm) # tms" by (cases tm) auto
  then obtain i w ws where "fm = (i, w) # ws" using tm(3) by (cases fm) auto
  then have fm: "(t, fm) \<in> set tm" "(i, w) \<in> set fm" using t by simp_all
  then have "(l, t, i, w) \<in> works (ShrinkRetainWorkPool st)" using tm(1) fm by (fastforce simp: all_works_def)
  then show False using assms by simp
qed

section \<open>Reachable states\<close>

text \<open>The retainer runs; the index counts the frames handed to it.\<close>

inductive retainer_reach :: "nat \<Rightarrow> FrameRetainer \<Rightarrow> bool" where
  start: "retainer_reach 0 (Retainer_Initialize FrameRetainer_init timerErr)"
| retain: "retainer_reach n st \<Longrightarrow> retainer_reach (Suc n) (RetainFrame al st fr)"
| fetch: "retainer_reach n st \<Longrightarrow> retainer_reach n (fst (FetchFramesForSpecificCommunicator st l))"
| tick: "retainer_reach n st \<Longrightarrow> retainer_reach n (Retainer_PeriodicalSurveillance st)"
| finish: "retainer_reach n st \<Longrightarrow> retainer_reach n (Retainer_Finalize st)"

lemma retainer_inv_empty:
  "fr_retainWorkPool st = [] \<Longrightarrow> fr_totalSizeByByte st = 0 \<Longrightarrow> fr_totalRetainFrames st = 0 \<Longrightarrow> retainer_inv st"
  by (simp add: retainer_inv_def stats_ok_def works_ok_def all_works_def rp_inv_def smap_inv_def rp_get_def smap_get_def)

lemma retainer_reach_inv:
  assumes "retainer_reach n st" and "n < 18446744073709551615"
  shows "retainer_inv st \<and> fr_incRetainOrder st \<le> n"
  using assms
proof (induction rule: retainer_reach.induct)
  case (start timerErr)
  then show ?case by (simp add: retainer_inv_empty Retainer_Initialize_def FrameRetainer_init_def)
next
  case (retain n st al fr)
  then show ?case using RetainFrame_ok [of st al fr] by (auto intro: le_trans)
next
  case (fetch n st l)
  then show ?case using Fetch_ok [of st l] by auto
next
  case (tick n st)
  then show ?case using Surveillance_ok [of st] by auto
next
  case (finish n st)
  then show ?case by (simp add: retainer_inv_empty Retainer_Finalize_def)
qed

section \<open>Properties\<close>

text \<open>
  C34. In every state the retainer can reach (over fewer than \<open>2^64 - 1\<close> frames), its statistics are
  exact: the byte count is the sum of the sizes of the frames it holds and stays within the capacity of
  64 M bytes, the frame count is their number, and no target has more than five frames per label.
\<close>

theorem retainer_statistics_exact:
  assumes "retainer_reach n st" and "n < 18446744073709551615"
  shows "fr_totalSizeByByte st = (\<Sum>x \<in> works st. ret_size x) \<and> fr_totalSizeByByte st \<le> RETAIN_MAX_CAPACITY \<and>
    fr_totalRetainFrames st = wrap32 (card (works st)) \<and>
    (\<forall>l t. length (rp_get (fr_retainWorkPool st) l t) \<le> MAX_RETAIN_FRAME_PER_LABEL_PER_TARGET)"
  using retainer_reach_inv [OF assms] by (simp add: retainer_inv_def stats_ok_def works_ok_def)

text \<open>
  Fetching for a label returns exactly the frames held for it, in the order of their retention, and
  leaves the frames of the other labels as they are.
\<close>

theorem fetch_in_retention_order:
  assumes "retainer_reach n st" and "n < 18446744073709551615"
  shows "\<exists>xs. set xs = {x \<in> works st. fst x = l} \<and> sorted_wrt (<) (map ret_order xs) \<and>
    snd (FetchFramesForSpecificCommunicator st l) = map frame_of xs \<and>
    works (fst (FetchFramesForSpecificCommunicator st l)) = works st - {x. fst x = l}"
  using Fetch_ok retainer_reach_inv [OF assms] by blast

text \<open>
  C33. A frame of acceptable size is never lost to the frames before it: when its communicator is
  registered next, it is the last frame fetched, with the content it had.
\<close>

theorem retained_frame_fetched_last:
  assumes "retainer_reach n st" and "n < 18446744073709551615"
    and "fi_buffer fr = Some buf" and "GetSize buf \<le> MAX_RETAIN_FRAME_SIZE"
    and "ConvertForCrossThread al buf = (b, E_OK)"
  shows "\<exists>frames. snd (FetchFramesForSpecificCommunicator (RetainFrame al st fr) (fi_commLabel fr)) =
    frames @ [fr\<lparr>fi_buffer := Some b\<rparr>]"
proof -
  have inv: "retainer_inv st" and inc: "fr_incRetainOrder st < 18446744073709551615"
    using retainer_reach_inv [OF assms(1,2)] assms(2) by auto
  let ?st = "RetainFrame al st fr" and ?l = "fi_commLabel fr"
  define x where "x = (?l, fi_srcTarget fr, fr_incRetainOrder st,
      \<lparr>rw_buffer = b, rw_frameId = fi_frameId fr, rw_remainTime = MAX_RETAIN_TIME\<rparr>)"
  note r = RetainFrame_accepted [OF inv inc assms(3-5) x_def]
  obtain xs where xs: "set xs = {x \<in> works ?st. fst x = ?l}" "sorted_wrt (<) (map ret_order xs)"
    "snd (FetchFramesForSpecificCommunicator ?st ?l) = map frame_of xs" using Fetch_ok [OF r(1), of ?l] by blast
  have "x \<in> set xs" using r(3) xs(1) by (simp add: x_def)
  then obtain ys zs where split: "xs = ys @ x # zs" by (auto simp: in_set_conv_decomp)
  have "zs = []"
  proof (rule ccontr)
    assume "zs \<noteq> []"
    then obtain y where y: "y \<in> set zs" by (cases zs) auto
    then have "ret_order x < ret_order y" using xs(2) by (auto simp: split sorted_wrt_append)
    moreover have "y \<in> works ?st" using y xs(1) by (auto simp: split)
    ultimately show False using r(5) [of y] by auto
  qed
  moreover have "frame_of x = fr\<lparr>fi_buffer := Some b\<rparr>" by (simp add: x_def frame_of_def)
  ultimately show ?thesis using xs(3) by (auto simp: split)
qed

text \<open>
  C38. Each round of the surveillance takes one second off the time of every frame: after \<open>k\<close> rounds the
  frames with more than \<open>k\<close> seconds left are there and no others, and after ten rounds the pool is
  empty and the statistics are zero.
\<close>

theorem retained_frames_expire:
  assumes "retainer_reach n st" and "n < 18446744073709551615"
  shows "works ((Retainer_PeriodicalSurveillance ^^ k) st) = aged k ` {x \<in> works st. k < ret_remain x} \<and>
    (MAX_RETAIN_TIME \<le> k \<longrightarrow> fr_retainWorkPool ((Retainer_PeriodicalSurveillance ^^ k) st) = [] \<and>
       fr_totalSizeByByte ((Retainer_PeriodicalSurveillance ^^ k) st) = 0 \<and>
       fr_totalRetainFrames ((Retainer_PeriodicalSurveillance ^^ k) st) = 0)"
proof -
  have inv: "retainer_inv st" using retainer_reach_inv [OF assms] by simp
  let ?st = "(Retainer_PeriodicalSurveillance ^^ k) st"
  note r = Surveillance_rounds [OF inv, of k]
  have "fr_retainWorkPool ?st = [] \<and> fr_totalSizeByByte ?st = 0 \<and> fr_totalRetainFrames ?st = 0" if k: "MAX_RETAIN_TIME \<le> k"
  proof -
    have "ret_remain x \<le> k" if "x \<in> works st" for x
      using k inv that by (auto simp: retainer_inv_def works_ok_def intro: le_trans)
    then have "{x \<in> works st. k < ret_remain x} = {}" using leD by blast
    then have none: "works ?st = {}" using r by simp
    obtain j where j: "k = Suc j" using k by (cases k) (auto simp: retain_consts)
    obtain st' where st': "?st = ShrinkRetainWorkPool st'" by (simp add: j Retainer_PeriodicalSurveillance_def Let_def)
    have "fr_retainWorkPool ?st = []" using Shrink_empty none by (simp add: st')
    moreover have "stats_ok ?st" using r by (simp only: retainer_inv_def)
    ultimately show ?thesis unfolding stats_ok_def none by simp
  qed
  then show ?thesis using r by blast
qed

text \<open>
  When a new frame makes the total exceed the capacity, the frames discarded for it are older than
  all the frames that stay, and each of them was discarded only because it and the frames younger than
  it did not fit together: a discarded frame, unless it is an old one of the same label and target,
  belongs to a suffix of the retention order of more than 64 M bytes.
\<close>

theorem capacity_discards_oldest:
  assumes "retainer_reach n st" and "n < 18446744073709551615"
    and "x \<in> works st - works (RetainFrame al st fr)" and "(fst x, fst (snd x)) \<noteq> (fi_commLabel fr, fi_srcTarget fr)"
  shows "(\<forall>y \<in> works (RetainFrame al st fr). ret_order x < ret_order y) \<and>
    RETAIN_MAX_CAPACITY < (\<Sum>y | y \<in> works st \<union> works (RetainFrame al st fr) \<and> ret_order x \<le> ret_order y. ret_size y)"
proof -
  have inv: "retainer_inv st" and inc: "fr_incRetainOrder st < 18446744073709551615"
    using retainer_reach_inv [OF assms(1,2)] assms(2) by auto
  let ?R = "RetainFrame al st fr"
  show ?thesis
  proof (cases rule: RetainFrame_cases [of al st fr])
    case 1
    then show ?thesis using assms(3) by simp
  next
    case (2 buf b)
    define z where "z = (fi_commLabel fr, fi_srcTarget fr, fr_incRetainOrder st,
      \<lparr>rw_buffer = b, rw_frameId = fi_frameId fr, rw_remainTime = MAX_RETAIN_TIME\<rparr>)"
    note r = RetainFrame_accepted [OF inv inc 2 z_def]
    obtain ev where ev: "room_made st (fi_commLabel fr) (fi_srcTarget fr) ev" "discarded_oldest (insert z (works ev)) (works ?R)"
      using r(6) by blast
    have "x \<in> works ev" using ev(1) assms(3,4) by (auto simp: room_made_def)
    then have x: "x \<in> insert z (works ev) - works ?R" using assms(3) by blast
    have "{y \<in> insert z (works ev). ret_order x \<le> ret_order y} \<subseteq> {y. y \<in> works st \<union> works ?R \<and> ret_order x \<le> ret_order y}"
      using ev(1) r(3) by (auto simp: room_made_def)
    then have "sum ret_size {y \<in> insert z (works ev). ret_order x \<le> ret_order y} \<le>
      (\<Sum>y | y \<in> works st \<union> works ?R \<and> ret_order x \<le> ret_order y. ret_size y)" by (intro sum_mono2) simp_all
    then show ?thesis using ev(2) x unfolding discarded_oldest_def by (meson less_le_trans)
  qed
qed

section \<open>Concrete inputs\<close>

text \<open>Two frames for the same label; the first is one round old when the second arrives.\<close>

definition small_frame :: "u32 \<Rightarrow> FrameInfo" where
  "small_frame i = \<lparr>fi_buffer = Some (SerialBuffer_init\<lparr>sb_mem := Some (replicate 8 0), totalLen := 8\<rparr>),
     fi_srcTarget = ''dev'', fi_commLabel = [1], fi_frameId = i\<rparr>"

definition two_frames :: FrameRetainer where
  "two_frames = RetainFrame test_allocator (Retainer_PeriodicalSurveillance
     (RetainFrame test_allocator FrameRetainer_init (small_frame 1))) (small_frame 2)"

lemma reach_empty: "retainer_reach 0 FrameRetainer_init"
  using retainer_reach.start [of E_OUT_OF_MEMORY] by (simp add: Retainer_Initialize_def)

lemma reach_two_frames: "retainer_reach 2 two_frames"
  unfolding two_frames_def numeral_2_eq_2 by (intro retainer_reach.intros reach_empty)

lemma small_frame_ok:
  "fi_buffer (small_frame i) = Some (SerialBuffer_init\<lparr>sb_mem := Some (replicate 8 0), totalLen := 8\<rparr>)"
  "GetSize (SerialBuffer_init\<lparr>sb_mem := Some (replicate 8 0), totalLen := 8\<rparr>) \<le> MAX_RETAIN_FRAME_SIZE"
  "ConvertForCrossThread al (SerialBuffer_init\<lparr>sb_mem := Some (replicate 8 0), totalLen := 8\<rparr>) =
    (SerialBuffer_init\<lparr>sb_mem := Some (replicate 8 0), totalLen := 8\<rparr>, E_OK)"
  by (simp_all add: small_frame_def GetSize_def ConvertForCrossThread_def SerialBuffer_init_def retain_consts)

theorem retainer_statistics_exact_witness:
  "fr_totalSizeByByte two_frames = (\<Sum>x \<in> works two_frames. ret_size x) \<and>
   fr_totalSizeByByte two_frames \<le> RETAIN_MAX_CAPACITY \<and> fr_totalRetainFrames two_frames = wrap32 (card (works two_frames)) \<and>
   (\<forall>l t. length (rp_get (fr_retainWorkPool two_frames) l t) \<le> MAX_RETAIN_FRAME_PER_LABEL_PER_TARGET)"
  by (rule retainer_statistics_exact [OF reach_two_frames]) simp

theorem fetch_in_retention_order_witness:
  "\<exists>xs. set xs = {x \<in> works two_frames. fst x = [1]} \<and> sorted_wrt (<) (map ret_order xs) \<and>
    snd (FetchFramesForSpecificCommunicator two_frames [1]) = map frame_of xs \<and>
    works (fst (FetchFramesForSpecificCommunicator two_frames [1])) = works two_frames - {x. fst x = [1]}"
  by (rule fetch_in_retention_order [OF reach_two_frames]) simp

theorem retained_frame_fetched_last_witness:
  "\<exists>frames. snd (FetchFramesForSpecificCommunicator (RetainFrame test_allocator two_frames (small_frame 3)) [1]) =
    frames @ [small_frame 3]"
  using retained_frame_fetched_last [OF reach_two_frames _ small_frame_ok(1) small_frame_ok(2) small_frame_ok(3),
      of test_allocator 3]
  by (simp add: small_frame_def)

theorem retained_frames_expire_witness:
  "works ((Retainer_PeriodicalSurveillance ^^ 10) two_frames) = aged 10 ` {x \<in> works two_frames. 10 < ret_remain x} \<and>
   fr_retainWorkPool ((Retainer_PeriodicalSurveillance ^^ 10) two_frames) = []"
proof -
  have "(2 :: nat) < 18446744073709551615" and "MAX_RETAIN_TIME \<le> 10" by (simp_all add: MAX_RETAIN_TIME_def)
  then show ?thesis using retained_frames_expire [OF reach_two_frames, of 10] by blast
qed

text \<open>Three frames of 32 M bytes from three targets: the first is discarded.\<close>

definition big_mem :: "byte list" where "big_mem = replicate 33554432 0"

definition big_frame :: "string \<Rightarrow> FrameInfo" where
  "big_frame t = \<lparr>fi_buffer = Some (SerialBuffer_init\<lparr>sb_mem := Some big_mem, totalLen := 33554432\<rparr>),
     fi_srcTarget = t, fi_commLabel = [1], fi_frameId = 7\<rparr>"

definition two_big :: FrameRetainer where
  "two_big = RetainFrame test_allocator (RetainFrame test_allocator FrameRetainer_init (big_frame ''a'')) (big_frame ''b'')"

definition big_work :: RetainWork where
  "big_work = \<lparr>rw_buffer = SerialBuffer_init\<lparr>sb_mem := Some big_mem, totalLen := 33554432\<rparr>, rw_frameId = 7,
     rw_remainTime = MAX_RETAIN_TIME\<rparr>"

lemma big_order: "''b'' \<noteq> ''a''" "\<not> ''b'' < ''a''" "''c'' \<noteq> ''a''" "\<not> ''c'' < ''a''" "''c'' \<noteq> ''b''" "\<not> ''c'' < ''b''"
  by (simp_all add: less_char_def)

lemma big_pools:
  "rp_get [] [1] ''a'' = []" "rp_set [] [1] ''a'' f = [([1], [(''a'', f)])]"
  "rp_get [([1], [(''a'', x)])] [1] ''a'' = x" "rp_set [([1], [(''a'', x)])] [1] ''a'' f = [([1], [(''a'', f)])]"
  "rp_get [([1], [(''a'', x)])] [1] ''b'' = []" "rp_set [([1], [(''a'', x)])] [1] ''b'' f = [([1], [(''a'', x), (''b'', f)])]"
  "rp_get [([1], [(''a'', x), (''b'', y)])] [1] ''b'' = y"
  "rp_set [([1], [(''a'', x), (''b'', y)])] [1] ''b'' f = [([1], [(''a'', x), (''b'', f)])]"
  "rp_get [([1], [(''a'', x), (''b'', y)])] [1] ''c'' = []"
  "rp_set [([1], [(''a'', x), (''b'', y)])] [1] ''c'' f = [([1], [(''a'', x), (''b'', y), (''c'', f)])]"
  "rp_get [([1], [(''a'', x), (''b'', y), (''c'', z)])] [1] ''c'' = z"
  "rp_set [([1], [(''a'', x), (''b'', y), (''c'', z)])] [1] ''c'' f = [([1], [(''a'', x), (''b'', y), (''c'', f)])]"
  "rp_get [([1], [(''a'', x), (''b'', y), (''c'', z)])] [1] ''a'' = x"
  "rp_set [([1], [(''a'', x), (''b'', y), (''c'', z)])] [1] ''a'' f = [([1], [(''a'', f), (''b'', y), (''c'', z)])]"
  by (simp_all add: rp_get_def rp_set_def smap_get_def big_order del: list.inject)

lemma RetainFrame_big:
  "RetainFrame al st (big_frame t) = DiscardObsoleteFramesIfNeed (add_work (evict_oldest st [1] t) [1] t big_work)"
  by (simp add: RetainFrame_def big_frame_def big_work_def GetSize_def ConvertForCrossThread_def SerialBuffer_init_def
      retain_consts Let_def)

lemma big_size: "GetSize (rw_buffer big_work) = 33554432"
  by (simp add: big_work_def GetSize_def)

lemmas big_eval = RetainFrame_big evict_oldest_def add_work_def big_pools big_size retain_consts
  DiscardObsoleteFramesIfNeed_def FrameRetainer_init_def

lemma two_big: "two_big = \<lparr>fr_isTimerWork = False, fr_totalSizeByByte = 67108864, fr_totalRetainFrames = 2,
    fr_incRetainOrder = 2, fr_retainWorkPool = [([1], [(''a'', [(0, big_work)]), (''b'', [(1, big_work)])])]\<rparr>"
  by (simp add: two_big_def big_eval)

lemma discard_loop_Cons:
  "discard_loop st ((i, l, t) # rest) =
    (if fr_totalSizeByByte st \<le> RETAIN_MAX_CAPACITY then (st, True)
     else case map_of (rp_get (fr_retainWorkPool st) l t) i of
       None \<Rightarrow> (st, False)
     | Some w \<Rightarrow> discard_loop ((forget w st)\<lparr>fr_retainWorkPool :=
         rp_set (fr_retainWorkPool st) l t (smap_erase i (rp_get (fr_retainWorkPool st) l t))\<rparr>) rest)"
  by (simp add: discard_loop.simps [of st] Let_def)

lemma three_big: "fr_retainWorkPool (RetainFrame test_allocator two_big (big_frame ''c'')) =
     [([1], [(''b'', [(1, big_work)]), (''c'', [(2, big_work)])])]"
  by (simp add: two_big big_eval all_works_def discard_loop_Cons forget_def smap_erase_def ShrinkRetainWorkPool_def)

theorem capacity_discards_oldest_witness:
  "ret_order ([1], ''a'', 0, big_work) < ret_order ([1], ''b'', 1, big_work) \<and>
   RETAIN_MAX_CAPACITY < (\<Sum>y | y \<in> works two_big \<union> works (RetainFrame test_allocator two_big (big_frame ''c'')) \<and>
      ret_order ([1], ''a'', 0, big_work) \<le> ret_order y. ret_size y)"
proof -
  have reach: "retainer_reach 2 two_big"
    unfolding two_big_def numeral_2_eq_2 by (intro retainer_reach.intros reach_empty)
  have gone: "([1], ''a'', 0, big_work) \<in> works two_big - works (RetainFrame test_allocator two_big (big_frame ''c''))"
    unfolding three_big by (simp add: two_big all_works_def)
  have kept: "([1], ''b'', 1, big_work) \<in> works (RetainFrame test_allocator two_big (big_frame ''c''))"
    unfolding three_big by (simp add: all_works_def)
  show ?thesis using capacity_discards_oldest [OF reach _ gone] kept by (simp only: big_frame_def) force
qed

end
