(* ===== verification/Send_Task_Scheduler.thy ===== *)
theory Send_Task_Scheduler
  imports Protocol_Proto
begin

text \<open>
  \<^verbatim>\<open>communicator/src/send_task_scheduler.cpp\<close>: the queue of frames to be sent. Tasks are scheduled by
  priority and in the order they were added; targets can be delayed, and delayed tasks are scheduled
  only when nothing else is left. The scheduler keeps per priority a list of targets in order of arrival
  and per priority and target a list of tasks; the lemmas show that this implements one first-in
  first-out queue per priority.
\<close>

section \<open>State\<close>

datatype TargetPolicy = NO_DELAY | DELAY

text \<open>The callback of a task is never called here; it is an opaque number.\<close>

record SendTask =
  buffer :: SerialBuffer
  dstTarget :: string
  onEnd :: nat

record SendTaskInfo =
  delayFlag :: bool
  taskPrio :: Priority

text \<open>
  The maps from priorities and targets are total functions: \<^verbatim>\<open>operator[]\<close> yields zero or the empty list
  for a key that is missing, and the code never asks whether one is there, except for \<^verbatim>\<open>policyMap_\<close>.
\<close>

record SendTaskScheduler =
  curTotalSizeByByte :: nat
  curTotalSizeByTask :: nat
  delayTaskCount :: nat
  priorityOrder :: "Priority list"
  extraCapacityInByteByPrio :: "Priority \<Rightarrow> nat"
  policyMap :: "string \<rightharpoonup> TargetPolicy"
  taskCountByPrio :: "Priority \<Rightarrow> nat"
  taskDelayCountByPrio :: "Priority \<Rightarrow> nat"
  taskOrderByPrio :: "Priority \<Rightarrow> string list"
  taskGroupByPrio :: "Priority \<Rightarrow> string \<Rightarrow> SendTask list"
  scheduledFlag :: bool
  lastScheduleTarget :: string
  lastSchedulePriority :: Priority

definition SendTaskScheduler_init :: SendTaskScheduler where
  "SendTaskScheduler_init = \<lparr>curTotalSizeByByte = 0, curTotalSizeByTask = 0, delayTaskCount = 0,
     priorityOrder = [], extraCapacityInByteByPrio = (\<lambda>_. 0), policyMap = Map.empty,
     taskCountByPrio = (\<lambda>_. 0), taskDelayCountByPrio = (\<lambda>_. 0), taskOrderByPrio = (\<lambda>_. []),
     taskGroupByPrio = (\<lambda>_ _. []), scheduledFlag = False, lastScheduleTarget = [], lastSchedulePriority = LOW\<rparr>"

definition SCHED_MAX_CAPACITY :: nat where "SCHED_MAX_CAPACITY = 67108864"
definition EXTRA_CAPACITY_FOR_NORMAL_PRIORITY :: nat where "EXTRA_CAPACITY_FOR_NORMAL_PRIORITY = 33554432"
definition EXTRA_CAPACITY_FOR_HIGH_PRIORITY :: nat where "EXTRA_CAPACITY_FOR_HIGH_PRIORITY = 67108864"

lemmas sched_consts = SCHED_MAX_CAPACITY_def EXTRA_CAPACITY_FOR_NORMAL_PRIORITY_def EXTRA_CAPACITY_FOR_HIGH_PRIORITY_def

text \<open>\<^verbatim>\<open>policyMap_[t]\<close> creates an entry with the value \<^verbatim>\<open>NO_DELAY\<close> if there is none.\<close>

definition policy_of :: "SendTaskScheduler \<Rightarrow> string \<Rightarrow> TargetPolicy" where
  "policy_of st t = (case policyMap st t of None \<Rightarrow> NO_DELAY | Some p \<Rightarrow> p)"

definition touch_policy :: "string \<Rightarrow> SendTaskScheduler \<Rightarrow> SendTaskScheduler" where
  "touch_policy t st = st\<lparr>policyMap := (policyMap st)(t \<mapsto> policy_of st t)\<rparr>"

section \<open>Operations\<close>

definition Scheduler_Initialize :: "SendTaskScheduler \<Rightarrow> SendTaskScheduler" where
  "Scheduler_Initialize st =
     (let order = [HIGH, NORMAL, LOW];
          zero = (\<lambda>f p. if p \<in> set order then 0 else f p)
      in st\<lparr>priorityOrder := order,
            extraCapacityInByteByPrio := (zero (extraCapacityInByteByPrio st))
              (NORMAL := EXTRA_CAPACITY_FOR_NORMAL_PRIORITY, HIGH := EXTRA_CAPACITY_FOR_HIGH_PRIORITY),
            taskCountByPrio := zero (taskCountByPrio st),
            taskDelayCountByPrio := zero (taskDelayCountByPrio st),
            taskGroupByPrio := (\<lambda>p. if p \<in> set order then (\<lambda>_. []) else taskGroupByPrio st p)\<rparr>)"

definition AddSendTaskIntoSchedule :: "SendTaskScheduler \<Rightarrow> SendTask \<Rightarrow> Priority \<Rightarrow> SendTaskScheduler \<times> errno" where
  "AddSendTaskIntoSchedule st inTask inPrio =
     (if curTotalSizeByByte st \<ge> wrap32 (SCHED_MAX_CAPACITY + extraCapacityInByteByPrio st inPrio)
      then (st, E_CONTAINER_FULL)
      else
        let t = dstTarget inTask;
            st = st\<lparr>curTotalSizeByByte := wrap32 (curTotalSizeByByte st + GetSize (buffer inTask)),
                    curTotalSizeByTask := wrap32 (curTotalSizeByTask st + 1)\<rparr>;
            st = (if policyMap st t = None then st\<lparr>policyMap := (policyMap st)(t \<mapsto> NO_DELAY)\<rparr> else st);
            st = (if policyMap st t = Some DELAY
                  then st\<lparr>delayTaskCount := wrap32 (delayTaskCount st + 1),
                          taskDelayCountByPrio := (taskDelayCountByPrio st)
                            (inPrio := wrap32 (taskDelayCountByPrio st inPrio + 1))\<rparr>
                  else st)
        in (st\<lparr>taskCountByPrio := (taskCountByPrio st)(inPrio := wrap32 (taskCountByPrio st inPrio + 1)),
               taskOrderByPrio := (taskOrderByPrio st)(inPrio := taskOrderByPrio st inPrio @ [t]),
               taskGroupByPrio := (taskGroupByPrio st)(inPrio :=
                 (taskGroupByPrio st inPrio)(t := taskGroupByPrio st inPrio t @ [inTask]))\<rparr>, E_OK))"

text \<open>
  \<^verbatim>\<open>front()\<close> of an empty list is undefined behaviour in C++; it is modelled as the end of the process
  (\<open>ABORTED\<close>), and shown not to happen.
\<close>

fun ScheduleDelayTask_loop :: "SendTaskScheduler \<Rightarrow> Priority list \<Rightarrow> (SendTask \<times> SendTaskInfo) res" where
  "ScheduleDelayTask_loop st [] = Inl E_INTERNAL_ERROR"
| "ScheduleDelayTask_loop st (prio # rest) =
     (if taskCountByPrio st prio = 0 then ScheduleDelayTask_loop st rest
      else case taskOrderByPrio st prio of
             [] \<Rightarrow> Inl ABORTED
           | target # _ \<Rightarrow>
               (case taskGroupByPrio st prio target of
                  [] \<Rightarrow> Inl ABORTED
                | task # _ \<Rightarrow> Inr (task, \<lparr>delayFlag = True, taskPrio = prio\<rparr>)))"

definition ScheduleDelayTask :: "SendTaskScheduler \<Rightarrow> (SendTask \<times> SendTaskInfo) res" where
  "ScheduleDelayTask st = ScheduleDelayTask_loop st (priorityOrder st)"

text \<open>The inner loop: the first target in order that is not delayed.\<close>

fun find_no_delay :: "SendTaskScheduler \<Rightarrow> string list \<Rightarrow> SendTaskScheduler \<times> string option" where
  "find_no_delay st [] = (st, None)"
| "find_no_delay st (target # rest) =
     (let st = touch_policy target st
      in if policy_of st target = NO_DELAY then (st, Some target) else find_no_delay st rest)"

fun ScheduleNoDelayTask_loop ::
    "SendTaskScheduler \<Rightarrow> Priority list \<Rightarrow> SendTaskScheduler \<times> (SendTask \<times> SendTaskInfo) res" where
  "ScheduleNoDelayTask_loop st [] = (st, Inl E_INTERNAL_ERROR)"
| "ScheduleNoDelayTask_loop st (prio # rest) =
     (if taskCountByPrio st prio = 0 \<or> taskCountByPrio st prio = taskDelayCountByPrio st prio
      then ScheduleNoDelayTask_loop st rest
      else
        let (st, found) = find_no_delay st (taskOrderByPrio st prio)
        in case found of
             None \<Rightarrow> (st, Inl E_INTERNAL_ERROR)
           | Some target \<Rightarrow>
               (case taskGroupByPrio st prio target of
                  [] \<Rightarrow> (st, Inl ABORTED)
                | task # _ \<Rightarrow> (st, Inr (task, \<lparr>delayFlag = False, taskPrio = prio\<rparr>))))"

definition ScheduleNoDelayTask :: "SendTaskScheduler \<Rightarrow> SendTaskScheduler \<times> (SendTask \<times> SendTaskInfo) res" where
  "ScheduleNoDelayTask st = ScheduleNoDelayTask_loop st (priorityOrder st)"

definition remember_schedule :: "SendTask \<times> SendTaskInfo \<Rightarrow> SendTaskScheduler \<Rightarrow> SendTaskScheduler" where
  "remember_schedule out st = st\<lparr>lastScheduleTarget := dstTarget (fst out),
     lastSchedulePriority := taskPrio (snd out), scheduledFlag := True\<rparr>"

definition ScheduleOutSendTask :: "SendTaskScheduler \<Rightarrow> SendTaskScheduler \<times> (SendTask \<times> SendTaskInfo) res" where
  "ScheduleOutSendTask st =
     (if curTotalSizeByTask st = 0 then (st, Inl E_CONTAINER_EMPTY)
      else if delayTaskCount st = curTotalSizeByTask st then
        (case ScheduleDelayTask st of
           Inl e \<Rightarrow> (st, Inl e)
         | Inr out \<Rightarrow> (remember_schedule out st, Inr out))
      else
        (case ScheduleNoDelayTask st of
           (st, Inl e) \<Rightarrow> (st, Inl e)
         | (st, Inr out) \<Rightarrow> (remember_schedule out st, Inr out)))"

definition FinalizeLastScheduleTask :: "SendTaskScheduler \<Rightarrow> SendTaskScheduler \<times> errno" where
  "FinalizeLastScheduleTask st =
     (if curTotalSizeByTask st = 0 then (st, E_CONTAINER_EMPTY)
      else if \<not> scheduledFlag st then (st, E_NOT_PERMIT)
      else
        let prio = lastSchedulePriority st; t = lastScheduleTarget st
        in case taskGroupByPrio st prio t of
             [] \<Rightarrow> (st, ABORTED)
           | task # tasks \<Rightarrow>
               let isFullBefore = (curTotalSizeByByte st \<ge> SCHED_MAX_CAPACITY);
                   st = st\<lparr>curTotalSizeByByte := sub32 (curTotalSizeByByte st) (GetSize (buffer task))\<rparr>;
                   isFullAfter = (curTotalSizeByByte st \<ge> SCHED_MAX_CAPACITY);
                   st = st\<lparr>curTotalSizeByTask := sub32 (curTotalSizeByTask st) 1,
                           taskCountByPrio := (taskCountByPrio st)(prio := sub32 (taskCountByPrio st prio) 1)\<rparr>;
                   st = touch_policy t st;
                   st = (if policy_of st t = DELAY
                         then st\<lparr>delayTaskCount := sub32 (delayTaskCount st) 1,
                                 taskDelayCountByPrio := (taskDelayCountByPrio st)
                                   (prio := sub32 (taskDelayCountByPrio st prio) 1)\<rparr>
                         else st);
                   st = st\<lparr>taskOrderByPrio := (taskOrderByPrio st)(prio := remove1 t (taskOrderByPrio st prio)),
                           taskGroupByPrio := (taskGroupByPrio st)(prio := (taskGroupByPrio st prio)(t := tasks)),
                           scheduledFlag := False\<rparr>
               in (st, if isFullBefore \<and> \<not> isFullAfter then E_CONTAINER_FULL_TO_NOTFULL
                       else if curTotalSizeByTask st = 0 then E_CONTAINER_NOTEMPTY_TO_EMPTY
                       else if curTotalSizeByTask st = delayTaskCount st then E_CONTAINER_ONLY_DELAY_TASK
                       else E_OK))"

text \<open>
  Both policy changes adjust the delay counters of every priority by the number of tasks of the target,
  by adding or subtracting in 32 bits.
\<close>

definition adjust_delay_counts :: "(nat \<Rightarrow> nat \<Rightarrow> nat) \<Rightarrow> string \<Rightarrow> SendTaskScheduler \<Rightarrow> SendTaskScheduler" where
  "adjust_delay_counts f inTarget st = fold (\<lambda>prio st. let count = length (taskGroupByPrio st prio inTarget) in
     st\<lparr>taskDelayCountByPrio := (taskDelayCountByPrio st)(prio := f (taskDelayCountByPrio st prio) (wrap32 count)),
        delayTaskCount := f (delayTaskCount st) (wrap32 count)\<rparr>) (priorityOrder st) st"

definition DelayTaskByTarget :: "SendTaskScheduler \<Rightarrow> string \<Rightarrow> SendTaskScheduler \<times> errno" where
  "DelayTaskByTarget st inTarget =
     (if policyMap st inTarget = None then (st, E_NOT_FOUND)
      else if policyMap st inTarget = Some DELAY then (st, E_OK)
      else (adjust_delay_counts (\<lambda>x y. wrap32 (x + y)) inTarget
              (st\<lparr>policyMap := (policyMap st)(inTarget \<mapsto> DELAY)\<rparr>), E_OK))"

definition NoDelayTaskByTarget :: "SendTaskScheduler \<Rightarrow> string \<Rightarrow> SendTaskScheduler \<times> errno" where
  "NoDelayTaskByTarget st inTarget =
     (if policyMap st inTarget = None then (st, E_NOT_FOUND)
      else if policyMap st inTarget = Some NO_DELAY then (st, E_OK)
      else (adjust_delay_counts sub32 inTarget (st\<lparr>policyMap := (policyMap st)(inTarget \<mapsto> NO_DELAY)\<rparr>), E_OK))"

definition GetTotalTaskCount :: "SendTaskScheduler \<Rightarrow> nat" where
  "GetTotalTaskCount st = curTotalSizeByTask st"

definition GetNoDelayTaskCount :: "SendTaskScheduler \<Rightarrow> nat" where
  "GetNoDelayTaskCount st = sub32 (curTotalSizeByTask st) (delayTaskCount st)"

text \<open>The loop of \<^verbatim>\<open>Finalize\<close>, which may not end a priori; the tasks it drops are collected.\<close>

partial_function (option) Scheduler_Finalize ::
    "SendTaskScheduler \<Rightarrow> (SendTaskScheduler \<times> SendTask list) option" where
  "Scheduler_Finalize st =
     (if GetTotalTaskCount st = 0 then Some (st, [])
      else case ScheduleOutSendTask st of
             (st, Inl _) \<Rightarrow> Some (st, [])
           | (st, Inr (task, _)) \<Rightarrow>
               Option.bind (Scheduler_Finalize (fst (FinalizeLastScheduleTask st)))
                 (\<lambda>(st, tasks). Some (st, task # tasks)))"

section \<open>One queue per priority\<close>

text \<open>The queue of a priority, read off the list of targets and the lists of tasks.\<close>

fun merge_tasks :: "string list \<Rightarrow> (string \<Rightarrow> SendTask list) \<Rightarrow> SendTask list" where
  "merge_tasks [] g = []"
| "merge_tasks (t # ts) g = hd (g t) # merge_tasks ts (g(t := tl (g t)))"

definition queue_of :: "SendTaskScheduler \<Rightarrow> Priority \<Rightarrow> SendTask list" where
  "queue_of st p = merge_tasks (taskOrderByPrio st p) (taskGroupByPrio st p)"

lemma merge_tasks_filter: "merge_tasks (map dstTarget ks) (\<lambda>t. filter (\<lambda>k. dstTarget k = t) ks) = ks"
proof -
  have "merge_tasks (map dstTarget ks) g = ks" if "\<And>t. g t = filter (\<lambda>k. dstTarget k = t) ks" for g
    using that by (induction ks arbitrary: g) auto
  then show ?thesis by simp
qed

definition delayed :: "(string \<rightharpoonup> TargetPolicy) \<Rightarrow> SendTask \<Rightarrow> bool" where
  "delayed m k \<longleftrightarrow> m (dstTarget k) = Some DELAY"

definition all_tasks :: "(Priority \<Rightarrow> SendTask list) \<Rightarrow> SendTask list" where
  "all_tasks q = q HIGH @ q NORMAL @ q LOW"

abbreviation task_size :: "SendTask \<Rightarrow> nat" where "task_size k \<equiv> GetSize (buffer k)"

text \<open>
  The scheduler represents the queues \<open>q\<close>: its lists are those of the queues, its counters are exact,
  every task is of a size between one and \<open>M\<close>, and the last scheduled task is still there.
\<close>

definition lists_rel :: "SendTaskScheduler \<Rightarrow> (Priority \<Rightarrow> SendTask list) \<Rightarrow> bool" where
  "lists_rel st q \<longleftrightarrow> (\<forall>p. taskOrderByPrio st p = map dstTarget (q p) \<and>
     (\<forall>t. taskGroupByPrio st p t = filter (\<lambda>k. dstTarget k = t) (q p)))"

definition counts_rel :: "SendTaskScheduler \<Rightarrow> (Priority \<Rightarrow> SendTask list) \<Rightarrow> bool" where
  "counts_rel st q \<longleftrightarrow> (\<forall>p. taskCountByPrio st p = length (q p) \<and>
       taskDelayCountByPrio st p = length (filter (delayed (policyMap st)) (q p))) \<and>
     curTotalSizeByTask st = length (all_tasks q) \<and>
     delayTaskCount st = length (filter (delayed (policyMap st)) (all_tasks q)) \<and>
     curTotalSizeByByte st = sum_list (map task_size (all_tasks q))"

definition sched_rel :: "nat \<Rightarrow> SendTaskScheduler \<Rightarrow> (Priority \<Rightarrow> SendTask list) \<Rightarrow> bool" where
  "sched_rel M st q \<longleftrightarrow> lists_rel st q \<and> counts_rel st q \<and> priorityOrder st = [HIGH, NORMAL, LOW] \<and>
     extraCapacityInByteByPrio st = (\<lambda>_. 0)(NORMAL := EXTRA_CAPACITY_FOR_NORMAL_PRIORITY, HIGH := EXTRA_CAPACITY_FOR_HIGH_PRIORITY) \<and>
     (\<forall>k \<in> set (all_tasks q). policyMap st (dstTarget k) \<noteq> None \<and> 0 < task_size k \<and> task_size k \<le> M) \<and>
     curTotalSizeByByte st < SCHED_MAX_CAPACITY + EXTRA_CAPACITY_FOR_HIGH_PRIORITY + M \<and> M \<le> MAX_TOTAL_LEN \<and>
     (scheduledFlag st \<longrightarrow> lastScheduleTarget st \<in> dstTarget ` set (q (lastSchedulePriority st)))"

lemma sched_rel_unique: "sched_rel M st q \<Longrightarrow> q = queue_of st"
proof
  fix p assume "sched_rel M st q"
  then have "taskOrderByPrio st p = map dstTarget (q p)" "taskGroupByPrio st p = (\<lambda>t. filter (\<lambda>k. dstTarget k = t) (q p))"
    by (auto simp: sched_rel_def lists_rel_def)
  then show "q p = queue_of st p" by (simp add: queue_of_def merge_tasks_filter)
qed

lemma all_tasks_mem: "k \<in> set (all_tasks q) \<longleftrightarrow> (\<exists>p. k \<in> set (q p))"
  by (auto simp: all_tasks_def) (metis Priority.exhaust)

lemma sched_rel_task:
  assumes "sched_rel M st q" and "k \<in> set (q p)"
  shows "policyMap st (dstTarget k) \<noteq> None" "0 < task_size k" "task_size k \<le> M"
proof -
  have "k \<in> set (all_tasks q)" using assms(2) all_tasks_mem by blast
  moreover have "\<forall>k \<in> set (all_tasks q). policyMap st (dstTarget k) \<noteq> None \<and> 0 < task_size k \<and> task_size k \<le> M"
    using assms(1) by (simp add: sched_rel_def)
  ultimately show "policyMap st (dstTarget k) \<noteq> None" "0 < task_size k" "task_size k \<le> M" by simp_all
qed

lemma count_le_size:
  assumes "\<And>k. k \<in> set ks \<Longrightarrow> 0 < task_size k"
  shows "length ks \<le> sum_list (map task_size ks)"
  using assms
proof (induction ks)
  case (Cons k ks)
  then have "0 < task_size k" "length ks \<le> sum_list (map task_size ks)" by auto
  then show ?case by simp
qed simp

lemma sched_rel_bounds:
  assumes "sched_rel M st q"
  shows "curTotalSizeByByte st < 239075328" "length (all_tasks q) < 239075328" "length (q p) \<le> length (all_tasks q)"
proof -
  show b: "curTotalSizeByByte st < 239075328"
    using assms by (simp add: sched_rel_def sched_consts MAX_TOTAL_LEN_def)
  have "length (all_tasks q) \<le> curTotalSizeByByte st"
    using assms count_le_size [of "all_tasks q"] by (simp add: sched_rel_def counts_rel_def)
  then show "length (all_tasks q) < 239075328" using b by linarith
  show "length (q p) \<le> length (all_tasks q)" by (cases p) (simp_all add: all_tasks_def)
qed

section \<open>Every operation keeps the representation\<close>

lemma Initialize_rel: "M \<le> MAX_TOTAL_LEN \<Longrightarrow> sched_rel M (Scheduler_Initialize SendTaskScheduler_init) (\<lambda>_. [])"
proof -
  have "p = HIGH \<or> p = NORMAL \<or> p = LOW" for p by (cases p) auto
  then show "M \<le> MAX_TOTAL_LEN \<Longrightarrow> sched_rel M (Scheduler_Initialize SendTaskScheduler_init) (\<lambda>_. [])"
    by (auto simp: sched_rel_def lists_rel_def counts_rel_def Scheduler_Initialize_def SendTaskScheduler_init_def
        all_tasks_def sched_consts fun_eq_iff)
qed

lemma all_tasks_push:
  "length (all_tasks (q(p := q p @ [k]))) = Suc (length (all_tasks q))"
  "length (filter P (all_tasks (q(p := q p @ [k])))) = length (filter P (all_tasks q)) + (if P k then 1 else 0)"
  "sum_list (map task_size (all_tasks (q(p := q p @ [k])))) = sum_list (map task_size (all_tasks q)) + task_size k"
  "set (all_tasks (q(p := q p @ [k]))) = insert k (set (all_tasks q))"
  by (cases p; auto simp: all_tasks_def)+

lemma Add_rel:
  assumes rel: "sched_rel M st q" and k: "0 < task_size k" "task_size k \<le> M"
  shows "curTotalSizeByByte st \<ge> SCHED_MAX_CAPACITY + extraCapacityInByteByPrio st p \<Longrightarrow>
      AddSendTaskIntoSchedule st k p = (st, E_CONTAINER_FULL)"
    "curTotalSizeByByte st < SCHED_MAX_CAPACITY + extraCapacityInByteByPrio st p \<Longrightarrow>
      \<exists>st'. AddSendTaskIntoSchedule st k p = (st', E_OK) \<and> sched_rel M st' (q(p := q p @ [k])) \<and>
        scheduledFlag st' = scheduledFlag st \<and> lastScheduleTarget st' = lastScheduleTarget st \<and>
        lastSchedulePriority st' = lastSchedulePriority st"
proof -
  have cap: "wrap32 (SCHED_MAX_CAPACITY + extraCapacityInByteByPrio st p) = SCHED_MAX_CAPACITY + extraCapacityInByteByPrio st p"
    using rel by (simp add: sched_rel_def sched_consts)
  then show "curTotalSizeByByte st \<ge> SCHED_MAX_CAPACITY + extraCapacityInByteByPrio st p \<Longrightarrow>
      AddSendTaskIntoSchedule st k p = (st, E_CONTAINER_FULL)" by (simp add: AddSendTaskIntoSchedule_def)
  assume room: "curTotalSizeByByte st < SCHED_MAX_CAPACITY + extraCapacityInByteByPrio st p"
  let ?t = "dstTarget k" and ?m = "policyMap st"
  define m where "m = (if ?m ?t = None then ?m(?t \<mapsto> NO_DELAY) else ?m)"
  have d: "delayed m = delayed ?m" by (auto simp: m_def delayed_def fun_eq_iff)
  note b = sched_rel_bounds [OF rel]
  have lists: "lists_rel st q" and counts: "counts_rel st q" using rel by (simp_all add: sched_rel_def)
  have dl: "length (filter (delayed ?m) (all_tasks q)) < 239075328" "length (filter (delayed ?m) (q p)) < 239075328"
    using b(2) b(3) [of p] length_filter_le [of "delayed ?m" "all_tasks q"] length_filter_le [of "delayed ?m" "q p"] by linarith+
  have ks: "task_size k \<le> 104857600" using rel k(2) by (simp add: sched_rel_def MAX_TOTAL_LEN_def)
  define st' where "st' = st\<lparr>curTotalSizeByByte := curTotalSizeByByte st + task_size k,
    curTotalSizeByTask := curTotalSizeByTask st + 1, policyMap := m,
    delayTaskCount := delayTaskCount st + (if delayed ?m k then 1 else 0),
    taskDelayCountByPrio := (taskDelayCountByPrio st)(p := taskDelayCountByPrio st p + (if delayed ?m k then 1 else 0)),
    taskCountByPrio := (taskCountByPrio st)(p := taskCountByPrio st p + 1),
    taskOrderByPrio := (taskOrderByPrio st)(p := taskOrderByPrio st p @ [?t]),
    taskGroupByPrio := (taskGroupByPrio st)(p := (taskGroupByPrio st p)(?t := taskGroupByPrio st p ?t @ [k]))\<rparr>"
  have small: "curTotalSizeByByte st + task_size k < 4294967296" "Suc (curTotalSizeByTask st) < 4294967296"
    "Suc (delayTaskCount st) < 4294967296" "Suc (taskDelayCountByPrio st p) < 4294967296" "Suc (taskCountByPrio st p) < 4294967296"
    using counts b(1,2) b(3) [of p] dl ks by (simp_all add: counts_rel_def)
  have "AddSendTaskIntoSchedule st k p = (st', E_OK)"
  proof (cases "?m ?t")
    case None
    then show ?thesis using room small by (simp add: AddSendTaskIntoSchedule_def cap st'_def m_def delayed_def Let_def)
  next
    case (Some po)
    then show ?thesis using room small
      by (cases po) (simp_all add: AddSendTaskIntoSchedule_def cap st'_def m_def delayed_def Let_def)
  qed
  moreover have "counts_rel st' (q(p := q p @ [k]))"
    using counts by (simp add: counts_rel_def st'_def all_tasks_push d)
  moreover have "lists_rel st' (q(p := q p @ [k]))" using lists by (auto simp: lists_rel_def st'_def)
  moreover have "scheduledFlag st \<longrightarrow> lastScheduleTarget st \<in> dstTarget ` set ((q(p := q p @ [k])) (lastSchedulePriority st))"
    using rel by (auto simp: sched_rel_def)
  moreover have "curTotalSizeByByte st + task_size k < SCHED_MAX_CAPACITY + EXTRA_CAPACITY_FOR_HIGH_PRIORITY + M"
    using room k(2) rel by (cases p) (auto simp: sched_rel_def sched_consts)
  moreover have "policyMap st' (dstTarget k') \<noteq> None \<and> 0 < task_size k' \<and> task_size k' \<le> M"
    if "k' \<in> set (all_tasks (q(p := q p @ [k])))" for k'
    using that rel k by (auto simp: all_tasks_push sched_rel_def st'_def m_def)
  ultimately have new: "AddSendTaskIntoSchedule st k p = (st', E_OK)" "sched_rel M st' (q(p := q p @ [k]))"
    using rel by (simp_all add: sched_rel_def st'_def)
  show "\<exists>st'. AddSendTaskIntoSchedule st k p = (st', E_OK) \<and> sched_rel M st' (q(p := q p @ [k])) \<and>
        scheduledFlag st' = scheduledFlag st \<and> lastScheduleTarget st' = lastScheduleTarget st \<and>
        lastSchedulePriority st' = lastSchedulePriority st"
    using new by (intro exI [of _ st']) (simp add: st'_def)
qed

text \<open>The order of service: tasks of targets that are not delayed by priority, then the delayed ones.\<close>

definition service :: "(string \<rightharpoonup> TargetPolicy) \<Rightarrow> (Priority \<Rightarrow> SendTask list) \<Rightarrow> (Priority \<times> SendTask) list" where
  "service m q = concat (map (\<lambda>p. map (Pair p) (filter (\<lambda>k. \<not> delayed m k) (q p))) [HIGH, NORMAL, LOW]) @
                 concat (map (\<lambda>p. map (Pair p) (filter (delayed m) (q p))) [HIGH, NORMAL, LOW])"

lemma policy_of_delayed: "policy_of st t = DELAY \<longleftrightarrow> policyMap st t = Some DELAY"
  by (cases "policyMap st t") (auto simp: policy_of_def)

lemma touch_policy_id: "policyMap st t \<noteq> None \<Longrightarrow> touch_policy t st = st"
  by (cases "policyMap st t") (auto simp: touch_policy_def policy_of_def fun_upd_idem)

lemma find_no_delay_eq:
  assumes "\<And>k. k \<in> set ks \<Longrightarrow> policyMap st (dstTarget k) \<noteq> None"
  shows "find_no_delay st (map dstTarget ks) =
    (st, case filter (\<lambda>k. \<not> delayed (policyMap st) k) ks of [] \<Rightarrow> None | k # _ \<Rightarrow> Some (dstTarget k))"
  using assms
proof (induction ks)
  case (Cons k ks)
  have "policy_of st (dstTarget k) = NO_DELAY \<longleftrightarrow> \<not> delayed (policyMap st) k"
    using policy_of_delayed [of st "dstTarget k"] by (cases "policy_of st (dstTarget k)") (auto simp: delayed_def)
  then show ?case using Cons by (simp add: touch_policy_id)
qed simp

text \<open>The first task that is not delayed is the first task of its target.\<close>

lemma first_of_target:
  assumes "filter (\<lambda>k. \<not> delayed m k) ks = k # rest"
  shows "\<exists>more. filter (\<lambda>j. dstTarget j = dstTarget k) ks = k # more"
proof -
  obtain us vs where ks: "ks = us @ k # vs" "\<forall>u \<in> set us. delayed m u" "\<not> delayed m k"
    using assms unfolding filter_eq_Cons_iff by auto
  then have "filter (\<lambda>j. dstTarget j = dstTarget k) us = []" by (auto simp: filter_empty_conv delayed_def)
  then show ?thesis by (simp add: ks(1))
qed

definition scheduled_as :: "(string \<rightharpoonup> TargetPolicy) \<Rightarrow> Priority \<times> SendTask \<Rightarrow> SendTask \<times> SendTaskInfo" where
  "scheduled_as m x = (snd x, \<lparr>delayFlag = delayed m (snd x), taskPrio = fst x\<rparr>)"

lemma NoDelay_loop:
  assumes rel: "lists_rel st q" "counts_rel st q" "\<And>p k. k \<in> set (q p) \<Longrightarrow> policyMap st (dstTarget k) \<noteq> None"
  shows "ScheduleNoDelayTask_loop st ps =
    (st, case concat (map (\<lambda>p. map (Pair p) (filter (\<lambda>k. \<not> delayed (policyMap st) k) (q p))) ps) of
           [] \<Rightarrow> Inl E_INTERNAL_ERROR | x # _ \<Rightarrow> Inr (scheduled_as (policyMap st) x))"
proof (induction ps)
  case (Cons p ps)
  let ?m = "policyMap st"
  have part: "length (filter (delayed ?m) (q p)) + length (filter (\<lambda>k. \<not> delayed ?m k) (q p)) = length (q p)"
    by (rule sum_length_filter_compl)
  show ?case
  proof (cases "filter (\<lambda>k. \<not> delayed ?m k) (q p)")
    case Nil
    then show ?thesis using Cons part rel(2) by (simp add: counts_rel_def)
  next
    case (Cons k rest)
    then have "length (filter (delayed ?m) (q p)) < length (q p)" using part by simp
    moreover obtain more where "taskGroupByPrio st p (dstTarget k) = k # more"
      using first_of_target [OF Cons] rel(1) by (auto simp: lists_rel_def)
    moreover have "\<not> delayed ?m k" using Cons by (metis filter_eq_Cons_iff)
    moreover have "find_no_delay st (taskOrderByPrio st p) = (st, Some (dstTarget k))"
      using find_no_delay_eq [of "q p" st] rel(1,3) Cons by (simp add: lists_rel_def)
    ultimately show ?thesis using rel(2) Cons by (auto simp: counts_rel_def scheduled_as_def)
  qed
qed simp

lemma Delay_loop:
  assumes rel: "lists_rel st q" "counts_rel st q" and all: "\<And>p k. k \<in> set (q p) \<Longrightarrow> delayed (policyMap st) k"
  shows "ScheduleDelayTask_loop st ps =
    (case concat (map (\<lambda>p. map (Pair p) (q p)) ps) of
       [] \<Rightarrow> Inl E_INTERNAL_ERROR | x # _ \<Rightarrow> Inr (scheduled_as (policyMap st) x))"
proof (induction ps)
  case (Cons p ps)
  show ?case
  proof (cases "q p")
    case Nil
    then show ?thesis using Cons rel(2) by (simp add: counts_rel_def)
  next
    case (Cons k ks)
    then have "taskOrderByPrio st p = dstTarget k # map dstTarget ks"
      "taskGroupByPrio st p (dstTarget k) = k # filter (\<lambda>j. dstTarget j = dstTarget k) ks"
      using rel(1) by (simp_all add: lists_rel_def)
    then show ?thesis using Cons rel(2) all [of k p] by (simp add: counts_rel_def scheduled_as_def)
  qed
qed simp

lemma service_Nil: "service m q = [] \<longleftrightarrow> all_tasks q = []"
proof -
  have "filter P xs @ filter (\<lambda>x. \<not> P x) xs = [] \<longleftrightarrow> xs = []" for P and xs :: "SendTask list"
    by (auto simp: filter_empty_conv)
  then show ?thesis by (auto simp: service_def all_tasks_def)
qed

lemma ScheduleOut_rel:
  assumes rel: "sched_rel M st q"
  shows "ScheduleOutSendTask st =
    (case service (policyMap st) q of
       [] \<Rightarrow> (st, Inl E_CONTAINER_EMPTY)
     | x # _ \<Rightarrow> (remember_schedule (scheduled_as (policyMap st) x) st, Inr (scheduled_as (policyMap st) x)))"
proof (cases "all_tasks q = []")
  case True
  then show ?thesis using rel service_Nil [of "policyMap st" q]
    by (simp add: ScheduleOutSendTask_def sched_rel_def counts_rel_def)
next
  case False
  let ?m = "policyMap st"
  have r: "lists_rel st q" "counts_rel st q" "\<And>p k. k \<in> set (q p) \<Longrightarrow> policyMap st (dstTarget k) \<noteq> None"
    "priorityOrder st = [HIGH, NORMAL, LOW]"
    using rel by (auto simp: sched_rel_def all_tasks_mem)
  have cnt: "curTotalSizeByTask st \<noteq> 0" using False r(2) by (simp add: counts_rel_def)
  show ?thesis
  proof (cases "\<forall>k \<in> set (all_tasks q). delayed ?m k")
    case True
    then have all: "\<And>p k. k \<in> set (q p) \<Longrightarrow> delayed ?m k" by (auto simp: all_tasks_mem)
    have "filter (delayed ?m) (q p) = q p" "filter (\<lambda>k. \<not> delayed ?m k) (q p) = []" for p
      using all by (auto simp: filter_id_conv filter_empty_conv)
    then have sv: "service ?m q = concat (map (\<lambda>p. map (Pair p) (q p)) [HIGH, NORMAL, LOW])" by (simp add: service_def)
    have "delayTaskCount st = curTotalSizeByTask st" using True r(2) by (simp add: counts_rel_def filter_True)
    then show ?thesis
      using cnt Delay_loop [OF r(1,2) all, where ps = "[HIGH, NORMAL, LOW]"] False service_Nil [of ?m q]
      unfolding sv [symmetric] by (cases "service ?m q") (simp_all add: ScheduleOutSendTask_def ScheduleDelayTask_def r(4))
  next
    case False
    let ?u = "concat (map (\<lambda>p. map (Pair p) (filter (\<lambda>k. \<not> delayed ?m k) (q p))) [HIGH, NORMAL, LOW])"
    have "length (filter (delayed ?m) (all_tasks q)) < length (all_tasks q)"
      using False by (auto intro: length_filter_less)
    then have "delayTaskCount st \<noteq> curTotalSizeByTask st" using r(2) by (simp add: counts_rel_def)
    moreover have "?u \<noteq> []" using False by (auto simp: all_tasks_def filter_empty_conv)
    then obtain x xs where u: "?u = x # xs" by (cases ?u) auto
    moreover have "service ?m q = x # (xs @ concat (map (\<lambda>p. map (Pair p) (filter (delayed ?m) (q p))) [HIGH, NORMAL, LOW]))"
      unfolding service_def u by simp
    ultimately show ?thesis
      using cnt NoDelay_loop [OF r(1-3), where ps = "[HIGH, NORMAL, LOW]"]
      by (simp add: ScheduleOutSendTask_def ScheduleNoDelayTask_def r(4) del: concat.simps list.map)
  qed
qed

lemma all_tasks_remove:
  assumes "q p = ys @ k # zs"
  shows "length (all_tasks q) = Suc (length (all_tasks (q(p := ys @ zs))))"
    "length (filter P (all_tasks q)) = length (filter P (all_tasks (q(p := ys @ zs)))) + (if P k then 1 else 0)"
    "sum_list (map task_size (all_tasks q)) = sum_list (map task_size (all_tasks (q(p := ys @ zs)))) + task_size k"
    "set (all_tasks (q(p := ys @ zs))) \<subseteq> set (all_tasks q)"
  using assms by (cases p; auto simp: all_tasks_def)+

lemma FinalizeLast_eq:
  assumes "scheduledFlag st" and "curTotalSizeByTask st \<noteq> 0"
    and "taskGroupByPrio st (lastSchedulePriority st) (lastScheduleTarget st) = k # ks"
    and "policyMap st (lastScheduleTarget st) \<noteq> None"
    and "dl = (if policy_of st (lastScheduleTarget st) = DELAY then 1 else 0)"
    and "sub32 (delayTaskCount st) dl = dc" "sub32 (taskDelayCountByPrio st (lastSchedulePriority st)) dl = dp"
    and "dl = 0 \<longrightarrow> dc = delayTaskCount st" "dl = 0 \<longrightarrow> dp = taskDelayCountByPrio st (lastSchedulePriority st)"
  shows "fst (FinalizeLastScheduleTask st) = st\<lparr>curTotalSizeByByte := sub32 (curTotalSizeByByte st) (task_size k),
      curTotalSizeByTask := sub32 (curTotalSizeByTask st) 1,
      taskCountByPrio := (taskCountByPrio st)(lastSchedulePriority st := sub32 (taskCountByPrio st (lastSchedulePriority st)) 1),
      delayTaskCount := dc, taskDelayCountByPrio := (taskDelayCountByPrio st)(lastSchedulePriority st := dp),
      taskOrderByPrio := (taskOrderByPrio st)(lastSchedulePriority st :=
        remove1 (lastScheduleTarget st) (taskOrderByPrio st (lastSchedulePriority st))),
      taskGroupByPrio := (taskGroupByPrio st)(lastSchedulePriority st :=
        (taskGroupByPrio st (lastSchedulePriority st))(lastScheduleTarget st := ks)),
      scheduledFlag := False\<rparr>"
    "snd (FinalizeLastScheduleTask st) \<in> {E_OK, E_CONTAINER_FULL_TO_NOTFULL, E_CONTAINER_NOTEMPTY_TO_EMPTY, E_CONTAINER_ONLY_DELAY_TASK}"
proof -
  let ?t = "lastScheduleTarget st"
  have touch: "touch_policy ?t (st\<lparr>curTotalSizeByByte := a, curTotalSizeByTask := b, taskCountByPrio := c\<rparr>) =
      st\<lparr>curTotalSizeByByte := a, curTotalSizeByTask := b, taskCountByPrio := c\<rparr>" for a b c
    using assms(4) by (intro touch_policy_id) simp
  have pol: "policy_of (st\<lparr>curTotalSizeByByte := a, curTotalSizeByTask := b, taskCountByPrio := c\<rparr>) ?t = policy_of st ?t" for a b c
    by (simp add: policy_of_def)
  show "snd (FinalizeLastScheduleTask st) \<in> {E_OK, E_CONTAINER_FULL_TO_NOTFULL, E_CONTAINER_NOTEMPTY_TO_EMPTY, E_CONTAINER_ONLY_DELAY_TASK}"
    using assms(1-3) by (simp add: FinalizeLastScheduleTask_def Let_def)
  show "fst (FinalizeLastScheduleTask st) = st\<lparr>curTotalSizeByByte := sub32 (curTotalSizeByByte st) (task_size k),
      curTotalSizeByTask := sub32 (curTotalSizeByTask st) 1,
      taskCountByPrio := (taskCountByPrio st)(lastSchedulePriority st := sub32 (taskCountByPrio st (lastSchedulePriority st)) 1),
      delayTaskCount := dc, taskDelayCountByPrio := (taskDelayCountByPrio st)(lastSchedulePriority st := dp),
      taskOrderByPrio := (taskOrderByPrio st)(lastSchedulePriority st :=
        remove1 ?t (taskOrderByPrio st (lastSchedulePriority st))),
      taskGroupByPrio := (taskGroupByPrio st)(lastSchedulePriority st :=
        (taskGroupByPrio st (lastSchedulePriority st))(?t := ks)),
      scheduledFlag := False\<rparr>"
    using assms by (cases "policy_of st ?t = DELAY") (simp_all add: FinalizeLastScheduleTask_def Let_def touch pol)
qed

lemma FinalizeLast_rel:
  assumes rel: "sched_rel M st q" and flag: "scheduledFlag st"
    and q: "q (lastSchedulePriority st) = ys @ k # zs" "dstTarget k = lastScheduleTarget st"
      "\<And>y. y \<in> set ys \<Longrightarrow> dstTarget y \<noteq> lastScheduleTarget st"
  shows "sched_rel M (fst (FinalizeLastScheduleTask st)) (q(lastSchedulePriority st := ys @ zs)) \<and>
    policyMap (fst (FinalizeLastScheduleTask st)) = policyMap st \<and> \<not> scheduledFlag (fst (FinalizeLastScheduleTask st)) \<and>
    snd (FinalizeLastScheduleTask st) \<in> {E_OK, E_CONTAINER_FULL_TO_NOTFULL, E_CONTAINER_NOTEMPTY_TO_EMPTY, E_CONTAINER_ONLY_DELAY_TASK}"
proof -
  let ?p = "lastSchedulePriority st" and ?t = "lastScheduleTarget st" and ?m = "policyMap st"
  let ?q = "q(?p := ys @ zs)"
  define dl where "dl = (if delayed ?m k then 1 else 0 :: nat)"
  have lists: "lists_rel st q" and counts: "counts_rel st q" using rel by (simp_all add: sched_rel_def)
  note b = sched_rel_bounds [OF rel] and rm = all_tasks_remove [where q = q, OF q(1)]
  have ys: "filter (\<lambda>k. dstTarget k = ?t) ys = []" using q(3) by (auto simp: filter_empty_conv)
  have grp: "taskGroupByPrio st ?p ?t = k # filter (\<lambda>k. dstTarget k = ?t) zs"
    using lists q(1,2) ys by (simp add: lists_rel_def)
  have "k \<in> set (q ?p)" by (simp add: q(1))
  then have pol: "?m ?t \<noteq> None" using sched_rel_task(1) [OF rel] q(2) by metis
  have del: "policy_of st ?t = DELAY \<longleftrightarrow> delayed ?m k" using q(2) by (simp add: policy_of_delayed delayed_def)
  have fl: "length (filter (delayed ?m) (q ?p)) = length (filter (delayed ?m) (ys @ zs)) + dl"
    "length (filter (delayed ?m) (all_tasks q)) = length (filter (delayed ?m) (all_tasks ?q)) + dl"
    using q(1) rm(2) [of "delayed ?m"] by (simp_all add: dl_def)
  have small: "length (filter (delayed ?m) (all_tasks q)) < 239075328" "length (filter (delayed ?m) (q ?p)) < 239075328"
    using b(2) b(3) [of ?p] length_filter_le [of "delayed ?m" "all_tasks q"] length_filter_le [of "delayed ?m" "q ?p"] by linarith+
  have sub: "sub32 (curTotalSizeByByte st) (task_size k) = sum_list (map task_size (all_tasks ?q))"
    "sub32 (curTotalSizeByTask st) 1 = length (all_tasks ?q)" "sub32 (taskCountByPrio st ?p) 1 = length (ys @ zs)"
    "sub32 (delayTaskCount st) dl = length (filter (delayed ?m) (all_tasks ?q))"
    "sub32 (taskDelayCountByPrio st ?p) dl = length (filter (delayed ?m) (ys @ zs))"
    using counts b(1,2) b(3) [of ?p] rm(1,3) q(1) fl small by (simp_all add: counts_rel_def)
  define st' where "st' = st\<lparr>curTotalSizeByByte := sum_list (map task_size (all_tasks ?q)),
    curTotalSizeByTask := length (all_tasks ?q), taskCountByPrio := (taskCountByPrio st)(?p := length (ys @ zs)),
    delayTaskCount := length (filter (delayed ?m) (all_tasks ?q)),
    taskDelayCountByPrio := (taskDelayCountByPrio st)(?p := length (filter (delayed ?m) (ys @ zs))),
    taskOrderByPrio := (taskOrderByPrio st)(?p := map dstTarget (ys @ zs)),
    taskGroupByPrio := (taskGroupByPrio st)(?p := (taskGroupByPrio st ?p)(?t := filter (\<lambda>k. dstTarget k = ?t) zs)),
    scheduledFlag := False\<rparr>"
  have "?t \<notin> set (map dstTarget ys)" using q(3) by (metis imageE set_map)
  then have rem1: "remove1 ?t (taskOrderByPrio st ?p) = map dstTarget (ys @ zs)"
    using lists q(1,2) by (simp add: lists_rel_def remove1_append)
  have same: "dl = 0 \<longrightarrow> length (filter (delayed ?m) (all_tasks ?q)) = delayTaskCount st"
    "dl = 0 \<longrightarrow> length (filter (delayed ?m) (ys @ zs)) = taskDelayCountByPrio st ?p"
    using fl counts by (simp_all add: counts_rel_def)
  have "curTotalSizeByTask st \<noteq> 0" "dl = (if policy_of st ?t = DELAY then 1 else 0)"
    using counts rm(1) del by (simp_all add: counts_rel_def dl_def)
  note fe = FinalizeLast_eq [OF flag this(1) grp pol this(2) sub(4,5) same]
  have "fst (FinalizeLastScheduleTask st) = st'" unfolding fe(1) st'_def sub(1-3) rem1 ..
  moreover have "lists_rel st' ?q" using lists q(1,2) ys by (auto simp: lists_rel_def st'_def)
  moreover have "counts_rel st' ?q" using counts by (simp add: counts_rel_def st'_def)
  moreover have "sum_list (map task_size (all_tasks ?q)) \<le> curTotalSizeByByte st"
    using counts rm(3) by (simp add: counts_rel_def)
  ultimately show ?thesis using rel rm(4) fe(2) by (auto simp: sched_rel_def st'_def)
qed

end
