(* ===== verification/Send_Scheduling.thy ===== *)
theory Send_Scheduling
  imports Send_Task_Scheduler
begin

text \<open>
  The guarantees of the send task scheduler in every state it can reach: it serves the tasks of one
  first-in first-out queue per priority, delayed targets last; a scheduled task is the one that is
  removed, whatever is added or delayed in between; its counters are exact; and finalizing it ends.
\<close>

section \<open>Changing the policy of a target\<close>

lemma filter_delay_target:
  assumes "m t = Some NO_DELAY"
  shows "length (filter (delayed (m(t \<mapsto> DELAY))) ks) =
    length (filter (delayed m) ks) + length (filter (\<lambda>k. dstTarget k = t) ks)"
  using assms by (induction ks) (auto simp: delayed_def)

lemma policy_change_rel:
  assumes rel: "sched_rel M st q"
    and st': "st' = st\<lparr>policyMap := m, delayTaskCount := length (filter (delayed m) (all_tasks q)),
      taskDelayCountByPrio := (\<lambda>p. length (filter (delayed m) (q p)))\<rparr>"
    and m: "\<And>t. policyMap st t \<noteq> None \<Longrightarrow> m t \<noteq> None"
  shows "sched_rel M st' q"
proof -
  have "lists_rel st' q" "counts_rel st' q"
    using rel by (simp_all add: sched_rel_def lists_rel_def counts_rel_def st')
  moreover have "policyMap st' (dstTarget k) \<noteq> None \<and> 0 < task_size k \<and> task_size k \<le> M" if k: "k \<in> set (all_tasks q)" for k
  proof -
    obtain p where p: "k \<in> set (q p)" using k all_tasks_mem by blast
    show ?thesis using sched_rel_task [OF rel p] m [of "dstTarget k"] by (simp add: st' del: not_None_eq)
  qed
  ultimately show ?thesis using rel by (simp add: sched_rel_def st' del: not_None_eq)
qed

lemma three_prios: "f = g \<longleftrightarrow> f HIGH = g HIGH \<and> f NORMAL = g NORMAL \<and> f LOW = g LOW" for f g :: "Priority \<Rightarrow> 'a"
  by (auto simp: fun_eq_iff) (metis Priority.exhaust)

lemma group_length:
  assumes "sched_rel M st q"
  shows "length (taskGroupByPrio st p t) = length (filter (\<lambda>k. dstTarget k = t) (q p))"
    "length (filter P (q p)) < 239075328" "length (filter P (all_tasks q)) < 239075328"
proof -
  show "length (taskGroupByPrio st p t) = length (filter (\<lambda>k. dstTarget k = t) (q p))"
    using assms by (simp add: sched_rel_def lists_rel_def)
  note b = sched_rel_bounds(2,3) [OF assms]
  show "length (filter P (q p)) < 239075328" "length (filter P (all_tasks q)) < 239075328"
    using b(1) b(2) [of p] length_filter_le [of P "q p"] length_filter_le [of P "all_tasks q"] by linarith+
qed

lemma add_counts_eq:
  assumes "priorityOrder st = [HIGH, NORMAL, LOW]" and "\<And>p. length (taskGroupByPrio st p t) = c p" and "\<And>p. c p < 4294967296"
    and "\<And>p. f (taskDelayCountByPrio st p) (c p) = d p"
    and "f (f (f (delayTaskCount st) (c HIGH)) (c NORMAL)) (c LOW) = n"
  shows "adjust_delay_counts f t st = st\<lparr>taskDelayCountByPrio := d, delayTaskCount := n\<rparr>"
proof -
  have "(taskDelayCountByPrio st)(HIGH := d HIGH, NORMAL := d NORMAL, LOW := d LOW) = d"
    by (simp add: three_prios)
  then show ?thesis using assms by (simp add: adjust_delay_counts_def Let_def)
qed

lemma Delay_rel:
  assumes rel: "sched_rel M st q"
  shows "\<exists>st' e. DelayTaskByTarget st t = (st', e) \<and> sched_rel M st' q \<and> scheduledFlag st' = scheduledFlag st \<and>
    lastScheduleTarget st' = lastScheduleTarget st \<and> lastSchedulePriority st' = lastSchedulePriority st \<and>
    e = (if policyMap st t = None then E_NOT_FOUND else E_OK) \<and>
    policyMap st' = (if policyMap st t = None then policyMap st else (policyMap st)(t \<mapsto> DELAY))"
proof (cases "policyMap st t = Some NO_DELAY")
  case False
  then have "policyMap st t = None \<or> policyMap st t = Some DELAY" by (metis TargetPolicy.exhaust not_Some_eq)
  then show ?thesis using rel by (auto simp: DelayTaskByTarget_def fun_upd_idem)
next
  case True
  let ?m = "(policyMap st)(t \<mapsto> DELAY)" and ?c = "\<lambda>p. length (filter (\<lambda>k. dstTarget k = t) (q p))"
  let ?st = "st\<lparr>policyMap := ?m\<rparr>"
  define st' where "st' = st\<lparr>policyMap := ?m, delayTaskCount := length (filter (delayed ?m) (all_tasks q)),
    taskDelayCountByPrio := (\<lambda>p. length (filter (delayed ?m) (q p)))\<rparr>"
  note g = group_length [OF rel]
  have c: "taskDelayCountByPrio st p = length (filter (delayed (policyMap st)) (q p))"
    "delayTaskCount st = length (filter (delayed (policyMap st)) (all_tasks q))" "priorityOrder st = [HIGH, NORMAL, LOW]" for p
    using rel by (simp_all add: sched_rel_def counts_rel_def)
  note fd = filter_delay_target [where m = "policyMap st" and t = t, OF True]
  have dl: "wrap32 (taskDelayCountByPrio ?st p + ?c p) = length (filter (delayed ?m) (q p))" for p
    using g(2) [of "delayed ?m" p] by (simp add: c fd)
  have "length (filter (delayed (policyMap st)) (all_tasks q)) + ?c HIGH + ?c NORMAL + ?c LOW =
      length (filter (delayed ?m) (all_tasks q))" unfolding fd by (simp add: all_tasks_def)
  then have tot: "wrap32 (wrap32 (wrap32 (delayTaskCount ?st + ?c HIGH) + ?c NORMAL) + ?c LOW) =
      length (filter (delayed ?m) (all_tasks q))" using g(3) [of "delayed ?m"] by (simp add: c mod_add_left_eq)
  have "adjust_delay_counts (\<lambda>x y. wrap32 (x + y)) t ?st = st'"
    using add_counts_eq [where st = ?st and f = "\<lambda>x y. wrap32 (x + y)" and c = ?c, OF _ _ _ dl tot] g(1,2)
    by (simp add: st'_def less_trans [OF g(2)] c(3))
  moreover have "sched_rel M st' q" by (rule policy_change_rel [OF rel st'_def]) simp
  moreover have "DelayTaskByTarget st t = (adjust_delay_counts (\<lambda>x y. wrap32 (x + y)) t ?st, E_OK)"
    using True by (simp add: DelayTaskByTarget_def)
  ultimately show ?thesis using True by (simp add: st'_def)
qed

lemma filter_no_delay_target:
  assumes "m t = Some DELAY"
  shows "length (filter (delayed m) ks) =
    length (filter (delayed (m(t \<mapsto> NO_DELAY))) ks) + length (filter (\<lambda>k. dstTarget k = t) ks)"
  using assms by (induction ks) (auto simp: delayed_def)

lemma NoDelay_rel:
  assumes rel: "sched_rel M st q"
  shows "\<exists>st' e. NoDelayTaskByTarget st t = (st', e) \<and> sched_rel M st' q \<and> scheduledFlag st' = scheduledFlag st \<and>
    lastScheduleTarget st' = lastScheduleTarget st \<and> lastSchedulePriority st' = lastSchedulePriority st \<and>
    e = (if policyMap st t = None then E_NOT_FOUND else E_OK) \<and>
    policyMap st' = (if policyMap st t = None then policyMap st else (policyMap st)(t \<mapsto> NO_DELAY))"
proof (cases "policyMap st t = Some DELAY")
  case False
  then have "policyMap st t = None \<or> policyMap st t = Some NO_DELAY" by (metis TargetPolicy.exhaust not_Some_eq)
  then show ?thesis using rel by (auto simp: NoDelayTaskByTarget_def fun_upd_idem)
next
  case True
  let ?m = "(policyMap st)(t \<mapsto> NO_DELAY)" and ?c = "\<lambda>p. length (filter (\<lambda>k. dstTarget k = t) (q p))"
  let ?st = "st\<lparr>policyMap := ?m\<rparr>"
  define st' where "st' = st\<lparr>policyMap := ?m, delayTaskCount := length (filter (delayed ?m) (all_tasks q)),
    taskDelayCountByPrio := (\<lambda>p. length (filter (delayed ?m) (q p)))\<rparr>"
  note g = group_length [OF rel]
  have c: "taskDelayCountByPrio st p = length (filter (delayed (policyMap st)) (q p))"
    "delayTaskCount st = length (filter (delayed (policyMap st)) (all_tasks q))" "priorityOrder st = [HIGH, NORMAL, LOW]" for p
    using rel by (simp_all add: sched_rel_def counts_rel_def)
  note fd = filter_no_delay_target [where m = "policyMap st" and t = t, OF True]
  have dl: "sub32 (taskDelayCountByPrio ?st p) (?c p) = length (filter (delayed ?m) (q p))" for p
    using g(2) [of "delayed (policyMap st)" p] by (simp add: c fd)
  have "length (filter (delayed (policyMap st)) (all_tasks q)) =
      length (filter (delayed ?m) (all_tasks q)) + ?c HIGH + ?c NORMAL + ?c LOW" unfolding fd by (simp add: all_tasks_def)
  then have tot: "sub32 (sub32 (sub32 (delayTaskCount ?st) (?c HIGH)) (?c NORMAL)) (?c LOW) =
      length (filter (delayed ?m) (all_tasks q))" using g(3) [of "delayed (policyMap st)"] by (simp add: c)
  have "adjust_delay_counts sub32 t ?st = st'"
    using add_counts_eq [where st = ?st and f = sub32 and c = ?c, OF _ _ _ dl tot] g(1,2)
    by (simp add: st'_def less_trans [OF g(2)] c(3))
  moreover have "sched_rel M st' q" by (rule policy_change_rel [OF rel st'_def]) simp
  moreover have "NoDelayTaskByTarget st t = (adjust_delay_counts sub32 t ?st, E_OK)"
    using True by (simp add: NoDelayTaskByTarget_def)
  ultimately show ?thesis using True by (simp add: st'_def)
qed

section \<open>Scheduling and finalizing a task\<close>

lemma set_service: "(p, k) \<in> set (service m q) \<longleftrightarrow> k \<in> set (q p)"
  by (cases p) (auto simp: service_def)

lemma remember_rel:
  assumes "sched_rel M st q" and "k \<in> set (q p)"
  shows "sched_rel M (remember_schedule (scheduled_as m (p, k)) st) q"
  using assms by (auto simp: sched_rel_def lists_rel_def counts_rel_def remember_schedule_def scheduled_as_def)

lemma remember_fields [simp]:
  "policyMap (remember_schedule out st) = policyMap st" "scheduledFlag (remember_schedule out st)"
  "lastScheduleTarget (remember_schedule out st) = dstTarget (fst out)"
  "lastSchedulePriority (remember_schedule out st) = taskPrio (snd out)"
  by (simp_all add: remember_schedule_def)

lemma scheduled_as_fields [simp]:
  "fst (scheduled_as m (p, k)) = k" "taskPrio (snd (scheduled_as m (p, k))) = p"
  "delayFlag (snd (scheduled_as m (p, k))) = delayed m k"
  by (simp_all add: scheduled_as_def)

lemma first_with_target:
  "t \<in> dstTarget ` set ks \<Longrightarrow> \<exists>ys k zs. ks = ys @ k # zs \<and> dstTarget k = t \<and> (\<forall>y \<in> set ys. dstTarget y \<noteq> t)"
  using split_list_first_prop [where P = "\<lambda>k. dstTarget k = t" and xs = ks] by auto

lemma FinalizeLast_any:
  assumes rel: "sched_rel M st q"
  shows "\<exists>q'. sched_rel M (fst (FinalizeLastScheduleTask st)) q'"
proof (cases "scheduledFlag st")
  case True
  then have "lastScheduleTarget st \<in> dstTarget ` set (q (lastSchedulePriority st))"
    using rel by (simp add: sched_rel_def)
  then obtain ys k zs where "q (lastSchedulePriority st) = ys @ k # zs" "dstTarget k = lastScheduleTarget st"
    "\<And>y. y \<in> set ys \<Longrightarrow> dstTarget y \<noteq> lastScheduleTarget st" using first_with_target by metis
  then show ?thesis using FinalizeLast_rel [OF rel True] by blast
next
  case False
  then show ?thesis using rel by (auto simp: FinalizeLastScheduleTask_def)
qed

text \<open>Where the first task of the order of service stands in its queue.\<close>

lemma undelayed_first:
  assumes "filter (\<lambda>k. \<not> delayed m k) ks = k # r"
  shows "\<exists>ys zs. ks = ys @ k # zs \<and> (\<forall>y \<in> set ys. dstTarget y \<noteq> dstTarget k) \<and>
    filter (\<lambda>k. \<not> delayed m k) (ys @ zs) = r \<and> filter (delayed m) (ys @ zs) = filter (delayed m) ks"
proof -
  obtain ys zs where ks: "ks = ys @ k # zs" "\<forall>y \<in> set ys. delayed m y" "\<not> delayed m k" "r = filter (\<lambda>k. \<not> delayed m k) zs"
    using assms unfolding filter_eq_Cons_iff by auto
  then have "\<forall>y \<in> set ys. dstTarget y \<noteq> dstTarget k" "filter (\<lambda>k. \<not> delayed m k) ys = []"
    by (auto simp: delayed_def filter_empty_conv)
  then show ?thesis using ks by (intro exI [of _ ys] exI [of _ zs]) simp
qed

lemma delayed_first:
  assumes "filter (\<lambda>k. \<not> delayed m k) ks = []" and "filter (delayed m) ks = k # r"
  shows "\<exists>ys zs. ks = ys @ k # zs \<and> (\<forall>y \<in> set ys. dstTarget y \<noteq> dstTarget k) \<and>
    filter (\<lambda>k. \<not> delayed m k) (ys @ zs) = [] \<and> filter (delayed m) (ys @ zs) = r"
proof -
  have "filter (delayed m) ks = ks" using assms(1) by (auto simp: filter_id_conv filter_empty_conv)
  then have "ks = k # r" using assms(2) by simp
  then show ?thesis using assms by (intro exI [of _ "[]"] exI [of _ r]) (auto split: if_splits)
qed

lemma service_first:
  assumes sv: "service m q = (p, k) # rest"
  shows "\<exists>ys zs. q p = ys @ k # zs \<and> (\<forall>y \<in> set ys. dstTarget y \<noteq> dstTarget k) \<and> service m (q(p := ys @ zs)) = rest"
proof -
  let ?u = "\<lambda>p. filter (\<lambda>k. \<not> delayed m k) (q p)" and ?d = "\<lambda>p. filter (delayed m) (q p)"
  have upd: "service m (q(p := ks)) = (if p = HIGH then map (Pair HIGH) (filter (\<lambda>k. \<not> delayed m k) ks) else map (Pair HIGH) (?u HIGH)) @
      (if p = NORMAL then map (Pair NORMAL) (filter (\<lambda>k. \<not> delayed m k) ks) else map (Pair NORMAL) (?u NORMAL)) @
      (if p = LOW then map (Pair LOW) (filter (\<lambda>k. \<not> delayed m k) ks) else map (Pair LOW) (?u LOW)) @
      (if p = HIGH then map (Pair HIGH) (filter (delayed m) ks) else map (Pair HIGH) (?d HIGH)) @
      (if p = NORMAL then map (Pair NORMAL) (filter (delayed m) ks) else map (Pair NORMAL) (?d NORMAL)) @
      (if p = LOW then map (Pair LOW) (filter (delayed m) ks) else map (Pair LOW) (?d LOW))" for p ks
    by (simp add: service_def)
  have sv': "map (Pair HIGH) (?u HIGH) @ map (Pair NORMAL) (?u NORMAL) @ map (Pair LOW) (?u LOW) @
      map (Pair HIGH) (?d HIGH) @ map (Pair NORMAL) (?d NORMAL) @ map (Pair LOW) (?d LOW) = (p, k) # rest"
    using sv by (simp add: service_def)
  consider (u) r where "?u p = k # r" | (d) r where "?u HIGH = []" "?u NORMAL = []" "?u LOW = []" "?d p = k # r"
    using sv' by (cases "?u HIGH"; cases "?u NORMAL"; cases "?u LOW"; cases "?d HIGH"; cases "?d NORMAL"; cases "?d LOW") auto
  then show ?thesis
  proof cases
    case u
    obtain ys zs where yz: "q p = ys @ k # zs" "\<forall>y \<in> set ys. dstTarget y \<noteq> dstTarget k"
      "filter (\<lambda>k. \<not> delayed m k) (ys @ zs) = r" "filter (delayed m) (ys @ zs) = ?d p" using undelayed_first [OF u] by blast
    have "service m (q(p := ys @ zs)) = rest"
      using sv' u yz(3,4) unfolding upd
      by (cases p; cases "?u HIGH"; cases "?u NORMAL") (simp_all del: filter_append)
    then show ?thesis using yz by blast
  next
    case d
    then have "?u p = []" by (cases p) auto
    then obtain ys zs where yz: "q p = ys @ k # zs" "\<forall>y \<in> set ys. dstTarget y \<noteq> dstTarget k"
      "filter (\<lambda>k. \<not> delayed m k) (ys @ zs) = []" "filter (delayed m) (ys @ zs) = r" using delayed_first d(4) by blast
    have "service m (q(p := ys @ zs)) = rest"
      using sv' d yz(3,4) unfolding upd
      by (cases p; cases "?d HIGH"; cases "?d NORMAL") (simp_all del: filter_append)
    then show ?thesis using yz by blast
  qed
qed

section \<open>Reachable states\<close>

text \<open>The scheduler runs; the buffers handed to it are not empty and not larger than \<open>M\<close>.\<close>

inductive sched_reach :: "nat \<Rightarrow> SendTaskScheduler \<Rightarrow> bool" for M where
  start: "M \<le> MAX_TOTAL_LEN \<Longrightarrow> sched_reach M (Scheduler_Initialize SendTaskScheduler_init)"
| add: "sched_reach M st \<Longrightarrow> 0 < task_size k \<Longrightarrow> task_size k \<le> M \<Longrightarrow>
    sched_reach M (fst (AddSendTaskIntoSchedule st k p))"
| schedule: "sched_reach M st \<Longrightarrow> sched_reach M (fst (ScheduleOutSendTask st))"
| finish: "sched_reach M st \<Longrightarrow> sched_reach M (fst (FinalizeLastScheduleTask st))"
| delay: "sched_reach M st \<Longrightarrow> sched_reach M (fst (DelayTaskByTarget st t))"
| no_delay: "sched_reach M st \<Longrightarrow> sched_reach M (fst (NoDelayTaskByTarget st t))"

definition sched_inv :: "nat \<Rightarrow> SendTaskScheduler \<Rightarrow> bool" where
  "sched_inv M st \<longleftrightarrow> sched_rel M st (queue_of st)"

lemma sched_invI: "sched_rel M st q \<Longrightarrow> sched_inv M st"
  using sched_rel_unique by (auto simp: sched_inv_def)

lemma ScheduleOut_inv:
  assumes "sched_inv M st"
  shows "sched_inv M (fst (ScheduleOutSendTask st))"
proof (cases "service (policyMap st) (queue_of st)")
  case Nil
  then show ?thesis using assms ScheduleOut_rel [of M st "queue_of st"] by (simp add: sched_inv_def)
next
  case (Cons x rest)
  obtain p k where x: "x = (p, k)" by (cases x)
  have "k \<in> set (queue_of st p)" using set_service [of p k] Cons x by (metis list.set_intros(1))
  then have "sched_inv M (remember_schedule (scheduled_as (policyMap st) (p, k)) st)"
    using assms by (intro sched_invI [OF remember_rel]) (simp_all add: sched_inv_def)
  then show ?thesis using ScheduleOut_rel [OF assms [unfolded sched_inv_def]] Cons x by simp
qed

lemma sched_reach_inv: "sched_reach M st \<Longrightarrow> sched_inv M st"
proof (induction rule: sched_reach.induct)
  case start
  then show ?case by (rule sched_invI [OF Initialize_rel])
next
  case (add st k p)
  show ?case
    using Add_rel [OF add.IH [unfolded sched_inv_def] add.hyps(2,3), of p] add.IH
    by (cases "curTotalSizeByByte st \<ge> SCHED_MAX_CAPACITY + extraCapacityInByteByPrio st p") (auto intro: sched_invI)
next
  case (schedule st)
  then show ?case by (intro ScheduleOut_inv)
next
  case (finish st)
  then show ?case using FinalizeLast_any [OF finish.IH [unfolded sched_inv_def]] sched_invI by blast
next
  case (delay st t)
  then show ?case using Delay_rel [OF delay.IH [unfolded sched_inv_def], of t] sched_invI by (metis fst_conv)
next
  case (no_delay st t)
  then show ?case using NoDelay_rel [OF no_delay.IH [unfolded sched_inv_def], of t] sched_invI by (metis fst_conv)
qed

section \<open>Serving all tasks\<close>

text \<open>A source of tasks with an order of service: what a consumer of the scheduler relies on.\<close>

locale task_source =
  fixes inv :: "'s \<Rightarrow> bool" and pending :: "'s \<Rightarrow> 'k list" and take_next :: "'s \<Rightarrow> ('s \<times> 'k) option"
  assumes take_none: "inv s \<Longrightarrow> pending s = [] \<Longrightarrow> take_next s = None"
    and take_some: "inv s \<Longrightarrow> pending s = k # ks \<Longrightarrow> \<exists>s'. take_next s = Some (s', k) \<and> inv s' \<and> pending s' = ks"
begin

text \<open>A loop that takes tasks until there is none ends, and serves exactly the pending tasks in order.\<close>

lemma loop_serves_all:
  assumes "\<And>s. inv s \<Longrightarrow> loop s = (case take_next s of None \<Rightarrow> Some (s, [])
      | Some (s', k) \<Rightarrow> Option.bind (loop s') (\<lambda>(s, ks). Some (s, k # ks)))" and "inv s"
  shows "\<exists>s'. loop s = Some (s', pending s) \<and> inv s' \<and> pending s' = []"
  using assms(2)
proof (induction "pending s" arbitrary: s)
  case Nil
  then show ?case using assms(1) [of s] take_none [of s] by simp
next
  case (Cons k ks)
  obtain s' where s': "take_next s = Some (s', k)" "inv s'" "pending s' = ks"
    using take_some [OF Cons.prems, of k ks] Cons.hyps(2) by metis
  then show ?case using Cons.hyps(1) [of s'] assms(1) [OF Cons.prems] Cons.hyps(2) by auto
qed

end

text \<open>The scheduler as such a source: scheduling out a task and finalizing it.\<close>

definition service_order :: "SendTaskScheduler \<Rightarrow> SendTask list" where
  "service_order st = map snd (service (policyMap st) (queue_of st))"

definition serve_next :: "SendTaskScheduler \<Rightarrow> (SendTaskScheduler \<times> SendTask) option" where
  "serve_next st = (case ScheduleOutSendTask st of
     (st, Inl _) \<Rightarrow> None
   | (st, Inr (task, _)) \<Rightarrow> Some (fst (FinalizeLastScheduleTask st), task))"

lemma serve_first:
  assumes inv: "sched_inv M st" and sv: "service (policyMap st) (queue_of st) = (p, k) # rest"
  shows "\<exists>st'. serve_next st = Some (st', k) \<and> sched_inv M st' \<and> service (policyMap st') (queue_of st') = rest"
proof -
  let ?q = "queue_of st" and ?st = "remember_schedule (scheduled_as (policyMap st) (p, k)) st"
  obtain ys zs where yz: "?q p = ys @ k # zs" "\<And>y. y \<in> set ys \<Longrightarrow> dstTarget y \<noteq> dstTarget k"
    "service (policyMap st) (?q(p := ys @ zs)) = rest" using service_first [OF sv] by blast
  have rel: "sched_rel M ?st ?q" using inv yz(1) by (intro remember_rel) (auto simp: sched_inv_def)
  have "q' = ?q(p := ys @ zs) \<Longrightarrow> sched_rel M (fst (FinalizeLastScheduleTask ?st)) q' \<and>
      policyMap (fst (FinalizeLastScheduleTask ?st)) = policyMap st" for q'
    using FinalizeLast_rel [OF rel, of ys k zs] yz(1,2) by simp
  then have fin: "sched_rel M (fst (FinalizeLastScheduleTask ?st)) (?q(p := ys @ zs))"
    "policyMap (fst (FinalizeLastScheduleTask ?st)) = policyMap st" by simp_all
  have "serve_next st = Some (fst (FinalizeLastScheduleTask ?st), k)"
    using ScheduleOut_rel [of M st ?q] inv sv by (simp add: serve_next_def sched_inv_def scheduled_as_def)
  then show ?thesis using fin sched_invI [OF fin(1)] sched_rel_unique [OF fin(1)] yz(3) by simp
qed

interpretation sched: task_source "sched_inv M" service_order serve_next for M
proof unfold_locales
  fix s assume "sched_inv M s" "service_order s = []"
  then show "serve_next s = None"
    using ScheduleOut_rel [of M s "queue_of s"] by (simp add: serve_next_def sched_inv_def service_order_def)
next
  fix s k ks assume s: "sched_inv M s" "service_order s = k # ks"
  then obtain p rest where "service (policyMap s) (queue_of s) = (p, k) # rest" "map snd rest = ks"
    by (auto simp: service_order_def)
  then show "\<exists>s'. serve_next s = Some (s', k) \<and> sched_inv M s' \<and> service_order s' = ks"
    using serve_first [OF s(1)] by (auto simp: service_order_def)
qed

lemma length_service: "length (service m q) = length (all_tasks q)"
  using sum_length_filter_compl [of "delayed m" "q HIGH"] sum_length_filter_compl [of "delayed m" "q NORMAL"]
    sum_length_filter_compl [of "delayed m" "q LOW"] by (simp add: service_def all_tasks_def)

lemma sched_count:
  assumes "sched_inv M st"
  shows "GetTotalTaskCount st = length (service_order st)"
  using assms by (simp add: GetTotalTaskCount_def sched_inv_def sched_rel_def counts_rel_def service_order_def length_service)

lemma Scheduler_Finalize_step:
  assumes "sched_inv M st"
  shows "Scheduler_Finalize st = (case serve_next st of None \<Rightarrow> Some (st, [])
    | Some (s', k) \<Rightarrow> Option.bind (Scheduler_Finalize s') (\<lambda>(s, ks). Some (s, k # ks)))"
proof (cases "service (policyMap st) (queue_of st)")
  case Nil
  then have "GetTotalTaskCount st = 0" using sched_count [OF assms] by (simp add: service_order_def)
  moreover have "serve_next st = None" using sched.take_none [OF assms] Nil by (simp add: service_order_def)
  ultimately show ?thesis by (simp add: Scheduler_Finalize.simps [of st])
next
  case (Cons x rest)
  then have "GetTotalTaskCount st \<noteq> 0" using sched_count [OF assms] by (simp add: service_order_def)
  moreover have "ScheduleOutSendTask st = (remember_schedule (scheduled_as (policyMap st) x) st,
      Inr (scheduled_as (policyMap st) x))" using ScheduleOut_rel [OF assms [unfolded sched_inv_def]] Cons by simp
  ultimately show ?thesis
    by (simp add: Scheduler_Finalize.simps [of st] serve_next_def scheduled_as_def)
qed

text \<open>What other threads may do between scheduling out a task and finalizing it.\<close>

inductive interleaved :: "nat \<Rightarrow> SendTaskScheduler \<Rightarrow> SendTaskScheduler \<Rightarrow> bool" for M where
  none: "interleaved M st st"
| add: "interleaved M st st' \<Longrightarrow> 0 < task_size k \<Longrightarrow> task_size k \<le> M \<Longrightarrow>
    interleaved M st (fst (AddSendTaskIntoSchedule st' k p))"
| delay: "interleaved M st st' \<Longrightarrow> interleaved M st (fst (DelayTaskByTarget st' t))"
| no_delay: "interleaved M st st' \<Longrightarrow> interleaved M st (fst (NoDelayTaskByTarget st' t))"

definition same_schedule :: "SendTaskScheduler \<Rightarrow> SendTaskScheduler \<Rightarrow> bool" where
  "same_schedule st st' \<longleftrightarrow> scheduledFlag st' = scheduledFlag st \<and> lastScheduleTarget st' = lastScheduleTarget st \<and>
     lastSchedulePriority st' = lastSchedulePriority st"

lemma interleaved_appends:
  assumes "interleaved M st st'" and "sched_rel M st q"
  shows "\<exists>a. sched_rel M st' (\<lambda>p. q p @ a p) \<and> same_schedule st st'"
  using assms
proof (induction rule: interleaved.induct)
  case (none st)
  then show ?case by (intro exI [of _ "\<lambda>_. []"]) (simp add: same_schedule_def)
next
  case (add st st' k p)
  then obtain a where a: "sched_rel M st' (\<lambda>p. q p @ a p)" "same_schedule st st'" by blast
  note ar = Add_rel [OF a(1) add.hyps(2,3), of p]
  show ?case
  proof (cases "curTotalSizeByByte st' \<ge> SCHED_MAX_CAPACITY + extraCapacityInByteByPrio st' p")
    case True
    then show ?thesis using a ar(1) by auto
  next
    case False
    then obtain st'' where st'': "AddSendTaskIntoSchedule st' k p = (st'', E_OK)"
      "sched_rel M st'' ((\<lambda>p. q p @ a p)(p := (q p @ a p) @ [k]))" "same_schedule st' st''"
      using ar(2) unfolding same_schedule_def by force
    have "(\<lambda>p. q p @ a p)(p := (q p @ a p) @ [k]) = (\<lambda>p'. q p' @ (a(p := a p @ [k])) p')" by (auto simp: fun_eq_iff)
    then show ?thesis using st'' a(2) by (auto simp: same_schedule_def)
  qed
next
  case (delay st st' t)
  then obtain a where a: "sched_rel M st' (\<lambda>p. q p @ a p)" "same_schedule st st'" by blast
  show ?case using Delay_rel [OF a(1), of t] a(2) by (auto simp: same_schedule_def)
next
  case (no_delay st st' t)
  then obtain a where a: "sched_rel M st' (\<lambda>p. q p @ a p)" "same_schedule st st'" by blast
  show ?case using NoDelay_rel [OF a(1), of t] a(2) by (auto simp: same_schedule_def)
qed

section \<open>Properties\<close>

text \<open>
  C12. The scheduler implements one first-in first-out queue per priority. In every reachable state,
  scheduling returns the first task in the order of service: the oldest task of the highest priority
  among the targets that are not delayed, and only if there is none, the oldest delayed task of the
  highest priority. It reports an empty container exactly when no task is left, and never an internal
  error.
\<close>

theorem schedule_serves_first:
  assumes "sched_reach M st"
  shows "ScheduleOutSendTask st =
    (case service (policyMap st) (queue_of st) of
       [] \<Rightarrow> (st, Inl E_CONTAINER_EMPTY)
     | x # _ \<Rightarrow> (remember_schedule (scheduled_as (policyMap st) x) st, Inr (scheduled_as (policyMap st) x)))"
  using sched_reach_inv [OF assms] unfolding sched_inv_def by (rule ScheduleOut_rel)

text \<open>
  A task is added at the end of the queue of its priority, unless the bytes held reach the capacity
  of 64 M plus the extra capacity of the priority (0, 32 M or 64 M); then it is refused and nothing
  changes.
\<close>

theorem add_appends_or_refuses:
  assumes "sched_reach M st" and "0 < task_size k" and "task_size k \<le> M"
  shows "if SCHED_MAX_CAPACITY + (case p of HIGH \<Rightarrow> 67108864 | NORMAL \<Rightarrow> 33554432 | LOW \<Rightarrow> 0)
            \<le> sum_list (map task_size (all_tasks (queue_of st)))
         then AddSendTaskIntoSchedule st k p = (st, E_CONTAINER_FULL)
         else snd (AddSendTaskIntoSchedule st k p) = E_OK \<and>
              queue_of (fst (AddSendTaskIntoSchedule st k p)) = (queue_of st)(p := queue_of st p @ [k])"
proof -
  have rel: "sched_rel M st (queue_of st)" using sched_reach_inv [OF assms(1)] by (simp add: sched_inv_def)
  have "extraCapacityInByteByPrio st p = (case p of HIGH \<Rightarrow> 67108864 | NORMAL \<Rightarrow> 33554432 | LOW \<Rightarrow> 0)"
    "sum_list (map task_size (all_tasks (queue_of st))) = curTotalSizeByByte st"
    using rel by (cases p; simp add: sched_rel_def counts_rel_def sched_consts)+
  then show ?thesis using Add_rel [OF rel assms(2,3), of p] sched_rel_unique by (auto simp: not_le)
qed

text \<open>
  C14. Finalizing removes exactly the task that was scheduled out last, even when other threads add tasks
  and delay or release targets in between: the queue of its priority loses that task, what was added
  stays, and the order of all other tasks is kept.
\<close>

theorem finalize_removes_scheduled:
  assumes "sched_reach M st" and "ScheduleOutSendTask st = (st1, Inr (k, info))" and "interleaved M st1 st2"
  shows "\<exists>ys zs added. queue_of st (taskPrio info) = ys @ k # zs \<and>
    queue_of st2 = (\<lambda>p. queue_of st p @ added p) \<and>
    queue_of (fst (FinalizeLastScheduleTask st2)) = (queue_of st2)(taskPrio info := ys @ zs @ added (taskPrio info))"
proof -
  let ?q = "queue_of st" and ?m = "policyMap st" and ?p = "taskPrio info"
  have rel: "sched_rel M st ?q" using sched_reach_inv [OF assms(1)] by (simp add: sched_inv_def)
  obtain rest where sv: "service ?m ?q = (?p, k) # rest" and st1: "st1 = remember_schedule (k, info) st"
    using ScheduleOut_rel [OF rel] assms(2) by (auto simp: scheduled_as_def split: list.splits)
  obtain ys zs where yz: "?q ?p = ys @ k # zs" "\<And>y. y \<in> set ys \<Longrightarrow> dstTarget y \<noteq> dstTarget k"
    using service_first [OF sv] by blast
  have "sched_rel M (remember_schedule (scheduled_as ?m (?p, k)) st) ?q" using yz(1) by (intro remember_rel [OF rel]) simp
  moreover have "remember_schedule (scheduled_as ?m (?p, k)) st = st1" by (simp add: st1 remember_schedule_def)
  ultimately obtain a where a: "sched_rel M st2 (\<lambda>p. ?q p @ a p)" "same_schedule st1 st2"
    using interleaved_appends [OF assms(3)] by auto
  have last: "scheduledFlag st2" "lastScheduleTarget st2 = dstTarget k" "lastSchedulePriority st2 = ?p"
    using a(2) by (simp_all add: same_schedule_def st1)
  have "sched_rel M (fst (FinalizeLastScheduleTask st2)) ((\<lambda>p. ?q p @ a p)(?p := ys @ zs @ a ?p))"
    using FinalizeLast_rel [OF a(1) last(1), of ys k "zs @ a ?p"] yz by (simp add: last)
  then show ?thesis using sched_rel_unique [OF a(1)] sched_rel_unique yz(1) by (metis (no_types, lifting))
qed

text \<open>
  C35. In every reachable state the counters are exact: the total number of tasks, the number of tasks
  whose target is not delayed, and the bytes held.
\<close>

theorem scheduler_counters_exact:
  assumes "sched_reach M st"
  shows "GetTotalTaskCount st = length (all_tasks (queue_of st)) \<and>
    GetNoDelayTaskCount st = length (filter (\<lambda>k. \<not> delayed (policyMap st) k) (all_tasks (queue_of st))) \<and>
    curTotalSizeByByte st = sum_list (map task_size (all_tasks (queue_of st)))"
proof -
  have rel: "sched_rel M st (queue_of st)" using sched_reach_inv [OF assms] by (simp add: sched_inv_def)
  show ?thesis
    using rel sched_rel_bounds(2) [OF rel] sum_length_filter_compl [of "delayed (policyMap st)" "all_tasks (queue_of st)"]
    by (simp add: sched_rel_def counts_rel_def GetTotalTaskCount_def GetNoDelayTaskCount_def)
qed

text \<open>
  C36. Finalizing the scheduler ends in every reachable state, with no task left, having dropped all the
  tasks in the order of service.
\<close>

theorem scheduler_finalize_ends:
  assumes "sched_reach M st"
  shows "\<exists>st'. Scheduler_Finalize st = Some (st', service_order st) \<and> GetTotalTaskCount st' = 0"
  using sched.loop_serves_all [OF Scheduler_Finalize_step sched_reach_inv [OF assms]] sched_count by fastforce

text \<open>
  With frames of at most 32 M bytes the scheduler never holds 160 M bytes or more, as the comment in
  the code says of the extreme situation.
\<close>

theorem scheduler_capacity:
  assumes "sched_reach 33554432 st"
  shows "curTotalSizeByByte st < 167772160"
  using sched_reach_inv [OF assms] by (simp add: sched_inv_def sched_rel_def sched_consts)

section \<open>Concrete inputs\<close>

text \<open>A task of low priority, and later one of high priority for another target.\<close>

definition small_task :: "string \<Rightarrow> SendTask" where
  "small_task t = \<lparr>buffer = SerialBuffer_init\<lparr>sb_mem := Some (replicate 8 0), totalLen := 8\<rparr>, dstTarget = t, onEnd = 0\<rparr>"

definition one_task :: SendTaskScheduler where
  "one_task = fst (AddSendTaskIntoSchedule (Scheduler_Initialize SendTaskScheduler_init) (small_task ''a'') LOW)"

definition two_tasks :: SendTaskScheduler where
  "two_tasks = fst (AddSendTaskIntoSchedule one_task (small_task ''b'') HIGH)"

lemma small_task_fields [simp]: "task_size (small_task t) = 8" "dstTarget (small_task t) = t"
  by (simp_all add: small_task_def GetSize_def)

lemma reach_two_tasks: "sched_reach 33554432 two_tasks"
  unfolding two_tasks_def one_task_def
  by (intro sched_reach.intros) (simp_all add: MAX_TOTAL_LEN_def)

lemma two_tasks_scheduled:
  "ScheduleOutSendTask two_tasks = (remember_schedule (small_task ''b'', \<lparr>delayFlag = False, taskPrio = HIGH\<rparr>) two_tasks,
    Inr (small_task ''b'', \<lparr>delayFlag = False, taskPrio = HIGH\<rparr>))"
proof -
  have q: "service (policyMap two_tasks) (queue_of two_tasks) = [(HIGH, small_task ''b''), (LOW, small_task ''a'')]"
    by (simp add: two_tasks_def one_task_def AddSendTaskIntoSchedule_def Scheduler_Initialize_def SendTaskScheduler_init_def
        queue_of_def service_def delayed_def sched_consts Let_def)
  moreover have "scheduled_as (policyMap two_tasks) (HIGH, small_task ''b'') = (small_task ''b'', \<lparr>delayFlag = False, taskPrio = HIGH\<rparr>)"
    by (simp add: two_tasks_def one_task_def AddSendTaskIntoSchedule_def Scheduler_Initialize_def SendTaskScheduler_init_def
        scheduled_as_def delayed_def sched_consts Let_def)
  ultimately show ?thesis
    using ScheduleOut_rel [OF sched_reach_inv [OF reach_two_tasks, unfolded sched_inv_def]] by simp
qed

theorem schedule_serves_first_witness:
  "ScheduleOutSendTask two_tasks =
    (case service (policyMap two_tasks) (queue_of two_tasks) of
       [] \<Rightarrow> (two_tasks, Inl E_CONTAINER_EMPTY)
     | x # _ \<Rightarrow> (remember_schedule (scheduled_as (policyMap two_tasks) x) two_tasks, Inr (scheduled_as (policyMap two_tasks) x)))"
  by (rule schedule_serves_first [OF reach_two_tasks])

theorem add_appends_or_refuses_witness:
  "if SCHED_MAX_CAPACITY + 33554432 \<le> sum_list (map task_size (all_tasks (queue_of two_tasks)))
   then AddSendTaskIntoSchedule two_tasks (small_task ''c'') NORMAL = (two_tasks, E_CONTAINER_FULL)
   else snd (AddSendTaskIntoSchedule two_tasks (small_task ''c'') NORMAL) = E_OK \<and>
     queue_of (fst (AddSendTaskIntoSchedule two_tasks (small_task ''c'') NORMAL)) =
       (queue_of two_tasks)(NORMAL := queue_of two_tasks NORMAL @ [small_task ''c''])"
  using add_appends_or_refuses [OF reach_two_tasks, of "small_task ''c''" NORMAL] by simp

theorem finalize_removes_scheduled_witness:
  "\<exists>ys zs added. queue_of two_tasks HIGH = ys @ small_task ''b'' # zs \<and>
    queue_of (fst (AddSendTaskIntoSchedule (fst (ScheduleOutSendTask two_tasks)) (small_task ''b'') HIGH)) =
      (\<lambda>p. queue_of two_tasks p @ added p) \<and>
    queue_of (fst (FinalizeLastScheduleTask
        (fst (AddSendTaskIntoSchedule (fst (ScheduleOutSendTask two_tasks)) (small_task ''b'') HIGH)))) =
      (queue_of (fst (AddSendTaskIntoSchedule (fst (ScheduleOutSendTask two_tasks)) (small_task ''b'') HIGH)))
        (HIGH := ys @ zs @ added HIGH)"
proof -
  have "interleaved 33554432 (fst (ScheduleOutSendTask two_tasks))
      (fst (AddSendTaskIntoSchedule (fst (ScheduleOutSendTask two_tasks)) (small_task ''b'') HIGH))"
    by (intro interleaved.intros) simp_all
  then show ?thesis using finalize_removes_scheduled [OF reach_two_tasks two_tasks_scheduled] by (simp add: two_tasks_scheduled)
qed

theorem scheduler_counters_exact_witness:
  "GetTotalTaskCount two_tasks = length (all_tasks (queue_of two_tasks)) \<and>
    GetNoDelayTaskCount two_tasks = length (filter (\<lambda>k. \<not> delayed (policyMap two_tasks) k) (all_tasks (queue_of two_tasks))) \<and>
    curTotalSizeByByte two_tasks = sum_list (map task_size (all_tasks (queue_of two_tasks)))"
  by (rule scheduler_counters_exact [OF reach_two_tasks])

theorem scheduler_finalize_ends_witness:
  "\<exists>st'. Scheduler_Finalize two_tasks = Some (st', service_order two_tasks) \<and> GetTotalTaskCount st' = 0"
  by (rule scheduler_finalize_ends [OF reach_two_tasks])

theorem scheduler_capacity_witness: "curTotalSizeByByte two_tasks < 167772160"
  by (rule scheduler_capacity [OF reach_two_tasks])

end
