(* ===== verification/Commit_Notify_Data.thy ===== *)
theory Commit_Notify_Data
  imports DDB_Prelude
begin

unbundle bit_operations_syntax

text \<open>
  \<^verbatim>\<open>storage/src/single_ver_natural_store_commit_notify_data.cpp\<close>: the record of what a
  transaction changes, kept for the observers of a single-version store, and of the conflicts it
  resolves. Keys are hashed with SHA-256 (OpenSSL); the hash is the parameter \<open>sha\<close>, with \<open>None\<close>
  for a failure of the library.
\<close>

section \<open>Data items\<close>

type_synonym Key = "byte list"
type_synonym Value = "byte list"
type_synonym Timestamp = u64

record DataItem =
  di_key :: Key
  di_value :: Value
  di_timestamp :: Timestamp
  di_flag :: u64
  di_origDev :: "byte list"
  di_writeTimestamp :: Timestamp
  di_dev :: "byte list"
  di_neglect :: bool
  di_hashKey :: Key

definition DataItem_init :: DataItem where
  "DataItem_init = \<lparr>di_key = [], di_value = [], di_timestamp = 0, di_flag = 0, di_origDev = [],
     di_writeTimestamp = 0, di_dev = [], di_neglect = False, di_hashKey = []\<rparr>"

definition DELETE_FLAG :: u64 where "DELETE_FLAG = 0x01"
definition LOCAL_FLAG :: u64 where "LOCAL_FLAG = 0x02"
definition REMOTE_DEVICE_DATA_MISS_QUERY :: u64 where "REMOTE_DEVICE_DATA_MISS_QUERY = 0x10"

lemmas flag_consts = DELETE_FLAG_def LOCAL_FLAG_def REMOTE_DEVICE_DATA_MISS_QUERY_def

definition has_flag :: "u64 \<Rightarrow> u64 \<Rightarrow> bool" where
  "has_flag fl f \<longleftrightarrow> fl AND f \<noteq> 0"

definition has_all :: "u64 \<Rightarrow> u64 \<Rightarrow> bool" where
  "has_all fl f \<longleftrightarrow> fl AND f = f"

text \<open>For a flag of one bit the two tests of the code, \<open>!= 0\<close> and \<open>== flag\<close>, agree.\<close>

lemma flag_bit: "a AND (2 ^ n :: u64) = (if bit a n then 2 ^ n else 0)"
  by (rule bit_eqI) (auto simp: bit_and_iff bit_exp_iff)

lemma has_all_single:
  "has_all a DELETE_FLAG = has_flag a DELETE_FLAG"
  "has_all a LOCAL_FLAG = has_flag a LOCAL_FLAG"
  "has_all a REMOTE_DEVICE_DATA_MISS_QUERY = has_flag a REMOTE_DEVICE_DATA_MISS_QUERY"
  using flag_bit[of a 0] flag_bit[of a 1] flag_bit[of a 4]
  by (auto simp: has_flag_def has_all_def flag_consts split: if_splits)

definition CalcValueHash :: "(byte list \<Rightarrow> byte list option) \<Rightarrow> byte list \<Rightarrow> byte list res" where
  "CalcValueHash sha v = (case sha v of None \<Rightarrow> Inl E_INTERNAL_ERROR | Some h \<Rightarrow> Inr h)"

text \<open>The callers that drop the error code go on with the hash buffer they had, which is empty.\<close>

definition hash_or_empty :: "(byte list \<Rightarrow> byte list option) \<Rightarrow> byte list \<Rightarrow> Key" where
  "hash_or_empty sha v = (case CalcValueHash sha v of Inl e \<Rightarrow> [] | Inr h \<Rightarrow> h)"

definition TransferHashString :: "(byte list \<Rightarrow> byte list option) \<Rightarrow> byte list \<Rightarrow> byte list" where
  "TransferHashString sha devName =
     (if devName = [] then []
      else case CalcValueHash sha devName of Inl e \<Rightarrow> [] | Inr h \<Rightarrow> h)"

section \<open>The notification record\<close>

datatype DataType = DT_NONE | DT_INSERT | DT_UPDATE | DT_DELETE
datatype ExistStatus = EX_NONE | EX_DELETED | EX_EXIST

record Entry =
  e_key :: Key
  e_value :: Value

record DataItemInfo =
  dii_dataItem :: DataItem
  dii_isLocal :: bool
  dii_deviceName :: "byte list"

record ItemProp =
  ip_existStatus :: ExistStatus
  ip_latestType :: DataType

record ConflictData =
  cd_value :: Value
  cd_isDeleted :: bool
  cd_isLocal :: bool

record KvDBConflictEntry =
  ce_type :: u32
  ce_key :: Key
  ce_oldData :: ConflictData
  ce_newData :: ConflictData

record CommitNotifyData =
  cn_insertedEntries :: "Entry list"
  cn_updatedEntries :: "Entry list"
  cn_deletedEntries :: "Entry list"
  cn_conflictedEntries :: "KvDBConflictEntry list"
  cn_keyFilter :: Key
  cn_keyPropRecord :: "Key \<rightharpoonup> ItemProp"
  cn_orgDataItem :: "Key \<rightharpoonup> DataItemInfo"
  cn_conflictedFlag :: u32

definition CommitNotifyData_init :: CommitNotifyData where
  "CommitNotifyData_init = \<lparr>cn_insertedEntries = [], cn_updatedEntries = [], cn_deletedEntries = [],
     cn_conflictedEntries = [], cn_keyFilter = [], cn_keyPropRecord = Map.empty,
     cn_orgDataItem = Map.empty, cn_conflictedFlag = 0\<rparr>"

definition SINGLE_VER_CONFLICT_FOREIGN_KEY_ONLY :: u32 where "SINGLE_VER_CONFLICT_FOREIGN_KEY_ONLY = 0x01"
definition SINGLE_VER_CONFLICT_FOREIGN_KEY_ORIG :: u32 where "SINGLE_VER_CONFLICT_FOREIGN_KEY_ORIG = 0x02"
definition SINGLE_VER_CONFLICT_NATIVE_ALL :: u32 where "SINGLE_VER_CONFLICT_NATIVE_ALL = 0x0c"

section \<open>Operations\<close>

definition FilterEntriesByKey :: "Entry list \<Rightarrow> Key \<Rightarrow> Entry list" where
  "FilterEntriesByKey entries filterKey =
     (if length filterKey = 0 then entries else filter (\<lambda>e. e_key e = filterKey) entries)"

definition GetInsertedEntries :: "CommitNotifyData \<Rightarrow> Entry list" where
  "GetInsertedEntries cn = FilterEntriesByKey (cn_insertedEntries cn) (cn_keyFilter cn)"

definition GetUpdatedEntries :: "CommitNotifyData \<Rightarrow> Entry list" where
  "GetUpdatedEntries cn = FilterEntriesByKey (cn_updatedEntries cn) (cn_keyFilter cn)"

definition GetDeletedEntries :: "CommitNotifyData \<Rightarrow> Entry list" where
  "GetDeletedEntries cn = FilterEntriesByKey (cn_deletedEntries cn) (cn_keyFilter cn)"

definition SetFilterKey :: "CommitNotifyData \<Rightarrow> Key \<Rightarrow> CommitNotifyData" where
  "SetFilterKey cn k = cn\<lparr>cn_keyFilter := k\<rparr>"

definition IsConflictedDataEmpty :: "CommitNotifyData \<Rightarrow> bool" where
  "IsConflictedDataEmpty cn \<longleftrightarrow> cn_conflictedEntries cn = []"

definition IsKeyPropSet :: "CommitNotifyData \<Rightarrow> Key \<Rightarrow> bool" where
  "IsKeyPropSet cn h \<longleftrightarrow> cn_keyPropRecord cn h \<noteq> None"

definition InitKeyPropRecord :: "CommitNotifyData \<Rightarrow> Key \<Rightarrow> ExistStatus \<Rightarrow> CommitNotifyData" where
  "InitKeyPropRecord cn h status =
     (if IsKeyPropSet cn h then cn
      else cn\<lparr>cn_keyPropRecord := (cn_keyPropRecord cn)
             (h \<mapsto> \<lparr>ip_existStatus = status, ip_latestType = DT_NONE\<rparr>)\<rparr>)"

definition DeleteEntry :: "Key \<Rightarrow> Entry list \<Rightarrow> Entry list" where
  "DeleteEntry k entries = (if entries = [] then entries else filter (\<lambda>e. e_key e \<noteq> k) entries)"

fun DeleteEntryByKey :: "CommitNotifyData \<Rightarrow> Key \<Rightarrow> DataType \<Rightarrow> CommitNotifyData" where
  "DeleteEntryByKey cn k DT_INSERT = cn\<lparr>cn_insertedEntries := DeleteEntry k (cn_insertedEntries cn)\<rparr>"
| "DeleteEntryByKey cn k DT_UPDATE = cn\<lparr>cn_updatedEntries := DeleteEntry k (cn_updatedEntries cn)\<rparr>"
| "DeleteEntryByKey cn k DT_DELETE = cn\<lparr>cn_deletedEntries := DeleteEntry k (cn_deletedEntries cn)\<rparr>"
| "DeleteEntryByKey cn k DT_NONE = cn"

fun InsertEntry :: "CommitNotifyData \<Rightarrow> DataType \<Rightarrow> Entry \<Rightarrow> CommitNotifyData" where
  "InsertEntry cn DT_INSERT e = cn\<lparr>cn_insertedEntries := cn_insertedEntries cn @ [e]\<rparr>"
| "InsertEntry cn DT_UPDATE e = cn\<lparr>cn_updatedEntries := cn_updatedEntries cn @ [e]\<rparr>"
| "InsertEntry cn DT_DELETE e = cn\<lparr>cn_deletedEntries := cn_deletedEntries cn @ [e]\<rparr>"
| "InsertEntry cn DT_NONE e = cn"

definition merged_type :: "ExistStatus \<Rightarrow> DataType \<Rightarrow> DataType" where
  "merged_type st dataType =
     (if st = EX_EXIST then
        (if dataType = DT_INSERT \<or> dataType = DT_UPDATE then DT_UPDATE
         else if dataType = DT_DELETE then DT_DELETE else DT_NONE)
      else
        (if dataType = DT_INSERT \<or> dataType = DT_UPDATE then DT_INSERT
         else DT_NONE))"

definition InsertCommittedData ::
    "(byte list \<Rightarrow> byte list option) \<Rightarrow> CommitNotifyData \<Rightarrow> Entry \<Rightarrow> DataType \<Rightarrow> bool \<Rightarrow> CommitNotifyData" where
  "InsertCommittedData sha cn entry dataType needMerge =
     (if \<not> needMerge then InsertEntry cn dataType entry
      else let h = hash_or_empty sha (e_key entry) in
        case cn_keyPropRecord cn h of
          None \<Rightarrow> cn
        | Some p \<Rightarrow>
            let type = merged_type (ip_existStatus p) dataType;
                cn1 = DeleteEntryByKey cn (e_key entry) (ip_latestType p);
                cn2 = cn1\<lparr>cn_keyPropRecord := (cn_keyPropRecord cn1)(h \<mapsto> p\<lparr>ip_latestType := type\<rparr>)\<rparr>
            in InsertEntry cn2 type entry)"

primrec DeleteConflictEntry_list :: "Key \<Rightarrow> KvDBConflictEntry list \<Rightarrow> KvDBConflictEntry list" where
  "DeleteConflictEntry_list k [] = []"
| "DeleteConflictEntry_list k (c # cs) =
     (if ce_key c = k then cs else c # DeleteConflictEntry_list k cs)"

definition DeleteConflictEntry :: "CommitNotifyData \<Rightarrow> Key \<Rightarrow> CommitNotifyData" where
  "DeleteConflictEntry cn k =
     cn\<lparr>cn_conflictedEntries := DeleteConflictEntry_list k (cn_conflictedEntries cn)\<rparr>"

definition PutIntoConflictData :: "CommitNotifyData \<Rightarrow> DataItemInfo \<Rightarrow> DataItemInfo \<Rightarrow> CommitNotifyData" where
  "PutIntoConflictData cn org new =
     (let o_it = dii_dataItem org; n_it = dii_dataItem new in
      if di_value o_it = di_value n_it \<and> di_origDev o_it = di_origDev n_it \<and>
         di_flag o_it = di_flag n_it \<and> dii_deviceName org = dii_deviceName new
      then cn
      else
        let type = (if dii_isLocal new then SINGLE_VER_CONFLICT_NATIVE_ALL
                    else if di_origDev n_it \<noteq> di_origDev o_it then SINGLE_VER_CONFLICT_FOREIGN_KEY_ORIG
                    else SINGLE_VER_CONFLICT_FOREIGN_KEY_ONLY);
            oldData = \<lparr>cd_value = di_value o_it, cd_isDeleted = has_all (di_flag o_it) DELETE_FLAG,
                       cd_isLocal = True\<rparr>;
            isDeleted = has_all (di_flag n_it) DELETE_FLAG;
            newData = \<lparr>cd_value = di_value n_it, cd_isDeleted = isDeleted, cd_isLocal = dii_isLocal new\<rparr>;
            k = (if isDeleted then di_key o_it else di_key n_it);
            swap = di_writeTimestamp n_it \<le> di_writeTimestamp o_it;
            c = \<lparr>ce_type = type, ce_key = k,
                 ce_oldData = (if swap then newData else oldData),
                 ce_newData = (if swap then oldData else newData)\<rparr>;
            cn1 = DeleteConflictEntry cn k
        in cn1\<lparr>cn_conflictedEntries := cn_conflictedEntries cn1 @ [c]\<rparr>)"

definition InsertConflictedItem ::
    "(byte list \<Rightarrow> byte list option) \<Rightarrow> CommitNotifyData \<Rightarrow> DataItemInfo \<Rightarrow> bool \<Rightarrow> CommitNotifyData" where
  "InsertConflictedItem sha cn itemInfo isOriginal =
     (let k = di_key (dii_dataItem itemInfo) in
      case cn_keyPropRecord cn (hash_or_empty sha k) of
        None \<Rightarrow> cn
      | Some p \<Rightarrow>
          if ip_existStatus p = EX_NONE then cn
          else case cn_orgDataItem cn k of
            None \<Rightarrow> (if isOriginal then cn\<lparr>cn_orgDataItem := (cn_orgDataItem cn)(k \<mapsto> itemInfo)\<rparr> else cn)
          | Some org \<Rightarrow> (if \<not> isOriginal then PutIntoConflictData cn org itemInfo else cn))"

definition IsConflictedNotifyMatched :: "CommitNotifyData \<Rightarrow> DataItem \<Rightarrow> DataItem \<Rightarrow> bool" where
  "IsConflictedNotifyMatched cn itemPut itemGet =
     (let dataConflictedType =
        (if has_flag (di_flag itemPut) LOCAL_FLAG then SINGLE_VER_CONFLICT_NATIVE_ALL
         else if di_origDev itemPut \<noteq> di_origDev itemGet then SINGLE_VER_CONFLICT_FOREIGN_KEY_ORIG
         else SINGLE_VER_CONFLICT_FOREIGN_KEY_ONLY)
      in cn_conflictedFlag cn AND dataConflictedType \<noteq> 0)"

section \<open>What an observer is told about a key\<close>

text \<open>
  All the notifications of one key, with their kind, in the three lists. The invariant: a key has the
  one notification of its latest type, or none; \<open>sha\<close> does not collide.
\<close>

definition of_key :: "Key \<Rightarrow> DataType \<Rightarrow> Entry list \<Rightarrow> (DataType \<times> Value) list" where
  "of_key k ty es = map (\<lambda>e. (ty, e_value e)) (filter (\<lambda>e. e_key e = k) es)"

definition notified :: "CommitNotifyData \<Rightarrow> Key \<Rightarrow> (DataType \<times> Value) list" where
  "notified cn k = of_key k DT_INSERT (cn_insertedEntries cn) @ of_key k DT_UPDATE (cn_updatedEntries cn) @
     of_key k DT_DELETE (cn_deletedEntries cn)"

definition hash_inj :: "(byte list \<Rightarrow> byte list option) \<Rightarrow> bool" where
  "hash_inj sha \<longleftrightarrow> (\<forall>a b h. sha a = Some h \<longrightarrow> sha b = Some h \<longrightarrow> a = b) \<and> (\<forall>a. sha a \<noteq> Some [])"

definition told_latest :: "ItemProp option \<Rightarrow> (DataType \<times> Value) list \<Rightarrow> bool" where
  "told_latest prop ns = (case prop of
     None \<Rightarrow> ns = []
   | Some p \<Rightarrow> map fst ns = (if ip_latestType p = DT_NONE then [] else [ip_latestType p]))"

definition notify_inv :: "(byte list \<Rightarrow> byte list option) \<Rightarrow> CommitNotifyData \<Rightarrow> bool" where
  "notify_inv sha cn \<longleftrightarrow> cn_keyPropRecord cn [] = None \<and>
     (\<forall>k. told_latest (Option.bind (sha k) (cn_keyPropRecord cn)) (notified cn k))"

lemma of_key_simps [simp]:
  "of_key k ty [] = []"
  "of_key k ty (es @ es') = of_key k ty es @ of_key k ty es'"
  "of_key k ty (e # es) = (if e_key e = k then [(ty, e_value e)] else []) @ of_key k ty es"
  by (auto simp: of_key_def)

lemma of_key_DeleteEntry: "of_key k' ty (DeleteEntry k es) = (if k' = k then [] else of_key k' ty es)"
proof -
  have "filter (\<lambda>e. e_key e = k') (filter (\<lambda>e. e_key e \<noteq> k) es) =
      (if k' = k then [] else filter (\<lambda>e. e_key e = k') es)"
    by (induction es) auto
  then show ?thesis by (simp add: of_key_def DeleteEntry_def)
qed

lemma of_key_fst: "x \<in> set (of_key k ty es) \<Longrightarrow> fst x = ty"
  by (auto simp: of_key_def)

lemma filter_of_key: "filter (\<lambda>x. fst x \<noteq> ty') (of_key k ty es) = (if ty' = ty then [] else of_key k ty es)"
  by (auto simp: of_key_def filter_empty_conv intro!: filter_True)

lemma notified_DeleteEntryByKey:
  "notified (DeleteEntryByKey cn k ty) k' =
     (if k' = k then filter (\<lambda>x. fst x \<noteq> ty) (notified cn k) else notified cn k')"
  by (cases ty) (auto simp: notified_def of_key_DeleteEntry filter_of_key)

lemma notified_InsertEntry:
  "k' \<noteq> e_key e \<Longrightarrow> notified (InsertEntry cn ty e) k' = notified cn k'"
  "notified cn (e_key e) = [] \<Longrightarrow>
     notified (InsertEntry cn ty e) (e_key e) = (if ty = DT_NONE then [] else [(ty, e_value e)])"
  by (cases ty; auto simp: notified_def)+

lemma keyProp_entries [simp]:
  "cn_keyPropRecord (DeleteEntryByKey cn k ty) = cn_keyPropRecord cn"
  "cn_keyPropRecord (InsertEntry cn ty e) = cn_keyPropRecord cn"
  by (cases ty; simp)+

lemma notified_update [simp]:
  "notified (cn\<lparr>cn_keyPropRecord := m\<rparr>) k = notified cn k"
  "notified (cn\<lparr>cn_orgDataItem := od\<rparr>) k = notified cn k"
  "notified (cn\<lparr>cn_conflictedEntries := ce\<rparr>) k = notified cn k"
  by (simp_all add: notified_def)

lemma hash_or_empty_Some: "hash_inj sha \<Longrightarrow> h \<noteq> [] \<Longrightarrow> hash_or_empty sha k = h \<longleftrightarrow> sha k = Some h"
  by (auto simp: hash_or_empty_def CalcValueHash_def split: option.splits)

lemma notify_invD:
  assumes "notify_inv sha cn"
  shows "sha k = Some h \<Longrightarrow> cn_keyPropRecord cn h = Some p \<Longrightarrow>
           filter (\<lambda>x. fst x \<noteq> ip_latestType p) (notified cn k) = []"
    and "sha k = Some h \<Longrightarrow> cn_keyPropRecord cn h = None \<Longrightarrow> notified cn k = []"
    and "sha k = None \<Longrightarrow> notified cn k = []"
  using assms unfolding notify_inv_def told_latest_def
  by (auto dest!: spec[of _ k] split: if_splits)

lemma InsertCommittedData_unset:
  "cn_keyPropRecord cn (hash_or_empty sha (e_key e)) = None \<Longrightarrow> InsertCommittedData sha cn e dt True = cn"
  by (simp add: InsertCommittedData_def)

lemma InsertCommittedData_merge:
  assumes inv: "notify_inv sha cn" and h: "sha (e_key e) = Some h" and p: "cn_keyPropRecord cn h = Some p"
  shows "notified (InsertCommittedData sha cn e dt True) k =
      (if k = e_key e then
         (if merged_type (ip_existStatus p) dt = DT_NONE then []
          else [(merged_type (ip_existStatus p) dt, e_value e)])
       else notified cn k)"
    and "cn_keyPropRecord (InsertCommittedData sha cn e dt True) =
      (cn_keyPropRecord cn)(h \<mapsto> p\<lparr>ip_latestType := merged_type (ip_existStatus p) dt\<rparr>)"
proof -
  have hh: "hash_or_empty sha (e_key e) = h"
    using h by (simp add: hash_or_empty_def CalcValueHash_def)
  show "cn_keyPropRecord (InsertCommittedData sha cn e dt True) =
      (cn_keyPropRecord cn)(h \<mapsto> p\<lparr>ip_latestType := merged_type (ip_existStatus p) dt\<rparr>)"
    using p by (simp add: InsertCommittedData_def hh Let_def)
  have old: "notified (DeleteEntryByKey cn (e_key e) (ip_latestType p)) (e_key e) = []"
    using notify_invD(1)[OF inv h p] by (simp add: notified_DeleteEntryByKey)
  show "notified (InsertCommittedData sha cn e dt True) k =
      (if k = e_key e then
         (if merged_type (ip_existStatus p) dt = DT_NONE then []
          else [(merged_type (ip_existStatus p) dt, e_value e)])
       else notified cn k)"
    using p old by (simp add: InsertCommittedData_def hh Let_def notified_InsertEntry notified_DeleteEntryByKey)
qed

lemma InsertCommittedData_inv:
  assumes hi: "hash_inj sha" and inv: "notify_inv sha cn"
  shows "notify_inv sha (InsertCommittedData sha cn e dt True)"
proof (cases "cn_keyPropRecord cn (hash_or_empty sha (e_key e))")
  case None
  then show ?thesis using inv by (simp add: InsertCommittedData_unset)
next
  case (Some p)
  define h where "h = hash_or_empty sha (e_key e)"
  have h0: "h \<noteq> []" using Some inv by (auto simp: h_def notify_inv_def)
  have h: "sha (e_key e) = Some h" using hash_or_empty_Some[OF hi h0, of "e_key e"] h_def by blast
  have p: "cn_keyPropRecord cn h = Some p" using Some by (simp add: h_def)
  note eff = InsertCommittedData_merge[OF inv h p]
  have uniq: "sha k = Some h \<Longrightarrow> k = e_key e" for k using hi h unfolding hash_inj_def by blast
  have "told_latest (Option.bind (sha k) (cn_keyPropRecord (InsertCommittedData sha cn e dt True)))
      (notified (InsertCommittedData sha cn e dt True) k)" for k
  proof (cases "k = e_key e")
    case True
    then show ?thesis by (simp add: eff h told_latest_def)
  next
    case False
    then have "sha k \<noteq> Some h" using uniq by blast
    then have "Option.bind (sha k) (cn_keyPropRecord (InsertCommittedData sha cn e dt True)) =
        Option.bind (sha k) (cn_keyPropRecord cn)"
      unfolding eff by (cases "sha k") auto
    then show ?thesis using False inv by (simp add: eff(1) notify_inv_def)
  qed
  then show ?thesis using h0 inv by (simp add: notify_inv_def eff(2))
qed

lemma InitKeyPropRecord_simps:
  "cn_keyPropRecord (InitKeyPropRecord cn h st) =
     (if cn_keyPropRecord cn h = None
      then (cn_keyPropRecord cn)(h \<mapsto> \<lparr>ip_existStatus = st, ip_latestType = DT_NONE\<rparr>)
      else cn_keyPropRecord cn)"
  "notified (InitKeyPropRecord cn h st) k = notified cn k"
  by (auto simp: InitKeyPropRecord_def IsKeyPropSet_def)

lemma InitKeyPropRecord_inv:
  assumes inv: "notify_inv sha cn" and h: "h \<noteq> []"
  shows "notify_inv sha (InitKeyPropRecord cn h st)"
proof -
  have "told_latest (Option.bind (sha k) (cn_keyPropRecord (InitKeyPropRecord cn h st))) (notified cn k)" for k
    using inv[unfolded notify_inv_def, THEN conjunct2, rule_format, of k]
    by (cases "sha k") (auto simp: told_latest_def InitKeyPropRecord_simps(1))
  then show ?thesis using inv h by (simp add: notify_inv_def InitKeyPropRecord_simps)
qed

lemma CommitNotifyData_init_inv: "notify_inv sha CommitNotifyData_init"
  by (auto simp: notify_inv_def told_latest_def CommitNotifyData_init_def notified_def bind_eq_Some_conv
      split: option.split)

text \<open>The conflict record is apart from the change record.\<close>

lemma conflict_data_apart:
  "notified (PutIntoConflictData cn a b) k = notified cn k"
  "cn_keyPropRecord (PutIntoConflictData cn a b) = cn_keyPropRecord cn"
  "notified (InsertConflictedItem sha cn i og) k = notified cn k"
  "cn_keyPropRecord (InsertConflictedItem sha cn i og) = cn_keyPropRecord cn"
  by (simp_all add: PutIntoConflictData_def InsertConflictedItem_def DeleteConflictEntry_def Let_def
      split: option.split)

text \<open>At most one conflict per key.\<close>

lemma DeleteConflictEntry_list_keys:
  "distinct (map ce_key cs) \<Longrightarrow> map ce_key (DeleteConflictEntry_list k cs) = filter (\<lambda>k'. k' \<noteq> k) (map ce_key cs)"
  by (induction cs) (auto simp: filter_id_conv intro!: sym[OF filter_True])

lemma PutIntoConflictData_distinct:
  "distinct (map ce_key (cn_conflictedEntries cn)) \<Longrightarrow>
     distinct (map ce_key (cn_conflictedEntries (PutIntoConflictData cn a b)))"
  by (auto simp: PutIntoConflictData_def DeleteConflictEntry_def Let_def DeleteConflictEntry_list_keys)

lemma InsertConflictedItem_distinct:
  "distinct (map ce_key (cn_conflictedEntries cn)) \<Longrightarrow>
     distinct (map ce_key (cn_conflictedEntries (InsertConflictedItem sha cn i og)))"
  by (auto simp: InsertConflictedItem_def Let_def PutIntoConflictData_distinct split: option.split)

end
