(* ===== verification/Single_Ver_Storage.thy ===== *)
theory Single_Ver_Storage
  imports Commit_Notify_Data "HOL-Library.AList"
begin

unbundle bit_operations_syntax

text \<open>
  \<^verbatim>\<open>storage/src/sqlite/sqlite_single_ver_storage_executor.cpp\<close>: how an item, put by the local
  application or received from another device, is resolved against the row it meets, saved, and
  recorded for the observers. The table \<^verbatim>\<open>sync_data\<close> is the list of its rows by primary key
  (\<^verbatim>\<open>hash_key\<close>). What the SQLite calls made for one item return is the record \<open>sqlite_env\<close>:
  \<open>E_OK\<close> means that the statement ran.
\<close>

section \<open>The table and the calls into SQLite\<close>

record sync_row =
  sr_key :: Key
  sr_value :: Value
  sr_timestamp :: Timestamp
  sr_flag :: u64
  sr_device :: "byte list"
  sr_ori_device :: "byte list"
  sr_w_timestamp :: Timestamp

type_synonym sync_table = "(Key \<times> sync_row) list"

record sqlite_env =
  sq_query :: errno
  sq_columns :: errno
  sq_save :: errno
  sq_constraint :: errno
  sq_erase :: errno

definition sqlite_ok :: sqlite_env where
  "sqlite_ok = \<lparr>sq_query = E_OK, sq_columns = E_OK, sq_save = E_OK, sq_constraint = E_INTERNAL_ERROR,
     sq_erase = E_OK\<rparr>"

text \<open>
  The codes \<^verbatim>\<open>MapSQLiteErrno\<close> gives: never one of the two codes the executor reserves for a row
  that is not there and for an item that is ignored.
\<close>

definition sqlite_codes :: "sqlite_env \<Rightarrow> bool" where
  "sqlite_codes env \<longleftrightarrow>
     sq_query env \<notin> {E_NOT_FOUND, E_IGNORE_DATA} \<and> sq_columns env \<notin> {E_NOT_FOUND, E_IGNORE_DATA} \<and>
     sq_save env \<notin> {E_NOT_FOUND, E_IGNORE_DATA} \<and> sq_erase env \<notin> {E_NOT_FOUND, E_IGNORE_DATA} \<and>
     sq_constraint env \<notin> {E_NOT_FOUND, E_IGNORE_DATA, E_OK}"

datatype DataStatus = NOEXISTED | DELETED | EXISTED

record DataOperStatus =
  os_preStatus :: DataStatus
  os_isDeleted :: bool
  os_isDefeated :: bool

record DeviceInfo =
  dv_isLocal :: bool
  dv_deviceName :: "byte list"

datatype ConflictPolicy = DEFAULT_LAST_WIN | DENY_OTHER_DEV_AMEND_CUR_DEV_DATA

record executor_cfg =
  ex_isSyncMigrating :: bool
  ex_conflictResolvePolicy :: ConflictPolicy

record NotifyData =
  nf_committedData :: "CommitNotifyData option"
  nf_getData :: DataItem
  nf_hashKey :: Key
  nf_dataStatus :: DataOperStatus

section \<open>Looking up the row an item meets\<close>

definition is_erasing :: "u64 \<Rightarrow> bool" where
  "is_erasing fl \<longleftrightarrow> has_all fl DELETE_FLAG \<or> has_all fl REMOTE_DEVICE_DATA_MISS_QUERY"

definition GetSyncDataPreByHashKey :: "sqlite_env \<Rightarrow> sync_table \<Rightarrow> Key \<Rightarrow> DataItem \<times> errno" where
  "GetSyncDataPreByHashKey env tab hashKey =
     (if hashKey = [] then (DataItem_init, E_INVALID_ARGS)
      else if sq_query env \<noteq> E_OK then (DataItem_init, sq_query env)
      else case map_of tab hashKey of
        None \<Rightarrow> (DataItem_init, E_NOT_FOUND)
      | Some r \<Rightarrow>
          let it = DataItem_init\<lparr>di_timestamp := sr_timestamp r, di_writeTimestamp := sr_w_timestamp r,
                                 di_flag := sr_flag r\<rparr>
          in if sq_columns env \<noteq> E_OK then (it, sq_columns env)
             else (it\<lparr>di_key := sr_key r, di_dev := sr_device r, di_origDev := sr_ori_device r\<rparr>, E_OK))"

definition GetSyncDataItemPre ::
    "(byte list \<Rightarrow> byte list option) \<Rightarrow> executor_cfg \<Rightarrow> sqlite_env \<Rightarrow> sync_table \<Rightarrow> DataItem \<Rightarrow>
     Key \<times> DataItem \<times> errno" where
  "GetSyncDataItemPre sha cfg env tab itemPut =
     (if ex_isSyncMigrating cfg then
        (di_hashKey itemPut, GetSyncDataPreByHashKey env tab (di_hashKey itemPut))
      else if is_erasing (di_flag itemPut) then
        (di_key itemPut, GetSyncDataPreByHashKey env tab (di_key itemPut))
      else case CalcValueHash sha (di_key itemPut) of
        Inl e \<Rightarrow> ([], DataItem_init, e)
      | Inr h \<Rightarrow> (h, GetSyncDataPreByHashKey env tab h))"

definition GetSyncDataItemExt ::
    "sqlite_env \<Rightarrow> sync_table \<Rightarrow> Key \<Rightarrow> DataItem \<Rightarrow> DataOperStatus \<Rightarrow> DataItem \<times> errno" where
  "GetSyncDataItemExt env tab hashKey itemGet st =
     (if os_preStatus st \<noteq> EXISTED then (itemGet, E_OK)
      else if sq_columns env \<noteq> E_OK then (itemGet, sq_columns env)
      else case map_of tab hashKey of
        None \<Rightarrow> (itemGet, E_OK)
      | Some r \<Rightarrow> (itemGet\<lparr>di_key := sr_key r, di_value := sr_value r\<rparr>, E_OK))"

section \<open>Resolving the conflict\<close>

definition JudgeSyncSaveType ::
    "(byte list \<Rightarrow> byte list option) \<Rightarrow> DataItem \<Rightarrow> DataItem \<Rightarrow> byte list \<Rightarrow> bool \<Rightarrow> bool \<Rightarrow>
     DataItem \<times> DataOperStatus" where
  "JudgeSyncSaveType sha dataItem itemGet devName isHashKeyExisted isPermitForceWrite =
     (let del = is_erasing (di_flag dataItem) in
      if \<not> isHashKeyExisted then
        (dataItem, \<lparr>os_preStatus = NOEXISTED, os_isDeleted = del, os_isDefeated = False\<rparr>)
      else
        let pre = (if has_flag (di_flag itemGet) DELETE_FLAG then DELETED else EXISTED);
            deviceName = TransferHashString sha devName
        in if di_writeTimestamp itemGet \<ge> di_writeTimestamp dataItem then
             (if deviceName \<noteq> [] \<and> di_dev itemGet = deviceName \<and> isPermitForceWrite then
                (dataItem\<lparr>di_writeTimestamp := di_writeTimestamp itemGet + 1,
                          di_timestamp := di_timestamp itemGet\<rparr>,
                 \<lparr>os_preStatus = pre, os_isDeleted = del, os_isDefeated = False\<rparr>)
              else (dataItem, \<lparr>os_preStatus = pre, os_isDeleted = del, os_isDefeated = True\<rparr>))
           else (dataItem, \<lparr>os_preStatus = pre, os_isDeleted = del, os_isDefeated = False\<rparr>))"

definition IsNeedIgnoredData ::
    "DataItem \<Rightarrow> DataItem \<Rightarrow> DeviceInfo \<Rightarrow> bool \<Rightarrow> ConflictPolicy \<Rightarrow> bool" where
  "IsNeedIgnoredData itemPut itemGet devInfo isHashKeyExisted policy \<longleftrightarrow>
     (di_origDev itemGet = [] \<and> isHashKeyExisted \<or> di_origDev itemPut = []) \<and>
     (\<not> dv_isLocal devInfo \<and> policy = DENY_OTHER_DEV_AMEND_CUR_DEV_DATA)"

definition InitCommitNotifyDataKeyStatus ::
    "CommitNotifyData option \<Rightarrow> Key \<Rightarrow> DataOperStatus \<Rightarrow> CommitNotifyData option" where
  "InitCommitNotifyDataKeyStatus committedData hashKey st =
     (case committedData of
        None \<Rightarrow> None
      | Some cn \<Rightarrow> Some (InitKeyPropRecord cn hashKey
          (case os_preStatus st of DELETED \<Rightarrow> EX_DELETED | EXISTED \<Rightarrow> EX_EXIST | NOEXISTED \<Rightarrow> EX_NONE)))"

definition NotifyData_init :: "CommitNotifyData option \<Rightarrow> NotifyData" where
  "NotifyData_init committedData = \<lparr>nf_committedData = committedData, nf_getData = DataItem_init,
     nf_hashKey = [],
     nf_dataStatus = \<lparr>os_preStatus = NOEXISTED, os_isDeleted = False, os_isDefeated = False\<rparr>\<rparr>"

definition PrepareForNotifyConflictAndObserver ::
    "(byte list \<Rightarrow> byte list option) \<Rightarrow> executor_cfg \<Rightarrow> sqlite_env \<Rightarrow> sync_table \<Rightarrow> DataItem \<Rightarrow> DeviceInfo \<Rightarrow>
     NotifyData \<Rightarrow> bool \<Rightarrow> DataItem \<times> NotifyData \<times> errno" where
  "PrepareForNotifyConflictAndObserver sha cfg env tab dataItem deviceInfo notify isPermitForceWrite =
     (case GetSyncDataItemPre sha cfg env tab dataItem of (hashKey, getData, errCode) \<Rightarrow>
      let notify1 = notify\<lparr>nf_getData := getData, nf_hashKey := hashKey\<rparr> in
      if errCode \<noteq> E_OK \<and> errCode \<noteq> E_NOT_FOUND then (dataItem, notify1, errCode)
      else
        let isHashKeyExisted = (errCode \<noteq> E_NOT_FOUND) in
        if IsNeedIgnoredData dataItem getData deviceInfo isHashKeyExisted (ex_conflictResolvePolicy cfg)
        then (dataItem, notify1, E_IGNORE_DATA)
        else case JudgeSyncSaveType sha dataItem getData (dv_deviceName deviceInfo) isHashKeyExisted
                    isPermitForceWrite of (dataItem1, st) \<Rightarrow>
          let notify2 = notify1\<lparr>nf_dataStatus := st, nf_committedData :=
                InitCommitNotifyDataKeyStatus (nf_committedData notify) hashKey st\<rparr> in
          if (os_preStatus st = DELETED \<or> os_preStatus st = NOEXISTED) \<and>
             has_flag (di_flag dataItem1) DELETE_FLAG \<and> has_flag (di_flag dataItem1) LOCAL_FLAG
          then (dataItem1, notify2, E_NOT_FOUND)
          else case GetSyncDataItemExt env tab hashKey getData st of (getData1, errCode1) \<Rightarrow>
            (dataItem1, notify2\<lparr>nf_getData := getData1\<rparr>, errCode1))"

section \<open>Recording conflicts and changes\<close>

definition PutConflictData ::
    "(byte list \<Rightarrow> byte list option) \<Rightarrow> DataItem \<Rightarrow> DataItem \<Rightarrow> DeviceInfo \<Rightarrow> DataOperStatus \<Rightarrow>
     CommitNotifyData option \<Rightarrow> CommitNotifyData option" where
  "PutConflictData sha itemPut itemGet deviceInfo st commitData =
     (case commitData of
        None \<Rightarrow> None
      | Some cn \<Rightarrow>
          if \<not> IsConflictedNotifyMatched cn itemPut itemGet then Some cn
          else if os_preStatus st = NOEXISTED \<or> (os_preStatus st = DELETED \<and> os_isDeleted st) then Some cn
          else
            let origKey = (if is_erasing (di_flag itemPut) then di_key itemGet else di_key itemPut);
                orgItemInfo = \<lparr>dii_dataItem = itemGet\<lparr>di_key := origKey\<rparr>, dii_isLocal = True,
                               dii_deviceName = di_dev itemGet\<rparr>;
                cn1 = InsertConflictedItem sha cn orgItemInfo True;
                newItemInfo = \<lparr>dii_dataItem = itemPut\<lparr>di_key := origKey\<rparr>, dii_isLocal = dv_isLocal deviceInfo,
                               dii_deviceName = TransferHashString sha (dv_deviceName deviceInfo)\<rparr>
            in Some (InsertConflictedItem sha cn1 newItemInfo False))"

definition PutIntoCommittedData ::
    "(byte list \<Rightarrow> byte list option) \<Rightarrow> DataItem \<Rightarrow> DataItem \<Rightarrow> DataOperStatus \<Rightarrow>
     CommitNotifyData option \<Rightarrow> CommitNotifyData option" where
  "PutIntoCommittedData sha itemPut itemGet st committedData =
     (case committedData of
        None \<Rightarrow> None
      | Some cn \<Rightarrow> Some
          (if \<not> os_isDeleted st then
             InsertCommittedData sha cn \<lparr>e_key = di_key itemPut, e_value = di_value itemPut\<rparr>
               (if os_preStatus st = EXISTED then DT_UPDATE else DT_INSERT) True
           else
             InsertCommittedData sha cn \<lparr>e_key = di_key itemGet, e_value = di_value itemGet\<rparr> DT_DELETE True))"

section \<open>Saving\<close>

definition EraseSyncData :: "sqlite_env \<Rightarrow> sync_table \<Rightarrow> Key \<Rightarrow> sync_table \<times> errno" where
  "EraseSyncData env tab hashKey =
     (if hashKey = [] then (tab, E_INVALID_ARGS)
      else if sq_erase env \<noteq> E_OK then (tab, sq_erase env)
      else (AList.delete hashKey tab, E_OK))"

definition GetOriginDevName :: "DataItem \<Rightarrow> byte list \<Rightarrow> byte list" where
  "GetOriginDevName dataItem origDevGet =
     (if has_flag (di_flag dataItem) LOCAL_FLAG \<and> di_origDev dataItem = [] then origDevGet
      else di_origDev dataItem)"

definition BindSavedSyncData :: "DataItem \<Rightarrow> Key \<Rightarrow> byte list \<Rightarrow> byte list \<Rightarrow> sync_row res" where
  "BindSavedSyncData dataItem hashKey origDev dev =
     (if hashKey = [] then Inl E_INVALID_ARGS
      else if \<not> has_all (di_flag dataItem) DELETE_FLAG \<and> di_key dataItem = [] then Inl E_INVALID_ARGS
      else Inr \<lparr>sr_key = (if has_all (di_flag dataItem) DELETE_FLAG then [] else di_key dataItem),
                sr_value = di_value dataItem, sr_timestamp = di_timestamp dataItem,
                sr_flag = di_flag dataItem, sr_device = dev, sr_ori_device = origDev,
                sr_w_timestamp = di_writeTimestamp dataItem\<rparr>)"

definition SaveSyncDataToDatabase ::
    "(byte list \<Rightarrow> byte list option) \<Rightarrow> sqlite_env \<Rightarrow> sync_table \<Rightarrow> DataItem \<Rightarrow> Key \<Rightarrow> byte list \<Rightarrow> byte list \<Rightarrow>
     bool \<Rightarrow> sync_table \<times> errno" where
  "SaveSyncDataToDatabase sha env tab dataItem hashKey origDev deviceName isUpdate =
     (if has_all (di_flag dataItem) REMOTE_DEVICE_DATA_MISS_QUERY then EraseSyncData env tab hashKey
      else case BindSavedSyncData dataItem hashKey origDev (TransferHashString sha deviceName) of
        Inl e \<Rightarrow> (tab, e)
      | Inr row \<Rightarrow>
          if sq_save env \<noteq> E_OK then (tab, sq_save env)
          else if isUpdate then
            (if map_of tab hashKey = None then tab else AList.update hashKey row tab, E_OK)
          else if map_of tab hashKey \<noteq> None then (tab, sq_constraint env)
          else (tab @ [(hashKey, row)], E_OK))"

record save_state =
  ss_table :: sync_table
  ss_maxStamp :: Timestamp
  ss_committedData :: "CommitNotifyData option"

definition SaveSyncDataItem ::
    "(byte list \<Rightarrow> byte list option) \<Rightarrow> executor_cfg \<Rightarrow> sqlite_env \<Rightarrow> DataItem \<Rightarrow> DeviceInfo \<Rightarrow> bool \<Rightarrow>
     save_state \<Rightarrow> save_state \<times> errno" where
  "SaveSyncDataItem sha cfg env dataItem deviceInfo isPermitForceWrite s =
     (case PrepareForNotifyConflictAndObserver sha cfg env (ss_table s) dataItem deviceInfo
             (NotifyData_init (ss_committedData s)) isPermitForceWrite of (dataItem1, notify, errCode) \<Rightarrow>
      let s1 = s\<lparr>ss_committedData := nf_committedData notify\<rparr> in
      if errCode \<noteq> E_OK then (s1, if errCode = E_IGNORE_DATA then E_OK else errCode)
      else
        let st = nf_dataStatus notify;
            s2 = s1\<lparr>ss_committedData := PutConflictData sha dataItem1 (nf_getData notify) deviceInfo st
                      (nf_committedData notify)\<rparr>
        in if os_isDefeated st then (s2, E_OK)
           else
             let isUpdate = (os_preStatus st \<noteq> NOEXISTED);
                 origDev = GetOriginDevName dataItem1 (di_origDev (nf_getData notify))
             in case SaveSyncDataToDatabase sha env (ss_table s2) dataItem1 (nf_hashKey notify) origDev
                       (dv_deviceName deviceInfo) isUpdate of (tab, errCode1) \<Rightarrow>
               if errCode1 = E_OK then
                 (s2\<lparr>ss_table := tab,
                     ss_committedData := PutIntoCommittedData sha dataItem1 (nf_getData notify) st
                       (ss_committedData s2),
                     ss_maxStamp := max (di_timestamp dataItem1) (ss_maxStamp s2)\<rparr>, E_OK)
               else (s2\<lparr>ss_table := tab\<rparr>, errCode1))"

section \<open>What saving an item amounts to\<close>

text \<open>
  The key an item is about, the rules of \<^verbatim>\<open>JudgeSyncSaveType\<close> and \<^verbatim>\<open>IsNeedIgnoredData\<close> as
  one decision on the row that is there, and the lemma that \<open>SaveSyncDataItem\<close> takes that decision.
\<close>

definition item_hash :: "(byte list \<Rightarrow> byte list option) \<Rightarrow> DataItem \<Rightarrow> Key option" where
  "item_hash sha it = (if is_erasing (di_flag it) then Some (di_key it) else sha (di_key it))"

definition row_deleted :: "sync_row \<Rightarrow> bool" where
  "row_deleted r \<longleftrightarrow> has_flag (sr_flag r) DELETE_FLAG"

definition row_status :: "sync_row option \<Rightarrow> DataStatus" where
  "row_status old = (case old of None \<Rightarrow> NOEXISTED | Some r \<Rightarrow> if row_deleted r then DELETED else EXISTED)"

definition forced :: "(byte list \<Rightarrow> byte list option) \<Rightarrow> bool \<Rightarrow> DeviceInfo \<Rightarrow> sync_row \<Rightarrow> bool" where
  "forced sha force dv r \<longleftrightarrow> force \<and> TransferHashString sha (dv_deviceName dv) \<noteq> [] \<and>
     sr_device r = TransferHashString sha (dv_deviceName dv)"

definition amended :: "sync_row option \<Rightarrow> DataItem \<Rightarrow> DataItem" where
  "amended old it = (case old of
     None \<Rightarrow> it
   | Some r \<Rightarrow> if sr_w_timestamp r \<ge> di_writeTimestamp it
              then it\<lparr>di_writeTimestamp := sr_w_timestamp r + 1, di_timestamp := sr_timestamp r\<rparr> else it)"

definition saved_row ::
    "(byte list \<Rightarrow> byte list option) \<Rightarrow> DeviceInfo \<Rightarrow> sync_row option \<Rightarrow> DataItem \<Rightarrow> sync_row" where
  "saved_row sha dv old it =
     \<lparr>sr_key = (if has_flag (di_flag it) DELETE_FLAG then [] else di_key it),
      sr_value = di_value it, sr_timestamp = di_timestamp (amended old it), sr_flag = di_flag it,
      sr_device = TransferHashString sha (dv_deviceName dv),
      sr_ori_device = GetOriginDevName it (case old of None \<Rightarrow> [] | Some r \<Rightarrow> sr_ori_device r),
      sr_w_timestamp = di_writeTimestamp (amended old it)\<rparr>"

datatype outcome = Ignored | Missing | Defeated | Erased | Saved sync_row

definition judge ::
    "(byte list \<Rightarrow> byte list option) \<Rightarrow> ConflictPolicy \<Rightarrow> bool \<Rightarrow> DeviceInfo \<Rightarrow> DataItem \<Rightarrow> sync_row option \<Rightarrow> outcome" where
  "judge sha policy force dv it old =
     (if policy = DENY_OTHER_DEV_AMEND_CUR_DEV_DATA \<and> \<not> dv_isLocal dv \<and>
         (di_origDev it = [] \<or> (case old of None \<Rightarrow> False | Some r \<Rightarrow> sr_ori_device r = [])) then Ignored
      else if row_status old \<noteq> EXISTED \<and> has_flag (di_flag it) DELETE_FLAG \<and> has_flag (di_flag it) LOCAL_FLAG
      then Missing
      else if (case old of None \<Rightarrow> False
               | Some r \<Rightarrow> sr_w_timestamp r \<ge> di_writeTimestamp it \<and> \<not> forced sha force dv r) then Defeated
      else if has_flag (di_flag it) REMOTE_DEVICE_DATA_MISS_QUERY then Erased
      else Saved (saved_row sha dv old it))"

primrec apply_outcome :: "outcome \<Rightarrow> Key \<Rightarrow> sync_table \<Rightarrow> sync_table" where
  "apply_outcome Ignored h tab = tab"
| "apply_outcome Missing h tab = tab"
| "apply_outcome Defeated h tab = tab"
| "apply_outcome Erased h tab = AList.delete h tab"
| "apply_outcome (Saved row) h tab = AList.update h row tab"

definition outcome_code :: "outcome \<Rightarrow> errno" where
  "outcome_code oc = (if oc = Missing then E_NOT_FOUND else E_OK)"

definition read_item :: "sync_row option \<Rightarrow> DataItem" where
  "read_item old = (case old of
     None \<Rightarrow> DataItem_init
   | Some r \<Rightarrow> DataItem_init\<lparr>di_timestamp := sr_timestamp r, di_writeTimestamp := sr_w_timestamp r,
       di_flag := sr_flag r, di_key := sr_key r, di_dev := sr_device r, di_origDev := sr_ori_device r\<rparr>)"

definition read_full :: "sync_row option \<Rightarrow> DataItem" where
  "read_full old = (case old of
     None \<Rightarrow> read_item old
   | Some r \<Rightarrow> if row_deleted r then read_item old else (read_item old)\<lparr>di_value := sr_value r\<rparr>)"

definition oper_status :: "sync_row option \<Rightarrow> DataItem \<Rightarrow> bool \<Rightarrow> DataOperStatus" where
  "oper_status old it defeated = \<lparr>os_preStatus = row_status old, os_isDeleted = is_erasing (di_flag it),
     os_isDefeated = defeated\<rparr>"

definition outcome_notify ::
    "(byte list \<Rightarrow> byte list option) \<Rightarrow> outcome \<Rightarrow> Key \<Rightarrow> DeviceInfo \<Rightarrow> DataItem \<Rightarrow> sync_row option \<Rightarrow>
     CommitNotifyData option \<Rightarrow> CommitNotifyData option" where
  "outcome_notify sha oc h dv it old cn =
     (let st = oper_status old it (oc = Defeated);
          cn1 = InitCommitNotifyDataKeyStatus cn h st;
          it1 = (if oc = Defeated then it else amended old it);
          cn2 = PutConflictData sha it1 (read_full old) dv st cn1
      in case oc of
        Ignored \<Rightarrow> cn
      | Missing \<Rightarrow> cn1
      | Defeated \<Rightarrow> cn2
      | Erased \<Rightarrow> PutIntoCommittedData sha it1 (read_full old) st cn2
      | Saved row \<Rightarrow> PutIntoCommittedData sha it1 (read_full old) st cn2)"

definition outcome_stamp :: "outcome \<Rightarrow> DataItem \<Rightarrow> sync_row option \<Rightarrow> Timestamp \<Rightarrow> Timestamp" where
  "outcome_stamp oc it old t =
     (case oc of Ignored \<Rightarrow> t | Missing \<Rightarrow> t | Defeated \<Rightarrow> t
      | Erased \<Rightarrow> max (di_timestamp (amended old it)) t | Saved row \<Rightarrow> max (di_timestamp (amended old it)) t)"

definition key_usable :: "DataItem \<Rightarrow> bool" where
  "key_usable it \<longleftrightarrow> is_erasing (di_flag it) \<or> di_key it \<noteq> []"

lemma update_absent: "map_of tab h = None \<Longrightarrow> AList.update h row tab = tab @ [(h, row)]"
  by (induction tab) (auto split: if_splits)

lemma GetSyncDataPre_ok:
  "h \<noteq> [] \<Longrightarrow> GetSyncDataPreByHashKey sqlite_ok tab h =
     (read_item (map_of tab h), if map_of tab h = None then E_NOT_FOUND else E_OK)"
  by (auto simp: GetSyncDataPreByHashKey_def sqlite_ok_def read_item_def Let_def split: option.split)

definition defeats :: "(byte list \<Rightarrow> byte list option) \<Rightarrow> bool \<Rightarrow> DeviceInfo \<Rightarrow> DataItem \<Rightarrow> sync_row option \<Rightarrow> bool" where
  "defeats sha force dv it old = (case old of None \<Rightarrow> False
     | Some r \<Rightarrow> sr_w_timestamp r \<ge> di_writeTimestamp it \<and> \<not> forced sha force dv r)"

lemma GetSyncDataItemPre_ok:
  assumes "\<not> ex_isSyncMigrating cfg" "item_hash sha it = Some h" "h \<noteq> []"
  shows "GetSyncDataItemPre sha cfg sqlite_ok tab it =
     (h, read_item (map_of tab h), if map_of tab h = None then E_NOT_FOUND else E_OK)"
  using assms
  by (auto simp: GetSyncDataItemPre_def item_hash_def CalcValueHash_def GetSyncDataPre_ok split: if_splits)

lemma JudgeSyncSaveType_ok:
  "JudgeSyncSaveType sha it (read_item old) (dv_deviceName dv) (old \<noteq> None) force =
     (if defeats sha force dv it old then it else amended old it,
      oper_status old it (defeats sha force dv it old))"
  by (cases old) (auto simp: JudgeSyncSaveType_def oper_status_def defeats_def amended_def row_status_def
      row_deleted_def forced_def read_item_def DataItem_init_def Let_def)

lemma read_item_simps [simp]:
  "di_origDev (read_item old) = (case old of None \<Rightarrow> [] | Some r \<Rightarrow> sr_ori_device r)"
  "di_origDev (read_full old) = (case old of None \<Rightarrow> [] | Some r \<Rightarrow> sr_ori_device r)"
  "di_key (read_full old) = (case old of None \<Rightarrow> [] | Some r \<Rightarrow> sr_key r)"
  by (auto simp: read_full_def read_item_def DataItem_init_def split: option.split)

lemma amended_simps [simp]:
  "di_flag (amended old it) = di_flag it" "di_key (amended old it) = di_key it"
  "di_value (amended old it) = di_value it" "di_origDev (amended old it) = di_origDev it"
  by (auto simp: amended_def split: option.split)

lemma GetSyncDataItemExt_ok:
  "os_preStatus st = row_status (map_of tab h) \<Longrightarrow>
     GetSyncDataItemExt sqlite_ok tab h (read_item (map_of tab h)) st = (read_full (map_of tab h), E_OK)"
  by (auto simp: GetSyncDataItemExt_def row_status_def read_full_def read_item_def sqlite_ok_def
      split: option.split)

lemma oper_status_simps [simp]:
  "os_preStatus (oper_status old it d) = row_status old" "os_isDefeated (oper_status old it d) = d"
  "os_isDeleted (oper_status old it d) = is_erasing (di_flag it)"
  by (simp_all add: oper_status_def)

definition exist_of :: "DataStatus \<Rightarrow> ExistStatus" where
  "exist_of st = (case st of DELETED \<Rightarrow> EX_DELETED | EXISTED \<Rightarrow> EX_EXIST | NOEXISTED \<Rightarrow> EX_NONE)"

lemma InitCommitNotifyData_status:
  "InitCommitNotifyDataKeyStatus cn h (oper_status old it d) =
     map_option (\<lambda>c. InitKeyPropRecord c h (exist_of (row_status old))) cn"
  by (cases cn) (simp_all add: InitCommitNotifyDataKeyStatus_def exist_of_def)

lemma Prepare_ok:
  fixes sha cfg force dv it tab h
  defines "old \<equiv> map_of tab h" and "oc \<equiv> judge sha (ex_conflictResolvePolicy cfg) force dv it (map_of tab h)"
  assumes pre: "\<not> ex_isSyncMigrating cfg" "item_hash sha it = Some h" "h \<noteq> []"
  shows "PrepareForNotifyConflictAndObserver sha cfg sqlite_ok tab it dv (NotifyData_init cn) force =
     (let st = oper_status old it (defeats sha force dv it old);
          it1 = (if defeats sha force dv it old then it else amended old it);
          cn1 = InitCommitNotifyDataKeyStatus cn h st
      in if oc = Ignored then
           (it, (NotifyData_init cn)\<lparr>nf_getData := read_item old, nf_hashKey := h\<rparr>, E_IGNORE_DATA)
         else if oc = Missing then
           (it1, \<lparr>nf_committedData = cn1, nf_getData = read_item old, nf_hashKey = h, nf_dataStatus = st\<rparr>,
            E_NOT_FOUND)
         else (it1, \<lparr>nf_committedData = cn1, nf_getData = read_full old, nf_hashKey = h, nf_dataStatus = st\<rparr>, E_OK))"
proof -
  have ign: "IsNeedIgnoredData it (read_item old) dv (old \<noteq> None) (ex_conflictResolvePolicy cfg) \<longleftrightarrow> oc = Ignored"
    by (cases old) (auto simp: IsNeedIgnoredData_def oc_def judge_def old_def[symmetric])
  have mis: "oc \<noteq> Ignored \<Longrightarrow> oc = Missing \<longleftrightarrow>
      (row_status old = DELETED \<or> row_status old = NOEXISTED) \<and> has_flag (di_flag it) DELETE_FLAG \<and>
      has_flag (di_flag it) LOCAL_FLAG"
    by (cases "row_status old") (auto simp: oc_def judge_def old_def[symmetric])
  have ex: "(if old = None then E_NOT_FOUND else E_OK) \<noteq> E_NOT_FOUND \<longleftrightarrow> old \<noteq> None" by simp
  note gp = GetSyncDataItemPre_ok[OF pre, of tab, folded old_def]
  note ext = GetSyncDataItemExt_ok[of _ tab h, folded old_def]
  have ne: "\<not> ((if old = None then E_NOT_FOUND else E_OK) \<noteq> E_OK \<and>
      (if old = None then E_NOT_FOUND else E_OK) \<noteq> E_NOT_FOUND)" by simp
  note unf = PrepareForNotifyConflictAndObserver_def gp prod.case Let_def ex ign JudgeSyncSaveType_ok
    if_not_P[OF ne]
  consider "oc = Ignored" | "oc \<noteq> Ignored" "oc = Missing" | "oc \<noteq> Ignored" "oc \<noteq> Missing" by blast
  then show ?thesis
  proof cases
    case 2
    then show ?thesis using mis[OF 2(1)] unfolding unf by (simp only: if_False if_True) (simp add: NotifyData_init_def)
  next
    case 3
    then show ?thesis using mis[OF 3(1)] unfolding unf
      by (simp only: oper_status_simps amended_simps if_distrib[of di_flag] if_cancel if_False)
        (simp add: ext NotifyData_init_def)
  next
    case 1
    then show ?thesis unfolding unf by simp
  qed
qed

lemma has_flag_tests [simp]:
  "has_all fl DELETE_FLAG = has_flag fl DELETE_FLAG"
  "has_all fl REMOTE_DEVICE_DATA_MISS_QUERY = has_flag fl REMOTE_DEVICE_DATA_MISS_QUERY"
  by (rule has_all_single)+

lemma SaveSyncDataToDatabase_ok:
  assumes h: "h \<noteq> []" and k: "oc = Saved row \<Longrightarrow> key_usable it"
    and oc: "judge sha policy force dv it (map_of tab h) = oc" "oc = Erased \<or> oc = Saved row"
  shows "SaveSyncDataToDatabase sha sqlite_ok tab (amended (map_of tab h) it) h
     (GetOriginDevName (amended (map_of tab h) it) (di_origDev (read_full (map_of tab h)))) (dv_deviceName dv)
     (row_status (map_of tab h) \<noteq> NOEXISTED) = (apply_outcome oc h tab, E_OK)"
proof (cases "has_flag (di_flag it) REMOTE_DEVICE_DATA_MISS_QUERY")
  case True
  then have "oc = Erased" using oc by (auto simp: judge_def split: if_splits)
  then show ?thesis using True h by (simp add: SaveSyncDataToDatabase_def EraseSyncData_def sqlite_ok_def)
next
  case False
  then have row: "oc = Saved (saved_row sha dv (map_of tab h) it)" using oc by (auto simp: judge_def split: if_splits)
  have k': "has_flag (di_flag it) DELETE_FLAG \<or> di_key it \<noteq> []"
    using k oc(2) row False by (auto simp: key_usable_def is_erasing_def)
  have og: "GetOriginDevName (amended old it) d = GetOriginDevName it d" for old d
    by (simp add: GetOriginDevName_def)
  have ns: "(row_status (map_of tab h) \<noteq> NOEXISTED) = (map_of tab h \<noteq> None)"
    by (simp add: row_status_def split: option.split)
  show ?thesis
    using False h k' unfolding row ns
    by (cases "map_of tab h")
      (auto simp: SaveSyncDataToDatabase_def BindSavedSyncData_def saved_row_def sqlite_ok_def og update_absent)
qed

lemma NotifyData_init_committed [simp]: "nf_committedData (NotifyData_init cn) = cn"
  by (simp add: NotifyData_init_def)

theorem SaveSyncDataItem_judge:
  fixes sha cfg force dv it h s
  defines "old \<equiv> map_of (ss_table s) h"
    and "oc \<equiv> judge sha (ex_conflictResolvePolicy cfg) force dv it (map_of (ss_table s) h)"
  assumes pre: "\<not> ex_isSyncMigrating cfg" "item_hash sha it = Some h" "h \<noteq> []"
    and k: "\<And>row. oc = Saved row \<Longrightarrow> key_usable it"
  shows "SaveSyncDataItem sha cfg sqlite_ok it dv force s =
     (s\<lparr>ss_table := apply_outcome oc h (ss_table s),
        ss_committedData := outcome_notify sha oc h dv it old (ss_committedData s),
        ss_maxStamp := outcome_stamp oc it old (ss_maxStamp s)\<rparr>, outcome_code oc)"
proof -
  note prep = Prepare_ok[OF pre, of "ss_table s" dv _ force, folded old_def oc_def]
  have df: "oc \<noteq> Ignored \<Longrightarrow> oc \<noteq> Missing \<Longrightarrow> oc = Defeated \<longleftrightarrow> defeats sha force dv it old"
    by (auto simp: oc_def judge_def defeats_def old_def[symmetric] split: if_splits)
  note sv = SaveSyncDataToDatabase_ok[OF pre(3), of oc _ it sha "ex_conflictResolvePolicy cfg" force dv "ss_table s",
      folded old_def oc_def]
  show ?thesis
  proof (cases oc)
    case Erased
    then have "\<not> defeats sha force dv it old" using df by simp
    then show ?thesis using sv Erased
      by (simp add: SaveSyncDataItem_def prep Let_def outcome_notify_def outcome_code_def outcome_stamp_def)
  next
    case (Saved row)
    then have "\<not> defeats sha force dv it old" using df by simp
    then show ?thesis using sv[OF k] Saved
      by (simp add: SaveSyncDataItem_def prep Let_def outcome_notify_def outcome_code_def outcome_stamp_def)
  next
    case Missing
    then show ?thesis
      by (simp add: SaveSyncDataItem_def prep Let_def outcome_notify_def outcome_code_def outcome_stamp_def
          InitCommitNotifyData_status)
  qed (use df in \<open>simp_all add: SaveSyncDataItem_def prep Let_def outcome_notify_def outcome_code_def
      outcome_stamp_def\<close>)
qed

text \<open>A save that reports success or a missing row met no error of SQLite.\<close>

lemma GetSyncDataPreByHashKey_succeeds:
  assumes "sqlite_codes env" "GetSyncDataPreByHashKey env tab h = (g, e)"
  shows "e = E_OK \<or> e = E_NOT_FOUND \<Longrightarrow> GetSyncDataPreByHashKey sqlite_ok tab h = (g, e) \<and> h \<noteq> []"
    and "e \<noteq> E_IGNORE_DATA"
  using assms by (auto simp: GetSyncDataPreByHashKey_def sqlite_codes_def sqlite_ok_def Let_def
      split: if_splits option.splits)

lemma GetSyncDataItemPre_succeeds:
  assumes "\<not> ex_isSyncMigrating cfg" "sqlite_codes env"
    and "GetSyncDataItemPre sha cfg env tab it = (h, g, e)" "e = E_OK \<or> e = E_NOT_FOUND"
  shows "GetSyncDataItemPre sha cfg sqlite_ok tab it = (h, g, e)" "item_hash sha it = Some h" "h \<noteq> []"
  using assms(1,3,4) GetSyncDataPreByHashKey_succeeds(1)[OF assms(2), of tab h g e]
  by (auto simp: GetSyncDataItemPre_def item_hash_def CalcValueHash_def split: if_splits option.splits)

lemma GetSyncDataItemPre_codes:
  assumes "sqlite_codes env" "GetSyncDataItemPre sha cfg env tab it = (h, g, e)"
  shows "e \<noteq> E_IGNORE_DATA"
  using assms(2) GetSyncDataPreByHashKey_succeeds(2)[OF assms(1), of tab h g e]
  by (auto simp: GetSyncDataItemPre_def CalcValueHash_def split: if_splits option.splits)

lemma GetSyncDataItemExt_succeeds:
  "sqlite_codes env \<Longrightarrow> GetSyncDataItemExt env tab h g st = (g', E_OK) \<Longrightarrow>
     GetSyncDataItemExt sqlite_ok tab h g st = (g', E_OK)"
  "sqlite_codes env \<Longrightarrow> snd (GetSyncDataItemExt env tab h g st) \<noteq> E_NOT_FOUND"
  "sqlite_codes env \<Longrightarrow> snd (GetSyncDataItemExt env tab h g st) \<noteq> E_IGNORE_DATA"
  by (auto simp: GetSyncDataItemExt_def sqlite_codes_def sqlite_ok_def split: if_splits option.splits)

lemma SaveSyncDataToDatabase_succeeds:
  "sqlite_codes env \<Longrightarrow> SaveSyncDataToDatabase sha env tab it h od dn u = (tab', E_OK) \<Longrightarrow>
     SaveSyncDataToDatabase sha sqlite_ok tab it h od dn u = (tab', E_OK) \<and>
     (has_flag (di_flag it) REMOTE_DEVICE_DATA_MISS_QUERY \<or> key_usable it)"
  "sqlite_codes env \<Longrightarrow> snd (SaveSyncDataToDatabase sha env tab it h od dn u) \<noteq> E_NOT_FOUND"
  by (auto simp: SaveSyncDataToDatabase_def EraseSyncData_def BindSavedSyncData_def sqlite_codes_def sqlite_ok_def
      key_usable_def is_erasing_def split: if_splits sum.splits)

lemma Prepare_succeeds:
  assumes mig: "\<not> ex_isSyncMigrating cfg" and env: "sqlite_codes env"
    and P: "PrepareForNotifyConflictAndObserver sha cfg env tab it dv nf force = (it', nf', e)"
    and e: "e = E_OK \<or> e = E_NOT_FOUND \<or> e = E_IGNORE_DATA"
  shows "PrepareForNotifyConflictAndObserver sha cfg sqlite_ok tab it dv nf force = (it', nf', e) \<and>
     (\<exists>h. item_hash sha it = Some h \<and> h \<noteq> [])"
proof -
  obtain h g c where g: "GetSyncDataItemPre sha cfg env tab it = (h, g, c)" by (metis prod_cases3)
  have c: "c = E_OK \<or> c = E_NOT_FOUND"
    using P e GetSyncDataItemPre_codes[OF env g]
    by (auto simp: PrepareForNotifyConflictAndObserver_def g Let_def split: if_splits)
  note g' = GetSyncDataItemPre_succeeds[OF mig env g c]
  obtain it1 st where j: "JudgeSyncSaveType sha it g (dv_deviceName dv) (c \<noteq> E_NOT_FOUND) force = (it1, st)"
    by (metis prod.exhaust)
  obtain g2 c2 where x: "GetSyncDataItemExt env tab h g st = (g2, c2)" by (metis prod.exhaust)
  have x': "c2 = E_OK \<Longrightarrow> GetSyncDataItemExt sqlite_ok tab h g st = (g2, E_OK)"
    using GetSyncDataItemExt_succeeds(1)[OF env] x by simp
  have c2: "c2 \<noteq> E_NOT_FOUND" "c2 \<noteq> E_IGNORE_DATA"
    using GetSyncDataItemExt_succeeds(2,3)[OF env, of tab h g st] x by auto
  show ?thesis
    using P c c2 x' e g'
    unfolding PrepareForNotifyConflictAndObserver_def g g'(1) prod.case Let_def j x
    by (auto split: if_splits)
qed

lemma SaveSyncDataItem_succeeds:
  assumes mig: "\<not> ex_isSyncMigrating cfg" and env: "sqlite_codes env"
    and S: "SaveSyncDataItem sha cfg env it dv force s = (s', e)" and e: "e = E_OK \<or> e = E_NOT_FOUND"
  obtains h where "item_hash sha it = Some h" "h \<noteq> []"
    and "SaveSyncDataItem sha cfg sqlite_ok it dv force s = (s', e)"
    and "\<And>row. judge sha (ex_conflictResolvePolicy cfg) force dv it (map_of (ss_table s) h) = Saved row \<Longrightarrow>
           key_usable it"
proof -
  define cn where "cn = NotifyData_init (ss_committedData s)"
  obtain it1 nf c where P: "PrepareForNotifyConflictAndObserver sha cfg env (ss_table s) it dv cn force = (it1, nf, c)"
    by (metis prod_cases3)
  have c: "c = E_OK \<or> c = E_NOT_FOUND \<or> c = E_IGNORE_DATA"
    using S e P by (auto simp: SaveSyncDataItem_def cn_def[symmetric] Let_def split: if_splits)
  obtain h where ok: "PrepareForNotifyConflictAndObserver sha cfg sqlite_ok (ss_table s) it dv cn force = (it1, nf, c)"
    and h: "item_hash sha it = Some h" "h \<noteq> []"
    using Prepare_succeeds[OF mig env P c] by blast
  obtain tab c1 where D: "SaveSyncDataToDatabase sha env (ss_table s) it1 (nf_hashKey nf)
      (GetOriginDevName it1 (di_origDev (nf_getData nf))) (dv_deviceName dv)
      (os_preStatus (nf_dataStatus nf) \<noteq> NOEXISTED) = (tab, c1)" by (metis prod.exhaust)
  note d = SaveSyncDataToDatabase_succeeds[OF env, where tab = "ss_table s"]
  have c1: "c1 \<noteq> E_NOT_FOUND" using d(2) D by (metis snd_conv)
  note D' = d(1)[of sha it1 "nf_hashKey nf" _ "dv_deviceName dv" _ tab]
  have same: "SaveSyncDataItem sha cfg sqlite_ok it dv force s = (s', e)"
    using S e D' D c1 unfolding SaveSyncDataItem_def cn_def[symmetric] P ok prod.case Let_def
    by (auto split: if_splits)
  have "key_usable it"
    if j: "judge sha (ex_conflictResolvePolicy cfg) force dv it (map_of (ss_table s) h) = Saved row" for row
  proof -
    note pr = Prepare_ok[OF mig h, of "ss_table s" dv "ss_committedData s" force, folded cn_def, unfolded ok]
    have nd: "\<not> defeats sha force dv it (map_of (ss_table s) h)" and nm: "\<not> has_flag (di_flag it) REMOTE_DEVICE_DATA_MISS_QUERY"
      using j by (auto simp: judge_def defeats_def split: if_splits)
    have i1: "c = E_OK" "it1 = amended (map_of (ss_table s) h) it" "\<not> os_isDefeated (nf_dataStatus nf)"
      using pr j nd by (simp_all add: Let_def)
    have "c1 = E_OK"
      using S e c1 i1 D unfolding SaveSyncDataItem_def cn_def[symmetric] P prod.case Let_def
      by (auto split: if_splits)
    then show ?thesis using D' D nm i1 by (auto simp: key_usable_def)
  qed
  with that[OF h same] show thesis by blast
qed

end
