(* ===== verification/Single_Ver_Store.thy ===== *)
theory Single_Ver_Store
  imports Single_Ver_Storage
begin

unbundle bit_operations_syntax

text \<open>
  \<^verbatim>\<open>storage/src/sqlite/sqlite_single_ver_natural_store.cpp\<close>: how a packet of items received from
  another device is checked, saved in one transaction and announced, and the reading back of a key.
  The condition of a query is the predicate \<open>qe_match\<close> on rows that its SQL text denotes; the schema
  check of a value is a parameter.
\<close>

section \<open>Checks before saving\<close>

definition MAX_KEY_SIZE :: nat where "MAX_KEY_SIZE = 1024"
definition MAX_VALUE_SIZE :: nat where "MAX_VALUE_SIZE = 4194304"
definition MAX_DEV_LENGTH :: nat where "MAX_DEV_LENGTH = 128"

definition CheckDataStatus :: "Key \<Rightarrow> Value \<Rightarrow> errno" where
  "CheckDataStatus k v =
     (if k = [] \<or> length k > MAX_KEY_SIZE \<or> length v > MAX_VALUE_SIZE then E_INVALID_ARGS else E_OK)"

record query_env =
  qe_helper :: errno
  qe_checkSql :: errno
  qe_statement :: errno
  qe_match :: "sync_row \<Rightarrow> bool"
  qe_bind :: "Key \<Rightarrow> errno"
  qe_step :: "Key \<Rightarrow> errno"
  qe_columns :: "Key \<Rightarrow> errno"

definition CheckMissQueryDataItem ::
    "(byte list \<Rightarrow> byte list option) \<Rightarrow> query_env \<Rightarrow> sync_table \<Rightarrow> byte list \<Rightarrow> DataItem \<Rightarrow> DataItem \<times> errno" where
  "CheckMissQueryDataItem sha q tab deviceName item =
     (if qe_step q (di_key item) \<noteq> E_OK then (item, qe_step q (di_key item))
      else case map_of tab (di_key item) of
        None \<Rightarrow> (item\<lparr>di_neglect := True\<rparr>, E_OK)
      | Some r \<Rightarrow>
          if row_deleted r \<or> \<not> qe_match q r then (item\<lparr>di_neglect := True\<rparr>, E_OK)
          else if qe_columns q (di_key item) \<noteq> E_OK then (item, qe_columns q (di_key item))
          else (item\<lparr>di_neglect := (sr_timestamp r > di_timestamp item \<or>
                  sr_timestamp r = di_timestamp item \<and> sr_device r = TransferHashString sha deviceName)\<rparr>, E_OK))"

fun CheckMissQueryDataItems ::
    "(byte list \<Rightarrow> byte list option) \<Rightarrow> query_env \<Rightarrow> sync_table \<Rightarrow> byte list \<Rightarrow> DataItem list \<Rightarrow>
     DataItem list \<times> errno" where
  "CheckMissQueryDataItems sha q tab deviceName [] = ([], E_OK)"
| "CheckMissQueryDataItems sha q tab deviceName (item # items) =
     (if has_flag (di_flag item) REMOTE_DEVICE_DATA_MISS_QUERY \<and> di_key item \<noteq> [] then
        (if qe_bind q (di_key item) \<noteq> E_OK then (item # items, qe_bind q (di_key item))
         else case CheckMissQueryDataItem sha q tab deviceName item of (item', e) \<Rightarrow>
           if e \<noteq> E_OK then (item' # items, e)
           else case CheckMissQueryDataItems sha q tab deviceName items of (items', e') \<Rightarrow> (item' # items', e'))
      else case CheckMissQueryDataItems sha q tab deviceName items of (items', e') \<Rightarrow> (item # items', e'))"

definition CheckDataWithQuery ::
    "(byte list \<Rightarrow> byte list option) \<Rightarrow> query_env option \<Rightarrow> sync_table \<Rightarrow> DeviceInfo \<Rightarrow> DataItem list \<Rightarrow>
     DataItem list \<times> errno" where
  "CheckDataWithQuery sha query tab dv items =
     (case query of
        None \<Rightarrow> (items, E_OK)
      | Some q \<Rightarrow>
          if qe_helper q \<noteq> E_OK then (items, qe_helper q)
          else if qe_checkSql q \<noteq> E_OK then (items, qe_checkSql q)
          else if qe_statement q \<noteq> E_OK then (items, E_INVALID_QUERY_FORMAT)
          else CheckMissQueryDataItems sha q tab (dv_deviceName dv) items)"

definition CheckAmendValueContentForSyncProcedure ::
    "(Value \<Rightarrow> Value option) option \<Rightarrow> DataItem list \<Rightarrow> DataItem list" where
  "CheckAmendValueContentForSyncProcedure schema items =
     (case schema of
        None \<Rightarrow> items
      | Some check \<Rightarrow> map (\<lambda>it.
          if is_erasing (di_flag it) then it
          else case check (di_value it) of
            None \<Rightarrow> it\<lparr>di_neglect := True\<rparr>
          | Some v \<Rightarrow> it\<lparr>di_value := v\<rparr>) items)"

section \<open>One packet, one transaction\<close>

record store_env =
  se_handle :: errno
  se_start :: errno
  se_prepare :: errno
  se_item :: "nat \<Rightarrow> sqlite_env"
  se_reset :: errno
  se_commit :: errno

definition store_env_ok :: store_env where
  "store_env_ok = \<lparr>se_handle = E_OK, se_start = E_OK, se_prepare = E_OK, se_item = (\<lambda>i. sqlite_ok),
     se_reset = E_OK, se_commit = E_OK\<rparr>"

fun save_items ::
    "(byte list \<Rightarrow> byte list option) \<Rightarrow> executor_cfg \<Rightarrow> (nat \<Rightarrow> sqlite_env) \<Rightarrow> DeviceInfo \<Rightarrow> bool \<Rightarrow> nat \<Rightarrow>
     DataItem list \<Rightarrow> save_state \<Rightarrow> errno \<Rightarrow> save_state \<times> errno" where
  "save_items sha cfg envs dv force i [] s errCode = (s, errCode)"
| "save_items sha cfg envs dv force i (item # items) s errCode =
     (if di_neglect item then save_items sha cfg envs dv force (Suc i) items s errCode
      else case SaveSyncDataItem sha cfg (envs i) item dv force s of (s', e) \<Rightarrow>
        if e \<noteq> E_OK \<and> e \<noteq> E_NOT_FOUND then (s', e)
        else save_items sha cfg envs dv force (Suc i) items s' e)"

definition SaveSyncItems ::
    "(byte list \<Rightarrow> byte list option) \<Rightarrow> executor_cfg \<Rightarrow> store_env \<Rightarrow> bool \<Rightarrow> query_env option \<Rightarrow>
     DataItem list \<Rightarrow> DeviceInfo \<Rightarrow> save_state \<Rightarrow> save_state \<times> errno" where
  "SaveSyncItems sha cfg env dualTuple query items dv s =
     (if se_handle env \<noteq> E_OK then (s, se_handle env)
      else if se_start env \<noteq> E_OK then (s, se_start env)
      else case CheckDataWithQuery sha query (ss_table s) dv items of (items', e0) \<Rightarrow>
        if e0 \<noteq> E_OK then (s, e0)
        else if se_prepare env \<noteq> E_OK then (s, se_prepare env)
        else case save_items sha cfg (se_item env) dv (\<not> dualTuple) 0 items' s E_OK of (s1, e1) \<Rightarrow>
          let e2 = (if e1 = E_NOT_FOUND then E_OK else e1);
              e3 = (if se_reset env \<noteq> E_OK then se_reset env else e2);
              rolled_back = s1\<lparr>ss_table := ss_table s\<rparr>
          in if e3 = E_OK then
               (if se_commit env = E_OK then (s1, E_OK) else (rolled_back, se_commit env))
             else (rolled_back, e3))"

section \<open>The store\<close>

datatype notify_event = SQLITE_GENERAL_NS_PUT_EVENT | SQLITE_GENERAL_NS_SYNC_EVENT | SQLITE_GENERAL_CONFLICT_EVENT

record NaturalStore =
  ns_sync_data :: sync_table
  ns_currentMaxTimestamp :: Timestamp
  ns_isReadOnly :: bool
  ns_syncDualTuple :: bool
  ns_foreignKeyOnlyCount :: nat
  ns_foreignKeyOrigCount :: nat
  ns_nativeAllCount :: nat

definition conflict_flag_of :: "NaturalStore \<Rightarrow> u32" where
  "conflict_flag_of ns =
     (if ns_foreignKeyOnlyCount ns \<noteq> 0 then 0x01 else 0) OR
     (if ns_foreignKeyOrigCount ns \<noteq> 0 then 0x02 else 0) OR
     (if ns_nativeAllCount ns \<noteq> 0 then 0x0c else 0)"

definition InitConflictNotifiedFlag :: "NaturalStore \<Rightarrow> CommitNotifyData \<Rightarrow> CommitNotifyData" where
  "InitConflictNotifiedFlag ns cn = cn\<lparr>cn_conflictedFlag := conflict_flag_of ns\<rparr>"

definition SetMaxTimestamp :: "NaturalStore \<Rightarrow> Timestamp \<Rightarrow> NaturalStore" where
  "SetMaxTimestamp ns t =
     (if t > ns_currentMaxTimestamp ns then ns\<lparr>ns_currentMaxTimestamp := t\<rparr> else ns)"

definition IsChangedDataEmpty :: "CommitNotifyData \<Rightarrow> bool" where
  "IsChangedDataEmpty cn \<longleftrightarrow> GetInsertedEntries cn = [] \<and> GetUpdatedEntries cn = [] \<and> GetDeletedEntries cn = []"

definition CommitAndReleaseNotifyData ::
    "CommitNotifyData option \<Rightarrow> bool \<Rightarrow> notify_event \<Rightarrow> (notify_event \<times> CommitNotifyData) list" where
  "CommitAndReleaseNotifyData committedData isNeedCommit event =
     (case committedData of
        None \<Rightarrow> []
      | Some cn \<Rightarrow>
          if isNeedCommit then
            (if IsChangedDataEmpty cn then [] else [(event, cn)]) @
            (if IsConflictedDataEmpty cn then [] else [(SQLITE_GENERAL_CONFLICT_EVENT, cn)])
          else [])"

definition SaveSyncDataToMain ::
    "(byte list \<Rightarrow> byte list option) \<Rightarrow> executor_cfg \<Rightarrow> store_env \<Rightarrow> bool \<Rightarrow> query_env option \<Rightarrow>
     DataItem list \<Rightarrow> DeviceInfo \<Rightarrow> NaturalStore \<Rightarrow> NaturalStore \<times> (notify_event \<times> CommitNotifyData) list \<times> errno" where
  "SaveSyncDataToMain sha cfg env allocOk query items dv ns =
     (if \<not> allocOk then (ns, [], E_OUT_OF_MEMORY)
      else
        let cn = InitConflictNotifiedFlag ns CommitNotifyData_init;
            s = \<lparr>ss_table = ns_sync_data ns, ss_maxStamp = 0, ss_committedData = Some cn\<rparr>
        in case SaveSyncItems sha cfg env (ns_syncDualTuple ns) query items dv s of (s1, e) \<Rightarrow>
          let ns1 = ns\<lparr>ns_sync_data := ss_table s1\<rparr>;
              ns2 = (if e = E_OK then SetMaxTimestamp ns1 (ss_maxStamp s1) else ns1)
          in (ns2, CommitAndReleaseNotifyData (ss_committedData s1) (e = E_OK) SQLITE_GENERAL_NS_SYNC_EVENT, e))"

primrec check_items :: "DataItem list \<Rightarrow> errno" where
  "check_items [] = E_OK"
| "check_items (it # items) =
     (if CheckDataStatus (di_key it) (di_value it) \<noteq> E_OK then CheckDataStatus (di_key it) (di_value it)
      else check_items items)"

text \<open>\<^verbatim>\<open>SaveSyncDataItems\<close> for a store whose main database is open (not the cache mode).\<close>

definition SaveSyncDataItems ::
    "(byte list \<Rightarrow> byte list option) \<Rightarrow> executor_cfg \<Rightarrow> store_env \<Rightarrow> bool \<Rightarrow> (Value \<Rightarrow> Value option) option \<Rightarrow>
     query_env option \<Rightarrow> DataItem list \<Rightarrow> DeviceInfo \<Rightarrow> bool \<Rightarrow> NaturalStore \<Rightarrow>
     NaturalStore \<times> (notify_event \<times> CommitNotifyData) list \<times> errno" where
  "SaveSyncDataItems sha cfg env allocOk schema query items dv checkValueContent ns =
     (if check_items items \<noteq> E_OK then (ns, [], check_items items)
      else SaveSyncDataToMain sha cfg env allocOk query
        (if checkValueContent then CheckAmendValueContentForSyncProcedure schema items else items) dv ns)"

definition Unknown :: "byte list" where "Unknown = [0x55, 0x6e, 0x6b, 0x6e, 0x6f, 0x77, 0x6e]"

text \<open>The entries of \<^verbatim>\<open>PutSyncDataWithQuery\<close> carry the fields of an item that are copied.\<close>

definition item_of_entry :: "DataItem \<Rightarrow> DataItem" where
  "item_of_entry e = DataItem_init\<lparr>di_origDev := di_origDev e, di_flag := di_flag e,
     di_timestamp := di_timestamp e, di_writeTimestamp := di_writeTimestamp e,
     di_key := di_key e, di_value := di_value e\<rparr>"

definition PutSyncDataWithQuery ::
    "(byte list \<Rightarrow> byte list option) \<Rightarrow> executor_cfg \<Rightarrow> store_env \<Rightarrow> bool \<Rightarrow> (Value \<Rightarrow> Value option) option \<Rightarrow>
     query_env option \<Rightarrow> DataItem list \<Rightarrow> byte list \<Rightarrow> NaturalStore \<Rightarrow>
     NaturalStore \<times> (notify_event \<times> CommitNotifyData) list \<times> errno" where
  "PutSyncDataWithQuery sha cfg env allocOk schema query entries deviceName ns =
     (if length deviceName > MAX_DEV_LENGTH then (ns, [], E_INVALID_ARGS)
      else SaveSyncDataItems sha cfg env allocOk schema query (map item_of_entry entries)
        \<lparr>dv_isLocal = False, dv_deviceName = (if deviceName = [] then Unknown else deviceName)\<rparr> True ns)"

definition GetKvData :: "errno \<Rightarrow> errno \<Rightarrow> sync_table \<Rightarrow> Key \<Rightarrow> (Value \<times> Timestamp) res" where
  "GetKvData step cols tab k =
     (if k = [] then Inl E_INVALID_ARGS
      else if step \<noteq> E_OK then Inl step
      else case find (\<lambda>(h, r). sr_key r = k) tab of
        None \<Rightarrow> Inl E_NOT_FOUND
      | Some (h, r) \<Rightarrow> if cols \<noteq> E_OK then Inl cols else Inr (sr_value r, sr_w_timestamp r))"

definition RemoveDeviceData ::
    "(byte list \<Rightarrow> byte list option) \<Rightarrow> errno \<Rightarrow> sync_table \<Rightarrow> byte list \<Rightarrow> sync_table \<times> errno" where
  "RemoveDeviceData sha step tab deviceName =
     (if step \<noteq> E_OK then (tab, step)
      else (filter (\<lambda>(h, r). \<not> (sr_device r = TransferHashString sha deviceName \<and>
              \<not> has_flag (sr_flag r) LOCAL_FLAG)) tab, E_OK))"

section \<open>Table invariant\<close>

text \<open>
  A live row is stored under the hash of its key. A deleted row keeps no key, which is what makes
  the lookup \<^verbatim>\<open>WHERE key=?\<close> of \<open>GetKvData\<close> skip it.
\<close>

definition row_inv :: "(byte list \<Rightarrow> byte list option) \<Rightarrow> Key \<Rightarrow> sync_row \<Rightarrow> bool" where
  "row_inv sha h r \<longleftrightarrow> h \<noteq> [] \<and>
     (if row_deleted r then sr_key r = [] else sr_key r \<noteq> [] \<and> sha (sr_key r) = Some h)"

definition table_inv :: "(byte list \<Rightarrow> byte list option) \<Rightarrow> sync_table \<Rightarrow> bool" where
  "table_inv sha tab \<longleftrightarrow> distinct (map fst tab) \<and> (\<forall>h r. map_of tab h = Some r \<longrightarrow> row_inv sha h r)"

lemma judge_Saved:
  assumes "judge sha policy force dv it old = Saved row"
  shows "row = saved_row sha dv old it" "\<not> has_flag (di_flag it) REMOTE_DEVICE_DATA_MISS_QUERY"
    "is_erasing (di_flag it) = has_flag (di_flag it) DELETE_FLAG"
    "row_deleted row = has_flag (di_flag it) DELETE_FLAG"
  using assms by (auto simp: judge_def is_erasing_def row_deleted_def saved_row_def split: if_splits)

lemma judge_Erased:
  "judge sha policy force dv it old = Erased \<Longrightarrow> has_flag (di_flag it) REMOTE_DEVICE_DATA_MISS_QUERY"
  by (auto simp: judge_def split: if_splits)

lemma saved_row_inv:
  assumes j: "judge sha policy force dv it old = Saved row" and k: "key_usable it"
    and h: "item_hash sha it = Some h" "h \<noteq> []"
  shows "row_inv sha h row"
  using judge_Saved[OF j] k h
  by (auto simp: row_inv_def row_deleted_def saved_row_def key_usable_def item_hash_def)

lemma map_of_apply_outcome:
  "map_of (apply_outcome oc h tab) = (case oc of
     Erased \<Rightarrow> (map_of tab)(h := None) | Saved row \<Rightarrow> (map_of tab)(h \<mapsto> row) | _ \<Rightarrow> map_of tab)"
  by (cases oc) (simp_all add: update_conv' delete_conv')

lemma apply_outcome_inv:
  assumes "table_inv sha tab" and "\<And>row. oc = Saved row \<Longrightarrow> row_inv sha h row"
  shows "table_inv sha (apply_outcome oc h tab)"
proof -
  have "distinct (map fst (apply_outcome oc h tab))"
    using assms(1) by (cases oc) (simp_all add: table_inv_def distinct_update distinct_delete)
  then show ?thesis
    using assms unfolding table_inv_def map_of_apply_outcome
    by (cases oc) (auto split: if_splits)
qed

lemma SaveSyncDataItem_ok_or_missing:
  assumes mig: "\<not> ex_isSyncMigrating cfg" and env: "sqlite_codes env"
    and S: "SaveSyncDataItem sha cfg env it dv force s = (s', e)" and e: "e = E_OK \<or> e = E_NOT_FOUND"
  obtains h oc where "item_hash sha it = Some h" "h \<noteq> []"
    and "oc = judge sha (ex_conflictResolvePolicy cfg) force dv it (map_of (ss_table s) h)"
    and "\<And>row. oc = Saved row \<Longrightarrow> key_usable it"
    and "s' = s\<lparr>ss_table := apply_outcome oc h (ss_table s),
        ss_committedData := outcome_notify sha oc h dv it (map_of (ss_table s) h) (ss_committedData s),
        ss_maxStamp := outcome_stamp oc it (map_of (ss_table s) h) (ss_maxStamp s)\<rparr>"
    and "e = outcome_code oc"
proof -
  obtain h where h: "item_hash sha it = Some h" "h \<noteq> []"
    and ok: "SaveSyncDataItem sha cfg sqlite_ok it dv force s = (s', e)"
    and k: "\<And>row. judge sha (ex_conflictResolvePolicy cfg) force dv it (map_of (ss_table s) h) = Saved row \<Longrightarrow>
           key_usable it"
    using SaveSyncDataItem_succeeds[OF mig env S e] by blast
  show thesis
    using ok by (intro that[OF h refl k]) (simp_all add: SaveSyncDataItem_judge[OF mig h k])
qed

section \<open>Invariants over a packet\<close>

lemma save_items_inv:
  assumes step: "\<And>env it s s' e. sqlite_codes env \<Longrightarrow> SaveSyncDataItem sha cfg env it dv force s = (s', e) \<Longrightarrow>
      e = E_OK \<or> e = E_NOT_FOUND \<Longrightarrow> P s \<Longrightarrow> P s'"
    and env: "\<And>i. sqlite_codes (envs i)"
  shows "save_items sha cfg envs dv force i items s e0 = (s', e) \<Longrightarrow> e = E_OK \<or> e = E_NOT_FOUND \<Longrightarrow> P s \<Longrightarrow> P s'"
proof (induction items arbitrary: i s e0)
  case (Cons it items)
  obtain s1 e1 where S: "SaveSyncDataItem sha cfg (envs i) it dv force s = (s1, e1)" by (metis prod.exhaust)
  show ?case
  proof (cases "di_neglect it")
    case False
    have e1: "e1 = E_OK \<or> e1 = E_NOT_FOUND" using Cons.prems(1,2) False S by (auto split: if_splits)
    then have "save_items sha cfg envs dv force (Suc i) items s1 e1 = (s', e)"
      using Cons.prems(1) False S by auto
    then show ?thesis using Cons.IH Cons.prems(2,3) step[OF env S e1] by blast
  qed (use Cons in simp)
qed simp

lemma SaveSyncItems_ok:
  assumes "SaveSyncItems sha cfg env dual query items dv s = (s', E_OK)"
  obtains items' e where "CheckDataWithQuery sha query (ss_table s) dv items = (items', E_OK)"
    "save_items sha cfg (se_item env) dv (\<not> dual) 0 items' s E_OK = (s', e)" "e = E_OK \<or> e = E_NOT_FOUND"
  using assms by (auto simp: SaveSyncItems_def Let_def split: prod.splits if_splits)

lemma SaveSyncDataToMain_ok:
  assumes "SaveSyncDataToMain sha cfg env allocOk query items dv ns = (ns', events, E_OK)"
  obtains s' where
    "SaveSyncItems sha cfg env (ns_syncDualTuple ns) query items dv \<lparr>ss_table = ns_sync_data ns, ss_maxStamp = 0,
       ss_committedData = Some (InitConflictNotifiedFlag ns CommitNotifyData_init)\<rparr> = (s', E_OK)"
    "ns' = SetMaxTimestamp (ns\<lparr>ns_sync_data := ss_table s'\<rparr>) (ss_maxStamp s')"
    "events = CommitAndReleaseNotifyData (ss_committedData s') True SQLITE_GENERAL_NS_SYNC_EVENT"
  using assms by (auto simp: SaveSyncDataToMain_def Let_def split: prod.splits if_splits)

lemma SetMaxTimestamp_table [simp]: "ns_sync_data (SetMaxTimestamp ns t) = ns_sync_data ns"
  by (simp add: SetMaxTimestamp_def)

lemma SaveSyncItems_error:
  assumes "SaveSyncItems sha cfg env dual query items dv s = (s', e)" "e \<noteq> E_OK"
  shows "ss_table s' = ss_table s"
  using assms by (auto simp: SaveSyncItems_def Let_def split: prod.splits if_splits)

lemma SaveSyncDataToMain_error:
  assumes "SaveSyncDataToMain sha cfg env allocOk query items dv ns = (ns', events, e)" "e \<noteq> E_OK"
  shows "ns' = ns \<and> events = []"
  using assms SaveSyncItems_error
  by (auto simp: SaveSyncDataToMain_def Let_def CommitAndReleaseNotifyData_def
      split: prod.splits if_splits option.splits)

text \<open>An invariant of the table that every save keeps is kept by a packet, saved or refused.\<close>

lemma packet_table_inv:
  assumes step: "\<And>env it force s s' e. sqlite_codes env \<Longrightarrow> SaveSyncDataItem sha cfg env it dv force s = (s', e) \<Longrightarrow>
      e = E_OK \<or> e = E_NOT_FOUND \<Longrightarrow> P (ss_table s) \<Longrightarrow> P (ss_table s')"
    and env: "\<And>i. sqlite_codes (se_item env i)"
    and S: "SaveSyncDataToMain sha cfg env allocOk query items dv ns = (ns', events, e)"
    and P: "P (ns_sync_data ns)"
  shows "P (ns_sync_data ns')"
proof (cases "e = E_OK")
  case True
  obtain s' where I: "SaveSyncItems sha cfg env (ns_syncDualTuple ns) query items dv \<lparr>ss_table = ns_sync_data ns,
       ss_maxStamp = 0, ss_committedData = Some (InitConflictNotifiedFlag ns CommitNotifyData_init)\<rparr> = (s', E_OK)"
    and ns': "ns_sync_data ns' = ss_table s'"
    by (rule SaveSyncDataToMain_ok[OF S[unfolded True]]) simp
  obtain items' c where "save_items sha cfg (se_item env) dv (\<not> ns_syncDualTuple ns) 0 items' \<lparr>ss_table = ns_sync_data ns,
       ss_maxStamp = 0, ss_committedData = Some (InitConflictNotifiedFlag ns CommitNotifyData_init)\<rparr> E_OK = (s', c)"
    "c = E_OK \<or> c = E_NOT_FOUND"
    by (rule SaveSyncItems_ok[OF I])
  then show ?thesis
    using save_items_inv[where P = "\<lambda>s. P (ss_table s)", OF step env] P by (simp add: ns')
qed (use SaveSyncDataToMain_error[OF S] P in simp)

end
