(* ===== verification/Store_Notification.thy ===== *)
theory Store_Notification
  imports Single_Ver_Store
begin

text \<open>
  What the observers of a store are told after a transaction is the net change of the table: the
  record of \<^verbatim>\<open>SingleVerNaturalStoreCommitNotifyData\<close> against the table before and after.
\<close>

section \<open>Net change\<close>

definition live :: "sync_table \<Rightarrow> Key \<Rightarrow> Value option" where
  "live tab h = (case map_of tab h of
     None \<Rightarrow> None | Some r \<Rightarrow> if row_deleted r then None else Some (sr_value r))"

definition told_net :: "sync_table \<Rightarrow> sync_table \<Rightarrow> Key \<Rightarrow> (DataType \<times> Value) list \<Rightarrow> bool" where
  "told_net before after h ns = (case (live before h, live after h) of
     (None, None) \<Rightarrow> ns = []
   | (None, Some v) \<Rightarrow> ns = [(DT_INSERT, v)]
   | (Some v, None) \<Rightarrow> map fst ns = [DT_DELETE]
   | (Some v, Some w) \<Rightarrow> ns = [(DT_UPDATE, w)] \<or> ns = [] \<and> map_of after h = map_of before h)"

definition recorded :: "sync_table \<Rightarrow> sync_table \<Rightarrow> (Key \<rightharpoonup> ItemProp) \<Rightarrow> bool" where
  "recorded before after rec \<longleftrightarrow> (\<forall>h. (rec h = None \<longrightarrow> map_of after h = map_of before h) \<and>
     (\<forall>p. rec h = Some p \<longrightarrow> ip_existStatus p = exist_of (row_status (map_of before h))))"

definition net_inv :: "(byte list \<Rightarrow> byte list option) \<Rightarrow> sync_table \<Rightarrow> sync_table \<Rightarrow> CommitNotifyData \<Rightarrow> bool" where
  "net_inv sha before after cn \<longleftrightarrow> notify_inv sha cn \<and> table_inv sha after \<and> cn_keyFilter cn = [] \<and>
     recorded before after (cn_keyPropRecord cn) \<and>
     (\<forall>k h. sha k = Some h \<longrightarrow> told_net before after h (notified cn k))"

lemma exist_of_EXIST: "exist_of (row_status (map_of tab h)) = EX_EXIST \<longleftrightarrow> live tab h \<noteq> None"
  by (auto simp: exist_of_def row_status_def live_def split: option.split DataStatus.split)

lemma told_net_cong:
  "map_of after' h = map_of after h \<Longrightarrow> told_net before after' h ns = told_net before after h ns"
  unfolding told_net_def live_def by (simp only:)

lemma keyFilter_kept [simp]:
  "cn_keyFilter (InitKeyPropRecord cn h st) = cn_keyFilter cn"
  "cn_keyFilter (InsertCommittedData sha cn e dt True) = cn_keyFilter cn"
  "cn_keyFilter (InsertConflictedItem sha cn i og) = cn_keyFilter cn"
proof -
  have del: "cn_keyFilter (DeleteEntryByKey c k ty) = cn_keyFilter c" for c k ty by (cases ty) simp_all
  have ins: "cn_keyFilter (InsertEntry c ty e) = cn_keyFilter c" for c ty by (cases ty) simp_all
  show "cn_keyFilter (InitKeyPropRecord cn h st) = cn_keyFilter cn" by (simp add: InitKeyPropRecord_def)
  show "cn_keyFilter (InsertCommittedData sha cn e dt True) = cn_keyFilter cn"
    by (simp add: InsertCommittedData_def Let_def del ins split: option.split)
  show "cn_keyFilter (InsertConflictedItem sha cn i og) = cn_keyFilter cn"
    by (simp add: InsertConflictedItem_def PutIntoConflictData_def DeleteConflictEntry_def Let_def split: option.split)
qed

lemma net_inv_init: "table_inv sha tab \<Longrightarrow> net_inv sha tab tab (InitConflictNotifiedFlag ns CommitNotifyData_init)"
  unfolding net_inv_def notify_inv_def told_latest_def told_net_def recorded_def
  by (auto simp: CommitNotifyData_init_def InitConflictNotifiedFlag_def notified_def bind_eq_Some_conv
      split: option.split)

definition same_changes :: "CommitNotifyData \<Rightarrow> CommitNotifyData \<Rightarrow> bool" where
  "same_changes cn cn' \<longleftrightarrow> cn_keyPropRecord cn' = cn_keyPropRecord cn \<and> notified cn' = notified cn \<and>
     cn_keyFilter cn' = cn_keyFilter cn"

lemma same_changes_inv:
  "same_changes cn cn' \<Longrightarrow> net_inv sha before after cn' = net_inv sha before after cn"
  by (simp add: same_changes_def net_inv_def notify_inv_def)

lemma PutConflictData_same:
  obtains cn' where "PutConflictData sha it g dv st (Some cn) = Some cn'" "same_changes cn cn'"
proof -
  have "\<exists>cn'. PutConflictData sha it g dv st (Some cn) = Some cn' \<and> same_changes cn cn'"
    by (auto simp: PutConflictData_def same_changes_def Let_def conflict_data_apart keyFilter_kept fun_eq_iff)
  then show thesis using that by blast
qed

lemma net_inv_InitKeyPropRecord:
  assumes "net_inv sha before after cn" "h \<noteq> []"
  shows "net_inv sha before after (InitKeyPropRecord cn h (exist_of (row_status (map_of after h))))"
proof -
  have "cn_keyPropRecord cn h = None \<Longrightarrow> map_of after h = map_of before h"
    using assms(1) unfolding net_inv_def recorded_def by blast
  then show ?thesis
    using assms InitKeyPropRecord_inv[of sha cn h]
    by (auto simp: net_inv_def recorded_def InitKeyPropRecord_simps)
qed

text \<open>The table changes at \<open>h\<close>, the hash of the entry's key, and the entry is merged into the record.\<close>

definition merged_note :: "sync_table \<Rightarrow> Key \<Rightarrow> DataType \<Rightarrow> Value \<Rightarrow> (DataType \<times> Value) list" where
  "merged_note before h dt v =
     (let m = merged_type (exist_of (row_status (map_of before h))) dt in if m = DT_NONE then [] else [(m, v)])"

lemma net_inv_merge:
  assumes hi: "hash_inj sha" and inv: "net_inv sha before after cn" and tab: "table_inv sha after'"
    and h: "sha (e_key e) = Some h" and p: "cn_keyPropRecord cn h = Some p"
    and other: "\<And>h'. h' \<noteq> h \<Longrightarrow> map_of after' h' = map_of after h'"
    and note': "told_net before after' h (merged_note before h dt (e_value e))"
  shows "net_inv sha before after' (InsertCommittedData sha cn e dt True)"
proof -
  have ni: "notify_inv sha cn" using inv by (simp add: net_inv_def)
  note eff = InsertCommittedData_merge[OF ni h p, of dt]
  have st: "ip_existStatus p = exist_of (row_status (map_of before h))"
    using inv p unfolding net_inv_def recorded_def by blast
  have told: "told_net before after' h' (notified (InsertCommittedData sha cn e dt True) k)" if k: "sha k = Some h'" for k h'
  proof (cases "k = e_key e")
    case True
    then show ?thesis using h k note' by (auto simp: eff merged_note_def st Let_def split: if_splits)
  next
    case False
    then have "h' \<noteq> h" using hi h k unfolding hash_inj_def by blast
    then show ?thesis
      using False inv k by (simp add: eff told_net_cong[OF other] net_inv_def)
  qed
  have rec: "recorded before after' (cn_keyPropRecord (InsertCommittedData sha cn e dt True))"
    using inv other st unfolding eff net_inv_def recorded_def by auto
  show ?thesis
    unfolding net_inv_def keyFilter_kept using InsertCommittedData_inv[OF hi ni] tab told rec inv
    by (auto simp: net_inv_def)
qed

lemma told_merged_put:
  "live after' h = Some v \<Longrightarrow> dt = DT_INSERT \<or> dt = DT_UPDATE \<Longrightarrow> told_net before after' h (merged_note before h dt v)"
  using exist_of_EXIST[of before h]
  by (cases "live before h") (auto simp: told_net_def merged_note_def merged_type_def)

lemma told_merged_delete:
  "live after' h = None \<Longrightarrow> told_net before after' h (merged_note before h DT_DELETE v)"
  using exist_of_EXIST[of before h]
  by (cases "live before h") (auto simp: told_net_def merged_note_def merged_type_def)

lemma told_net_gone:
  "live after h = None \<Longrightarrow> live after' h = None \<Longrightarrow> told_net before after' h ns = told_net before after h ns"
  by (simp add: told_net_def split: option.split)

lemma no_live_empty_key:
  assumes "hash_inj sha" "table_inv sha tab" "sha [] = Some h"
  shows "live tab h = None"
proof (cases "map_of tab h")
  case (Some r)
  then have "row_inv sha h r" using assms(2) by (simp add: table_inv_def)
  moreover have "sha (sr_key r) = Some h \<Longrightarrow> sr_key r = []"
    using assms(1,3) unfolding hash_inj_def by blast
  ultimately show ?thesis using Some by (auto simp: live_def row_inv_def split: if_splits)
qed (simp add: live_def)

lemma net_inv_remove_dead:
  assumes hi: "hash_inj sha" and inv: "net_inv sha before after cn"
    and tab: "table_inv sha after'" and p: "cn_keyPropRecord cn h = Some p"
    and other: "\<And>h'. h' \<noteq> h \<Longrightarrow> map_of after' h' = map_of after h'"
    and gone: "live after' h = None" "live after h = None" and e: "e_key e = []"
  shows "net_inv sha before after' (InsertCommittedData sha cn e DT_DELETE True)"
proof -
  have ni: "notify_inv sha cn" using inv by (simp add: net_inv_def)
  have base: "net_inv sha before after' cn"
    using inv tab p other gone unfolding net_inv_def recorded_def
    by (metis (no_types, opaque_lifting) option.distinct(1) told_net_cong told_net_gone)
  show ?thesis
  proof (cases "cn_keyPropRecord cn (hash_or_empty sha (e_key e))")
    case None
    then show ?thesis using base by (simp add: InsertCommittedData_unset)
  next
    case (Some q)
    define h0 where "h0 = hash_or_empty sha (e_key e)"
    have "h0 \<noteq> []" using Some ni by (auto simp: h0_def notify_inv_def)
    then have s0: "sha (e_key e) = Some h0" using hash_or_empty_Some[OF hi, of h0 "e_key e"] h0_def by blast
    have q: "cn_keyPropRecord cn h0 = Some q" using Some by (simp add: h0_def)
    show ?thesis
      using no_live_empty_key[OF hi tab] s0 e
      by (intro net_inv_merge[OF hi base tab s0 q] told_merged_delete) simp_all
  qed
qed

lemma InitKeyPropRecord_set: "\<exists>p. cn_keyPropRecord (InitKeyPropRecord cn h st) h = Some p"
  by (auto simp: InitKeyPropRecord_simps)

lemma net_inv_deleted:
  assumes hi: "hash_inj sha" and inv: "net_inv sha before after cn" and tab: "table_inv sha after'"
    and p: "cn_keyPropRecord cn h = Some p"
    and other: "\<And>h'. h' \<noteq> h \<Longrightarrow> map_of after' h' = map_of after h'" and gone: "live after' h = None"
    and e: "e_key e = (case map_of after h of None \<Rightarrow> [] | Some r \<Rightarrow> sr_key r)"
  shows "net_inv sha before after' (InsertCommittedData sha cn e DT_DELETE True)"
proof (cases "live after h")
  case None
  have "row_inv sha h r" if "map_of after h = Some r" for r
    using inv that by (simp add: net_inv_def table_inv_def)
  then have "e_key e = []" using e None by (auto simp: live_def row_inv_def split: option.splits if_splits)
  then show ?thesis using net_inv_remove_dead[OF hi inv tab p other gone None] by simp
next
  case (Some v)
  then obtain r where r: "map_of after h = Some r" "\<not> row_deleted r" by (auto simp: live_def split: option.splits if_splits)
  then have "row_inv sha h r" using inv by (simp add: net_inv_def table_inv_def)
  then have "sha (e_key e) = Some h" using e r by (simp add: row_inv_def)
  then show ?thesis by (rule net_inv_merge[OF hi inv tab _ p other told_merged_delete[OF gone]])
qed

lemma outcome_net_inv:
  assumes hi: "hash_inj sha" and inv: "net_inv sha before tab cn" and h: "item_hash sha it = Some h" "h \<noteq> []"
    and oc: "oc = judge sha policy force dv it (map_of tab h)" and k: "\<And>row. oc = Saved row \<Longrightarrow> key_usable it"
  obtains cn' where "outcome_notify sha oc h dv it (map_of tab h) (Some cn) = Some cn'"
    "net_inv sha before (apply_outcome oc h tab) cn'"
proof -
  define cn1 where "cn1 = InitKeyPropRecord cn h (exist_of (row_status (map_of tab h)))"
  define st where "st = oper_status (map_of tab h) it (oc = Defeated)"
  define it1 where "it1 = (if oc = Defeated then it else amended (map_of tab h) it)"
  obtain cn2 where cn2: "PutConflictData sha it1 (read_full (map_of tab h)) dv st (Some cn1) = Some cn2"
    and same: "same_changes cn1 cn2" by (rule PutConflictData_same)
  obtain p where p: "cn_keyPropRecord cn2 h = Some p"
    using same InitKeyPropRecord_set[of cn h] by (auto simp: same_changes_def cn1_def)
  have i1: "net_inv sha before tab cn1" unfolding cn1_def by (rule net_inv_InitKeyPropRecord[OF inv h(2)])
  then have i2: "net_inv sha before tab cn2" using same_changes_inv[OF same] by simp
  have tab': "table_inv sha (apply_outcome oc h tab)"
    using inv saved_row_inv[OF oc[symmetric, THEN trans]] h k
    by (intro apply_outcome_inv) (auto simp: net_inv_def)
  have other: "map_of (apply_outcome oc h tab) h' = map_of tab h'" if "h' \<noteq> h" for h'
    using that by (simp add: map_of_apply_outcome split: outcome.split)
  have ini: "InitCommitNotifyDataKeyStatus (Some cn) h st = Some cn1"
    by (simp add: st_def cn1_def InitCommitNotifyData_status)
  have onote: "outcome_notify sha oc h dv it (map_of tab h) (Some cn) = (case oc of
      Ignored \<Rightarrow> Some cn | Missing \<Rightarrow> Some cn1 | Defeated \<Rightarrow> Some cn2
    | _ \<Rightarrow> PutIntoCommittedData sha it1 (read_full (map_of tab h)) st (Some cn2))"
    unfolding outcome_notify_def Let_def st_def[symmetric] it1_def[symmetric] ini cn2 by (rule refl)
  note show_it = that[unfolded onote]
  note del = net_inv_deleted[OF hi i2 tab' p other]
  consider "oc = Ignored" | "oc = Missing" | "oc = Defeated" | "oc = Erased" |
    row where "oc = Saved row" "row_deleted row" | row where "oc = Saved row" "\<not> row_deleted row"
    by (cases oc) auto
  then show thesis
  proof cases
    case 4
    then have "is_erasing (di_flag it)" using judge_Erased oc by (simp add: is_erasing_def)
    then show thesis using 4 show_it del[of "\<lparr>e_key = di_key (read_full (map_of tab h)), e_value = _\<rparr>"]
      by (simp add: PutIntoCommittedData_def live_def delete_conv' st_def)
  next
    case (5 row)
    then have "is_erasing (di_flag it)" using judge_Saved[OF oc[symmetric, unfolded 5]] by simp
    then show thesis using 5 show_it del[of "\<lparr>e_key = di_key (read_full (map_of tab h)), e_value = _\<rparr>"]
      by (simp add: PutIntoCommittedData_def live_def update_conv' st_def)
  next
    case (6 row)
    note js = judge_Saved[OF oc[symmetric, unfolded 6(1)]]
    have ne: "\<not> is_erasing (di_flag it)" using js 6 by simp
    then have sk: "sha (di_key it) = Some h" using h by (simp add: item_hash_def)
    have v: "live (apply_outcome oc h tab) h = Some (di_value it)"
      using 6(2) js(1) unfolding 6(1) by (simp add: live_def update_conv' saved_row_def row_deleted_def)
    have put: "net_inv sha before (apply_outcome oc h tab) (InsertCommittedData sha cn2
        \<lparr>e_key = di_key it, e_value = di_value it\<rparr> (if row_status (map_of tab h) = EXISTED then DT_UPDATE else DT_INSERT) True)"
      using sk v by (intro net_inv_merge[OF hi i2 tab' _ p other] told_merged_put) simp_all
    have "di_key it1 = di_key it" "di_value it1 = di_value it"
      using 6 by (simp_all add: it1_def)
    then show thesis using 6 ne show_it put by (simp add: PutIntoCommittedData_def st_def)
  qed (use show_it inv i1 i2 in \<open>simp_all\<close>)
qed

lemma save_item_net_inv:
  assumes hi: "hash_inj sha" and mig: "\<not> ex_isSyncMigrating cfg" and env: "sqlite_codes env"
    and S: "SaveSyncDataItem sha cfg env it dv force s = (s', e)" and e: "e = E_OK \<or> e = E_NOT_FOUND"
    and inv: "\<exists>cn. ss_committedData s = Some cn \<and> net_inv sha before (ss_table s) cn"
  shows "\<exists>cn. ss_committedData s' = Some cn \<and> net_inv sha before (ss_table s') cn"
proof -
  obtain cn where cn: "ss_committedData s = Some cn" "net_inv sha before (ss_table s) cn" using inv by blast
  obtain h oc where h: "item_hash sha it = Some h" "h \<noteq> []"
    and oc: "oc = judge sha (ex_conflictResolvePolicy cfg) force dv it (map_of (ss_table s) h)"
    and k: "\<And>row. oc = Saved row \<Longrightarrow> key_usable it"
    and s': "s' = s\<lparr>ss_table := apply_outcome oc h (ss_table s),
      ss_committedData := outcome_notify sha oc h dv it (map_of (ss_table s) h) (ss_committedData s),
      ss_maxStamp := outcome_stamp oc it (map_of (ss_table s) h) (ss_maxStamp s)\<rparr>"
    using SaveSyncDataItem_ok_or_missing[OF mig env S e] by metis
  obtain cn1 where "outcome_notify sha oc h dv it (map_of (ss_table s) h) (Some cn) = Some cn1"
    "net_inv sha before (apply_outcome oc h (ss_table s)) cn1"
    by (rule outcome_net_inv[OF hi cn(2) h oc]) (use k in blast)+
  then show ?thesis using cn by (simp add: s')
qed

definition announced :: "(notify_event \<times> CommitNotifyData) list \<Rightarrow> Key \<Rightarrow> (DataType \<times> Value) list" where
  "announced events k =
     concat (map (\<lambda>(ev, cn). if ev = SQLITE_GENERAL_CONFLICT_EVENT then [] else notified cn k) events)"

lemma announced_commit:
  "cn_keyFilter cn = [] \<Longrightarrow> ev \<noteq> SQLITE_GENERAL_CONFLICT_EVENT \<Longrightarrow>
     announced (CommitAndReleaseNotifyData (Some cn) True ev) k = notified cn k"
  by (auto simp: announced_def CommitAndReleaseNotifyData_def IsChangedDataEmpty_def GetInsertedEntries_def
      GetUpdatedEntries_def GetDeletedEntries_def FilterEntriesByKey_def notified_def)

text \<open>C3. After a packet of another device has been saved, the observers of the store have been told, for
  every key, exactly its net change: the new value of a key that was not there, the new value of a key that was,
  the deletion of a key that is gone, nothing for a key that is as before; and the table keeps its invariant.\<close>

theorem observers_told_net_change:
  assumes "hash_inj sha" "\<not> ex_isSyncMigrating cfg" "\<And>i. sqlite_codes (se_item env i)"
    and "table_inv sha (ns_sync_data ns)"
    and "SaveSyncDataToMain sha cfg env allocOk query items dv ns = (ns', events, E_OK)"
  shows "(sha k = Some h \<longrightarrow> told_net (ns_sync_data ns) (ns_sync_data ns') h (announced events k)) \<and>
     table_inv sha (ns_sync_data ns')"
proof -
  define cn where "cn = InitConflictNotifiedFlag ns CommitNotifyData_init"
  define s where "s = \<lparr>ss_table = ns_sync_data ns, ss_maxStamp = 0, ss_committedData = Some cn\<rparr>"
  obtain s' where S: "SaveSyncItems sha cfg env (ns_syncDualTuple ns) query items dv s = (s', E_OK)"
    and ns': "ns_sync_data ns' = ss_table s'"
    and ev: "events = CommitAndReleaseNotifyData (ss_committedData s') True SQLITE_GENERAL_NS_SYNC_EVENT"
    by (rule SaveSyncDataToMain_ok[OF assms(5)]) (simp add: s_def cn_def)
  obtain items' e where L: "save_items sha cfg (se_item env) dv (\<not> ns_syncDualTuple ns) 0 items' s E_OK = (s', e)"
    and e: "e = E_OK \<or> e = E_NOT_FOUND" using SaveSyncItems_ok[OF S] by metis
  have "net_inv sha (ns_sync_data ns) (ss_table s) cn"
    using net_inv_init[OF assms(4)] by (simp add: s_def cn_def)
  then have "\<exists>cn. ss_committedData s = Some cn \<and> net_inv sha (ns_sync_data ns) (ss_table s) cn"
    by (simp add: s_def)
  then have "\<exists>cn. ss_committedData s' = Some cn \<and> net_inv sha (ns_sync_data ns) (ss_table s') cn"
    by (rule save_items_inv[where P = "\<lambda>s. \<exists>cn. ss_committedData s = Some cn \<and> net_inv sha (ns_sync_data ns) (ss_table s) cn",
        OF _ assms(3) L e, rotated]) (rule save_item_net_inv[OF assms(1,2)])
  then obtain cn' where "ss_committedData s' = Some cn'" "net_inv sha (ns_sync_data ns) (ss_table s') cn'" by blast
  then show ?thesis by (simp add: net_inv_def announced_commit ev ns')
qed

text \<open>A packet that replaces one value, deletes one key and brings a new one.\<close>

definition demo_sha :: "byte list \<Rightarrow> byte list option" where "demo_sha k = Some (1 # k)"

definition demo_cfg :: executor_cfg where
  "demo_cfg = \<lparr>ex_isSyncMigrating = False, ex_conflictResolvePolicy = DEFAULT_LAST_WIN\<rparr>"

definition demo_row :: "Key \<Rightarrow> Value \<Rightarrow> Timestamp \<Rightarrow> sync_row" where
  "demo_row k v t = \<lparr>sr_key = k, sr_value = v, sr_timestamp = t, sr_flag = LOCAL_FLAG, sr_device = [],
     sr_ori_device = [], sr_w_timestamp = t\<rparr>"

definition demo_item :: "Key \<Rightarrow> Value \<Rightarrow> Timestamp \<Rightarrow> u64 \<Rightarrow> DataItem" where
  "demo_item k v t fl = DataItem_init\<lparr>di_key := k, di_value := v, di_timestamp := t, di_writeTimestamp := t,
     di_flag := fl\<rparr>"

definition demo_store :: NaturalStore where
  "demo_store = \<lparr>ns_sync_data = [([1, 7], demo_row [7] [70] 5), ([1, 8], demo_row [8] [80] 5)],
     ns_currentMaxTimestamp = 5, ns_isReadOnly = False, ns_syncDualTuple = False,
     ns_foreignKeyOnlyCount = 0, ns_foreignKeyOrigCount = 0, ns_nativeAllCount = 0\<rparr>"

definition demo_dev :: DeviceInfo where "demo_dev = \<lparr>dv_isLocal = False, dv_deviceName = [66]\<rparr>"

definition demo_packet :: "DataItem list" where
  "demo_packet = [demo_item [7] [71] 6 0, demo_item [1, 8] [] 6 DELETE_FLAG, demo_item [9] [90] 7 0]"

definition demo_result :: "NaturalStore \<times> (notify_event \<times> CommitNotifyData) list \<times> errno" where
  "demo_result = SaveSyncDataToMain demo_sha demo_cfg store_env_ok True None demo_packet demo_dev demo_store"

lemma demo_hash: "hash_inj demo_sha" "\<not> ex_isSyncMigrating demo_cfg" "sqlite_codes (se_item store_env_ok i)"
  by (simp_all add: hash_inj_def demo_sha_def demo_cfg_def sqlite_codes_def store_env_ok_def sqlite_ok_def)

lemma demo_table: "table_inv demo_sha (ns_sync_data demo_store)"
  by (auto simp: table_inv_def row_inv_def demo_store_def demo_row_def demo_sha_def row_deleted_def has_flag_def
      flag_consts split: if_splits)

lemma demo_code: "snd (snd demo_result) = E_OK"
  by code_simp

theorem observers_told_net_change_witness:
  "told_net (ns_sync_data demo_store) (ns_sync_data (fst demo_result)) [1, 8] (announced (fst (snd demo_result)) [8])
   \<and> live (ns_sync_data demo_store) [1, 8] = Some [80]"
proof -
  have "SaveSyncDataToMain demo_sha demo_cfg store_env_ok True None demo_packet demo_dev demo_store =
      (fst demo_result, fst (snd demo_result), E_OK)"
    using demo_code by (metis demo_result_def prod.collapse)
  from observers_told_net_change[OF demo_hash demo_table this, of "[8]" "[1, 8]"] show ?thesis
    by (simp add: demo_sha_def live_def demo_store_def demo_row_def row_deleted_def has_flag_def flag_consts)
qed

text \<open>C22. A packet is saved as a whole or not at all: when \<open>PutSyncDataWithQuery\<close> reports an error, whatever
  call of SQLite failed and at which item, the store is as it was and no observer is told anything.\<close>

theorem sync_packet_atomic:
  assumes "PutSyncDataWithQuery sha cfg env allocOk schema query entries deviceName ns = (ns', events, e)"
    and "e \<noteq> E_OK"
  shows "ns' = ns \<and> events = []"
  using assms SaveSyncDataToMain_error
  by (auto simp: PutSyncDataWithQuery_def SaveSyncDataItems_def split: if_splits)

definition failing_env :: store_env where
  "failing_env = store_env_ok\<lparr>se_item := (\<lambda>i. if i = 2 then sqlite_ok\<lparr>sq_save := E_BUSY\<rparr> else sqlite_ok)\<rparr>"

theorem sync_packet_atomic_witness:
  "PutSyncDataWithQuery demo_sha demo_cfg failing_env True None None demo_packet [66] demo_store =
     (demo_store, [], E_BUSY)"
proof -
  let ?r = "PutSyncDataWithQuery demo_sha demo_cfg failing_env True None None demo_packet [66] demo_store"
  have "?r = SaveSyncDataToMain demo_sha demo_cfg failing_env True None (map item_of_entry demo_packet) demo_dev demo_store"
    by (simp add: PutSyncDataWithQuery_def SaveSyncDataItems_def CheckAmendValueContentForSyncProcedure_def
        demo_packet_def item_of_entry_def demo_item_def DataItem_init_def CheckDataStatus_def MAX_KEY_SIZE_def
        MAX_VALUE_SIZE_def MAX_DEV_LENGTH_def demo_dev_def)
  moreover have "snd (snd (SaveSyncDataToMain demo_sha demo_cfg failing_env True None (map item_of_entry demo_packet)
      demo_dev demo_store)) = E_BUSY" by code_simp
  ultimately have e: "snd (snd ?r) = E_BUSY" by simp
  have "?r = (fst ?r, fst (snd ?r), E_BUSY)" using e by (metis prod.collapse)
  then show ?thesis using sync_packet_atomic[of demo_sha demo_cfg failing_env True None None demo_packet "[66]" demo_store
      "fst ?r" "fst (snd ?r)" E_BUSY] by simp
qed

end
