(* ===== verification/Store_Convergence.thy ===== *)
theory Store_Convergence
  imports Store_Notification
begin

text \<open>
  The table as a map of last-write-wins registers: what one save does to the content of a row, and
  what follows for two devices that save the same writes in different orders.
\<close>

section \<open>Writes and registers\<close>

type_synonym content = "Key \<times> Value \<times> Timestamp \<times> bool"

definition row_content :: "sync_row \<Rightarrow> content" where
  "row_content r = (sr_key r, sr_value r, sr_w_timestamp r, row_deleted r)"

definition content_at :: "sync_table \<Rightarrow> Key \<Rightarrow> content option" where
  "content_at tab h = map_option row_content (map_of tab h)"

definition item_content :: "DataItem \<Rightarrow> content" where
  "item_content it = (if has_flag (di_flag it) DELETE_FLAG then [] else di_key it, di_value it,
     di_writeTimestamp it, has_flag (di_flag it) DELETE_FLAG)"

definition wts :: "content \<Rightarrow> Timestamp" where "wts c = fst (snd (snd c))"

definition lww :: "content option \<Rightarrow> content \<Rightarrow> content option" where
  "lww old new = (case old of None \<Rightarrow> Some new | Some c \<Rightarrow> if wts c < wts new then Some new else Some c)"

text \<open>The largest write timestamp wins, in whatever order and however often the writes come.\<close>

lemma foldl_lww_in: "\<exists>c \<in> set (a # ws). foldl lww (Some a) ws = Some c \<and> (\<forall>w \<in> set (a # ws). wts w \<le> wts c)"
proof (induction ws arbitrary: a)
  case (Cons w ws)
  show ?case
  proof (cases "wts a < wts w")
    case True
    then show ?thesis using Cons.IH[of w] by (auto simp: lww_def)
  next
    case False
    then show ?thesis using Cons.IH[of a] by (fastforce simp: lww_def)
  qed
qed simp

lemma foldl_lww_max:
  assumes "ws \<noteq> []"
  obtains c where "c \<in> set ws" "foldl lww None ws = Some c" "\<forall>w \<in> set ws. wts w \<le> wts c"
proof -
  obtain a as where ws: "ws = a # as" using assms by (cases ws) auto
  obtain c where c: "c \<in> set (a # as)" "foldl lww (Some a) as = Some c" "\<forall>w \<in> set (a # as). wts w \<le> wts c"
    using foldl_lww_in by blast
  show thesis using that[of c] c by (simp only: ws) (simp add: lww_def)
qed

lemma foldl_lww_set:
  assumes "set ws = set ws'" and inj: "\<And>a b. a \<in> set ws \<Longrightarrow> b \<in> set ws \<Longrightarrow> wts a = wts b \<Longrightarrow> a = b"
  shows "foldl lww None ws = foldl lww None ws'"
proof (cases "ws = []")
  case True
  then show ?thesis using assms(1) by simp
next
  case False
  then have "ws' \<noteq> []" using assms(1) by auto
  then obtain c c' where "c \<in> set ws" "foldl lww None ws = Some c" "\<forall>w \<in> set ws. wts w \<le> wts c"
    "c' \<in> set ws'" "foldl lww None ws' = Some c'" "\<forall>w \<in> set ws'. wts w \<le> wts c'"
    using foldl_lww_max[OF False] foldl_lww_max[of ws'] by metis
  then show ?thesis using assms(1) inj[of c c'] by (metis order_antisym)
qed

section \<open>One save is one write to a register\<close>

lemma save_outcome_lww:
  assumes oc: "judge sha DEFAULT_LAST_WIN force dv it old = oc" and ok: "outcome_code oc = E_OK"
    and nm: "\<not> has_flag (di_flag it) REMOTE_DEVICE_DATA_MISS_QUERY"
    and nf: "\<And>r. old = Some r \<Longrightarrow> forced sha force dv r \<Longrightarrow> sr_w_timestamp r < di_writeTimestamp it"
  shows "map_option row_content (case oc of Saved row \<Rightarrow> Some row | _ \<Rightarrow> old) =
     lww (map_option row_content old) (item_content it)"
proof (cases old)
  case None
  then have "oc = Saved (saved_row sha dv None it) \<or> oc = Missing" using oc nm by (auto simp: judge_def)
  then show ?thesis using ok None
    by (auto simp: outcome_code_def lww_def row_content_def item_content_def saved_row_def amended_def row_deleted_def)
next
  case (Some r)
  have "oc \<noteq> Missing" using ok by (auto simp: outcome_code_def)
  then have "oc = (if sr_w_timestamp r < di_writeTimestamp it then Saved (saved_row sha dv old it) else Defeated)"
    using oc nm nf[OF Some] Some by (auto simp: judge_def split: if_splits)
  then show ?thesis using Some
    by (auto simp: lww_def row_content_def item_content_def saved_row_def amended_def row_deleted_def wts_def)
qed

type_synonym save_event = "sqlite_env \<times> DataItem \<times> DeviceInfo"

text \<open>A device saves items one after the other, its own and those of other devices.\<close>

fun save_all ::
    "(byte list \<Rightarrow> byte list option) \<Rightarrow> executor_cfg \<Rightarrow> bool \<Rightarrow> save_event list \<Rightarrow> save_state \<Rightarrow> save_state \<times> errno" where
  "save_all sha cfg force [] s = (s, E_OK)"
| "save_all sha cfg force ((env, it, dv) # evs) s =
     (case SaveSyncDataItem sha cfg env it dv force s of (s', e) \<Rightarrow>
        if e \<noteq> E_OK then (s', e) else save_all sha cfg force evs s')"

definition ev_hash :: "(byte list \<Rightarrow> byte list option) \<Rightarrow> save_event \<Rightarrow> Key option" where
  "ev_hash sha ev = item_hash sha (fst (snd ev))"

definition ev_wts :: "save_event \<Rightarrow> Timestamp" where
  "ev_wts ev = di_writeTimestamp (fst (snd ev))"

definition ev_dev :: "(byte list \<Rightarrow> byte list option) \<Rightarrow> save_event \<Rightarrow> byte list" where
  "ev_dev sha ev = TransferHashString sha (dv_deviceName (snd (snd ev)))"

text \<open>The items of one device come in the order of their write timestamps, key by key.\<close>

fun in_order :: "(byte list \<Rightarrow> byte list option) \<Rightarrow> save_event list \<Rightarrow> bool" where
  "in_order sha [] = True"
| "in_order sha (ev # evs) = ((\<forall>ev' \<in> set evs. ev_dev sha ev \<noteq> [] \<and>
     ev_dev sha ev' = ev_dev sha ev \<and> ev_hash sha ev' = ev_hash sha ev \<longrightarrow>
     ev_wts ev < ev_wts ev') \<and> in_order sha evs)"

definition writes_to :: "(byte list \<Rightarrow> byte list option) \<Rightarrow> Key \<Rightarrow> save_event list \<Rightarrow> content list" where
  "writes_to sha h evs = map (\<lambda>ev. item_content (fst (snd ev))) (filter (\<lambda>ev. ev_hash sha ev = Some h) evs)"

definition plain_events :: "save_event list \<Rightarrow> bool" where
  "plain_events evs \<longleftrightarrow> (\<forall>(env, it, dv) \<in> set evs. sqlite_codes env \<and>
     \<not> has_flag (di_flag it) REMOTE_DEVICE_DATA_MISS_QUERY)"

definition rows_from :: "(byte list \<Rightarrow> byte list option) \<Rightarrow> save_event set \<Rightarrow> sync_table \<Rightarrow> bool" where
  "rows_from sha evs tab \<longleftrightarrow> (\<forall>h r. map_of tab h = Some r \<longrightarrow>
     (\<exists>ev \<in> evs. ev_hash sha ev = Some h \<and> sr_w_timestamp r = ev_wts ev \<and> sr_device r = ev_dev sha ev))"

lemma save_content:
  assumes mig: "\<not> ex_isSyncMigrating cfg" and pol: "ex_conflictResolvePolicy cfg = DEFAULT_LAST_WIN"
    and env: "sqlite_codes env" and nm: "\<not> has_flag (di_flag it) REMOTE_DEVICE_DATA_MISS_QUERY"
    and S: "SaveSyncDataItem sha cfg env it dv force s = (s', E_OK)"
    and nf: "\<And>r g. item_hash sha it = Some g \<Longrightarrow> map_of (ss_table s) g = Some r \<Longrightarrow> forced sha force dv r \<Longrightarrow>
        sr_w_timestamp r < di_writeTimestamp it"
  obtains g oc where "item_hash sha it = Some g"
    and "content_at (ss_table s') = (content_at (ss_table s))(g := lww (content_at (ss_table s) g) (item_content it))"
    and "map_of (ss_table s') = (case oc of Saved row \<Rightarrow> (map_of (ss_table s))(g \<mapsto> row) | _ \<Rightarrow> map_of (ss_table s))"
    and "\<forall>row. oc = Saved row \<longrightarrow> sr_w_timestamp row = di_writeTimestamp it \<and>
           sr_device row = TransferHashString sha (dv_deviceName dv)"
proof -
  obtain g oc where g: "item_hash sha it = Some g" "g \<noteq> []"
    and oc: "oc = judge sha DEFAULT_LAST_WIN force dv it (map_of (ss_table s) g)"
    and s': "ss_table s' = apply_outcome oc g (ss_table s)" and code: "E_OK = outcome_code oc"
    by (rule SaveSyncDataItem_ok_or_missing[OF mig env S]) (simp_all add: pol)
  have ne: "oc \<noteq> Erased" using judge_Erased nm oc by metis
  have m: "map_of (ss_table s') = (case oc of Saved row \<Rightarrow> (map_of (ss_table s))(g \<mapsto> row) | _ \<Rightarrow> map_of (ss_table s))"
    using ne by (auto simp: s' map_of_apply_outcome split: outcome.split)
  note l = save_outcome_lww[OF oc[symmetric] code[symmetric] nm nf[OF g(1)]]
  have at: "content_at (ss_table s') = (content_at (ss_table s))
      (g := map_option row_content (case oc of Saved row \<Rightarrow> Some row | _ \<Rightarrow> map_of (ss_table s) g))"
    unfolding content_at_def fun_eq_iff m by (auto split: outcome.split)
  have "content_at (ss_table s') = (content_at (ss_table s))(g := lww (content_at (ss_table s) g) (item_content it))"
    using l unfolding at by (simp add: content_at_def)
  moreover have "sr_w_timestamp row = di_writeTimestamp it \<and> sr_device row = TransferHashString sha (dv_deviceName dv)"
    if "oc = Saved row" for row
    using judge_Saved(1)[of sha DEFAULT_LAST_WIN force dv it "map_of (ss_table s) g" row] that oc nf[OF g(1)]
    by (auto simp: saved_row_def amended_def judge_def split: option.splits if_splits)
  ultimately show thesis using that[OF g(1) _ m] by blast
qed

lemma save_event_lww:
  assumes mig: "\<not> ex_isSyncMigrating cfg" and pol: "ex_conflictResolvePolicy cfg = DEFAULT_LAST_WIN"
    and env: "sqlite_codes env" and nm: "\<not> has_flag (di_flag it) REMOTE_DEVICE_DATA_MISS_QUERY"
    and S: "SaveSyncDataItem sha cfg env it dv force s = (s', E_OK)"
    and rf: "rows_from sha past (ss_table s)"
    and ord: "force \<Longrightarrow> (\<And>ev. ev \<in> past \<Longrightarrow> ev_dev sha ev \<noteq> [] \<Longrightarrow> ev_dev sha ev = ev_dev sha (env, it, dv) \<Longrightarrow>
        ev_hash sha ev = ev_hash sha (env, it, dv) \<Longrightarrow> ev_wts ev < di_writeTimestamp it)"
  shows "content_at (ss_table s') h = foldl lww (content_at (ss_table s) h) (writes_to sha h [(env, it, dv)])"
    and "rows_from sha (insert (env, it, dv) past) (ss_table s')"
proof -
  have nf: "sr_w_timestamp r < di_writeTimestamp it"
    if "item_hash sha it = Some g" "map_of (ss_table s) g = Some r" "forced sha force dv r" for r g
    using that rf ord unfolding rows_from_def forced_def
    by (metis (no_types, lifting) ev_dev_def ev_hash_def fst_conv snd_conv)
  obtain g oc where g: "item_hash sha it = Some g"
    and c: "content_at (ss_table s') = (content_at (ss_table s))(g := lww (content_at (ss_table s) g) (item_content it))"
    and m: "map_of (ss_table s') = (case oc of Saved row \<Rightarrow> (map_of (ss_table s))(g \<mapsto> row) | _ \<Rightarrow> map_of (ss_table s))"
    and row: "\<forall>row. oc = Saved row \<longrightarrow> sr_w_timestamp row = di_writeTimestamp it \<and>
           sr_device row = TransferHashString sha (dv_deviceName dv)"
    by (rule save_content[OF mig pol env nm S nf]) blast+
  show "content_at (ss_table s') h = foldl lww (content_at (ss_table s) h) (writes_to sha h [(env, it, dv)])"
    by (simp add: c writes_to_def ev_hash_def g)
  show "rows_from sha (insert (env, it, dv) past) (ss_table s')"
    using rf g row unfolding rows_from_def m
    by (cases oc) (auto simp: ev_hash_def ev_wts_def ev_dev_def)
qed

lemma save_all_lww:
  assumes mig: "\<not> ex_isSyncMigrating cfg" and pol: "ex_conflictResolvePolicy cfg = DEFAULT_LAST_WIN"
  shows "save_all sha cfg force evs s = (s', E_OK) \<Longrightarrow> plain_events evs \<Longrightarrow> rows_from sha past (ss_table s) \<Longrightarrow>
     (force \<longrightarrow> in_order sha evs \<and> (\<forall>ev \<in> past. \<forall>ev' \<in> set evs. ev_dev sha ev \<noteq> [] \<and> ev_dev sha ev' = ev_dev sha ev \<and>
        ev_hash sha ev' = ev_hash sha ev \<longrightarrow> ev_wts ev < ev_wts ev')) \<Longrightarrow>
     content_at (ss_table s') h = foldl lww (content_at (ss_table s) h) (writes_to sha h evs)"
proof (induction evs arbitrary: s past)
  case Nil
  then show ?case by (simp add: writes_to_def)
next
  case (Cons ev evs)
  obtain env it dv where ev: "ev = (env, it, dv)" by (cases ev)
  obtain s1 where S: "SaveSyncDataItem sha cfg env it dv force s = (s1, E_OK)"
    and rest: "save_all sha cfg force evs s1 = (s', E_OK)"
    using Cons.prems(1) by (auto simp: ev split: prod.splits if_splits)
  have pe: "sqlite_codes env" "\<not> has_flag (di_flag it) REMOTE_DEVICE_DATA_MISS_QUERY" "plain_events evs"
    using Cons.prems(2) by (auto simp: plain_events_def ev)
  note step = save_event_lww[OF mig pol pe(1,2) S Cons.prems(3)]
  have 1: "content_at (ss_table s1) h = foldl lww (content_at (ss_table s) h) (writes_to sha h [ev])"
    and 2: "rows_from sha (insert ev past) (ss_table s1)"
    unfolding ev by (rule step; use Cons.prems(4) in \<open>force simp: ev ev_wts_def\<close>)+
  have "content_at (ss_table s') h = foldl lww (content_at (ss_table s1) h) (writes_to sha h evs)"
    using Cons.prems(4) by (intro Cons.IH[OF rest pe(3) 2]) auto
  then show ?case using 1 by (simp add: writes_to_def)
qed

section \<open>Properties\<close>

text \<open>C1. Convergence. Two devices whose stores are empty at first, that do not migrate and use the default conflict policy, save
  items none of which carries the flag for data that no longer matches a query, and every save succeeds. If both save the same writes
  to a key, from whatever devices, and two different writes to it differ in their write timestamp, they end with the same content for
  it. Where a store does not force, the order and the repetitions of the items do not matter. Where it forces, so that a device
  overwrites its own data, as the code does by default, the items of one other device for one key must arrive in the order of
  strictly increasing write timestamps, hence without repetition; the order between devices and between keys is still free.\<close>

theorem replicas_converge:
  assumes "\<not> ex_isSyncMigrating cfgA" "ex_conflictResolvePolicy cfgA = DEFAULT_LAST_WIN"
    and "\<not> ex_isSyncMigrating cfgB" "ex_conflictResolvePolicy cfgB = DEFAULT_LAST_WIN"
    and "save_all sha cfgA forceA evsA sA = (sA', E_OK)" "ss_table sA = []" "plain_events evsA"
      "forceA \<longrightarrow> in_order sha evsA"
    and "save_all sha cfgB forceB evsB sB = (sB', E_OK)" "ss_table sB = []" "plain_events evsB"
      "forceB \<longrightarrow> in_order sha evsB"
    and same: "set (writes_to sha h evsA) = set (writes_to sha h evsB)"
    and dist: "\<And>a b. a \<in> set (writes_to sha h evsA) \<Longrightarrow> b \<in> set (writes_to sha h evsA) \<Longrightarrow> wts a = wts b \<Longrightarrow> a = b"
  shows "content_at (ss_table sA') h = content_at (ss_table sB') h"
proof -
  have "content_at (ss_table sA') h = foldl lww (content_at (ss_table sA) h) (writes_to sha h evsA)"
    by (rule save_all_lww[OF assms(1,2,5,7), where past = "{}"])
      (simp_all add: assms(6) assms(8)[rule_format] rows_from_def)
  moreover have "content_at (ss_table sB') h = foldl lww (content_at (ss_table sB) h) (writes_to sha h evsB)"
    by (rule save_all_lww[OF assms(3,4,9,11), where past = "{}"])
      (simp_all add: assms(10) assms(12)[rule_format] rows_from_def)
  moreover have "foldl lww None (writes_to sha h evsA) = foldl lww None (writes_to sha h evsB)"
    by (rule foldl_lww_set[OF same]) (rule dist)
  moreover have "content_at (ss_table sA) h = None" "content_at (ss_table sB) h = None"
    by (simp_all add: content_at_def assms(6,10))
  ultimately show ?thesis by (simp only:)
qed

definition demo_empty :: save_state where
  "demo_empty = \<lparr>ss_table = [], ss_maxStamp = 0, ss_committedData = None\<rparr>"

definition demo_local :: DeviceInfo where "demo_local = \<lparr>dv_isLocal = True, dv_deviceName = []\<rparr>"

definition demo_evsA :: "save_event list" where
  "demo_evsA = [(sqlite_ok, demo_item [7] [1] 5 LOCAL_FLAG, demo_local), (sqlite_ok, demo_item [7] [2] 6 0, demo_dev)]"

definition demo_evsB :: "save_event list" where
  "demo_evsB = [(sqlite_ok, demo_item [7] [2] 6 LOCAL_FLAG, demo_local), (sqlite_ok, demo_item [7] [1] 5 0, demo_dev)]"

theorem replicas_converge_witness:
  "content_at (ss_table (fst (save_all demo_sha demo_cfg True demo_evsA demo_empty))) [1, 7] =
   content_at (ss_table (fst (save_all demo_sha demo_cfg True demo_evsB demo_empty))) [1, 7]"
proof -
  let ?A = "save_all demo_sha demo_cfg True demo_evsA demo_empty"
  let ?B = "save_all demo_sha demo_cfg True demo_evsB demo_empty"
  have "snd ?A = E_OK" "snd ?B = E_OK" by code_simp+
  then have A: "?A = (fst ?A, E_OK)" and B: "?B = (fst ?B, E_OK)" by (metis prod.collapse)+
  have plain: "plain_events demo_evsA" "plain_events demo_evsB" by code_simp+
  have ord: "in_order demo_sha demo_evsA" "in_order demo_sha demo_evsB" by code_simp+
  have w: "writes_to demo_sha [1, 7] demo_evsA = [([7], [1], 5, False), ([7], [2], 6, False)]"
    "writes_to demo_sha [1, 7] demo_evsB = [([7], [2], 6, False), ([7], [1], 5, False)]" by code_simp+
  show ?thesis
    by (rule replicas_converge[OF _ _ _ _ A _ plain(1) _ B _ plain(2)])
      (auto simp: w ord demo_cfg_def demo_empty_def wts_def)
qed

text \<open>C21. Saving an item refines the last-write-wins register of its key: in a store that is not migrating and has the default
  conflict policy, a save without force of an item that does not carry the flag for data that no longer matches a query, if it succeeds,
  replaces the content of the row exactly when the item is newer, and touches no other key.\<close>

theorem save_refines_lww:
  assumes "\<not> ex_isSyncMigrating cfg" "ex_conflictResolvePolicy cfg = DEFAULT_LAST_WIN" "sqlite_codes env"
    and "\<not> has_flag (di_flag it) REMOTE_DEVICE_DATA_MISS_QUERY" "item_hash sha it = Some h"
    and "SaveSyncDataItem sha cfg env it dv False s = (s', E_OK)"
  shows "content_at (ss_table s') = (content_at (ss_table s))(h := lww (content_at (ss_table s) h) (item_content it))"
proof -
  obtain g oc where "item_hash sha it = Some g"
    "content_at (ss_table s') = (content_at (ss_table s))(g := lww (content_at (ss_table s) g) (item_content it))"
    by (rule save_content[OF assms(1-4,6)]) (simp_all add: forced_def)
  then show ?thesis using assms(5) by simp
qed

definition demo_state :: save_state where
  "demo_state = \<lparr>ss_table = ns_sync_data demo_store, ss_maxStamp = 0, ss_committedData = None\<rparr>"

theorem save_refines_lww_witness:
  "content_at (ss_table (fst (SaveSyncDataItem demo_sha demo_cfg sqlite_ok (demo_item [7] [71] 6 0) demo_dev False demo_state))) =
   (content_at (ss_table demo_state))([1, 7] := Some ([7], [71], 6, False))"
proof -
  let ?r = "SaveSyncDataItem demo_sha demo_cfg sqlite_ok (demo_item [7] [71] 6 0) demo_dev False demo_state"
  have "snd ?r = E_OK" by code_simp
  then have r: "?r = (fst ?r, E_OK)" by (metis prod.collapse)
  have c: "lww (content_at (ss_table demo_state) [1, 7]) (item_content (demo_item [7] [71] 6 0)) =
      Some ([7], [71], 6, False)" by code_simp
  have "\<not> has_flag (di_flag (demo_item [7] [71] 6 0)) REMOTE_DEVICE_DATA_MISS_QUERY"
    "item_hash demo_sha (demo_item [7] [71] 6 0) = Some [1, 7]" "sqlite_codes sqlite_ok"
    "\<not> ex_isSyncMigrating demo_cfg" "ex_conflictResolvePolicy demo_cfg = DEFAULT_LAST_WIN" by code_simp+
  from save_refines_lww[OF this(4,5,3,1,2) r] show ?thesis by (simp add: c)
qed

lemma forced_overwrite_outcome:
  assumes "forced sha True dv r" "sr_w_timestamp r \<ge> di_writeTimestamp it"
    and "\<not> has_flag (di_flag it) REMOTE_DEVICE_DATA_MISS_QUERY" "\<not> has_flag (di_flag it) LOCAL_FLAG"
  shows "judge sha DEFAULT_LAST_WIN True dv it (Some r) = Saved (saved_row sha dv (Some r) it)"
  using assms by (simp add: judge_def)

text \<open>A device may always replace its own data. Where force is permitted, an item of the device that wrote
  the stored row replaces it even with an older write timestamp; the row then carries the item's value and the
  successor of the stored write timestamp.\<close>

theorem own_data_replaced_by_force:
  assumes "\<not> ex_isSyncMigrating cfg" "ex_conflictResolvePolicy cfg = DEFAULT_LAST_WIN" "sqlite_codes env"
    and "item_hash sha it = Some h" "map_of (ss_table s) h = Some r"
    and "TransferHashString sha (dv_deviceName dv) \<noteq> []" "sr_device r = TransferHashString sha (dv_deviceName dv)"
    and "sr_w_timestamp r \<ge> di_writeTimestamp it"
    and "\<not> has_flag (di_flag it) REMOTE_DEVICE_DATA_MISS_QUERY" "\<not> has_flag (di_flag it) LOCAL_FLAG"
    and "SaveSyncDataItem sha cfg env it dv True s = (s', E_OK)"
  shows "\<exists>r'. map_of (ss_table s') h = Some r' \<and> sr_value r' = di_value it \<and>
     row_deleted r' = has_flag (di_flag it) DELETE_FLAG \<and> sr_w_timestamp r' = sr_w_timestamp r + 1"
proof -
  have j: "judge sha DEFAULT_LAST_WIN True dv it (Some r) = Saved (saved_row sha dv (Some r) it)"
    using assms(6-10) by (intro forced_overwrite_outcome) (simp_all add: forced_def)
  have "map_of (ss_table s') h = Some (saved_row sha dv (Some r) it)"
    by (rule SaveSyncDataItem_ok_or_missing[OF assms(1,3,11)])
      (use assms(2,4,5) j in \<open>simp_all add: update_conv'\<close>)
  then show ?thesis using assms(8) by (simp add: saved_row_def row_deleted_def amended_def)
qed

definition demo_own :: save_state where
  "demo_own = demo_state\<lparr>ss_table := [([1, 7], (demo_row [7] [70] 5)\<lparr>sr_device := [1, 66]\<rparr>)]\<rparr>"

theorem own_data_replaced_by_force_witness:
  "\<exists>r'. map_of (ss_table (fst (SaveSyncDataItem demo_sha demo_cfg sqlite_ok (demo_item [7] [71] 3 0) demo_dev True demo_own)))
     [1, 7] = Some r' \<and> sr_value r' = [71] \<and> \<not> row_deleted r' \<and> sr_w_timestamp r' = 6"
proof -
  let ?it = "demo_item [7] [71] 3 0"
  let ?r = "SaveSyncDataItem demo_sha demo_cfg sqlite_ok ?it demo_dev True demo_own"
  let ?row = "(demo_row [7] [70] 5)\<lparr>sr_device := [1, 66]\<rparr>"
  have "snd ?r = E_OK" by code_simp
  then have r: "?r = (fst ?r, E_OK)" by (metis prod.collapse)
  have h: "\<not> has_flag (di_flag ?it) REMOTE_DEVICE_DATA_MISS_QUERY" "\<not> has_flag (di_flag ?it) LOCAL_FLAG"
    "\<not> has_flag (di_flag ?it) DELETE_FLAG"
    "item_hash demo_sha ?it = Some [1, 7]" "sqlite_codes sqlite_ok" "di_value ?it = [71]"
    "\<not> ex_isSyncMigrating demo_cfg" "ex_conflictResolvePolicy demo_cfg = DEFAULT_LAST_WIN"
    "map_of (ss_table demo_own) [1, 7] = Some ?row" "sr_w_timestamp ?row + 1 = 6"
    "TransferHashString demo_sha (dv_deviceName demo_dev) \<noteq> []"
    "sr_device ?row = TransferHashString demo_sha (dv_deviceName demo_dev)" "sr_w_timestamp ?row \<ge> di_writeTimestamp ?it"
    by code_simp+
  from own_data_replaced_by_force[OF h(7,8,5,4,9,11,12,13,1,2) r] show ?thesis
    unfolding h(6,10) using h(3) by simp
qed

lemma save_keeps_own_row:
  assumes mig: "\<not> ex_isSyncMigrating cfg" and pol: "ex_conflictResolvePolicy cfg = DENY_OTHER_DEV_AMEND_CUR_DEV_DATA"
    and dv: "\<not> dv_isLocal dv" and env: "sqlite_codes env"
    and S: "SaveSyncDataItem sha cfg env it dv force s = (s', e)" and e: "e = E_OK \<or> e = E_NOT_FOUND"
    and r: "map_of (ss_table s) h = Some r" "sr_ori_device r = []"
  shows "map_of (ss_table s') h = Some r"
  by (rule SaveSyncDataItem_ok_or_missing[OF mig env S e])
    (use r dv in \<open>auto simp: pol map_of_apply_outcome judge_def split: outcome.split if_splits\<close>)

text \<open>C23. Under the policy that denies other devices to amend the data of this device, no packet of another
  device changes a row that this device wrote, whatever the packet holds and however saving it ends.\<close>

theorem own_rows_not_amended:
  assumes "\<not> ex_isSyncMigrating cfg" "ex_conflictResolvePolicy cfg = DENY_OTHER_DEV_AMEND_CUR_DEV_DATA"
    and "\<And>i. sqlite_codes (se_item env i)"
    and "PutSyncDataWithQuery sha cfg env allocOk schema query entries deviceName ns = (ns', events, e)"
    and "map_of (ns_sync_data ns) h = Some r" "sr_ori_device r = []"
  shows "map_of (ns_sync_data ns') h = Some r"
proof -
  have main: "map_of (ns_sync_data ns') h = Some r"
    if "SaveSyncDataToMain sha cfg env allocOk query items dv ns = (ns', events, e)" "\<not> dv_isLocal dv" for items dv
    by (rule packet_table_inv[OF _ assms(3) that(1), where P = "\<lambda>tab. map_of tab h = Some r"])
      (use assms(1,2,5,6) that(2) save_keeps_own_row in auto)
  show ?thesis
    using assms(4,5) main by (auto simp: PutSyncDataWithQuery_def SaveSyncDataItems_def split: if_splits)
qed

definition deny_cfg :: executor_cfg where
  "deny_cfg = demo_cfg\<lparr>ex_conflictResolvePolicy := DENY_OTHER_DEV_AMEND_CUR_DEV_DATA\<rparr>"

theorem own_rows_not_amended_witness:
  "map_of (ns_sync_data (fst (PutSyncDataWithQuery demo_sha deny_cfg store_env_ok True None None demo_packet [66] demo_store)))
     [1, 7] = Some (demo_row [7] [70] 5)"
proof -
  let ?r = "PutSyncDataWithQuery demo_sha deny_cfg store_env_ok True None None demo_packet [66] demo_store"
  have r: "?r = (fst ?r, fst (snd ?r), snd (snd ?r))" by simp
  show ?thesis
    by (rule own_rows_not_amended[OF _ _ demo_hash(3) r])
      (simp_all add: deny_cfg_def demo_cfg_def demo_store_def demo_row_def)
qed

end
