(* ===== verification/Store_Connection.thy ===== *)
theory Store_Connection
  imports Store_Notification
begin

text \<open>
  \<^verbatim>\<open>storage/src/sqlite/sqlite_single_ver_natural_store_connection.cpp\<close>: the operations of an
  application on the synchronised data of a store (\<^verbatim>\<open>IOption::SYNC_DATA\<close>), for a store whose main
  database is open. The write handle of an open transaction is the table it has written so far. The
  schema check of a value and the clock are parameters.
\<close>

section \<open>State\<close>

record Connection =
  cc_writeHandle :: "sync_table option"
  cc_committedData :: "CommitNotifyData option"
  cc_currentMaxTimestamp :: Timestamp
  cc_transactionEntrySize :: nat
  cc_transactionExeFlag :: bool

definition Connection_init :: Connection where
  "Connection_init = \<lparr>cc_writeHandle = None, cc_committedData = None, cc_currentMaxTimestamp = 0,
     cc_transactionEntrySize = 0, cc_transactionExeFlag = False\<rparr>"

record conn_env =
  ce_executor :: errno
  ce_logOverLimit :: bool
  ce_allocOk :: bool
  ce_start :: errno
  ce_prepare :: errno
  ce_item :: "nat \<Rightarrow> sqlite_env"
  ce_now :: "nat \<Rightarrow> Timestamp"
  ce_amend :: "Value \<Rightarrow> Value res"
  ce_commit :: errno
  ce_rollback :: errno

type_synonym world = "NaturalStore \<times> Connection"
type_synonym announcements = "(notify_event \<times> CommitNotifyData) list"

definition MAX_BATCH_SIZE :: nat where "MAX_BATCH_SIZE = 128"
definition MAX_TRANSACTION_ENTRY_SIZE :: nat where "MAX_TRANSACTION_ENTRY_SIZE = 128"

section \<open>Checks\<close>

primrec check_entries :: "Entry list \<Rightarrow> errno" where
  "check_entries [] = E_OK"
| "check_entries (en # entries) =
     (if CheckDataStatus (e_key en) (e_value en) \<noteq> E_OK then CheckDataStatus (e_key en) (e_value en)
      else check_entries entries)"

definition CheckSyncEntriesValid :: "NaturalStore \<Rightarrow> Entry list \<Rightarrow> errno" where
  "CheckSyncEntriesValid ns entries =
     (if length entries > MAX_BATCH_SIZE then E_INVALID_ARGS
      else if ns_isReadOnly ns then E_READ_ONLY
      else check_entries entries)"

primrec check_keys :: "Key list \<Rightarrow> errno" where
  "check_keys [] = E_OK"
| "check_keys (k # ks) = (if CheckDataStatus k [] \<noteq> E_OK then CheckDataStatus k [] else check_keys ks)"

definition CheckSyncKeysValid :: "NaturalStore \<Rightarrow> Key list \<Rightarrow> errno" where
  "CheckSyncKeysValid ns ks =
     (if length ks > MAX_BATCH_SIZE then E_INVALID_ARGS
      else if ns_isReadOnly ns then E_READ_ONLY
      else check_keys ks)"

section \<open>Transactions\<close>

definition StartTransactionNormally :: "conn_env \<Rightarrow> NaturalStore \<Rightarrow> Connection \<Rightarrow> Connection \<times> errno" where
  "StartTransactionNormally env ns c =
     (if ce_executor env \<noteq> E_OK then (c, ce_executor env)
      else if ce_logOverLimit env then (c, E_LOG_OVER_LIMITS)
      else if cc_committedData c = None \<and> \<not> ce_allocOk env then (c, E_OUT_OF_MEMORY)
      else
        let c1 = (if cc_committedData c = None
                  then c\<lparr>cc_committedData := Some (InitConflictNotifiedFlag ns CommitNotifyData_init)\<rparr> else c)
        in if ce_start env \<noteq> E_OK then (c1\<lparr>cc_committedData := None\<rparr>, ce_start env)
           else (c1\<lparr>cc_writeHandle := Some (ns_sync_data ns), cc_transactionEntrySize := 0\<rparr>, E_OK))"

text \<open>
  \<^verbatim>\<open>CommitInner\<close>. A commit that fails leaves the transaction to be rolled back when the executor is
  released. The announcement is made before the result of the commit is looked at.
\<close>

definition CommitInner :: "conn_env \<Rightarrow> world \<Rightarrow> world \<times> announcements \<times> errno" where
  "CommitInner env w =
     (case w of (ns, c) \<Rightarrow>
      let tab = (if ce_commit env = E_OK then (case cc_writeHandle c of None \<Rightarrow> ns_sync_data ns | Some t \<Rightarrow> t)
                 else ns_sync_data ns);
          events = CommitAndReleaseNotifyData (cc_committedData c) True SQLITE_GENERAL_NS_PUT_EVENT;
          ns1 = SetMaxTimestamp (ns\<lparr>ns_sync_data := tab\<rparr>) (cc_currentMaxTimestamp c);
          c1 = c\<lparr>cc_writeHandle := None, cc_transactionEntrySize := 0, cc_committedData := None\<rparr>
      in ((ns1, c1), events, ce_commit env))"

definition RollbackInner :: "conn_env \<Rightarrow> world \<Rightarrow> world \<times> errno" where
  "RollbackInner env w =
     (case w of (ns, c) \<Rightarrow>
      ((ns, c\<lparr>cc_writeHandle := None, cc_transactionEntrySize := 0, cc_currentMaxTimestamp := 0,
             cc_committedData := None\<rparr>), ce_rollback env))"

definition StartTransaction :: "conn_env \<Rightarrow> world \<Rightarrow> world \<times> errno" where
  "StartTransaction env w =
     (case w of (ns, c) \<Rightarrow>
      if cc_writeHandle c \<noteq> None then (w, E_TRANSACT_STATE)
      else case StartTransactionNormally env ns c of (c1, e) \<Rightarrow>
        ((ns, if e = E_OK then c1\<lparr>cc_transactionExeFlag := True\<rparr> else c1), e))"

definition Commit :: "conn_env \<Rightarrow> world \<Rightarrow> world \<times> announcements \<times> errno" where
  "Commit env w =
     (if cc_writeHandle (snd w) = None then (w, [], E_INVALID_DB)
      else case CommitInner env w of ((ns1, c1), events, e) \<Rightarrow>
        ((ns1, if e = E_OK then c1\<lparr>cc_transactionExeFlag := False\<rparr> else c1), events, e))"

definition RollBack :: "conn_env \<Rightarrow> world \<Rightarrow> world \<times> errno" where
  "RollBack env w =
     (if cc_writeHandle (snd w) = None then (w, E_INVALID_DB)
      else case RollbackInner env w of ((ns1, c1), e) \<Rightarrow>
        ((ns1, if e = E_OK then c1\<lparr>cc_transactionExeFlag := False\<rparr> else c1), e))"

section \<open>Writing\<close>

definition local_device :: DeviceInfo where
  "local_device = \<lparr>dv_isLocal = True, dv_deviceName = []\<rparr>"

definition SaveEntryNormally ::
    "(byte list \<Rightarrow> byte list option) \<Rightarrow> executor_cfg \<Rightarrow> errno \<Rightarrow> sqlite_env \<Rightarrow> DataItem \<Rightarrow> Connection \<Rightarrow>
     Connection \<times> errno" where
  "SaveEntryNormally sha cfg prepare env dataItem c =
     (if prepare \<noteq> E_OK then (c, prepare)
      else case cc_writeHandle c of
        None \<Rightarrow> (c, ABORTED)
      | Some tab \<Rightarrow>
          (case SaveSyncDataItem sha cfg env dataItem local_device True
                  \<lparr>ss_table = tab, ss_maxStamp = 0, ss_committedData = cc_committedData c\<rparr> of (s, e) \<Rightarrow>
           let c1 = c\<lparr>cc_writeHandle := Some (ss_table s), cc_committedData := ss_committedData s\<rparr>
           in (if e = E_OK \<and> ss_maxStamp s > cc_currentMaxTimestamp c
               then c1\<lparr>cc_currentMaxTimestamp := ss_maxStamp s\<rparr> else c1, e)))"

definition local_item :: "Timestamp \<Rightarrow> Entry \<Rightarrow> bool \<Rightarrow> Timestamp \<Rightarrow> Timestamp \<Rightarrow> DataItem" where
  "local_item now entry isDelete currentMax timestamp =
     (let ts = (if currentMax > now then currentMax else now) in
      DataItem_init\<lparr>di_key := e_key entry, di_value := e_value entry,
        di_flag := (if isDelete then or LOCAL_FLAG DELETE_FLAG else LOCAL_FLAG),
        di_timestamp := ts, di_writeTimestamp := (if timestamp \<noteq> 0 then timestamp else ts)\<rparr>)"

definition SaveEntry ::
    "(byte list \<Rightarrow> byte list option) \<Rightarrow> executor_cfg \<Rightarrow> conn_env \<Rightarrow> nat \<Rightarrow> Entry \<Rightarrow> bool \<Rightarrow> Timestamp \<Rightarrow> Connection \<Rightarrow>
     Connection \<times> errno" where
  "SaveEntry sha cfg env i entry isDelete timestamp c =
     (case (if isDelete then Inr (e_value entry) else ce_amend env (e_value entry)) of
        Inl e \<Rightarrow> (c, e)
      | Inr v \<Rightarrow> SaveEntryNormally sha cfg (ce_prepare env) (ce_item env i)
          (local_item (ce_now env i) (entry\<lparr>e_value := v\<rparr>) isDelete (cc_currentMaxTimestamp c) timestamp) c)"

fun SaveSyncEntries ::
    "(byte list \<Rightarrow> byte list option) \<Rightarrow> executor_cfg \<Rightarrow> conn_env \<Rightarrow> nat \<Rightarrow> Entry list \<Rightarrow> Connection \<Rightarrow>
     Connection \<times> errno" where
  "SaveSyncEntries sha cfg env i [] c = (c, E_OK)"
| "SaveSyncEntries sha cfg env i (entry # entries) c =
     (case SaveEntry sha cfg env i entry False 0 c of (c1, e) \<Rightarrow>
        if e \<noteq> E_OK then (c1, e) else SaveSyncEntries sha cfg env (Suc i) entries c1)"

fun delete_entries ::
    "(byte list \<Rightarrow> byte list option) \<Rightarrow> executor_cfg \<Rightarrow> conn_env \<Rightarrow> nat \<Rightarrow> Key list \<Rightarrow> errno \<Rightarrow> Connection \<Rightarrow>
     Connection \<times> errno" where
  "delete_entries sha cfg env i [] errCode c = (c, errCode)"
| "delete_entries sha cfg env i (k # ks) errCode c =
     (case SaveEntry sha cfg env i \<lparr>e_key = hash_or_empty sha k, e_value = []\<rparr> True 0 c of (c1, e) \<Rightarrow>
        if e \<noteq> E_OK \<and> e \<noteq> E_NOT_FOUND then (c1, e) else delete_entries sha cfg env (Suc i) ks e c1)"

definition DeleteSyncEntries ::
    "(byte list \<Rightarrow> byte list option) \<Rightarrow> executor_cfg \<Rightarrow> conn_env \<Rightarrow> Key list \<Rightarrow> Connection \<Rightarrow> Connection \<times> errno" where
  "DeleteSyncEntries sha cfg env ks c =
     (case delete_entries sha cfg env 0 ks E_OK c of (c1, e) \<Rightarrow> (c1, if e = E_NOT_FOUND then E_OK else e))"

text \<open>
  The common frame of \<^verbatim>\<open>PutBatchInner\<close> and \<^verbatim>\<open>DeleteBatchInner\<close>: a transaction of its own if
  none is open, the limit on the entries of a transaction, the work, and the end of the own transaction.
\<close>

definition batch_inner ::
    "conn_env \<Rightarrow> nat \<Rightarrow> (Connection \<Rightarrow> Connection \<times> errno) \<Rightarrow> world \<Rightarrow> world \<times> announcements \<times> errno" where
  "batch_inner env n work w =
     (case w of (ns, c) \<Rightarrow>
      let isAuto = (cc_writeHandle c = None) in
      case (if isAuto then StartTransactionNormally env ns c else (c, E_OK)) of (c1, e0) \<Rightarrow>
        if e0 \<noteq> E_OK then ((ns, c1), [], e0)
        else if cc_transactionEntrySize c1 + n > MAX_TRANSACTION_ENTRY_SIZE then ((ns, c1), [], E_MAX_LIMITS)
        else case work c1 of (c2, e) \<Rightarrow>
          let c3 = (if e = E_OK then c2\<lparr>cc_transactionEntrySize := cc_transactionEntrySize c2 + n\<rparr> else c2) in
          if \<not> isAuto then ((ns, c3), [], e)
          else if e = E_OK then CommitInner env (ns, c3)
          else case RollbackInner env (ns, c3) of (w1, e1) \<Rightarrow> (w1, [], if e1 \<noteq> E_OK then e1 else e))"

definition PutBatchInner ::
    "(byte list \<Rightarrow> byte list option) \<Rightarrow> executor_cfg \<Rightarrow> conn_env \<Rightarrow> Entry list \<Rightarrow> world \<Rightarrow> world \<times> announcements \<times> errno" where
  "PutBatchInner sha cfg env entries = batch_inner env (length entries) (SaveSyncEntries sha cfg env 0 entries)"

definition DeleteBatchInner ::
    "(byte list \<Rightarrow> byte list option) \<Rightarrow> executor_cfg \<Rightarrow> conn_env \<Rightarrow> Key list \<Rightarrow> world \<Rightarrow> world \<times> announcements \<times> errno" where
  "DeleteBatchInner sha cfg env ks = batch_inner env (length ks) (DeleteSyncEntries sha cfg env ks)"

definition PutBatch ::
    "(byte list \<Rightarrow> byte list option) \<Rightarrow> executor_cfg \<Rightarrow> conn_env \<Rightarrow> Entry list \<Rightarrow> world \<Rightarrow> world \<times> announcements \<times> errno" where
  "PutBatch sha cfg env entries w =
     (if CheckSyncEntriesValid (fst w) entries \<noteq> E_OK then (w, [], CheckSyncEntriesValid (fst w) entries)
      else PutBatchInner sha cfg env entries w)"

definition Put ::
    "(byte list \<Rightarrow> byte list option) \<Rightarrow> executor_cfg \<Rightarrow> conn_env \<Rightarrow> Key \<Rightarrow> Value \<Rightarrow> world \<Rightarrow> world \<times> announcements \<times> errno" where
  "Put sha cfg env k v = PutBatch sha cfg env [\<lparr>e_key = k, e_value = v\<rparr>]"

definition DeleteBatch ::
    "(byte list \<Rightarrow> byte list option) \<Rightarrow> executor_cfg \<Rightarrow> conn_env \<Rightarrow> Key list \<Rightarrow> world \<Rightarrow> world \<times> announcements \<times> errno" where
  "DeleteBatch sha cfg env ks w =
     (if CheckSyncKeysValid (fst w) ks \<noteq> E_OK then (w, [], CheckSyncKeysValid (fst w) ks)
      else DeleteBatchInner sha cfg env ks w)"

definition Delete ::
    "(byte list \<Rightarrow> byte list option) \<Rightarrow> executor_cfg \<Rightarrow> conn_env \<Rightarrow> Key \<Rightarrow> world \<Rightarrow> world \<times> announcements \<times> errno" where
  "Delete sha cfg env k = DeleteBatch sha cfg env [k]"

section \<open>Reading\<close>

text \<open>\<open>step\<close> and \<open>cols\<close> are the results of the query and of reading its columns.\<close>

definition Get :: "errno \<Rightarrow> errno \<Rightarrow> Key \<Rightarrow> world \<Rightarrow> Value res" where
  "Get step cols k w =
     (if length k > MAX_KEY_SIZE \<or> k = [] then Inl E_INVALID_ARGS
      else case GetKvData step cols
             (case cc_writeHandle (snd w) of Some tab \<Rightarrow> tab | None \<Rightarrow> ns_sync_data (fst w)) k of
        Inl e \<Rightarrow> Inl e
      | Inr (v, t) \<Rightarrow> Inr v)"

section \<open>What a reader sees\<close>

definition visible :: "world \<Rightarrow> sync_table" where
  "visible w = (case cc_writeHandle (snd w) of Some tab \<Rightarrow> tab | None \<Rightarrow> ns_sync_data (fst w))"

lemma find_live_row:
  assumes hi: "hash_inj sha" and inv: "table_inv sha tab" and k: "k \<noteq> []" "sha k = Some h"
  shows "find (\<lambda>(g, r). sr_key r = k) tab =
     (case map_of tab h of None \<Rightarrow> None | Some r \<Rightarrow> if row_deleted r then None else Some (h, r))"
proof -
  have at: "g = h \<and> \<not> row_deleted r" if "(g, r) \<in> set tab" "sr_key r = k" for g r
  proof -
    have "map_of tab g = Some r" using inv that(1) by (simp add: table_inv_def)
    then have "row_inv sha g r" using inv by (simp add: table_inv_def)
    then show ?thesis using k that(2) by (auto simp: row_inv_def split: if_splits)
  qed
  show ?thesis
  proof (cases "find (\<lambda>(g, r). sr_key r = k) tab")
    case None
    have "sr_key r \<noteq> k" if "map_of tab h = Some r" for r
      using None map_of_SomeD[OF that] by (auto simp: find_None_iff)
    moreover have "sr_key r = k" if "map_of tab h = Some r" "\<not> row_deleted r" for r
      using inv that k hi unfolding table_inv_def row_inv_def hash_inj_def by metis
    ultimately show ?thesis using None by (auto split: option.split)
  next
    case (Some p)
    obtain g r where gr: "p = (g, r)" by (cases p)
    then have p: "p = (g, r)" "(g, r) \<in> set tab" "sr_key r = k"
      using Some by (auto simp: find_Some_iff in_set_conv_nth)
    then show ?thesis using Some at[OF p(2,3)] inv by (auto simp: table_inv_def)
  qed
qed

lemma Get_live:
  assumes "hash_inj sha" "table_inv sha (visible w)" "k \<noteq> []" "length k \<le> MAX_KEY_SIZE" "sha k = Some h"
  shows "Get E_OK E_OK k w = (case live (visible w) h of None \<Rightarrow> Inl E_NOT_FOUND | Some v \<Rightarrow> Inr v)"
  using assms(3,4) find_live_row[OF assms(1,2,3,5)]
  by (auto simp: Get_def GetKvData_def visible_def live_def split: option.splits)

lemma local_flags:
  "has_flag LOCAL_FLAG LOCAL_FLAG" "\<not> has_flag LOCAL_FLAG DELETE_FLAG"
  "\<not> has_flag LOCAL_FLAG REMOTE_DEVICE_DATA_MISS_QUERY" "\<not> is_erasing LOCAL_FLAG"
  "has_flag (or LOCAL_FLAG DELETE_FLAG) LOCAL_FLAG" "has_flag (or LOCAL_FLAG DELETE_FLAG) DELETE_FLAG"
  "\<not> has_flag (or LOCAL_FLAG DELETE_FLAG) REMOTE_DEVICE_DATA_MISS_QUERY" "is_erasing (or LOCAL_FLAG DELETE_FLAG)"
  by (simp_all add: has_flag_def has_all_def is_erasing_def flag_consts)

definition stamp_of :: "Timestamp \<Rightarrow> Connection \<Rightarrow> Timestamp" where
  "stamp_of now c = (if cc_currentMaxTimestamp c > now then cc_currentMaxTimestamp c else now)"

lemma local_item_simps [simp]:
  "di_key (local_item now en d cm t) = e_key en" "di_value (local_item now en d cm t) = e_value en"
  "di_flag (local_item now en d cm t) = (if d then or LOCAL_FLAG DELETE_FLAG else LOCAL_FLAG)"
  "di_origDev (local_item now en d cm t) = []"
  "di_writeTimestamp (local_item now en d (cc_currentMaxTimestamp c) 0) = stamp_of now c"
  by (simp_all add: local_item_def Let_def DataItem_init_def stamp_of_def)

lemma judged_table_inv:
  assumes "table_inv sha tab" "item_hash sha it = Some h" "h \<noteq> []"
    and oc: "oc = judge sha policy force dv it (map_of tab h)" and "\<And>row. oc = Saved row \<Longrightarrow> key_usable it"
  shows "table_inv sha (apply_outcome oc h tab)"
proof (rule apply_outcome_inv[OF assms(1)])
  fix row
  assume "oc = Saved row"
  then show "row_inv sha h row" using saved_row_inv[OF oc[symmetric, THEN trans] _ assms(2,3)] assms(5) by blast
qed

text \<open>Writing one entry in an open transaction, when the row that is there is older.\<close>

lemma SaveEntry_put:
  assumes mig: "\<not> ex_isSyncMigrating cfg" and env: "sqlite_codes (ce_item env i)"
    and S: "SaveEntry sha cfg env i entry False 0 c = (c', E_OK)" and tab: "cc_writeHandle c = Some tab"
    and inv: "table_inv sha tab" and h: "sha (e_key entry) = Some h"
    and v: "ce_amend env (e_value entry) = Inr v"
    and older: "\<And>r. map_of tab h = Some r \<Longrightarrow> sr_w_timestamp r < stamp_of (ce_now env i) c"
  shows "\<exists>tab'. cc_writeHandle c' = Some tab' \<and> table_inv sha tab' \<and>
     live tab' h = Some v \<and> (\<forall>g. g \<noteq> h \<longrightarrow> map_of tab' g = map_of tab g)"
proof -
  define it where "it = local_item (ce_now env i) (entry\<lparr>e_value := v\<rparr>) False (cc_currentMaxTimestamp c) 0"
  obtain s where R: "SaveSyncDataItem sha cfg (ce_item env i) it local_device True
      \<lparr>ss_table = tab, ss_maxStamp = 0, ss_committedData = cc_committedData c\<rparr> = (s, E_OK)"
    and c': "cc_writeHandle c' = Some (ss_table s)"
    using S v tab by (auto simp: SaveEntry_def SaveEntryNormally_def it_def Let_def split: prod.splits if_splits)
  obtain g oc where g: "item_hash sha it = Some g" "g \<noteq> []"
    and oc: "oc = judge sha (ex_conflictResolvePolicy cfg) True local_device it (map_of tab g)"
    and k: "\<And>row. oc = Saved row \<Longrightarrow> key_usable it" and s: "ss_table s = apply_outcome oc g tab"
    by (rule SaveSyncDataItem_ok_or_missing[OF mig env R]) simp_all
  have gh: "g = h" using g h by (simp add: item_hash_def it_def local_flags)
  have sv: "oc = Saved (saved_row sha local_device (map_of tab h) it)"
    using older by (auto simp: oc gh judge_def local_device_def it_def local_flags split: option.split)
  have "table_inv sha (ss_table s)"
    unfolding s by (rule judged_table_inv[OF inv g oc k])
  moreover have "live (ss_table s) h = Some v"
    by (simp add: s sv gh live_def update_conv' saved_row_def row_deleted_def it_def local_flags)
  moreover have "\<forall>g. g \<noteq> h \<longrightarrow> map_of (ss_table s) g = map_of tab g"
    by (simp add: s sv gh update_conv')
  ultimately show ?thesis using c' by blast
qed

lemma SaveEntry_delete:
  assumes mig: "\<not> ex_isSyncMigrating cfg" and env: "sqlite_codes (ce_item env i)"
    and S: "SaveEntry sha cfg env i \<lparr>e_key = h, e_value = []\<rparr> True 0 c = (c', e)" and e: "e = E_OK \<or> e = E_NOT_FOUND"
    and prep: "ce_prepare env \<noteq> E_NOT_FOUND" and tab: "cc_writeHandle c = Some tab" and inv: "table_inv sha tab"
    and older: "\<And>r. map_of tab h = Some r \<Longrightarrow> sr_w_timestamp r < stamp_of (ce_now env i) c"
  shows "\<exists>tab'. cc_writeHandle c' = Some tab' \<and> table_inv sha tab' \<and>
     live tab' h = None \<and> (\<forall>g. g \<noteq> h \<longrightarrow> map_of tab' g = map_of tab g)"
proof -
  define it where "it = local_item (ce_now env i) \<lparr>e_key = h, e_value = []\<rparr> True (cc_currentMaxTimestamp c) 0"
  obtain s where R: "SaveSyncDataItem sha cfg (ce_item env i) it local_device True
      \<lparr>ss_table = tab, ss_maxStamp = 0, ss_committedData = cc_committedData c\<rparr> = (s, e)"
    and c': "cc_writeHandle c' = Some (ss_table s)"
    using S tab e prep by (auto simp: SaveEntry_def SaveEntryNormally_def it_def Let_def split: prod.splits if_splits)
  obtain g oc where g: "item_hash sha it = Some g" "g \<noteq> []"
    and oc: "oc = judge sha (ex_conflictResolvePolicy cfg) True local_device it (map_of tab g)"
    and k: "\<And>row. oc = Saved row \<Longrightarrow> key_usable it" and s: "ss_table s = apply_outcome oc g tab"
    by (rule SaveSyncDataItem_ok_or_missing[OF mig env R e]) simp_all
  have gh: "g = h" using g by (simp add: item_hash_def it_def local_flags)
  have "oc = Missing \<and> live tab h = None \<or> oc = Saved (saved_row sha local_device (map_of tab h) it)"
    using older by (auto simp: oc gh judge_def local_device_def it_def local_flags live_def row_status_def
        split: option.split if_splits)
  then consider "oc = Missing" "live tab h = None" | "oc = Saved (saved_row sha local_device (map_of tab h) it)" by metis
  then show ?thesis
  proof cases
    case 1
    then show ?thesis using c' inv s by simp
  next
    case 2
    have "table_inv sha (ss_table s)"
      unfolding s by (rule judged_table_inv[OF inv g oc k])
    moreover have "live (ss_table s) h = None"
      by (simp add: s 2 gh live_def update_conv' saved_row_def row_deleted_def it_def local_flags)
    ultimately show ?thesis using c' by (auto simp: s 2 gh update_conv')
  qed
qed

definition conn_codes :: "conn_env \<Rightarrow> bool" where
  "conn_codes env \<longleftrightarrow> (\<forall>i. sqlite_codes (ce_item env i)) \<and> ce_prepare env \<noteq> E_NOT_FOUND"

lemma StartTransactionNormally_ok:
  "StartTransactionNormally env ns c = (c1, E_OK) \<Longrightarrow> cc_writeHandle c1 = Some (ns_sync_data ns) \<and>
     cc_currentMaxTimestamp c1 = cc_currentMaxTimestamp c \<and> cc_transactionEntrySize c1 = 0"
  by (auto simp: StartTransactionNormally_def Let_def split: if_splits)

lemma batch_inner_ok:
  assumes B: "batch_inner env n work (ns, c) = (w', events, E_OK)"
  obtains c1 c2 where "work c1 = (c2, E_OK)" "cc_writeHandle c1 = Some (visible (ns, c))"
    "cc_currentMaxTimestamp c1 = cc_currentMaxTimestamp c"
    "\<And>tab. cc_writeHandle c2 = Some tab \<Longrightarrow> visible w' = tab"
proof (cases "cc_writeHandle c")
  case None
  obtain c1 where st: "StartTransactionNormally env ns c = (c1, E_OK)"
    using B None by (auto simp: batch_inner_def split: prod.splits if_splits)
  obtain c2 e where w: "work c1 = (c2, e)" by (metis prod.exhaust)
  have e: "e = E_OK"
    using B None st w by (auto simp: batch_inner_def Let_def RollbackInner_def split: if_splits)
  have "visible w' = tab" if "cc_writeHandle c2 = Some tab" for tab
    using B None st w e that by (auto simp: batch_inner_def Let_def CommitInner_def visible_def split: if_splits)
  then show thesis
    using that[of c1 c2] StartTransactionNormally_ok[OF st] None w e by (simp add: visible_def)
next
  case (Some tab0)
  obtain c2 e where w: "work c = (c2, e)" by (metis prod.exhaust)
  have e: "e = E_OK" and v: "visible w' = tab" if "cc_writeHandle c2 = Some tab" for tab
    using B Some w that by (auto simp: batch_inner_def Let_def visible_def split: if_splits)
  have "e = E_OK" using B Some w by (auto simp: batch_inner_def Let_def split: if_splits)
  then show thesis using that[of c c2] Some w v by (simp add: visible_def)
qed

section \<open>Properties\<close>

text \<open>Other keys read as before when the rows of the other hashes are as before.\<close>

lemma Get_other:
  assumes hi: "hash_inj sha" and inv: "table_inv sha (visible w)" "table_inv sha (visible w')"
    and same: "\<forall>g. g \<noteq> h \<longrightarrow> map_of (visible w') g = map_of (visible w) g"
    and k: "sha k = Some h" "sha k' = Some h'" "k' \<noteq> k" "k' \<noteq> []" "length k' \<le> MAX_KEY_SIZE"
  shows "Get E_OK E_OK k' w' = Get E_OK E_OK k' w"
proof -
  have "h' \<noteq> h" using hi k unfolding hash_inj_def by blast
  then have "live (visible w') h' = live (visible w) h'" using same by (simp add: live_def)
  then show ?thesis
    using Get_live[OF hi inv(1) k(4,5,2)] Get_live[OF hi inv(2) k(4,5,2)] by simp
qed

lemma CheckDataStatus_ok: "CheckDataStatus k v = E_OK \<longleftrightarrow> k \<noteq> [] \<and> length k \<le> MAX_KEY_SIZE \<and> length v \<le> MAX_VALUE_SIZE"
  by (auto simp: CheckDataStatus_def)

lemma put_reads_back:
  assumes "hash_inj sha" "\<not> ex_isSyncMigrating cfg" "conn_codes env" "table_inv sha (visible (ns, c))"
    and "sha k = Some h" "ce_amend env v = Inr v'"
    and "\<And>r. map_of (visible (ns, c)) h = Some r \<Longrightarrow> sr_w_timestamp r < stamp_of (ce_now env 0) c"
    and "Put sha cfg env k v (ns, c) = (w', events, E_OK)"
  shows "Get E_OK E_OK k w' = Inr v' \<and>
     (\<forall>k' h'. sha k' = Some h' \<and> k' \<noteq> k \<and> k' \<noteq> [] \<and> length k' \<le> MAX_KEY_SIZE \<longrightarrow>
        Get E_OK E_OK k' w' = Get E_OK E_OK k' (ns, c)) \<and> table_inv sha (visible w')"
proof -
  have k: "k \<noteq> []" "length k \<le> MAX_KEY_SIZE"
    and B: "batch_inner env 1 (SaveSyncEntries sha cfg env 0 [\<lparr>e_key = k, e_value = v\<rparr>]) (ns, c) = (w', events, E_OK)"
    using assms(8) by (auto simp: Put_def PutBatch_def PutBatchInner_def CheckSyncEntriesValid_def CheckDataStatus_ok
        split: if_splits)
  obtain c1 c2 where W: "SaveSyncEntries sha cfg env 0 [\<lparr>e_key = k, e_value = v\<rparr>] c1 = (c2, E_OK)"
    and c1: "cc_writeHandle c1 = Some (visible (ns, c))" "cc_currentMaxTimestamp c1 = cc_currentMaxTimestamp c"
    and w': "\<And>tab. cc_writeHandle c2 = Some tab \<Longrightarrow> visible w' = tab"
    by (rule batch_inner_ok[OF B]) blast
  have S: "SaveEntry sha cfg env 0 \<lparr>e_key = k, e_value = v\<rparr> False 0 c1 = (c2, E_OK)"
    using W by (auto split: prod.splits if_splits)
  have "\<exists>tab'. cc_writeHandle c2 = Some tab' \<and> table_inv sha tab' \<and> live tab' h = Some v' \<and>
      (\<forall>g. g \<noteq> h \<longrightarrow> map_of tab' g = map_of (visible (ns, c)) g)"
    by (rule SaveEntry_put[OF assms(2) _ S c1(1) assms(4)])
      (use assms(3,5,6,7) c1(2) in \<open>simp_all add: conn_codes_def stamp_of_def split: if_splits\<close>)
  then have inv: "table_inv sha (visible w')" and lv: "live (visible w') h = Some v'"
    and same: "\<forall>g. g \<noteq> h \<longrightarrow> map_of (visible w') g = map_of (visible (ns, c)) g" using w' by auto
  have "Get E_OK E_OK k w' = Inr v'" using Get_live[OF assms(1) inv k assms(5)] lv by simp
  then show ?thesis using inv Get_other[OF assms(1,4) inv same assms(5)] by blast
qed

text \<open>C15. What was put is read back: if the row that the key had, if any, carries an older write timestamp than the one
  that the \<open>Put\<close> gives to its entry, then after a successful \<open>Put\<close>, in a transaction or on its own, \<open>Get\<close> returns the value as the
  schema amended it, and every other key reads as before.\<close>

theorem put_then_get:
  assumes "hash_inj sha" "\<not> ex_isSyncMigrating cfg" "conn_codes env" "table_inv sha (visible (ns, c))"
    and "sha k = Some h" "ce_amend env v = Inr v'"
    and "\<And>r. map_of (visible (ns, c)) h = Some r \<Longrightarrow> sr_w_timestamp r < stamp_of (ce_now env 0) c"
    and "Put sha cfg env k v (ns, c) = (w', events, E_OK)"
  shows "Get E_OK E_OK k w' = Inr v' \<and>
     (\<forall>k' h'. sha k' = Some h' \<and> k' \<noteq> k \<and> k' \<noteq> [] \<and> length k' \<le> MAX_KEY_SIZE \<longrightarrow>
        Get E_OK E_OK k' w' = Get E_OK E_OK k' (ns, c)) \<and> table_inv sha (visible w')"
  using assms by (rule put_reads_back)

text \<open>What was deleted is gone: after a successful \<open>Delete\<close>, \<open>Get\<close> finds nothing under the key and every other
  key reads as before, if the row that was there is older. Deleting a key that is not there succeeds.\<close>

theorem delete_then_get:
  assumes "hash_inj sha" "\<not> ex_isSyncMigrating cfg" "conn_codes env" "table_inv sha (visible (ns, c))"
    and "sha k = Some h"
    and "\<And>r. map_of (visible (ns, c)) h = Some r \<Longrightarrow> sr_w_timestamp r < stamp_of (ce_now env 0) c"
    and "Delete sha cfg env k (ns, c) = (w', events, E_OK)"
  shows "Get E_OK E_OK k w' = Inl E_NOT_FOUND \<and>
     (\<forall>k' h'. sha k' = Some h' \<and> k' \<noteq> k \<and> k' \<noteq> [] \<and> length k' \<le> MAX_KEY_SIZE \<longrightarrow>
        Get E_OK E_OK k' w' = Get E_OK E_OK k' (ns, c)) \<and> table_inv sha (visible w')"
proof -
  have hk: "hash_or_empty sha k = h" using assms(5) by (simp add: hash_or_empty_def CalcValueHash_def)
  have k: "k \<noteq> []" "length k \<le> MAX_KEY_SIZE"
    and B: "batch_inner env 1 (DeleteSyncEntries sha cfg env [k]) (ns, c) = (w', events, E_OK)"
    using assms(7) by (auto simp: Delete_def DeleteBatch_def DeleteBatchInner_def CheckSyncKeysValid_def CheckDataStatus_ok
        split: if_splits)
  obtain c1 c2 where W: "DeleteSyncEntries sha cfg env [k] c1 = (c2, E_OK)"
    and c1: "cc_writeHandle c1 = Some (visible (ns, c))" "cc_currentMaxTimestamp c1 = cc_currentMaxTimestamp c"
    and w': "\<And>tab. cc_writeHandle c2 = Some tab \<Longrightarrow> visible w' = tab"
    by (rule batch_inner_ok[OF B]) blast
  obtain e where S: "SaveEntry sha cfg env 0 \<lparr>e_key = h, e_value = []\<rparr> True 0 c1 = (c2, e)" and e: "e = E_OK \<or> e = E_NOT_FOUND"
    using W by (auto simp: DeleteSyncEntries_def hk split: prod.splits if_splits)
  have "\<exists>tab'. cc_writeHandle c2 = Some tab' \<and> table_inv sha tab' \<and> live tab' h = None \<and>
      (\<forall>g. g \<noteq> h \<longrightarrow> map_of tab' g = map_of (visible (ns, c)) g)"
    by (rule SaveEntry_delete[OF assms(2) _ S e _ c1(1) assms(4)])
      (use assms(3,6) c1(2) in \<open>simp_all add: conn_codes_def stamp_of_def split: if_splits\<close>)
  then have inv: "table_inv sha (visible w')" and lv: "live (visible w') h = None"
    and same: "\<forall>g. g \<noteq> h \<longrightarrow> map_of (visible w') g = map_of (visible (ns, c)) g" using w' by auto
  have "Get E_OK E_OK k w' = Inl E_NOT_FOUND" using Get_live[OF assms(1) inv k assms(5)] lv by simp
  then show ?thesis using inv Get_other[OF assms(1,4) inv same assms(5)] by blast
qed

lemma StartTransactionNormally_handle:
  "StartTransactionNormally env ns c = (c1, e) \<Longrightarrow> cc_writeHandle c1 = (if e = E_OK then Some (ns_sync_data ns) else cc_writeHandle c)"
  by (auto simp: StartTransactionNormally_def Let_def split: if_splits)

lemma batch_inner_error:
  assumes "batch_inner env n work (ns, c) = ((ns', c'), events, e)" "e \<noteq> E_OK" "cc_writeHandle c = None"
    "n \<le> MAX_TRANSACTION_ENTRY_SIZE"
  shows "ns_sync_data ns' = ns_sync_data ns \<and> cc_writeHandle c' = None \<and> (ce_commit env = E_OK \<longrightarrow> ns' = ns \<and> events = [])"
proof -
  obtain c1 e0 where s: "StartTransactionNormally env ns c = (c1, e0)" by (cases "StartTransactionNormally env ns c")
  show ?thesis
  proof (cases "e0 = E_OK")
    case False
    then show ?thesis using assms s StartTransactionNormally_handle[OF s] by (simp add: batch_inner_def)
  next
    case True
    obtain c2 e2 where w: "work c1 = (c2, e2)" by (cases "work c1")
    have "cc_transactionEntrySize c1 = 0" using s True by (auto simp: StartTransactionNormally_def Let_def split: if_splits)
    then show ?thesis using assms s True w
      by (auto simp: batch_inner_def CommitInner_def RollbackInner_def Let_def split: if_splits)
  qed
qed

text \<open>C26. A batch is all or nothing: when \<open>PutBatch\<close> outside a transaction returns an error, the table is as it was and
  no transaction is left open; unless it is the commit itself that failed, no observer is told anything either.\<close>

theorem put_batch_atomic:
  assumes "PutBatch sha cfg env entries (ns, c) = ((ns', c'), events, e)" "e \<noteq> E_OK" "cc_writeHandle c = None"
  shows "ns_sync_data ns' = ns_sync_data ns \<and> cc_writeHandle c' = None \<and>
    (ce_commit env = E_OK \<longrightarrow> ns' = ns \<and> events = [])"
proof (cases "CheckSyncEntriesValid ns entries = E_OK")
  case True
  then have "length entries \<le> MAX_TRANSACTION_ENTRY_SIZE"
    by (simp add: CheckSyncEntriesValid_def MAX_BATCH_SIZE_def MAX_TRANSACTION_ENTRY_SIZE_def split: if_splits)
  then show ?thesis using assms True
    by (intro batch_inner_error) (simp_all add: PutBatch_def PutBatchInner_def)
next
  case False
  then show ?thesis using assms by (simp add: PutBatch_def)
qed

text \<open>C40. A commit that fails is announced all the same: the error is returned and the table is unchanged, but the
  observers get the changes of the transaction, and the transaction stays marked as running with no handle to end it.\<close>

theorem failed_commit_announced:
  assumes "ce_commit env \<noteq> E_OK" "cc_writeHandle c = Some tab" "cc_committedData c = Some cn" "\<not> IsChangedDataEmpty cn"
    "Commit env (ns, c) = ((ns', c'), events, e)"
  shows "e = ce_commit env \<and> ns_sync_data ns' = ns_sync_data ns \<and> (SQLITE_GENERAL_NS_PUT_EVENT, cn) \<in> set events \<and>
    cc_transactionExeFlag c' = cc_transactionExeFlag c \<and> cc_writeHandle c' = None"
  using assms by (auto simp: Commit_def CommitInner_def CommitAndReleaseNotifyData_def Let_def)

section \<open>Witnesses\<close>

definition demo_conn_env :: "errno \<Rightarrow> conn_env" where
  "demo_conn_env commit = \<lparr>ce_executor = E_OK, ce_logOverLimit = False, ce_allocOk = True, ce_start = E_OK, ce_prepare = E_OK,
     ce_item = (\<lambda>i. sqlite_ok), ce_now = (\<lambda>i. 6 + of_nat i), ce_amend = Inr, ce_commit = commit, ce_rollback = E_OK\<rparr>"

definition demo_put :: "errno \<Rightarrow> Connection \<Rightarrow> world \<times> announcements \<times> errno" where
  "demo_put commit c = PutBatchInner demo_sha demo_cfg (demo_conn_env commit) [\<lparr>e_key = [7], e_value = [71]\<rparr>] (demo_store, c)"

definition demo_open :: Connection where
  "demo_open = snd (fst (StartTransaction (demo_conn_env E_OK) (demo_store, Connection_init)))"

lemma demo_Put:
  "Put demo_sha demo_cfg (demo_conn_env commit) [7] [71] (demo_store, c) = demo_put commit c"
  by (simp add: Put_def PutBatch_def demo_put_def CheckSyncEntriesValid_def CheckDataStatus_def MAX_BATCH_SIZE_def
      MAX_KEY_SIZE_def MAX_VALUE_SIZE_def demo_store_def)

lemma demo_conn_codes: "conn_codes (demo_conn_env commit)"
  by (simp add: conn_codes_def demo_conn_env_def sqlite_codes_def sqlite_ok_def)

lemma demo_visible: "visible (demo_store, Connection_init) = ns_sync_data demo_store"
  by (simp add: visible_def Connection_init_def)

lemma demo_stored_stamp:
  "map_of (ns_sync_data demo_store) [1, 7] = Some r \<Longrightarrow> sr_w_timestamp r < stamp_of (ce_now (demo_conn_env E_OK) 0) Connection_init"
  by (auto simp: demo_store_def demo_row_def stamp_of_def Connection_init_def demo_conn_env_def)

lemma demo_ok:
  assumes "snd (snd (demo_put E_OK c)) = E_OK"
  shows "Put demo_sha demo_cfg (demo_conn_env E_OK) [7] [71] (demo_store, c) =
    (fst (demo_put E_OK c), fst (snd (demo_put E_OK c)), E_OK)"
  unfolding demo_Put using assms by (metis prod.collapse)

lemma demo_old: "Get E_OK E_OK [7] (demo_store, Connection_init) = Inr [70]"
  by (simp add: Get_def GetKvData_def MAX_KEY_SIZE_def demo_store_def demo_row_def Connection_init_def)

theorem put_then_get_witness:
  "Get E_OK E_OK [7] (fst (demo_put E_OK Connection_init)) = Inr [71] \<and>
   Get E_OK E_OK [7] (demo_store, Connection_init) = Inr [70]"
proof -
  have ok: "snd (snd (demo_put E_OK Connection_init)) = E_OK" by code_simp
  have "demo_sha [7] = Some [1, 7]" "ce_amend (demo_conn_env E_OK) [71] = Inr [71]"
    by (simp_all add: demo_sha_def demo_conn_env_def)
  from put_then_get[OF demo_hash(1,2) demo_conn_codes _ this _ demo_ok[OF ok]]
  show ?thesis using demo_table demo_stored_stamp demo_old unfolding demo_visible by blast
qed

definition demo_delete :: "world \<times> announcements \<times> errno" where
  "demo_delete = DeleteBatchInner demo_sha demo_cfg (demo_conn_env E_OK) [[7]] (demo_store, Connection_init)"

theorem delete_then_get_witness:
  "Get E_OK E_OK [7] (fst demo_delete) = Inl E_NOT_FOUND \<and> Get E_OK E_OK [7] (demo_store, Connection_init) = Inr [70]"
proof -
  have "Delete demo_sha demo_cfg (demo_conn_env E_OK) [7] (demo_store, Connection_init) = demo_delete"
    by (simp add: Delete_def DeleteBatch_def demo_delete_def CheckSyncKeysValid_def CheckDataStatus_def MAX_BATCH_SIZE_def
      MAX_KEY_SIZE_def MAX_VALUE_SIZE_def demo_store_def)
  moreover have "snd (snd demo_delete) = E_OK" by code_simp
  ultimately have "Delete demo_sha demo_cfg (demo_conn_env E_OK) [7] (demo_store, Connection_init) =
    (fst demo_delete, fst (snd demo_delete), E_OK)" by (metis prod.collapse)
  moreover have "demo_sha [7] = Some [1, 7]" by (simp add: demo_sha_def)
  ultimately show ?thesis
    using delete_then_get[OF demo_hash(1,2) demo_conn_codes, of demo_store Connection_init "[7]" "[1, 7]"]
      demo_table demo_stored_stamp demo_old unfolding demo_visible by blast
qed

definition demo_busy :: conn_env where
  "demo_busy = (demo_conn_env E_OK)\<lparr>ce_item := (\<lambda>i. if i = 1 then sqlite_ok\<lparr>sq_save := E_BUSY\<rparr> else sqlite_ok)\<rparr>"

theorem put_batch_atomic_witness:
  "fst (snd (PutBatch demo_sha demo_cfg demo_busy [\<lparr>e_key = [7], e_value = [71]\<rparr>, \<lparr>e_key = [9], e_value = [90]\<rparr>]
     (demo_store, Connection_init))) = []"
proof -
  let ?r = "PutBatch demo_sha demo_cfg demo_busy [\<lparr>e_key = [7], e_value = [71]\<rparr>, \<lparr>e_key = [9], e_value = [90]\<rparr>]
     (demo_store, Connection_init)"
  have "?r = PutBatchInner demo_sha demo_cfg demo_busy [\<lparr>e_key = [7], e_value = [71]\<rparr>, \<lparr>e_key = [9], e_value = [90]\<rparr>]
     (demo_store, Connection_init)"
    by (simp add: PutBatch_def CheckSyncEntriesValid_def CheckDataStatus_def MAX_BATCH_SIZE_def
      MAX_KEY_SIZE_def MAX_VALUE_SIZE_def demo_store_def)
  moreover have "snd (snd (PutBatchInner demo_sha demo_cfg demo_busy [\<lparr>e_key = [7], e_value = [71]\<rparr>, \<lparr>e_key = [9], e_value = [90]\<rparr>]
     (demo_store, Connection_init))) \<noteq> E_OK" by code_simp
  ultimately have "snd (snd ?r) \<noteq> E_OK" by simp
  then show ?thesis
    using put_batch_atomic[of demo_sha demo_cfg demo_busy _ demo_store Connection_init "fst (fst ?r)" "snd (fst ?r)" "fst (snd ?r)" "snd (snd ?r)"]
    by (simp add: demo_busy_def demo_conn_env_def Connection_init_def)
qed

definition demo_written :: Connection where
  "demo_written = snd (fst (demo_put E_OK demo_open))"

theorem failed_commit_announced_witness:
  "ns_sync_data (fst (fst (Commit (demo_conn_env E_BUSY) (demo_store, demo_written)))) = ns_sync_data demo_store \<and>
   (SQLITE_GENERAL_NS_PUT_EVENT, the (cc_committedData demo_written)) \<in>
     set (fst (snd (Commit (demo_conn_env E_BUSY) (demo_store, demo_written))))"
proof -
  let ?r = "Commit (demo_conn_env E_BUSY) (demo_store, demo_written)"
  have "cc_writeHandle demo_written \<noteq> None" "cc_committedData demo_written \<noteq> None" by code_simp+
  moreover have "\<not> IsChangedDataEmpty (the (cc_committedData demo_written))" by code_simp
  ultimately show ?thesis
    using failed_commit_announced[of "demo_conn_env E_BUSY" demo_written _ _ demo_store "fst (fst ?r)" "snd (fst ?r)"
        "fst (snd ?r)" "snd (snd ?r)"]
    by (auto simp: demo_conn_env_def)
qed

end
