(* ===== verification/Meta_Store.thy ===== *)
theory Meta_Store
  imports Single_Ver_Store "HOL-Library.List_Lexorder"
begin

text \<open>
  The table of metadata of a single-version store (\<^verbatim>\<open>storage/src/sqlite/sqlite_single_ver_natural_store.cpp\<close>
  and its executor): the interface under the syncer's metadata and water marks. The table is the list of
  its rows; what SQLite answers is in \<open>meta_env\<close>. The deletion by prefix is a range of blobs in the order
  of SQLite, which compares bytes and then lengths; \<open>in_prefix_range\<close> shows that it is the prefix.
\<close>

type_synonym meta_table = "(Key \<times> Value) list"

text \<open>The first failure of taking the handle or of running the statement, per operation.\<close>

record meta_env =
  me_get :: errno
  me_put :: errno
  me_delete :: errno
  me_keys :: errno

definition meta_ok :: meta_env where
  "meta_ok = \<lparr>me_get = E_OK, me_put = E_OK, me_delete = E_OK, me_keys = E_OK\<rparr>"

definition GetMetaData :: "meta_env \<Rightarrow> meta_table \<Rightarrow> Key \<Rightarrow> Value res" where
  "GetMetaData env tab key =
     (if length key > MAX_KEY_SIZE then Inl E_INVALID_ARGS
      else if me_get env \<noteq> E_OK then Inl (me_get env)
      else case map_of tab key of None \<Rightarrow> Inl E_NOT_FOUND | Some v \<Rightarrow> Inr v)"

definition PutMetaData :: "meta_env \<Rightarrow> meta_table \<Rightarrow> Key \<Rightarrow> Value \<Rightarrow> meta_table \<times> errno" where
  "PutMetaData env tab key value =
     (if CheckDataStatus key value \<noteq> E_OK then (tab, CheckDataStatus key value)
      else if me_put env \<noteq> E_OK then (tab, me_put env)
      else (AList.update key value tab, E_OK))"

text \<open>All the keys are deleted in one transaction.\<close>

definition DeleteMetaData :: "meta_env \<Rightarrow> meta_table \<Rightarrow> Key list \<Rightarrow> meta_table \<times> errno" where
  "DeleteMetaData env tab keys =
     (if \<not> list_all (\<lambda>k. k \<noteq> [] \<and> length k \<le> MAX_KEY_SIZE) keys then (tab, E_INVALID_ARGS)
      else if me_delete env \<noteq> E_OK then (tab, me_delete env)
      else (filter (\<lambda>(k, v). k \<notin> set keys) tab, E_OK))"

definition GetAllMetaKeys :: "meta_env \<Rightarrow> meta_table \<Rightarrow> Key list res" where
  "GetAllMetaKeys env tab = (if me_keys env \<noteq> E_OK then Inl (me_keys env) else Inr (map fst tab))"

text \<open>\<^verbatim>\<open>BindPrefixKey\<close>: the upper bound is the prefix padded with the largest byte.\<close>

definition prefix_end :: "Key \<Rightarrow> Key" where
  "prefix_end keyPrefix = poke 0 keyPrefix (replicate MAX_KEY_SIZE 255)"

definition DeleteMetaDataByPrefixKey :: "meta_env \<Rightarrow> meta_table \<Rightarrow> Key \<Rightarrow> meta_table \<times> errno" where
  "DeleteMetaDataByPrefixKey env tab keyPrefix =
     (if keyPrefix = [] \<or> length keyPrefix > MAX_KEY_SIZE then (tab, E_INVALID_ARGS)
      else if me_delete env \<noteq> E_OK then (tab, me_delete env)
      else (filter (\<lambda>(k, v). \<not> (keyPrefix \<le> k \<and> k \<le> prefix_end keyPrefix)) tab, E_OK))"

section \<open>The range of a prefix\<close>

lemma le_replicate_max: "length (k :: byte list) \<le> n \<Longrightarrow> k \<le> replicate n 255"
proof (induction k arbitrary: n)
  case (Cons b k)
  then obtain m where "n = Suc m" by (cases n) auto
  moreover have "b \<le> 255" using unsigned_less[where 'a = nat, of b] by (simp add: word_le_nat_alt)
  ultimately show ?case using Cons by (auto simp: le_less)
qed simp

lemma append_le_append [simp]: "(a @ b \<le> a @ c) = (b \<le> (c :: byte list))"
  by (induction a) auto

lemma prefix_le: "a \<le> (a @ b :: byte list)"
  by (induction a) auto

lemma between_prefixes:
  "(a :: byte list) \<le> k \<Longrightarrow> k \<le> a @ c \<Longrightarrow> \<exists>b. k = a @ b"
proof (induction a arbitrary: k)
  case (Cons x a)
  from Cons.prems obtain y k' where k: "k = y # k'" by (cases k) auto
  with Cons.prems have "y = x" "a \<le> k'" "k' \<le> a @ c" by auto
  then show ?case using Cons.IH k by auto
qed simp

theorem in_prefix_range:
  assumes "length keyPrefix \<le> MAX_KEY_SIZE" "length k \<le> MAX_KEY_SIZE"
  shows "keyPrefix \<le> k \<and> k \<le> prefix_end keyPrefix \<longleftrightarrow> take (length keyPrefix) k = keyPrefix"
proof -
  let ?c = "replicate (MAX_KEY_SIZE - length keyPrefix) (255 :: byte)"
  have e: "prefix_end keyPrefix = keyPrefix @ ?c" using assms(1) by (simp add: prefix_end_def poke_def)
  show ?thesis
  proof
    assume "take (length keyPrefix) k = keyPrefix"
    then obtain b where b: "k = keyPrefix @ b" by (metis append_take_drop_id)
    then have "b \<le> ?c" using assms by (intro le_replicate_max) simp
    then show "keyPrefix \<le> k \<and> k \<le> prefix_end keyPrefix" by (simp add: b e prefix_le)
  next
    assume "keyPrefix \<le> k \<and> k \<le> prefix_end keyPrefix"
    then obtain b where "k = keyPrefix @ b" using between_prefixes e by metis
    then show "take (length keyPrefix) k = keyPrefix" by simp
  qed
qed

section \<open>The invariant\<close>

text \<open>One row per key, every key within the limit.\<close>

definition meta_inv :: "meta_table \<Rightarrow> bool" where
  "meta_inv tab \<longleftrightarrow> distinct (map fst tab) \<and> list_all (\<lambda>(k, v). k \<noteq> [] \<and> length k \<le> MAX_KEY_SIZE) tab"

lemma update_keys: "set (map fst (AList.update k v tab)) = insert k (set (map fst tab))"
  by (induction tab) auto

lemma PutMetaData_inv:
  assumes "meta_inv tab" shows "meta_inv (fst (PutMetaData env tab k v))"
proof (cases "CheckDataStatus k v = E_OK")
  case True
  then have k: "k \<noteq> []" "length k \<le> MAX_KEY_SIZE" by (auto simp: CheckDataStatus_def split: if_splits)
  have "list_all (\<lambda>x. x \<noteq> [] \<and> length x \<le> MAX_KEY_SIZE) (map fst (AList.update k v tab))"
    unfolding list_all_iff update_keys using assms k by (auto simp: meta_inv_def list_all_iff)
  then show ?thesis using assms True
    by (auto simp: meta_inv_def PutMetaData_def distinct_update list_all_iff split: if_splits)
qed (simp add: PutMetaData_def assms)

lemma filter_meta_inv: "meta_inv tab \<Longrightarrow> meta_inv (filter P tab)"
  by (auto simp: meta_inv_def list_all_iff distinct_map_filter)

lemma map_of_filter_key: "map_of (filter (\<lambda>(k, v). P k) tab) k = (if P k then map_of tab k else None)"
  by (induction tab) (auto split: if_splits)

lemma PutMetaData_ok:
  assumes "PutMetaData env tab k v = (tab', E_OK)"
  shows "map_of tab' = (map_of tab)(k \<mapsto> v)" "length k \<le> MAX_KEY_SIZE" "k \<noteq> []"
  using assms by (auto simp: PutMetaData_def CheckDataStatus_def update_conv' split: if_splits)

lemma PutMetaData_error: "PutMetaData env tab k v = (tab', e) \<Longrightarrow> e \<noteq> E_OK \<Longrightarrow> tab' = tab"
  by (auto simp: PutMetaData_def split: if_splits)

lemma DeleteMetaDataByPrefixKey_ok:
  assumes "DeleteMetaDataByPrefixKey env tab pre = (tab', E_OK)" "meta_inv tab"
  shows "meta_inv tab'" "map_of tab' k = (if take (length pre) k = pre then None else map_of tab k)"
proof -
  have t: "tab' = filter (\<lambda>(k, v). \<not> (pre \<le> k \<and> k \<le> prefix_end pre)) tab" and l: "length pre \<le> MAX_KEY_SIZE"
    using assms(1) by (auto simp: DeleteMetaDataByPrefixKey_def split: if_splits)
  show "meta_inv tab'" using assms(2) by (simp add: t filter_meta_inv)
  have "length k \<le> MAX_KEY_SIZE" if "map_of tab k = Some v" for v
    using assms(2) map_of_SomeD[OF that] by (auto simp: meta_inv_def list_all_iff)
  then show "map_of tab' k = (if take (length pre) k = pre then None else map_of tab k)"
    using in_prefix_range[OF l, of k] unfolding t map_of_filter_key by (cases "map_of tab k") auto
qed

end
