(* ===== verification/Parcel.thy ===== *)
theory Parcel
  imports Endian_Convert
begin

text \<open>
  \<^verbatim>\<open>common/src/parcel.cpp\<close> and \<^verbatim>\<open>common/include/parcel.h\<close>: the serialisation of the packets of the
  syncer and of its metadata. A parcel is a cursor over a caller's buffer. The raw accesses through
  \<^verbatim>\<open>bufPtr_\<close> are explicit: one that would leave the buffer sets the ghost field \<open>p_wild\<close>, and the
  invariant \<open>parcel_wf\<close>, which every operation keeps, says that this never happens.

  The locale \<open>parcel_item\<close> is the contract of a pair of a write and a read operation; it is
  interpreted for every kind of item, and \<open>write_fields\<close> and \<open>read_fields\<close> are sequences of them.
\<close>

section \<open>State\<close>

record parcel =
  p_isError :: bool
  p_buf :: "byte list"
  p_bufPtr :: nat
  p_parcelLen :: nat
  p_totalLen :: nat
  p_wild :: bool

definition INT32_MAX :: nat where "INT32_MAX = 2147483647"

text \<open>The constructor takes the length as a \<^verbatim>\<open>uint32_t\<close>; a null buffer is the empty one.\<close>

definition Parcel_init :: "byte list \<Rightarrow> nat \<Rightarrow> parcel" where
  "Parcel_init inBuf len =
     \<lparr>p_isError = (inBuf = [] \<or> wrap32 len = 0), p_buf = inBuf, p_bufPtr = 0, p_parcelLen = 0,
      p_totalLen = wrap32 len, p_wild = False\<rparr>"

definition IsError :: "parcel \<Rightarrow> bool" where "IsError p = p_isError p"

definition fail :: "parcel \<Rightarrow> parcel" where "fail p = p\<lparr>p_isError := True\<rparr>"

text \<open>\<open>skip\<close> moves the pointer, \<open>advance\<close> counts what was consumed.\<close>

definition skip :: "nat \<Rightarrow> parcel \<Rightarrow> parcel" where "skip n p = p\<lparr>p_bufPtr := p_bufPtr p + n\<rparr>"
definition advance :: "nat \<Rightarrow> parcel \<Rightarrow> parcel" where "advance n p = p\<lparr>p_parcelLen := p_parcelLen p + n\<rparr>"

definition store_at_ptr :: "byte list \<Rightarrow> parcel \<Rightarrow> parcel" where
  "store_at_ptr src p =
     (if p_bufPtr p + length src \<le> length (p_buf p) then p\<lparr>p_buf := poke (p_bufPtr p) src (p_buf p)\<rparr>
      else p\<lparr>p_wild := True\<rparr>)"

definition copy_to_ptr :: "nat \<Rightarrow> byte list \<Rightarrow> parcel \<Rightarrow> parcel option" where
  "copy_to_ptr destMax src p = (if length src \<le> destMax then Some (store_at_ptr src p) else None)"

definition load_at :: "nat \<Rightarrow> nat \<Rightarrow> parcel \<Rightarrow> parcel \<times> byte list" where
  "load_at off n p =
     (if p_bufPtr p + off + n \<le> length (p_buf p) then (p, take n (drop (p_bufPtr p + off) (p_buf p)))
      else (p\<lparr>p_wild := True\<rparr>, []))"

section \<open>Integers\<close>

definition WriteInteger :: "bool \<Rightarrow> 'a::len word \<Rightarrow> parcel \<Rightarrow> parcel \<times> errno" where
  "WriteInteger be integer p =
     (if IsError p then (p, E_PARSE_FAIL)
      else let inData = HostToNet be integer; n = LENGTH('a) div 8 in
        if p_parcelLen p + n > p_totalLen p then (fail p, E_PARSE_FAIL)
        else case copy_to_ptr (p_totalLen p - p_parcelLen p) (mem_store be inData) p of
          None \<Rightarrow> (fail p, E_SECUREC_ERROR)
        | Some p1 \<Rightarrow> (advance n (skip n p1), E_OK))"

definition ReadInteger :: "bool \<Rightarrow> 'a::len word \<Rightarrow> parcel \<Rightarrow> parcel \<times> 'a word \<times> nat" where
  "ReadInteger be integer p =
     (if IsError p then (p, integer, 0)
      else let n = LENGTH('a) div 8 in
        if p_parcelLen p + n > p_totalLen p then (fail p, integer, 0)
        else case load_at 0 n p of (p1, bytes) \<Rightarrow>
          (advance n (skip n p1), NetToHost be (mem_load be bytes), n))"

definition WriteUInt8 :: "bool \<Rightarrow> u8 \<Rightarrow> parcel \<Rightarrow> parcel \<times> errno" where "WriteUInt8 be = WriteInteger be"
definition ReadUInt8 :: "bool \<Rightarrow> u8 \<Rightarrow> parcel \<Rightarrow> parcel \<times> u8 \<times> nat" where "ReadUInt8 be = ReadInteger be"
definition WriteUInt32 :: "bool \<Rightarrow> u32 \<Rightarrow> parcel \<Rightarrow> parcel \<times> errno" where "WriteUInt32 be = WriteInteger be"
definition ReadUInt32 :: "bool \<Rightarrow> u32 \<Rightarrow> parcel \<Rightarrow> parcel \<times> u32 \<times> nat" where "ReadUInt32 be = ReadInteger be"
definition WriteUInt64 :: "bool \<Rightarrow> u64 \<Rightarrow> parcel \<Rightarrow> parcel \<times> errno" where "WriteUInt64 be = WriteInteger be"
definition ReadUInt64 :: "bool \<Rightarrow> u64 \<Rightarrow> parcel \<Rightarrow> parcel \<times> u64 \<times> nat" where "ReadUInt64 be = ReadInteger be"

text \<open>The signed types are carried as their two's complement words.\<close>

definition WriteInt :: "bool \<Rightarrow> u32 \<Rightarrow> parcel \<Rightarrow> parcel \<times> errno" where "WriteInt be = WriteInteger be"
definition ReadInt :: "bool \<Rightarrow> u32 \<Rightarrow> parcel \<Rightarrow> parcel \<times> u32 \<times> nat" where "ReadInt be = ReadInteger be"
definition WriteInt64 :: "bool \<Rightarrow> u64 \<Rightarrow> parcel \<Rightarrow> parcel \<times> errno" where "WriteInt64 be = WriteInteger be"
definition ReadInt64 :: "bool \<Rightarrow> u64 \<Rightarrow> parcel \<Rightarrow> parcel \<times> u64 \<times> nat" where "ReadInt64 be = ReadInteger be"

definition WriteBool :: "bool \<Rightarrow> bool \<Rightarrow> parcel \<Rightarrow> parcel \<times> errno" where
  "WriteBool be data = WriteUInt8 be (if data then 1 else 0)"

definition ReadBool :: "bool \<Rightarrow> bool \<Rightarrow> parcel \<Rightarrow> parcel \<times> bool \<times> nat" where
  "ReadBool be val p = (case ReadUInt8 be 0 p of (p1, intVal, len) \<Rightarrow> (p1, intVal = 1, len))"

section \<open>Strings and vectors\<close>

definition WriteString :: "bool \<Rightarrow> byte list \<Rightarrow> parcel \<Rightarrow> parcel \<times> errno" where
  "WriteString be inVal p =
     (if length inVal > INT32_MAX then (fail p, E_PARSE_FAIL)
      else if IsError p then (p, E_PARSE_FAIL)
      else let stepLen = 4 + length inVal; len = HostToNet be (of_nat (length inVal) :: u32) in
        if stepLen > INT32_MAX \<or> p_parcelLen p + BYTE_8_ALIGN stepLen > p_totalLen p then (fail p, E_PARSE_FAIL)
        else case copy_to_ptr (p_totalLen p - p_parcelLen p) (mem_store be len) p of
          None \<Rightarrow> (fail p, E_SECUREC_ERROR)
        | Some p1 \<Rightarrow>
            let p2 = skip 4 p1 in
            if length inVal = 0 then
              (advance (BYTE_8_ALIGN stepLen) (skip (BYTE_8_ALIGN stepLen - stepLen) p2), E_OK)
            else case copy_to_ptr (p_totalLen p2 - p_parcelLen p2 - 4) inVal p2 of
              None \<Rightarrow> (fail p2, E_SECUREC_ERROR)
            | Some p3 \<Rightarrow>
                (advance (BYTE_8_ALIGN stepLen)
                   (skip (BYTE_8_ALIGN stepLen - stepLen) (skip (length inVal) p3)), E_OK))"

definition ReadString :: "bool \<Rightarrow> byte list \<Rightarrow> parcel \<Rightarrow> parcel \<times> byte list \<times> nat" where
  "ReadString be outVal p =
     (if IsError p then (p, outVal, 0)
      else if p_parcelLen p + 4 > p_totalLen p then (fail p, outVal, 0)
      else case load_at 0 4 p of (p1, lenBytes) \<Rightarrow>
        let len = unat (NetToHost be (mem_load be lenBytes :: u32)); stepLen = len + 4 in
        if stepLen > INT32_MAX \<or> p_parcelLen p1 + BYTE_8_ALIGN stepLen > p_totalLen p1 then (fail p1, outVal, 0)
        else case load_at 4 len p1 of (p2, chars) \<Rightarrow>
          (advance (BYTE_8_ALIGN stepLen) (skip (BYTE_8_ALIGN stepLen) p2), chars, wrap32 (BYTE_8_ALIGN stepLen)))"

primrec write_elements :: "bool \<Rightarrow> 'a::len word list \<Rightarrow> parcel \<Rightarrow> parcel" where
  "write_elements be [] p = p"
| "write_elements be (x # xs) p =
     write_elements be xs (skip (LENGTH('a) div 8) (store_at_ptr (mem_store be (HostToNet be x)) p))"

primrec read_elements :: "bool \<Rightarrow> nat \<Rightarrow> parcel \<Rightarrow> parcel \<times> 'a::len word list" where
  "read_elements be 0 p = (p, [])"
| "read_elements be (Suc n) p =
     (case load_at 0 (LENGTH('a) div 8) p of (p1, bytes) \<Rightarrow>
      case read_elements be n (skip (LENGTH('a) div 8) p1) of (p2, xs) \<Rightarrow>
        (p2, NetToHost be (mem_load be bytes) # xs))"

definition WriteVector :: "bool \<Rightarrow> 'a::len word list \<Rightarrow> parcel \<Rightarrow> parcel \<times> errno" where
  "WriteVector be data p =
     (if length data > INT32_MAX then (fail p, E_PARSE_FAIL)
      else if IsError p then (p, E_PARSE_FAIL)
      else let stepLen = length data * (LENGTH('a) div 8) + 4; len = HostToNet be (of_nat (length data) :: u32) in
        if stepLen > INT32_MAX \<or> p_parcelLen p + BYTE_8_ALIGN stepLen > p_totalLen p then (fail p, E_PARSE_FAIL)
        else case copy_to_ptr (p_totalLen p - p_parcelLen p) (mem_store be len) p of
          None \<Rightarrow> (fail p, E_SECUREC_ERROR)
        | Some p1 \<Rightarrow>
            (advance (BYTE_8_ALIGN stepLen)
               (skip (BYTE_8_ALIGN stepLen - stepLen) (write_elements be data (skip 4 p1))), E_OK))"

definition ReadVector :: "bool \<Rightarrow> 'a::len word list \<Rightarrow> parcel \<Rightarrow> parcel \<times> 'a word list \<times> nat" where
  "ReadVector be val p =
     (if IsError p then (p, val, 0)
      else if p_parcelLen p + 4 > p_totalLen p then (fail p, val, 0)
      else case load_at 0 4 p of (p1, lenBytes) \<Rightarrow>
        let len = unat (NetToHost be (mem_load be lenBytes :: u32)) in
        if len > INT32_MAX then (fail p1, val, 0)
        else let stepLen = len * (LENGTH('a) div 8) + 4 in
          if stepLen > INT32_MAX \<or> p_parcelLen p1 + BYTE_8_ALIGN stepLen > p_totalLen p1 then (fail p1, val, 0)
          else case read_elements be len (skip 4 p1) of (p2, xs) \<Rightarrow>
            (advance (BYTE_8_ALIGN stepLen) (skip (BYTE_8_ALIGN stepLen - stepLen) p2), xs,
             wrap32 (BYTE_8_ALIGN stepLen)))"

definition WriteVectorChar :: "bool \<Rightarrow> byte list \<Rightarrow> parcel \<Rightarrow> parcel \<times> errno" where
  "WriteVectorChar be = WriteVector be"

definition ReadVectorChar :: "bool \<Rightarrow> byte list \<Rightarrow> parcel \<Rightarrow> parcel \<times> byte list \<times> nat" where
  "ReadVectorChar be = ReadVector be"

section \<open>Blobs and alignment\<close>

text \<open>The caller gives a buffer of at least \<open>bufLen\<close> bytes, or a null pointer (\<open>None\<close>).\<close>

definition WriteBlob :: "byte list option \<Rightarrow> parcel \<Rightarrow> parcel \<times> errno" where
  "WriteBlob buffer p =
     (case buffer of
        None \<Rightarrow> (fail p, E_INVALID_ARGS)
      | Some bytes \<Rightarrow>
          if IsError p then (p, E_PARSE_FAIL)
          else if p_parcelLen p + length bytes > p_totalLen p then (fail p, E_PARSE_FAIL)
          else let leftLen = wrap32 (p_totalLen p - p_parcelLen p); aligned = wrap32 (BYTE_8_ALIGN (length bytes)) in
            case copy_to_ptr leftLen bytes p of
              None \<Rightarrow> (fail p, E_SECUREC_ERROR)
            | Some p1 \<Rightarrow> let len = (if aligned < leftLen then aligned else leftLen) in (advance len (skip len p1), E_OK))"

definition ReadBlob :: "byte list option \<Rightarrow> parcel \<Rightarrow> parcel \<times> byte list option \<times> nat" where
  "ReadBlob buffer p =
     (case buffer of
        None \<Rightarrow> (fail p, None, 0)
      | Some old \<Rightarrow>
          if IsError p then (p, Some old, 0)
          else if p_parcelLen p + length old > p_totalLen p then (fail p, Some old, 0)
          else let leftLen = wrap32 (p_totalLen p - p_parcelLen p); aligned = wrap32 (BYTE_8_ALIGN (length old)) in
            case load_at 0 (length old) p of (p1, bytes) \<Rightarrow>
              let len = (if aligned < leftLen then aligned else leftLen) in (advance len (skip len p1), Some bytes, len))"

definition EightByteAlign :: "parcel \<Rightarrow> parcel" where
  "EightByteAlign p =
     (let aligned = BYTE_8_ALIGN (p_parcelLen p) in
      (skip (aligned - p_parcelLen p) p)\<lparr>p_parcelLen := aligned\<rparr>)"

definition IsContinueRead :: "parcel \<Rightarrow> bool" where
  "IsContinueRead p \<longleftrightarrow> p_parcelLen p < p_totalLen p"

section \<open>Lengths\<close>

definition GetUInt8Len :: nat where "GetUInt8Len = 1"
definition GetBoolLen :: nat where "GetBoolLen = GetUInt8Len"
definition GetIntLen :: nat where "GetIntLen = 4"
definition GetUInt32Len :: nat where "GetUInt32Len = 4"
definition GetUInt64Len :: nat where "GetUInt64Len = 8"
definition GetInt64Len :: nat where "GetInt64Len = 8"

definition GetVectorLen :: "'a::len word list \<Rightarrow> nat" where
  "GetVectorLen data =
     (if length data > INT32_MAX then 0
      else let len = BYTE_8_ALIGN (4 + length data * (LENGTH('a) div 8)) in
        if len > INT32_MAX then 0 else wrap32 len)"

definition GetVectorCharLen :: "byte list \<Rightarrow> nat" where "GetVectorCharLen = GetVectorLen"

definition GetStringLen :: "byte list \<Rightarrow> nat" where
  "GetStringLen data =
     (if length data > INT32_MAX then 0
      else let len = BYTE_8_ALIGN (4 + length data) in if len > INT32_MAX then 0 else wrap32 len)"

definition GetEightByteAlign :: "nat \<Rightarrow> nat" where "GetEightByteAlign len = wrap32 (BYTE_8_ALIGN len)"

lemmas parcel_defs = IsError_def fail_def skip_def advance_def store_at_ptr_def copy_to_ptr_def load_at_def

section \<open>The invariant\<close>

text \<open>
  The pointer is where the count says, the count of bytes in the buffer is at least the total length,
  and nothing outside the buffer was touched.
\<close>

definition parcel_wf :: "parcel \<Rightarrow> bool" where
  "parcel_wf p \<longleftrightarrow> p_bufPtr p = p_parcelLen p \<and> p_totalLen p \<le> length (p_buf p) \<and> p_totalLen p < 4294967296 \<and> \<not> p_wild p"

lemma Parcel_init_wf: "wrap32 len \<le> length inBuf \<Longrightarrow> parcel_wf (Parcel_init inBuf len)"
  by (simp add: parcel_wf_def Parcel_init_def)

text \<open>\<open>shift n\<close>: a successful operation that consumed \<open>n\<close> bytes.\<close>

definition shift :: "nat \<Rightarrow> parcel \<Rightarrow> parcel" where
  "shift n p = p\<lparr>p_bufPtr := p_bufPtr p + n, p_parcelLen := p_parcelLen p + n\<rparr>"

lemma shift_simps [simp]:
  "p_isError (shift n p) = p_isError p" "p_buf (shift n p) = p_buf p" "p_totalLen (shift n p) = p_totalLen p"
  "p_parcelLen (shift n p) = p_parcelLen p + n" "p_wild (shift n p) = p_wild p"
  "p_bufPtr (shift n p) = p_bufPtr p + n" "parcel_wf (shift n p) \<longleftrightarrow> parcel_wf p"
  by (auto simp: shift_def parcel_wf_def)

lemma wf_upd [simp]:
  "parcel_wf (p\<lparr>p_isError := e\<rparr>) \<longleftrightarrow> parcel_wf p"
  "length bs = length (p_buf p) \<Longrightarrow> parcel_wf (p\<lparr>p_buf := bs\<rparr>) \<longleftrightarrow> parcel_wf p"
  by (auto simp: parcel_wf_def)

text \<open>A read of whatever the buffer holds: it stays inside the total length, or reports an error.\<close>

definition read_safely :: "parcel \<Rightarrow> parcel \<Rightarrow> nat \<Rightarrow> bool" where
  "read_safely q q' n \<longleftrightarrow>
     (\<exists>e. q' = shift n (q\<lparr>p_isError := e\<rparr>) \<and> (p_isError q \<longrightarrow> e)) \<and> (n = 0 \<or> p_parcelLen q + n \<le> p_totalLen q)"

lemma shift_0 [simp]: "shift 0 p = p"
  by (simp add: shift_def)

lemma shift_error: "shift n (q\<lparr>p_isError := p_isError q\<rparr>) = shift n q"
  by simp

lemma read_safely_intros:
  "read_safely q q 0" "read_safely q (fail q) 0" "p_parcelLen q + n \<le> p_totalLen q \<Longrightarrow> read_safely q (shift n q) n"
  unfolding read_safely_def fail_def using shift_error by (metis shift_0, metis shift_0, metis)

lemma read_safely_wf: "read_safely q q' n \<Longrightarrow> parcel_wf q \<Longrightarrow> parcel_wf q' \<and> p_buf q' = p_buf q \<and> p_totalLen q' = p_totalLen q"
  by (auto simp: read_safely_def)

lemma advance_skip: "advance n (skip n p) = shift n p"
  by (simp add: advance_def skip_def shift_def)

lemma load_at_ok [simp]:
  "parcel_wf q \<Longrightarrow> p_parcelLen q + off + n \<le> p_totalLen q \<Longrightarrow>
     load_at off n q = (q, take n (drop (p_parcelLen q + off) (p_buf q)))"
  by (simp add: load_at_def parcel_wf_def)

section \<open>The contract of an item\<close>

text \<open>
  \<open>enc v\<close> is what a write puts into the buffer, \<open>step v\<close> the bytes it consumes with its padding, \<open>legal v\<close>
  that the value is not too large. The bytes on the wire do not depend on the host.
\<close>

locale parcel_item =
  fixes wr :: "'v \<Rightarrow> parcel \<Rightarrow> parcel \<times> errno" and rd :: "'v \<Rightarrow> parcel \<Rightarrow> parcel \<times> 'v \<times> nat"
    and enc :: "'v \<Rightarrow> byte list" and step :: "'v \<Rightarrow> nat" and legal :: "'v \<Rightarrow> bool"
  assumes enc_step: "legal v \<Longrightarrow> length (enc v) \<le> step v"
    and write_ok: "parcel_wf p \<Longrightarrow> \<not> p_isError p \<Longrightarrow> legal v \<Longrightarrow> p_parcelLen p + step v \<le> p_totalLen p \<Longrightarrow>
      wr v p = (shift (step v) (p\<lparr>p_buf := poke (p_parcelLen p) (enc v) (p_buf p)\<rparr>), E_OK)"
    and write_fail: "parcel_wf p \<Longrightarrow> p_isError p \<or> \<not> legal v \<or> p_totalLen p < p_parcelLen p + step v \<Longrightarrow>
      wr v p = (p\<lparr>p_isError := True\<rparr>, E_PARSE_FAIL)"
    and read_ok: "parcel_wf q \<Longrightarrow> \<not> p_isError q \<Longrightarrow> legal v \<Longrightarrow> p_parcelLen q + step v \<le> p_totalLen q \<Longrightarrow>
      take (length (enc v)) (drop (p_parcelLen q) (p_buf q)) = enc v \<Longrightarrow> rd old q = (shift (step v) q, v, step v)"
    and read_safe: "parcel_wf q \<Longrightarrow> read_safely q (fst (rd old q)) (snd (snd (rd old q)))"
begin

definition fits :: "'v \<Rightarrow> parcel \<Rightarrow> bool" where
  "fits v p \<longleftrightarrow> \<not> p_isError p \<and> legal v \<and> p_parcelLen p + step v \<le> p_totalLen p"

lemma write_eq:
  "parcel_wf p \<Longrightarrow> wr v p =
     (if fits v p then (shift (step v) (p\<lparr>p_buf := poke (p_parcelLen p) (enc v) (p_buf p)\<rparr>), E_OK)
      else (p\<lparr>p_isError := True\<rparr>, E_PARSE_FAIL))"
  unfolding fits_def using write_ok write_fail by (metis not_le)

lemma enc_fits: "parcel_wf p \<Longrightarrow> fits v p \<Longrightarrow> p_parcelLen p + length (enc v) \<le> length (p_buf p)"
  using enc_step[of v] by (auto simp: fits_def parcel_wf_def)

lemma write_wf:
  assumes "parcel_wf p" shows "parcel_wf (fst (wr v p))" "length (p_buf (fst (wr v p))) = length (p_buf p)"
  using assms enc_fits[OF assms, of v] by (simp_all add: write_eq)

lemma write_frame:
  assumes "parcel_wf p" shows "take (p_parcelLen p) (p_buf (fst (wr v p))) = take (p_parcelLen p) (p_buf p)"
  using assms enc_fits[OF assms, of v] by (simp add: write_eq buf_simps)

lemma write_mono: "parcel_wf p \<Longrightarrow> p_parcelLen p \<le> p_parcelLen (fst (wr v p))"
  by (simp add: write_eq)

lemma write_total: "parcel_wf p \<Longrightarrow> p_totalLen (fst (wr v p)) = p_totalLen p"
  by (simp add: write_eq)

lemma write_code: "parcel_wf p \<Longrightarrow> snd (wr v p) = E_OK \<longleftrightarrow> \<not> p_isError (fst (wr v p))"
  by (simp add: write_eq fits_def)

text \<open>Whoever has the bytes a write left, later writes included, has the encoding of the value.\<close>

lemma written:
  assumes wf: "parcel_wf p" and ok: "\<not> p_isError (fst (wr v p))"
    and agree: "take (p_parcelLen (fst (wr v p))) bytes = take (p_parcelLen (fst (wr v p))) (p_buf (fst (wr v p)))"
  shows "legal v \<and> p_parcelLen p + step v \<le> p_totalLen p \<and> p_parcelLen (fst (wr v p)) = p_parcelLen p + step v \<and>
    take (length (enc v)) (drop (p_parcelLen p) bytes) = enc v"
proof -
  have f: "fits v p" using ok wf by (simp add: write_eq split: if_splits)
  then have len: "p_parcelLen (fst (wr v p)) = p_parcelLen p + step v" using wf by (simp add: write_eq)
  let ?o = "p_parcelLen p" and ?n = "length (enc v)"
  have n: "?n \<le> step v" using f enc_step by (simp add: fits_def)
  have "take ?n (drop ?o bs) = take ?n (drop ?o (take (?o + step v) bs))" for bs :: "byte list"
    using n by (simp add: drop_take)
  then have "take ?n (drop ?o bytes) = take ?n (drop ?o (p_buf (fst (wr v p))))" using agree len by metis
  also have "\<dots> = enc v" using f wf enc_fits[OF wf f] by (simp add: write_eq buf_simps)
  finally show ?thesis using len f by (simp add: fits_def)
qed

end

subsection \<open>Integers\<close>

definition enc_word :: "'a::len word \<Rightarrow> byte list" where "enc_word w = mem_store True w"

lemma parcel_item_word:
  assumes d: "8 dvd LENGTH('a)"
  shows "parcel_item (WriteInteger be :: 'a::len word \<Rightarrow> _) (ReadInteger be) enc_word (\<lambda>_. LENGTH('a) div 8) (\<lambda>_. True)"
proof
  fix p q :: parcel and v old :: "'a word"
  show "length (enc_word v) \<le> LENGTH('a) div 8" by (simp add: enc_word_def)
  show "WriteInteger be v p = (shift (LENGTH('a) div 8) (p\<lparr>p_buf := poke (p_parcelLen p) (enc_word v) (p_buf p)\<rparr>), E_OK)"
    if "parcel_wf p" "\<not> p_isError p" "p_parcelLen p + LENGTH('a) div 8 \<le> p_totalLen p"
    using that d by (auto simp: WriteInteger_def parcel_defs Let_def shift_def parcel_wf_def enc_word_def mem_store_HostToNet)
  show "WriteInteger be v p = (p\<lparr>p_isError := True\<rparr>, E_PARSE_FAIL)"
    if "p_isError p \<or> \<not> True \<or> p_totalLen p < p_parcelLen p + LENGTH('a) div 8"
    using that by (auto simp: WriteInteger_def parcel_defs Let_def)
  show "ReadInteger be old q = (shift (LENGTH('a) div 8) q, v, LENGTH('a) div 8)"
    if w: "parcel_wf q" "\<not> p_isError q" "p_parcelLen q + LENGTH('a) div 8 \<le> p_totalLen q"
      "take (length (enc_word v)) (drop (p_parcelLen q) (p_buf q)) = enc_word v"
  proof -
    have "NetToHost be (mem_load be (enc_word v)) = v"
      using d mem_load_store[OF d, of True v "[]"] by (simp add: NetToHost_mem_load enc_word_def)
    then show ?thesis using w by (auto simp: ReadInteger_def parcel_defs Let_def shift_def parcel_wf_def enc_word_def)
  qed
  show "read_safely q (fst (ReadInteger be old q)) (snd (snd (ReadInteger be old q)))" if "parcel_wf q"
    using that by (simp add: ReadInteger_def IsError_def Let_def advance_skip read_safely_intros)
qed

interpretation uint8: parcel_item "WriteUInt8 be" "ReadUInt8 be" enc_word "\<lambda>_. 1" "\<lambda>_. True" for be
  using parcel_item_word[where 'a = 8, of be] unfolding WriteUInt8_def ReadUInt8_def by simp

interpretation uint32: parcel_item "WriteUInt32 be" "ReadUInt32 be" enc_word "\<lambda>_. 4" "\<lambda>_. True" for be
  using parcel_item_word[where 'a = 32, of be] unfolding WriteUInt32_def ReadUInt32_def by simp

interpretation uint64: parcel_item "WriteUInt64 be" "ReadUInt64 be" enc_word "\<lambda>_. 8" "\<lambda>_. True" for be
  using parcel_item_word[where 'a = 64, of be] unfolding WriteUInt64_def ReadUInt64_def by simp

interpretation int32: parcel_item "WriteInt be" "ReadInt be" enc_word "\<lambda>_. 4" "\<lambda>_. True" for be
  using parcel_item_word[where 'a = 32, of be] unfolding WriteInt_def ReadInt_def by simp

interpretation int64: parcel_item "WriteInt64 be" "ReadInt64 be" enc_word "\<lambda>_. 8" "\<lambda>_. True" for be
  using parcel_item_word[where 'a = 64, of be] unfolding WriteInt64_def ReadInt64_def by simp

definition enc_bool :: "bool \<Rightarrow> byte list" where "enc_bool b = enc_word (if b then 1 else 0 :: u8)"

interpretation boolean: parcel_item "WriteBool be" "ReadBool be" enc_bool "\<lambda>_. 1" "\<lambda>_. True" for be
proof
  fix p q :: parcel and v old :: bool
  show "length (enc_bool v) \<le> 1" by (simp add: enc_bool_def enc_word_def)
  show "WriteBool be v p = (shift 1 (p\<lparr>p_buf := poke (p_parcelLen p) (enc_bool v) (p_buf p)\<rparr>), E_OK)"
    if "parcel_wf p" "\<not> p_isError p" "p_parcelLen p + 1 \<le> p_totalLen p"
    unfolding WriteBool_def enc_bool_def using that by (intro uint8.write_ok) auto
  show "WriteBool be v p = (p\<lparr>p_isError := True\<rparr>, E_PARSE_FAIL)"
    if "parcel_wf p" "p_isError p \<or> \<not> True \<or> p_totalLen p < p_parcelLen p + 1"
    unfolding WriteBool_def using that by (intro uint8.write_fail) auto
  show "ReadBool be old q = (shift 1 q, v, 1)"
    if "parcel_wf q" "\<not> p_isError q" "p_parcelLen q + 1 \<le> p_totalLen q"
      "take (length (enc_bool v)) (drop (p_parcelLen q) (p_buf q)) = enc_bool v"
    using uint8.read_ok[of q "if v then 1 else 0" be 0] that by (simp add: ReadBool_def enc_bool_def)
  show "read_safely q (fst (ReadBool be old q)) (snd (snd (ReadBool be old q)))" if "parcel_wf q"
    using uint8.read_safe[OF that, of be 0] by (auto simp: ReadBool_def split: prod.splits)
qed

subsection \<open>Strings\<close>

definition enc_len :: "nat \<Rightarrow> byte list" where "enc_len n = mem_store True (of_nat n :: u32)"

lemma length_enc_len [simp]: "length (enc_len n) = 4"
  by (simp add: enc_len_def)

lemma len_on_wire: "mem_store be (HostToNet be (of_nat n :: u32)) = enc_len n"
  by (simp add: mem_store_HostToNet enc_len_def)

lemma len_from_wire:
  assumes "n \<le> INT32_MAX" shows "unat (NetToHost be (mem_load be (enc_len n) :: u32)) = n"
proof -
  have "NetToHost be (mem_load be (enc_len n) :: u32) = of_nat n"
    using mem_load_store[where 'a = 32, of True "of_nat n" "[]"] by (simp add: NetToHost_mem_load enc_len_def)
  then show ?thesis using assms by (simp add: unat_of_nat_eq INT32_MAX_def)
qed

definition enc_string :: "byte list \<Rightarrow> byte list" where "enc_string s = enc_len (length s) @ s"
definition string_step :: "byte list \<Rightarrow> nat" where "string_step s = BYTE_8_ALIGN (4 + length s)"
definition string_legal :: "byte list \<Rightarrow> bool" where "string_legal s \<longleftrightarrow> 4 + length s \<le> INT32_MAX"

lemma poke_poke_next:
  "off + length a + length b \<le> length dst \<Longrightarrow> poke (off + length a) b (poke off a dst) = poke off (a @ b) dst"
  by (simp add: poke_def ac_simps)

lemma WriteString_ok:
  assumes "parcel_wf p" "\<not> p_isError p" "string_legal s" "p_parcelLen p + string_step s \<le> p_totalLen p"
  shows "WriteString be s p = (shift (string_step s) (p\<lparr>p_buf := poke (p_parcelLen p) (enc_string s) (p_buf p)\<rparr>), E_OK)"
proof -
  have "4 + length s \<le> string_step s" by (simp add: string_step_def BYTE_8_ALIGN_ge)
  moreover from this have "poke (p_parcelLen p + 4) s (poke (p_parcelLen p) (enc_len (length s)) (p_buf p)) =
      poke (p_parcelLen p) (enc_string s) (p_buf p)"
    using assms poke_poke_next[of "p_parcelLen p" "enc_len (length s)" s "p_buf p"]
    by (simp add: enc_string_def parcel_wf_def)
  ultimately show ?thesis
    using assms by (auto simp: WriteString_def parcel_defs Let_def shift_def parcel_wf_def len_on_wire string_legal_def
        string_step_def enc_string_def)
qed

interpretation str: parcel_item "WriteString be" "ReadString be" enc_string string_step string_legal for be
proof
  fix p q :: parcel and v old :: "byte list"
  show "length (enc_string v) \<le> string_step v" by (simp add: enc_string_def string_step_def BYTE_8_ALIGN_ge)
  show "WriteString be v p = (shift (string_step v) (p\<lparr>p_buf := poke (p_parcelLen p) (enc_string v) (p_buf p)\<rparr>), E_OK)"
    if "parcel_wf p" "\<not> p_isError p" "string_legal v" "p_parcelLen p + string_step v \<le> p_totalLen p"
    using that by (rule WriteString_ok)
  show "WriteString be v p = (p\<lparr>p_isError := True\<rparr>, E_PARSE_FAIL)"
    if "p_isError p \<or> \<not> string_legal v \<or> p_totalLen p < p_parcelLen p + string_step v"
    using that by (auto simp: WriteString_def IsError_def fail_def Let_def string_legal_def string_step_def)
  show "ReadString be old q = (shift (string_step v) q, v, string_step v)"
    if w: "parcel_wf q" "\<not> p_isError q" "string_legal v" "p_parcelLen q + string_step v \<le> p_totalLen q"
      "take (length (enc_string v)) (drop (p_parcelLen q) (p_buf q)) = enc_string v"
  proof -
    let ?d = "drop (p_parcelLen q) (p_buf q)"
    have t: "take (4 + length v) ?d = enc_len (length v) @ v" using w(5) by (simp add: enc_string_def)
    have "take 4 ?d = take 4 (take (4 + length v) ?d)" by simp
    also have "\<dots> = enc_len (length v)" unfolding t by simp
    finally have a: "take 4 ?d = enc_len (length v)" .
    have "take (length v) (drop (p_parcelLen q + 4) (p_buf q)) = drop 4 (take (4 + length v) ?d)"
      by (simp add: drop_take add.commute)
    also have "\<dots> = v" unfolding t by simp
    finally have b: "take (length v) (drop (p_parcelLen q + 4) (p_buf q)) = v" .
    have "unat (NetToHost be (mem_load be (enc_len (length v)) :: u32)) = length v"
      using w(3) by (intro len_from_wire) (simp add: string_legal_def)
    moreover have "4 + length v \<le> string_step v" by (simp add: string_step_def BYTE_8_ALIGN_ge)
    ultimately show ?thesis using w a b
      by (simp add: ReadString_def IsError_def Let_def string_legal_def string_step_def advance_skip add.commute parcel_wf_def)
  qed
  show "read_safely q (fst (ReadString be old q)) (snd (snd (ReadString be old q)))" if w: "parcel_wf q"
  proof -
    have "read_safely q (fst r) (snd (snd r))" if "r = (if n + 4 > INT32_MAX \<or> p_parcelLen q + BYTE_8_ALIGN (n + 4) > p_totalLen q
        then (fail q, old, 0) else case load_at 4 n q of (p2, chars) \<Rightarrow>
          (advance (BYTE_8_ALIGN (n + 4)) (skip (BYTE_8_ALIGN (n + 4)) p2), chars, wrap32 (BYTE_8_ALIGN (n + 4))))" for r n
      using that w BYTE_8_ALIGN_ge[of "n + 4"] by (auto simp: read_safely_intros advance_skip parcel_wf_def)
    then show ?thesis using w by (simp add: ReadString_def IsError_def Let_def read_safely_intros)
  qed
qed

subsection \<open>Vectors\<close>

definition enc_elements :: "'a::len word list \<Rightarrow> byte list" where "enc_elements xs = concat (map enc_word xs)"

lemma length_enc_elements: "length (enc_elements (xs :: 'a::len word list)) = length xs * (LENGTH('a) div 8)"
  by (induction xs) (simp_all add: enc_elements_def enc_word_def)

lemma div_greater_zero_of_bytes: "8 dvd LENGTH('a::len) \<Longrightarrow> 0 < LENGTH('a) div 8"
  by (simp add: div_greater_zero_iff dvd_imp_le)

lemma write_elements_eq:
  fixes xs :: "'a::len word list"
  assumes "8 dvd LENGTH('a)" "p_bufPtr p + length xs * (LENGTH('a) div 8) \<le> length (p_buf p)"
  shows "write_elements be xs p =
     p\<lparr>p_buf := poke (p_bufPtr p) (enc_elements xs) (p_buf p), p_bufPtr := p_bufPtr p + length xs * (LENGTH('a) div 8)\<rparr>"
  using assms(2)
proof (induction xs arbitrary: p)
  case (Cons x xs)
  have st: "store_at_ptr (mem_store be (HostToNet be x)) p = p\<lparr>p_buf := poke (p_bufPtr p) (enc_word x) (p_buf p)\<rparr>"
    using Cons.prems assms(1) by (simp add: store_at_ptr_def mem_store_HostToNet enc_word_def)
  have len: "length (enc_word x) = LENGTH('a) div 8" by (simp add: enc_word_def)
  have "poke (p_bufPtr p + length (enc_word x)) (enc_elements xs) (poke (p_bufPtr p) (enc_word x) (p_buf p)) =
      poke (p_bufPtr p) (enc_word x @ enc_elements xs) (p_buf p)"
    using Cons.prems len by (intro poke_poke_next) (simp add: length_enc_elements)
  then show ?case using Cons len by (simp add: st skip_def enc_elements_def)
qed (simp add: enc_elements_def poke_def)

lemma read_elements_eq:
  fixes xs :: "'a::len word list"
  assumes "8 dvd LENGTH('a)"
    "take (length (enc_elements xs)) (drop (p_bufPtr p) (p_buf p)) = enc_elements xs"
  shows "read_elements be (length xs) p = (skip (length xs * (LENGTH('a) div 8)) p, xs)"
  using assms(2)
proof (induction xs arbitrary: p)
  case (Cons x xs)
  let ?k = "LENGTH('a) div 8" and ?d = "drop (p_bufPtr p) (p_buf p)"
  have len: "length (enc_word x) = ?k" by (simp add: enc_word_def)
  have t: "take (?k + length (enc_elements xs)) ?d = enc_word x @ enc_elements xs"
    using Cons.prems len by (simp add: enc_elements_def)
  have "take ?k ?d = take ?k (take (?k + length (enc_elements xs)) ?d)" by simp
  also have "\<dots> = enc_word x" unfolding t using len by simp
  finally have a: "take ?k ?d = enc_word x" .
  have "take (length (enc_elements xs)) (drop (p_bufPtr p + ?k) (p_buf p)) = drop ?k (take (?k + length (enc_elements xs)) ?d)"
    by (simp add: drop_take add.commute)
  also have "\<dots> = enc_elements xs" unfolding t using len by simp
  finally have "read_elements be (length xs) (skip ?k p) = (skip (length xs * ?k) (skip ?k p), xs)"
    by (intro Cons.IH) (simp add: skip_def)
  moreover have "NetToHost be (mem_load be (enc_word x)) = x"
    using assms(1) mem_load_store[OF assms(1), of True x "[]"] by (simp add: NetToHost_mem_load enc_word_def)
  moreover have "p_bufPtr p + ?k \<le> length (p_buf p)"
    using arg_cong[OF t, of length] len div_greater_zero_of_bytes[OF assms(1)] by (auto simp: min_def split: if_splits)
  ultimately show ?case using a by (simp add: load_at_def skip_def add.assoc)
qed (simp add: skip_def)

lemma read_elements_ptr:
  assumes "p_bufPtr p + n * (LENGTH('a::len) div 8) \<le> length (p_buf p)"
  shows "fst (read_elements be n p :: parcel \<times> 'a word list) = skip (n * (LENGTH('a) div 8)) p"
  using assms
proof (induction n arbitrary: p)
  case (Suc n)
  then show ?case using Suc.IH[of "skip (LENGTH('a) div 8) p"] by (simp add: load_at_def skip_def case_prod_unfold add.assoc)
qed (simp add: skip_def)

definition enc_vector :: "'a::len word list \<Rightarrow> byte list" where "enc_vector xs = enc_len (length xs) @ enc_elements xs"
definition vector_step :: "'a::len word list \<Rightarrow> nat" where
  "vector_step xs = BYTE_8_ALIGN (length xs * (LENGTH('a) div 8) + 4)"
definition vector_legal :: "'a::len word list \<Rightarrow> bool" where
  "vector_legal xs \<longleftrightarrow> length xs \<le> INT32_MAX \<and> length xs * (LENGTH('a) div 8) + 4 \<le> INT32_MAX"

lemma WriteVector_ok:
  fixes v :: "'a::len word list"
  assumes "8 dvd LENGTH('a)" "parcel_wf p" "\<not> p_isError p" "vector_legal v" "p_parcelLen p + vector_step v \<le> p_totalLen p"
  shows "WriteVector be v p = (shift (vector_step v) (p\<lparr>p_buf := poke (p_parcelLen p) (enc_vector v) (p_buf p)\<rparr>), E_OK)"
proof -
  let ?n = "length v * (LENGTH('a) div 8)"
  have n: "?n + 4 \<le> vector_step v" by (simp add: vector_step_def BYTE_8_ALIGN_ge)
  then have b: "p_parcelLen p + 4 + ?n \<le> length (p_buf p)" using assms(2,5) by (simp add: parcel_wf_def)
  have "write_elements be v (skip 4 (store_at_ptr (enc_len (length v)) p)) =
      p\<lparr>p_buf := poke (p_parcelLen p) (enc_vector v) (p_buf p), p_bufPtr := p_bufPtr p + 4 + ?n\<rparr>"
    using b assms(1,2) poke_poke_next[of "p_parcelLen p" "enc_len (length v)" "enc_elements v" "p_buf p"]
    by (simp add: write_elements_eq skip_def store_at_ptr_def parcel_wf_def enc_vector_def length_enc_elements)
  then show ?thesis using assms(2-5) n
    by (simp add: WriteVector_def IsError_def copy_to_ptr_def Let_def shift_def len_on_wire vector_legal_def vector_step_def
        skip_def advance_def parcel_wf_def)
qed

lemma parcel_item_vector:
  assumes d: "8 dvd LENGTH('a)"
  shows "parcel_item (WriteVector be :: 'a::len word list \<Rightarrow> _) (ReadVector be) enc_vector vector_step vector_legal"
proof
  fix p q :: parcel and v old :: "'a word list"
  let ?k = "LENGTH('a) div 8"
  show "length (enc_vector v) \<le> vector_step v"
    using BYTE_8_ALIGN_ge by (simp add: enc_vector_def vector_step_def length_enc_elements add.commute)
  show "WriteVector be v p = (shift (vector_step v) (p\<lparr>p_buf := poke (p_parcelLen p) (enc_vector v) (p_buf p)\<rparr>), E_OK)"
    if "parcel_wf p" "\<not> p_isError p" "vector_legal v" "p_parcelLen p + vector_step v \<le> p_totalLen p"
    using d that by (rule WriteVector_ok)
  show "WriteVector be v p = (p\<lparr>p_isError := True\<rparr>, E_PARSE_FAIL)"
    if "p_isError p \<or> \<not> vector_legal v \<or> p_totalLen p < p_parcelLen p + vector_step v"
    using that by (auto simp: WriteVector_def IsError_def fail_def Let_def vector_legal_def vector_step_def)
  show "ReadVector be old q = (shift (vector_step v) q, v, vector_step v)"
    if w: "parcel_wf q" "\<not> p_isError q" "vector_legal v" "p_parcelLen q + vector_step v \<le> p_totalLen q"
      "take (length (enc_vector v)) (drop (p_parcelLen q) (p_buf q)) = enc_vector v"
  proof -
    let ?d = "drop (p_parcelLen q) (p_buf q)" and ?n = "length (enc_elements v)"
    have t: "take (4 + ?n) ?d = enc_len (length v) @ enc_elements v" using w(5) by (simp add: enc_vector_def)
    have "take 4 ?d = take 4 (take (4 + ?n) ?d)" by simp
    also have "\<dots> = enc_len (length v)" unfolding t by simp
    finally have a: "take 4 ?d = enc_len (length v)" .
    have "take ?n (drop (p_parcelLen q + 4) (p_buf q)) = drop 4 (take (4 + ?n) ?d)"
      by (simp add: drop_take add.commute)
    also have "\<dots> = enc_elements v" unfolding t by simp
    finally have b: "read_elements be (length v) (skip 4 q) = (skip (length v * ?k) (skip 4 q), v)"
      using w(1) by (intro read_elements_eq[OF d]) (simp add: skip_def parcel_wf_def)
    have "unat (NetToHost be (mem_load be (enc_len (length v)) :: u32)) = length v"
      using w(3) by (intro len_from_wire) (simp add: vector_legal_def)
    moreover have "length v * ?k + 4 \<le> vector_step v" by (simp add: vector_step_def BYTE_8_ALIGN_ge)
    ultimately show ?thesis using w a b
      by (simp add: ReadVector_def IsError_def Let_def vector_legal_def vector_step_def parcel_wf_def
          skip_def advance_def shift_def)
  qed
  show "read_safely q (fst (ReadVector be old q)) (snd (snd (ReadVector be old q)))" if w: "parcel_wf q"
  proof -
    have "read_safely q (fst r) (snd (snd r))" if "r = (if n * ?k + 4 > INT32_MAX \<or> p_parcelLen q + BYTE_8_ALIGN (n * ?k + 4) > p_totalLen q
        then (fail q, old, 0) else case read_elements be n (skip 4 q) of (p2, xs) \<Rightarrow>
          (advance (BYTE_8_ALIGN (n * ?k + 4)) (skip (BYTE_8_ALIGN (n * ?k + 4) - (n * ?k + 4)) p2), xs,
           wrap32 (BYTE_8_ALIGN (n * ?k + 4))))" for r n
    proof -
      have "fst (read_elements be n (skip 4 q) :: parcel \<times> 'a word list) = skip (n * ?k) (skip 4 q)"
        if "p_parcelLen q + BYTE_8_ALIGN (n * ?k + 4) \<le> p_totalLen q"
        using that w BYTE_8_ALIGN_ge[of "n * ?k + 4"] by (intro read_elements_ptr) (simp add: skip_def parcel_wf_def)
      moreover have "advance (BYTE_8_ALIGN (n * ?k + 4)) (skip (BYTE_8_ALIGN (n * ?k + 4) - (n * ?k + 4)) (skip (n * ?k) (skip 4 q)))
          = shift (BYTE_8_ALIGN (n * ?k + 4)) q"
        using BYTE_8_ALIGN_ge[of "n * ?k + 4"] by (simp add: advance_def skip_def shift_def)
      ultimately show ?thesis using that w by (auto simp: read_safely_intros parcel_wf_def simp: case_prod_unfold)
    qed
    then show ?thesis using w by (simp add: ReadVector_def IsError_def Let_def read_safely_intros)
  qed
qed

interpretation vec8: parcel_item "WriteVectorChar be" "ReadVectorChar be" enc_vector vector_step vector_legal for be
  using parcel_item_vector[where 'a = 8, of be] unfolding WriteVectorChar_def ReadVectorChar_def by simp

interpretation vec64: parcel_item "WriteVector be :: u64 list \<Rightarrow> _" "ReadVector be" enc_vector vector_step vector_legal for be
  using parcel_item_vector[where 'a = 64, of be] by simp

section \<open>Sequences of items\<close>

datatype field =
    FBool bool | FU8 u8 | FInt u32 | FU32 u32 | FInt64 u64 | FU64 u64 | FString "byte list" | FVec8 "byte list"
  | FVec64 "u64 list" | FAlign

text \<open>The value a reader starts from.\<close>

primrec blank :: "field \<Rightarrow> field" where
  "blank (FBool _) = FBool False" | "blank (FU8 _) = FU8 0" | "blank (FInt _) = FInt 0" | "blank (FU32 _) = FU32 0"
| "blank (FInt64 _) = FInt64 0" | "blank (FU64 _) = FU64 0" | "blank (FString _) = FString []"
| "blank (FVec8 _) = FVec8 []" | "blank (FVec64 _) = FVec64 []" | "blank FAlign = FAlign"

primrec write_field :: "bool \<Rightarrow> field \<Rightarrow> parcel \<Rightarrow> parcel \<times> errno" where
  "write_field be (FBool v) p = WriteBool be v p"
| "write_field be (FU8 v) p = WriteUInt8 be v p"
| "write_field be (FInt v) p = WriteInt be v p"
| "write_field be (FU32 v) p = WriteUInt32 be v p"
| "write_field be (FInt64 v) p = WriteInt64 be v p"
| "write_field be (FU64 v) p = WriteUInt64 be v p"
| "write_field be (FString v) p = WriteString be v p"
| "write_field be (FVec8 v) p = WriteVectorChar be v p"
| "write_field be (FVec64 v) p = WriteVector be v p"
| "write_field be FAlign p = (EightByteAlign p, E_OK)"

primrec read_field :: "bool \<Rightarrow> field \<Rightarrow> parcel \<Rightarrow> parcel \<times> field \<times> nat" where
  "read_field be (FBool v) p = (case ReadBool be v p of (p1, x, n) \<Rightarrow> (p1, FBool x, n))"
| "read_field be (FU8 v) p = (case ReadUInt8 be v p of (p1, x, n) \<Rightarrow> (p1, FU8 x, n))"
| "read_field be (FInt v) p = (case ReadInt be v p of (p1, x, n) \<Rightarrow> (p1, FInt x, n))"
| "read_field be (FU32 v) p = (case ReadUInt32 be v p of (p1, x, n) \<Rightarrow> (p1, FU32 x, n))"
| "read_field be (FInt64 v) p = (case ReadInt64 be v p of (p1, x, n) \<Rightarrow> (p1, FInt64 x, n))"
| "read_field be (FU64 v) p = (case ReadUInt64 be v p of (p1, x, n) \<Rightarrow> (p1, FU64 x, n))"
| "read_field be (FString v) p = (case ReadString be v p of (p1, x, n) \<Rightarrow> (p1, FString x, n))"
| "read_field be (FVec8 v) p = (case ReadVectorChar be v p of (p1, x, n) \<Rightarrow> (p1, FVec8 x, n))"
| "read_field be (FVec64 v) p = (case ReadVector be v p of (p1, x, n) \<Rightarrow> (p1, FVec64 x, n))"
| "read_field be FAlign p = (EightByteAlign p, FAlign, 0)"

primrec field_legal :: "field \<Rightarrow> bool" where
  "field_legal (FBool v) = True" | "field_legal (FU8 v) = True" | "field_legal (FInt v) = True"
| "field_legal (FU32 v) = True" | "field_legal (FInt64 v) = True" | "field_legal (FU64 v) = True"
| "field_legal (FString v) = string_legal v" | "field_legal (FVec8 v) = vector_legal v"
| "field_legal (FVec64 v) = vector_legal v" | "field_legal FAlign = True"

primrec field_end :: "nat \<Rightarrow> field \<Rightarrow> nat" where
  "field_end pos (FBool v) = pos + 1" | "field_end pos (FU8 v) = pos + 1" | "field_end pos (FInt v) = pos + 4"
| "field_end pos (FU32 v) = pos + 4" | "field_end pos (FInt64 v) = pos + 8" | "field_end pos (FU64 v) = pos + 8"
| "field_end pos (FString v) = pos + string_step v" | "field_end pos (FVec8 v) = pos + vector_step v"
| "field_end pos (FVec64 v) = pos + vector_step v" | "field_end pos FAlign = BYTE_8_ALIGN pos"

lemma EightByteAlign_eq: "EightByteAlign p = shift (BYTE_8_ALIGN (p_parcelLen p) - p_parcelLen p) p"
  using BYTE_8_ALIGN_ge[of "p_parcelLen p"] by (simp add: EightByteAlign_def skip_def shift_def Let_def)

lemmas item_laws =
  boolean.write_eq uint8.write_eq int32.write_eq uint32.write_eq int64.write_eq uint64.write_eq
  str.write_eq vec8.write_eq vec64.write_eq

lemmas item_fits =
  boolean.fits_def uint8.fits_def int32.fits_def uint32.fits_def int64.fits_def uint64.fits_def
  str.fits_def vec8.fits_def vec64.fits_def

lemma write_field_keeps:
  assumes "parcel_wf p"
  shows "parcel_wf (fst (write_field be f p))" "length (p_buf (fst (write_field be f p))) = length (p_buf p)"
    "take (p_parcelLen p) (p_buf (fst (write_field be f p))) = take (p_parcelLen p) (p_buf p)"
    "p_parcelLen p \<le> p_parcelLen (fst (write_field be f p))" "p_totalLen (fst (write_field be f p)) = p_totalLen p"
  using assms
  by (cases f; simp add: EightByteAlign_eq boolean.write_wf uint8.write_wf int32.write_wf uint32.write_wf int64.write_wf
      uint64.write_wf str.write_wf vec8.write_wf vec64.write_wf boolean.write_frame uint8.write_frame int32.write_frame
      uint32.write_frame int64.write_frame uint64.write_frame str.write_frame vec8.write_frame vec64.write_frame
      boolean.write_mono uint8.write_mono int32.write_mono uint32.write_mono int64.write_mono
      uint64.write_mono str.write_mono vec8.write_mono vec64.write_mono
      boolean.write_total uint8.write_total int32.write_total uint32.write_total int64.write_total
      uint64.write_total str.write_total vec8.write_total vec64.write_total)+

lemma write_field_ok:
  assumes "parcel_wf p" "\<not> p_isError p" "field_legal f" "field_end (p_parcelLen p) f \<le> p_totalLen p"
  shows "\<not> p_isError (fst (write_field be f p)) \<and> p_parcelLen (fst (write_field be f p)) = field_end (p_parcelLen p) f"
  using assms by (cases f) (simp_all add: item_laws item_fits EightByteAlign_eq BYTE_8_ALIGN_ge del: One_nat_def)

lemma write_field_sticky: "parcel_wf p \<Longrightarrow> p_isError p \<Longrightarrow> p_isError (fst (write_field be f p))"
  by (cases f) (simp_all add: item_laws item_fits EightByteAlign_eq del: One_nat_def)

lemma read_field_written:
  assumes "parcel_wf p" "\<not> p_isError (fst (write_field be f p))"
    and "parcel_wf q" "\<not> p_isError q" "p_parcelLen q = p_parcelLen p" "p_totalLen q = p_totalLen p"
    and "take (p_parcelLen (fst (write_field be f p))) (p_buf q) =
      take (p_parcelLen (fst (write_field be f p))) (p_buf (fst (write_field be f p)))"
  shows "\<exists>n. read_field be' (blank f) q = (shift (p_parcelLen (fst (write_field be f p)) - p_parcelLen p) q, f, n)"
proof (cases f)
  case (FBool v)
  then show ?thesis using assms boolean.written[of p be v "p_buf q"] boolean.read_ok[of q v be' False] by simp
next
  case (FU8 v)
  then show ?thesis using assms uint8.written[of p be v "p_buf q"] uint8.read_ok[of q v be' 0] by simp
next
  case (FInt v)
  then show ?thesis using assms int32.written[of p be v "p_buf q"] int32.read_ok[of q v be' 0] by simp
next
  case (FU32 v)
  then show ?thesis using assms uint32.written[of p be v "p_buf q"] uint32.read_ok[of q v be' 0] by simp
next
  case (FInt64 v)
  then show ?thesis using assms int64.written[of p be v "p_buf q"] int64.read_ok[of q v be' 0] by simp
next
  case (FU64 v)
  then show ?thesis using assms uint64.written[of p be v "p_buf q"] uint64.read_ok[of q v be' 0] by simp
next
  case (FString v)
  then show ?thesis using assms str.written[of p be v "p_buf q"] str.read_ok[of q v be' "[]"] by simp
next
  case (FVec8 v)
  then show ?thesis using assms vec8.written[of p be v "p_buf q"] vec8.read_ok[of q v be' "[]"] by simp
next
  case (FVec64 v)
  then show ?thesis using assms vec64.written[of p be v "p_buf q"] vec64.read_ok[of q v be' "[]"] by simp
next
  case FAlign
  then show ?thesis using assms by (simp add: EightByteAlign_eq BYTE_8_ALIGN_ge)
qed

primrec write_fields :: "bool \<Rightarrow> field list \<Rightarrow> parcel \<Rightarrow> parcel" where
  "write_fields be [] p = p"
| "write_fields be (f # fs) p = write_fields be fs (fst (write_field be f p))"

primrec read_fields :: "bool \<Rightarrow> field list \<Rightarrow> parcel \<Rightarrow> parcel \<times> field list" where
  "read_fields be [] p = (p, [])"
| "read_fields be (f # fs) p =
     (case read_field be f p of (p1, v, n) \<Rightarrow> case read_fields be fs p1 of (p2, vs) \<Rightarrow> (p2, v # vs))"

primrec fields_end :: "nat \<Rightarrow> field list \<Rightarrow> nat" where
  "fields_end pos [] = pos"
| "fields_end pos (f # fs) = fields_end (field_end pos f) fs"

lemma write_fields_append: "write_fields be (fs @ gs) p = write_fields be gs (write_fields be fs p)"
  by (induction fs arbitrary: p) auto

lemma write_fields_keeps:
  assumes "parcel_wf p"
  shows "parcel_wf (write_fields be fs p)" "length (p_buf (write_fields be fs p)) = length (p_buf p)"
    "take (p_parcelLen p) (p_buf (write_fields be fs p)) = take (p_parcelLen p) (p_buf p)"
    "p_parcelLen p \<le> p_parcelLen (write_fields be fs p)" "p_totalLen (write_fields be fs p) = p_totalLen p"
    "p_isError p \<longrightarrow> p_isError (write_fields be fs p)"
proof -
  have "parcel_wf (write_fields be fs p) \<and> length (p_buf (write_fields be fs p)) = length (p_buf p) \<and>
    take (p_parcelLen p) (p_buf (write_fields be fs p)) = take (p_parcelLen p) (p_buf p) \<and>
    p_parcelLen p \<le> p_parcelLen (write_fields be fs p) \<and> p_totalLen (write_fields be fs p) = p_totalLen p \<and>
    (p_isError p \<longrightarrow> p_isError (write_fields be fs p))"
    using assms
  proof (induction fs arbitrary: p)
    case (Cons f fs)
    let ?p1 = "fst (write_field be f p)" and ?p2 = "write_fields be (f # fs) p"
    note k = write_field_keeps[OF Cons.prems, of be f] and ih = Cons.IH[OF write_field_keeps(1)[OF Cons.prems], of be f]
    have "take (p_parcelLen p) (p_buf ?p2) = take (p_parcelLen p) (take (p_parcelLen ?p1) (p_buf ?p2))"
      using k(4) by (simp add: min_absorb1)
    also have "\<dots> = take (p_parcelLen p) (p_buf p)" using ih k(3,4) by (simp add: min_absorb1)
    finally show ?case using ih k(2,4,5) write_field_sticky[OF Cons.prems] by auto
  qed simp
  then show "parcel_wf (write_fields be fs p)" "length (p_buf (write_fields be fs p)) = length (p_buf p)"
    "take (p_parcelLen p) (p_buf (write_fields be fs p)) = take (p_parcelLen p) (p_buf p)"
    "p_parcelLen p \<le> p_parcelLen (write_fields be fs p)" "p_totalLen (write_fields be fs p) = p_totalLen p"
    "p_isError p \<longrightarrow> p_isError (write_fields be fs p)" by blast+
qed

lemma field_end_ge: "pos \<le> field_end pos f"
  by (cases f) (simp_all add: BYTE_8_ALIGN_ge)

lemma fields_end_ge: "pos \<le> fields_end pos fs"
  by (induction fs arbitrary: pos) (auto intro: order_trans[OF field_end_ge])

lemma write_fields_ok:
  assumes "parcel_wf p" "\<not> p_isError p" "list_all field_legal fs" "fields_end (p_parcelLen p) fs \<le> p_totalLen p"
  shows "\<not> p_isError (write_fields be fs p) \<and> p_parcelLen (write_fields be fs p) = fields_end (p_parcelLen p) fs"
  using assms
proof (induction fs arbitrary: p)
  case (Cons f fs)
  have "field_end (p_parcelLen p) f \<le> p_totalLen p"
    using Cons.prems(4) fields_end_ge[of "field_end (p_parcelLen p) f" fs] by simp
  then have "\<not> p_isError (fst (write_field be f p)) \<and> p_parcelLen (fst (write_field be f p)) = field_end (p_parcelLen p) f"
    using Cons.prems by (intro write_field_ok) auto
  then show ?case using Cons.prems Cons.IH[of "fst (write_field be f p)"] by (simp add: write_field_keeps)
qed simp

lemma read_fields_written:
  assumes "parcel_wf p" "\<not> p_isError (write_fields be fs p)"
    and "parcel_wf q" "\<not> p_isError q" "p_parcelLen q = p_parcelLen p" "p_totalLen q = p_totalLen p"
    and "take (p_parcelLen (write_fields be fs p)) (p_buf q) =
      take (p_parcelLen (write_fields be fs p)) (p_buf (write_fields be fs p))"
  shows "read_fields be' (map blank fs) q = (shift (p_parcelLen (write_fields be fs p) - p_parcelLen p) q, fs)"
  using assms
proof (induction fs arbitrary: p q)
  case (Cons f fs)
  let ?p1 = "fst (write_field be f p)" and ?p2 = "write_fields be (f # fs) p"
  note k = write_field_keeps[OF Cons.prems(1), of be f] 
  note k2 = write_fields_keeps[OF k(1), of be fs]
  have e1: "\<not> p_isError ?p1" using Cons.prems(2) k2(6) by auto
  have "take (p_parcelLen ?p1) (p_buf q) = take (p_parcelLen ?p1) (take (p_parcelLen ?p2) (p_buf q))"
    using k2(4) by (simp add: min_absorb1)
  also have "\<dots> = take (p_parcelLen ?p1) (p_buf ?p1)" unfolding Cons.prems(7) using k2(3,4) by (simp add: min_absorb1)
  finally obtain n where r: "read_field be' (blank f) q = (shift (p_parcelLen ?p1 - p_parcelLen p) q, f, n)"
    using read_field_written[OF Cons.prems(1) e1 Cons.prems(3-6)] by blast
  let ?q1 = "shift (p_parcelLen ?p1 - p_parcelLen p) q"
  have "read_fields be' (map blank fs) ?q1 = (shift (p_parcelLen (write_fields be fs ?p1) - p_parcelLen ?p1) ?q1, fs)"
    using Cons.prems k by (intro Cons.IH) simp_all
  moreover have "shift (p_parcelLen (write_fields be fs ?p1) - p_parcelLen ?p1) ?q1 = shift (p_parcelLen ?p2 - p_parcelLen p) q"
    using k(4) k2(4) by (simp add: shift_def)
  ultimately show ?case using r by simp
qed simp

lemma read_field_safe:
  assumes "parcel_wf q"
  shows "parcel_wf (fst (read_field be f q)) \<and> p_buf (fst (read_field be f q)) = p_buf q \<and>
    p_totalLen (fst (read_field be f q)) = p_totalLen q"
proof -
  note safe = read_safely_wf[OF _ assms]
  show ?thesis
    by (cases f) (simp_all add: case_prod_unfold EightByteAlign_eq assms safe[OF boolean.read_safe[OF assms]]
      safe[OF uint8.read_safe[OF assms]] safe[OF int32.read_safe[OF assms]] safe[OF uint32.read_safe[OF assms]]
      safe[OF int64.read_safe[OF assms]] safe[OF uint64.read_safe[OF assms]] safe[OF str.read_safe[OF assms]]
      safe[OF vec8.read_safe[OF assms]] safe[OF vec64.read_safe[OF assms]])
qed

lemma read_fields_safe:
  assumes "parcel_wf q"
  shows "parcel_wf (fst (read_fields be fs q)) \<and> p_buf (fst (read_fields be fs q)) = p_buf q"
  using assms
proof (induction fs arbitrary: q)
  case (Cons f fs)
  show ?case using Cons.IH[of "fst (read_field be f q)"] read_field_safe[OF Cons.prems, of be f]
    by (simp add: case_prod_unfold)
qed simp

lemma WriteBlob_wf: "parcel_wf p \<Longrightarrow> parcel_wf (fst (WriteBlob buffer p))"
  by (auto simp: WriteBlob_def parcel_defs parcel_wf_def Let_def split: option.split)

lemma ReadBlob_wf: "parcel_wf p \<Longrightarrow> parcel_wf (fst (ReadBlob buffer p))"
  by (auto simp: ReadBlob_def parcel_defs parcel_wf_def Let_def split: option.split)

lemma read_fields_Cons:
  "read_fields be (f # fs) p = (p', v # vs) \<longleftrightarrow> (\<exists>p1 n. read_field be f p = (p1, v, n) \<and> read_fields be fs p1 = (p', vs))"
  by (auto split: prod.splits)

lemma fields_roundtrip:
  assumes "list_all field_legal fs" "fields_end 0 fs \<le> length buf" "0 < length buf" "length buf < 4294967296"
  shows "\<not> IsError (write_fields be fs (Parcel_init buf (length buf))) \<and>
    read_fields be' (map blank fs)
      (Parcel_init (p_buf (write_fields be fs (Parcel_init buf (length buf)))) (length buf)) =
    (write_fields be fs (Parcel_init buf (length buf)), fs)"
proof -
  let ?p = "Parcel_init buf (length buf)" and ?p' = "write_fields be fs (Parcel_init buf (length buf))"
  let ?q = "Parcel_init (p_buf ?p') (length buf)"
  have wf: "parcel_wf ?p" using assms by (simp add: Parcel_init_wf)
  have p: "\<not> p_isError ?p" "p_parcelLen ?p = 0" "p_bufPtr ?p = 0" "p_totalLen ?p = length buf" "p_buf ?p = buf" "\<not> p_wild ?p"
    using assms by (auto simp: Parcel_init_def)
  have ok: "\<not> p_isError ?p'" "p_parcelLen ?p' = fields_end 0 fs" using write_fields_ok[OF wf p(1) assms(1), of be] p assms by simp_all
  note k = write_fields_keeps[OF wf, of be fs]
  have q: "parcel_wf ?q" "\<not> p_isError ?q" "p_parcelLen ?q = p_parcelLen ?p" "p_totalLen ?q = p_totalLen ?p" "p_buf ?q = p_buf ?p'"
    using k(2) p assms(3,4) by (auto simp: parcel_wf_def Parcel_init_def)
  have "read_fields be' (map blank fs) ?q = (shift (p_parcelLen ?p' - p_parcelLen ?p) ?q, fs)"
    using q by (intro read_fields_written[OF wf ok(1)]) simp_all
  moreover have "shift (p_parcelLen ?p' - p_parcelLen ?p) ?q = ?p'"
    using ok q k(1,5) p wf by (intro parcel.equality) (auto simp: parcel_wf_def)
  ultimately show ?thesis using ok by (simp add: IsError_def)
qed

section \<open>Properties\<close>

text \<open>C6. Values that fit into the buffer are written without an error, and a reader on any host gets exactly these
  values back and stops at the same place.\<close>

theorem parcel_roundtrip:
  assumes "list_all field_legal fs" "fields_end 0 fs \<le> length buf" "0 < length buf" "length buf < 4294967296"
  shows "\<not> IsError (write_fields be fs (Parcel_init buf (length buf))) \<and>
    read_fields be' (map blank fs)
      (Parcel_init (p_buf (write_fields be fs (Parcel_init buf (length buf)))) (length buf)) =
    (write_fields be fs (Parcel_init buf (length buf)), fs)"
  using assms by (rule fields_roundtrip)

text \<open>C13. Whatever bytes a packet holds and whatever is read from it or written to it, no access leaves the buffer: the
  pointer stays where the count of consumed bytes says, and the invariant of a parcel is kept by every operation.\<close>

theorem parcel_stays_in_buffer:
  assumes "wrap32 len \<le> length inBuf"
  shows "parcel_wf (fst (read_fields be requests (Parcel_init inBuf len))) \<and>
    parcel_wf (write_fields be values (Parcel_init inBuf len)) \<and>
    (parcel_wf p \<longrightarrow> parcel_wf (fst (ReadBlob out p)) \<and> parcel_wf (fst (WriteBlob src p)) \<and> parcel_wf (EightByteAlign p))"
  using Parcel_init_wf[OF assms] read_fields_safe write_fields_keeps(1) ReadBlob_wf WriteBlob_wf
  by (simp add: EightByteAlign_eq)

theorem parcel_roundtrip_witness:
  "snd (read_fields True (map blank [FU32 103, FAlign, FU64 7, FString [104, 105], FVec64 [1, 2], FBool True])
      (Parcel_init (p_buf (write_fields False [FU32 103, FAlign, FU64 7, FString [104, 105], FVec64 [1, 2], FBool True]
         (Parcel_init (replicate 64 0) 64))) 64)) =
   [FU32 103, FAlign, FU64 7, FString [104, 105], FVec64 [1, 2], FBool True]"
proof -
  let ?fs = "[FU32 103, FAlign, FU64 7, FString [104, 105], FVec64 [1, 2], FBool True]"
  have "list_all field_legal ?fs" "fields_end 0 ?fs \<le> length (replicate 64 (0 :: byte))"
    by (simp_all add: string_legal_def vector_legal_def INT32_MAX_def string_step_def vector_step_def BYTE_8_ALIGN_def)
  from parcel_roundtrip[OF this, of False True] show ?thesis by (simp del: read_fields.simps write_fields.simps)
qed

theorem parcel_stays_in_buffer_witness:
  "parcel_wf (fst (read_fields False [FU32 0, FString [], FVec64 []] (Parcel_init [0, 0, 0, 9, 255, 255, 255, 255] 8)))"
  using parcel_stays_in_buffer[of 8 "[0, 0, 0, 9, 255, 255, 255, 255]" False] by (simp del: read_fields.simps)

end
