(* ===== verification/Water_Mark.thy ===== *)
theory Water_Mark
  imports Meta_Store Parcel Software_Version "HOL-Library.Multiset"
begin

text \<open>
  \<^verbatim>\<open>syncer/src/query_sync_water_mark_helper.cpp\<close>: the water marks of query and of delete syncs, kept in the
  metadata table of the store behind a cache of the 200 most recently used ones. A water mark says how far
  the exchange with a device has come; losing one costs a full sync, a wrong one loses data.
\<close>

type_synonym DeviceID = "byte list"

section \<open>The records\<close>

record QueryWaterMark =
  qw_version :: u32
  qw_sendWaterMark :: u64
  qw_recvWaterMark :: u64
  qw_lastUsedTime :: u64
  qw_sql :: "byte list"
  qw_lastQueryTime :: u64

definition QueryWaterMark_init :: QueryWaterMark where
  "QueryWaterMark_init = \<lparr>qw_version = 0, qw_sendWaterMark = 0, qw_recvWaterMark = 0, qw_lastUsedTime = 0, qw_sql = [],
     qw_lastQueryTime = 0\<rparr>"

record DeleteWaterMark =
  dw_version :: u32
  dw_sendWaterMark :: u64
  dw_recvWaterMark :: u64

definition DeleteWaterMark_init :: DeleteWaterMark where
  "DeleteWaterMark_init = \<lparr>dw_version = 0, dw_sendWaterMark = 0, dw_recvWaterMark = 0\<rparr>"

definition MAX_CACHE_ITEMS :: nat where "MAX_CACHE_ITEMS = 200"
definition MAX_STORE_ITEMS :: nat where "MAX_STORE_ITEMS = 100000"
definition QUERY_WATERMARK_VERSION_CURRENT :: u32 where "QUERY_WATERMARK_VERSION_CURRENT = SOFTWARE_VERSION_RELEASE_6_0"
definition DELETE_WATERMARK_VERSION_CURRENT :: u32 where "DELETE_WATERMARK_VERSION_CURRENT = 103"

definition QUERY_SYNC_PREFIX_KEY :: "byte list" where "QUERY_SYNC_PREFIX_KEY = map of_char ''querySync''"
definition DELETE_SYNC_PREFIX_KEY :: "byte list" where "DELETE_SYNC_PREFIX_KEY = map of_char ''deleteSync''"

section \<open>The cache\<close>

record LruMap =
  lru_cache :: "byte list \<rightharpoonup> QueryWaterMark"
  lru_chain :: "(byte list \<times> QueryWaterMark) list"

definition LruMap_init :: LruMap where "LruMap_init = \<lparr>lru_cache = Map.empty, lru_chain = []\<rparr>"

fun erase_first :: "byte list \<Rightarrow> (byte list \<times> 'a) list \<Rightarrow> (byte list \<times> 'a) list" where
  "erase_first k [] = []"
| "erase_first k ((k', v) # chain) = (if k' = k then chain else (k', v) # erase_first k chain)"

fun pop_excess ::
    "(byte list \<times> QueryWaterMark) list \<Rightarrow> (byte list \<rightharpoonup> QueryWaterMark) \<Rightarrow>
     (byte list \<times> QueryWaterMark) list \<times> (byte list \<rightharpoonup> QueryWaterMark)" where
  "pop_excess [] cache = ([], cache)"
| "pop_excess ((k, v) # chain) cache =
     (if Suc (length chain) > MAX_CACHE_ITEMS then pop_excess chain (cache(k := None)) else ((k, v) # chain, cache))"

definition Elimination :: "byte list \<Rightarrow> QueryWaterMark \<Rightarrow> LruMap \<Rightarrow> LruMap" where
  "Elimination key q m =
     (case pop_excess (erase_first key (lru_chain m) @ [(key, q)]) (lru_cache m) of
        (chain, cache) \<Rightarrow> \<lparr>lru_cache = cache, lru_chain = chain\<rparr>)"

definition LruMap_Put :: "byte list \<Rightarrow> QueryWaterMark \<Rightarrow> LruMap \<Rightarrow> LruMap" where
  "LruMap_Put key q m = Elimination key q (m\<lparr>lru_cache := (lru_cache m)(key \<mapsto> q)\<rparr>)"

definition LruMap_Get :: "byte list \<Rightarrow> LruMap \<Rightarrow> LruMap \<times> QueryWaterMark res" where
  "LruMap_Get key m =
     (case lru_cache m key of None \<Rightarrow> (m, Inl E_NOT_FOUND) | Some q \<Rightarrow> (Elimination key q m, Inr q))"

definition has_prefix :: "byte list \<Rightarrow> byte list \<Rightarrow> bool" where
  "has_prefix prefixKey key \<longleftrightarrow> take (length prefixKey) key = prefixKey"

definition RemoveWithPrefixKey :: "byte list \<Rightarrow> LruMap \<Rightarrow> LruMap" where
  "RemoveWithPrefixKey prefixKey m =
     \<lparr>lru_cache = (\<lambda>k. if has_prefix prefixKey k \<and> k \<in> set (map fst (lru_chain m)) then None else lru_cache m k),
      lru_chain = filter (\<lambda>(k, q). \<not> has_prefix prefixKey k) (lru_chain m)\<rparr>"

section \<open>Encoding\<close>

definition CalculateQueryWaterMarkSize :: "QueryWaterMark \<Rightarrow> nat" where
  "CalculateQueryWaterMarkSize q =
     GetEightByteAlign GetUInt32Len + GetUInt64Len + GetUInt64Len + GetUInt64Len + GetStringLen (qw_sql q) + GetUInt64Len"

definition SerializeQueryWaterMark :: "bool \<Rightarrow> QueryWaterMark \<Rightarrow> Value res" where
  "SerializeQueryWaterMark be q =
     (let n = CalculateQueryWaterMarkSize q;
          p = Parcel_init (replicate n 0) n;
          p = fst (WriteUInt32 be (qw_version q) p);
          p = EightByteAlign p;
          p = fst (WriteUInt64 be (qw_sendWaterMark q) p);
          p = fst (WriteUInt64 be (qw_recvWaterMark q) p);
          p = fst (WriteUInt64 be (qw_lastUsedTime q) p);
          p = fst (WriteString be (qw_sql q) p);
          p = fst (WriteUInt64 be (qw_lastQueryTime q) p)
      in if IsError p then Inl E_PARSE_FAIL else Inr (p_buf p))"

definition DeSerializeQueryWaterMark :: "bool \<Rightarrow> Value \<Rightarrow> QueryWaterMark \<Rightarrow> QueryWaterMark res" where
  "DeSerializeQueryWaterMark be dbQueryWaterMark q =
     (case ReadUInt32 be (qw_version q) (Parcel_init dbQueryWaterMark (length dbQueryWaterMark)) of (p, version, _) \<Rightarrow>
      case ReadUInt64 be (qw_sendWaterMark q) (EightByteAlign p) of (p, send, _) \<Rightarrow>
      case ReadUInt64 be (qw_recvWaterMark q) p of (p, recv, _) \<Rightarrow>
      case ReadUInt64 be (qw_lastUsedTime q) p of (p, used, _) \<Rightarrow>
      case ReadString be (qw_sql q) p of (p, sql, _) \<Rightarrow>
      case (if version \<ge> SOFTWARE_VERSION_RELEASE_6_0 then ReadUInt64 be (qw_lastQueryTime q) p
            else (p, qw_lastQueryTime q, 0)) of (p, queried, _) \<Rightarrow>
      if IsError p then Inl E_PARSE_FAIL
      else Inr \<lparr>qw_version = version, qw_sendWaterMark = send, qw_recvWaterMark = recv, qw_lastUsedTime = used,
             qw_sql = sql, qw_lastQueryTime = queried\<rparr>)"

definition CalculateDeleteWaterMarkSize :: nat where
  "CalculateDeleteWaterMarkSize = GetEightByteAlign GetUInt32Len + GetUInt64Len + GetUInt64Len"

definition SerializeDeleteWaterMark :: "bool \<Rightarrow> DeleteWaterMark \<Rightarrow> Value res" where
  "SerializeDeleteWaterMark be d =
     (let n = CalculateDeleteWaterMarkSize;
          p = Parcel_init (replicate n 0) n;
          p = fst (WriteUInt32 be (dw_version d) p);
          p = EightByteAlign p;
          p = fst (WriteUInt64 be (dw_sendWaterMark d) p);
          p = fst (WriteUInt64 be (dw_recvWaterMark d) p)
      in if IsError p then Inl E_PARSE_FAIL else Inr (p_buf p))"

definition DeSerializeDeleteWaterMark :: "bool \<Rightarrow> Value \<Rightarrow> DeleteWaterMark \<Rightarrow> DeleteWaterMark res" where
  "DeSerializeDeleteWaterMark be inValue d =
     (case ReadUInt32 be (dw_version d) (Parcel_init inValue (length inValue)) of (p, version, _) \<Rightarrow>
      case ReadUInt64 be (dw_sendWaterMark d) (EightByteAlign p) of (p, send, _) \<Rightarrow>
      case ReadUInt64 be (dw_recvWaterMark d) p of (p, recv, _) \<Rightarrow>
      if IsError p then Inl E_PARSE_FAIL
      else Inr \<lparr>dw_version = version, dw_sendWaterMark = send, dw_recvWaterMark = recv\<rparr>)"

section \<open>Query water marks\<close>

text \<open>
  The state of the helper. The calls an operation makes to the store and to the clock are numbered: 0 for
  those that fetch a mark, 1 for those that save the changed one.
\<close>

record WaterMarkHelper =
  wm_querySyncIds :: "DeviceID \<times> DeviceID \<rightharpoonup> DeviceID"
  wm_querySyncCache :: LruMap
  wm_deleteSyncIds :: "DeviceID \<rightharpoonup> DeviceID"
  wm_deleteSyncCache :: "DeviceID \<rightharpoonup> DeleteWaterMark"

definition WaterMarkHelper_init :: WaterMarkHelper where
  "WaterMarkHelper_init = \<lparr>wm_querySyncIds = Map.empty, wm_querySyncCache = LruMap_init, wm_deleteSyncIds = Map.empty,
     wm_deleteSyncCache = Map.empty\<rparr>"

type_synonym wm_state = "WaterMarkHelper \<times> meta_table"

record wm_env =
  we_store :: "nat \<Rightarrow> meta_env"
  we_clock :: "nat \<Rightarrow> u64 res"

definition GetHashQuerySyncDeviceId ::
    "(byte list \<Rightarrow> byte list option) \<Rightarrow> DeviceID \<Rightarrow> DeviceID \<Rightarrow> WaterMarkHelper \<Rightarrow> WaterMarkHelper \<times> DeviceID" where
  "GetHashQuerySyncDeviceId sha deviceId queryId h =
     (case wm_querySyncIds h (deviceId, queryId) of
        Some i \<Rightarrow> (h, i)
      | None \<Rightarrow>
          let i = QUERY_SYNC_PREFIX_KEY @ TransferHashString sha deviceId @ queryId
          in (h\<lparr>wm_querySyncIds := (wm_querySyncIds h)((deviceId, queryId) \<mapsto> i)\<rparr>, i))"

definition SaveQueryWaterMarkToDB :: "bool \<Rightarrow> meta_env \<Rightarrow> DeviceID \<Rightarrow> QueryWaterMark \<Rightarrow> meta_table \<Rightarrow> meta_table \<times> errno" where
  "SaveQueryWaterMarkToDB be env dbKey q tab =
     (case SerializeQueryWaterMark be q of Inl e \<Rightarrow> (tab, e) | Inr dbValue \<Rightarrow> PutMetaData env tab dbKey dbValue)"

definition GetQueryWaterMarkFromDB ::
    "bool \<Rightarrow> meta_env \<Rightarrow> DeviceID \<Rightarrow> QueryWaterMark \<Rightarrow> meta_table \<Rightarrow> QueryWaterMark res" where
  "GetQueryWaterMarkFromDB be env dbKey q tab =
     (case GetMetaData env tab dbKey of Inl e \<Rightarrow> Inl e | Inr dbValue \<Rightarrow> DeSerializeQueryWaterMark be dbValue q)"

definition PutQueryWaterMarkToDB ::
    "bool \<Rightarrow> meta_env \<Rightarrow> u64 res \<Rightarrow> DeviceID \<Rightarrow> QueryWaterMark \<Rightarrow> meta_table \<Rightarrow> meta_table \<times> QueryWaterMark \<times> errno" where
  "PutQueryWaterMarkToDB be env clock dbKey q tab =
     (case clock of
        Inl e \<Rightarrow> (tab, q, e)
      | Inr now \<Rightarrow>
          let q1 = q\<lparr>qw_lastUsedTime := now, qw_version := QUERY_WATERMARK_VERSION_CURRENT\<rparr>
          in case SaveQueryWaterMarkToDB be env dbKey q1 tab of (tab1, e) \<Rightarrow> (tab1, q1, e))"

definition cache_put :: "DeviceID \<Rightarrow> QueryWaterMark \<Rightarrow> WaterMarkHelper \<Rightarrow> WaterMarkHelper" where
  "cache_put k q h = h\<lparr>wm_querySyncCache := LruMap_Put k q (wm_querySyncCache h)\<rparr>"

definition GetQueryWaterMarkInCacheAndDb ::
    "bool \<Rightarrow> wm_env \<Rightarrow> DeviceID \<Rightarrow> wm_state \<Rightarrow> wm_state \<times> QueryWaterMark res" where
  "GetQueryWaterMarkInCacheAndDb be env cacheKey s =
     (case s of (h, tab) \<Rightarrow>
      case LruMap_Get cacheKey (wm_querySyncCache h) of
        (cache, Inr q) \<Rightarrow> ((h\<lparr>wm_querySyncCache := cache\<rparr>, tab), Inr q)
      | (cache, Inl _) \<Rightarrow>
          (case GetQueryWaterMarkFromDB be (we_store env 0) cacheKey QueryWaterMark_init tab of
             Inr q \<Rightarrow> ((cache_put cacheKey q h, tab), Inr q)
           | Inl e \<Rightarrow>
               if e \<noteq> E_NOT_FOUND then (s, Inl e)
               else case PutQueryWaterMarkToDB be (we_store env 0) (we_clock env 0) cacheKey QueryWaterMark_init tab of
                 (tab1, q, e1) \<Rightarrow>
                   if e1 \<noteq> E_OK then ((h, tab1), Inl e1) else ((cache_put cacheKey q h, tab1), Inr q)))"

definition UpdateCacheAndSave ::
    "bool \<Rightarrow> wm_env \<Rightarrow> DeviceID \<Rightarrow> QueryWaterMark \<Rightarrow> wm_state \<Rightarrow> wm_state \<times> errno" where
  "UpdateCacheAndSave be env cacheKey q s =
     (case s of (h, tab) \<Rightarrow>
      case we_clock env 1 of
        Inl e \<Rightarrow> (s, e)
      | Inr now \<Rightarrow>
          let q1 = q\<lparr>qw_lastUsedTime := now\<rparr>
          in case SaveQueryWaterMarkToDB be (we_store env 1) cacheKey q1 tab of (tab1, e) \<Rightarrow>
               if e \<noteq> E_OK then ((h, tab1), e) else ((cache_put cacheKey q1 h, tab1), E_OK))"

text \<open>What the three setters have in common: fetch the mark, change it, save it.\<close>

definition modify_query_mark ::
    "(byte list \<Rightarrow> byte list option) \<Rightarrow> bool \<Rightarrow> wm_env \<Rightarrow> (QueryWaterMark \<Rightarrow> QueryWaterMark) \<Rightarrow> DeviceID \<Rightarrow> DeviceID \<Rightarrow>
     wm_state \<Rightarrow> wm_state \<times> errno" where
  "modify_query_mark sha be env change queryIdentify deviceId s =
     (case GetHashQuerySyncDeviceId sha deviceId queryIdentify (fst s) of (h, cacheKey) \<Rightarrow>
      case GetQueryWaterMarkInCacheAndDb be env cacheKey (h, snd s) of
        (s1, Inl e) \<Rightarrow> (s1, e)
      | (s1, Inr q) \<Rightarrow> UpdateCacheAndSave be env cacheKey (change q) s1)"

definition SetSendQueryWaterMark ::
    "(byte list \<Rightarrow> byte list option) \<Rightarrow> bool \<Rightarrow> wm_env \<Rightarrow> DeviceID \<Rightarrow> DeviceID \<Rightarrow> u64 \<Rightarrow> wm_state \<Rightarrow> wm_state \<times> errno" where
  "SetSendQueryWaterMark sha be env queryIdentify deviceId waterMark =
     modify_query_mark sha be env (\<lambda>q. q\<lparr>qw_sendWaterMark := waterMark\<rparr>) queryIdentify deviceId"

definition SetRecvQueryWaterMark ::
    "(byte list \<Rightarrow> byte list option) \<Rightarrow> bool \<Rightarrow> wm_env \<Rightarrow> DeviceID \<Rightarrow> DeviceID \<Rightarrow> u64 \<Rightarrow> wm_state \<Rightarrow> wm_state \<times> errno" where
  "SetRecvQueryWaterMark sha be env queryIdentify deviceId waterMark =
     modify_query_mark sha be env (\<lambda>q. q\<lparr>qw_recvWaterMark := waterMark\<rparr>) queryIdentify deviceId"

definition SetLastQueryTime ::
    "(byte list \<Rightarrow> byte list option) \<Rightarrow> bool \<Rightarrow> wm_env \<Rightarrow> DeviceID \<Rightarrow> DeviceID \<Rightarrow> u64 \<Rightarrow> wm_state \<Rightarrow> wm_state \<times> errno" where
  "SetLastQueryTime sha be env queryIdentify deviceId timestamp =
     modify_query_mark sha be env (\<lambda>q. q\<lparr>qw_lastQueryTime := timestamp\<rparr>) queryIdentify deviceId"

definition GetQueryWaterMark ::
    "(byte list \<Rightarrow> byte list option) \<Rightarrow> bool \<Rightarrow> wm_env \<Rightarrow> DeviceID \<Rightarrow> DeviceID \<Rightarrow> wm_state \<Rightarrow> wm_state \<times> QueryWaterMark res" where
  "GetQueryWaterMark sha be env queryIdentify deviceId s =
     (case GetHashQuerySyncDeviceId sha deviceId queryIdentify (fst s) of (h, cacheKey) \<Rightarrow>
        GetQueryWaterMarkInCacheAndDb be env cacheKey (h, snd s))"

definition HEX_CHAR_MAP :: "byte list" where "HEX_CHAR_MAP = map of_char ''0123456789abcdef''"

definition TransferStringToHex :: "byte list \<Rightarrow> byte list" where
  "TransferStringToHex origStr =
     concat (map (\<lambda>b. [HEX_CHAR_MAP ! unat (drop_bit 4 b), HEX_CHAR_MAP ! unat (b AND 0x0F)]) origStr)"

definition ResetRecvQueryWaterMark ::
    "(byte list \<Rightarrow> byte list option) \<Rightarrow> meta_env \<Rightarrow> DeviceID \<Rightarrow> byte list \<Rightarrow> wm_state \<Rightarrow> wm_state \<times> errno" where
  "ResetRecvQueryWaterMark sha env deviceId tableName s =
     (case s of (h, tab) \<Rightarrow>
      let prefixKey = QUERY_SYNC_PREFIX_KEY @ TransferHashString sha deviceId @
            (if tableName = [] then [] else TransferStringToHex (TransferHashString sha tableName))
      in case DeleteMetaDataByPrefixKey env tab prefixKey of (tab1, e) \<Rightarrow>
           if e \<noteq> E_OK then ((h, tab1), e)
           else ((h\<lparr>wm_querySyncCache := RemoveWithPrefixKey prefixKey (wm_querySyncCache h)\<rparr>, tab1), E_OK))"

text \<open>
  \<^verbatim>\<open>RemoveLeastUsedQuerySyncItems\<close>. \<open>select k\<close> stands for \<^verbatim>\<open>std::nth_element\<close>, which leaves the \<open>k\<close> least recently
  used items in front, in an order of its own.
\<close>

fun classify_items ::
    "bool \<Rightarrow> meta_env \<Rightarrow> meta_table \<Rightarrow> Key list \<Rightarrow> (Key \<times> u64) list \<Rightarrow> Key list \<Rightarrow> (Key \<times> u64) list \<times> Key list" where
  "classify_items be env tab [] allItems waitToRemove = (allItems, waitToRemove)"
| "classify_items be env tab (i # ids) allItems waitToRemove =
     (case GetMetaData env tab i of
        Inl e \<Rightarrow> classify_items be env tab ids allItems (waitToRemove @ [i])
      | Inr value \<Rightarrow>
          (case DeSerializeQueryWaterMark be value QueryWaterMark_init of
             Inl e \<Rightarrow> classify_items be env tab ids allItems (waitToRemove @ [i])
           | Inr q \<Rightarrow> classify_items be env tab ids (allItems @ [(i, qw_lastUsedTime q)]) waitToRemove))"

definition RemoveLeastUsedQuerySyncItems ::
    "bool \<Rightarrow> (nat \<Rightarrow> (Key \<times> u64) list \<Rightarrow> (Key \<times> u64) list) \<Rightarrow> meta_env \<Rightarrow> Key list \<Rightarrow> meta_table \<Rightarrow> meta_table \<times> errno" where
  "RemoveLeastUsedQuerySyncItems be select env querySyncIds tab =
     (if length querySyncIds < MAX_STORE_ITEMS then (tab, E_OK)
      else case classify_items be env tab querySyncIds [] [] of (allItems, waitToRemove) \<Rightarrow>
        if length allItems < MAX_STORE_ITEMS + length waitToRemove then DeleteMetaData env tab waitToRemove
        else let removeCount = length allItems - MAX_STORE_ITEMS - length waitToRemove
             in DeleteMetaData env tab (waitToRemove @ map fst (take removeCount (select removeCount allItems))))"

section \<open>Delete water marks\<close>

definition GetHashDeleteSyncDeviceId ::
    "(byte list \<Rightarrow> byte list option) \<Rightarrow> DeviceID \<Rightarrow> WaterMarkHelper \<Rightarrow> WaterMarkHelper \<times> DeviceID" where
  "GetHashDeleteSyncDeviceId sha deviceId h =
     (case wm_deleteSyncIds h deviceId of
        Some i \<Rightarrow> (h, i)
      | None \<Rightarrow>
          let i = DELETE_SYNC_PREFIX_KEY @ TransferHashString sha deviceId
          in (h\<lparr>wm_deleteSyncIds := (wm_deleteSyncIds h)(deviceId \<mapsto> i)\<rparr>, i))"

definition GetDeleteWaterMarkFromDB :: "bool \<Rightarrow> meta_env \<Rightarrow> DeviceID \<Rightarrow> DeleteWaterMark \<Rightarrow> meta_table \<Rightarrow> DeleteWaterMark res" where
  "GetDeleteWaterMarkFromDB be env hashDeviceId d tab =
     (case GetMetaData env tab hashDeviceId of Inl e \<Rightarrow> Inl e | Inr dbValue \<Rightarrow> DeSerializeDeleteWaterMark be dbValue d)"

definition SaveDeleteWaterMarkToDB :: "bool \<Rightarrow> meta_env \<Rightarrow> DeviceID \<Rightarrow> DeleteWaterMark \<Rightarrow> meta_table \<Rightarrow> meta_table \<times> errno" where
  "SaveDeleteWaterMarkToDB be env hashDeviceId d tab =
     (case SerializeDeleteWaterMark be d of Inl e \<Rightarrow> (tab, e) | Inr dbValue \<Rightarrow> PutMetaData env tab hashDeviceId dbValue)"

text \<open>The last argument of the result is the caller's variable, which an error leaves as it was.\<close>

definition GetDeleteWaterMarkFromCache ::
    "bool \<Rightarrow> meta_env \<Rightarrow> DeviceID \<Rightarrow> DeleteWaterMark \<Rightarrow> wm_state \<Rightarrow> wm_state \<times> DeleteWaterMark \<times> errno" where
  "GetDeleteWaterMarkFromCache be env hashDeviceId d s =
     (case s of (h, tab) \<Rightarrow>
      case wm_deleteSyncCache h hashDeviceId of
        Some d1 \<Rightarrow> (s, d1, E_OK)
      | None \<Rightarrow>
          let fresh = DeleteWaterMark_init\<lparr>dw_version := DELETE_WATERMARK_VERSION_CURRENT\<rparr>;
              insert = (\<lambda>d1. ((h\<lparr>wm_deleteSyncCache := (wm_deleteSyncCache h)(hashDeviceId \<mapsto> d1)\<rparr>, tab), d1, E_OK))
          in case GetDeleteWaterMarkFromDB be env hashDeviceId fresh tab of
               Inl e \<Rightarrow> if e = E_NOT_FOUND then insert fresh else (s, d, e)
             | Inr d1 \<Rightarrow> insert d1)"

definition UpdateDeleteSyncCacheAndSave ::
    "bool \<Rightarrow> meta_env \<Rightarrow> DeviceID \<Rightarrow> DeleteWaterMark \<Rightarrow> wm_state \<Rightarrow> wm_state \<times> errno" where
  "UpdateDeleteSyncCacheAndSave be env dbKey d s =
     (case s of (h, tab) \<Rightarrow>
      case SaveDeleteWaterMarkToDB be env dbKey d tab of (tab1, e) \<Rightarrow>
        if e \<noteq> E_OK then ((h, tab1), e)
        else ((h\<lparr>wm_deleteSyncCache := (wm_deleteSyncCache h)(dbKey \<mapsto> d)\<rparr>, tab1), E_OK))"

definition modify_delete_mark ::
    "(byte list \<Rightarrow> byte list option) \<Rightarrow> bool \<Rightarrow> wm_env \<Rightarrow> (DeleteWaterMark \<Rightarrow> DeleteWaterMark) \<Rightarrow> DeviceID \<Rightarrow> wm_state \<Rightarrow>
     wm_state \<times> errno" where
  "modify_delete_mark sha be env change deviceId s =
     (case GetHashDeleteSyncDeviceId sha deviceId (fst s) of (h, hashId) \<Rightarrow>
      case GetDeleteWaterMarkFromCache be (we_store env 0) hashId DeleteWaterMark_init (h, snd s) of (s1, d, _) \<Rightarrow>
        UpdateDeleteSyncCacheAndSave be (we_store env 1) hashId (change d) s1)"

definition SetSendDeleteSyncWaterMark ::
    "(byte list \<Rightarrow> byte list option) \<Rightarrow> bool \<Rightarrow> wm_env \<Rightarrow> DeviceID \<Rightarrow> u64 \<Rightarrow> wm_state \<Rightarrow> wm_state \<times> errno" where
  "SetSendDeleteSyncWaterMark sha be env deviceId waterMark =
     modify_delete_mark sha be env (\<lambda>d. d\<lparr>dw_sendWaterMark := waterMark\<rparr>) deviceId"

definition SetRecvDeleteSyncWaterMark ::
    "(byte list \<Rightarrow> byte list option) \<Rightarrow> bool \<Rightarrow> wm_env \<Rightarrow> DeviceID \<Rightarrow> u64 \<Rightarrow> wm_state \<Rightarrow> wm_state \<times> errno" where
  "SetRecvDeleteSyncWaterMark sha be env deviceId waterMark =
     modify_delete_mark sha be env (\<lambda>d. d\<lparr>dw_recvWaterMark := waterMark\<rparr>) deviceId"

definition GetDeleteSyncWaterMark ::
    "(byte list \<Rightarrow> byte list option) \<Rightarrow> bool \<Rightarrow> wm_env \<Rightarrow> DeviceID \<Rightarrow> wm_state \<Rightarrow> wm_state \<times> DeleteWaterMark \<times> errno" where
  "GetDeleteSyncWaterMark sha be env deviceId s =
     (case GetHashDeleteSyncDeviceId sha deviceId (fst s) of (h, hashId) \<Rightarrow>
        GetDeleteWaterMarkFromCache be (we_store env 0) hashId DeleteWaterMark_init (h, snd s))"

definition LoadDeleteSyncDataToCache :: "bool \<Rightarrow> meta_env \<Rightarrow> Key \<Rightarrow> wm_state \<Rightarrow> wm_state \<times> errno" where
  "LoadDeleteSyncDataToCache be env deleteWaterMarkKey s =
     (case s of (h, tab) \<Rightarrow>
      case GetMetaData env tab deleteWaterMarkKey of
        Inl e \<Rightarrow> (s, e)
      | Inr value \<Rightarrow>
          (case DeSerializeDeleteWaterMark be value DeleteWaterMark_init of
             Inl e \<Rightarrow> (s, e)
           | Inr d \<Rightarrow> ((h\<lparr>wm_deleteSyncCache := (wm_deleteSyncCache h)(deleteWaterMarkKey \<mapsto> d)\<rparr>, tab), E_OK)))"

section \<open>Encoding and decoding\<close>

definition mark_encodable :: "QueryWaterMark \<Rightarrow> bool" where
  "mark_encodable q \<longleftrightarrow> BYTE_8_ALIGN (4 + length (qw_sql q)) \<le> INT32_MAX"

definition query_fields :: "QueryWaterMark \<Rightarrow> field list" where
  "query_fields q = [FU32 (qw_version q), FAlign, FU64 (qw_sendWaterMark q), FU64 (qw_recvWaterMark q),
     FU64 (qw_lastUsedTime q), FString (qw_sql q), FU64 (qw_lastQueryTime q)]"

lemma mark_encodable_legal: "mark_encodable q \<Longrightarrow> string_legal (qw_sql q)"
  using BYTE_8_ALIGN_ge[of "4 + length (qw_sql q)"] by (simp add: mark_encodable_def string_legal_def)

lemma query_size:
  assumes "mark_encodable q"
  shows "CalculateQueryWaterMarkSize q = fields_end 0 (query_fields q)" "CalculateQueryWaterMarkSize q < 4294967296"
proof -
  have "GetStringLen (qw_sql q) = string_step (qw_sql q)"
    using assms BYTE_8_ALIGN_ge[of "4 + length (qw_sql q)"]
    by (simp add: mark_encodable_def GetStringLen_def string_step_def INT32_MAX_def Let_def)
  then show "CalculateQueryWaterMarkSize q = fields_end 0 (query_fields q)" "CalculateQueryWaterMarkSize q < 4294967296"
    using assms by (simp_all add: CalculateQueryWaterMarkSize_def query_fields_def GetEightByteAlign_def GetUInt32Len_def
        GetUInt64Len_def BYTE_8_ALIGN_def mark_encodable_def string_step_def INT32_MAX_def)
qed

lemma Serialize_fields:
  "SerializeQueryWaterMark be q =
     (let n = CalculateQueryWaterMarkSize q; p = write_fields be (query_fields q) (Parcel_init (replicate n 0) n)
      in if IsError p then Inl E_PARSE_FAIL else Inr (p_buf p))"
  by (simp add: SerializeQueryWaterMark_def query_fields_def Let_def)

text \<open>A mark of the current format comes back as it was, an older one without the time of the last query.\<close>

definition readable :: "QueryWaterMark \<Rightarrow> QueryWaterMark" where
  "readable q = (if qw_version q \<ge> SOFTWARE_VERSION_RELEASE_6_0 then q else q\<lparr>qw_lastQueryTime := 0\<rparr>)"

lemma ReadUInt64_sticky: "ReadUInt64 be v p = (p', x, n) \<Longrightarrow> IsError p \<Longrightarrow> IsError p'"
  by (auto simp: ReadUInt64_def ReadInteger_def)

lemma blank_fields [simp]:
  "map blank (query_fields q) = [FU32 0, FAlign, FU64 0, FU64 0, FU64 0, FString [], FU64 0]"
  by (simp add: query_fields_def)

lemma DeSerialize_fields:
  assumes "read_fields be (map blank (query_fields q)) (Parcel_init bytes (length bytes)) = (p', query_fields q)" "\<not> IsError p'"
  shows "DeSerializeQueryWaterMark be bytes QueryWaterMark_init = Inr (readable q)"
proof -
  obtain p1 n1 p2 n2 p3 n3 p4 n4 p5 n5 n6 where
    "ReadUInt32 be 0 (Parcel_init bytes (length bytes)) = (p1, qw_version q, n1)"
    "ReadUInt64 be 0 (EightByteAlign p1) = (p2, qw_sendWaterMark q, n2)"
    "ReadUInt64 be 0 p2 = (p3, qw_recvWaterMark q, n3)"
    "ReadUInt64 be 0 p3 = (p4, qw_lastUsedTime q, n4)"
    "ReadString be [] p4 = (p5, qw_sql q, n5)"
    and l: "ReadUInt64 be 0 p5 = (p', qw_lastQueryTime q, n6)"
    using assms(1) unfolding blank_fields unfolding query_fields_def read_fields_Cons
    by (auto split: prod.splits)
  moreover have "\<not> IsError p5" using ReadUInt64_sticky[OF l] assms(2) by blast
  ultimately show ?thesis using assms(2) by (simp add: DeSerializeQueryWaterMark_def QueryWaterMark_init_def readable_def)
qed

lemma query_mark_encoding:
  assumes "mark_encodable q"
  shows "\<exists>bytes. SerializeQueryWaterMark be q = Inr bytes \<and> length bytes = CalculateQueryWaterMarkSize q \<and>
    DeSerializeQueryWaterMark be' bytes QueryWaterMark_init = Inr (readable q)"
proof -
  let ?n = "CalculateQueryWaterMarkSize q"
  let ?p' = "write_fields be (query_fields q) (Parcel_init (replicate ?n 0) ?n)"
  have n: "0 < ?n" "?n < 4294967296" "fields_end 0 (query_fields q) \<le> ?n"
    using query_size[OF assms] by (simp_all add: query_fields_def)
  have legal: "list_all field_legal (query_fields q)" using mark_encodable_legal[OF assms] by (simp add: query_fields_def)
  from fields_roundtrip[OF legal, of "replicate ?n 0" be be'] n
  have ok: "\<not> IsError ?p'" and
    r: "read_fields be' (map blank (query_fields q)) (Parcel_init (p_buf ?p') ?n) = (?p', query_fields q)"
    by (simp_all del: blank_fields)
  have len: "length (p_buf ?p') = ?n"
    using n(2) by (subst write_fields_keeps(2)) (simp_all add: Parcel_init_wf, simp add: Parcel_init_def)
  then have "DeSerializeQueryWaterMark be' (p_buf ?p') QueryWaterMark_init = Inr (readable q)"
    using r ok by (intro DeSerialize_fields) simp_all
  then show ?thesis using ok len by (simp add: Serialize_fields Let_def)
qed

lemma Serialize_encodable:
  assumes "SerializeQueryWaterMark be q = Inr bytes" shows "mark_encodable q"
proof (rule ccontr)
  assume n: "\<not> mark_encodable q"
  let ?n = "CalculateQueryWaterMarkSize q" and ?A = "take 5 (query_fields q)"
  have size: "?n = 40"
    using n by (simp add: CalculateQueryWaterMarkSize_def GetStringLen_def mark_encodable_def GetEightByteAlign_def
        GetUInt32Len_def GetUInt64Len_def BYTE_8_ALIGN_def Let_def)
  let ?p0 = "Parcel_init (replicate ?n 0) ?n" and ?p1 = "write_fields be ?A (Parcel_init (replicate ?n 0) ?n)"
  have wf0: "parcel_wf ?p0" by (simp add: Parcel_init_wf)
  note wf1 = write_fields_keeps(1)[OF wf0, of be ?A]
  have "p_totalLen ?p1 = 40" using write_fields_keeps(5)[OF wf0, of be ?A] by (simp add: Parcel_init_def size)
  then have "\<not> str.fits (qw_sql q) ?p1"
    using n by (simp add: str.fits_def mark_encodable_def string_step_def INT32_MAX_def)
  then have "p_isError (fst (write_field be (FString (qw_sql q)) ?p1))" using wf1 by (simp add: str.write_eq)
  then have "p_isError (fst (write_field be (FU64 (qw_lastQueryTime q)) (fst (write_field be (FString (qw_sql q)) ?p1))))"
    by (rule write_field_sticky[OF write_field_keeps(1)[OF wf1]])
  then have "IsError (write_fields be (query_fields q) ?p0)" by (simp add: query_fields_def IsError_def)
  then show False using assms by (simp add: Serialize_fields Let_def)
qed

lemma DeSerialize_Serialize:
  "SerializeQueryWaterMark be q = Inr bytes \<Longrightarrow> DeSerializeQueryWaterMark be bytes QueryWaterMark_init = Inr (readable q)"
  using query_mark_encoding[OF Serialize_encodable, of be q bytes be be] by auto

lemma DeSerialize_readable:
  "DeSerializeQueryWaterMark be bytes QueryWaterMark_init = Inr q \<Longrightarrow> readable q = q"
  by (auto simp: DeSerializeQueryWaterMark_def QueryWaterMark_init_def readable_def split: prod.splits if_splits)

section \<open>The cache is a bounded, most recently used part of the map\<close>

definition lru_wf :: "LruMap \<Rightarrow> bool" where
  "lru_wf m \<longleftrightarrow> distinct (map fst (lru_chain m)) \<and> lru_cache m = map_of (lru_chain m) \<and> length (lru_chain m) \<le> MAX_CACHE_ITEMS"

lemma erase_first_eq: "distinct (map fst chain) \<Longrightarrow> erase_first k chain = filter (\<lambda>p. fst p \<noteq> k) chain"
  by (induction k chain rule: erase_first.induct) (auto intro!: filter_True[symmetric])

lemma pop_excess_id: "length chain \<le> MAX_CACHE_ITEMS \<Longrightarrow> pop_excess chain cache = (chain, cache)"
  by (cases "(chain, cache)" rule: pop_excess.cases) auto

lemma pop_excess_eq:
  assumes "length chain \<le> Suc MAX_CACHE_ITEMS"
  shows "pop_excess chain cache =
     (if length chain > MAX_CACHE_ITEMS then (tl chain, cache(fst (hd chain) := None)) else (chain, cache))"
proof (cases chain)
  case (Cons p rest)
  then show ?thesis using assms by (cases p) (auto simp: pop_excess_id)
qed simp

lemma map_of_filter_fst: "map_of (filter (\<lambda>p. fst p \<noteq> k) xs) k' = (if k' = k then None else map_of xs k')"
  by (induction xs) auto

text \<open>Appending the most recent entry to a chain without its key.\<close>

lemma lru_append:
  assumes d: "distinct (map fst chain)" "k \<notin> fst ` set chain" and l: "length chain \<le> MAX_CACHE_ITEMS"
    and r: "pop_excess (chain @ [(k, q)]) ((map_of chain)(k \<mapsto> q)) = (chain', cache')"
  shows "lru_wf \<lparr>lru_cache = cache', lru_chain = chain'\<rparr>"
    "cache' = (if length chain = MAX_CACHE_ITEMS then (map_of chain)(fst (hd chain) := None, k \<mapsto> q) else (map_of chain)(k \<mapsto> q))"
proof -
  have m: "map_of (xs @ [(k, q)]) = (map_of xs)(k \<mapsto> q)" if "k \<notin> fst ` set xs" for xs
    using that by (induction xs) (auto simp: fun_upd_twist)
  show c: "cache' = (if length chain = MAX_CACHE_ITEMS then (map_of chain)(fst (hd chain) := None, k \<mapsto> q) else (map_of chain)(k \<mapsto> q))"
  proof (cases chain)
    case Nil
    then show ?thesis using r by (auto simp: pop_excess_eq MAX_CACHE_ITEMS_def)
  next
    case (Cons p rest)
    then show ?thesis using r l d by (auto simp: pop_excess_eq fun_upd_twist)
  qed
  show "lru_wf \<lparr>lru_cache = cache', lru_chain = chain'\<rparr>"
  proof (cases "length chain = MAX_CACHE_ITEMS")
    case True
    then obtain p rest where p: "chain = p # rest" by (cases chain) (auto simp: MAX_CACHE_ITEMS_def)
    then have "map_of rest (fst p) = None" using d by (simp add: map_of_eq_None_iff)
    then have "(map_of chain)(fst p := None) = map_of rest" using p by auto
    then show ?thesis using True p r l d m[of rest] c by (auto simp: pop_excess_eq lru_wf_def)
  next
    case False
    then show ?thesis using r l d m[of chain] by (auto simp: pop_excess_eq lru_wf_def)
  qed
qed

lemma LruMap_Put_spec:
  assumes "lru_wf m"
  shows "lru_wf (LruMap_Put k q m)"
    "lru_cache (LruMap_Put k q m) =
       (if lru_cache m k = None \<and> length (lru_chain m) = MAX_CACHE_ITEMS
        then (lru_cache m)(fst (hd (lru_chain m)) := None, k \<mapsto> q) else (lru_cache m)(k \<mapsto> q))"
proof -
  let ?c = "filter (\<lambda>p. fst p \<noteq> k) (lru_chain m)"
  obtain chain' cache' where r: "pop_excess (?c @ [(k, q)]) ((lru_cache m)(k \<mapsto> q)) = (chain', cache')"
    by (cases "pop_excess (?c @ [(k, q)]) ((lru_cache m)(k \<mapsto> q))")
  have put: "LruMap_Put k q m = \<lparr>lru_cache = cache', lru_chain = chain'\<rparr>"
    using assms r by (simp add: LruMap_Put_def Elimination_def erase_first_eq lru_wf_def)
  have "(lru_cache m)(k \<mapsto> q) = (map_of ?c)(k \<mapsto> q)" using assms by (auto simp: lru_wf_def map_of_filter_fst)
  then have a: "pop_excess (?c @ [(k, q)]) ((map_of ?c)(k \<mapsto> q)) = (chain', cache')" using r by simp
  have d: "distinct (map fst ?c)" "k \<notin> fst ` set ?c" "length ?c \<le> MAX_CACHE_ITEMS"
    using assms order_trans[OF length_filter_le, of "lru_chain m" MAX_CACHE_ITEMS] by (auto simp: lru_wf_def distinct_map_filter)
  show "lru_wf (LruMap_Put k q m)" unfolding put by (rule lru_append(1)[OF d a])
  show "lru_cache (LruMap_Put k q m) =
       (if lru_cache m k = None \<and> length (lru_chain m) = MAX_CACHE_ITEMS
        then (lru_cache m)(fst (hd (lru_chain m)) := None, k \<mapsto> q) else (lru_cache m)(k \<mapsto> q))"
  proof (cases "lru_cache m k")
    case None
    then have "\<forall>p \<in> set (lru_chain m). fst p \<noteq> k" using assms by (auto simp: lru_wf_def map_of_eq_None_iff)
    then have c: "?c = lru_chain m" by (rule filter_True)
    have "lru_cache m = map_of (lru_chain m)" using assms by (simp add: lru_wf_def)
    then show ?thesis using lru_append(2)[OF d a, unfolded c] None unfolding put by simp
  next
    case (Some q0)
    have m: "lru_cache m = map_of (lru_chain m)" "length (lru_chain m) \<le> MAX_CACHE_ITEMS" using assms by (auto simp: lru_wf_def)
    have "(k, q0) \<in> set (lru_chain m)" using Some unfolding m(1) by (rule map_of_SomeD)
    then have "length ?c < length (lru_chain m)" by (intro length_filter_less[of "(k, q0)"]) simp_all
    then have "length ?c \<noteq> MAX_CACHE_ITEMS" using m(2) by linarith
    then have "cache' = (map_of ?c)(k \<mapsto> q)" using lru_append(2)[OF d a] by (simp only: if_False)
    also have "\<dots> = (lru_cache m)(k \<mapsto> q)" unfolding m(1) by (rule ext) (simp add: map_of_filter_fst)
    finally show ?thesis unfolding put by (simp add: Some)
  qed
qed

lemma LruMap_Get_spec:
  assumes "lru_wf m"
  shows "lru_wf (fst (LruMap_Get k m))" "lru_cache (fst (LruMap_Get k m)) = lru_cache m"
    "snd (LruMap_Get k m) = (case lru_cache m k of None \<Rightarrow> Inl E_NOT_FOUND | Some q \<Rightarrow> Inr q)"
proof -
  have "Elimination k q m = LruMap_Put k q m" if "lru_cache m k = Some q" for q
    using that by (simp add: LruMap_Put_def fun_upd_idem)
  then show "lru_wf (fst (LruMap_Get k m))" "lru_cache (fst (LruMap_Get k m)) = lru_cache m"
    "snd (LruMap_Get k m) = (case lru_cache m k of None \<Rightarrow> Inl E_NOT_FOUND | Some q \<Rightarrow> Inr q)"
    using assms LruMap_Put_spec[OF assms, of k] by (auto simp: LruMap_Get_def fun_upd_idem split: option.split)
qed

lemma RemoveWithPrefixKey_spec:
  assumes "lru_wf m"
  shows "lru_wf (RemoveWithPrefixKey pre m)"
    "lru_cache (RemoveWithPrefixKey pre m) = (\<lambda>k. if has_prefix pre k then None else lru_cache m k)"
proof -
  have e: "lru_cache (RemoveWithPrefixKey pre m) = (\<lambda>k. if has_prefix pre k then None else map_of (lru_chain m) k)"
    using assms by (auto simp: RemoveWithPrefixKey_def lru_wf_def map_of_eq_None_iff fun_eq_iff)
  have "map_of (lru_chain (RemoveWithPrefixKey pre m)) = (\<lambda>k. if has_prefix pre k then None else map_of (lru_chain m) k)"
    by (simp add: RemoveWithPrefixKey_def fun_eq_iff map_of_filter_key)
  moreover have "length (lru_chain (RemoveWithPrefixKey pre m)) \<le> length (lru_chain m)" by (simp add: RemoveWithPrefixKey_def)
  ultimately show "lru_wf (RemoveWithPrefixKey pre m)"
    using assms e by (simp add: lru_wf_def) (simp add: RemoveWithPrefixKey_def distinct_map_filter)
  show "lru_cache (RemoveWithPrefixKey pre m) = (\<lambda>k. if has_prefix pre k then None else lru_cache m k)"
    using assms unfolding e by (auto simp: lru_wf_def)
qed

subsection \<open>The history\<close>

text \<open>
  What the cache promises, without its chain: the history lists every use of a mark, the latest one first, for as long as one likes.
  A put is a use, and so is a get that finds the mark; the marks that are held are the 200 different ones used last, and a removal
  leaves those that do not have the prefix. An operation and the result it returns:
\<close>

datatype lru_op = LPut "byte list" QueryWaterMark | LGet "byte list" | LRemove "byte list"

fun lru_do :: "lru_op \<Rightarrow> LruMap \<Rightarrow> LruMap \<times> QueryWaterMark res option" where
  "lru_do (LPut k q) m = (LruMap_Put k q m, None)"
| "lru_do (LGet k) m = map_prod id Some (LruMap_Get k m)"
| "lru_do (LRemove pre) m = (RemoveWithPrefixKey pre m, None)"

fun lru_all :: "lru_op list \<Rightarrow> LruMap \<Rightarrow> LruMap \<times> QueryWaterMark res option list" where
  "lru_all [] m = (m, [])"
| "lru_all (x # xs) m = (case lru_do x m of (m, r) \<Rightarrow> map_prod id ((#) r) (lru_all xs m))"

type_synonym history = "(byte list \<times> QueryWaterMark) list"

fun latest :: "history \<Rightarrow> history" where
  "latest [] = []" | "latest (p # h) = p # filter (\<lambda>p'. fst p' \<noteq> fst p) (latest h)"

definition recent :: "history \<Rightarrow> history" where "recent h = take MAX_CACHE_ITEMS (latest h)"

fun history_do :: "lru_op \<Rightarrow> history \<Rightarrow> history \<times> QueryWaterMark res option" where
  "history_do (LPut k q) h = ((k, q) # h, None)"
| "history_do (LGet k) h = (case map_of (recent h) k of None \<Rightarrow> (h, Some (Inl E_NOT_FOUND)) | Some q \<Rightarrow> ((k, q) # h, Some (Inr q)))"
| "history_do (LRemove pre) h = (filter (\<lambda>(k, q). \<not> has_prefix pre k) (recent h), None)"

fun history_all :: "lru_op list \<Rightarrow> history \<Rightarrow> history \<times> QueryWaterMark res option list" where
  "history_all [] h = (h, [])"
| "history_all (x # xs) h = (case history_do x h of (h, r) \<Rightarrow> map_prod id ((#) r) (history_all xs h))"

lemma latest_distinct: "distinct (map fst (latest h))"
  by (induction h) (auto simp: distinct_map_filter)

lemma latest_id: "distinct (map fst h) \<Longrightarrow> latest h = h"
  by (induction h) (force intro!: filter_True)+

lemma take_filter_fst:
  "distinct (map fst xs) \<Longrightarrow> take n (filter (\<lambda>p. fst p \<noteq> k) (take (Suc n) xs)) = take n (filter (\<lambda>p. fst p \<noteq> k) xs)"
proof (induction xs arbitrary: n)
  case (Cons p xs)
  show ?case
  proof (cases "fst p = k")
    case True
    then have "k \<notin> fst ` set xs" using Cons.prems by simp
    then have "\<forall>x \<in> set xs. fst x \<noteq> k" by blast
    then have "filter (\<lambda>p. fst p \<noteq> k) xs = xs" "filter (\<lambda>p. fst p \<noteq> k) (take n xs) = take n xs"
      by (auto intro!: filter_True dest!: in_set_takeD)
    then show ?thesis using True by simp
  next
    case False
    then show ?thesis using Cons by (cases n) auto
  qed
qed simp

lemma recent_distinct: "distinct (map fst (recent h))"
  by (simp add: recent_def take_map[symmetric] latest_distinct)

lemma recent_use: "recent ((k, q) # h) = (k, q) # take (MAX_CACHE_ITEMS - 1) (filter (\<lambda>p. fst p \<noteq> k) (recent h))"
  using take_filter_fst[OF latest_distinct, of "MAX_CACHE_ITEMS - 1" k h] by (simp add: recent_def MAX_CACHE_ITEMS_def)

definition in_step :: "history \<Rightarrow> LruMap \<Rightarrow> bool" where
  "in_step h m \<longleftrightarrow> lru_wf m \<and> lru_chain m = rev (recent h)"

lemma in_step_cache: "in_step h m \<Longrightarrow> lru_cache m = map_of (recent h)"
proof -
  assume "in_step h m"
  then have "lru_cache m = map_of (rev (recent h))" by (simp add: in_step_def lru_wf_def)
  then show ?thesis using map_of_inject_set[of "rev (recent h)" "recent h"] by (simp add: rev_map[symmetric] recent_distinct)
qed

lemma Elimination_holds:
  assumes "in_step h m" "lru_wf (Elimination k q m')" "lru_chain m' = lru_chain m"
  shows "in_step ((k, q) # h) (Elimination k q m')"
proof -
  let ?r = "filter (\<lambda>p. fst p \<noteq> k) (recent h)"
  have e: "erase_first k (lru_chain m') = rev ?r" using assms(1,3) erase_first_eq[of "rev (recent h)" k] by (simp add: in_step_def rev_map[symmetric] recent_distinct rev_filter)
  have l: "length ?r \<le> MAX_CACHE_ITEMS" using order_trans[OF length_filter_le, of "recent h"] by (simp add: recent_def)
  have "lru_chain (Elimination k q m') = rev (take (MAX_CACHE_ITEMS - 1) ?r) @ [(k, q)]"
  proof (cases "length ?r = MAX_CACHE_ITEMS")
    case True
    then have "tl (rev ?r @ [(k, q)]) = rev (butlast ?r) @ [(k, q)]"
      by (cases ?r rule: rev_cases) (simp_all add: MAX_CACHE_ITEMS_def)
    moreover have "take (MAX_CACHE_ITEMS - 1) ?r = butlast ?r" unfolding True[symmetric] by (simp add: butlast_conv_take)
    ultimately show ?thesis using True by (simp add: Elimination_def e pop_excess_eq)
  next
    case False
    then show ?thesis using l by (simp add: Elimination_def e pop_excess_eq)
  qed
  then show ?thesis using assms(2) by (simp add: in_step_def recent_use)
qed

lemma lru_do_holds:
  assumes "in_step h m"
  shows "in_step (fst (history_do x h)) (fst (lru_do x m)) \<and> snd (lru_do x m) = snd (history_do x h)"
proof (cases x)
  case (LPut k q)
  have "lru_wf (LruMap_Put k q m)" using assms LruMap_Put_spec(1) by (simp add: in_step_def)
  then show ?thesis using LPut Elimination_holds[OF assms, of k q] by (simp add: LruMap_Put_def)
next
  case (LGet k)
  have "lru_wf (fst (LruMap_Get k m))" using assms LruMap_Get_spec(1) by (simp add: in_step_def)
  then show ?thesis using LGet assms Elimination_holds[OF assms _ refl, of k]
    by (auto simp: LruMap_Get_def in_step_cache[OF assms] split: option.splits)
next
  case (LRemove pre)
  let ?h = "filter (\<lambda>(k, q). \<not> has_prefix pre k) (recent h)"
  have "latest ?h = ?h" by (intro latest_id) (simp add: distinct_map_filter recent_distinct)
  moreover have "length ?h \<le> MAX_CACHE_ITEMS" using order_trans[OF length_filter_le, of "recent h"] by (simp add: recent_def)
  ultimately have "recent ?h = ?h" by (simp add: recent_def)
  then show ?thesis using LRemove assms RemoveWithPrefixKey_spec(1)[of m pre]
    by (auto simp: in_step_def RemoveWithPrefixKey_def rev_filter)
qed

lemma lru_all_holds: "in_step h m \<Longrightarrow> in_step (fst (history_all xs h)) (fst (lru_all xs m)) \<and> snd (lru_all xs m) = snd (history_all xs h)"
proof (induction xs arbitrary: h m)
  case (Cons x xs)
  then show ?case using lru_do_holds[OF Cons.prems, of x] by (cases "lru_do x m"; cases "history_do x h") auto
qed simp

lemma history_init: "in_step [] LruMap_init"
  by (simp add: in_step_def lru_wf_def LruMap_init_def recent_def)

section \<open>The cache agrees with the table\<close>

definition stored :: "bool \<Rightarrow> meta_table \<Rightarrow> DeviceID \<Rightarrow> QueryWaterMark option" where
  "stored be tab k =
     (case map_of tab k of
        None \<Rightarrow> None
      | Some bytes \<Rightarrow> (case DeSerializeQueryWaterMark be bytes QueryWaterMark_init of Inl e \<Rightarrow> None | Inr q \<Rightarrow> Some q))"

definition query_key :: "(byte list \<Rightarrow> byte list option) \<Rightarrow> DeviceID \<Rightarrow> DeviceID \<Rightarrow> DeviceID" where
  "query_key sha deviceId queryId = QUERY_SYNC_PREFIX_KEY @ TransferHashString sha deviceId @ queryId"

definition coherent :: "(byte list \<Rightarrow> byte list option) \<Rightarrow> bool \<Rightarrow> wm_state \<Rightarrow> bool" where
  "coherent sha be s \<longleftrightarrow> lru_wf (wm_querySyncCache (fst s)) \<and> meta_inv (snd s) \<and>
     (\<forall>d i k. wm_querySyncIds (fst s) (d, i) = Some k \<longrightarrow> k = query_key sha d i) \<and>
     (\<forall>k q. lru_cache (wm_querySyncCache (fst s)) k = Some q \<longrightarrow> stored be (snd s) k = Some q)"

lemma coherent_init: "meta_inv tab \<Longrightarrow> coherent sha be (WaterMarkHelper_init, tab)"
  by (simp add: coherent_def WaterMarkHelper_init_def LruMap_init_def lru_wf_def)

lemma GetHashQuerySyncDeviceId_coherent:
  assumes "coherent sha be (h, tab)" "GetHashQuerySyncDeviceId sha dev query h = (h', k)"
  shows "coherent sha be (h', tab)" "k = query_key sha dev query"
  using assms by (auto simp: coherent_def GetHashQuerySyncDeviceId_def query_key_def Let_def split: option.splits if_splits)

text \<open>A mark that is in the table is put into the cache.\<close>

lemma cache_put_coherent:
  assumes "coherent sha be (h, tab)" "meta_inv tab'" "stored be tab' k = Some q"
    and "\<forall>k'. k' \<noteq> k \<longrightarrow> map_of tab' k' = map_of tab k'"
  shows "coherent sha be (cache_put k q h, tab')"
proof -
  have "stored be tab' k' = stored be tab k'" if "k' \<noteq> k" for k' using that assms(4) by (simp add: stored_def)
  then show ?thesis
    using assms(1-3) LruMap_Put_spec[of "wm_querySyncCache h" k q]
    by (auto simp: coherent_def cache_put_def split: if_splits)
qed

lemma SaveQueryWaterMarkToDB_ok:
  assumes "SaveQueryWaterMarkToDB be env k q tab = (tab', E_OK)" "meta_inv tab"
  shows "stored be tab' k = Some (readable q)" "\<forall>k'. k' \<noteq> k \<longrightarrow> map_of tab' k' = map_of tab k'" "meta_inv tab'"
    "length k \<le> MAX_KEY_SIZE"
proof -
  obtain bytes where b: "SerializeQueryWaterMark be q = Inr bytes" and p: "PutMetaData env tab k bytes = (tab', E_OK)"
    using assms(1) by (cases "SerializeQueryWaterMark be q") (auto simp: SaveQueryWaterMarkToDB_def Serialize_fields Let_def split: if_splits)
  show "stored be tab' k = Some (readable q)"
    using PutMetaData_ok(1)[OF p] DeSerialize_Serialize[OF b] by (simp add: stored_def)
  show "\<forall>k'. k' \<noteq> k \<longrightarrow> map_of tab' k' = map_of tab k'" using PutMetaData_ok(1)[OF p] by simp
  show "meta_inv tab'" using PutMetaData_inv[OF assms(2), of env k bytes] p by simp
  show "length k \<le> MAX_KEY_SIZE" using PutMetaData_ok(2)[OF p] .
qed

lemma SaveQueryWaterMarkToDB_error: "SaveQueryWaterMarkToDB be env k q tab = (tab', e) \<Longrightarrow> e \<noteq> E_OK \<Longrightarrow> tab' = tab"
  by (auto simp: SaveQueryWaterMarkToDB_def PutMetaData_error split: sum.splits)

lemma FromDB_cases:
  "GetQueryWaterMarkFromDB be env k QueryWaterMark_init tab = Inr q \<Longrightarrow> stored be tab k = Some q"
  "GetQueryWaterMarkFromDB be env k QueryWaterMark_init tab = Inl E_NOT_FOUND \<Longrightarrow> me_get env \<noteq> E_NOT_FOUND \<Longrightarrow> map_of tab k = None"
  "map_of tab k = None \<Longrightarrow> stored be tab k = None"
  "stored be tab k = Some q \<Longrightarrow> me_get env = E_OK \<Longrightarrow> length k \<le> MAX_KEY_SIZE \<Longrightarrow>
     GetQueryWaterMarkFromDB be env k QueryWaterMark_init tab = Inr q"
  by (auto simp: GetQueryWaterMarkFromDB_def GetMetaData_def stored_def DeSerializeQueryWaterMark_def
      split: option.splits sum.splits if_splits prod.splits)

text \<open>The store never reports a failure as a missing row, nor the clock one as a success.\<close>

definition store_codes :: "wm_env \<Rightarrow> bool" where
  "store_codes env \<longleftrightarrow> (\<forall>i. me_get (we_store env i) \<noteq> E_NOT_FOUND \<and> we_clock env i \<noteq> Inl E_OK)"

lemma fetch_ok:
  assumes "coherent sha be (h, tab)" "store_codes env"
    and r: "GetQueryWaterMarkInCacheAndDb be env k (h, tab) = ((h', tab'), Inr q)"
  shows "coherent sha be (h', tab') \<and> stored be tab' k = Some q \<and> (\<forall>k'. k' \<noteq> k \<longrightarrow> map_of tab' k' = map_of tab k') \<and>
    (stored be tab k \<noteq> None \<longrightarrow> tab' = tab)"
proof (cases "lru_cache (wm_querySyncCache h) k")
  case (Some q0)
  let ?m = "wm_querySyncCache h"
  have wf: "lru_wf ?m" using assms(1) by (simp add: coherent_def)
  have "LruMap_Get k ?m = (fst (LruMap_Get k ?m), Inr q0)" by (simp add: LruMap_Get_def Some)
  then have "tab' = tab" "h' = h\<lparr>wm_querySyncCache := fst (LruMap_Get k ?m)\<rparr>" "q = q0"
    using r by (auto simp: GetQueryWaterMarkInCacheAndDb_def split: prod.splits)
  then show ?thesis using Some assms(1) LruMap_Get_spec(1,2)[OF wf, of k] by (auto simp: coherent_def)
next
  case None
  have g: "LruMap_Get k (wm_querySyncCache h) = (wm_querySyncCache h, Inl E_NOT_FOUND)" by (simp add: LruMap_Get_def None)
  have inv: "meta_inv tab" using assms(1) by (simp add: coherent_def)
  show ?thesis
  proof (cases "GetQueryWaterMarkFromDB be (we_store env 0) k QueryWaterMark_init tab")
    case (Inr q0)
    then have "tab' = tab" "h' = cache_put k q h" "stored be tab k = Some q"
      using r g FromDB_cases(1)[OF Inr] by (auto simp: GetQueryWaterMarkInCacheAndDb_def)
    then show ?thesis using cache_put_coherent[OF assms(1) inv, of k q] by auto
  next
    case (Inl e)
    then have e: "e = E_NOT_FOUND" using r g by (auto simp: GetQueryWaterMarkInCacheAndDb_def split: if_splits)
    then have none: "map_of tab k = None" using FromDB_cases(2) Inl assms(2) by (simp add: store_codes_def)
    obtain t where t: "we_clock env 0 = Inr t"
      using r g Inl e assms(2)
      by (cases "we_clock env 0") (auto simp: store_codes_def GetQueryWaterMarkInCacheAndDb_def PutQueryWaterMarkToDB_def split: if_splits)
    have q: "q = QueryWaterMark_init\<lparr>qw_lastUsedTime := t, qw_version := QUERY_WATERMARK_VERSION_CURRENT\<rparr>"
      and h: "h' = cache_put k q h" and s: "SaveQueryWaterMarkToDB be (we_store env 0) k q tab = (tab', E_OK)"
      using r g Inl e t by (auto simp: GetQueryWaterMarkInCacheAndDb_def PutQueryWaterMarkToDB_def Let_def split: if_splits prod.splits)
    note s = SaveQueryWaterMarkToDB_ok[OF s inv]
    have "readable q = q" unfolding readable_def q by (simp add: QUERY_WATERMARK_VERSION_CURRENT_def)
    then show ?thesis using s h cache_put_coherent[OF assms(1) s(3) _ s(2)] FromDB_cases(3)[OF none] by simp
  qed
qed

lemma fetch_error:
  assumes "GetQueryWaterMarkInCacheAndDb be env k (h, tab) = (s', Inl e)" "store_codes env"
  shows "e \<noteq> E_OK"
proof
  assume e: "e = E_OK"
  have n: "lru_cache (wm_querySyncCache h) k = None"
    using assms(1) by (cases "lru_cache (wm_querySyncCache h) k") (auto simp: GetQueryWaterMarkInCacheAndDb_def LruMap_Get_def)
  have "GetQueryWaterMarkFromDB be (we_store env 0) k QueryWaterMark_init tab \<noteq> Inl E_OK"
    by (auto simp: GetQueryWaterMarkFromDB_def GetMetaData_def DeSerializeQueryWaterMark_def
        split: sum.splits option.splits if_splits prod.splits)
  then show False using assms(1) e n
    by (auto simp: GetQueryWaterMarkInCacheAndDb_def LruMap_Get_def split: sum.splits if_splits prod.splits)
qed

lemma update_ok:
  assumes "coherent sha be (h, tab)" "store_codes env"
    and r: "UpdateCacheAndSave be env k q (h, tab) = ((h', tab'), E_OK)"
  shows "\<exists>t. stored be tab' k = Some (readable (q\<lparr>qw_lastUsedTime := t\<rparr>)) \<and> (\<forall>k'. k' \<noteq> k \<longrightarrow> map_of tab' k' = map_of tab k') \<and>
    (readable q = q \<longrightarrow> coherent sha be (h', tab')) \<and> meta_inv tab' \<and> length k \<le> MAX_KEY_SIZE"
proof -
  have inv: "meta_inv tab" using assms(1) by (simp add: coherent_def)
  obtain t where t: "we_clock env 1 = Inr t"
    using r assms(2) by (cases "we_clock env 1") (auto simp: UpdateCacheAndSave_def store_codes_def)
  let ?q = "q\<lparr>qw_lastUsedTime := t\<rparr>"
  have h: "h' = cache_put k ?q h" and s: "SaveQueryWaterMarkToDB be (we_store env 1) k ?q tab = (tab', E_OK)"
    using r t by (auto simp: UpdateCacheAndSave_def Let_def split: if_splits prod.splits)
  note s = SaveQueryWaterMarkToDB_ok[OF s inv]
  have "readable ?q = ?q" if "readable q = q"
  proof -
    have "qw_lastQueryTime (readable q) = qw_lastQueryTime q" using that by simp
    then show ?thesis by (auto simp: readable_def split: if_splits)
  qed
  then show ?thesis using s h cache_put_coherent[OF assms(1) s(3) _ s(2)] by auto
qed

lemma stored_readable: "stored be tab k = Some q \<Longrightarrow> readable q = q"
  by (auto simp: stored_def DeSerialize_readable split: option.splits sum.splits)

text \<open>A setter replaces the mark under its key by the changed one.\<close>

lemma modify_ok:
  assumes "coherent sha be s" "store_codes env" "modify_query_mark sha be env change query dev s = (s', E_OK)"
  shows "\<exists>q t. stored be (snd s') (query_key sha dev query) = Some (readable ((change q)\<lparr>qw_lastUsedTime := t\<rparr>)) \<and>
    readable q = q \<and> (\<forall>q0. stored be (snd s) (query_key sha dev query) = Some q0 \<longrightarrow> q = q0) \<and>
    (\<forall>k. k \<noteq> query_key sha dev query \<longrightarrow> map_of (snd s') k = map_of (snd s) k) \<and>
    (readable (change q) = change q \<longrightarrow> coherent sha be s') \<and> meta_inv (snd s') \<and> length (query_key sha dev query) \<le> MAX_KEY_SIZE"
proof -
  obtain h tab where s: "s = (h, tab)" by (cases s)
  obtain h1 k where g: "GetHashQuerySyncDeviceId sha dev query h = (h1, k)" by (cases "GetHashQuerySyncDeviceId sha dev query h")
  note c1 = GetHashQuerySyncDeviceId_coherent[OF assms(1)[unfolded s] g]
  obtain h2 tab2 r where f: "GetQueryWaterMarkInCacheAndDb be env k (h1, tab) = ((h2, tab2), r)"
    by (cases "GetQueryWaterMarkInCacheAndDb be env k (h1, tab)") auto
  show ?thesis
  proof (cases r)
    case (Inl e)
    then have "e = E_OK" "s' = (h2, tab2)" using assms(3) f g s by (auto simp: modify_query_mark_def)
    then show ?thesis using fetch_error[OF f[unfolded Inl] assms(2)] by simp
  next
    case (Inr q)
    note a = fetch_ok[OF c1(1) assms(2) f[unfolded Inr]]
    obtain h3 tab3 where s': "s' = (h3, tab3)" by (cases s')
    have u: "UpdateCacheAndSave be env k (change q) (h2, tab2) = ((h3, tab3), E_OK)"
      using assms(3) f g s s' Inr by (simp add: modify_query_mark_def)
    have "coherent sha be (h2, tab2)" using a by blast
    from update_ok[OF this assms(2) u] a c1(2) show ?thesis unfolding s s'
      using stored_readable[of be tab2 k q] by auto
  qed
qed

lemma get_stored:
  assumes "coherent sha be (h, tab)" "stored be tab (query_key sha dev query) = Some q" "me_get (we_store env 0) = E_OK"
    "length (query_key sha dev query) \<le> MAX_KEY_SIZE"
  shows "snd (GetQueryWaterMark sha be env query dev (h, tab)) = Inr q"
proof -
  let ?k = "query_key sha dev query"
  obtain h1 where g: "GetHashQuerySyncDeviceId sha dev query h = (h1, ?k)"
    using GetHashQuerySyncDeviceId_coherent(2)[OF assms(1)] by (cases "GetHashQuerySyncDeviceId sha dev query h") auto
  note c = GetHashQuerySyncDeviceId_coherent(1)[OF assms(1) g]
  note db = FromDB_cases(4)[OF assms(2,3,4)]
  have "\<forall>q'. lru_cache (wm_querySyncCache h1) ?k = Some q' \<longrightarrow> q' = q" using c assms(2) by (auto simp: coherent_def)
  then show ?thesis using g db
    by (cases "lru_cache (wm_querySyncCache h1) ?k")
      (auto simp: GetQueryWaterMark_def GetQueryWaterMarkInCacheAndDb_def LruMap_Get_def)
qed

lemma reset_ok:
  assumes "coherent sha be (h, tab)" "ResetRecvQueryWaterMark sha env dev tableName (h, tab) = ((h', tab'), E_OK)"
    and "pre = QUERY_SYNC_PREFIX_KEY @ TransferHashString sha dev @
      (if tableName = [] then [] else TransferStringToHex (TransferHashString sha tableName))"
  shows "coherent sha be (h', tab')" "map_of tab' k = (if has_prefix pre k then None else map_of tab k)"
proof -
  have inv: "meta_inv tab" "lru_wf (wm_querySyncCache h)" using assms(1) by (auto simp: coherent_def)
  have d: "DeleteMetaDataByPrefixKey env tab pre = (tab', E_OK)"
    and h: "h' = h\<lparr>wm_querySyncCache := RemoveWithPrefixKey pre (wm_querySyncCache h)\<rparr>"
    using assms(2) unfolding assms(3) by (auto simp: ResetRecvQueryWaterMark_def Let_def split: prod.splits if_splits)
  note m = DeleteMetaDataByPrefixKey_ok[OF d inv(1)]
  show "map_of tab' k = (if has_prefix pre k then None else map_of tab k)" using m(2) by (simp add: has_prefix_def)
  have "stored be tab' k' = stored be tab k'" if "\<not> has_prefix pre k'" for k'
    using that m(2)[of k'] by (simp add: stored_def has_prefix_def)
  then show "coherent sha be (h', tab')"
    using assms(1) m(1) RemoveWithPrefixKey_spec[OF inv(2), of pre] by (auto simp: coherent_def h split: if_splits)
qed

text \<open>
  The clean-up of \<open>RemoveLeastUsedQuerySyncItems\<close> subtracts the broken items from the good ones although
  they are not among them: with \<open>b\<close> broken items it keeps \<open>MAX_STORE_ITEMS + b\<close> good ones.
\<close>

lemma least_used_keeps_too_many:
  assumes "classify_items be env tab ids [] [] = (good, broken)" "length ids \<ge> MAX_STORE_ITEMS"
    and "length good \<ge> MAX_STORE_ITEMS + length broken"
    and "mset (select (length good - MAX_STORE_ITEMS - length broken) good) = mset good"
  shows "\<exists>gone. RemoveLeastUsedQuerySyncItems be select env ids tab = DeleteMetaData env tab (broken @ map fst gone) \<and>
    mset gone \<subseteq># mset good \<and> length good - length gone = MAX_STORE_ITEMS + length broken"
proof -
  let ?n = "length good - MAX_STORE_ITEMS - length broken"
  let ?g = "take ?n (select ?n good)"
  have len: "length (select ?n good) = length good" using assms(4) by (metis size_mset)
  have "mset ?g \<subseteq># mset (select ?n good)" by (metis append_take_drop_id mset_append mset_subset_eq_add_left)
  then have "mset ?g \<subseteq># mset good" using assms(4) by simp
  moreover have "length good - length ?g = MAX_STORE_ITEMS + length broken" using len assms(3) by simp
  ultimately show ?thesis using assms(1-3)
    by (intro exI[of _ ?g]) (simp add: RemoveLeastUsedQuerySyncItems_def Let_def)
qed

section \<open>Properties\<close>

text \<open>C18. A send water mark that was saved is what is read afterwards, by the helper that saved it or by any other one
  over the same table: after evictions from the cache, and after a restart. No other mark changes.\<close>

theorem send_mark_set_get:
  assumes "coherent sha be s" "store_codes env"
    and "SetSendQueryWaterMark sha be env query dev waterMark s = (s', E_OK)"
    and "coherent sha be (h, snd s')" "me_get (we_store env' 0) = E_OK"
  shows "coherent sha be s' \<and> coherent sha be (WaterMarkHelper_init, snd s') \<and>
    (\<exists>q. snd (GetQueryWaterMark sha be env' query dev (h, snd s')) = Inr q \<and> qw_sendWaterMark q = waterMark \<and>
       (\<forall>q0. stored be (snd s) (query_key sha dev query) = Some q0 \<longrightarrow>
          qw_recvWaterMark q = qw_recvWaterMark q0 \<and> qw_lastQueryTime q = qw_lastQueryTime q0)) \<and>
    (\<forall>k. k \<noteq> query_key sha dev query \<longrightarrow> stored be (snd s') k = stored be (snd s) k)"
proof -
  from modify_ok[OF assms(1,2) assms(3)[unfolded SetSendQueryWaterMark_def]] obtain q t where
    st: "stored be (snd s') (query_key sha dev query) = Some (readable (q\<lparr>qw_sendWaterMark := waterMark, qw_lastUsedTime := t\<rparr>))"
    and q: "readable q = q" "\<forall>q0. stored be (snd s) (query_key sha dev query) = Some q0 \<longrightarrow> q = q0"
    and other: "\<forall>k. k \<noteq> query_key sha dev query \<longrightarrow> map_of (snd s') k = map_of (snd s) k"
    and c: "readable (q\<lparr>qw_sendWaterMark := waterMark\<rparr>) = q\<lparr>qw_sendWaterMark := waterMark\<rparr> \<longrightarrow> coherent sha be s'"
    and inv: "meta_inv (snd s')" "length (query_key sha dev query) \<le> MAX_KEY_SIZE" by auto
  have lq: "qw_lastQueryTime (readable q) = qw_lastQueryTime q" using q(1) by simp
  then have "readable (q\<lparr>qw_sendWaterMark := waterMark\<rparr>) = q\<lparr>qw_sendWaterMark := waterMark\<rparr>"
    by (auto simp: readable_def split: if_splits)
  then have "coherent sha be s'" using c by blast
  moreover have "\<forall>k. k \<noteq> query_key sha dev query \<longrightarrow> stored be (snd s') k = stored be (snd s) k" using other by (simp add: stored_def)
  moreover note get_stored[OF assms(4) st assms(5) inv(2)] coherent_init[OF inv(1)]
  ultimately show ?thesis using q(2) lq by (auto simp: readable_def split: if_splits)
qed

text \<open>C31. The cache holds the 200 marks used last: after any sequence of puts, gets and removals by prefix its chain lists, in the
  order of their last use, the 200 different keys that were put or found last, the map has for each of them the value put last and
  nothing else, and every get returned what the history of uses says. So a get that finds a mark makes it the most recent one, and
  what a put into a full cache gives up is the mark whose last use is longest ago.\<close>

theorem lru_keeps_recent:
  "(case (lru_all ops LruMap_init, history_all ops []) of ((m, results), (h, expected)) \<Rightarrow>
      lru_chain m = rev (recent h) \<and> lru_cache m = map_of (recent h) \<and> length (lru_chain m) \<le> 200 \<and> results = expected)"
  using lru_all_holds[OF history_init, of ops] in_step_cache
  by (auto simp: in_step_def recent_def MAX_CACHE_ITEMS_def split: prod.splits)

text \<open>The time of the last query is lost for a mark written before version 106: it is saved under the old version
  number, and a reader of an old mark does not look at it. While the cache has it, it is returned.\<close>

theorem old_mark_loses_query_time:
  assumes "coherent sha be s" "store_codes env" "stored be (snd s) (query_key sha dev query) = Some q0"
    and "qw_version q0 < SOFTWARE_VERSION_RELEASE_6_0"
    and "SetLastQueryTime sha be env query dev timestamp s = (s', E_OK)" "me_get (we_store env' 0) = E_OK"
  shows "\<exists>q. snd (GetQueryWaterMark sha be env' query dev (WaterMarkHelper_init, snd s')) = Inr q \<and> qw_lastQueryTime q = 0"
proof -
  from modify_ok[OF assms(1,2) assms(5)[unfolded SetLastQueryTime_def]] assms(3) obtain t where
    st: "stored be (snd s') (query_key sha dev query) = Some (readable (q0\<lparr>qw_lastQueryTime := timestamp, qw_lastUsedTime := t\<rparr>))"
    and inv: "meta_inv (snd s')" "length (query_key sha dev query) \<le> MAX_KEY_SIZE" by auto
  have "qw_lastQueryTime (readable (q0\<lparr>qw_lastQueryTime := timestamp, qw_lastUsedTime := t\<rparr>)) = 0"
    using assms(4) by (auto simp: readable_def dest: leD)
  then show ?thesis using get_stored[OF coherent_init[OF inv(1)] st assms(6) inv(2)] by blast
qed

text \<open>When the store cannot be read, setting the send mark of a delete sync resets the receive mark: the error of the
  read is ignored and a blank mark is saved over the stored one.\<close>

theorem delete_mark_overwritten:
  assumes "wm_deleteSyncIds h dev = Some i" "wm_deleteSyncCache h i = None" "length i \<le> MAX_KEY_SIZE"
    and "me_get (we_store env 0) = e" "e \<noteq> E_OK" "e \<noteq> E_NOT_FOUND"
    and "SetSendDeleteSyncWaterMark sha be env dev waterMark (h, tab) = ((h', tab'), E_OK)"
  shows "wm_deleteSyncCache h' i = Some \<lparr>dw_version = 0, dw_sendWaterMark = waterMark, dw_recvWaterMark = 0\<rparr> \<and>
    (\<exists>bytes. SerializeDeleteWaterMark be \<lparr>dw_version = 0, dw_sendWaterMark = waterMark, dw_recvWaterMark = 0\<rparr> = Inr bytes \<and>
       map_of tab' i = Some bytes)"
proof -
  let ?d = "\<lparr>dw_version = 0, dw_sendWaterMark = waterMark, dw_recvWaterMark = 0\<rparr> :: DeleteWaterMark"
  have "GetDeleteWaterMarkFromCache be (we_store env 0) i DeleteWaterMark_init (h, tab) = ((h, tab), DeleteWaterMark_init, e)"
    using assms(2-6) by (simp add: GetDeleteWaterMarkFromCache_def GetDeleteWaterMarkFromDB_def GetMetaData_def Let_def)
  then have u: "UpdateDeleteSyncCacheAndSave be (we_store env 1) i ?d (h, tab) = ((h', tab'), E_OK)"
    using assms(1,7) by (simp add: SetSendDeleteSyncWaterMark_def modify_delete_mark_def GetHashDeleteSyncDeviceId_def
        DeleteWaterMark_init_def)
  have "SerializeDeleteWaterMark be ?d \<noteq> Inl E_OK" by (simp add: SerializeDeleteWaterMark_def Let_def)
  then obtain bytes where b: "SerializeDeleteWaterMark be ?d = Inr bytes" "PutMetaData (we_store env 1) tab i bytes = (tab', E_OK)"
    using u by (auto simp: UpdateDeleteSyncCacheAndSave_def SaveDeleteWaterMarkToDB_def split: prod.splits sum.splits if_splits)
  have "h' = h\<lparr>wm_deleteSyncCache := (wm_deleteSyncCache h)(i \<mapsto> ?d)\<rparr>"
    using u by (auto simp: UpdateDeleteSyncCacheAndSave_def split: prod.splits if_splits)
  then show ?thesis using b PutMetaData_ok(1)[OF b(2)] by simp
qed

section \<open>Witnesses\<close>

definition wm_sha :: "byte list \<Rightarrow> byte list option" where "wm_sha k = Some (1 # k)"

definition wm_env_ok :: wm_env where
  "wm_env_ok = \<lparr>we_store = (\<lambda>i. meta_ok), we_clock = (\<lambda>i. Inr (1000 + of_nat i))\<rparr>"

lemma wm_env_ok_codes: "store_codes wm_env_ok" "me_get (we_store wm_env_ok 0) = E_OK"
  by (simp_all add: store_codes_def wm_env_ok_def meta_ok_def)

definition new_mark :: QueryWaterMark where
  "new_mark = QueryWaterMark_init\<lparr>qw_lastUsedTime := 1000, qw_version := 106\<rparr>"

lemma demo_serialize: "qw_sql q = [] \<Longrightarrow> \<exists>b. SerializeQueryWaterMark False q = Inr b \<and> length b = 48"
  using query_mark_encoding[of q False]
  by (auto simp: mark_encodable_def BYTE_8_ALIGN_def INT32_MAX_def CalculateQueryWaterMarkSize_def GetStringLen_def
      GetEightByteAlign_def GetUInt32Len_def GetUInt64Len_def)

theorem send_mark_set_get_witness:
  "\<exists>s' q. SetSendQueryWaterMark wm_sha False wm_env_ok [5] [66] 77 (WaterMarkHelper_init, []) = (s', E_OK) \<and>
     snd (GetQueryWaterMark wm_sha False wm_env_ok [5] [66] (WaterMarkHelper_init, snd s')) = Inr q \<and> qw_sendWaterMark q = 77"
proof -
  let ?r = "SetSendQueryWaterMark wm_sha False wm_env_ok [5] [66] 77 (WaterMarkHelper_init, [])"
  obtain b1 b2 where b: "SerializeQueryWaterMark False new_mark = Inr b1" "length b1 = 48"
    "SerializeQueryWaterMark False (new_mark\<lparr>qw_sendWaterMark := 77, qw_lastUsedTime := 1001\<rparr>) = Inr b2" "length b2 = 48"
    using demo_serialize[of new_mark] demo_serialize[of "new_mark\<lparr>qw_sendWaterMark := 77, qw_lastUsedTime := 1001\<rparr>"]
    by (auto simp: new_mark_def QueryWaterMark_init_def)
  have "snd ?r = E_OK"
    using b by (simp add: SetSendQueryWaterMark_def modify_query_mark_def GetHashQuerySyncDeviceId_def WaterMarkHelper_init_def
        GetQueryWaterMarkInCacheAndDb_def LruMap_Get_def LruMap_init_def GetQueryWaterMarkFromDB_def GetMetaData_def wm_env_ok_def
        meta_ok_def PutQueryWaterMarkToDB_def SaveQueryWaterMarkToDB_def UpdateCacheAndSave_def cache_put_def PutMetaData_def
        CheckDataStatus_def MAX_KEY_SIZE_def MAX_VALUE_SIZE_def QUERY_SYNC_PREFIX_KEY_def wm_sha_def TransferHashString_def
        CalcValueHash_def QUERY_WATERMARK_VERSION_CURRENT_def SOFTWARE_VERSION_RELEASE_6_0_def new_mark_def Let_def)
  then have r: "?r = (fst ?r, E_OK)" by (metis prod.collapse)
  have c: "coherent wm_sha False (WaterMarkHelper_init, [])" by (rule coherent_init) (simp add: meta_inv_def)
  have "coherent wm_sha False (WaterMarkHelper_init, snd (fst ?r))"
    using modify_ok[OF c wm_env_ok_codes(1) r[unfolded SetSendQueryWaterMark_def]]
    by (auto intro: coherent_init simp: SetSendQueryWaterMark_def)
  from send_mark_set_get[OF c wm_env_ok_codes(1) r this wm_env_ok_codes(2)] show ?thesis using r by blast
qed

definition old_mark :: QueryWaterMark where "old_mark = new_mark\<lparr>qw_version := 105\<rparr>"
definition old_key :: "byte list" where "old_key = query_key wm_sha [66] [5]"

theorem old_mark_loses_query_time_witness:
  "\<exists>b s' q. stored False [(old_key, b)] old_key = Some old_mark \<and>
     SetLastQueryTime wm_sha False wm_env_ok [5] [66] 9 (WaterMarkHelper_init, [(old_key, b)]) = (s', E_OK) \<and>
     snd (GetQueryWaterMark wm_sha False wm_env_ok [5] [66] (WaterMarkHelper_init, snd s')) = Inr q \<and> qw_lastQueryTime q = 0"
proof -
  let ?q1 = "old_mark\<lparr>qw_lastQueryTime := 9, qw_lastUsedTime := 1001\<rparr>"
  have sql: "qw_sql old_mark = []" "qw_sql ?q1 = []" by (simp_all add: old_mark_def new_mark_def QueryWaterMark_init_def)
  obtain b b1 where b: "SerializeQueryWaterMark False old_mark = Inr b" "SerializeQueryWaterMark False ?q1 = Inr b1" "length b1 = 48"
    using demo_serialize[OF sql(1)] demo_serialize[OF sql(2)] by auto
  have rd: "readable old_mark = old_mark"
    by (simp add: readable_def old_mark_def new_mark_def QueryWaterMark_init_def)
  have ds: "DeSerializeQueryWaterMark False b QueryWaterMark_init = Inr old_mark" using DeSerialize_Serialize[OF b(1)] rd by simp
  let ?s = "(WaterMarkHelper_init, [(old_key, b)])"
  have key: "old_key \<noteq> []" "length old_key \<le> MAX_KEY_SIZE" "old_key = QUERY_SYNC_PREFIX_KEY @ [1, 66, 5]"
    by (simp_all add: old_key_def query_key_def QUERY_SYNC_PREFIX_KEY_def wm_sha_def TransferHashString_def CalcValueHash_def MAX_KEY_SIZE_def)
  let ?r = "SetLastQueryTime wm_sha False wm_env_ok [5] [66] 9 ?s"
  have "snd ?r = E_OK"
    using b ds key by (simp add: SetLastQueryTime_def modify_query_mark_def GetHashQuerySyncDeviceId_def WaterMarkHelper_init_def
        GetQueryWaterMarkInCacheAndDb_def LruMap_Get_def LruMap_init_def GetQueryWaterMarkFromDB_def GetMetaData_def wm_env_ok_def
        meta_ok_def SaveQueryWaterMarkToDB_def UpdateCacheAndSave_def cache_put_def PutMetaData_def wm_sha_def TransferHashString_def
        CheckDataStatus_def MAX_VALUE_SIZE_def CalcValueHash_def Let_def)
  then have r: "?r = (fst ?r, E_OK)" by (metis prod.collapse)
  have c: "coherent wm_sha False ?s" using key by (intro coherent_init) (simp add: meta_inv_def)
  have st: "stored False [(old_key, b)] old_key = Some old_mark" using ds by (simp add: stored_def)
  have v: "qw_version old_mark < SOFTWARE_VERSION_RELEASE_6_0" by (simp add: old_mark_def SOFTWARE_VERSION_RELEASE_6_0_def)
  have "stored False (snd ?s) (query_key wm_sha [66] [5]) = Some old_mark" using st by (simp add: old_key_def)
  from old_mark_loses_query_time[OF c wm_env_ok_codes(1) this v r wm_env_ok_codes(2)] show ?thesis using r st by blast
qed

definition delete_fields :: "DeleteWaterMark \<Rightarrow> field list" where
  "delete_fields d = [FU32 (dw_version d), FAlign, FU64 (dw_sendWaterMark d), FU64 (dw_recvWaterMark d)]"

lemma delete_mark_encoding: "\<exists>bytes. SerializeDeleteWaterMark be d = Inr bytes \<and> length bytes = 24"
proof -
  let ?p = "write_fields be (delete_fields d) (Parcel_init (replicate 24 0) 24)"
  have "\<not> IsError ?p"
    using fields_roundtrip[of "delete_fields d" "replicate 24 0" be be] by (simp add: delete_fields_def BYTE_8_ALIGN_def)
  moreover have "length (p_buf ?p) = 24"
    by (subst write_fields_keeps(2)) (simp_all add: Parcel_init_wf, simp add: Parcel_init_def)
  ultimately show ?thesis
    by (simp add: SerializeDeleteWaterMark_def delete_fields_def Let_def CalculateDeleteWaterMarkSize_def GetEightByteAlign_def
        GetUInt32Len_def GetUInt64Len_def BYTE_8_ALIGN_def)
qed

theorem delete_mark_overwritten_witness:
  "\<exists>h' tab'. SetSendDeleteSyncWaterMark wm_sha False (wm_env_ok\<lparr>we_store := (\<lambda>i. if i = 0 then meta_ok\<lparr>me_get := E_BUSY\<rparr> else meta_ok)\<rparr>) [66] 77
      (WaterMarkHelper_init\<lparr>wm_deleteSyncIds := [[66] \<mapsto> [100]]\<rparr>, []) = ((h', tab'), E_OK) \<and>
    wm_deleteSyncCache h' [100] = Some \<lparr>dw_version = 0, dw_sendWaterMark = 77, dw_recvWaterMark = 0\<rparr>"
proof -
  let ?env = "wm_env_ok\<lparr>we_store := (\<lambda>i. if i = 0 then meta_ok\<lparr>me_get := E_BUSY\<rparr> else meta_ok)\<rparr>"
  let ?h = "WaterMarkHelper_init\<lparr>wm_deleteSyncIds := [[66] \<mapsto> [100]]\<rparr>"
  let ?r = "SetSendDeleteSyncWaterMark wm_sha False ?env [66] 77 (?h, [])"
  obtain b where "SerializeDeleteWaterMark False \<lparr>dw_version = 0, dw_sendWaterMark = 77, dw_recvWaterMark = 0\<rparr> = Inr b" "length b = 24"
    using delete_mark_encoding by blast
  then have "snd ?r = E_OK"
    by (simp add: SetSendDeleteSyncWaterMark_def modify_delete_mark_def GetHashDeleteSyncDeviceId_def WaterMarkHelper_init_def
        GetDeleteWaterMarkFromCache_def GetDeleteWaterMarkFromDB_def GetMetaData_def meta_ok_def UpdateDeleteSyncCacheAndSave_def
        SaveDeleteWaterMarkToDB_def PutMetaData_def CheckDataStatus_def MAX_KEY_SIZE_def MAX_VALUE_SIZE_def DeleteWaterMark_init_def Let_def)
  then have "?r = ((fst (fst ?r), snd (fst ?r)), E_OK)" by (metis prod.collapse)
  moreover from delete_mark_overwritten[OF _ _ _ _ _ _ this, of "[100]" E_BUSY]
  have "wm_deleteSyncCache (fst (fst ?r)) [100] = Some \<lparr>dw_version = 0, dw_sendWaterMark = 77, dw_recvWaterMark = 0\<rparr>"
    by (simp add: WaterMarkHelper_init_def MAX_KEY_SIZE_def meta_ok_def)
  ultimately show ?thesis by blast
qed

end
