(* ===== verification/Meta_Data.thy ===== *)
theory Meta_Data
  imports Water_Mark
begin

text \<open>
  \<^verbatim>\<open>syncer/src/meta_data.cpp\<close>: what the syncer remembers of the other devices (water marks, time offsets,
  the creation time of their database) and of itself (the offset of the local time), in memory and in the
  metadata table. The map in memory is filled from the table when the store is opened.
\<close>

section \<open>Decimal numbers\<close>

text \<open>\<^verbatim>\<open>std::to_string\<close> of an \<^verbatim>\<open>int64_t\<close>, and \<^verbatim>\<open>std::strtoll\<close> with base 10, which saturates.\<close>

fun digits :: "nat \<Rightarrow> byte list" where
  "digits n = (if n < 10 then [of_nat (48 + n)] else digits (n div 10) @ [of_nat (48 + n mod 10)])"

declare digits.simps [simp del]

definition std_to_string :: "int \<Rightarrow> byte list" where
  "std_to_string i = (if i < 0 then 45 # digits (nat (- i)) else digits (nat i))"

fun read_digits :: "nat \<Rightarrow> byte list \<Rightarrow> nat" where
  "read_digits acc [] = acc"
| "read_digits acc (b # bs) =
     (if 48 \<le> unat b \<and> unat b \<le> 57 then read_digits (acc * 10 + (unat b - 48)) bs else acc)"

definition is_space :: "byte \<Rightarrow> bool" where "is_space b \<longleftrightarrow> b = 32 \<or> 9 \<le> unat b \<and> unat b \<le> 13"

definition strtoll :: "byte list \<Rightarrow> int" where
  "strtoll str =
     (let s = dropWhile is_space str;
          value = (case s of
             [] \<Rightarrow> 0
           | b # bs \<Rightarrow> if b = 45 then - int (read_digits 0 bs)
                      else if b = 43 then int (read_digits 0 bs) else int (read_digits 0 s))
      in max (- 9223372036854775808) (min 9223372036854775807 value))"

definition StringToLong :: "byte list \<Rightarrow> u64" where
  "StringToLong value = of_int (strtoll value)"

section \<open>The record of a device\<close>

record MetaDataValue =
  mv_timeOffset :: u64
  mv_lastUpdateTime :: u64
  mv_localWaterMark :: u64
  mv_peerWaterMark :: u64
  mv_dbCreateTime :: u64
  mv_clearDeviceDataMark :: u64

definition MetaDataValue_init :: MetaDataValue where
  "MetaDataValue_init = \<lparr>mv_timeOffset = 0, mv_lastUpdateTime = 0, mv_localWaterMark = 0, mv_peerWaterMark = 0,
     mv_dbCreateTime = 0, mv_clearDeviceDataMark = 0\<rparr>"

text \<open>The struct in memory: six fields of eight bytes, in the byte order of the host.\<close>

definition mv_store :: "bool \<Rightarrow> MetaDataValue \<Rightarrow> byte list" where
  "mv_store be v = mem_store be (mv_timeOffset v) @ mem_store be (mv_lastUpdateTime v) @ mem_store be (mv_localWaterMark v) @
     mem_store be (mv_peerWaterMark v) @ mem_store be (mv_dbCreateTime v) @ mem_store be (mv_clearDeviceDataMark v)"

definition mv_load :: "bool \<Rightarrow> byte list \<Rightarrow> MetaDataValue" where
  "mv_load be bytes = \<lparr>mv_timeOffset = mem_load be bytes, mv_lastUpdateTime = mem_load be (drop 8 bytes),
     mv_localWaterMark = mem_load be (drop 16 bytes), mv_peerWaterMark = mem_load be (drop 24 bytes),
     mv_dbCreateTime = mem_load be (drop 32 bytes), mv_clearDeviceDataMark = mem_load be (drop 40 bytes)\<rparr>"

definition SerializeMetaData :: "bool \<Rightarrow> MetaDataValue \<Rightarrow> byte list res" where
  "SerializeMetaData be inValue =
     (case memcpy_s 0 48 (mv_store be inValue) (replicate 48 0) of None \<Rightarrow> Inl E_SECUREC_ERROR | Some bytes \<Rightarrow> Inr bytes)"

definition DeSerializeMetaData :: "bool \<Rightarrow> byte list \<Rightarrow> MetaDataValue \<Rightarrow> MetaDataValue res" where
  "DeSerializeMetaData be inValue outValue =
     (if inValue = [] then Inl E_INVALID_ARGS
      else case memcpy_s 0 48 inValue (mv_store be outValue) of
        None \<Rightarrow> Inl E_SECUREC_ERROR
      | Some bytes \<Rightarrow> Inr (mv_load be bytes))"

section \<open>State\<close>

record Metadata =
  md_localTimeOffset :: u64
  md_metadataMap :: "DeviceID \<rightharpoonup> MetaDataValue"
  md_hashDeviceIds :: "DeviceID \<rightharpoonup> DeviceID"
  md_lastLocalTime :: u64
  md_helper :: WaterMarkHelper
  md_queryIdMap :: "DeviceID \<rightharpoonup> byte list set"

definition Metadata_init :: Metadata where
  "Metadata_init = \<lparr>md_localTimeOffset = 0, md_metadataMap = Map.empty, md_hashDeviceIds = Map.empty, md_lastLocalTime = 0,
     md_helper = WaterMarkHelper_init, md_queryIdMap = Map.empty\<rparr>"

type_synonym md_state = "Metadata \<times> meta_table"

definition LOCALTIME_OFFSET_KEY :: "byte list" where "LOCALTIME_OFFSET_KEY = map of_char ''localTimeOffset''"
definition DEVICEID_PREFIX_KEY :: "byte list" where "DEVICEID_PREFIX_KEY = map of_char ''deviceId''"
definition BASE_OFFSET :: u64 where "BASE_OFFSET = 10000 * 365 * 24 * 3600 * 1000 * 1000 * 10"
definition REMOVE_DEVICE_DATA_MARK :: u64 where "REMOVE_DEVICE_DATA_MARK = 1"

section \<open>The map and the table\<close>

definition GetHashDeviceId ::
    "(byte list \<Rightarrow> byte list option) \<Rightarrow> DeviceID \<Rightarrow> bool \<Rightarrow> Metadata \<Rightarrow> Metadata \<times> DeviceID" where
  "GetHashDeviceId sha deviceId isNeedHash m =
     (if \<not> isNeedHash then (m, deviceId)
      else case md_hashDeviceIds m deviceId of
        Some i \<Rightarrow> (m, i)
      | None \<Rightarrow>
          let i = DEVICEID_PREFIX_KEY @ TransferHashString sha deviceId
          in (m\<lparr>md_hashDeviceIds := (md_hashDeviceIds m)(deviceId \<mapsto> i)\<rparr>, i))"

definition PutMetadataToMap :: "DeviceID \<Rightarrow> MetaDataValue \<Rightarrow> Metadata \<Rightarrow> Metadata" where
  "PutMetadataToMap deviceId v m = m\<lparr>md_metadataMap := (md_metadataMap m)(deviceId \<mapsto> v)\<rparr>"

text \<open>The lookup with \<^verbatim>\<open>operator[]\<close> adds a blank record.\<close>

definition GetMetadataFromMap :: "DeviceID \<Rightarrow> Metadata \<Rightarrow> Metadata \<times> MetaDataValue" where
  "GetMetadataFromMap deviceId m =
     (case md_metadataMap m deviceId of
        Some v \<Rightarrow> (m, v)
      | None \<Rightarrow> (PutMetadataToMap deviceId MetaDataValue_init m, MetaDataValue_init))"

definition GetMetaDataValue ::
    "(byte list \<Rightarrow> byte list option) \<Rightarrow> DeviceID \<Rightarrow> bool \<Rightarrow> Metadata \<Rightarrow> Metadata \<times> MetaDataValue" where
  "GetMetaDataValue sha deviceId isNeedHash m =
     (case GetHashDeviceId sha deviceId isNeedHash m of (m1, i) \<Rightarrow> GetMetadataFromMap i m1)"

definition SaveMetaDataValue ::
    "(byte list \<Rightarrow> byte list option) \<Rightarrow> bool \<Rightarrow> meta_env \<Rightarrow> DeviceID \<Rightarrow> MetaDataValue \<Rightarrow> md_state \<Rightarrow> md_state \<times> errno" where
  "SaveMetaDataValue sha be env deviceId inValue s =
     (case s of (m, tab) \<Rightarrow>
      case SerializeMetaData be inValue of
        Inl e \<Rightarrow> (s, e)
      | Inr value \<Rightarrow>
          (case GetHashDeviceId sha deviceId True m of (m1, key) \<Rightarrow>
           case PutMetaData env tab key value of (tab1, e) \<Rightarrow>
             if e \<noteq> E_OK then ((m1, tab1), e) else ((PutMetadataToMap key inValue m1, tab1), E_OK)))"

section \<open>Operations on a device\<close>

text \<open>What the setters have in common: read the record, change it, save it.\<close>

definition modify_metadata ::
    "(byte list \<Rightarrow> byte list option) \<Rightarrow> bool \<Rightarrow> meta_env \<Rightarrow> (MetaDataValue \<Rightarrow> MetaDataValue) \<Rightarrow> DeviceID \<Rightarrow> bool \<Rightarrow>
     md_state \<Rightarrow> md_state \<times> errno" where
  "modify_metadata sha be env change deviceId isNeedHash s =
     (case s of (m, tab) \<Rightarrow>
      case GetMetaDataValue sha deviceId isNeedHash m of (m1, v) \<Rightarrow>
        SaveMetaDataValue sha be env deviceId (change v) (m1, tab))"

definition SaveTimeOffset ::
    "(byte list \<Rightarrow> byte list option) \<Rightarrow> bool \<Rightarrow> meta_env \<Rightarrow> u64 \<Rightarrow> DeviceID \<Rightarrow> u64 \<Rightarrow> md_state \<Rightarrow> md_state \<times> errno" where
  "SaveTimeOffset sha be env now deviceId inValue =
     modify_metadata sha be env (\<lambda>v. v\<lparr>mv_timeOffset := inValue, mv_lastUpdateTime := now\<rparr>) deviceId True"

definition SaveLocalWaterMark ::
    "(byte list \<Rightarrow> byte list option) \<Rightarrow> bool \<Rightarrow> meta_env \<Rightarrow> DeviceID \<Rightarrow> u64 \<Rightarrow> md_state \<Rightarrow> md_state \<times> errno" where
  "SaveLocalWaterMark sha be env deviceId inValue =
     modify_metadata sha be env (\<lambda>v. v\<lparr>mv_localWaterMark := inValue\<rparr>) deviceId True"

definition SavePeerWaterMark ::
    "(byte list \<Rightarrow> byte list option) \<Rightarrow> bool \<Rightarrow> meta_env \<Rightarrow> DeviceID \<Rightarrow> u64 \<Rightarrow> bool \<Rightarrow> md_state \<Rightarrow> md_state \<times> errno" where
  "SavePeerWaterMark sha be env deviceId inValue isNeedHash =
     modify_metadata sha be env (\<lambda>v. v\<lparr>mv_peerWaterMark := inValue\<rparr>) deviceId isNeedHash"

definition GetTimeOffset :: "(byte list \<Rightarrow> byte list option) \<Rightarrow> DeviceID \<Rightarrow> Metadata \<Rightarrow> Metadata \<times> u64" where
  "GetTimeOffset sha deviceId m = (case GetMetaDataValue sha deviceId True m of (m1, v) \<Rightarrow> (m1, mv_timeOffset v))"

definition GetLocalWaterMark :: "(byte list \<Rightarrow> byte list option) \<Rightarrow> DeviceID \<Rightarrow> Metadata \<Rightarrow> Metadata \<times> u64" where
  "GetLocalWaterMark sha deviceId m = (case GetMetaDataValue sha deviceId True m of (m1, v) \<Rightarrow> (m1, mv_localWaterMark v))"

definition GetPeerWaterMark :: "(byte list \<Rightarrow> byte list option) \<Rightarrow> DeviceID \<Rightarrow> Metadata \<Rightarrow> Metadata \<times> u64" where
  "GetPeerWaterMark sha deviceId m = (case GetMetaDataValue sha deviceId True m of (m1, v) \<Rightarrow> (m1, mv_peerWaterMark v))"

definition GetDbCreateTime :: "(byte list \<Rightarrow> byte list option) \<Rightarrow> DeviceID \<Rightarrow> Metadata \<Rightarrow> Metadata \<times> u64" where
  "GetDbCreateTime sha deviceId m =
     (case GetHashDeviceId sha deviceId True m of (m1, i) \<Rightarrow>
        (m1, case md_metadataMap m1 i of None \<Rightarrow> 0 | Some v \<Rightarrow> mv_dbCreateTime v))"

definition SetDbCreateTime ::
    "(byte list \<Rightarrow> byte list option) \<Rightarrow> bool \<Rightarrow> meta_env \<Rightarrow> DeviceID \<Rightarrow> u64 \<Rightarrow> bool \<Rightarrow> md_state \<Rightarrow> md_state \<times> errno" where
  "SetDbCreateTime sha be env deviceId inValue isNeedHash s =
     (case s of (m, tab) \<Rightarrow>
      case GetHashDeviceId sha deviceId isNeedHash m of (m1, i) \<Rightarrow>
        let v = (case md_metadataMap m1 i of
               None \<Rightarrow> MetaDataValue_init
             | Some v \<Rightarrow>
                 if mv_dbCreateTime v \<noteq> 0 \<and> mv_dbCreateTime v \<noteq> inValue
                 then v\<lparr>mv_clearDeviceDataMark := REMOVE_DEVICE_DATA_MARK\<rparr> else v)
        in SaveMetaDataValue sha be env deviceId (v\<lparr>mv_dbCreateTime := inValue\<rparr>) (m1, tab))"

definition ResetMetaDataAfterRemoveData ::
    "(byte list \<Rightarrow> byte list option) \<Rightarrow> bool \<Rightarrow> meta_env \<Rightarrow> DeviceID \<Rightarrow> md_state \<Rightarrow> md_state \<times> errno" where
  "ResetMetaDataAfterRemoveData sha be env deviceId s =
     (case s of (m, tab) \<Rightarrow>
      case GetHashDeviceId sha deviceId True m of (m1, i) \<Rightarrow>
        case md_metadataMap m1 i of
          None \<Rightarrow> ((m1, tab), E_NOT_FOUND)
        | Some v \<Rightarrow> SaveMetaDataValue sha be env deviceId (v\<lparr>mv_clearDeviceDataMark := 0\<rparr>) (m1, tab))"

definition GetRemoveDataMark :: "(byte list \<Rightarrow> byte list option) \<Rightarrow> DeviceID \<Rightarrow> Metadata \<Rightarrow> Metadata \<times> u64" where
  "GetRemoveDataMark sha deviceId m =
     (case GetHashDeviceId sha deviceId True m of (m1, i) \<Rightarrow>
        (m1, case md_metadataMap m1 i of None \<Rightarrow> 0 | Some v \<Rightarrow> mv_clearDeviceDataMark v))"

section \<open>Water marks of queries and deletions\<close>

text \<open>\<open>with_helper\<close> lets an operation of the helper work on its part of the state.\<close>

definition with_helper :: "(wm_state \<Rightarrow> wm_state \<times> 'a) \<Rightarrow> md_state \<Rightarrow> md_state \<times> 'a" where
  "with_helper f s = (case s of (m, tab) \<Rightarrow> case f (md_helper m, tab) of ((h, tab1), r) \<Rightarrow> ((m\<lparr>md_helper := h\<rparr>, tab1), r))"

definition GetRecvQueryWaterMark ::
    "(byte list \<Rightarrow> byte list option) \<Rightarrow> bool \<Rightarrow> wm_env \<Rightarrow> DeviceID \<Rightarrow> DeviceID \<Rightarrow> md_state \<Rightarrow> md_state \<times> u64 res" where
  "GetRecvQueryWaterMark sha be env queryIdentify deviceId s =
     (case with_helper (GetQueryWaterMark sha be env queryIdentify deviceId) s of
        (s1, Inl e) \<Rightarrow> (s1, Inl e)
      | ((m1, tab1), Inr q) \<Rightarrow>
          (case GetPeerWaterMark sha deviceId m1 of (m2, peer) \<Rightarrow> ((m2, tab1), Inr (max (qw_recvWaterMark q) peer))))"

definition GetSendQueryWaterMark ::
    "(byte list \<Rightarrow> byte list option) \<Rightarrow> bool \<Rightarrow> wm_env \<Rightarrow> DeviceID \<Rightarrow> DeviceID \<Rightarrow> bool \<Rightarrow> md_state \<Rightarrow> md_state \<times> u64 res" where
  "GetSendQueryWaterMark sha be env queryIdentify deviceId isAutoLift s =
     (case with_helper (GetQueryWaterMark sha be env queryIdentify deviceId) s of
        (s1, Inl e) \<Rightarrow> (s1, Inl e)
      | ((m1, tab1), Inr q) \<Rightarrow>
          if isAutoLift then
            (case GetLocalWaterMark sha deviceId m1 of (m2, local) \<Rightarrow> ((m2, tab1), Inr (max (qw_sendWaterMark q) local)))
          else ((m1, tab1), Inr (qw_sendWaterMark q)))"

definition GetLastQueryTime ::
    "(byte list \<Rightarrow> byte list option) \<Rightarrow> bool \<Rightarrow> wm_env \<Rightarrow> DeviceID \<Rightarrow> DeviceID \<Rightarrow> md_state \<Rightarrow> md_state \<times> u64 res" where
  "GetLastQueryTime sha be env queryIdentify deviceId s =
     (case with_helper (GetQueryWaterMark sha be env queryIdentify deviceId) s of
        (s1, Inl e) \<Rightarrow> (s1, Inl e)
      | (s1, Inr q) \<Rightarrow> (s1, Inr (qw_lastQueryTime q)))"

definition GetSendDeleteSyncWaterMark ::
    "(byte list \<Rightarrow> byte list option) \<Rightarrow> bool \<Rightarrow> wm_env \<Rightarrow> DeviceID \<Rightarrow> bool \<Rightarrow> md_state \<Rightarrow> md_state \<times> u64 res" where
  "GetSendDeleteSyncWaterMark sha be env deviceId isAutoLift s =
     (case with_helper (GetDeleteSyncWaterMark sha be env deviceId) s of ((m1, tab1), d, e) \<Rightarrow>
        if e \<noteq> E_OK then ((m1, tab1), Inl e)
        else if isAutoLift then
          (case GetLocalWaterMark sha deviceId m1 of (m2, local) \<Rightarrow> ((m2, tab1), Inr (max (dw_sendWaterMark d) local)))
        else ((m1, tab1), Inr (dw_sendWaterMark d)))"

definition GetRecvDeleteSyncWaterMark ::
    "(byte list \<Rightarrow> byte list option) \<Rightarrow> bool \<Rightarrow> wm_env \<Rightarrow> DeviceID \<Rightarrow> md_state \<Rightarrow> md_state \<times> u64 res" where
  "GetRecvDeleteSyncWaterMark sha be env deviceId s =
     (case with_helper (GetDeleteSyncWaterMark sha be env deviceId) s of ((m1, tab1), d, e) \<Rightarrow>
        if e \<noteq> E_OK then ((m1, tab1), Inl e)
        else case GetPeerWaterMark sha deviceId m1 of (m2, peer) \<Rightarrow> ((m2, tab1), Inr (max (dw_recvWaterMark d) peer)))"

text \<open>\<^verbatim>\<open>EraseDeviceWaterMark\<close> goes on after an error and reports the first one in the order of importance.\<close>

definition EraseDeviceWaterMark ::
    "(byte list \<Rightarrow> byte list option) \<Rightarrow> bool \<Rightarrow> wm_env \<Rightarrow> meta_env \<Rightarrow> meta_env \<Rightarrow> DeviceID \<Rightarrow> bool \<Rightarrow> byte list \<Rightarrow> md_state \<Rightarrow>
     md_state \<times> errno" where
  "EraseDeviceWaterMark sha be env1 env2 env3 deviceId isNeedHash tableName s =
     (case with_helper (SetRecvDeleteSyncWaterMark sha be env1 deviceId 0) s of (s1, errCodeDeleteSync) \<Rightarrow>
      case with_helper (ResetRecvQueryWaterMark sha env2 deviceId tableName) s1 of (s2, errCodeQuerySync) \<Rightarrow>
      case SavePeerWaterMark sha be env3 deviceId 0 isNeedHash s2 of (s3, errCode) \<Rightarrow>
        (s3, if errCode \<noteq> E_OK then errCode else if errCodeQuerySync \<noteq> E_OK then errCodeQuerySync else errCodeDeleteSync))"

section \<open>The local time\<close>

definition SaveLocalTimeOffset :: "meta_env \<Rightarrow> u64 \<Rightarrow> md_state \<Rightarrow> md_state \<times> errno" where
  "SaveLocalTimeOffset env timeOffset s =
     (case s of (m, tab) \<Rightarrow>
      case PutMetaData env tab LOCALTIME_OFFSET_KEY (std_to_string (sint timeOffset)) of (tab1, e) \<Rightarrow>
        ((m\<lparr>md_localTimeOffset := timeOffset\<rparr>, tab1), e))"

definition SetLastLocalTime :: "u64 \<Rightarrow> Metadata \<Rightarrow> Metadata" where
  "SetLastLocalTime lastLocalTime m = (if lastLocalTime > md_lastLocalTime m then m\<lparr>md_lastLocalTime := lastLocalTime\<rparr> else m)"

section \<open>Loading\<close>

definition LoadDeviceIdDataToMap :: "bool \<Rightarrow> meta_env \<Rightarrow> Key \<Rightarrow> md_state \<Rightarrow> md_state \<times> errno" where
  "LoadDeviceIdDataToMap be env key s =
     (case s of (m, tab) \<Rightarrow>
      case GetMetaData env tab key of
        Inl e \<Rightarrow> (s, e)
      | Inr value \<Rightarrow>
          (case DeSerializeMetaData be value MetaDataValue_init of
             Inl e \<Rightarrow> (s, e)
           | Inr v \<Rightarrow> ((PutMetadataToMap key v m, tab), E_OK)))"

definition IsMetaDataKey :: "Key \<Rightarrow> byte list \<Rightarrow> bool" where
  "IsMetaDataKey inKey expectPrefix \<longleftrightarrow>
     \<not> length inKey < length expectPrefix \<and> take (length expectPrefix) inKey = expectPrefix"

fun load_keys :: "bool \<Rightarrow> meta_env \<Rightarrow> Key list \<Rightarrow> Key list \<Rightarrow> md_state \<Rightarrow> md_state \<times> Key list res" where
  "load_keys be env [] querySyncIds s = (s, Inr querySyncIds)"
| "load_keys be env (k # ks) querySyncIds s =
     (if IsMetaDataKey k DEVICEID_PREFIX_KEY then
        (case LoadDeviceIdDataToMap be env k s of (s1, e) \<Rightarrow>
           if e \<noteq> E_OK then (s1, Inl e) else load_keys be env ks querySyncIds s1)
      else if IsMetaDataKey k QUERY_SYNC_PREFIX_KEY then load_keys be env ks (querySyncIds @ [k]) s
      else if IsMetaDataKey k DELETE_SYNC_PREFIX_KEY then
        (case with_helper (LoadDeleteSyncDataToCache be env k) s of (s1, e) \<Rightarrow>
           if e \<noteq> E_OK then (s1, Inl e) else load_keys be env ks querySyncIds s1)
      else load_keys be env ks querySyncIds s)"

definition LoadAllMetadata ::
    "bool \<Rightarrow> (nat \<Rightarrow> (Key \<times> u64) list \<Rightarrow> (Key \<times> u64) list) \<Rightarrow> meta_env \<Rightarrow> md_state \<Rightarrow> md_state \<times> errno" where
  "LoadAllMetadata be select env s =
     (case GetAllMetaKeys env (snd s) of
        Inl e \<Rightarrow> (s, e)
      | Inr keys \<Rightarrow>
          (case load_keys be env keys [] s of
             (s1, Inl e) \<Rightarrow> (s1, e)
           | ((m1, tab1), Inr querySyncIds) \<Rightarrow>
               (case RemoveLeastUsedQuerySyncItems be select env querySyncIds tab1 of (tab2, e) \<Rightarrow> ((m1, tab2), e))))"

definition Metadata_Initialize ::
    "bool \<Rightarrow> (nat \<Rightarrow> (Key \<times> u64) list \<Rightarrow> (Key \<times> u64) list) \<Rightarrow> meta_env \<Rightarrow> md_state \<Rightarrow> md_state \<times> errno" where
  "Metadata_Initialize be select env s =
     (case s of (m, tab) \<Rightarrow>
      let (s1, e) = (case GetMetaData env tab LOCALTIME_OFFSET_KEY of
             Inl e \<Rightarrow> if e = E_NOT_FOUND then SaveLocalTimeOffset env BASE_OFFSET s else (s, e)
           | Inr timeOffset \<Rightarrow> ((m\<lparr>md_localTimeOffset := StringToLong timeOffset\<rparr>, tab), E_OK))
      in if e \<noteq> E_OK then (s1, e)
         else LoadAllMetadata be select env ((fst s1)\<lparr>md_metadataMap := Map.empty\<rparr>, snd s1))"

section \<open>Subscribed queries\<close>

definition SUBSCRIBE_QUERY_PREFIX :: "byte list" where "SUBSCRIBE_QUERY_PREFIX = map of_char ''subscribe_query_''"

definition GetQueryLastTimestamp ::
    "(byte list \<Rightarrow> byte list option) \<Rightarrow> meta_env \<Rightarrow> DeviceID \<Rightarrow> byte list \<Rightarrow> md_state \<Rightarrow> Metadata \<times> u64" where
  "GetQueryLastTimestamp sha env deviceId queryId s =
     (case s of (m, tab) \<Rightarrow>
      let hashqueryId = SUBSCRIBE_QUERY_PREFIX @ TransferHashString sha queryId
      in case GetMetaData env tab hashqueryId of
           Inl e \<Rightarrow>
             if e = E_NOT_FOUND then
               (case md_queryIdMap m deviceId of
                  Some ids \<Rightarrow>
                    if hashqueryId \<notin> ids
                    then (m\<lparr>md_queryIdMap := (md_queryIdMap m)(deviceId \<mapsto> insert hashqueryId ids)\<rparr>, 0x7FFFFFFFFFFFFFFF)
                    else (m, 0)
                | None \<Rightarrow> (m\<lparr>md_queryIdMap := (md_queryIdMap m)(deviceId \<mapsto> {hashqueryId})\<rparr>, 0x7FFFFFFFFFFFFFFF))
             else (m, StringToLong [])
         | Inr value \<Rightarrow>
             (case md_queryIdMap m deviceId of
                Some ids \<Rightarrow> (m\<lparr>md_queryIdMap := (md_queryIdMap m)(deviceId \<mapsto> ids - {hashqueryId})\<rparr>, StringToLong value)
              | None \<Rightarrow> (m, StringToLong value)))"

definition RemoveQueryFromRecordSet ::
    "(byte list \<Rightarrow> byte list option) \<Rightarrow> DeviceID \<Rightarrow> byte list \<Rightarrow> Metadata \<Rightarrow> Metadata" where
  "RemoveQueryFromRecordSet sha deviceId queryId m =
     (let hashqueryId = SUBSCRIBE_QUERY_PREFIX @ TransferHashString sha queryId
      in case md_queryIdMap m deviceId of
           None \<Rightarrow> m
         | Some ids \<Rightarrow> if hashqueryId \<in> ids then m\<lparr>md_queryIdMap := (md_queryIdMap m)(deviceId \<mapsto> ids - {hashqueryId})\<rparr> else m)"

section \<open>Codecs\<close>

lemma read_digits_append:
  "list_all (\<lambda>b. 48 \<le> unat b \<and> unat b \<le> 57) ds \<Longrightarrow> read_digits acc (ds @ [b]) = read_digits (read_digits acc ds) [b]"
  by (induction ds arbitrary: acc) auto

lemma digit_byte: "n < 10 \<Longrightarrow> unat (of_nat (48 + n) :: byte) = 48 + n"
  by (rule unat_of_nat_eq) simp

lemma digits_spec: "list_all (\<lambda>b. 48 \<le> unat b \<and> unat b \<le> 57) (digits n) \<and> digits n \<noteq> [] \<and> read_digits 0 (digits n) = n"
proof (induction n rule: digits.induct)
  case (1 n)
  show ?case
  proof (cases "n < 10")
    case True
    then show ?thesis by (subst (1 2 3) digits.simps) (simp add: digit_byte del: of_nat_add)
  next
    case False
    have b: "unat (of_nat (48 + n mod 10) :: byte) = 48 + n mod 10" by (rule digit_byte) simp
    show ?thesis using 1 False
      by (subst (1 2 3) digits.simps) (simp add: read_digits_append b del: of_nat_add)
  qed
qed

lemma strtoll_to_string:
  assumes "- 9223372036854775808 \<le> i" "i \<le> 9223372036854775807"
  shows "strtoll (std_to_string i) = i"
proof -
  have h: "\<not> is_space b \<and> b \<noteq> 45 \<and> b \<noteq> 43" if "48 \<le> unat b" for b :: byte using that by (auto simp: is_space_def)
  show ?thesis
  proof (cases "i < 0")
    case True
    then show ?thesis using assms digits_spec[of "nat (- i)"] by (simp add: std_to_string_def strtoll_def is_space_def Let_def)
  next
    case False
    obtain b bs where d: "digits (nat i) = b # bs" "48 \<le> unat b" using digits_spec[of "nat i"] by (cases "digits (nat i)") auto
    then show ?thesis using False assms h[OF d(2)] digits_spec[of "nat i"] by (auto simp: std_to_string_def strtoll_def Let_def)
  qed
qed

lemma StringToLong_to_string [simp]: "StringToLong (std_to_string (sint (w :: u64))) = w"
proof -
  have "- 9223372036854775808 \<le> sint w" "sint w \<le> 9223372036854775807"
    using sint_greater_eq[of w] sint_less[of w] by simp_all
  then show ?thesis by (simp add: StringToLong_def strtoll_to_string)
qed

lemma length_mv_store [simp]: "length (mv_store be v) = 48"
  by (simp add: mv_store_def)

lemma mv_load_store [simp]: "mv_load be (mv_store be v) = v"
  by (simp add: mv_load_def mv_store_def mem_load_store mem_load_store[where rest = "[]", simplified])

lemma SerializeMetaData_eq: "SerializeMetaData be v = Inr (mv_store be v)"
  by (simp add: SerializeMetaData_def memcpy_s_def poke_def)

lemma DeSerializeMetaData_store: "DeSerializeMetaData be (mv_store be v) old = Inr v"
proof -
  have "mv_store be v \<noteq> []" using length_mv_store[of be v] by (metis length_0_conv zero_neq_numeral)
  then show ?thesis by (simp add: DeSerializeMetaData_def memcpy_s_def poke_def)
qed

section \<open>The map agrees with the table\<close>

definition map_record :: "Metadata \<Rightarrow> DeviceID \<Rightarrow> MetaDataValue" where
  "map_record m k = (case md_metadataMap m k of None \<Rightarrow> MetaDataValue_init | Some v \<Rightarrow> v)"

definition table_record :: "bool \<Rightarrow> meta_table \<Rightarrow> DeviceID \<Rightarrow> MetaDataValue res" where
  "table_record be tab k =
     (case map_of tab k of None \<Rightarrow> Inr MetaDataValue_init | Some bytes \<Rightarrow> DeSerializeMetaData be bytes MetaDataValue_init)"

definition device_key :: "(byte list \<Rightarrow> byte list option) \<Rightarrow> DeviceID \<Rightarrow> DeviceID" where
  "device_key sha dev = DEVICEID_PREFIX_KEY @ TransferHashString sha dev"

abbreviation is_device_key :: "DeviceID \<Rightarrow> bool" where
  "is_device_key k \<equiv> has_prefix DEVICEID_PREFIX_KEY k"

text \<open>The keys the helper remembers are not those of devices.\<close>

definition ids_ok :: "WaterMarkHelper \<Rightarrow> bool" where
  "ids_ok h \<longleftrightarrow> (\<forall>x i. wm_querySyncIds h x = Some i \<longrightarrow> \<not> is_device_key i) \<and>
     (\<forall>d i. wm_deleteSyncIds h d = Some i \<longrightarrow> \<not> is_device_key i)"

definition md_coherent :: "(byte list \<Rightarrow> byte list option) \<Rightarrow> bool \<Rightarrow> md_state \<Rightarrow> bool" where
  "md_coherent sha be s \<longleftrightarrow> meta_inv (snd s) \<and> ids_ok (md_helper (fst s)) \<and>
     (\<forall>d i. md_hashDeviceIds (fst s) d = Some i \<longrightarrow> i = device_key sha d) \<and>
     (\<forall>k. is_device_key k \<longrightarrow> table_record be (snd s) k = Inr (map_record (fst s) k))"

lemma device_key_prefix [simp]: "is_device_key (device_key sha dev)"
  by (simp add: has_prefix_def device_key_def)

lemma GetHashDeviceId_eq:
  assumes "md_coherent sha be (m, tab)" "GetHashDeviceId sha dev need m = (m', k)"
  shows "md_coherent sha be (m', tab)" "k = (if need then device_key sha dev else dev)" "md_metadataMap m' = md_metadataMap m"
  using assms by (auto simp: GetHashDeviceId_def md_coherent_def device_key_def map_record_def Let_def split: if_splits option.splits)

lemma GetMetaDataValue_eq:
  assumes "md_coherent sha be (m, tab)" "GetMetaDataValue sha dev need m = (m', v)"
  shows "md_coherent sha be (m', tab)" "v = map_record m (if need then device_key sha dev else dev)" "map_record m' = map_record m"
proof -
  obtain m1 k where h: "GetHashDeviceId sha dev need m = (m1, k)" by (cases "GetHashDeviceId sha dev need m")
  note e = GetHashDeviceId_eq[OF assms(1) h]
  have g: "GetMetadataFromMap k m1 = (m', v)" using assms(2) h by (simp add: GetMetaDataValue_def)
  then have "map_record m' = map_record m1" "md_hashDeviceIds m' = md_hashDeviceIds m1" "v = map_record m1 k" "md_helper m' = md_helper m1"
    by (auto simp: GetMetadataFromMap_def PutMetadataToMap_def map_record_def split: option.splits)
  moreover have "map_record m1 = map_record m" using e(3) by (simp add: map_record_def fun_eq_iff)
  ultimately show "md_coherent sha be (m', tab)" "v = map_record m (if need then device_key sha dev else dev)" "map_record m' = map_record m"
    using e(1,2) by (auto simp: md_coherent_def)
qed

text \<open>A record that is saved is in the map and in the table, or nowhere.\<close>

lemma SaveMetaDataValue_coherent:
  assumes "md_coherent sha be s" "SaveMetaDataValue sha be env dev v s = (s', e)"
  shows "md_coherent sha be s'"
    "map_record (fst s') = (if e = E_OK then (map_record (fst s))(device_key sha dev := v) else map_record (fst s))"
proof -
  obtain m tab where s: "s = (m, tab)" by (cases s)
  obtain m1 k where h: "GetHashDeviceId sha dev True m = (m1, k)" by (cases "GetHashDeviceId sha dev True m")
  note g = GetHashDeviceId_eq[OF assms(1)[unfolded s] h]
  have mr: "map_record m1 = map_record m" using g(3) by (simp add: map_record_def fun_eq_iff)
  obtain tab1 e1 where p: "PutMetaData env tab k (mv_store be v) = (tab1, e1)" by (cases "PutMetaData env tab k (mv_store be v)")
  have inv: "meta_inv tab1" using PutMetaData_inv[of tab env k "mv_store be v"] p g(1) by (simp add: md_coherent_def)
  have r: "(s', e) = (if e1 \<noteq> E_OK then ((m1, tab1), e1) else ((PutMetadataToMap k v m1, tab1), E_OK))"
    using assms(2) s h p by (simp add: SaveMetaDataValue_def SerializeMetaData_eq split: if_splits)
  have "md_coherent sha be s' \<and> map_record (fst s') = (if e = E_OK then (map_record (fst s))(device_key sha dev := v) else map_record (fst s))"
  proof (cases "e1 = E_OK")
    case True
    have m: "map_of tab1 = (map_of tab)(k \<mapsto> mv_store be v)" using PutMetaData_ok(1) p True by blast
    have u: "map_record (PutMetadataToMap k v m1) = (map_record m1)(k := v)" "md_hashDeviceIds (PutMetadataToMap k v m1) = md_hashDeviceIds m1"
      "md_helper (PutMetadataToMap k v m1) = md_helper m1"
      by (auto simp: map_record_def PutMetadataToMap_def)
    have "table_record be tab1 x = (if x = k then Inr v else table_record be tab x)" for x
      by (simp add: table_record_def m DeSerializeMetaData_store)
    then show ?thesis using r True u g(1,2) inv mr s by (auto simp: md_coherent_def)
  next
    case False
    then have "tab1 = tab" using PutMetaData_error p by blast
    then show ?thesis using r False g(1) mr s by auto
  qed
  then show "md_coherent sha be s'"
    "map_record (fst s') = (if e = E_OK then (map_record (fst s))(device_key sha dev := v) else map_record (fst s))" by auto
qed

lemma modify_metadata_coherent:
  assumes "md_coherent sha be s" "modify_metadata sha be env change dev need s = (s', e)"
  shows "md_coherent sha be s'"
    "map_record (fst s') = (if e = E_OK
       then (map_record (fst s))(device_key sha dev := change (map_record (fst s) (if need then device_key sha dev else dev)))
       else map_record (fst s))"
proof -
  obtain m tab where s: "s = (m, tab)" by (cases s)
  obtain m1 v where g: "GetMetaDataValue sha dev need m = (m1, v)" by (cases "GetMetaDataValue sha dev need m")
  note e = GetMetaDataValue_eq[OF assms(1)[unfolded s] g]
  have "SaveMetaDataValue sha be env dev (change v) (m1, tab) = (s', e)" using assms(2) s g by (simp add: modify_metadata_def)
  from SaveMetaDataValue_coherent[OF e(1) this] show "md_coherent sha be s'"
    "map_record (fst s') = (if e = E_OK
       then (map_record (fst s))(device_key sha dev := change (map_record (fst s) (if need then device_key sha dev else dev)))
       else map_record (fst s))" using e(2,3) s by auto
qed

section \<open>The helper leaves the records of devices alone\<close>

definition spares :: "(wm_state \<Rightarrow> wm_state \<times> 'a) \<Rightarrow> bool" where
  "spares f \<longleftrightarrow> (\<forall>h tab h' tab' r. f (h, tab) = ((h', tab'), r) \<longrightarrow> meta_inv tab \<longrightarrow> ids_ok h \<longrightarrow>
     meta_inv tab' \<and> ids_ok h' \<and> (\<forall>k. is_device_key k \<longrightarrow> map_of tab' k = map_of tab k))"

lemma with_helper_coherent:
  assumes "spares f" "md_coherent sha be s" "with_helper f s = (s', r)"
  shows "md_coherent sha be s'" "map_record (fst s') = map_record (fst s)"
proof -
  obtain m tab where s: "s = (m, tab)" by (cases s)
  obtain h1 tab1 where f: "f (md_helper m, tab) = ((h1, tab1), r)" and s': "s' = (m\<lparr>md_helper := h1\<rparr>, tab1)"
    using assms(3) s by (auto simp: with_helper_def split: prod.splits)
  have "meta_inv tab" "ids_ok (md_helper m)" using assms(2) by (auto simp: md_coherent_def s)
  then have "meta_inv tab1 \<and> ids_ok h1 \<and> (\<forall>k. is_device_key k \<longrightarrow> map_of tab1 k = map_of tab k)"
    using assms(1) f unfolding spares_def by blast
  moreover show "map_record (fst s') = map_record (fst s)" by (simp add: s s' map_record_def fun_eq_iff)
  ultimately show "md_coherent sha be s'" using assms(2) by (simp add: md_coherent_def s s' table_record_def)
qed

lemma PutMetaData_spares:
  assumes "PutMetaData env tab k v = (tab', e)" "meta_inv tab" "\<not> is_device_key k"
  shows "meta_inv tab'" "\<forall>k'. is_device_key k' \<longrightarrow> map_of tab' k' = map_of tab k'"
proof -
  show "meta_inv tab'" using PutMetaData_inv[OF assms(2), of env k v] assms(1) by simp
  show "\<forall>k'. is_device_key k' \<longrightarrow> map_of tab' k' = map_of tab k'"
  proof (cases "e = E_OK")
    case True
    then show ?thesis using PutMetaData_ok(1) assms(1,3) by fastforce
  qed (use PutMetaData_error assms(1) in blast)
qed

lemma prefixes_differ: "\<not> is_device_key (QUERY_SYNC_PREFIX_KEY @ x)" "\<not> is_device_key (DELETE_SYNC_PREFIX_KEY @ x)"
  by (simp_all add: has_prefix_def DEVICEID_PREFIX_KEY_def QUERY_SYNC_PREFIX_KEY_def DELETE_SYNC_PREFIX_KEY_def)

lemma hash_id_spares:
  "GetHashQuerySyncDeviceId sha d q h = (h', k) \<Longrightarrow> ids_ok h \<Longrightarrow> ids_ok h' \<and> \<not> is_device_key k"
  "GetHashDeleteSyncDeviceId sha d h = (h', k) \<Longrightarrow> ids_ok h \<Longrightarrow> ids_ok h' \<and> \<not> is_device_key k"
  using prefixes_differ
  by (auto simp: GetHashQuerySyncDeviceId_def GetHashDeleteSyncDeviceId_def ids_ok_def Let_def split: option.splits if_splits)

lemma spares_intro:
  assumes "\<And>h tab. meta_inv tab \<Longrightarrow> ids_ok h \<Longrightarrow> meta_inv (snd (fst (f (h, tab)))) \<and> ids_ok (fst (fst (f (h, tab)))) \<and>
    (\<forall>k. is_device_key k \<longrightarrow> map_of (snd (fst (f (h, tab)))) k = map_of tab k)"
  shows "spares f"
  unfolding spares_def using assms by (metis fst_conv snd_conv)

lemma save_query_spares:
  assumes "meta_inv tab" "\<not> is_device_key k"
  shows "meta_inv (fst (SaveQueryWaterMarkToDB be env k q tab)) \<and>
    (\<forall>k'. is_device_key k' \<longrightarrow> map_of (fst (SaveQueryWaterMarkToDB be env k q tab)) k' = map_of tab k')"
  using PutMetaData_spares[OF _ assms] assms(1)
  by (auto simp: SaveQueryWaterMarkToDB_def split: sum.split) (metis prod.collapse)+

lemma fetch_spares:
  assumes "meta_inv tab" "ids_ok h" "\<not> is_device_key k" "GetQueryWaterMarkInCacheAndDb be env k (h, tab) = ((h', tab'), r)"
  shows "meta_inv tab' \<and> ids_ok h' \<and> (\<forall>k'. is_device_key k' \<longrightarrow> map_of tab' k' = map_of tab k')"
proof -
  have i: "ids_ok (h\<lparr>wm_querySyncCache := c\<rparr>) = ids_ok h" for c by (simp add: ids_ok_def)
  have p: "PutQueryWaterMarkToDB be e clock k q tab = (tab1, q1, e1) \<Longrightarrow>
      meta_inv tab1 \<and> (\<forall>k'. is_device_key k' \<longrightarrow> map_of tab1 k' = map_of tab k')" for e clock q tab1 q1 e1
    using save_query_spares[OF assms(1,3)] assms(1)
    by (auto simp: PutQueryWaterMarkToDB_def Let_def split: sum.splits prod.splits) (metis fst_conv)+
  show ?thesis
  proof (cases "LruMap_Get k (wm_querySyncCache h)")
    case (Pair c g)
    show ?thesis using assms(1,2,4) Pair i p
      by (cases g; cases "GetQueryWaterMarkFromDB be (we_store env 0) k QueryWaterMark_init tab")
        (auto simp: GetQueryWaterMarkInCacheAndDb_def cache_put_def split: if_splits prod.splits)
  qed
qed

lemma get_query_spares: "spares (GetQueryWaterMark sha be env q d)"
proof (rule spares_intro)
  fix h tab assume inv: "meta_inv tab" "ids_ok h"
  obtain h1 k where g: "GetHashQuerySyncDeviceId sha d q h = (h1, k)" by (cases "GetHashQuerySyncDeviceId sha d q h")
  note k = hash_id_spares(1)[OF g inv(2)]
  let ?f = "GetQueryWaterMarkInCacheAndDb be env k (h1, tab)"
  have "?f = ((fst (fst ?f), snd (fst ?f)), snd ?f)" by simp
  from fetch_spares[OF inv(1) _ _ this] k g
  show "meta_inv (snd (fst (GetQueryWaterMark sha be env q d (h, tab)))) \<and> ids_ok (fst (fst (GetQueryWaterMark sha be env q d (h, tab)))) \<and>
      (\<forall>k'. is_device_key k' \<longrightarrow> map_of (snd (fst (GetQueryWaterMark sha be env q d (h, tab)))) k' = map_of tab k')"
    by (simp add: GetQueryWaterMark_def)
qed

lemma update_query_spares:
  assumes "meta_inv tab" "ids_ok h" "\<not> is_device_key k" "UpdateCacheAndSave be env k q (h, tab) = ((h', tab'), r)"
  shows "meta_inv tab' \<and> ids_ok h' \<and> (\<forall>k'. is_device_key k' \<longrightarrow> map_of tab' k' = map_of tab k')"
proof (cases "we_clock env 1")
  case (Inl e)
  then show ?thesis using assms by (simp add: UpdateCacheAndSave_def)
next
  case (Inr t)
  have i: "ids_ok (cache_put k q h) = ids_ok h" for q by (simp add: ids_ok_def cache_put_def)
  obtain tab1 e where p: "SaveQueryWaterMarkToDB be (we_store env 1) k (q\<lparr>qw_lastUsedTime := t\<rparr>) tab = (tab1, e)"
    by (cases "SaveQueryWaterMarkToDB be (we_store env 1) k (q\<lparr>qw_lastUsedTime := t\<rparr>) tab")
  then show ?thesis using assms Inr i save_query_spares[OF assms(1,3), of be "we_store env 1" "q\<lparr>qw_lastUsedTime := t\<rparr>"]
    by (auto simp: UpdateCacheAndSave_def Let_def split: if_splits)
qed

lemma modify_query_spares: "spares (modify_query_mark sha be env change q d)"
proof (rule spares_intro)
  fix h tab assume inv: "meta_inv tab" "ids_ok h"
  obtain h1 k where g: "GetHashQuerySyncDeviceId sha d q h = (h1, k)" by (cases "GetHashQuerySyncDeviceId sha d q h")
  note k = hash_id_spares(1)[OF g inv(2)]
  obtain h2 tab2 r where f: "GetQueryWaterMarkInCacheAndDb be env k (h1, tab) = ((h2, tab2), r)"
    by (cases "GetQueryWaterMarkInCacheAndDb be env k (h1, tab)") auto
  have s: "meta_inv tab2 \<and> ids_ok h2 \<and> (\<forall>k'. is_device_key k' \<longrightarrow> map_of tab2 k' = map_of tab k')"
    using fetch_spares[OF inv(1) _ _ f] k by blast
  let ?f = "modify_query_mark sha be env change q d (h, tab)"
  have "meta_inv (snd (fst ?f)) \<and> ids_ok (fst (fst ?f)) \<and> (\<forall>k'. is_device_key k' \<longrightarrow> map_of (snd (fst ?f)) k' = map_of tab2 k')"
  proof (cases r)
    case (Inr q0)
    then have "?f = UpdateCacheAndSave be env k (change q0) (h2, tab2)" using f g by (simp add: modify_query_mark_def)
    then show ?thesis using update_query_spares[of tab2 h2 k be env "change q0"] s k by (metis prod.collapse)
  qed (use f g s in \<open>simp add: modify_query_mark_def\<close>)
  then show "meta_inv (snd (fst ?f)) \<and> ids_ok (fst (fst ?f)) \<and> (\<forall>k'. is_device_key k' \<longrightarrow> map_of (snd (fst ?f)) k' = map_of tab k')"
    using s by simp
qed

lemma get_delete_cache:
  "\<exists>c. fst (GetDeleteWaterMarkFromCache be env k d (h, tab)) = (h\<lparr>wm_deleteSyncCache := c\<rparr>, tab)"
  by (cases "wm_deleteSyncCache h k"; cases "GetDeleteWaterMarkFromDB be env k (DeleteWaterMark_init\<lparr>dw_version := DELETE_WATERMARK_VERSION_CURRENT\<rparr>) tab")
    (auto simp: GetDeleteWaterMarkFromCache_def Let_def intro: exI[of _ "wm_deleteSyncCache h"])

lemma ids_ok_delete_cache [simp]: "ids_ok (h\<lparr>wm_deleteSyncCache := c\<rparr>) = ids_ok h"
  by (simp add: ids_ok_def)

lemma get_delete_spares: "spares (GetDeleteSyncWaterMark sha be env d)"
proof (rule spares_intro)
  fix h tab assume inv: "meta_inv tab" "ids_ok h"
  obtain h1 k where g: "GetHashDeleteSyncDeviceId sha d h = (h1, k)" by (cases "GetHashDeleteSyncDeviceId sha d h")
  obtain c where "fst (GetDeleteWaterMarkFromCache be (we_store env 0) k DeleteWaterMark_init (h1, tab)) = (h1\<lparr>wm_deleteSyncCache := c\<rparr>, tab)"
    using get_delete_cache by blast
  then show "meta_inv (snd (fst (GetDeleteSyncWaterMark sha be env d (h, tab)))) \<and> ids_ok (fst (fst (GetDeleteSyncWaterMark sha be env d (h, tab)))) \<and>
      (\<forall>k'. is_device_key k' \<longrightarrow> map_of (snd (fst (GetDeleteSyncWaterMark sha be env d (h, tab)))) k' = map_of tab k')"
    using hash_id_spares(2)[OF g inv(2)] g inv by (simp add: GetDeleteSyncWaterMark_def)
qed

lemma update_delete_spares:
  assumes "meta_inv tab" "ids_ok h" "\<not> is_device_key k"
  shows "meta_inv (snd (fst (UpdateDeleteSyncCacheAndSave be env k d (h, tab)))) \<and>
    ids_ok (fst (fst (UpdateDeleteSyncCacheAndSave be env k d (h, tab)))) \<and>
    (\<forall>k'. is_device_key k' \<longrightarrow> map_of (snd (fst (UpdateDeleteSyncCacheAndSave be env k d (h, tab)))) k' = map_of tab k')"
proof (cases "SerializeDeleteWaterMark be d")
  case (Inl e)
  then show ?thesis using assms by (simp add: UpdateDeleteSyncCacheAndSave_def SaveDeleteWaterMarkToDB_def)
next
  case (Inr b)
  obtain tab1 e where p: "PutMetaData env tab k b = (tab1, e)" by (cases "PutMetaData env tab k b")
  then show ?thesis using Inr assms PutMetaData_spares[OF p assms(1,3)]
    by (simp add: UpdateDeleteSyncCacheAndSave_def SaveDeleteWaterMarkToDB_def)
qed

lemma modify_delete_spares: "spares (modify_delete_mark sha be env change d)"
proof (rule spares_intro)
  fix h tab assume inv: "meta_inv tab" "ids_ok h"
  obtain h1 k where g: "GetHashDeleteSyncDeviceId sha d h = (h1, k)" by (cases "GetHashDeleteSyncDeviceId sha d h")
  note k = hash_id_spares(2)[OF g inv(2)]
  obtain c d1 e where c: "GetDeleteWaterMarkFromCache be (we_store env 0) k DeleteWaterMark_init (h1, tab) =
      ((h1\<lparr>wm_deleteSyncCache := c\<rparr>, tab), d1, e)"
    using get_delete_cache by (metis prod.collapse)
  have "ids_ok (h1\<lparr>wm_deleteSyncCache := c\<rparr>)" using k by simp
  from update_delete_spares[OF inv(1) this, of k be "we_store env 1" "change d1"] k g c
  show "meta_inv (snd (fst (modify_delete_mark sha be env change d (h, tab)))) \<and> ids_ok (fst (fst (modify_delete_mark sha be env change d (h, tab)))) \<and>
      (\<forall>k'. is_device_key k' \<longrightarrow> map_of (snd (fst (modify_delete_mark sha be env change d (h, tab)))) k' = map_of tab k')"
    by (simp add: modify_delete_mark_def)
qed

lemma reset_spares: "spares (ResetRecvQueryWaterMark sha env d t)"
proof (rule spares_intro)
  fix h tab assume inv: "meta_inv tab" "ids_ok h"
  let ?pre = "QUERY_SYNC_PREFIX_KEY @ TransferHashString sha d @ (if t = [] then [] else TransferStringToHex (TransferHashString sha t))"
  obtain tab1 e where p: "DeleteMetaDataByPrefixKey env tab ?pre = (tab1, e)" by (cases "DeleteMetaDataByPrefixKey env tab ?pre")
  have i: "ids_ok (h\<lparr>wm_querySyncCache := c\<rparr>) = ids_ok h" for c by (simp add: ids_ok_def)
  have "take (length ?pre) k \<noteq> ?pre" if "is_device_key k" for k
  proof
    assume "take (length ?pre) k = ?pre"
    then obtain x where "k = ?pre @ x" by (metis append_take_drop_id)
    then show False using that prefixes_differ(1) by (metis append.assoc)
  qed
  then have "meta_inv tab1 \<and> (\<forall>k. is_device_key k \<longrightarrow> map_of tab1 k = map_of tab k)"
    using DeleteMetaDataByPrefixKey_ok[of env tab ?pre tab1] p inv(1)
    by (cases "e = E_OK") (auto simp: DeleteMetaDataByPrefixKey_def split: if_splits)
  then show "meta_inv (snd (fst (ResetRecvQueryWaterMark sha env d t (h, tab)))) \<and> ids_ok (fst (fst (ResetRecvQueryWaterMark sha env d t (h, tab)))) \<and>
      (\<forall>k'. is_device_key k' \<longrightarrow> map_of (snd (fst (ResetRecvQueryWaterMark sha env d t (h, tab)))) k' = map_of tab k')"
    using p inv i by (simp add: ResetRecvQueryWaterMark_def Let_def)
qed

section \<open>Restart\<close>

lemma IsMetaDataKey_eq: "IsMetaDataKey k pre = has_prefix pre k"
  by (auto simp: IsMetaDataKey_def has_prefix_def dest: arg_cong[of _ _ length])

definition loaded :: "bool \<Rightarrow> meta_table \<Rightarrow> Key set \<Rightarrow> Metadata \<Rightarrow> Metadata \<Rightarrow> bool" where
  "loaded be tab K m m' \<longleftrightarrow> md_hashDeviceIds m' = md_hashDeviceIds m \<and> (ids_ok (md_helper m) \<longrightarrow> ids_ok (md_helper m')) \<and>
     md_localTimeOffset m' = md_localTimeOffset m \<and>
     (\<forall>k. if k \<in> K \<and> is_device_key k then md_metadataMap m' k \<noteq> None \<and> table_record be tab k = Inr (map_record m' k)
          else md_metadataMap m' k = md_metadataMap m k)"

lemma load_device:
  assumes "LoadDeviceIdDataToMap be env k (m, tab) = ((m', tab'), E_OK)"
  shows "tab' = tab" "\<exists>v. table_record be tab k = Inr v \<and> m' = PutMetadataToMap k v m"
  using assms
  by (auto simp: LoadDeviceIdDataToMap_def GetMetaData_def table_record_def DeSerializeMetaData_def split: sum.splits option.splits if_splits)

lemma load_delete:
  assumes "with_helper (LoadDeleteSyncDataToCache be env k) (m, tab) = ((m', tab'), E_OK)"
  shows "tab' = tab \<and> (\<exists>c. m' = m\<lparr>md_helper := (md_helper m)\<lparr>wm_deleteSyncCache := c\<rparr>\<rparr>)"
  using assms
  by (auto simp: with_helper_def LoadDeleteSyncDataToCache_def split: sum.splits prod.splits
      intro: exI[of _ "wm_deleteSyncCache (md_helper m')"])

lemma loaded_insert:
  assumes "loaded be tab K (PutMetadataToMap k v m) m'" "table_record be tab k = Inr v" "is_device_key k"
  shows "loaded be tab (insert k K) m m'"
proof -
  have a: "if x \<in> K \<and> is_device_key x then md_metadataMap m' x \<noteq> None \<and> table_record be tab x = Inr (map_record m' x)
      else md_metadataMap m' x = ((md_metadataMap m)(k \<mapsto> v)) x" for x
    using assms(1) by (simp add: loaded_def PutMetadataToMap_def)
  have "if x \<in> insert k K \<and> is_device_key x then md_metadataMap m' x \<noteq> None \<and> table_record be tab x = Inr (map_record m' x)
      else md_metadataMap m' x = md_metadataMap m x" for x
    using a[of x] assms(2,3) by (cases "x = k"; cases "x \<in> K") (simp_all add: map_record_def split: if_splits)
  then show ?thesis using assms(1) by (simp add: loaded_def PutMetadataToMap_def)
qed

lemma loaded_skip:
  assumes "\<not> is_device_key k" shows "loaded be tab (insert k K) m m' = loaded be tab K m m'"
proof -
  have "(x \<in> insert k K \<and> is_device_key x) = (x \<in> K \<and> is_device_key x)" for x using assms by auto
  then show ?thesis unfolding loaded_def by simp
qed

lemma load_keys_spec:
  assumes "load_keys be env ks ids (m, tab) = ((m', tab'), Inr ids')"
  shows "tab' = tab \<and> loaded be tab (set ks) m m' \<and> (\<forall>i \<in> set ids'. i \<in> set ids \<or> has_prefix QUERY_SYNC_PREFIX_KEY i)"
  using assms
proof (induction ks arbitrary: ids m tab)
  case Nil
  then show ?case by (simp add: loaded_def)
next
  case (Cons k ks)
  show ?case
  proof (cases "is_device_key k")
    case True
    obtain m1 tab1 where l: "LoadDeviceIdDataToMap be env k (m, tab) = ((m1, tab1), E_OK)"
      and r: "load_keys be env ks ids (m1, tab1) = ((m', tab'), Inr ids')"
      using Cons.prems True by (auto simp: IsMetaDataKey_eq split: prod.splits if_splits)
    obtain v where v: "table_record be tab k = Inr v" "m1 = PutMetadataToMap k v m" and t: "tab1 = tab" using load_device[OF l] by blast
    have "loaded be tab (set ks) m1 m'" using Cons.IH[OF r[unfolded t]] by blast
    then have "loaded be tab (set (k # ks)) m m'" using loaded_insert[OF _ v(1) True] v(2) by simp
    then show ?thesis using Cons.IH[OF r[unfolded t]] by blast
  next
    case nd: False
    show ?thesis
    proof (cases "has_prefix QUERY_SYNC_PREFIX_KEY k")
      case True
      then have r: "load_keys be env ks (ids @ [k]) (m, tab) = ((m', tab'), Inr ids')" using Cons.prems nd by (simp add: IsMetaDataKey_eq)
      show ?thesis using Cons.IH[OF r] True loaded_skip[OF nd] by auto
    next
      case nq: False
      obtain m1 where r: "load_keys be env ks ids (m1, tab) = ((m', tab'), Inr ids')"
        and m1: "\<exists>c. m1 = m\<lparr>md_helper := (md_helper m)\<lparr>wm_deleteSyncCache := c\<rparr>\<rparr>"
      proof (cases "has_prefix DELETE_SYNC_PREFIX_KEY k")
        case True
        then obtain m1 tab1 where "with_helper (LoadDeleteSyncDataToCache be env k) (m, tab) = ((m1, tab1), E_OK)"
          and "load_keys be env ks ids (m1, tab1) = ((m', tab'), Inr ids')"
          using Cons.prems nd nq by (auto simp: IsMetaDataKey_eq split: prod.splits if_splits)
        then show ?thesis using load_delete[of be env k m tab m1 tab1] that by blast
      next
        case False
        then have "load_keys be env ks ids (m, tab) = ((m', tab'), Inr ids')" using Cons.prems nd nq by (simp add: IsMetaDataKey_eq)
        then show ?thesis by (rule that) (auto intro: exI[of _ "wm_deleteSyncCache (md_helper m)"])
      qed
      have "loaded be tab (set ks) m m'" using Cons.IH[OF r] m1 by (auto simp: loaded_def)
      then show ?thesis using Cons.IH[OF r] loaded_skip[OF nd] by simp
    qed
  qed
qed

lemma load_keys_code: "snd (load_keys be env ks ids s) \<noteq> Inl E_OK"
  by (induction be env ks ids s rule: load_keys.induct) (auto split: prod.splits)

lemma classify_subset:
  "classify_items be env tab ids good broken = (good', broken') \<Longrightarrow>
     fst ` set good' \<union> set broken' \<subseteq> fst ` set good \<union> set broken \<union> set ids"
  by (induction be env tab ids good broken rule: classify_items.induct) (auto split: sum.splits)

definition selects :: "(nat \<Rightarrow> (Key \<times> u64) list \<Rightarrow> (Key \<times> u64) list) \<Rightarrow> bool" where
  "selects select \<longleftrightarrow> (\<forall>n xs. mset (select n xs) = mset xs)"

lemma least_used_deletes:
  assumes "selects select" "RemoveLeastUsedQuerySyncItems be select env ids tab = (tab', e)"
  shows "\<exists>gone. set gone \<subseteq> set ids \<and> (tab' = tab \<or> tab' = filter (\<lambda>(k, v). k \<notin> set gone) tab)"
proof -
  obtain good broken where c: "classify_items be env tab ids [] [] = (good, broken)" by (cases "classify_items be env tab ids [] []")
  note sub = classify_subset[OF c]
  have d: "\<exists>gone. set gone \<subseteq> set ids \<and> (tab' = tab \<or> tab' = filter (\<lambda>(k, v). k \<notin> set gone) tab)"
    if "DeleteMetaData env tab ks = (tab', e)" "set ks \<subseteq> set ids" for ks
    using that by (auto simp: DeleteMetaData_def split: if_splits)
  let ?n = "length good - MAX_STORE_ITEMS - length broken"
  have "set (take ?n (select ?n good)) \<subseteq> set (select ?n good)" by (rule set_take_subset)
  also have "\<dots> = set good" using assms(1) unfolding selects_def by (metis set_mset_mset)
  finally have s: "set (broken @ map fst (take ?n (select ?n good))) \<subseteq> set ids" using sub by auto
  have b: "set broken \<subseteq> set ids" using sub by simp
  consider "tab' = tab" | "DeleteMetaData env tab broken = (tab', e)"
    | "DeleteMetaData env tab (broken @ map fst (take ?n (select ?n good))) = (tab', e)"
    using assms(2) c unfolding RemoveLeastUsedQuerySyncItems_def by (simp add: Let_def split: if_splits)
  then show ?thesis using d[OF _ b] d[OF _ s] by cases (auto intro: exI[of _ "[]"])
qed

lemma query_not_device: "has_prefix QUERY_SYNC_PREFIX_KEY k \<Longrightarrow> \<not> is_device_key k"
  using prefixes_differ(1) by (metis append_take_drop_id has_prefix_def)

lemma LoadAll_ok:
  assumes "LoadAllMetadata be select env (m, tab) = ((m', tab'), E_OK)"
  obtains ids where "load_keys be env (map fst tab) [] (m, tab) = ((m', tab), Inr ids)"
    "RemoveLeastUsedQuerySyncItems be select env ids tab = (tab', E_OK)"
proof -
  obtain s1 r where l: "load_keys be env (map fst tab) [] (m, tab) = (s1, r)" by (cases "load_keys be env (map fst tab) [] (m, tab)")
  have k: "me_keys env = E_OK" using assms by (auto simp: LoadAllMetadata_def GetAllMetaKeys_def split: if_splits)
  have "r \<noteq> Inl E_OK" using load_keys_code[of be env "map fst tab" "[]" "(m, tab)"] l by simp
  then obtain ids where r: "r = Inr ids" using assms l k
    by (cases r) (auto simp: LoadAllMetadata_def GetAllMetaKeys_def split: prod.splits)
  obtain m1 tab1 where s1: "s1 = (m1, tab1)" by (cases s1)
  have "tab1 = tab" using load_keys_spec[of be env "map fst tab" "[]" m tab m1 tab1 ids] l r s1 by simp
  then show ?thesis using that[of ids] assms l r s1 k
    by (auto simp: LoadAllMetadata_def GetAllMetaKeys_def split: prod.splits)
qed

lemma Initialize_coherent:
  assumes "meta_inv tab" "ids_ok (md_helper m)" "\<forall>d i. md_hashDeviceIds m d = Some i \<longrightarrow> i = device_key sha d" "selects select"
    and r: "Metadata_Initialize be select env (m, tab) = ((m', tab'), E_OK)"
  shows "md_coherent sha be (m', tab')" "\<forall>k. is_device_key k \<longrightarrow> table_record be tab' k = table_record be tab k"
proof -
  obtain m1 tab1 where i: "md_helper m1 = md_helper m" "md_hashDeviceIds m1 = md_hashDeviceIds m" "meta_inv tab1"
      "\<forall>k. is_device_key k \<longrightarrow> map_of tab1 k = map_of tab k"
    and a: "LoadAllMetadata be select env (m1\<lparr>md_metadataMap := Map.empty\<rparr>, tab1) = ((m', tab'), E_OK)"
  proof (cases "GetMetaData env tab LOCALTIME_OFFSET_KEY")
    case (Inl e)
    obtain tab1 e1 where p: "PutMetaData env tab LOCALTIME_OFFSET_KEY (std_to_string (sint BASE_OFFSET)) = (tab1, e1)"
      by (cases "PutMetaData env tab LOCALTIME_OFFSET_KEY (std_to_string (sint BASE_OFFSET))")
    have "\<not> is_device_key LOCALTIME_OFFSET_KEY"
      by (simp add: has_prefix_def LOCALTIME_OFFSET_KEY_def DEVICEID_PREFIX_KEY_def)
    note q = PutMetaData_spares[OF p assms(1) this]
    show ?thesis using r Inl p q that[of "m\<lparr>md_localTimeOffset := BASE_OFFSET\<rparr>" tab1] that[of m tab] assms(1)
      by (auto simp: Metadata_Initialize_def SaveLocalTimeOffset_def split: if_splits)
  next
    case (Inr b)
    show ?thesis using r Inr that[of "m\<lparr>md_localTimeOffset := StringToLong b\<rparr>" tab] assms(1)
      by (simp add: Metadata_Initialize_def)
  qed
  obtain ids where l: "load_keys be env (map fst tab1) [] (m1\<lparr>md_metadataMap := Map.empty\<rparr>, tab1) = ((m', tab1), Inr ids)"
    and d: "RemoveLeastUsedQuerySyncItems be select env ids tab1 = (tab', E_OK)"
    by (rule LoadAll_ok[OF a])
  note sp = load_keys_spec[OF l]
  obtain gone where g: "set gone \<subseteq> set ids" "tab' = tab1 \<or> tab' = filter (\<lambda>(k, v). k \<notin> set gone) tab1"
    using least_used_deletes[OF assms(4) d] by blast
  have "\<not> is_device_key k" if "k \<in> set gone" for k using that g(1) sp query_not_device by auto
  then have t: "map_of tab' k = map_of tab k" if "is_device_key k" for k using g(2) i(4) that by (auto simp: map_of_filter_key)
  then show "\<forall>k. is_device_key k \<longrightarrow> table_record be tab' k = table_record be tab k" by (simp add: table_record_def)
  have "table_record be tab' k = Inr (map_record m' k)" if k: "is_device_key k" for k
  proof -
    have l: "if k \<in> fst ` set tab1 \<and> is_device_key k then md_metadataMap m' k \<noteq> None \<and> table_record be tab1 k = Inr (map_record m' k)
        else md_metadataMap m' k = None" using sp by (simp add: loaded_def)
    show ?thesis
    proof (cases "k \<in> fst ` set tab1")
      case True
      then have "table_record be tab1 k = Inr (map_record m' k)" using l k by simp
      then show ?thesis using t[OF k] i(4) k by (simp add: table_record_def)
    next
      case False
      then have "map_of tab1 k = None" by (simp add: map_of_eq_None_iff)
      then have "map_of tab' k = None" "md_metadataMap m' k = None" using t[OF k] i(4) k l False by simp_all
      then show ?thesis by (simp add: table_record_def map_record_def)
    qed
  qed
  moreover have "meta_inv tab'" using g(2) i(3) filter_meta_inv by blast
  moreover have "ids_ok (md_helper m')" "md_hashDeviceIds m' = md_hashDeviceIds m" using sp i(1,2) assms(2) by (simp_all add: loaded_def)
  ultimately show "md_coherent sha be (m', tab')" using assms(3) by (simp add: md_coherent_def)
qed

section \<open>Reachable states\<close>

text \<open>
  Any sequence of the operations, whatever the store answers, from a new store on; a restart reads the
  table into a new object. The helper is used through \<open>with_helper\<close>.
\<close>

inductive md_reach :: "(byte list \<Rightarrow> byte list option) \<Rightarrow> bool \<Rightarrow> md_state \<Rightarrow> bool" for sha be where
  new: "md_reach sha be (Metadata_init, [])"
| time_offset: "md_reach sha be s \<Longrightarrow> md_reach sha be (fst (SaveTimeOffset sha be env now dev x s))"
| local_mark: "md_reach sha be s \<Longrightarrow> md_reach sha be (fst (SaveLocalWaterMark sha be env dev x s))"
| peer_mark: "md_reach sha be s \<Longrightarrow> md_reach sha be (fst (SavePeerWaterMark sha be env dev x need s))"
| create_time: "md_reach sha be s \<Longrightarrow> md_reach sha be (fst (SetDbCreateTime sha be env dev x need s))"
| data_removed: "md_reach sha be s \<Longrightarrow> md_reach sha be (fst (ResetMetaDataAfterRemoveData sha be env dev s))"
| query_read: "md_reach sha be s \<Longrightarrow> md_reach sha be (fst (with_helper (GetQueryWaterMark sha be wenv query dev) s))"
| query_send: "md_reach sha be s \<Longrightarrow> md_reach sha be (fst (with_helper (SetSendQueryWaterMark sha be wenv query dev x) s))"
| query_recv: "md_reach sha be s \<Longrightarrow> md_reach sha be (fst (with_helper (SetRecvQueryWaterMark sha be wenv query dev x) s))"
| query_time: "md_reach sha be s \<Longrightarrow> md_reach sha be (fst (with_helper (SetLastQueryTime sha be wenv query dev x) s))"
| delete_read: "md_reach sha be s \<Longrightarrow> md_reach sha be (fst (with_helper (GetDeleteSyncWaterMark sha be wenv dev) s))"
| delete_send: "md_reach sha be s \<Longrightarrow> md_reach sha be (fst (with_helper (SetSendDeleteSyncWaterMark sha be wenv dev x) s))"
| delete_recv: "md_reach sha be s \<Longrightarrow> md_reach sha be (fst (with_helper (SetRecvDeleteSyncWaterMark sha be wenv dev x) s))"
| erase: "md_reach sha be s \<Longrightarrow> md_reach sha be (fst (EraseDeviceWaterMark sha be wenv env1 env2 dev need tableName s))"
| local_offset: "md_reach sha be s \<Longrightarrow> md_reach sha be (fst (SaveLocalTimeOffset env x s))"
| looked_up: "md_reach sha be (m, tab) \<Longrightarrow> md_reach sha be (fst (GetMetaDataValue sha dev need m), tab)"
| hashed: "md_reach sha be (m, tab) \<Longrightarrow> md_reach sha be (fst (GetHashDeviceId sha dev need m), tab)"
| last_time: "md_reach sha be (m, tab) \<Longrightarrow> md_reach sha be (SetLastLocalTime x m, tab)"
| restart: "md_reach sha be (m, tab) \<Longrightarrow> selects select \<Longrightarrow>
    Metadata_Initialize be select env (Metadata_init, tab) = (s', E_OK) \<Longrightarrow> md_reach sha be s'"

lemma init_coherent: "meta_inv tab \<Longrightarrow> selects select \<Longrightarrow> Metadata_Initialize be select env (Metadata_init, tab) = (s', E_OK) \<Longrightarrow>
    md_coherent sha be s' \<and> (\<forall>k. is_device_key k \<longrightarrow> table_record be (snd s') k = table_record be tab k)"
  using Initialize_coherent[of tab Metadata_init sha select be env "fst s'" "snd s'"]
  by (simp add: Metadata_init_def ids_ok_def WaterMarkHelper_init_def)

lemma SetDbCreateTime_coherent:
  assumes "md_coherent sha be s" shows "md_coherent sha be (fst (SetDbCreateTime sha be env dev x need s))"
proof -
  obtain m tab where s: "s = (m, tab)" by (cases s)
  obtain m1 i where h: "GetHashDeviceId sha dev need m = (m1, i)" by (cases "GetHashDeviceId sha dev need m")
  note c = GetHashDeviceId_eq(1)[OF assms[unfolded s] h]
  show ?thesis unfolding s SetDbCreateTime_def using h SaveMetaDataValue_coherent(1)[OF c prod.collapse[symmetric]] by (simp add: Let_def)
qed

lemma ResetMetaData_coherent:
  assumes "md_coherent sha be s" shows "md_coherent sha be (fst (ResetMetaDataAfterRemoveData sha be env dev s))"
proof -
  obtain m tab where s: "s = (m, tab)" by (cases s)
  obtain m1 i where h: "GetHashDeviceId sha dev True m = (m1, i)" by (cases "GetHashDeviceId sha dev True m")
  note c = GetHashDeviceId_eq(1)[OF assms[unfolded s] h]
  show ?thesis unfolding s ResetMetaDataAfterRemoveData_def using h c SaveMetaDataValue_coherent(1)[OF c prod.collapse[symmetric]]
    by (simp split: option.split)
qed

lemma Erase_coherent:
  assumes "md_coherent sha be s" "EraseDeviceWaterMark sha be wenv env1 env2 dev need tableName s = (s', e)"
  shows "md_coherent sha be s'" "\<exists>saved. (e = E_OK \<longrightarrow> saved) \<and> map_record (fst s') = (if saved
       then (map_record (fst s))(device_key sha dev :=
         (map_record (fst s) (if need then device_key sha dev else dev))\<lparr>mv_peerWaterMark := 0\<rparr>)
       else map_record (fst s))"
proof -
  obtain s1 e1 where a: "with_helper (SetRecvDeleteSyncWaterMark sha be wenv dev 0) s = (s1, e1)"
    by (cases "with_helper (SetRecvDeleteSyncWaterMark sha be wenv dev 0) s")
  obtain s2 e2 where b: "with_helper (ResetRecvQueryWaterMark sha env1 dev tableName) s1 = (s2, e2)"
    by (cases "with_helper (ResetRecvQueryWaterMark sha env1 dev tableName) s1")
  obtain s3 e3 where c: "SavePeerWaterMark sha be env2 dev 0 need s2 = (s3, e3)" by (cases "SavePeerWaterMark sha be env2 dev 0 need s2")
  note a' = with_helper_coherent[OF modify_delete_spares assms(1) a[unfolded SetRecvDeleteSyncWaterMark_def]]
  note b' = with_helper_coherent[OF reset_spares a'(1) b]
  note c' = modify_metadata_coherent[OF b'(1) c[unfolded SavePeerWaterMark_def]]
  have "s' = s3" "e = E_OK \<longrightarrow> e3 = E_OK" using assms(2) a b c by (auto simp: EraseDeviceWaterMark_def split: if_splits)
  then show "md_coherent sha be s'" "\<exists>saved. (e = E_OK \<longrightarrow> saved) \<and> map_record (fst s') = (if saved
       then (map_record (fst s))(device_key sha dev :=
         (map_record (fst s) (if need then device_key sha dev else dev))\<lparr>mv_peerWaterMark := 0\<rparr>)
       else map_record (fst s))" using c' a'(2) b'(2) by (auto intro!: exI[of _ "e3 = E_OK"])
qed

lemma offset_coherent:
  assumes "md_coherent sha be s" shows "md_coherent sha be (fst (SaveLocalTimeOffset env x s))"
proof -
  obtain m tab where s: "s = (m, tab)" by (cases s)
  obtain tab1 e where p: "PutMetaData env tab LOCALTIME_OFFSET_KEY (std_to_string (sint x)) = (tab1, e)"
    by (cases "PutMetaData env tab LOCALTIME_OFFSET_KEY (std_to_string (sint x))")
  have "\<not> is_device_key LOCALTIME_OFFSET_KEY" by (simp add: has_prefix_def LOCALTIME_OFFSET_KEY_def DEVICEID_PREFIX_KEY_def)
  from PutMetaData_spares[OF p _ this] assms show ?thesis
    by (simp add: md_coherent_def s SaveLocalTimeOffset_def p table_record_def map_record_def)
qed

lemma md_reach_coherent: "md_reach sha be s \<Longrightarrow> md_coherent sha be s"
proof (induction rule: md_reach.induct)
  case new
  then show ?case by (simp add: md_coherent_def Metadata_init_def meta_inv_def ids_ok_def WaterMarkHelper_init_def table_record_def map_record_def)
next
  case (erase s wenv env1 env2 dev need tableName)
  then show ?case using Erase_coherent(1) by (metis prod.collapse)
next
  case (looked_up m tab dev need)
  then show ?case using GetMetaDataValue_eq(1) by (metis prod.collapse)
next
  case (hashed m tab dev need)
  then show ?case using GetHashDeviceId_eq(1) by (metis prod.collapse)
next
  case (last_time m tab x)
  then show ?case by (simp add: md_coherent_def SetLastLocalTime_def map_record_def)
next
  case (restart m tab select env s')
  have "meta_inv tab" using restart.IH by (simp add: md_coherent_def)
  then show ?case using init_coherent[OF _ restart.hyps(2,3)] by blast
qed (use modify_metadata_coherent(1) SetDbCreateTime_coherent ResetMetaData_coherent offset_coherent
      with_helper_coherent(1)[OF get_query_spares] with_helper_coherent(1)[OF modify_query_spares]
      with_helper_coherent(1)[OF get_delete_spares] with_helper_coherent(1)[OF modify_delete_spares] in
    \<open>unfold SaveTimeOffset_def SaveLocalWaterMark_def SavePeerWaterMark_def SetSendQueryWaterMark_def SetRecvQueryWaterMark_def
      SetLastQueryTime_def SetSendDeleteSyncWaterMark_def SetRecvDeleteSyncWaterMark_def, (metis prod.collapse)+\<close>)

lemma getters:
  assumes "md_coherent sha be (m, tab)"
  shows "snd (GetPeerWaterMark sha dev m) = mv_peerWaterMark (map_record m (device_key sha dev))"
    "snd (GetLocalWaterMark sha dev m) = mv_localWaterMark (map_record m (device_key sha dev))"
    "snd (GetTimeOffset sha dev m) = mv_timeOffset (map_record m (device_key sha dev))"
    "snd (GetDbCreateTime sha dev m) = mv_dbCreateTime (map_record m (device_key sha dev))"
    "snd (GetRemoveDataMark sha dev m) = mv_clearDeviceDataMark (map_record m (device_key sha dev))"
proof -
  obtain m1 v where g: "GetMetaDataValue sha dev True m = (m1, v)" by (cases "GetMetaDataValue sha dev True m")
  obtain m2 k where h: "GetHashDeviceId sha dev True m = (m2, k)" by (cases "GetHashDeviceId sha dev True m")
  note e = GetMetaDataValue_eq(2)[OF assms g] and f = GetHashDeviceId_eq[OF assms h]
  show "snd (GetPeerWaterMark sha dev m) = mv_peerWaterMark (map_record m (device_key sha dev))"
    "snd (GetLocalWaterMark sha dev m) = mv_localWaterMark (map_record m (device_key sha dev))"
    "snd (GetTimeOffset sha dev m) = mv_timeOffset (map_record m (device_key sha dev))"
    using e by (simp_all add: GetPeerWaterMark_def GetLocalWaterMark_def GetTimeOffset_def g)
  show "snd (GetDbCreateTime sha dev m) = mv_dbCreateTime (map_record m (device_key sha dev))"
    "snd (GetRemoveDataMark sha dev m) = mv_clearDeviceDataMark (map_record m (device_key sha dev))"
    using f(2,3) by (simp_all add: GetDbCreateTime_def GetRemoveDataMark_def h map_record_def MetaDataValue_init_def split: option.split)
qed

section \<open>Properties\<close>

text \<open>C19. What the syncer remembers of a device survives a restart: after any sequence of operations, whatever the store
  answered to them, a new object that is initialised from the table returns the same water marks, time offset, creation
  time and mark for removal.\<close>

theorem metadata_survives_restart:
  assumes "md_reach sha be (m, tab)" "selects select"
    and "Metadata_Initialize be select env (Metadata_init, tab) = ((m', tab'), E_OK)"
  shows "snd (GetPeerWaterMark sha dev m') = snd (GetPeerWaterMark sha dev m) \<and>
    snd (GetLocalWaterMark sha dev m') = snd (GetLocalWaterMark sha dev m) \<and>
    snd (GetTimeOffset sha dev m') = snd (GetTimeOffset sha dev m) \<and>
    snd (GetDbCreateTime sha dev m') = snd (GetDbCreateTime sha dev m) \<and>
    snd (GetRemoveDataMark sha dev m') = snd (GetRemoveDataMark sha dev m)"
proof -
  have c: "md_coherent sha be (m, tab)" using md_reach_coherent[OF assms(1)] .
  then have c': "md_coherent sha be (m', tab')" "table_record be tab' (device_key sha dev) = table_record be tab (device_key sha dev)"
    using init_coherent[OF _ assms(2,3), of sha] by (auto simp: md_coherent_def)
  have "map_record m' (device_key sha dev) = map_record m (device_key sha dev)"
    using c c' unfolding md_coherent_def by (metis device_key_prefix fst_conv snd_conv sum.inject(2))
  then show ?thesis by (simp add: getters[OF c] getters[OF c'(1)])
qed

text \<open>Erasing the water marks of a device by its name resets its peer water mark and touches no other device; its
  other records stay.\<close>

theorem erase_resets_peer_mark:
  assumes "md_reach sha be (m, tab)" "EraseDeviceWaterMark sha be wenv env1 env2 dev True tableName (m, tab) = ((m', tab'), E_OK)"
  shows "snd (GetPeerWaterMark sha dev m') = 0 \<and> snd (GetLocalWaterMark sha dev m') = snd (GetLocalWaterMark sha dev m) \<and>
    (\<forall>d. device_key sha d \<noteq> device_key sha dev \<longrightarrow> snd (GetPeerWaterMark sha d m') = snd (GetPeerWaterMark sha d m))"
proof -
  have c: "md_coherent sha be (m, tab)" using md_reach_coherent[OF assms(1)] .
  note e = Erase_coherent[OF c assms(2)]
  show ?thesis using e(2) by (auto simp: getters[OF c] getters[OF e(1)])
qed

text \<open>Erasing with the hashed name of a device, as the migration of cached data does, does not reset its peer water
  mark: the record is read under the bare hash but saved under the hash of the hash.\<close>

theorem erase_unhashed_keeps_peer_mark:
  assumes "md_reach sha be (m, tab)" "hash_inj sha" "sha dev = Some h" "dev \<noteq> []" "h \<noteq> dev" "h \<noteq> []" "sha h = Some hh"
    and "EraseDeviceWaterMark sha be wenv env1 env2 h False tableName (m, tab) = ((m', tab'), e)"
  shows "snd (GetPeerWaterMark sha dev m') = snd (GetPeerWaterMark sha dev m)"
proof -
  have c: "md_coherent sha be (m, tab)" using md_reach_coherent[OF assms(1)] .
  note e = Erase_coherent[OF c assms(8)]
  have "hh \<noteq> h" using assms(2,3,5,7) unfolding hash_inj_def by metis
  then have "device_key sha h \<noteq> device_key sha dev"
    using assms(3,4,6,7) by (simp add: device_key_def TransferHashString_def CalcValueHash_def)
  then show ?thesis using e(2) by (auto simp: getters[OF c] getters[OF e(1)])
qed

section \<open>Witnesses\<close>

definition demo_md :: md_state where
  "demo_md = fst (SavePeerWaterMark wm_sha False meta_ok [66] 77 True (fst (SaveLocalTimeOffset meta_ok 5 (Metadata_init, []))))"

lemma demo_md_reach: "md_reach wm_sha False demo_md"
  unfolding demo_md_def by (intro peer_mark local_offset new)

definition demo_device :: MetaDataValue where "demo_device = MetaDataValue_init\<lparr>mv_peerWaterMark := 77\<rparr>"

lemma demo_md_eq:
  "demo_md = (\<lparr>md_localTimeOffset = 5, md_metadataMap = [device_key wm_sha [66] \<mapsto> demo_device],
     md_hashDeviceIds = [[66] \<mapsto> device_key wm_sha [66]], md_lastLocalTime = 0, md_helper = WaterMarkHelper_init,
     md_queryIdMap = Map.empty\<rparr>,
   [(LOCALTIME_OFFSET_KEY, [53]), (device_key wm_sha [66], mv_store False demo_device)])"
  by (simp add: demo_md_def SavePeerWaterMark_def modify_metadata_def SaveLocalTimeOffset_def PutMetaData_def CheckDataStatus_def
      LOCALTIME_OFFSET_KEY_def MAX_KEY_SIZE_def MAX_VALUE_SIZE_def meta_ok_def std_to_string_def digits.simps GetMetaDataValue_def
      GetHashDeviceId_def GetMetadataFromMap_def Metadata_init_def PutMetadataToMap_def SaveMetaDataValue_def SerializeMetaData_eq
      device_key_def DEVICEID_PREFIX_KEY_def wm_sha_def TransferHashString_def CalcValueHash_def demo_device_def Let_def)

lemma demo_restart: "snd (Metadata_Initialize False (\<lambda>n xs. xs) meta_ok (Metadata_init, snd demo_md)) = E_OK"
  by (simp add: demo_md_eq Metadata_Initialize_def GetMetaData_def LOCALTIME_OFFSET_KEY_def MAX_KEY_SIZE_def meta_ok_def
      LoadAllMetadata_def GetAllMetaKeys_def IsMetaDataKey_def device_key_def DEVICEID_PREFIX_KEY_def QUERY_SYNC_PREFIX_KEY_def
      DELETE_SYNC_PREFIX_KEY_def wm_sha_def TransferHashString_def CalcValueHash_def LoadDeviceIdDataToMap_def
      DeSerializeMetaData_store RemoveLeastUsedQuerySyncItems_def MAX_STORE_ITEMS_def)

lemma demo_peer: "snd (GetPeerWaterMark wm_sha [66] (fst demo_md)) = 77"
  by (simp add: demo_md_eq GetPeerWaterMark_def GetMetaDataValue_def GetHashDeviceId_def GetMetadataFromMap_def demo_device_def)

theorem metadata_survives_restart_witness:
  "snd (GetPeerWaterMark wm_sha [66]
     (fst (fst (Metadata_Initialize False (\<lambda>n xs. xs) meta_ok (Metadata_init, snd demo_md))))) = 77"
proof -
  let ?r = "Metadata_Initialize False (\<lambda>n xs. xs) meta_ok (Metadata_init, snd demo_md)"
  have r: "?r = ((fst (fst ?r), snd (fst ?r)), E_OK)" using demo_restart by (metis prod.collapse)
  have "md_reach wm_sha False (fst demo_md, snd demo_md)" "selects (\<lambda>n xs. xs)" using demo_md_reach by (simp_all add: selects_def)
  from metadata_survives_restart[OF this r, of "[66]"] show ?thesis using demo_peer by simp
qed

definition demo_erase :: "byte list \<Rightarrow> bool \<Rightarrow> md_state \<times> errno" where
  "demo_erase dev need = EraseDeviceWaterMark wm_sha False wm_env_ok meta_ok meta_ok dev need [] demo_md"

lemma demo_erase_ok: "snd (demo_erase [66] True) = E_OK"
proof -
  obtain b where "SerializeDeleteWaterMark False \<lparr>dw_version = 103, dw_sendWaterMark = 0, dw_recvWaterMark = 0\<rparr> = Inr b" "length b = 24"
    using delete_mark_encoding by blast
  then show ?thesis
    by (simp add: demo_erase_def EraseDeviceWaterMark_def with_helper_def demo_md_eq SetRecvDeleteSyncWaterMark_def modify_delete_mark_def
      GetHashDeleteSyncDeviceId_def WaterMarkHelper_init_def GetDeleteWaterMarkFromCache_def GetDeleteWaterMarkFromDB_def GetMetaData_def
      meta_ok_def wm_env_ok_def UpdateDeleteSyncCacheAndSave_def SaveDeleteWaterMarkToDB_def PutMetaData_def CheckDataStatus_def
      MAX_KEY_SIZE_def MAX_VALUE_SIZE_def DeleteWaterMark_init_def Let_def DELETE_SYNC_PREFIX_KEY_def LOCALTIME_OFFSET_KEY_def
      DELETE_WATERMARK_VERSION_CURRENT_def wm_sha_def TransferHashString_def CalcValueHash_def device_key_def DEVICEID_PREFIX_KEY_def
      ResetRecvQueryWaterMark_def DeleteMetaDataByPrefixKey_def QUERY_SYNC_PREFIX_KEY_def SavePeerWaterMark_def modify_metadata_def
      GetMetaDataValue_def GetHashDeviceId_def GetMetadataFromMap_def PutMetadataToMap_def SaveMetaDataValue_def SerializeMetaData_eq)
qed

theorem erase_resets_peer_mark_witness:
  "snd (GetPeerWaterMark wm_sha [66] (fst (fst (demo_erase [66] True)))) = 0 \<and> snd (GetPeerWaterMark wm_sha [66] (fst demo_md)) = 77"
proof -
  let ?r = "demo_erase [66] True"
  have "?r = ((fst (fst ?r), snd (fst ?r)), E_OK)" using demo_erase_ok by (metis prod.collapse)
  then have "EraseDeviceWaterMark wm_sha False wm_env_ok meta_ok meta_ok [66] True [] (fst demo_md, snd demo_md) =
      ((fst (fst ?r), snd (fst ?r)), E_OK)" by (simp add: demo_erase_def)
  moreover have "md_reach wm_sha False (fst demo_md, snd demo_md)" using demo_md_reach by simp
  ultimately show ?thesis using erase_resets_peer_mark demo_peer by blast
qed

theorem erase_unhashed_keeps_peer_mark_witness:
  "snd (GetPeerWaterMark wm_sha [66] (fst (fst (demo_erase [1, 66] False)))) = 77"
proof -
  let ?r = "demo_erase [1, 66] False"
  have r: "EraseDeviceWaterMark wm_sha False wm_env_ok meta_ok meta_ok [1, 66] False [] (fst demo_md, snd demo_md) =
      ((fst (fst ?r), snd (fst ?r)), snd ?r)" by (simp add: demo_erase_def)
  have m: "md_reach wm_sha False (fst demo_md, snd demo_md)" using demo_md_reach by simp
  have "hash_inj wm_sha" "wm_sha [66] = Some [1, 66]" "wm_sha [1, 66] = Some [1, 1, 66]" by (simp_all add: hash_inj_def wm_sha_def)
  from erase_unhashed_keeps_peer_mark[OF m this(1,2) _ _ _ this(3) r] show ?thesis using demo_peer by simp
qed

end
