(* ===== verification/Time_Helper.thy ===== *)
theory Time_Helper
  imports Meta_Data Store_Connection
begin

text \<open>
  \<^verbatim>\<open>syncer/src/time_helper.cpp\<close>: the timestamps of local writes. They are the system time plus an offset
  kept in the metadata, in units of 100 ns, and never go back, whatever the system clock does. The reading
  of the system clock in microseconds is a parameter of every call.
\<close>

section \<open>Model\<close>

record SysClock =
  sc_lastSystemTimeUs :: u64
  sc_currentIncCount :: u64

definition SysClock_init :: SysClock where "SysClock_init = \<lparr>sc_lastSystemTimeUs = 0, sc_currentIncCount = 0\<rparr>"

definition MAX_VALID_TIME :: u64 where "MAX_VALID_TIME = BASE_OFFSET * 2"
definition TO_100_NS :: u64 where "TO_100_NS = 10"
definition MS_TO_100_NS :: u64 where "MS_TO_100_NS = 10000"
definition MAX_INC_COUNT :: u64 where "MAX_INC_COUNT = 9"
definition INVALID_TIMESTAMP :: u64 where "INVALID_TIMESTAMP = 0"

definition GetSysCurrentTime :: "u64 res \<Rightarrow> SysClock \<Rightarrow> SysClock \<times> u64" where
  "GetSysCurrentTime clock st =
     (case clock of
        Inl e \<Rightarrow> (st, INVALID_TIMESTAMP)
      | Inr curTime \<Rightarrow>
          let st1 = (if curTime = sc_lastSystemTimeUs st
                     then if sc_currentIncCount st < MAX_INC_COUNT
                          then st\<lparr>sc_currentIncCount := sc_currentIncCount st + 1\<rparr> else st
                     else st\<lparr>sc_lastSystemTimeUs := curTime, sc_currentIncCount := 0\<rparr>)
          in (st1, curTime * TO_100_NS + sc_currentIncCount st1))"

text \<open>\<open>maxItemTime\<close> is the largest timestamp in the store; the comparison of the offset is signed.\<close>

definition TimeHelper_Initialize ::
    "u64 res \<Rightarrow> u64 \<Rightarrow> meta_env \<Rightarrow> SysClock \<times> md_state \<Rightarrow> (SysClock \<times> md_state) \<times> errno" where
  "TimeHelper_Initialize clock maxItemTime env s =
     (case s of (st, m, tab) \<Rightarrow>
      case GetSysCurrentTime clock st of (st1, currentSysTime) \<Rightarrow>
        let localTimeOffset = md_localTimeOffset m in
        if currentSysTime > MAX_VALID_TIME \<or> sint localTimeOffset > sint MAX_VALID_TIME \<or> maxItemTime > MAX_VALID_TIME
        then ((st1, m, tab), E_INVALID_TIME)
        else if currentSysTime + localTimeOffset \<le> maxItemTime then
          let offset = maxItemTime - currentSysTime + MS_TO_100_NS in
          (case SaveLocalTimeOffset env offset (m, tab) of ((m1, tab1), e) \<Rightarrow>
             if e \<noteq> E_OK then ((st1, m1, tab1), e)
             else ((st1, SetLastLocalTime (currentSysTime + offset) m1, tab1), E_OK))
        else ((st1, SetLastLocalTime (currentSysTime + localTimeOffset) m, tab), E_OK))"

definition GetTime :: "u64 res \<Rightarrow> SysClock \<times> Metadata \<Rightarrow> (SysClock \<times> Metadata) \<times> u64" where
  "GetTime clock s =
     (case s of (st, m) \<Rightarrow>
      case GetSysCurrentTime clock st of (st1, currentSysTime) \<Rightarrow>
        let currentLocalTime = currentSysTime + md_localTimeOffset m; lastLocalTime = md_lastLocalTime m in
        if currentLocalTime \<le> lastLocalTime \<or> currentLocalTime > MAX_VALID_TIME
        then ((st1, SetLastLocalTime (lastLocalTime + 1) m), lastLocalTime + 1)
        else ((st1, SetLastLocalTime currentLocalTime m), currentLocalTime))"

text \<open>A sequence of calls.\<close>

fun get_times :: "u64 res list \<Rightarrow> SysClock \<times> Metadata \<Rightarrow> u64 list" where
  "get_times [] s = []"
| "get_times (clock # clocks) s = (case GetTime clock s of (s1, t) \<Rightarrow> t # get_times clocks s1)"

section \<open>The time does not go back\<close>

lemma MAX_VALID_TIME_unat: "unat MAX_VALID_TIME = 6307200000000000000"
  by (simp add: MAX_VALID_TIME_def BASE_OFFSET_def)

lemma less_word_succ: "(w :: u64) < w + 1" if "unat w < 18446744073709551615"
  using that by (simp add: word_less_nat_alt unat_word_ariths)

lemma GetTime_increases:
  assumes "unat (md_lastLocalTime m) < 18446744073709551615" "GetTime clock (st, m) = ((st', m'), t)"
  shows "md_lastLocalTime m < t" "md_lastLocalTime m' = t" "md_localTimeOffset m' = md_localTimeOffset m"
    "unat t \<le> max (unat MAX_VALID_TIME) (Suc (unat (md_lastLocalTime m)))"
proof -
  note lt = less_word_succ[OF assms(1)]
  have s: "unat (md_lastLocalTime m + 1) = Suc (unat (md_lastLocalTime m))" using assms(1) by (simp add: unat_word_ariths)
  show "md_lastLocalTime m < t" "md_lastLocalTime m' = t" "md_localTimeOffset m' = md_localTimeOffset m"
    "unat t \<le> max (unat MAX_VALID_TIME) (Suc (unat (md_lastLocalTime m)))"
    using assms(2) lt s by (auto simp: GetTime_def SetLastLocalTime_def Let_def word_le_nat_alt word_less_nat_alt split: prod.splits if_splits)
qed

lemma get_times_increase:
  assumes "unat (md_lastLocalTime m) \<le> B" "unat MAX_VALID_TIME \<le> B" "B + length clocks \<le> 18446744073709551615"
  shows "sorted_wrt (<) (md_lastLocalTime m # get_times clocks (st, m))"
  using assms
proof (induction clocks arbitrary: st m B)
  case (Cons c clocks)
  obtain st1 m1 t where g: "GetTime c (st, m) = ((st1, m1), t)" by (cases "GetTime c (st, m)") auto
  have "unat (md_lastLocalTime m) < 18446744073709551615" using Cons.prems by simp
  note i = GetTime_increases[OF this g]
  have "sorted_wrt (<) (md_lastLocalTime m1 # get_times clocks (st1, m1))"
    using Cons.prems i(2,4) by (intro Cons.IH[of m1 "Suc B"]) auto
  then show ?case using g i(1,2) by (auto intro: less_trans)
qed simp

lemma nonneg_unat: "0 \<le> sint (w :: u64) \<Longrightarrow> unat w = nat (sint w)"
proof -
  assume "0 \<le> sint w"
  moreover have "sint w < 2 ^ 63" using sint_less[of w] by simp
  ultimately have "take_bit 64 (sint w) = sint w" by (intro take_bit_int_eq_self) simp_all
  then show "unat w = nat (sint w)" by (simp add: unat_eq_nat_uint uint_sint)
qed

lemma Initialize_ok:
  assumes "TimeHelper_Initialize clock maxItemTime env (st, m, tab) = ((st', m', tab'), E_OK)"
    and "0 \<le> sint (md_localTimeOffset m)" "unat (md_lastLocalTime m) \<le> 2 * unat MAX_VALID_TIME"
  shows "maxItemTime < md_lastLocalTime m'" "unat (md_lastLocalTime m') \<le> 2 * unat MAX_VALID_TIME"
proof -
  obtain st1 sys where g: "GetSysCurrentTime clock st = (st1, sys)" by (cases "GetSysCurrentTime clock st")
  let ?off = "md_localTimeOffset m"
  have v: "sys \<le> MAX_VALID_TIME" "sint ?off \<le> sint MAX_VALID_TIME" "maxItemTime \<le> MAX_VALID_TIME"
    using assms(1) g by (auto simp: TimeHelper_Initialize_def Let_def not_less split: if_splits)
  have set: "x \<le> md_lastLocalTime (SetLastLocalTime x m1)" "md_lastLocalTime (SetLastLocalTime x m1) \<in> {x, md_lastLocalTime m1}" for x m1
    by (auto simp: SetLastLocalTime_def)
  have last: "md_lastLocalTime (m\<lparr>md_localTimeOffset := x\<rparr>) = md_lastLocalTime m" for x by simp
  show "maxItemTime < md_lastLocalTime m'" "unat (md_lastLocalTime m') \<le> 2 * unat MAX_VALID_TIME"
  proof (atomize (full), cases "sys + ?off \<le> maxItemTime")
    case True
    let ?new = "maxItemTime - sys + MS_TO_100_NS"
    have e: "sys + ?new = maxItemTime + MS_TO_100_NS" by simp
    have u: "unat (maxItemTime + MS_TO_100_NS) = unat maxItemTime + 10000"
      using v(3) by (simp add: word_le_nat_alt MAX_VALID_TIME_unat unat_word_ariths MS_TO_100_NS_def)
    have "m' = SetLastLocalTime (maxItemTime + MS_TO_100_NS) (m\<lparr>md_localTimeOffset := ?new\<rparr>)"
      using assms(1) g True v by (auto simp: TimeHelper_Initialize_def SaveLocalTimeOffset_def Let_def e split: if_splits prod.splits)
    then show "maxItemTime < md_lastLocalTime m' \<and> unat (md_lastLocalTime m') \<le> 2 * unat MAX_VALID_TIME"
      using set[of "maxItemTime + MS_TO_100_NS" "m\<lparr>md_localTimeOffset := ?new\<rparr>"] u v(3) assms(3)
      by (auto simp: word_le_nat_alt word_less_nat_alt MAX_VALID_TIME_unat)
  next
    case False
    have "m' = SetLastLocalTime (sys + ?off) m"
      using assms(1) g False by (auto simp: TimeHelper_Initialize_def Let_def split: if_splits)
    moreover have "unat (sys + ?off) \<le> 2 * unat MAX_VALID_TIME"
    proof -
      have "unat ?off \<le> unat MAX_VALID_TIME"
        using v(2) assms(2) nonneg_unat[of ?off] nonneg_unat[of MAX_VALID_TIME] by simp
      then have "unat (sys + ?off) = unat sys + unat ?off"
        using v(1) by (simp add: word_le_nat_alt MAX_VALID_TIME_unat unat_word_ariths)
      then show ?thesis using v(1) \<open>unat ?off \<le> unat MAX_VALID_TIME\<close> by (simp add: word_le_nat_alt)
    qed
    ultimately show "maxItemTime < md_lastLocalTime m' \<and> unat (md_lastLocalTime m') \<le> 2 * unat MAX_VALID_TIME"
      using set[of "sys + ?off" m] False assms(3) by (auto simp: word_le_nat_alt word_less_nat_alt)
  qed
qed

section \<open>Properties\<close>

text \<open>C20. The timestamps a device gives to its writes increase strictly, whatever the system clock says: when it stands
  still, goes back, leaves the valid range or cannot be read.\<close>

theorem local_time_strictly_increases:
  assumes "unat (md_lastLocalTime m) \<le> 2 * unat MAX_VALID_TIME" "length clocks < 4611686018427387904"
  shows "sorted_wrt (<) (md_lastLocalTime m # get_times clocks (st, m))"
  using assms by (intro get_times_increase[of m "2 * unat MAX_VALID_TIME"]) (simp_all add: MAX_VALID_TIME_unat)

text \<open>C17. A write after the store was opened wins over what this device wrote before: let the time helper be initialised with
  a maximum that it was given for the store (the code reads the largest \<^verbatim>\<open>timestamp\<close>, not \<^verbatim>\<open>w_timestamp\<close>), and let the row of the key, if
  there is one, carry a write timestamp that is at most this maximum or one of those that the helper gave out since. Then the value
  of a successful \<open>Put\<close> that takes the next time of the helper is what \<open>Get\<close> returns, even if the system clock was set back since
  the stored data was written. A row that was received from another device after the start with a larger write timestamp is
  excluded by the hypothesis.\<close>

theorem put_after_start_wins:
  assumes init: "TimeHelper_Initialize clock maxItemTime env (st, m, tab) = ((st1, m1, tab1), E_OK)"
    and "0 \<le> sint (md_localTimeOffset m)" "unat (md_lastLocalTime m) \<le> 2 * unat MAX_VALID_TIME"
    and "length clocks < 4611686018427387904" "get_times clocks (st1, m1) = earlier @ t # later"
    and "hash_inj sha" "\<not> ex_isSyncMigrating cfg" "conn_codes cenv" "table_inv sha (visible (ns, c))"
    and "\<And>r. map_of (visible (ns, c)) h = Some r \<Longrightarrow> sr_w_timestamp r \<le> maxItemTime \<or> sr_w_timestamp r \<in> set earlier"
    and "sha k = Some h" "ce_amend cenv v = Inr v'" "ce_now cenv 0 = t"
    and "Put sha cfg cenv k v (ns, c) = (w', events, E_OK)"
  shows "Get E_OK E_OK k w' = Inr v'"
proof -
  note i = Initialize_ok[OF assms(1-3)]
  have "sorted_wrt (<) (md_lastLocalTime m1 # get_times clocks (st1, m1))"
    using i(2) assms(4) by (intro get_times_increase[of m1 "2 * unat MAX_VALID_TIME"]) (simp_all add: MAX_VALID_TIME_unat)
  then have t: "maxItemTime < t" "\<forall>u \<in> set earlier. u < t" using i(1) unfolding assms(5) by (auto simp: sorted_wrt_append intro: less_trans)
  have "sr_w_timestamp r < stamp_of (ce_now cenv 0) c" if "map_of (visible (ns, c)) h = Some r" for r
  proof -
    have "sr_w_timestamp r < t" using assms(10)[OF that] t by (auto intro: le_less_trans)
    also have "t \<le> stamp_of t c" by (auto simp: stamp_of_def intro: less_imp_le)
    finally show ?thesis using assms(13) by simp
  qed
  from put_reads_back[OF assms(6-9,11,12) this assms(14)] show ?thesis by blast
qed

section \<open>Witnesses\<close>

theorem local_time_strictly_increases_witness:
  "sorted_wrt (<) (0 # get_times [Inr 5, Inr 5, Inl E_SYSTEM_API_FAIL, Inr 3] (SysClock_init, Metadata_init))"
  using local_time_strictly_increases[of Metadata_init "[Inr 5, Inr 5, Inl E_SYSTEM_API_FAIL, Inr 3]" SysClock_init]
  by (simp add: Metadata_init_def del: get_times.simps)

definition late_env :: conn_env where "late_env = (demo_conn_env E_OK)\<lparr>ce_now := (\<lambda>i. 10006)\<rparr>"

definition late_put :: "world \<times> announcements \<times> errno" where
  "late_put = PutBatchInner demo_sha demo_cfg late_env [\<lparr>e_key = [7], e_value = [71]\<rparr>] (demo_store, Connection_init)"

definition late_start :: "(SysClock \<times> md_state) \<times> errno" where
  "late_start = TimeHelper_Initialize (Inr 0) 5 meta_ok (SysClock_init, Metadata_init, [])"

lemma late_start_ok: "snd late_start = E_OK" "get_times [Inr 0] (fst (fst late_start), fst (snd (fst late_start))) = [10006]"
  by (simp_all add: late_start_def TimeHelper_Initialize_def GetSysCurrentTime_def SysClock_init_def Metadata_init_def MAX_INC_COUNT_def
      TO_100_NS_def MAX_VALID_TIME_def BASE_OFFSET_def MS_TO_100_NS_def SaveLocalTimeOffset_def PutMetaData_def CheckDataStatus_def
      LOCALTIME_OFFSET_KEY_def MAX_KEY_SIZE_def MAX_VALUE_SIZE_def std_to_string_def digits.simps meta_ok_def SetLastLocalTime_def
      GetTime_def Let_def)

theorem put_after_start_wins_witness:
  "Get E_OK E_OK [7] (fst late_put) = Inr [71] \<and> snd (snd late_put) = E_OK"
proof -
  have ok: "snd (snd late_put) = E_OK" by code_simp
  have "Put demo_sha demo_cfg late_env [7] [71] (demo_store, Connection_init) = late_put"
    by (simp add: Put_def PutBatch_def late_put_def CheckSyncEntriesValid_def CheckDataStatus_def MAX_BATCH_SIZE_def
      MAX_KEY_SIZE_def MAX_VALUE_SIZE_def demo_store_def)
  then have p: "Put demo_sha demo_cfg late_env [7] [71] (demo_store, Connection_init) = (fst late_put, fst (snd late_put), E_OK)"
    using ok by (metis prod.collapse)
  have i: "TimeHelper_Initialize (Inr 0) 5 meta_ok (SysClock_init, Metadata_init, []) =
      ((fst (fst late_start), fst (snd (fst late_start)), snd (snd (fst late_start))), E_OK)"
    using late_start_ok(1) unfolding late_start_def by (metis prod.collapse)
  have t: "get_times [Inr 0] (fst (fst late_start), fst (snd (fst late_start))) = [] @ 10006 # []" using late_start_ok(2) by simp
  have c: "conn_codes late_env" using demo_conn_codes by (simp add: late_env_def conn_codes_def)
  have v: "table_inv demo_sha (visible (demo_store, Connection_init))" using demo_table by (simp add: demo_visible)
  have r: "sr_w_timestamp r \<le> 5 \<or> sr_w_timestamp r \<in> set []" if "map_of (visible (demo_store, Connection_init)) [1, 7] = Some r" for r
    using that unfolding demo_visible by (auto simp: demo_store_def demo_row_def split: if_splits)
  have "Get E_OK E_OK [7] (fst late_put) = Inr [71]"
    by (rule put_after_start_wins[where h = "[1, 7]", OF i _ _ _ t demo_hash(1,2) c v r _ _ _ p])
      (simp_all add: Metadata_init_def demo_sha_def late_env_def demo_conn_env_def)
  then show ?thesis using ok by simp
qed

end
