(* ===== verification/Parcel_Codec.thy ===== *)
theory Parcel_Codec
  imports Parcel
begin

text \<open>
  Reading what was written, one field at a time. \<open>holds fs q\<close> says that the bytes from the position of the
  parcel \<open>q\<close> on are the encoding of the fields \<open>fs\<close>; from it follows what every read returns, and it is
  what a write leaves. The serialisers of the syncer are proved with it.
\<close>

section \<open>Fields in the buffer\<close>

primrec field_enc :: "field \<Rightarrow> byte list" where
  "field_enc (FBool v) = enc_bool v" | "field_enc (FU8 v) = enc_word v" | "field_enc (FInt v) = enc_word v"
| "field_enc (FU32 v) = enc_word v" | "field_enc (FInt64 v) = enc_word v" | "field_enc (FU64 v) = enc_word v"
| "field_enc (FString v) = enc_string v" | "field_enc (FVec8 v) = enc_vector v" | "field_enc (FVec64 v) = enc_vector v"
| "field_enc FAlign = []"

definition field_size :: "nat \<Rightarrow> field \<Rightarrow> nat" where "field_size pos f = field_end pos f - pos"

definition field_at :: "field \<Rightarrow> parcel \<Rightarrow> bool" where
  "field_at f q \<longleftrightarrow> f = FAlign \<or> field_legal f \<and> field_end (p_parcelLen q) f \<le> p_totalLen q \<and>
     take (length (field_enc f)) (drop (p_parcelLen q) (p_buf q)) = field_enc f"

primrec holds :: "field list \<Rightarrow> parcel \<Rightarrow> bool" where
  "holds [] q \<longleftrightarrow> parcel_wf q \<and> \<not> p_isError q"
| "holds (f # fs) q \<longleftrightarrow> parcel_wf q \<and> \<not> p_isError q \<and> field_at f q \<and> holds fs (shift (field_size (p_parcelLen q) f) q)"

text \<open>The parcel after the fields were read.\<close>

definition past :: "field list \<Rightarrow> parcel \<Rightarrow> parcel" where
  "past fs q = shift (fields_end (p_parcelLen q) fs - p_parcelLen q) q"

lemma past_simps [simp]:
  "p_isError (past fs q) = p_isError q" "p_buf (past fs q) = p_buf q" "p_totalLen (past fs q) = p_totalLen q"
  "p_parcelLen (past fs q) = fields_end (p_parcelLen q) fs" "parcel_wf (past fs q) = parcel_wf q" "past [] q = q"
  using fields_end_ge[of "p_parcelLen q" fs] by (simp_all add: past_def)

lemma shift_shift [simp]: "shift m (shift n q) = shift (n + m) q"
  by (simp add: shift_def ac_simps)

lemma past_Cons: "past (f # fs) q = past fs (shift (field_size (p_parcelLen q) f) q)"
  using field_end_ge[of "p_parcelLen q" f] fields_end_ge[of "field_end (p_parcelLen q) f" fs]
  by (simp add: past_def field_size_def)

lemma fields_end_append [simp]: "fields_end pos (fs @ gs) = fields_end (fields_end pos fs) gs"
  by (induction fs arbitrary: pos) auto

lemma past_past: "past gs (past fs q) = past (fs @ gs) q"
  using fields_end_ge[of "p_parcelLen q" fs] fields_end_ge[of "fields_end (p_parcelLen q) fs" gs]
  by (simp add: past_def)

lemma holds_append: "holds (fs @ gs) q \<longleftrightarrow> holds fs q \<and> holds gs (past fs q)"
proof (induction fs arbitrary: q)
  case Nil
  then show ?case by (cases gs) auto
qed (auto simp: past_Cons)

lemma holds_ok: "holds fs q \<Longrightarrow> parcel_wf q \<and> \<not> IsError q"
  by (cases fs) (auto simp: IsError_def)

lemma holds_end: "holds (f # fs) q \<Longrightarrow> f \<noteq> FAlign \<Longrightarrow> field_end (p_parcelLen q) f \<le> p_totalLen q"
  by (auto simp: field_at_def)

section \<open>What the reads return\<close>

lemma holds_read:
  "holds (FBool b # fs) q \<Longrightarrow> ReadBool be ob q = (shift 1 q, b, 1) \<and> holds fs (shift 1 q)"
  "holds (FInt v # fs) q \<Longrightarrow> ReadInt be ov q = (shift 4 q, v, 4) \<and> holds fs (shift 4 q)"
  "holds (FU32 v # fs) q \<Longrightarrow> ReadUInt32 be ov q = (shift 4 q, v, 4) \<and> holds fs (shift 4 q)"
  "holds (FInt64 w # fs) q \<Longrightarrow> ReadInt64 be ow q = (shift 8 q, w, 8) \<and> holds fs (shift 8 q)"
  "holds (FU64 w # fs) q \<Longrightarrow> ReadUInt64 be ow q = (shift 8 q, w, 8) \<and> holds fs (shift 8 q)"
  "holds (FString s # fs) q \<Longrightarrow> ReadString be os q = (shift (string_step s) q, s, string_step s) \<and> holds fs (shift (string_step s) q)"
  "holds (FVec8 s # fs) q \<Longrightarrow> ReadVectorChar be os q = (shift (vector_step s) q, s, vector_step s) \<and> holds fs (shift (vector_step s) q)"
  "holds (FVec64 xs # fs) q \<Longrightarrow> ReadVector be ox q = (shift (vector_step xs) q, xs, vector_step xs) \<and> holds fs (shift (vector_step xs) q)"
  using boolean.read_ok[of q b be ob] int32.read_ok[of q v be ov] uint32.read_ok[of q v be ov] int64.read_ok[of q w be ow]
    uint64.read_ok[of q w be ow] str.read_ok[of q s be os] vec8.read_ok[of q s be os] vec64.read_ok[of q xs be ox]
  by (simp_all add: field_at_def field_size_def)

lemma holds_align: "holds (FAlign # fs) q \<Longrightarrow> holds fs (EightByteAlign q) \<and> EightByteAlign q = past [FAlign] q"
  by (simp add: EightByteAlign_eq field_size_def past_def)

section \<open>What the writes leave\<close>

definition writes :: "bool \<Rightarrow> field list \<Rightarrow> parcel \<Rightarrow> bool" where
  "writes be fs p \<longleftrightarrow> parcel_wf p \<and> \<not> p_isError (write_fields be fs p)"

lemma writes_ok: "writes be fs p \<Longrightarrow> parcel_wf p \<and> \<not> IsError p"
  using write_fields_keeps(6) by (auto simp: writes_def IsError_def)

lemma writes_Nil [simp]: "writes be [] p \<longleftrightarrow> parcel_wf p \<and> \<not> p_isError p"
  by (simp add: writes_def)

lemma write_field_code: "parcel_wf p \<Longrightarrow> \<not> p_isError (fst (write_field be f p)) \<Longrightarrow> snd (write_field be f p) = E_OK"
  by (cases f) (simp_all add: boolean.write_code uint8.write_code int32.write_code uint32.write_code int64.write_code
      uint64.write_code str.write_code vec8.write_code vec64.write_code)

lemma writes_step:
  assumes "writes be (f # fs) p"
  shows "write_field be f p = (fst (write_field be f p), E_OK) \<and> writes be fs (fst (write_field be f p)) \<and>
    \<not> p_isError (fst (write_field be f p))"
proof -
  have wf: "parcel_wf p" and w: "writes be fs (fst (write_field be f p))"
    using assms by (simp_all add: writes_def write_field_keeps)
  then have "\<not> p_isError (fst (write_field be f p))" using writes_ok by (auto simp: IsError_def)
  then show ?thesis using w write_field_code[OF wf] by (metis prod.collapse)
qed

lemma writes_append: "writes be (fs @ gs) p \<longleftrightarrow> writes be fs p \<and> writes be gs (write_fields be fs p)"
  using write_fields_keeps(1,6) by (auto simp: writes_def write_fields_append)

lemma field_written:
  assumes "parcel_wf p" "\<not> p_isError (fst (write_field be f p))"
    and "p_parcelLen q = p_parcelLen p" "p_totalLen q = p_totalLen p"
    and "take (p_parcelLen (fst (write_field be f p))) (p_buf q) =
      take (p_parcelLen (fst (write_field be f p))) (p_buf (fst (write_field be f p)))"
  shows "field_at f q \<and> p_parcelLen (fst (write_field be f p)) = field_end (p_parcelLen p) f"
proof (cases f)
  case (FBool v)
  then show ?thesis using assms boolean.written[of p be v "p_buf q"] by (simp add: field_at_def)
next
  case (FU8 v)
  then show ?thesis using assms uint8.written[of p be v "p_buf q"] by (simp add: field_at_def)
next
  case (FInt v)
  then show ?thesis using assms int32.written[of p be v "p_buf q"] by (simp add: field_at_def)
next
  case (FU32 v)
  then show ?thesis using assms uint32.written[of p be v "p_buf q"] by (simp add: field_at_def)
next
  case (FInt64 v)
  then show ?thesis using assms int64.written[of p be v "p_buf q"] by (simp add: field_at_def)
next
  case (FU64 v)
  then show ?thesis using assms uint64.written[of p be v "p_buf q"] by (simp add: field_at_def)
next
  case (FString v)
  then show ?thesis using assms str.written[of p be v "p_buf q"] by (simp add: field_at_def)
next
  case (FVec8 v)
  then show ?thesis using assms vec8.written[of p be v "p_buf q"] by (simp add: field_at_def)
next
  case (FVec64 v)
  then show ?thesis using assms vec64.written[of p be v "p_buf q"] by (simp add: field_at_def)
next
  case FAlign
  then show ?thesis using assms by (simp add: field_at_def EightByteAlign_eq BYTE_8_ALIGN_ge)
qed

lemma holds_written:
  assumes "writes be fs p" "parcel_wf q" "\<not> p_isError q" "p_parcelLen q = p_parcelLen p" "p_totalLen q = p_totalLen p"
    and "take (p_parcelLen (write_fields be fs p)) (p_buf q) = take (p_parcelLen (write_fields be fs p)) (p_buf (write_fields be fs p))"
  shows "holds fs q \<and> p_parcelLen (write_fields be fs p) = fields_end (p_parcelLen p) fs"
  using assms
proof (induction fs arbitrary: p q)
  case (Cons f fs)
  let ?p1 = "fst (write_field be f p)" and ?p2 = "write_fields be (f # fs) p"
  have wf: "parcel_wf p" using writes_ok[OF Cons.prems(1)] by simp
  note s = writes_step[OF Cons.prems(1)]
  note k = write_field_keeps[OF wf, of be f] 
  note k2 = write_fields_keeps[OF k(1), of be fs]
  have "take (p_parcelLen ?p1) (p_buf q) = take (p_parcelLen ?p1) (take (p_parcelLen ?p2) (p_buf q))"
    using k2(4) by (simp add: min_absorb1)
  also have "\<dots> = take (p_parcelLen ?p1) (p_buf ?p1)" unfolding Cons.prems(6) using k2(3,4) by (simp add: min_absorb1)
  finally have f: "field_at f q" "p_parcelLen ?p1 = field_end (p_parcelLen p) f"
    using field_written[OF wf _ Cons.prems(4,5)] s by blast+
  have "holds fs (shift (field_size (p_parcelLen q) f) q) \<and>
      p_parcelLen (write_fields be fs ?p1) = fields_end (p_parcelLen ?p1) fs"
    using Cons.prems s f k field_end_ge[of "p_parcelLen p" f] by (intro Cons.IH) (simp_all add: field_size_def)
  then show ?case using f Cons.prems by simp
qed simp

lemma writes_end:
  assumes "writes be fs p" shows "p_parcelLen (write_fields be fs p) = fields_end (p_parcelLen p) fs"
proof -
  have wf: "parcel_wf p" "\<not> p_isError p" using writes_ok[OF assms] by (auto simp: IsError_def)
  then have "parcel_wf (p\<lparr>p_buf := p_buf (write_fields be fs p)\<rparr>)" using write_fields_keeps(2)[OF wf(1)] by simp
  then show ?thesis using holds_written[OF assms, of "p\<lparr>p_buf := p_buf (write_fields be fs p)\<rparr>"] wf(2) by simp
qed

text \<open>The bytes do not depend on the byte order of the host.\<close>

lemma write_fields_host: "parcel_wf p \<Longrightarrow> write_fields be fs p = write_fields be' fs p"
proof (induction fs arbitrary: p)
  case (Cons f fs)
  have "write_field be f p = write_field be' f p" using Cons.prems by (cases f) (simp_all only: write_field.simps item_laws)
  then show ?case using Cons.IH[of "fst (write_field be' f p)"] write_field_keeps(1)[OF Cons.prems] by simp
qed simp

text \<open>At a multiple of eight bytes a serialiser needs what it needs at the start.\<close>

lemma fields_end_shift: "8 dvd pos \<Longrightarrow> fields_end (pos + k) fs = pos + fields_end k fs"
proof (induction fs arbitrary: k)
  case (Cons f fs)
  obtain m where "pos = 8 * m" using Cons.prems by (elim dvdE)
  moreover have "(8 * m + k + 7) div 8 = m + (k + 7) div 8" using div_mult_self4[of 8 m "k + 7"] by (simp add: ac_simps)
  ultimately have "BYTE_8_ALIGN (pos + k) = pos + BYTE_8_ALIGN k" by (simp add: BYTE_8_ALIGN_def)
  then have "field_end (pos + k) f = pos + field_end k f" by (cases f) simp_all
  then show ?case using Cons by simp
qed simp

lemma EightByteAlign_aligned: "8 dvd p_parcelLen p \<Longrightarrow> EightByteAlign p = p"
  by (simp add: EightByteAlign_eq BYTE_8_ALIGN_aligned)

text \<open>A buffer that a writer filled, read from its start on any host.\<close>

lemma init_parcel:
  assumes "0 < length buf" "length buf < 4294967296"
  shows "parcel_wf (Parcel_init buf (length buf))" "\<not> p_isError (Parcel_init buf (length buf))"
    "p_parcelLen (Parcel_init buf (length buf)) = 0" "p_totalLen (Parcel_init buf (length buf)) = length buf"
    "p_buf (Parcel_init buf (length buf)) = buf"
  using assms by (auto simp: Parcel_init_def parcel_wf_def)

lemma writes_init:
  assumes "list_all field_legal fs" "fields_end 0 fs \<le> length buf" "0 < length buf" "length buf < 4294967296"
  shows "writes be fs (Parcel_init buf (length buf))"
  using write_fields_ok[of "Parcel_init buf (length buf)" fs be] assms init_parcel[OF assms(3,4)] by (simp add: writes_def)

lemma holds_init:
  assumes "writes be fs (Parcel_init buf (length buf))" "0 < length buf" "length buf < 4294967296"
  shows "holds fs (Parcel_init (p_buf (write_fields be fs (Parcel_init buf (length buf)))) (length buf))"
    "length (p_buf (write_fields be fs (Parcel_init buf (length buf)))) = length buf"
proof -
  let ?p = "Parcel_init buf (length buf)" and ?b = "p_buf (write_fields be fs (Parcel_init buf (length buf)))"
  note p = init_parcel[OF assms(2,3)]
  show len: "length ?b = length buf" using write_fields_keeps(2)[OF p(1)] p(5) by simp
  have q: "parcel_wf (Parcel_init ?b (length buf))" "\<not> p_isError (Parcel_init ?b (length buf))"
    "p_parcelLen (Parcel_init ?b (length buf)) = 0" "p_totalLen (Parcel_init ?b (length buf)) = length buf"
    "p_buf (Parcel_init ?b (length buf)) = ?b"
    using init_parcel[of ?b] assms(2,3) unfolding len by auto
  then show "holds fs (Parcel_init ?b (length buf))"
    using holds_written[OF assms(1) q(1,2)] p by simp
qed

section \<open>Lengths\<close>

text \<open>The lengths that are computed beforehand are what the fields take, unless they are reported as too large.\<close>

lemma item_lens:
  "string_step s \<le> INT32_MAX \<Longrightarrow> GetStringLen s = string_step s \<and> string_legal s"
  "vector_step w \<le> INT32_MAX \<Longrightarrow> GetVectorCharLen w = vector_step w \<and> vector_legal w"
  using BYTE_8_ALIGN_ge[of "4 + length s"] BYTE_8_ALIGN_ge[of "4 + length w"]
  by (auto simp: GetStringLen_def string_step_def string_legal_def GetVectorCharLen_def GetVectorLen_def vector_step_def
      vector_legal_def INT32_MAX_def Let_def add.commute[of 4])

lemma aligned_len: "BYTE_8_ALIGN n \<le> INT32_MAX \<Longrightarrow> GetEightByteAlign n = BYTE_8_ALIGN n"
  by (simp add: GetEightByteAlign_def INT32_MAX_def)

lemma fields_end_le: "fields_end pos (fs @ gs) \<le> n \<Longrightarrow> fields_end pos fs \<le> n"
  using fields_end_ge[of "fields_end pos fs" gs] by simp

section \<open>Serialisers\<close>

text \<open>
  What a pair of a serialiser and a deserialiser promises: on a parcel with room the writer leaves the fields
  of the value and reports no error, and the reader, on any host, finds \<open>seen v\<close> where the fields of \<open>v\<close>
  are and stops behind them.
\<close>

locale codec =
  fixes wr :: "bool \<Rightarrow> 'v \<Rightarrow> parcel \<Rightarrow> parcel \<times> errno" and rd :: "bool \<Rightarrow> parcel \<Rightarrow> parcel \<times> 'w res"
    and flds :: "'v \<Rightarrow> field list" and seen :: "'v \<Rightarrow> 'w" and ok :: "'v \<Rightarrow> bool"
  assumes wr_ok: "ok v \<Longrightarrow> writes be (flds v) p \<Longrightarrow> wr be v p = (write_fields be (flds v) p, E_OK)"
    and rd_ok: "ok v \<Longrightarrow> holds (flds v) q \<Longrightarrow> rd be q = (past (flds v) q, Inr (seen v))"

text \<open>A call whose error code is returned at once.\<close>

definition on_ok :: "parcel \<times> errno \<Rightarrow> (parcel \<Rightarrow> parcel \<times> errno) \<Rightarrow> parcel \<times> errno" where
  "on_ok r k = (if snd r \<noteq> E_OK then r else k (fst r))"

lemma on_ok_step:
  "writes be (f # fs) p \<Longrightarrow> on_ok (write_field be f p) k = k (fst (write_field be f p)) \<and> writes be fs (fst (write_field be f p))"
  using writes_step[of be f fs p] by (metis on_ok_def snd_conv)

text \<open>Loops over a vector, left at the first error; the reader knows the number of elements.\<close>

fun write_list :: "('v \<Rightarrow> parcel \<Rightarrow> parcel \<times> errno) \<Rightarrow> 'v list \<Rightarrow> parcel \<Rightarrow> parcel \<times> errno" where
  "write_list wr [] p = (p, E_OK)"
| "write_list wr (v # vs) p = (case wr v p of (p1, e) \<Rightarrow> if e \<noteq> E_OK then (p1, e) else write_list wr vs p1)"

fun read_list :: "(parcel \<Rightarrow> parcel \<times> 'w res) \<Rightarrow> nat \<Rightarrow> parcel \<Rightarrow> parcel \<times> 'w list res" where
  "read_list rd 0 p = (p, Inr [])"
| "read_list rd (Suc n) p =
     (case rd p of
        (p1, Inl e) \<Rightarrow> (p1, Inl e)
      | (p1, Inr v) \<Rightarrow> (case read_list rd n p1 of (p2, Inl e) \<Rightarrow> (p2, Inl e) | (p2, Inr vs) \<Rightarrow> (p2, Inr (v # vs))))"

context codec
begin

lemma write_all:
  "list_all ok vs \<Longrightarrow> writes be (concat (map flds vs)) p \<Longrightarrow>
     write_list (wr be) vs p = (write_fields be (concat (map flds vs)) p, E_OK)"
  by (induction vs arbitrary: p) (auto simp: writes_append write_fields_append wr_ok)

lemma read_all:
  "list_all ok vs \<Longrightarrow> holds (concat (map flds vs)) q \<Longrightarrow> n = length vs \<Longrightarrow>
     read_list (rd be) n q = (past (concat (map flds vs)) q, Inr (map seen vs))"
  by (induction vs arbitrary: q n) (auto simp: holds_append rd_ok past_past)

end

end
