(* ===== verification/Kv_Entry.thy ===== *)
theory Kv_Entry
  imports Parcel_Codec Software_Version Commit_Notify_Data
begin

text \<open>
  \<^verbatim>\<open>storage/src/generic_single_ver_kv_entry.cpp\<close>, \<^verbatim>\<open>common/src/data_compression.cpp\<close> and
  \<^verbatim>\<open>common/src/zlib_compression.cpp\<close>: the entries of a packet, one by one in the format of the version of the
  receiver, or all of them compressed. A pointer to an entry is an option; memory for the entries that are
  read is available. The library zlib is a parameter.
\<close>

section \<open>Model\<close>

definition version_supported :: "u32 \<Rightarrow> bool" where
  "version_supported v \<longleftrightarrow> \<not> (v < SOFTWARE_VERSION_EARLIEST \<or> v > SOFTWARE_VERSION_CURRENT)"

subsection \<open>Writing\<close>

definition SerializeDataByFirstVersion :: "bool \<Rightarrow> DataItem \<Rightarrow> parcel \<Rightarrow> parcel \<times> errno" where
  "SerializeDataByFirstVersion be it p =
     on_ok (WriteVectorChar be (di_key it) p) (\<lambda>p.
     on_ok (WriteVectorChar be (di_value it) p) (\<lambda>p.
     on_ok (WriteUInt64 be (di_timestamp it) p) (\<lambda>p.
     on_ok (WriteUInt64 be (di_flag it) p) (\<lambda>p.
     WriteString be (di_origDev it) p))))"

definition SerializeDataByLaterVersion :: "bool \<Rightarrow> u32 \<Rightarrow> DataItem \<Rightarrow> parcel \<Rightarrow> parcel \<times> errno" where
  "SerializeDataByLaterVersion be targetVersion it p =
     (let writeTimestamp = (if di_writeTimestamp it = 0 then di_timestamp it else di_writeTimestamp it)
      in on_ok (WriteUInt64 be writeTimestamp p) (\<lambda>p.
           if targetVersion \<ge> SOFTWARE_VERSION_RELEASE_6_0 then WriteVectorChar be (di_hashKey it) p else (p, E_OK)))"

definition SerializeDataByVersion :: "bool \<Rightarrow> u32 \<Rightarrow> DataItem \<Rightarrow> parcel \<Rightarrow> parcel \<times> errno" where
  "SerializeDataByVersion be targetVersion it p =
     (case SerializeDataByFirstVersion be it p of (p1, e) \<Rightarrow>
        if targetVersion = SOFTWARE_VERSION_EARLIEST \<or> e \<noteq> E_OK then (p1, e)
        else SerializeDataByLaterVersion be targetVersion it p1)"

definition SerializeData_entry :: "bool \<Rightarrow> u32 \<Rightarrow> DataItem \<Rightarrow> parcel \<Rightarrow> parcel \<times> errno" where
  "SerializeData_entry be targetVersion it p =
     on_ok (WriteUInt32 be targetVersion p) (\<lambda>p.
       if \<not> version_supported targetVersion then (p, E_VERSION_NOT_SUPPORT)
       else SerializeDataByVersion be targetVersion it p)"

definition SerializeDatas :: "bool \<Rightarrow> u32 \<Rightarrow> DataItem option list \<Rightarrow> parcel \<Rightarrow> parcel \<times> errno" where
  "SerializeDatas be targetVersion kvEntries p =
     on_ok (WriteUInt32 be (of_nat (length kvEntries)) p) (\<lambda>p.
       write_list (\<lambda>entry p. case entry of None \<Rightarrow> (p, E_OK) | Some it \<Rightarrow> SerializeData_entry be targetVersion it p)
         kvEntries (EightByteAlign p))"

subsection \<open>Lengths\<close>

definition CalLenByFirstVersion :: "DataItem \<Rightarrow> nat" where
  "CalLenByFirstVersion it = GetUInt32Len + GetVectorCharLen (di_key it) + GetVectorCharLen (di_value it) +
     GetUInt64Len + GetUInt64Len + GetStringLen (di_origDev it)"

definition CalLenByLaterVersion :: "u32 \<Rightarrow> DataItem \<Rightarrow> nat" where
  "CalLenByLaterVersion targetVersion it =
     GetUInt64Len + (if targetVersion \<ge> SOFTWARE_VERSION_RELEASE_6_0 then GetVectorLen (di_hashKey it) else 0)"

definition CalLenByVersion :: "u32 \<Rightarrow> DataItem \<Rightarrow> nat" where
  "CalLenByVersion targetVersion it =
     CalLenByFirstVersion it + (if targetVersion = SOFTWARE_VERSION_EARLIEST then 0 else CalLenByLaterVersion targetVersion it)"

definition CalculateLen_entry :: "u32 \<Rightarrow> DataItem \<Rightarrow> nat" where
  "CalculateLen_entry targetVersion it =
     (if \<not> version_supported targetVersion \<or> CalLenByVersion targetVersion it > INT32_MAX then 0
      else CalLenByVersion targetVersion it)"

fun add_lens :: "u32 \<Rightarrow> DataItem option list \<Rightarrow> nat \<Rightarrow> nat" where
  "add_lens v [] len = len"
| "add_lens v (None # kvEntries) len = add_lens v kvEntries len"
| "add_lens v (Some it # kvEntries) len =
     (let len = len + CalculateLen_entry v it in if len > INT32_MAX then 0 else add_lens v kvEntries len)"

definition CalculateLens :: "u32 \<Rightarrow> DataItem option list \<Rightarrow> nat" where
  "CalculateLens targetVersion kvEntries = add_lens targetVersion kvEntries (BYTE_8_ALIGN GetUInt32Len)"

subsection \<open>Reading\<close>

definition DeSerializeByFirstVersion :: "bool \<Rightarrow> nat \<Rightarrow> parcel \<Rightarrow> parcel \<times> DataItem \<times> nat" where
  "DeSerializeByFirstVersion be len p =
     (case ReadVectorChar be [] p of (p, key, n1) \<Rightarrow>
      case ReadVectorChar be [] p of (p, val, n2) \<Rightarrow>
      case ReadUInt64 be 0 p of (p, timestamp, n3) \<Rightarrow>
      case ReadUInt64 be 0 p of (p, flag, n4) \<Rightarrow>
      case ReadString be [] p of (p, origDev, n5) \<Rightarrow>
        (p, DataItem_init\<lparr>di_key := key, di_value := val, di_timestamp := timestamp, di_flag := flag,
            di_origDev := origDev, di_writeTimestamp := timestamp\<rparr>, len + n1 + n2 + n3 + n4 + n5))"

definition DeSerializeByLaterVersion ::
    "bool \<Rightarrow> u32 \<Rightarrow> DataItem \<Rightarrow> nat \<Rightarrow> parcel \<Rightarrow> parcel \<times> DataItem \<times> nat" where
  "DeSerializeByLaterVersion be targetVersion it len p =
     (case ReadUInt64 be (di_writeTimestamp it) p of (p, wts, n1) \<Rightarrow>
      case (if targetVersion \<ge> SOFTWARE_VERSION_RELEASE_6_0 then ReadVectorChar be (di_hashKey it) p
            else (p, di_hashKey it, 0)) of (p, hashKey, n2) \<Rightarrow>
        (p, it\<lparr>di_writeTimestamp := wts, di_hashKey := hashKey\<rparr>, len + n1 + n2))"

definition DeSerializeByVersion :: "bool \<Rightarrow> u32 \<Rightarrow> nat \<Rightarrow> parcel \<Rightarrow> parcel \<times> DataItem \<times> nat" where
  "DeSerializeByVersion be targetVersion len p =
     (case DeSerializeByFirstVersion be len p of (p, it, len) \<Rightarrow>
        if targetVersion = SOFTWARE_VERSION_EARLIEST then (p, it, len)
        else DeSerializeByLaterVersion be targetVersion it len p)"

definition DeSerializeData_entry :: "bool \<Rightarrow> parcel \<Rightarrow> parcel \<times> DataItem \<times> nat" where
  "DeSerializeData_entry be p =
     (case ReadUInt32 be VERSION_INVALID p of (p, version, len) \<Rightarrow>
        if IsError p \<or> \<not> version_supported version then (p, DataItem_init, 0)
        else DeSerializeByVersion be version len p)"

text \<open>The length of an entry is returned as an \<^verbatim>\<open>int\<close> and added to a \<^verbatim>\<open>uint64_t\<close>.\<close>

definition int_to_u64 :: "nat \<Rightarrow> nat" where
  "int_to_u64 len = (if wrap32 len \<le> INT32_MAX then wrap32 len else wrap32 len + 18446744069414584320)"

fun read_entries :: "bool \<Rightarrow> nat \<Rightarrow> DataItem option list \<Rightarrow> nat \<Rightarrow> parcel \<Rightarrow> parcel \<times> DataItem option list \<times> nat" where
  "read_entries be 0 acc len p = (p, acc, len)"
| "read_entries be (Suc n) acc len p =
     (case DeSerializeData_entry be p of (p1, it, l) \<Rightarrow>
        let len = wrap64 (len + int_to_u64 l); acc = acc @ [Some it]
        in if len > INT32_MAX then (p1, acc, 0) else read_entries be n acc len p1)"

definition DeSerializeDatas :: "bool \<Rightarrow> parcel \<Rightarrow> parcel \<times> DataItem option list \<times> nat" where
  "DeSerializeDatas be p =
     (case ReadUInt32 be 0 p of (p, count, n) \<Rightarrow>
      case read_entries be (unat count) [] (BYTE_8_ALIGN n) (EightByteAlign p) of (p, kvEntries, len) \<Rightarrow>
        (p, if len = 0 then map (\<lambda>_. None) kvEntries else kvEntries, len))"

subsection \<open>Compression\<close>

text \<open>
  \<open>z_bound\<close>, \<open>z_compress\<close> and \<open>z_uncompress\<close> are \<^verbatim>\<open>compressBound\<close>, \<^verbatim>\<open>compress\<close> and \<^verbatim>\<open>uncompress\<close> of zlib, given the
  bytes and the length of the destination; \<open>None\<close> is any code but \<^verbatim>\<open>Z_OK\<close>. The only algorithm that is registered is zlib.
\<close>

datatype CompressAlgorithm = COMPRESS_NONE | ZLIB

definition algo_code :: "CompressAlgorithm \<Rightarrow> u32" where
  "algo_code algo = (case algo of COMPRESS_NONE \<Rightarrow> 0 | ZLIB \<Rightarrow> 1)"

record zlib =
  z_bound :: "nat \<Rightarrow> nat"
  z_compress :: "byte list \<Rightarrow> nat \<Rightarrow> byte list option"
  z_uncompress :: "byte list \<Rightarrow> nat \<Rightarrow> byte list option"

definition MAX_SYNC_BLOCK_SIZE :: nat where "MAX_SYNC_BLOCK_SIZE = 31457280"

definition GetInstance :: "CompressAlgorithm \<Rightarrow> bool" where "GetInstance algo \<longleftrightarrow> algo = ZLIB"

definition TransferCompressionAlgo :: "u32 \<Rightarrow> CompressAlgorithm res" where
  "TransferCompressionAlgo compressAlgoType = (if compressAlgoType = algo_code ZLIB then Inr ZLIB else Inl E_INVALID_ARGS)"

definition ZlibCompression_Compress :: "zlib \<Rightarrow> byte list \<Rightarrow> byte list res" where
  "ZlibCompression_Compress z srcData =
     (let destLen = z_bound z (length srcData) in
      if length srcData > MAX_SYNC_BLOCK_SIZE \<or> destLen > MAX_SYNC_BLOCK_SIZE then Inl E_INVALID_ARGS
      else case z_compress z srcData destLen of None \<Rightarrow> Inl E_SYSTEM_API_FAIL | Some destData \<Rightarrow> Inr destData)"

definition ZlibCompression_Uncompress :: "zlib \<Rightarrow> byte list \<Rightarrow> nat \<Rightarrow> byte list res" where
  "ZlibCompression_Uncompress z srcData destLen =
     (if length srcData > MAX_SYNC_BLOCK_SIZE \<or> destLen > MAX_SYNC_BLOCK_SIZE then Inl E_INVALID_ARGS
      else case z_uncompress z srcData destLen of None \<Rightarrow> Inl E_SYSTEM_API_FAIL | Some destData \<Rightarrow> Inr destData)"

definition CalculateCompressedLens :: "byte list \<Rightarrow> nat" where
  "CalculateCompressedLens compressedData =
     (if compressedData = [] then 0
      else let len = GetUInt32Len + GetUInt32Len + GetVectorLen compressedData in if len > INT32_MAX then 0 else len)"

definition Compress :: "zlib \<Rightarrow> bool \<Rightarrow> CompressAlgorithm \<Rightarrow> u32 \<Rightarrow> DataItem option list \<Rightarrow> byte list res" where
  "Compress z be algo targetVersion kvEntries =
     (let srcLen = CalculateLens targetVersion kvEntries in
      if srcLen = 0 then Inl E_INVALID_ARGS
      else case SerializeDatas be targetVersion kvEntries (Parcel_init (replicate srcLen 0) srcLen) of (p, e) \<Rightarrow>
        if e \<noteq> E_OK then Inl e
        else if \<not> GetInstance algo then Inl E_INVALID_COMPRESS_ALGO
        else ZlibCompression_Compress z (p_buf p))"

definition Uncompress :: "zlib \<Rightarrow> bool \<Rightarrow> byte list \<Rightarrow> nat \<Rightarrow> CompressAlgorithm \<Rightarrow> DataItem option list res" where
  "Uncompress z be srcData destLen algo =
     (if \<not> GetInstance algo then Inl E_INVALID_COMPRESS_ALGO
      else case ZlibCompression_Uncompress z srcData destLen of
             Inl e \<Rightarrow> Inl e
           | Inr destData \<Rightarrow>
               (case DeSerializeDatas be (Parcel_init destData (length destData)) of (p, kvEntries, len) \<Rightarrow>
                  if len = 0 then Inl E_PARSE_FAIL else Inr kvEntries))"

definition SerializeCompressedDatas ::
    "bool \<Rightarrow> u32 \<Rightarrow> CompressAlgorithm \<Rightarrow> DataItem option list \<Rightarrow> byte list \<Rightarrow> parcel \<Rightarrow> parcel \<times> errno" where
  "SerializeCompressedDatas be targetVersion algo kvEntries compressedEntries p =
     (let srcLen = CalculateLens targetVersion kvEntries;
          p = fst (WriteUInt32 be (algo_code algo) p);
          p = fst (WriteUInt32 be (of_nat srcLen) p);
          p = fst (WriteVectorChar be compressedEntries p)
      in (p, if IsError p then E_PARSE_FAIL else E_OK))"

definition DeSerializeCompressedDatas :: "zlib \<Rightarrow> bool \<Rightarrow> parcel \<Rightarrow> parcel \<times> DataItem option list res" where
  "DeSerializeCompressedDatas z be p =
     (case ReadUInt32 be 0 p of (p, algoType, _) \<Rightarrow>
      case TransferCompressionAlgo algoType of
        Inl e \<Rightarrow> (p, Inl e)
      | Inr compressAlgo \<Rightarrow>
          (case ReadUInt32 be 0 p of (p, destLen, _) \<Rightarrow>
           case ReadVectorChar be [] p of (p, srcData, _) \<Rightarrow>
             if IsError p then (p, Inl E_PARSE_FAIL) else (p, Uncompress z be srcData (unat destLen) compressAlgo)))"

section \<open>The fields of an entry\<close>

definition sent_stamp :: "DataItem \<Rightarrow> Timestamp" where
  "sent_stamp it = (if di_writeTimestamp it = 0 then di_timestamp it else di_writeTimestamp it)"

definition entry_fields :: "u32 \<Rightarrow> DataItem \<Rightarrow> field list" where
  "entry_fields v it = [FU32 v, FVec8 (di_key it), FVec8 (di_value it), FU64 (di_timestamp it), FU64 (di_flag it), FString (di_origDev it)] @
     (if v = SOFTWARE_VERSION_EARLIEST then [] else FU64 (sent_stamp it) # (if v \<ge> SOFTWARE_VERSION_RELEASE_6_0 then [FVec8 (di_hashKey it)] else []))"

definition datas_fields :: "u32 \<Rightarrow> DataItem list \<Rightarrow> field list" where
  "datas_fields v its = [FU32 (of_nat (length its)), FAlign] @ concat (map (entry_fields v) its)"

text \<open>What a receiver of version \<open>v\<close> gets of an item.\<close>

definition item_seen :: "u32 \<Rightarrow> DataItem \<Rightarrow> DataItem" where
  "item_seen v it = DataItem_init\<lparr>di_key := di_key it, di_value := di_value it, di_timestamp := di_timestamp it,
     di_flag := di_flag it, di_origDev := di_origDev it,
     di_writeTimestamp := (if v = SOFTWARE_VERSION_EARLIEST then di_timestamp it else sent_stamp it),
     di_hashKey := (if v \<ge> SOFTWARE_VERSION_RELEASE_6_0 then di_hashKey it else [])\<rparr>"

lemma SerializeData_entry_ok:
  assumes "version_supported v" "writes be (entry_fields v it) p"
  shows "SerializeData_entry be v it p = (write_fields be (entry_fields v it) p, E_OK)"
proof -
  let ?late = "if v = SOFTWARE_VERSION_EARLIEST then [] else FU64 (sent_stamp it) # (if v \<ge> SOFTWARE_VERSION_RELEASE_6_0 then [FVec8 (di_hashKey it)] else [])"
  have w0: "writes be (FU32 v # FVec8 (di_key it) # FVec8 (di_value it) # FU64 (di_timestamp it) # FU64 (di_flag it) #
      FString (di_origDev it) # ?late) p"
    using assms(2) by (simp add: entry_fields_def)
  note w1 = on_ok_step[OF w0] 
  note w2 = on_ok_step[OF conjunct2[OF w1]]
  note w3 = on_ok_step[OF conjunct2[OF w2]]
  note w4 = on_ok_step[OF conjunct2[OF w3]]
  note w5 = on_ok_step[OF conjunct2[OF w4]]
  note w6 = writes_step[OF conjunct2[OF w5]]
  define p5 where "p5 = fst (write_field be (FU64 (di_flag it)) (fst (write_field be (FU64 (di_timestamp it))
      (fst (write_field be (FVec8 (di_value it)) (fst (write_field be (FVec8 (di_key it)) (fst (WriteUInt32 be v p)))))))))"
  define p6 where "p6 = fst (WriteString be (di_origDev it) p5)"
  have first: "SerializeDataByFirstVersion be it (fst (WriteUInt32 be v p)) = (p6, E_OK)"
    using w2 w3 w4 w5 w6 by (simp add: SerializeDataByFirstVersion_def p5_def p6_def)
  have late: "writes be ?late p6" using w6 by (simp add: p5_def p6_def)
  have "SerializeDataByVersion be v it (fst (WriteUInt32 be v p)) = (write_fields be ?late p6, E_OK)"
  proof (cases "v = SOFTWARE_VERSION_EARLIEST")
    case False
    then have l: "writes be (FU64 (sent_stamp it) # (if v \<ge> SOFTWARE_VERSION_RELEASE_6_0 then [FVec8 (di_hashKey it)] else [])) p6"
      using late by simp
    note s = on_ok_step[OF l]
    then have "v \<ge> SOFTWARE_VERSION_RELEASE_6_0 \<Longrightarrow> writes be [FVec8 (di_hashKey it)] (fst (write_field be (FU64 (sent_stamp it)) p6))" by simp
    then show ?thesis using False s writes_step[of be "FVec8 (di_hashKey it)" "[]" "fst (write_field be (FU64 (sent_stamp it)) p6)"]
      by (auto simp: SerializeDataByVersion_def first SerializeDataByLaterVersion_def sent_stamp_def Let_def)
  next
    case True
    then show ?thesis using first by (simp add: SerializeDataByVersion_def)
  qed
  moreover have "write_fields be (entry_fields v it) p = write_fields be ?late p6"
    by (simp add: entry_fields_def p5_def p6_def)
  ultimately show ?thesis using w1 assms(1) by (simp add: SerializeData_entry_def)
qed

lemma DeSerializeData_entry_ok:
  assumes "version_supported v" "holds (entry_fields v it) q"
  shows "DeSerializeData_entry be q =
    (past (entry_fields v it) q, item_seen v it, fields_end (p_parcelLen q) (entry_fields v it) - p_parcelLen q)"
proof -
  let ?late = "if v = SOFTWARE_VERSION_EARLIEST then [] else FU64 (sent_stamp it) # (if v \<ge> SOFTWARE_VERSION_RELEASE_6_0 then [FVec8 (di_hashKey it)] else [])"
  have h0: "holds (FU32 v # FVec8 (di_key it) # FVec8 (di_value it) # FU64 (di_timestamp it) # FU64 (di_flag it) #
      FString (di_origDev it) # ?late) q"
    using assms(2) by (simp add: entry_fields_def)
  note h1 = holds_read(3)[OF h0, of be VERSION_INVALID]
  note h2 = holds_read(7)[OF conjunct2[OF h1], of be "[]"]
  note h3 = holds_read(7)[OF conjunct2[OF h2], of be "[]"]
  note h4 = holds_read(5)[OF conjunct2[OF h3], of be 0]
  note h5 = holds_read(5)[OF conjunct2[OF h4], of be 0]
  note h6 = holds_read(6)[OF conjunct2[OF h5], of be "[]"]
  define n where "n = vector_step (di_key it) + vector_step (di_value it) + 16 + string_step (di_origDev it)"
  define it1 where "it1 = DataItem_init\<lparr>di_key := di_key it, di_value := di_value it, di_timestamp := di_timestamp it,
      di_flag := di_flag it, di_origDev := di_origDev it, di_writeTimestamp := di_timestamp it\<rparr>"
  have first: "DeSerializeByFirstVersion be 4 (shift 4 q) = (shift (4 + n) q, it1, 4 + n)"
    using h2 h3 h4 h5 h6 by (simp add: DeSerializeByFirstVersion_def it1_def n_def ac_simps)
  have late: "holds ?late (shift (4 + n) q)" using h6 by (simp add: n_def ac_simps)
  have e: "\<not> IsError (shift 4 q)" using holds_ok[OF conjunct2[OF h1]] by simp
  have "DeSerializeByVersion be v 4 (shift 4 q) = (past ?late (shift (4 + n) q), item_seen v it,
      fields_end (4 + n + p_parcelLen q) ?late - p_parcelLen q)"
  proof (cases "v = SOFTWARE_VERSION_EARLIEST")
    case True
    have "\<not> SOFTWARE_VERSION_EARLIEST \<ge> SOFTWARE_VERSION_RELEASE_6_0" by (simp add: version_defs)
    with True show ?thesis using first by (simp add: DeSerializeByVersion_def item_seen_def it1_def DataItem_init_def)
  next
    case False
    then have l: "holds (FU64 (sent_stamp it) # (if v \<ge> SOFTWARE_VERSION_RELEASE_6_0 then [FVec8 (di_hashKey it)] else [])) (shift (4 + n) q)"
      using late by simp
    note h7 = holds_read(5)[OF l, of be "di_writeTimestamp it1"]
    have h8: "ReadVectorChar be (di_hashKey it1) (shift (12 + n) q) =
        (shift (12 + n + vector_step (di_hashKey it)) q, di_hashKey it, vector_step (di_hashKey it))" if "v \<ge> SOFTWARE_VERSION_RELEASE_6_0"
      using h7 that holds_read(7)[of "di_hashKey it" "[]" "shift (12 + n) q" be "di_hashKey it1"] by (simp add: ac_simps del: holds.simps)
    show ?thesis using False first h7 h8
      by (auto simp: DeSerializeByVersion_def DeSerializeByLaterVersion_def item_seen_def it1_def past_Cons field_size_def DataItem_init_def ac_simps)
  qed
  moreover have "past (entry_fields v it) q = past ?late (shift (4 + n) q)" "fields_end (p_parcelLen q) (entry_fields v it) = fields_end (4 + n + p_parcelLen q) ?late"
    by (simp_all add: entry_fields_def past_Cons field_size_def n_def ac_simps)
  ultimately show ?thesis using h1 e assms(1) by (simp add: DeSerializeData_entry_def)
qed

section \<open>The entries of a packet\<close>

lemma write_entries:
  assumes "version_supported v" "writes be (concat (map (entry_fields v) its)) p"
  shows "write_list (\<lambda>entry p. case entry of None \<Rightarrow> (p, E_OK) | Some it \<Rightarrow> SerializeData_entry be v it p) (map Some its) p =
    (write_fields be (concat (map (entry_fields v) its)) p, E_OK)"
  using assms(2)
  by (induction its arbitrary: p) (auto simp: writes_append write_fields_append SerializeData_entry_ok assms(1))

lemma SerializeDatas_ok:
  assumes "version_supported v" "writes be (datas_fields v its) p"
  shows "SerializeDatas be v (map Some its) p = (write_fields be (datas_fields v its) p, E_OK)"
proof -
  have w: "writes be (FU32 (of_nat (length its)) # FAlign # concat (map (entry_fields v) its)) p" using assms(2) by (simp add: datas_fields_def)
  note w1 = on_ok_step[OF w]
  have "writes be (concat (map (entry_fields v) its)) (EightByteAlign (fst (WriteUInt32 be (of_nat (length its)) p)))"
    using writes_step[OF conjunct2[OF w1]] by simp
  from write_entries[OF assms(1) this] w1 show ?thesis by (simp add: SerializeDatas_def datas_fields_def)
qed

lemma entry_size: "entry_fields v it \<noteq> []" "fields_end pos (entry_fields v it) = pos + fields_end 0 (entry_fields v it)"
  by (simp_all add: entry_fields_def)

lemma read_entries_ok:
  assumes "version_supported v" "holds (concat (map (entry_fields v) its)) q"
    and "len + (fields_end (p_parcelLen q) (concat (map (entry_fields v) its)) - p_parcelLen q) \<le> INT32_MAX"
  shows "read_entries be (length its) acc len q = (past (concat (map (entry_fields v) its)) q, acc @ map (Some \<circ> item_seen v) its,
    len + (fields_end (p_parcelLen q) (concat (map (entry_fields v) its)) - p_parcelLen q))"
  using assms(2,3)
proof (induction its arbitrary: q acc len)
  case (Cons it its)
  let ?e = "entry_fields v it" and ?r = "concat (map (entry_fields v) its)"
  let ?l = "fields_end (p_parcelLen q) ?e - p_parcelLen q"
  have h: "holds ?e q" "holds ?r (past ?e q)" using Cons.prems(1) by (simp_all add: holds_append)
  note d = DeSerializeData_entry_ok[OF assms(1) h(1), of be]
  have m: "p_parcelLen q \<le> fields_end (p_parcelLen q) ?e" "fields_end (p_parcelLen q) ?e \<le> fields_end (fields_end (p_parcelLen q) ?e) ?r"
    by (simp_all add: fields_end_ge)
  have l: "len + ?l \<le> INT32_MAX" using Cons.prems(2) m by simp
  then have "wrap64 (len + int_to_u64 ?l) = len + ?l" by (simp add: int_to_u64_def INT32_MAX_def)
  moreover have "read_entries be (length its) (acc @ [Some (item_seen v it)]) (len + ?l) (past ?e q) =
      (past ?r (past ?e q), (acc @ [Some (item_seen v it)]) @ map (Some \<circ> item_seen v) its,
       len + ?l + (fields_end (p_parcelLen (past ?e q)) ?r - p_parcelLen (past ?e q)))"
    using Cons.prems(2) m by (intro Cons.IH h(2)) simp
  ultimately show ?case using d l m by (simp add: past_past Let_def)
qed simp

lemma DeSerializeDatas_ok:
  assumes "version_supported v" "holds (datas_fields v its) q" "length its < 4294967296"
    and "8 + (fields_end (p_parcelLen q) (datas_fields v its) - p_parcelLen q) \<le> INT32_MAX"
  shows "\<exists>len. DeSerializeDatas be q = (past (datas_fields v its) q, map (Some \<circ> item_seen v) its, len) \<and> 0 < len \<and> len \<le> INT32_MAX"
proof -
  let ?r = "concat (map (entry_fields v) its)"
  have h: "holds (FU32 (of_nat (length its)) # FAlign # ?r) q" using assms(2) by (simp add: datas_fields_def)
  note h1 = holds_read(3)[OF h, of be 0]
  note h2 = holds_align[OF conjunct2[OF h1]]
  have n: "unat (of_nat (length its) :: u32) = length its" using assms(3) by (simp add: unat_of_nat_eq)
  let ?q = "EightByteAlign (shift 4 q)"
  have pos: "p_parcelLen ?q = BYTE_8_ALIGN (p_parcelLen q + 4)"
    using BYTE_8_ALIGN_ge[of "p_parcelLen q + 4"] by (simp add: EightByteAlign_eq)
  have e: "fields_end (p_parcelLen q) (datas_fields v its) = fields_end (p_parcelLen ?q) ?r" by (simp add: datas_fields_def pos)
  have le: "8 + (fields_end (p_parcelLen ?q) ?r - p_parcelLen ?q) \<le> INT32_MAX"
    using assms(4) pos BYTE_8_ALIGN_ge[of "p_parcelLen q + 4"] unfolding e by linarith
  have b: "BYTE_8_ALIGN 4 = 8" by (simp add: BYTE_8_ALIGN_def)
  note r = read_entries_ok[OF assms(1) conjunct1[OF h2] le, of be "[]"]
  have "past (datas_fields v its) q = past ?r ?q"
    using conjunct2[OF h2] by (simp add: datas_fields_def past_Cons field_size_def EightByteAlign_eq)
  then show ?thesis using h1 r n le by (simp add: DeSerializeDatas_def b)
qed

subsection \<open>Lengths\<close>

lemma CalculateLen_entry_ok:
  assumes "version_supported v" "fields_end 0 (entry_fields v it) \<le> INT32_MAX"
  shows "CalculateLen_entry v it = fields_end 0 (entry_fields v it) \<and> list_all field_legal (entry_fields v it)"
proof -
  have k: "vector_step (di_key it) \<le> INT32_MAX" "vector_step (di_value it) \<le> INT32_MAX" "string_step (di_origDev it) \<le> INT32_MAX"
    using assms(2) by (simp_all add: entry_fields_def split: if_splits)
  have h: "vector_step (di_hashKey it) \<le> INT32_MAX" if "v \<noteq> SOFTWARE_VERSION_EARLIEST" "v \<ge> SOFTWARE_VERSION_RELEASE_6_0"
    using assms(2) that by (simp add: entry_fields_def)
  note i = item_lens(2)[OF k(1)] item_lens(2)[OF k(2)] item_lens(1)[OF k(3)] item_lens(2)[OF h]
  have "CalLenByVersion v it = fields_end 0 (entry_fields v it)"
    using i by (simp add: CalLenByVersion_def CalLenByFirstVersion_def CalLenByLaterVersion_def GetUInt32Len_def GetUInt64Len_def
        entry_fields_def GetVectorCharLen_def)
  moreover have "list_all field_legal (entry_fields v it)" using i by (simp add: entry_fields_def)
  ultimately show ?thesis using assms by (simp add: CalculateLen_entry_def)
qed

lemma add_lens_ok:
  assumes "version_supported v" "fields_end len (concat (map (entry_fields v) its)) \<le> INT32_MAX"
  shows "add_lens v (map Some its) len = fields_end len (concat (map (entry_fields v) its)) \<and>
    list_all field_legal (concat (map (entry_fields v) its))"
  using assms(2)
proof (induction its arbitrary: len)
  case (Cons it its)
  let ?l = "len + fields_end 0 (entry_fields v it)"
  have "?l \<le> INT32_MAX" using Cons.prems fields_end_ge[of ?l "concat (map (entry_fields v) its)"] entry_size(2)[of len v it] by simp
  then show ?case using CalculateLen_entry_ok[OF assms(1), of it] Cons.IH[of ?l] Cons.prems entry_size(2)[of len v it]
    by (simp add: Let_def)
qed simp

lemma CalculateLens_ok:
  assumes "version_supported v" "fields_end 0 (datas_fields v its) \<le> INT32_MAX"
  shows "CalculateLens v (map Some its) = fields_end 0 (datas_fields v its) \<and> list_all field_legal (datas_fields v its) \<and>
    8 \<le> fields_end 0 (datas_fields v its)"
  using add_lens_ok[OF assms(1), of "BYTE_8_ALIGN 4" its] assms(2) fields_end_ge[of "BYTE_8_ALIGN 4" "concat (map (entry_fields v) its)"]
  by (simp add: CalculateLens_def datas_fields_def GetUInt32Len_def) (simp add: BYTE_8_ALIGN_def)

subsection \<open>Compressed entries\<close>

text \<open>What the documentation of zlib promises: a destination of \<^verbatim>\<open>compressBound\<close> bytes is enough, and the data comes back.\<close>

definition zlib_sound :: "zlib \<Rightarrow> bool" where
  "zlib_sound z \<longleftrightarrow> (\<forall>src. \<exists>dest. z_compress z src (z_bound z (length src)) = Some dest \<and> dest \<noteq> [] \<and>
     length dest \<le> z_bound z (length src) \<and> z_uncompress z dest (length src) = Some src)"

definition compressible :: "zlib \<Rightarrow> u32 \<Rightarrow> DataItem list \<Rightarrow> bool" where
  "compressible z v its \<longleftrightarrow> fields_end 0 (datas_fields v its) \<le> MAX_SYNC_BLOCK_SIZE \<and>
     z_bound z (fields_end 0 (datas_fields v its)) \<le> MAX_SYNC_BLOCK_SIZE \<and> length its < 4294967296"

lemma Uncompress_Compress:
  assumes "version_supported v" "zlib_sound z" "compressible z v its"
  shows "\<exists>c. Compress z be ZLIB v (map Some its) = Inr c \<and> c \<noteq> [] \<and> length c \<le> MAX_SYNC_BLOCK_SIZE \<and>
    Uncompress z be' c (CalculateLens v (map Some its)) ZLIB = Inr (map (Some \<circ> item_seen v) its)"
proof -
  let ?n = "fields_end 0 (datas_fields v its)" and ?buf = "replicate (fields_end 0 (datas_fields v its)) (0 :: byte)"
  have n: "?n \<le> MAX_SYNC_BLOCK_SIZE" "z_bound z ?n \<le> MAX_SYNC_BLOCK_SIZE" "length its < 4294967296" using assms(3) by (simp_all add: compressible_def)
  then have i: "?n \<le> INT32_MAX" "8 + ?n \<le> INT32_MAX" "?n < 4294967296" by (simp_all add: MAX_SYNC_BLOCK_SIZE_def INT32_MAX_def)
  note l = CalculateLens_ok[OF assms(1) i(1)]
  have b: "0 < length ?buf" "length ?buf < 4294967296" using l i(3) by auto
  let ?p = "write_fields be (datas_fields v its) (Parcel_init ?buf ?n)"
  have w: "writes be (datas_fields v its) (Parcel_init ?buf (length ?buf))" using writes_init[OF _ _ b] l by simp
  have s: "SerializeDatas be v (map Some its) (Parcel_init ?buf ?n) = (?p, E_OK)" using SerializeDatas_ok[OF assms(1) w] by simp
  have h: "holds (datas_fields v its) (Parcel_init (p_buf ?p) ?n)" "length (p_buf ?p) = ?n" using holds_init[OF w b] by simp_all
  then obtain c where c: "z_compress z (p_buf ?p) (z_bound z ?n) = Some c" "c \<noteq> []" "length c \<le> z_bound z ?n" "z_uncompress z c ?n = Some (p_buf ?p)"
    using assms(2) unfolding zlib_sound_def by metis
  have z: "p_parcelLen (Parcel_init (p_buf ?p) ?n) = 0" by (simp add: Parcel_init_def)
  obtain len where d: "DeSerializeDatas be' (Parcel_init (p_buf ?p) ?n) =
      (past (datas_fields v its) (Parcel_init (p_buf ?p) ?n), map (Some \<circ> item_seen v) its, len)" "0 < len"
    using DeSerializeDatas_ok[OF assms(1) h(1) n(3), of be'] i(2) z by auto
  have "Compress z be ZLIB v (map Some its) = Inr c"
    using l s c(1) h(2) n by (simp add: Compress_def GetInstance_def ZlibCompression_Compress_def Let_def)
  moreover have "Uncompress z be' c ?n ZLIB = Inr (map (Some \<circ> item_seen v) its)"
    using d c(3,4) h(2) n by (simp add: Uncompress_def GetInstance_def ZlibCompression_Uncompress_def)
  ultimately show ?thesis using l c(2,3) n(2) by auto
qed

section \<open>Entries that are not there\<close>

lemma read_entries_error:
  assumes "p_isError p" "len \<le> INT32_MAX" "parcel_wf p"
  shows "read_entries be n acc len p = (p, acc @ replicate n (Some DataItem_init), len)"
proof -
  have "DeSerializeData_entry be p = (p, DataItem_init, 0)"
    using assms(1) by (simp add: DeSerializeData_entry_def ReadUInt32_def ReadInteger_def IsError_def)
  then show ?thesis using assms(2)
    by (induction n arbitrary: acc) (simp_all add: int_to_u64_def INT32_MAX_def Let_def replicate_append_same flip: replicate_Suc)
qed

text \<open>The number of entries in compressed data is not checked against the data: eight bytes that hold only the number
  \<open>k\<close> are accepted without an error and give \<open>k\<close> blank entries, for every \<open>k\<close> of 32 bits.\<close>

theorem missing_entries_accepted:
  assumes "k < 4294967296" "z_uncompress z src 8 = Some (enc_len k @ [0, 0, 0, 0])" "length src \<le> MAX_SYNC_BLOCK_SIZE"
  shows "Uncompress z be src 8 ZLIB = Inr (replicate k (Some DataItem_init))"
proof -
  let ?q = "Parcel_init (enc_len k @ [0, 0, 0, 0]) 8"
  have q: "parcel_wf ?q" "\<not> p_isError ?q" "p_parcelLen ?q = 0" "p_totalLen ?q = 8" "p_buf ?q = enc_len k @ [0, 0, 0, 0]"
    by (auto simp: Parcel_init_def parcel_wf_def)
  have "holds [FU32 (of_nat k), FAlign] ?q"
    using q by (simp add: field_at_def enc_len_def enc_word_def)
  note h1 = holds_read(3)[OF this, of be 0]
  have a: "EightByteAlign (shift 4 ?q) = shift 8 ?q" using q(3) by (simp add: EightByteAlign_eq BYTE_8_ALIGN_def)
  have f: "DeSerializeData_entry be (shift 8 ?q) = ((shift 8 ?q)\<lparr>p_isError := True\<rparr>, DataItem_init, 0)"
    using q by (simp add: DeSerializeData_entry_def ReadUInt32_def ReadInteger_def parcel_defs)
  have "\<exists>p. read_entries be k [] 8 (shift 8 ?q) = (p, replicate k (Some DataItem_init), 8)"
  proof (cases k)
    case (Suc n)
    then show ?thesis using f q(1) read_entries_error[of "(shift 8 ?q)\<lparr>p_isError := True\<rparr>" 8 be n "[Some DataItem_init]"]
      by (simp add: int_to_u64_def INT32_MAX_def Let_def)
  qed simp
  then have "\<exists>p. DeSerializeDatas be ?q = (p, replicate k (Some DataItem_init), 8)"
    using h1 a assms(1) by (auto simp: DeSerializeDatas_def BYTE_8_ALIGN_def unat_of_nat_eq)
  then show ?thesis using assms(2,3) by (auto simp: Uncompress_def GetInstance_def ZlibCompression_Uncompress_def MAX_SYNC_BLOCK_SIZE_def)
qed

section \<open>Witnesses\<close>

definition plain_zlib :: zlib where
  "plain_zlib = \<lparr>z_bound = (\<lambda>n. n + 1), z_compress = (\<lambda>src n. Some (0 # src)), z_uncompress = (\<lambda>src n. Some (tl src))\<rparr>"

theorem missing_entries_accepted_witness:
  "Uncompress plain_zlib False (0 # enc_len 3 @ [0, 0, 0, 0]) 8 ZLIB = Inr (replicate 3 (Some DataItem_init))"
  by (rule missing_entries_accepted) (simp_all add: plain_zlib_def MAX_SYNC_BLOCK_SIZE_def)

end
