(* ===== verification/Query_Sync_Object.thy ===== *)
theory Query_Sync_Object
  imports Parcel_Codec Commit_Notify_Data "HOL-Library.List_Lexorder"
begin

text \<open>
  \<^verbatim>\<open>storage/src/sqlite/query_sync_object.cpp\<close>: queries that travel to another device, with a data request
  or to subscribe to it, and the identity both devices know a query by.
\<close>

section \<open>Model\<close>

text \<open>
  The members of the union of a value have the length of \<^verbatim>\<open>longValue\<close> at most and share its bytes. The
  enumerations are kept as the integers that are sent. A \<^verbatim>\<open>std::set\<close> of keys is visited in the order of the
  vectors of bytes, which is the lexicographic one.
\<close>

record FieldValue =
  fv_longValue :: u64
  fv_stringValue :: "byte list"

record QueryObjNode =
  qn_operFlag :: u32
  qn_fieldName :: "byte list"
  qn_type :: u32
  qn_fieldValue :: "FieldValue list"

record QuerySyncObject =
  qs_isValid :: bool
  qs_queryObjNodes :: "QueryObjNode list"
  qs_prefixKey :: Key
  qs_suggestIndex :: "byte list"
  qs_isTableNameSpecified :: bool
  qs_tableName :: "byte list"
  qs_keys :: "Key set"

definition OPER_ILLEGAL :: u32 where "OPER_ILLEGAL = 0"
definition OPER_LIMIT :: u32 where "OPER_LIMIT = 0x0701"
definition OPER_ORDERBY :: u32 where "OPER_ORDERBY = 0x0702"
definition OPER_SUGGEST_INDEX :: u32 where "OPER_SUGGEST_INDEX = 0x0801"
definition QUERY_SYNC_OBJECT_VERSION_0 :: u32 where "QUERY_SYNC_OBJECT_VERSION_0 = 0"
definition QUERY_SYNC_OBJECT_VERSION_1 :: u32 where "QUERY_SYNC_OBJECT_VERSION_1 = 1"
definition MAX_INKEYS_SIZE :: nat where "MAX_INKEYS_SIZE = 128"
definition MAGIC :: "byte list" where "MAGIC = map of_char ''remote query''"
definition default_table :: "byte list" where "default_table = map of_char ''sync_data''"

definition QuerySyncObject_init :: QuerySyncObject where
  "QuerySyncObject_init = \<lparr>qs_isValid = True, qs_queryObjNodes = [], qs_prefixKey = [], qs_suggestIndex = [],
     qs_isTableNameSpecified = False, qs_tableName = default_table, qs_keys = {}\<rparr>"

definition GetVersion_query :: "QuerySyncObject \<Rightarrow> u32" where
  "GetVersion_query q = (if qs_isTableNameSpecified q \<or> qs_keys q \<noteq> {} then QUERY_SYNC_OBJECT_VERSION_1 else QUERY_SYNC_OBJECT_VERSION_0)"

definition SetTableName :: "byte list \<Rightarrow> QuerySyncObject \<Rightarrow> QuerySyncObject" where
  "SetTableName tableName q = q\<lparr>qs_tableName := tableName, qs_isTableNameSpecified := True\<rparr>"

definition keys_in_order :: "Key set \<Rightarrow> Key list" where "keys_in_order = sorted_list_of_set"

subsection \<open>Nodes\<close>

definition write_value :: "bool \<Rightarrow> FieldValue \<Rightarrow> parcel \<Rightarrow> parcel" where
  "write_value be v p = fst (WriteInt64 be (fv_longValue v) (fst (WriteString be (fv_stringValue v) p)))"

definition SerializeDataObjNode :: "bool \<Rightarrow> QueryObjNode \<Rightarrow> parcel \<Rightarrow> parcel \<times> errno" where
  "SerializeDataObjNode be node p =
     (if qn_operFlag node = OPER_ILLEGAL then (p, E_INVALID_QUERY_FORMAT)
      else let p = fst (WriteUInt32 be (qn_operFlag node) p);
               p = EightByteAlign p;
               p = fst (WriteString be (qn_fieldName node) p);
               p = fst (WriteInt be (qn_type node) p);
               p = fst (WriteUInt32 be (of_nat (length (qn_fieldValue node))) p);
               p = fold (write_value be) (qn_fieldValue node) p
           in (p, if IsError p then E_INVALID_ARGS else E_OK))"

definition read_value :: "bool \<Rightarrow> parcel \<Rightarrow> parcel \<times> FieldValue res" where
  "read_value be p =
     (case ReadString be [] p of (p, str, _) \<Rightarrow>
      case ReadInt64 be 0 p of (p, long, _) \<Rightarrow>
        (p, if IsError p then Inl E_INVALID_ARGS else Inr \<lparr>fv_longValue = long, fv_stringValue = str\<rparr>))"

definition DeSerializeDataObjNode :: "bool \<Rightarrow> parcel \<Rightarrow> parcel \<times> QueryObjNode res" where
  "DeSerializeDataObjNode be p =
     (case ReadUInt32 be 0 p of (p, readOperFlag, _) \<Rightarrow>
      case ReadString be [] (EightByteAlign p) of (p, fieldName, _) \<Rightarrow>
      case ReadInt be (- 1) p of (p, readInt, _) \<Rightarrow>
      case ReadUInt32 be 0 p of (p, valueSize, _) \<Rightarrow>
        if IsError p then (p, Inl E_INVALID_ARGS)
        else case read_list (read_value be) (unat valueSize) p of
               (p, Inl e) \<Rightarrow> (p, Inl e)
             | (p, Inr values) \<Rightarrow> (p, Inr \<lparr>qn_operFlag = readOperFlag, qn_fieldName = fieldName, qn_type = readInt,
                 qn_fieldValue = values\<rparr>))"

subsection \<open>Queries\<close>

definition write_version1 :: "bool \<Rightarrow> QuerySyncObject \<Rightarrow> parcel \<Rightarrow> parcel" where
  "write_version1 be q p =
     (let p = fst (WriteUInt32 be (if qs_isTableNameSpecified q then 1 else 0) p);
          p = (if qs_isTableNameSpecified q then fst (WriteString be (qs_tableName q) p) else p);
          p = fst (WriteUInt32 be (of_nat (card (qs_keys q))) p)
      in fold (\<lambda>key p. fst (WriteVectorChar be key p)) (keys_in_order (qs_keys q)) p)"

definition SerializeData_query :: "bool \<Rightarrow> QuerySyncObject \<Rightarrow> parcel \<Rightarrow> parcel \<times> errno" where
  "SerializeData_query be q p =
     (if \<not> qs_isValid q then (p, E_INVALID_QUERY_FORMAT)
      else let p = fst (WriteString be MAGIC p);
               p = fst (WriteUInt32 be (GetVersion_query q) p);
               p = fst (WriteVectorChar be (qs_prefixKey q) p);
               p = fst (WriteString be (qs_suggestIndex q) p);
               p = fst (WriteUInt32 be (of_nat (length (qs_queryObjNodes q))) p);
               p = EightByteAlign p
           in case write_list (SerializeDataObjNode be) (qs_queryObjNodes q) p of (p, e) \<Rightarrow>
                if e \<noteq> E_OK then (p, e)
                else let p = (if GetVersion_query q \<ge> QUERY_SYNC_OBJECT_VERSION_1 then write_version1 be q p else p)
                     in if IsError p then (p, E_INVALID_ARGS) else (EightByteAlign p, E_OK))"

text \<open>The keys are read one by one; an error is only looked at afterwards.\<close>

fun read_keys :: "bool \<Rightarrow> nat \<Rightarrow> Key set \<Rightarrow> parcel \<Rightarrow> parcel \<times> Key set" where
  "read_keys be 0 ks p = (p, ks)"
| "read_keys be (Suc n) ks p = (case ReadVectorChar be [] p of (p, key, _) \<Rightarrow> read_keys be n (insert key ks) p)"

definition DeSerializeVersion1Data :: "bool \<Rightarrow> u32 \<Rightarrow> parcel \<Rightarrow> parcel \<times> (byte list \<times> Key set) res" where
  "DeSerializeVersion1Data be version p =
     (if version \<ge> QUERY_SYNC_OBJECT_VERSION_1 then
        (case ReadUInt32 be 0 p of (p, isTblNameExist, _) \<Rightarrow>
         case (if isTblNameExist \<noteq> 0 then ReadString be [] p else (p, [], 0)) of (p, tableName, _) \<Rightarrow>
         case ReadUInt32 be 0 p of (p, keysSize, _) \<Rightarrow>
           if unat keysSize > MAX_INKEYS_SIZE then (p, Inl E_PARSE_FAIL)
           else case read_keys be (unat keysSize) {} p of (p, keys) \<Rightarrow> (p, Inr (tableName, keys)))
      else (p, Inr ([], {})))"

definition DeSerializeData_query :: "bool \<Rightarrow> parcel \<Rightarrow> parcel \<times> QuerySyncObject res" where
  "DeSerializeData_query be p =
     (case ReadString be [] p of (p, magic, _) \<Rightarrow>
      if magic \<noteq> MAGIC then (p, Inl E_INVALID_ARGS)
      else case ReadUInt32 be QUERY_SYNC_OBJECT_VERSION_0 p of (p, version, _) \<Rightarrow>
        if version > QUERY_SYNC_OBJECT_VERSION_1 then (p, Inl E_VERSION_NOT_SUPPORT)
        else case ReadVectorChar be [] p of (p, prefixKey, _) \<Rightarrow>
          case ReadString be [] p of (p, suggestIndex, _) \<Rightarrow>
          case ReadUInt32 be 0 p of (p, nodesSize, _) \<Rightarrow>
          if IsError p then (p, Inl E_INVALID_ARGS)
          else case read_list (DeSerializeDataObjNode be) (unat nodesSize) (EightByteAlign p) of
                 (p, Inl e) \<Rightarrow> (p, Inl e)
               | (p, Inr nodes) \<Rightarrow>
                   (case DeSerializeVersion1Data be version p of
                      (p, Inl e) \<Rightarrow> (p, Inl e)
                    | (p, Inr (tableName, keys)) \<Rightarrow>
                        if IsError p then (p, Inl E_INVALID_ARGS)
                        else let q = QuerySyncObject_init\<lparr>qs_queryObjNodes := nodes, qs_prefixKey := prefixKey, qs_keys := keys\<rparr>
                             in (p, Inr (if tableName \<noteq> [] then SetTableName tableName q else q))))"

text \<open>The length the query takes, 0 if it cannot be sent.\<close>

definition node_len :: "QueryObjNode \<Rightarrow> nat \<Rightarrow> nat" where
  "node_len node len =
     GetEightByteAlign (len + GetUInt32Len) + (GetStringLen (qn_fieldName node) + GetIntLen + GetUInt32Len) +
     sum_list (map (\<lambda>v. GetInt64Len + GetStringLen (fv_stringValue v)) (qn_fieldValue node))"

definition CalculateLen_query :: "QuerySyncObject \<Rightarrow> nat" where
  "CalculateLen_query q =
     (if list_ex (\<lambda>node. qn_operFlag node = OPER_ILLEGAL) (qs_queryObjNodes q) then 0
      else let len = GetStringLen MAGIC + GetUInt32Len + GetVectorCharLen (qs_prefixKey q) + GetStringLen (qs_suggestIndex q) + GetUInt32Len;
               len = GetEightByteAlign len;
               len = fold node_len (qs_queryObjNodes q) len;
               len = len + GetUInt32Len;
               len = (if qs_isTableNameSpecified q then len + GetStringLen (qs_tableName q) else len);
               len = len + GetUInt32Len;
               len = len + sum_list (map GetVectorCharLen (keys_in_order (qs_keys q)));
               len = GetEightByteAlign len
           in if len > INT32_MAX then 0 else len)"

subsection \<open>Identity\<close>

definition CAP_HEX_CHAR_MAP :: "byte list" where "CAP_HEX_CHAR_MAP = map of_char ''0123456789ABCDEF''"

definition VectorToHexString :: "byte list \<Rightarrow> byte list" where
  "VectorToHexString inVec = concat (map (\<lambda>b. [CAP_HEX_CHAR_MAP ! unat (drop_bit 4 b), CAP_HEX_CHAR_MAP ! unat (b AND 0x0F)]) inVec)"

text \<open>Limits, orders and suggested indexes do not belong to the identity of a query.\<close>

definition identifying :: "QueryObjNode \<Rightarrow> bool" where
  "identifying node \<longleftrightarrow> \<not> (qn_operFlag node = OPER_LIMIT \<or> qn_operFlag node = OPER_ORDERBY \<or> qn_operFlag node = OPER_SUGGEST_INDEX)"

definition identify_len :: "QuerySyncObject \<Rightarrow> nat" where
  "identify_len q =
     GetVectorCharLen (qs_prefixKey q) +
     sum_list (map (\<lambda>node. GetUInt32Len + GetIntLen + GetStringLen (qn_fieldName node) +
       sum_list (map (\<lambda>v. GetStringLen (fv_stringValue v) + GetInt64Len) (qn_fieldValue node)))
       (filter identifying (qs_queryObjNodes q))) +
     (if qs_isTableNameSpecified q then GetStringLen (qs_tableName q) else 0) +
     sum_list (map GetVectorCharLen (keys_in_order (qs_keys q)))"

definition write_identity_node :: "bool \<Rightarrow> QueryObjNode \<Rightarrow> parcel \<Rightarrow> parcel" where
  "write_identity_node be node p =
     (let p = fst (WriteUInt32 be (qn_operFlag node) p);
          p = fst (WriteInt be (qn_type node) p);
          p = fst (WriteString be (qn_fieldName node) p)
      in fold (\<lambda>v p. fst (WriteString be (fv_stringValue v) (fst (WriteInt64 be (fv_longValue v) p)))) (qn_fieldValue node) p)"

definition GetIdentify :: "(byte list \<Rightarrow> byte list option) \<Rightarrow> bool \<Rightarrow> QuerySyncObject \<Rightarrow> byte list" where
  "GetIdentify sha be q =
     (if \<not> qs_isValid q then []
      else let len = identify_len q;
               p = Parcel_init (replicate len 0) len;
               p = fst (WriteVectorChar be (qs_prefixKey q) p);
               p = fold (write_identity_node be) (filter identifying (qs_queryObjNodes q)) p;
               p = (if qs_isTableNameSpecified q then fst (WriteString be (qs_tableName q) p) else p);
               p = fold (\<lambda>key p. fst (WriteVectorChar be key p)) (keys_in_order (qs_keys q)) p
           in if IsError p then []
              else case CalcValueHash sha (p_buf p) of Inl _ \<Rightarrow> [] | Inr hashBuff \<Rightarrow> VectorToHexString hashBuff)"

section \<open>The fields of a query\<close>

definition value_fields :: "FieldValue \<Rightarrow> field list" where
  "value_fields v = [FString (fv_stringValue v), FInt64 (fv_longValue v)]"

definition node_fields :: "QueryObjNode \<Rightarrow> field list" where
  "node_fields node = [FU32 (qn_operFlag node), FAlign, FString (qn_fieldName node), FInt (qn_type node),
     FU32 (of_nat (length (qn_fieldValue node)))] @ concat (map value_fields (qn_fieldValue node))"

definition version1_fields :: "QuerySyncObject \<Rightarrow> field list" where
  "version1_fields q = [FU32 (if qs_isTableNameSpecified q then 1 else 0)] @
     (if qs_isTableNameSpecified q then [FString (qs_tableName q)] else []) @
     [FU32 (of_nat (card (qs_keys q)))] @ map FVec8 (keys_in_order (qs_keys q))"

definition qso_fields :: "QuerySyncObject \<Rightarrow> field list" where
  "qso_fields q = [FString MAGIC, FU32 (GetVersion_query q), FVec8 (qs_prefixKey q), FString (qs_suggestIndex q),
     FU32 (of_nat (length (qs_queryObjNodes q))), FAlign] @ concat (map node_fields (qs_queryObjNodes q)) @
     (if GetVersion_query q \<ge> QUERY_SYNC_OBJECT_VERSION_1 then version1_fields q else [])"

text \<open>The query the other device sees: the suggested index stays behind.\<close>

definition query_seen :: "QuerySyncObject \<Rightarrow> QuerySyncObject" where
  "query_seen q = q\<lparr>qs_suggestIndex := [], qs_tableName := (if qs_isTableNameSpecified q then qs_tableName q else default_table)\<rparr>"

definition node_ok :: "QueryObjNode \<Rightarrow> bool" where
  "node_ok node \<longleftrightarrow> qn_operFlag node \<noteq> OPER_ILLEGAL \<and> length (qn_fieldValue node) < 4294967296"

definition query_ok :: "QuerySyncObject \<Rightarrow> bool" where
  "query_ok q \<longleftrightarrow> qs_isValid q \<and> list_all node_ok (qs_queryObjNodes q) \<and> length (qs_queryObjNodes q) < 4294967296 \<and>
     finite (qs_keys q) \<and> card (qs_keys q) \<le> MAX_INKEYS_SIZE \<and> (qs_isTableNameSpecified q \<longrightarrow> qs_tableName q \<noteq> [])"

interpretation value_codec: codec "\<lambda>be v p. (write_value be v p, E_OK)" read_value value_fields "\<lambda>v. v" "\<lambda>_. True"
proof
  fix v q be
  assume h: "holds (value_fields v) q"
  note h1 = holds_read(6)[OF h[unfolded value_fields_def], of be "[]"]
  note h2 = holds_read(4)[OF conjunct2[OF h1], of be 0]
  show "read_value be q = (past (value_fields v) q, Inr v)"
    using h1 h2 by (simp add: read_value_def IsError_def past_def value_fields_def)
qed (simp add: write_value_def value_fields_def)

lemma write_values: "fold (write_value be) vs p = write_fields be (concat (map value_fields vs)) p"
  by (induction vs arbitrary: p) (simp_all add: write_value_def value_fields_def)

interpretation node_codec: codec SerializeDataObjNode DeSerializeDataObjNode node_fields "\<lambda>v. v" node_ok
proof
  fix node q be p
  assume ok: "node_ok node"
  show "SerializeDataObjNode be node p = (write_fields be (node_fields node) p, E_OK)" if "writes be (node_fields node) p"
    using that ok by (simp add: SerializeDataObjNode_def node_fields_def node_ok_def write_values write_fields_append
        writes_def IsError_def Let_def)
  assume h: "holds (node_fields node) q"
  then have h0: "holds (FU32 (qn_operFlag node) # FAlign # FString (qn_fieldName node) # FInt (qn_type node) #
      FU32 (of_nat (length (qn_fieldValue node))) # concat (map value_fields (qn_fieldValue node))) q"
    by (simp add: node_fields_def)
  note h1 = holds_read(3)[OF h0, of be 0]
  note h2 = holds_align[OF conjunct2[OF h1]]
  note h3 = holds_read(6)[OF conjunct1[OF h2], of be "[]"]
  note h4 = holds_read(2)[OF conjunct2[OF h3], of be "- 1"]
  note h5 = holds_read(3)[OF conjunct2[OF h4], of be 0]
  have n: "unat (of_nat (length (qn_fieldValue node)) :: u32) = length (qn_fieldValue node)"
    using ok by (simp add: node_ok_def unat_of_nat_eq)
  note h6 = value_codec.read_all[OF _ conjunct2[OF h5] n, of be]
  have e: "\<not> IsError (shift 4 (shift 4 (shift (string_step (qn_fieldName node)) (EightByteAlign (shift 4 q)))))"
    using holds_ok[OF conjunct2[OF h5]] by simp
  have "past (node_fields node) q = past (concat (map value_fields (qn_fieldValue node)))
      (shift 4 (shift 4 (shift (string_step (qn_fieldName node)) (EightByteAlign (shift 4 q)))))"
    by (simp add: node_fields_def past_Cons field_size_def EightByteAlign_eq)
  then show "DeSerializeDataObjNode be q = (past (node_fields node) q, Inr node)"
    using h1 h3 h4 h5 h6 e by (simp add: DeSerializeDataObjNode_def list_all_iff)
qed

lemma write_keys: "fold (\<lambda>key p. fst (WriteVectorChar be key p)) ks p = write_fields be (map FVec8 ks) p"
  by (induction ks arbitrary: p) simp_all

lemma write_version1_eq: "write_version1 be q p = write_fields be (version1_fields q) p"
  by (simp add: write_version1_def version1_fields_def write_keys Let_def)

lemma node_fields_aligned: "8 dvd pos \<Longrightarrow> 8 dvd fields_end pos (concat (map node_fields nodes))"
proof (induction nodes arbitrary: pos)
  case (Cons node nodes)
  have v: "8 dvd k \<Longrightarrow> 8 dvd fields_end k (concat (map value_fields vs))" for k vs
    by (induction vs arbitrary: k) (simp_all add: value_fields_def string_step_def)
  have "8 dvd fields_end pos (node_fields node)"
    unfolding node_fields_def by (simp add: string_step_def add.assoc v)
  then show ?case using Cons.IH by simp
qed simp

lemma version1_aligned: "8 dvd pos \<Longrightarrow> 8 dvd fields_end pos (version1_fields q)"
proof -
  have k: "8 dvd k \<Longrightarrow> 8 dvd fields_end k (map FVec8 ks)" for k ks
    by (induction ks arbitrary: k) (simp_all add: vector_step_def)
  assume "8 dvd pos"
  then show ?thesis using k by (simp add: version1_fields_def string_step_def add.assoc)
qed

lemma qso_aligned: "8 dvd pos \<Longrightarrow> 8 dvd fields_end pos (qso_fields q)"
  unfolding qso_fields_def by (simp add: node_fields_aligned version1_aligned)

lemma SerializeData_query_ok:
  assumes "query_ok q" "writes be (qso_fields q) p" "8 dvd p_parcelLen p"
  shows "SerializeData_query be q p = (write_fields be (qso_fields q) p, E_OK)"
proof -
  let ?head = "[FString MAGIC, FU32 (GetVersion_query q), FVec8 (qs_prefixKey q), FString (qs_suggestIndex q),
     FU32 (of_nat (length (qs_queryObjNodes q))), FAlign]"
  define p1 where "p1 = write_fields be ?head p"
  define p2 where "p2 = write_fields be (concat (map node_fields (qs_queryObjNodes q))) p1"
  let ?p3 = "if GetVersion_query q \<ge> QUERY_SYNC_OBJECT_VERSION_1 then write_version1 be q p2 else p2"
  have p3: "?p3 = write_fields be (qso_fields q) p"
    by (simp add: qso_fields_def write_fields_append write_version1_eq p1_def p2_def)
  have w: "writes be (concat (map node_fields (qs_queryObjNodes q))) p1"
    using assms(2) unfolding qso_fields_def writes_append p1_def by simp
  have n: "write_list (SerializeDataObjNode be) (qs_queryObjNodes q) p1 = (p2, E_OK)"
    unfolding p2_def using assms(1) w by (intro node_codec.write_all) (simp_all add: query_ok_def)
  have head: "EightByteAlign (fst (WriteUInt32 be (of_nat (length (qs_queryObjNodes q))) (fst (WriteString be (qs_suggestIndex q)
      (fst (WriteVectorChar be (qs_prefixKey q) (fst (WriteUInt32 be (GetVersion_query q) (fst (WriteString be MAGIC p)))))))))) = p1"
    by (simp add: p1_def)
  have "8 dvd p_parcelLen ?p3" "\<not> IsError ?p3" "qs_isValid q"
    unfolding p3 using writes_end[OF assms(2)] qso_aligned[OF assms(3)] assms(1,2) by (simp_all add: writes_def query_ok_def IsError_def)
  then have "SerializeData_query be q p = (?p3, E_OK)"
    unfolding SerializeData_query_def Let_def head n by (simp add: EightByteAlign_aligned)
  then show ?thesis unfolding p3 .
qed

lemma read_keys_ok:
  "holds (map FVec8 ks) q \<Longrightarrow> n = length ks \<Longrightarrow> read_keys be n S q = (past (map FVec8 ks) q, S \<union> set ks)"
proof (induction ks arbitrary: q n S)
  case (Cons k ks)
  note h = holds_read(7)[of k "map FVec8 ks" q be "[]"]
  show ?case using h Cons by (simp add: past_Cons field_size_def)
qed simp

lemma DeSerializeVersion1Data_ok:
  assumes "query_ok q" "holds (if GetVersion_query q \<ge> QUERY_SYNC_OBJECT_VERSION_1 then version1_fields q else []) p"
  shows "DeSerializeVersion1Data be (GetVersion_query q) p =
    (past (if GetVersion_query q \<ge> QUERY_SYNC_OBJECT_VERSION_1 then version1_fields q else []) p,
     Inr (if qs_isTableNameSpecified q then qs_tableName q else [], qs_keys q))"
proof (cases "GetVersion_query q \<ge> QUERY_SYNC_OBJECT_VERSION_1")
  case True
  let ?ks = "keys_in_order (qs_keys q)"
  have ks: "set ?ks = qs_keys q" "length ?ks = card (qs_keys q)"
    using assms(1) by (simp_all add: keys_in_order_def query_ok_def)
  have n: "unat (of_nat (card (qs_keys q)) :: u32) = card (qs_keys q)"
    using assms(1) by (simp add: query_ok_def MAX_INKEYS_SIZE_def unat_of_nat_eq)
  let ?t = "if qs_isTableNameSpecified q then [FString (qs_tableName q)] else []"
  have h: "holds (FU32 (if qs_isTableNameSpecified q then 1 else 0) # ?t @ FU32 (of_nat (card (qs_keys q))) # map FVec8 ?ks) p"
    using assms(2) True by (simp add: version1_fields_def)
  note h1 = holds_read(3)[OF h, of be 0]
  have h2: "(if qs_isTableNameSpecified q then ReadString be [] (shift 4 p) else (shift 4 p, [], 0)) =
      (past ?t (shift 4 p), if qs_isTableNameSpecified q then qs_tableName q else [],
       if qs_isTableNameSpecified q then string_step (qs_tableName q) else 0) \<and>
      holds (FU32 (of_nat (card (qs_keys q))) # map FVec8 ?ks) (past ?t (shift 4 p))"
    using h1 holds_read(6)[of "qs_tableName q" "FU32 (of_nat (card (qs_keys q))) # map FVec8 ?ks" "shift 4 p" be "[]"]
    by (cases "qs_isTableNameSpecified q") (simp_all add: past_Cons field_size_def del: holds.simps)
  note h3 = holds_read(3)[OF conjunct2[OF h2], of be 0]
  note h4 = read_keys_ok[OF conjunct2[OF h3], of "card (qs_keys q)" be "{}"]
  have "past (version1_fields q) p = past (map FVec8 ?ks) (shift 4 (past ?t (shift 4 p)))"
    by (simp add: version1_fields_def past_Cons field_size_def)
  then show ?thesis
    using True h1 h2 h3 h4 n ks assms(1)
    by (auto simp: DeSerializeVersion1Data_def query_ok_def)
next
  case False
  then have "\<not> qs_isTableNameSpecified q" "qs_keys q = {}" by (auto simp: GetVersion_query_def split: if_splits)
  then show ?thesis using False by (simp add: DeSerializeVersion1Data_def)
qed

lemma DeSerializeData_query_ok:
  assumes "query_ok q" "holds (qso_fields q) p"
  shows "DeSerializeData_query be p = (past (qso_fields q) p, Inr (query_seen q))"
proof -
  let ?nodes = "concat (map node_fields (qs_queryObjNodes q))"
  let ?v1 = "if GetVersion_query q \<ge> QUERY_SYNC_OBJECT_VERSION_1 then version1_fields q else []"
  have h0: "holds (FString MAGIC # FU32 (GetVersion_query q) # FVec8 (qs_prefixKey q) # FString (qs_suggestIndex q) #
      FU32 (of_nat (length (qs_queryObjNodes q))) # FAlign # ?nodes @ ?v1) p"
    using assms(2) by (simp add: qso_fields_def)
  note h1 = holds_read(6)[OF h0, of be "[]"]
  note h2 = holds_read(3)[OF conjunct2[OF h1], of be QUERY_SYNC_OBJECT_VERSION_0]
  note h3 = holds_read(7)[OF conjunct2[OF h2], of be "[]"]
  note h4 = holds_read(6)[OF conjunct2[OF h3], of be "[]"]
  note h5 = holds_read(3)[OF conjunct2[OF h4], of be 0]
  define p5 where "p5 = shift 4 (shift (string_step (qs_suggestIndex q)) (shift (vector_step (qs_prefixKey q))
      (shift 4 (shift (string_step MAGIC) p))))"
  note h6 = holds_align[OF conjunct2[OF h5], folded p5_def]
  have e5: "\<not> IsError p5" using holds_ok[OF conjunct2[OF h5, folded p5_def]] by simp
  have h7: "holds ?nodes (EightByteAlign p5)" "holds ?v1 (past ?nodes (EightByteAlign p5))" using h6 holds_append by blast+
  have n: "unat (of_nat (length (qs_queryObjNodes q)) :: u32) = length (qs_queryObjNodes q)"
    using assms(1) by (simp add: query_ok_def unat_of_nat_eq)
  have h8: "read_list (DeSerializeDataObjNode be) (length (qs_queryObjNodes q)) (EightByteAlign p5) =
      (past ?nodes (EightByteAlign p5), Inr (qs_queryObjNodes q))"
    using node_codec.read_all[OF _ h7(1) refl, of be] assms(1) by (simp add: query_ok_def)
  note h9 = DeSerializeVersion1Data_ok[OF assms(1) h7(2), of be]
  have e: "\<not> IsError (past ?v1 (past ?nodes (EightByteAlign p5)))" using holds_ok[OF h7(1)] by (simp add: IsError_def)
  have v: "\<not> GetVersion_query q > QUERY_SYNC_OBJECT_VERSION_1"
    by (simp add: GetVersion_query_def QUERY_SYNC_OBJECT_VERSION_0_def QUERY_SYNC_OBJECT_VERSION_1_def)
  have pos: "past (qso_fields q) p = past ?v1 (past ?nodes (EightByteAlign p5))"
    by (simp add: qso_fields_def past_Cons past_past field_size_def EightByteAlign_eq p5_def)
  have seen: "(if (if qs_isTableNameSpecified q then qs_tableName q else []) \<noteq> []
      then SetTableName (if qs_isTableNameSpecified q then qs_tableName q else [])
        (QuerySyncObject_init\<lparr>qs_queryObjNodes := qs_queryObjNodes q, qs_prefixKey := qs_prefixKey q, qs_keys := qs_keys q\<rparr>)
      else QuerySyncObject_init\<lparr>qs_queryObjNodes := qs_queryObjNodes q, qs_prefixKey := qs_prefixKey q, qs_keys := qs_keys q\<rparr>) = query_seen q"
    using assms(1) by (auto simp: query_ok_def query_seen_def SetTableName_def QuerySyncObject_init_def)
  show ?thesis unfolding pos
    using h1 h2 h3 h4 h5 h8 h9 e e5 v n seen unfolding DeSerializeData_query_def p5_def[symmetric]
    by (simp add: Let_def p5_def)
qed

section \<open>The length of a query\<close>

lemma values_len:
  "fields_end pos (concat (map value_fields vs)) \<le> INT32_MAX \<Longrightarrow>
     fields_end pos (concat (map value_fields vs)) = pos + sum_list (map (\<lambda>v. GetInt64Len + GetStringLen (fv_stringValue v)) vs) \<and>
     list_all field_legal (concat (map value_fields vs))"
proof (induction vs arbitrary: pos)
  case (Cons v vs)
  have "string_step (fv_stringValue v) \<le> INT32_MAX"
    using Cons.prems fields_end_ge[of "pos + string_step (fv_stringValue v) + 8" "concat (map value_fields vs)"]
    by (simp add: value_fields_def[of v])
  from item_lens(1)[OF this] Cons.IH[of "pos + string_step (fv_stringValue v) + 8"] Cons.prems show ?case
    by (simp add: value_fields_def[of v] GetInt64Len_def)
qed simp

lemma node_len_ok:
  assumes "fields_end pos (node_fields node) \<le> INT32_MAX"
  shows "node_len node pos = fields_end pos (node_fields node) \<and> list_all field_legal (node_fields node)"
proof -
  let ?k = "BYTE_8_ALIGN (pos + 4) + string_step (qn_fieldName node) + 4 + 4"
  have e: "fields_end pos (node_fields node) = fields_end ?k (concat (map value_fields (qn_fieldValue node)))"
    by (simp add: node_fields_def)
  have k: "?k \<le> INT32_MAX" using assms fields_end_ge[of ?k] unfolding e by (meson order_trans)
  then show ?thesis
    using values_len[of ?k "qn_fieldValue node"] assms e item_lens(1)[of "qn_fieldName node"] aligned_len[of "pos + 4"]
    by (simp add: node_len_def GetUInt32Len_def GetIntLen_def node_fields_def)
qed

lemma nodes_len_ok:
  "fields_end pos (concat (map node_fields nodes)) \<le> INT32_MAX \<Longrightarrow>
     fold node_len nodes pos = fields_end pos (concat (map node_fields nodes)) \<and> list_all field_legal (concat (map node_fields nodes))"
proof (induction nodes arbitrary: pos)
  case (Cons node nodes)
  then show ?case using node_len_ok[OF fields_end_le[of pos "node_fields node"]] by simp
qed simp

lemma keys_len:
  "fields_end pos (map FVec8 ks) \<le> INT32_MAX \<Longrightarrow>
     fields_end pos (map FVec8 ks) = pos + sum_list (map GetVectorCharLen ks) \<and> list_all field_legal (map FVec8 ks)"
proof (induction ks arbitrary: pos)
  case (Cons k ks)
  have "vector_step k \<le> INT32_MAX" using Cons.prems fields_end_ge[of "pos + vector_step k" "map FVec8 ks"] by simp
  from item_lens(2)[OF this] Cons.IH[of "pos + vector_step k"] Cons.prems show ?case by simp
qed simp

lemma version1_len_ok:
  assumes "fields_end pos (version1_fields q) \<le> INT32_MAX"
  shows "pos + GetUInt32Len + (if qs_isTableNameSpecified q then GetStringLen (qs_tableName q) else 0) + GetUInt32Len +
      sum_list (map GetVectorCharLen (keys_in_order (qs_keys q))) = fields_end pos (version1_fields q) \<and>
    list_all field_legal (version1_fields q)"
proof -
  let ?k = "pos + 4 + (if qs_isTableNameSpecified q then string_step (qs_tableName q) else 0) + 4"
  have e: "fields_end pos (version1_fields q) = fields_end ?k (map FVec8 (keys_in_order (qs_keys q)))"
    by (simp add: version1_fields_def)
  have k: "?k \<le> INT32_MAX" using assms fields_end_ge[of ?k] unfolding e by (meson order_trans)
  then show ?thesis
    using keys_len[of ?k "keys_in_order (qs_keys q)"] assms e item_lens(1)[of "qs_tableName q"]
    by (cases "qs_isTableNameSpecified q") (simp_all add: GetUInt32Len_def version1_fields_def)
qed

text \<open>All fields there can be; the last two are counted even if they are not sent.\<close>

definition full_fields :: "QuerySyncObject \<Rightarrow> field list" where
  "full_fields q = [FString MAGIC, FU32 (GetVersion_query q), FVec8 (qs_prefixKey q), FString (qs_suggestIndex q),
     FU32 (of_nat (length (qs_queryObjNodes q))), FAlign] @ concat (map node_fields (qs_queryObjNodes q)) @ version1_fields q"

lemma full_aligned: "8 dvd fields_end 0 (full_fields q)"
  unfolding full_fields_def by (simp add: node_fields_aligned version1_aligned)

lemma CalculateLen_query_ok:
  assumes "list_all node_ok (qs_queryObjNodes q)" "fields_end 0 (full_fields q) \<le> INT32_MAX"
  shows "CalculateLen_query q = fields_end 0 (full_fields q) \<and> list_all field_legal (full_fields q)"
proof -
  let ?k = "string_step MAGIC + 4 + vector_step (qs_prefixKey q) + string_step (qs_suggestIndex q) + 4"
  let ?n = "fields_end (BYTE_8_ALIGN ?k) (concat (map node_fields (qs_queryObjNodes q)))"
  have e: "fields_end 0 (full_fields q) = fields_end ?n (version1_fields q)" by (simp add: full_fields_def)
  have b: "?n \<le> INT32_MAX" "BYTE_8_ALIGN ?k \<le> INT32_MAX" "?k \<le> INT32_MAX"
    using assms(2) fields_end_ge[of ?n "version1_fields q"] BYTE_8_ALIGN_ge[of ?k]
      fields_end_ge[of "BYTE_8_ALIGN ?k" "concat (map node_fields (qs_queryObjNodes q))"] unfolding e by linarith+
  have i: "GetStringLen MAGIC = string_step MAGIC \<and> string_legal MAGIC" "GetStringLen (qs_suggestIndex q) = string_step (qs_suggestIndex q) \<and>
      string_legal (qs_suggestIndex q)" "GetVectorCharLen (qs_prefixKey q) = vector_step (qs_prefixKey q) \<and> vector_legal (qs_prefixKey q)"
    using b(3) by (intro item_lens; linarith)+
  note n = nodes_len_ok[OF b(1)] and v = version1_len_ok[OF assms(2)[unfolded e]]
  have l: "GetEightByteAlign (fields_end ?n (version1_fields q)) = fields_end ?n (version1_fields q)"
    using full_aligned[of q] assms(2) unfolding e by (simp add: BYTE_8_ALIGN_aligned aligned_len)
  have "\<not> list_ex (\<lambda>node. qn_operFlag node = OPER_ILLEGAL) (qs_queryObjNodes q)"
    using assms(1) by (auto simp: list_ex_iff list_all_iff node_ok_def)
  moreover have "list_all field_legal (full_fields q)" using i n v by (simp add: full_fields_def)
  ultimately show ?thesis using i n v l aligned_len[OF b(2)] assms(2) unfolding e
    by (auto simp: CalculateLen_query_def Let_def GetUInt32Len_def split: if_splits)
qed

section \<open>The identity of a query\<close>

definition identity_node_fields :: "QueryObjNode \<Rightarrow> field list" where
  "identity_node_fields node = [FU32 (qn_operFlag node), FInt (qn_type node), FString (qn_fieldName node)] @
     concat (map (\<lambda>v. [FInt64 (fv_longValue v), FString (fv_stringValue v)]) (qn_fieldValue node))"

definition identity_fields :: "QuerySyncObject \<Rightarrow> field list" where
  "identity_fields q = FVec8 (qs_prefixKey q) # concat (map identity_node_fields (filter identifying (qs_queryObjNodes q))) @
     (if qs_isTableNameSpecified q then [FString (qs_tableName q)] else []) @ map FVec8 (keys_in_order (qs_keys q))"

lemma write_identity_nodes:
  "fold (write_identity_node be) nodes p = write_fields be (concat (map identity_node_fields nodes)) p"
proof -
  have v: "fold (\<lambda>v p. fst (WriteString be (fv_stringValue v) (fst (WriteInt64 be (fv_longValue v) p)))) vs p =
      write_fields be (concat (map (\<lambda>v. [FInt64 (fv_longValue v), FString (fv_stringValue v)]) vs)) p" for vs p
    by (induction vs arbitrary: p) simp_all
  show ?thesis
    by (induction nodes arbitrary: p)
      (simp_all add: write_identity_node_def identity_node_fields_def write_fields_append v Let_def)
qed

lemma GetIdentify_eq:
  "GetIdentify sha be q =
     (if \<not> qs_isValid q then []
      else let p = write_fields be (identity_fields q) (Parcel_init (replicate (identify_len q) 0) (identify_len q))
           in if IsError p then []
              else case CalcValueHash sha (p_buf p) of Inl _ \<Rightarrow> [] | Inr hashBuff \<Rightarrow> VectorToHexString hashBuff)"
  by (simp add: GetIdentify_def identity_fields_def write_identity_nodes write_keys write_fields_append Let_def)

lemma GetIdentify_host: "GetIdentify sha be q = GetIdentify sha be' q"
  using write_fields_host[of "Parcel_init (replicate (identify_len q) 0) (identify_len q)" be "identity_fields q" be']
  by (simp add: GetIdentify_eq Parcel_init_wf Let_def)

lemma GetIdentify_seen: "GetIdentify sha be (query_seen q) = GetIdentify sha be q"
  by (simp add: GetIdentify_eq identity_fields_def identify_len_def query_seen_def Let_def)

section \<open>Properties\<close>

lemma qso_in_full:
  "fields_end pos (qso_fields q) \<le> fields_end pos (full_fields q)" "list_all field_legal (full_fields q) \<Longrightarrow> list_all field_legal (qso_fields q)"
  by (simp_all add: qso_fields_def full_fields_def fields_end_ge)

text \<open>A query survives the wire: a valid query is written into the buffer of the length that was calculated for it,
  the other device, whatever its byte order, reads the same query, except for the suggested index that only concerns the
  sender, and both devices know it by the same identity.\<close>

theorem query_survives_wire:
  assumes "query_ok q" "fields_end 0 (full_fields q) \<le> INT32_MAX" "length buf = CalculateLen_query q"
  shows "\<exists>p p'. SerializeData_query be q (Parcel_init buf (CalculateLen_query q)) = (p, E_OK) \<and>
    DeSerializeData_query be' (Parcel_init (p_buf p) (CalculateLen_query q)) = (p', Inr (query_seen q)) \<and>
    GetIdentify sha be' (query_seen q) = GetIdentify sha be q"
proof -
  have n: "CalculateLen_query q = fields_end 0 (full_fields q)" "list_all field_legal (full_fields q)"
    using CalculateLen_query_ok[OF _ assms(2)] assms(1) by (simp_all add: query_ok_def)
  have "0 < fields_end 0 (full_fields q)"
    using fields_end_ge[of "string_step MAGIC" "tl (full_fields q)"] BYTE_8_ALIGN_ge[of "4 + length MAGIC"]
    by (simp add: full_fields_def string_step_def)
  then have l: "0 < length buf" "length buf < 4294967296" using n(1) assms(2,3) by (simp_all add: INT32_MAX_def)
  have w: "writes be (qso_fields q) (Parcel_init buf (length buf))"
    using qso_in_full(1)[of 0 q] qso_in_full(2)[OF n(2)] n(1) assms(3) l by (intro writes_init) simp_all
  have s: "SerializeData_query be q (Parcel_init buf (length buf)) = (write_fields be (qso_fields q) (Parcel_init buf (length buf)), E_OK)"
    by (rule SerializeData_query_ok[OF assms(1) w]) (simp add: init_parcel[OF l])
  note r = DeSerializeData_query_ok[OF assms(1) holds_init(1)[OF w l], of be']
  have "GetIdentify sha be' (query_seen q) = GetIdentify sha be q" using GetIdentify_seen GetIdentify_host by metis
  then show ?thesis using s r unfolding assms(3) by blast
qed

section \<open>Witnesses\<close>

definition demo_query :: QuerySyncObject where
  "demo_query = QuerySyncObject_init\<lparr>qs_prefixKey := [1], qs_suggestIndex := [9], qs_keys := {[3], [2]},
     qs_queryObjNodes := [\<lparr>qn_operFlag = 0x0101, qn_fieldName = [65], qn_type = 2, qn_fieldValue = [\<lparr>fv_longValue = 5, fv_stringValue = []\<rparr>]\<rparr>]\<rparr>"

lemma demo_query_ok: "query_ok demo_query" "fields_end 0 (full_fields demo_query) \<le> INT32_MAX" "CalculateLen_query demo_query = 104"
proof -
  have k: "keys_in_order {[3], [2]} = [[2 :: byte], [3]]" by (simp add: keys_in_order_def list_less_def lexord_def)
  show ok: "query_ok demo_query"
    by (simp add: query_ok_def demo_query_def QuerySyncObject_init_def node_ok_def OPER_ILLEGAL_def MAX_INKEYS_SIZE_def card_insert_if)
  have n: "fields_end 0 (full_fields demo_query) = 104"
    by (simp add: full_fields_def demo_query_def QuerySyncObject_init_def node_fields_def value_fields_def version1_fields_def k
        string_step_def vector_step_def BYTE_8_ALIGN_def MAGIC_def)
  then show "fields_end 0 (full_fields demo_query) \<le> INT32_MAX" by (simp add: INT32_MAX_def)
  then show "CalculateLen_query demo_query = 104" using CalculateLen_query_ok[of demo_query] ok n by (simp add: query_ok_def)
qed

theorem query_survives_wire_witness:
  "\<exists>p p'. SerializeData_query False demo_query (Parcel_init (replicate 104 0) 104) = (p, E_OK) \<and>
    DeSerializeData_query True (Parcel_init (p_buf p) 104) = (p', Inr (query_seen demo_query)) \<and>
    GetIdentify Some True (query_seen demo_query) = GetIdentify Some False demo_query"
  using query_survives_wire[OF demo_query_ok(1,2), of "replicate 104 0" False True Some] by (simp add: demo_query_ok(3))

end
