(* ===== verification/Sync_Packet.thy ===== *)
theory Sync_Packet
  imports Kv_Entry Query_Sync_Object Frame_Roundtrip
begin

text \<open>
  \<^verbatim>\<open>syncer/src/single_ver_data_packet.cpp\<close> and \<^verbatim>\<open>syncer/src/single_ver_serialize_manager.cpp\<close>: the packets of the
  single-version sync and how they become the payload of a message: requests with data, with or without a query,
  acknowledgements, and the commands to subscribe to a query.
\<close>

unbundle bit_operations_syntax

section \<open>Packets\<close>

record DataRequestPacket =
  dr_data :: "DataItem option list"
  dr_endWaterMark :: u64
  dr_localWaterMark :: u64
  dr_peerWaterMark :: u64
  dr_sendCode :: u32
  dr_mode :: u32
  dr_sessionId :: u32
  dr_version :: u32
  dr_reserved :: "u64 list"
  dr_flag :: u32
  dr_query :: QuerySyncObject
  dr_queryId :: "byte list"
  dr_deletedWatermark :: u64
  dr_compressData :: "byte list"
  dr_algo :: CompressAlgorithm

definition INVALID_MODE :: u32 where "INVALID_MODE = 12"
definition QUERY_PUSH :: u32 where "QUERY_PUSH = 6"

definition DataRequestPacket_init :: DataRequestPacket where
  "DataRequestPacket_init = \<lparr>dr_data = [], dr_endWaterMark = 0, dr_localWaterMark = 0, dr_peerWaterMark = 0, dr_sendCode = 0,
     dr_mode = INVALID_MODE, dr_sessionId = 0, dr_version = SOFTWARE_VERSION_CURRENT, dr_reserved = [], dr_flag = 0,
     dr_query = QuerySyncObject_init, dr_queryId = [], dr_deletedWatermark = 0, dr_compressData = [], dr_algo = COMPRESS_NONE\<rparr>"

definition IS_LAST_SEQUENCE :: u32 where "IS_LAST_SEQUENCE = 0x1"
definition IS_UPDATE_WATER :: u32 where "IS_UPDATE_WATER = 0x2"
definition IS_COMPRESS_DATA :: u32 where "IS_COMPRESS_DATA = 0x4"

definition IsLastSequence :: "DataRequestPacket \<Rightarrow> bool" where
  "IsLastSequence pk \<longleftrightarrow> dr_flag pk AND IS_LAST_SEQUENCE = IS_LAST_SEQUENCE"
definition SetLastSequence :: "DataRequestPacket \<Rightarrow> DataRequestPacket" where
  "SetLastSequence pk = pk\<lparr>dr_flag := dr_flag pk OR IS_LAST_SEQUENCE\<rparr>"
definition IsNeedUpdateWaterMark :: "DataRequestPacket \<Rightarrow> bool" where
  "IsNeedUpdateWaterMark pk \<longleftrightarrow> \<not> dr_flag pk AND IS_UPDATE_WATER = IS_UPDATE_WATER"
definition SetUpdateWaterMark :: "DataRequestPacket \<Rightarrow> DataRequestPacket" where
  "SetUpdateWaterMark pk = pk\<lparr>dr_flag := dr_flag pk OR IS_UPDATE_WATER\<rparr>"
definition IsCompressData :: "DataRequestPacket \<Rightarrow> bool" where
  "IsCompressData pk \<longleftrightarrow> dr_flag pk AND IS_COMPRESS_DATA = IS_COMPRESS_DATA"
definition SetCompressDataMark :: "DataRequestPacket \<Rightarrow> DataRequestPacket" where
  "SetCompressDataMark pk = pk\<lparr>dr_flag := dr_flag pk OR IS_COMPRESS_DATA\<rparr>"

definition GetPacketId :: "DataRequestPacket \<Rightarrow> u64" where
  "GetPacketId pk = (case dr_reserved pk of [] \<Rightarrow> 0 | packetId # _ \<Rightarrow> packetId)"

record DataAckPacket =
  da_data :: u64
  da_recvCode :: u32
  da_version :: u32
  da_reserved :: "u64 list"

definition DataAckPacket_init :: DataAckPacket where
  "DataAckPacket_init = \<lparr>da_data = 0, da_recvCode = 0, da_version = SOFTWARE_VERSION_CURRENT, da_reserved = []\<rparr>"

definition MAX_PACKETID :: u64 where "MAX_PACKETID = 10000000000"

definition GetPacketId_ack :: "DataAckPacket \<Rightarrow> u64" where
  "GetPacketId_ack pk =
     (let packetId = (if length (da_reserved pk) > 1 then da_reserved pk ! 1 else 0)
      in if packetId > MAX_PACKETID then 0 else packetId)"

record SubscribeRequest =
  cr_version :: u32
  cr_sendCode :: u32
  cr_controlCmdType :: u32
  cr_flag :: u32
  cr_query :: QuerySyncObject

definition IS_AUTO_SUBSCRIBE :: u32 where "IS_AUTO_SUBSCRIBE = 0x1"
definition IsAutoSubscribe :: "SubscribeRequest \<Rightarrow> bool" where
  "IsAutoSubscribe pk \<longleftrightarrow> cr_flag pk AND IS_AUTO_SUBSCRIBE = IS_AUTO_SUBSCRIBE"

record ControlAckPacket =
  ca_version :: u32
  ca_recvCode :: u32
  ca_controlCmdType :: u32
  ca_flag :: u32

text \<open>
  The object of a message. \<^verbatim>\<open>GetObject\<close> casts it to the type the caller names; with another object its result is
  undefined, which is \<open>ABORTED\<close> here.
\<close>

datatype sync_object =
    DataRequest DataRequestPacket | DataAck DataAckPacket | Subscribe SubscribeRequest | ControlAck ControlAckPacket

fun as_request :: "sync_object \<Rightarrow> DataRequestPacket option" where
  "as_request (DataRequest pk) = Some pk" | "as_request _ = None"
fun as_ack :: "sync_object \<Rightarrow> DataAckPacket option" where
  "as_ack (DataAck pk) = Some pk" | "as_ack _ = None"
fun as_subscribe :: "sync_object \<Rightarrow> SubscribeRequest option" where
  "as_subscribe (Subscribe pk) = Some pk" | "as_subscribe _ = None"
fun as_control_ack :: "sync_object \<Rightarrow> ControlAckPacket option" where
  "as_control_ack (ControlAck pk) = Some pk" | "as_control_ack _ = None"

definition GetObject :: "(sync_object \<Rightarrow> 'p option) \<Rightarrow> sync_object Message \<Rightarrow> 'p res" where
  "GetObject as m =
     (case m_holder m of
        None \<Rightarrow> Inl E_INVALID_ARGS
      | Some ob \<Rightarrow> (case as ob of None \<Rightarrow> Inl ABORTED | Some pk \<Rightarrow> Inr pk))"

definition DATA_SYNC_MESSAGE :: u32 where "DATA_SYNC_MESSAGE = 2"
definition QUERY_SYNC_MESSAGE :: u32 where "QUERY_SYNC_MESSAGE = 8"
definition CONTROL_SYNC_MESSAGE :: u32 where "CONTROL_SYNC_MESSAGE = 9"
definition SUBSCRIBE_QUERY_CMD :: u32 where "SUBSCRIBE_QUERY_CMD = 0"
definition UNSUBSCRIBE_QUERY_CMD :: u32 where "UNSUBSCRIBE_QUERY_CMD = 1"
definition INVALID_CONTROL_CMD :: u32 where "INVALID_CONTROL_CMD = 2"

section \<open>Lengths\<close>

text \<open>The sums are of type \<^verbatim>\<open>uint64_t\<close>; \<open>GetEightByteAlign\<close> cuts them to 32 bits.\<close>

definition CalculateLen_request :: "DataRequestPacket \<Rightarrow> u32 \<Rightarrow> nat" where
  "CalculateLen_request pk msgId =
     (let totalLen = CalculateLens (dr_version pk) (if IsCompressData pk then [] else dr_data pk) + GetUInt64Len + GetUInt64Len +
            GetUInt64Len + GetIntLen + GetIntLen + GetUInt32Len + GetUInt32Len + GetVectorLen (dr_reserved pk);
          totalLen = (if dr_version pk > SOFTWARE_VERSION_RELEASE_2_0 then totalLen + GetUInt32Len else totalLen);
          totalLen = GetEightByteAlign totalLen
      in if totalLen > INT32_MAX then 0
         else let totalLen = (if msgId = QUERY_SYNC_MESSAGE
                    then totalLen + GetUInt64Len + GetStringLen (dr_queryId pk) + CalculateLen_query (dr_query pk) else totalLen);
                  totalLen = (if IsCompressData pk then totalLen + CalculateCompressedLens (dr_compressData pk) else totalLen)
              in if totalLen > INT32_MAX then 0 else totalLen)"

definition CalculateLen_ack :: "DataAckPacket \<Rightarrow> nat" where
  "CalculateLen_ack pk =
     (let len = GetEightByteAlign (GetUInt64Len + GetIntLen + GetUInt32Len + GetVectorLen (da_reserved pk))
      in if len > INT32_MAX then 0 else len)"

definition CalculateLen_control :: nat where
  "CalculateLen_control =
     (let len = GetEightByteAlign (GetUInt32Len + GetIntLen + GetUInt32Len + GetUInt32Len) in if len > INT32_MAX then 0 else len)"

definition CalculateLen_subscribe :: "SubscribeRequest \<Rightarrow> nat" where
  "CalculateLen_subscribe pk =
     (if CalculateLen_control = 0 then 0
      else let totalLen = CalculateLen_control + CalculateLen_query (cr_query pk) in if totalLen > INT32_MAX then 0 else totalLen)"

definition CalculateDataLen :: "sync_object Message \<Rightarrow> nat" where
  "CalculateDataLen m =
     (if m_messageType m = TYPE_REQUEST then
        (case GetObject as_request m of Inl _ \<Rightarrow> 0 | Inr pk \<Rightarrow> CalculateLen_request pk (m_messageId m))
      else if m_messageType m = TYPE_RESPONSE \<or> m_messageType m = TYPE_NOTIFY then
        (case GetObject as_ack m of Inl _ \<Rightarrow> 0 | Inr pk \<Rightarrow> CalculateLen_ack pk)
      else 0)"

definition is_subscription :: "u32 \<Rightarrow> bool" where
  "is_subscription cmd \<longleftrightarrow> cmd = SUBSCRIBE_QUERY_CMD \<or> cmd = UNSUBSCRIBE_QUERY_CMD"

definition CalculateControlLen :: "sync_object Message \<Rightarrow> nat" where
  "CalculateControlLen m =
     (if m_messageType m = TYPE_REQUEST then
        (case GetObject as_subscribe m of
           Inl _ \<Rightarrow> 0
         | Inr pk \<Rightarrow> if cr_controlCmdType pk \<ge> INVALID_CONTROL_CMD then 0
                    else if is_subscription (cr_controlCmdType pk) then CalculateLen_subscribe pk else 0)
      else if m_messageType m = TYPE_RESPONSE \<or> m_messageType m = TYPE_NOTIFY then
        (case GetObject as_control_ack m of Inl _ \<Rightarrow> 0 | Inr pk \<Rightarrow> CalculateLen_control)
      else 0)"

definition IsPacketValid :: "sync_object Message \<Rightarrow> bool" where
  "IsPacketValid m \<longleftrightarrow> m_messageType m \<in> {TYPE_REQUEST, TYPE_RESPONSE, TYPE_NOTIFY}"

definition CalculateLen :: "sync_object Message \<Rightarrow> u32" where
  "CalculateLen m =
     of_nat (if \<not> IsPacketValid m then 0
             else if m_messageId m = CONTROL_SYNC_MESSAGE then CalculateControlLen m else CalculateDataLen m)"

section \<open>Serialisation\<close>

subsection \<open>Data and acknowledgements\<close>

definition DataPacketSyncerPartSerialization :: "bool \<Rightarrow> DataRequestPacket \<Rightarrow> parcel \<Rightarrow> parcel \<times> errno" where
  "DataPacketSyncerPartSerialization be pk p =
     (let p = fst (WriteUInt64 be (dr_endWaterMark pk) p);
          p = fst (WriteUInt64 be (dr_localWaterMark pk) p);
          p = fst (WriteUInt64 be (dr_peerWaterMark pk) p);
          p = fst (WriteInt be (dr_sendCode pk) p);
          p = fst (WriteInt be (dr_mode pk) p);
          p = fst (WriteUInt32 be (dr_sessionId pk) p);
          p = fst (WriteVector be (dr_reserved pk) p)
      in if IsError p then (p, E_PARSE_FAIL)
         else if dr_version pk > SOFTWARE_VERSION_RELEASE_2_0 then
           let p = fst (WriteUInt32 be (dr_flag pk) p)
           in if IsError p then (p, E_PARSE_FAIL) else (EightByteAlign p, E_OK)
         else (EightByteAlign p, E_OK))"

definition query_sent :: "u32 \<Rightarrow> u32 \<Rightarrow> bool" where
  "query_sent version mode \<longleftrightarrow> version > SOFTWARE_VERSION_RELEASE_4_0 \<or> mode \<noteq> QUERY_PUSH"

definition DataPacketQuerySyncSerialization :: "bool \<Rightarrow> DataRequestPacket \<Rightarrow> parcel \<Rightarrow> parcel \<times> errno" where
  "DataPacketQuerySyncSerialization be pk p =
     on_ok (WriteUInt64 be (dr_deletedWatermark pk) p) (\<lambda>p.
     on_ok (WriteString be (dr_queryId pk) p) (\<lambda>p.
     if query_sent (dr_version pk) (dr_mode pk) then SerializeData_query be (dr_query pk) p else (p, E_OK)))"

definition DataPacketSerialization :: "bool \<Rightarrow> byte list \<Rightarrow> sync_object Message \<Rightarrow> errno \<times> byte list" where
  "DataPacketSerialization be buffer m =
     (case GetObject as_request m of
        Inl e \<Rightarrow> (e, buffer)
      | Inr pk \<Rightarrow>
          let (p, e) =
            on_ok (WriteUInt32 be (dr_version pk) (Parcel_init buffer (length buffer))) (\<lambda>p.
            on_ok (SerializeDatas be (dr_version pk) (if IsCompressData pk then [] else dr_data pk) p) (\<lambda>p.
            on_ok (DataPacketSyncerPartSerialization be pk p) (\<lambda>p.
            on_ok (if m_messageId m = QUERY_SYNC_MESSAGE then DataPacketQuerySyncSerialization be pk p else (p, E_OK)) (\<lambda>p.
            if IsCompressData pk
            then SerializeCompressedDatas be (dr_version pk) (dr_algo pk) (dr_data pk) (dr_compressData pk) p
            else (p, E_OK)))))
          in (e, p_buf p))"

definition AckPacketSyncerPartSerializationV1 :: "bool \<Rightarrow> DataAckPacket \<Rightarrow> parcel \<Rightarrow> parcel \<times> errno" where
  "AckPacketSyncerPartSerializationV1 be pk p =
     (let p = fst (WriteUInt64 be (da_data pk) p);
          p = fst (WriteInt be (da_recvCode pk) p);
          p = fst (WriteVector be (da_reserved pk) p)
      in if IsError p then (p, E_PARSE_FAIL) else (EightByteAlign p, E_OK))"

definition AckPacketSerialization :: "bool \<Rightarrow> byte list \<Rightarrow> sync_object Message \<Rightarrow> errno \<times> byte list" where
  "AckPacketSerialization be buffer m =
     (case GetObject as_ack m of
        Inl e \<Rightarrow> (e, buffer)
      | Inr pk \<Rightarrow>
          let p = fst (WriteUInt32 be (da_version pk) (Parcel_init buffer (length buffer)));
              (p, e) = (if IsError p then (p, E_PARSE_FAIL) else AckPacketSyncerPartSerializationV1 be pk p)
          in (e, p_buf p))"

subsection \<open>Commands\<close>

definition write_head :: "bool \<Rightarrow> u32 \<Rightarrow> u32 \<Rightarrow> u32 \<Rightarrow> u32 \<Rightarrow> parcel \<Rightarrow> parcel \<times> errno" where
  "write_head be version code cmd flag p =
     (let p = fst (WriteUInt32 be version p);
          p = fst (WriteInt be code p);
          p = fst (WriteUInt32 be cmd p);
          p = fst (WriteUInt32 be flag p)
      in if IsError p then (p, E_INVALID_ARGS) else (EightByteAlign p, E_OK))"

definition ControlRequestSerialization :: "bool \<Rightarrow> SubscribeRequest \<Rightarrow> parcel \<Rightarrow> parcel \<times> errno" where
  "ControlRequestSerialization be pk p = write_head be (cr_version pk) (cr_sendCode pk) (cr_controlCmdType pk) (cr_flag pk) p"

definition SubscribeSerialization :: "bool \<Rightarrow> byte list \<Rightarrow> SubscribeRequest \<Rightarrow> errno \<times> byte list" where
  "SubscribeSerialization be buffer pk =
     (let (p, e) = on_ok (ControlRequestSerialization be pk (Parcel_init buffer (length buffer))) (\<lambda>p. SerializeData_query be (cr_query pk) p)
      in (e, p_buf p))"

definition ControlPacketSerialization :: "bool \<Rightarrow> byte list \<Rightarrow> sync_object Message \<Rightarrow> errno \<times> byte list" where
  "ControlPacketSerialization be buffer m =
     (case GetObject as_subscribe m of
        Inl e \<Rightarrow> (e, buffer)
      | Inr pk \<Rightarrow> if cr_controlCmdType pk \<ge> INVALID_CONTROL_CMD then (E_INVALID_ARGS, buffer)
                 else if is_subscription (cr_controlCmdType pk) then SubscribeSerialization be buffer pk
                 else (E_OK, buffer))"

definition AckControlPacketSerialization :: "bool \<Rightarrow> byte list \<Rightarrow> sync_object Message \<Rightarrow> errno \<times> byte list" where
  "AckControlPacketSerialization be buffer m =
     (case GetObject as_control_ack m of
        Inl e \<Rightarrow> (e, buffer)
      | Inr pk \<Rightarrow>
          let (p, e) = write_head be (ca_version pk) (ca_recvCode pk) (ca_controlCmdType pk) (ca_flag pk) (Parcel_init buffer (length buffer))
          in (e, p_buf p))"

definition DataSerialization :: "bool \<Rightarrow> byte list \<Rightarrow> sync_object Message \<Rightarrow> errno \<times> byte list" where
  "DataSerialization be buffer m =
     (if m_messageType m = TYPE_REQUEST then DataPacketSerialization be buffer m
      else if m_messageType m = TYPE_RESPONSE \<or> m_messageType m = TYPE_NOTIFY then AckPacketSerialization be buffer m
      else (E_MESSAGE_TYPE_ERROR, buffer))"

definition ControlSerialization :: "bool \<Rightarrow> byte list \<Rightarrow> sync_object Message \<Rightarrow> errno \<times> byte list" where
  "ControlSerialization be buffer m =
     (if m_messageType m = TYPE_REQUEST then ControlPacketSerialization be buffer m
      else if m_messageType m = TYPE_RESPONSE then AckControlPacketSerialization be buffer m
      else (E_MESSAGE_TYPE_ERROR, buffer))"

definition Serialization :: "bool \<Rightarrow> byte list \<Rightarrow> sync_object Message \<Rightarrow> errno \<times> byte list" where
  "Serialization be buffer m =
     (if \<not> IsPacketValid m then (E_MESSAGE_ID_ERROR, buffer)
      else if m_messageId m = CONTROL_SYNC_MESSAGE then ControlSerialization be buffer m
      else DataSerialization be buffer m)"

section \<open>Deserialisation\<close>

text \<open>
  The creation of the packets and their holders is assumed to succeed. Locals that are read into carry no value yet; where
  a read fails they are not used. \<^verbatim>\<open>packLen\<close> is only logged.
\<close>

definition DataPacketSyncerPartDeSerialization :: "bool \<Rightarrow> u32 \<Rightarrow> DataRequestPacket \<Rightarrow> parcel \<Rightarrow> parcel \<times> DataRequestPacket res" where
  "DataPacketSyncerPartDeSerialization be version pk p =
     (case ReadUInt64 be 0 p of (p, waterMark, _) \<Rightarrow>
      case ReadUInt64 be 0 p of (p, localWaterMark, _) \<Rightarrow>
      case ReadUInt64 be 0 p of (p, peerWaterMark, _) \<Rightarrow>
      case ReadInt be 0 p of (p, sendCode, _) \<Rightarrow>
      case ReadInt be 0 p of (p, mode, _) \<Rightarrow>
      case ReadUInt32 be 0 p of (p, session, _) \<Rightarrow>
      case ReadVector be [] p of (p, rsv, _) \<Rightarrow>
      case (if version > SOFTWARE_VERSION_RELEASE_2_0 then ReadUInt32 be 0 p else (p, dr_flag pk, 0)) of (p, flag, _) \<Rightarrow>
        if IsError p then (p, Inl E_LENGTH_ERROR)
        else (EightByteAlign p, Inr (pk\<lparr>dr_flag := flag, dr_endWaterMark := waterMark, dr_localWaterMark := localWaterMark,
                dr_peerWaterMark := peerWaterMark, dr_sendCode := sendCode, dr_mode := mode, dr_sessionId := session,
                dr_reserved := rsv\<rparr>)))"

definition DataPacketQuerySyncDeSerialization :: "bool \<Rightarrow> DataRequestPacket \<Rightarrow> parcel \<Rightarrow> parcel \<times> DataRequestPacket res" where
  "DataPacketQuerySyncDeSerialization be pk p =
     (case ReadUInt64 be 0 p of (p, deletedWatermark, _) \<Rightarrow>
      case ReadString be [] p of (p, queryId, _) \<Rightarrow>
        if IsError p then (p, Inl E_PARSE_FAIL)
        else if query_sent (dr_version pk) (dr_mode pk) then
          (case DeSerializeData_query be p of
             (p, Inl e) \<Rightarrow> (p, Inl e)
           | (p, Inr querySyncObj) \<Rightarrow> (p, Inr (pk\<lparr>dr_deletedWatermark := deletedWatermark, dr_queryId := queryId, dr_query := querySyncObj\<rparr>)))
        else (p, Inr (pk\<lparr>dr_deletedWatermark := deletedWatermark, dr_queryId := queryId\<rparr>)))"

definition DataPacketCompressDataDeSerialization ::
    "zlib \<Rightarrow> bool \<Rightarrow> DataRequestPacket \<Rightarrow> parcel \<Rightarrow> parcel \<times> DataRequestPacket res" where
  "DataPacketCompressDataDeSerialization z be pk p =
     (case DeSerializeCompressedDatas z be p of
        (p, Inl e) \<Rightarrow> (p, Inl e)
      | (p, Inr originalData) \<Rightarrow> (p, Inr (pk\<lparr>dr_data := originalData\<rparr>)))"

definition and_then :: "parcel \<times> 'a res \<Rightarrow> ('a \<Rightarrow> parcel \<Rightarrow> parcel \<times> 'b res) \<Rightarrow> parcel \<times> 'b res" where
  "and_then r k = (case r of (p, Inl e) \<Rightarrow> (p, Inl e) | (p, Inr v) \<Rightarrow> k v p)"

definition DataPacketDeSerialization :: "zlib \<Rightarrow> bool \<Rightarrow> byte list \<Rightarrow> sync_object Message \<Rightarrow> errno \<times> sync_object Message" where
  "DataPacketDeSerialization z be buffer m =
     (case ReadUInt32 be 0 (Parcel_init buffer (length buffer)) of (p, version, _) \<Rightarrow>
        if IsError p then (E_PARSE_FAIL, m)
        else if version > SOFTWARE_VERSION_CURRENT then (E_VERSION_NOT_SUPPORT, m)
        else case DeSerializeDatas be p of (p, dataItems, _) \<Rightarrow>
          if IsError p then (E_PARSE_FAIL, m)
          else case
            and_then (DataPacketSyncerPartDeSerialization be version (DataRequestPacket_init\<lparr>dr_version := version, dr_data := dataItems\<rparr>) p)
              (\<lambda>pk p. and_then (if m_messageId m = QUERY_SYNC_MESSAGE then DataPacketQuerySyncDeSerialization be pk p else (p, Inr pk))
              (\<lambda>pk p. if IsCompressData pk then DataPacketCompressDataDeSerialization z be pk p else (p, Inr pk)))
          of (_, Inl e) \<Rightarrow> (e, m)
           | (_, Inr pk) \<Rightarrow> (E_OK, m\<lparr>m_holder := Some (DataRequest pk)\<rparr>))"

definition AckPacketSyncerPartDeSerializationV1 :: "bool \<Rightarrow> DataAckPacket \<Rightarrow> parcel \<Rightarrow> DataAckPacket res" where
  "AckPacketSyncerPartDeSerializationV1 be pk p =
     (case ReadUInt64 be 0 p of (p, mark, _) \<Rightarrow>
      case ReadInt be 0 p of (p, errCode, _) \<Rightarrow>
      case ReadVector be [] p of (p, rsv, _) \<Rightarrow>
        if IsError p then Inl E_INVALID_ARGS else Inr (pk\<lparr>da_data := mark, da_recvCode := errCode, da_reserved := rsv\<rparr>))"

definition minus_E_VERSION_NOT_SUPPORT :: u32 where "minus_E_VERSION_NOT_SUPPORT = - 1069"

definition AckPacketDeSerialization :: "bool \<Rightarrow> byte list \<Rightarrow> sync_object Message \<Rightarrow> errno \<times> sync_object Message" where
  "AckPacketDeSerialization be buffer m =
     (case ReadUInt32 be 0 (Parcel_init buffer (length buffer)) of (p, version, _) \<Rightarrow>
        if IsError p then (E_INVALID_ARGS, m)
        else if version > SOFTWARE_VERSION_CURRENT then
          (E_OK, m\<lparr>m_holder := Some (DataAck (DataAckPacket_init\<lparr>da_version := version, da_recvCode := minus_E_VERSION_NOT_SUPPORT\<rparr>))\<rparr>)
        else case AckPacketSyncerPartDeSerializationV1 be (DataAckPacket_init\<lparr>da_version := version\<rparr>) p of
               Inl e \<Rightarrow> (e, m)
             | Inr pk \<Rightarrow> (E_OK, m\<lparr>m_holder := Some (DataAck pk)\<rparr>))"

text \<open>A request of an unknown command is accepted without an object.\<close>

definition ControlRequestDeSerialization :: "bool \<Rightarrow> parcel \<Rightarrow> parcel \<times> SubscribeRequest res" where
  "ControlRequestDeSerialization be p =
     (case ReadUInt32 be 0 p of (p, version, _) \<Rightarrow>
        if version > SOFTWARE_VERSION_CURRENT then (p, Inl E_VERSION_NOT_SUPPORT)
        else case ReadInt be 0 p of (p, sendCode, _) \<Rightarrow>
             case ReadUInt32 be 0 p of (p, controlCmdType, _) \<Rightarrow>
             case ReadUInt32 be 0 p of (p, flag, _) \<Rightarrow>
               if IsError p then (p, Inl E_LENGTH_ERROR)
               else (p, Inr \<lparr>cr_version = version, cr_sendCode = sendCode, cr_controlCmdType = controlCmdType, cr_flag = flag,
                             cr_query = QuerySyncObject_init\<rparr>))"

definition SubscribeDeSerialization :: "bool \<Rightarrow> SubscribeRequest \<Rightarrow> parcel \<Rightarrow> sync_object Message \<Rightarrow> errno \<times> sync_object Message" where
  "SubscribeDeSerialization be controlPacket p m =
     (case DeSerializeData_query be p of
        (_, Inl e) \<Rightarrow> (e, m)
      | (_, Inr querySyncObj) \<Rightarrow> (E_OK, m\<lparr>m_holder := Some (Subscribe (controlPacket\<lparr>cr_query := querySyncObj\<rparr>))\<rparr>))"

definition ControlPacketDeSerialization :: "bool \<Rightarrow> byte list \<Rightarrow> sync_object Message \<Rightarrow> errno \<times> sync_object Message" where
  "ControlPacketDeSerialization be buffer m =
     (case ControlRequestDeSerialization be (Parcel_init buffer (length buffer)) of
        (_, Inl e) \<Rightarrow> (e, m)
      | (p, Inr pk) \<Rightarrow> if is_subscription (cr_controlCmdType pk) then SubscribeDeSerialization be pk p m else (E_OK, m))"

definition AckControlPacketDeSerialization :: "bool \<Rightarrow> byte list \<Rightarrow> sync_object Message \<Rightarrow> errno \<times> sync_object Message" where
  "AckControlPacketDeSerialization be buffer m =
     (case ReadUInt32 be 0 (Parcel_init buffer (length buffer)) of (p, version, _) \<Rightarrow>
      case ReadInt be 0 p of (p, recvCode, _) \<Rightarrow>
      case ReadUInt32 be 0 p of (p, controlCmdType, _) \<Rightarrow>
      case ReadUInt32 be 0 p of (p, flag, _) \<Rightarrow>
        if IsError p then (E_INVALID_ARGS, m)
        else (E_OK, m\<lparr>m_holder := Some (ControlAck \<lparr>ca_version = version, ca_recvCode = recvCode, ca_controlCmdType = controlCmdType,
                ca_flag = flag\<rparr>)\<rparr>))"

definition DataDeSerialization :: "zlib \<Rightarrow> bool \<Rightarrow> byte list \<Rightarrow> sync_object Message \<Rightarrow> errno \<times> sync_object Message" where
  "DataDeSerialization z be buffer m =
     (if m_messageType m = TYPE_REQUEST then DataPacketDeSerialization z be buffer m
      else if m_messageType m = TYPE_RESPONSE \<or> m_messageType m = TYPE_NOTIFY then AckPacketDeSerialization be buffer m
      else (E_MESSAGE_TYPE_ERROR, m))"

definition ControlDeSerialization :: "bool \<Rightarrow> byte list \<Rightarrow> sync_object Message \<Rightarrow> errno \<times> sync_object Message" where
  "ControlDeSerialization be buffer m =
     (if m_messageType m = TYPE_REQUEST then ControlPacketDeSerialization be buffer m
      else if m_messageType m = TYPE_RESPONSE then AckControlPacketDeSerialization be buffer m
      else (E_MESSAGE_TYPE_ERROR, m))"

definition DeSerialization :: "zlib \<Rightarrow> bool \<Rightarrow> byte list \<Rightarrow> sync_object Message \<Rightarrow> errno \<times> sync_object Message" where
  "DeSerialization z be buffer m =
     (if \<not> IsPacketValid m then (E_MESSAGE_ID_ERROR, m)
      else if m_messageId m = CONTROL_SYNC_MESSAGE then ControlDeSerialization be buffer m
      else DataDeSerialization z be buffer m)"

subsection \<open>Registration\<close>

definition sync_transform :: "zlib \<Rightarrow> bool \<Rightarrow> sync_object TransformFunc" where
  "sync_transform z be = \<lparr>computeFunc = Some CalculateLen, serializeFunc = Some (Serialization be), deserializeFunc = Some (DeSerialization z be)\<rparr>"

definition RegisterTransformFunc :: "zlib \<Rightarrow> bool \<Rightarrow> sync_object registry \<Rightarrow> sync_object registry \<times> errno" where
  "RegisterTransformFunc z be reg =
     (case RegTransformFunction reg QUERY_SYNC_MESSAGE (sync_transform z be) of (reg, e) \<Rightarrow>
        if e \<noteq> E_OK then (reg, e)
        else case RegTransformFunction reg DATA_SYNC_MESSAGE (sync_transform z be) of (reg, e) \<Rightarrow>
          if e \<noteq> E_OK then (reg, e) else RegTransformFunction reg CONTROL_SYNC_MESSAGE (sync_transform z be))"

section \<open>The fields of the packets\<close>

definition syncer_fields :: "DataRequestPacket \<Rightarrow> field list" where
  "syncer_fields pk = [FU64 (dr_endWaterMark pk), FU64 (dr_localWaterMark pk), FU64 (dr_peerWaterMark pk), FInt (dr_sendCode pk),
     FInt (dr_mode pk), FU32 (dr_sessionId pk), FVec64 (dr_reserved pk)] @
     (if dr_version pk > SOFTWARE_VERSION_RELEASE_2_0 then [FU32 (dr_flag pk)] else []) @ [FAlign]"

definition query_part_fields :: "DataRequestPacket \<Rightarrow> field list" where
  "query_part_fields pk = [FU64 (dr_deletedWatermark pk), FString (dr_queryId pk)] @
     (if query_sent (dr_version pk) (dr_mode pk) then qso_fields (dr_query pk) else [])"

definition compressed_fields :: "DataRequestPacket \<Rightarrow> field list" where
  "compressed_fields pk = [FU32 (algo_code (dr_algo pk)), FU32 (of_nat (CalculateLens (dr_version pk) (dr_data pk))), FVec8 (dr_compressData pk)]"

definition request_fields :: "bool \<Rightarrow> DataRequestPacket \<Rightarrow> DataItem list \<Rightarrow> field list" where
  "request_fields q pk its = FU32 (dr_version pk) # datas_fields (dr_version pk) (if IsCompressData pk then [] else its) @
     syncer_fields pk @ (if q then query_part_fields pk else []) @ (if IsCompressData pk then compressed_fields pk else [])"

lemma on_ok_OK [simp]: "on_ok (p, E_OK) k = k p"
  by (simp add: on_ok_def)

lemma SyncerPart_written:
  assumes "writes be (syncer_fields pk) p"
  shows "DataPacketSyncerPartSerialization be pk p = (write_fields be (syncer_fields pk) p, E_OK)"
proof -
  let ?f = "[FU64 (dr_endWaterMark pk), FU64 (dr_localWaterMark pk), FU64 (dr_peerWaterMark pk), FInt (dr_sendCode pk),
     FInt (dr_mode pk), FU32 (dr_sessionId pk), FVec64 (dr_reserved pk)]"
  let ?g = "if dr_version pk > SOFTWARE_VERSION_RELEASE_2_0 then [FU32 (dr_flag pk)] else []"
  have w: "writes be (?f @ ?g @ [FAlign]) p" using assms by (simp add: syncer_fields_def)
  have "writes be (?g @ [FAlign]) (write_fields be ?f p)" using w unfolding writes_append[of be ?f] by simp
  then have 1: "\<not> IsError (write_fields be ?f p)" using writes_ok by blast
  have "writes be [FAlign] (write_fields be (?f @ ?g) p)" using w unfolding append_assoc[symmetric] writes_append[of be "?f @ ?g"] by simp
  then have 2: "\<not> IsError (write_fields be (?f @ ?g) p)" using writes_ok by blast
  show ?thesis using 1 2
    by (cases "dr_version pk > SOFTWARE_VERSION_RELEASE_2_0") (simp_all add: DataPacketSyncerPartSerialization_def syncer_fields_def Let_def)
qed

lemma QueryPart_written:
  assumes "writes be (query_part_fields pk) p" "query_ok (dr_query pk)" "8 dvd p_parcelLen p"
  shows "DataPacketQuerySyncSerialization be pk p = (write_fields be (query_part_fields pk) p, E_OK)"
proof -
  let ?r = "if query_sent (dr_version pk) (dr_mode pk) then qso_fields (dr_query pk) else []"
  have w: "writes be (FU64 (dr_deletedWatermark pk) # FString (dr_queryId pk) # ?r) p" using assms(1) by (simp add: query_part_fields_def)
  note w1 = on_ok_step[OF w]
  note w2 = on_ok_step[OF conjunct2[OF w1]]
  let ?p = "write_fields be [FU64 (dr_deletedWatermark pk), FString (dr_queryId pk)] p"
  have "writes be ([FU64 (dr_deletedWatermark pk), FString (dr_queryId pk)] @ ?r) p" using w by simp
  then have s: "writes be [FU64 (dr_deletedWatermark pk), FString (dr_queryId pk)] p" using writes_append by blast
  have "8 dvd p_parcelLen ?p" using writes_end[OF s] assms(3) by (simp add: string_step_def)
  moreover have "writes be ?r ?p" using w2 by simp
  ultimately have "query_sent (dr_version pk) (dr_mode pk) \<Longrightarrow> SerializeData_query be (dr_query pk) ?p = (write_fields be (qso_fields (dr_query pk)) ?p, E_OK)"
    using SerializeData_query_ok[OF assms(2)] by simp
  then show ?thesis using w1 w2 by (simp add: DataPacketQuerySyncSerialization_def query_part_fields_def)
qed

lemma Compressed_written:
  assumes "writes be (compressed_fields pk) p"
  shows "SerializeCompressedDatas be (dr_version pk) (dr_algo pk) (dr_data pk) (dr_compressData pk) p = (write_fields be (compressed_fields pk) p, E_OK)"
proof -
  have "\<not> IsError (write_fields be (compressed_fields pk) p)" using assms by (simp add: writes_def IsError_def)
  then show ?thesis by (simp add: SerializeCompressedDatas_def compressed_fields_def Let_def)
qed

lemma syncer_aligned: "8 dvd fields_end pos (syncer_fields pk)"
  by (simp add: syncer_fields_def)

definition is_query :: "sync_object Message \<Rightarrow> bool" where "is_query m \<longleftrightarrow> m_messageId m = QUERY_SYNC_MESSAGE"

lemma DataPacket_written:
  assumes "m_holder m = Some (DataRequest pk)" "dr_data pk = map Some its" "version_supported (dr_version pk)" "is_query m \<longrightarrow> query_ok (dr_query pk)"
    and w: "writes be (request_fields (is_query m) pk its) (Parcel_init buf (length buf))"
  shows "DataPacketSerialization be buf m = (E_OK, p_buf (write_fields be (request_fields (is_query m) pk its) (Parcel_init buf (length buf))))"
proof -
  define its' where "its' = (if IsCompressData pk then [] else its)"
  define q where "q = (if is_query m then query_part_fields pk else [])"
  define c where "c = (if IsCompressData pk then compressed_fields pk else [])"
  let ?v = "dr_version pk"
  have f: "request_fields (is_query m) pk its = FU32 ?v # datas_fields ?v its' @ syncer_fields pk @ q @ c"
    by (simp add: request_fields_def its'_def q_def c_def)
  note w1 = on_ok_step[OF w[unfolded f]]
  define p1 where "p1 = fst (WriteUInt32 be ?v (Parcel_init buf (length buf)))"
  define p2 where "p2 = write_fields be (datas_fields ?v its') p1"
  define p3 where "p3 = write_fields be (syncer_fields pk) p2"
  define p4 where "p4 = write_fields be q p3"
  have s: "writes be (datas_fields ?v its') p1" "writes be (syncer_fields pk) p2" "writes be q p3" "writes be c p4"
    using conjunct2[OF w1] by (simp_all add: writes_append p1_def p2_def p3_def p4_def)
  have "map Some its' = (if IsCompressData pk then [] else dr_data pk)" using assms(2) by (simp add: its'_def)
  then have 2: "SerializeDatas be ?v (if IsCompressData pk then [] else dr_data pk) p1 = (p2, E_OK)"
    using SerializeDatas_ok[OF assms(3) s(1)] by (simp add: p2_def)
  have 3: "DataPacketSyncerPartSerialization be pk p2 = (p3, E_OK)" using SyncerPart_written[OF s(2)] by (simp add: p3_def)
  have "8 dvd p_parcelLen p3" using writes_end[OF s(2)] syncer_aligned by (simp add: p3_def)
  then have 4: "(if m_messageId m = QUERY_SYNC_MESSAGE then DataPacketQuerySyncSerialization be pk p3 else (p3, E_OK)) = (p4, E_OK)"
    using QueryPart_written[of be pk p3] s(3) assms(4) by (cases "m_messageId m = QUERY_SYNC_MESSAGE") (simp_all add: p4_def q_def is_query_def)
  have 5: "(if IsCompressData pk then SerializeCompressedDatas be ?v (dr_algo pk) (dr_data pk) (dr_compressData pk) p4 else (p4, E_OK)) =
      (write_fields be c p4, E_OK)" using Compressed_written[of be pk p4] s(4) by (cases "IsCompressData pk") (simp_all add: c_def)
  have "write_fields be (request_fields (is_query m) pk its) (Parcel_init buf (length buf)) = write_fields be c p4"
    by (simp add: f write_fields_append p1_def p2_def p3_def p4_def)
  moreover have "on_ok (WriteUInt32 be ?v (Parcel_init buf (length buf))) k = k p1" for k using w1 by (simp add: p1_def)
  ultimately show ?thesis using assms(1) 2 3 4 5
    by (cases "IsCompressData pk"; cases "m_messageId m = QUERY_SYNC_MESSAGE") (simp_all add: DataPacketSerialization_def GetObject_def)
qed

section \<open>Reading the packets\<close>

definition syncer_seen :: "DataRequestPacket \<Rightarrow> DataRequestPacket \<Rightarrow> DataRequestPacket" where
  "syncer_seen pk pk0 = pk0\<lparr>dr_flag := (if dr_version pk > SOFTWARE_VERSION_RELEASE_2_0 then dr_flag pk else dr_flag pk0),
     dr_endWaterMark := dr_endWaterMark pk, dr_localWaterMark := dr_localWaterMark pk, dr_peerWaterMark := dr_peerWaterMark pk,
     dr_sendCode := dr_sendCode pk, dr_mode := dr_mode pk, dr_sessionId := dr_sessionId pk, dr_reserved := dr_reserved pk\<rparr>"

lemma SyncerPart_read:
  assumes "holds (syncer_fields pk) q"
  shows "DataPacketSyncerPartDeSerialization be (dr_version pk) pk0 q = (past (syncer_fields pk) q, Inr (syncer_seen pk pk0))"
proof -
  let ?g = "if dr_version pk > SOFTWARE_VERSION_RELEASE_2_0 then [FU32 (dr_flag pk)] else []"
  have h: "holds (FU64 (dr_endWaterMark pk) # FU64 (dr_localWaterMark pk) # FU64 (dr_peerWaterMark pk) # FInt (dr_sendCode pk) #
     FInt (dr_mode pk) # FU32 (dr_sessionId pk) # FVec64 (dr_reserved pk) # ?g @ [FAlign]) q" using assms by (simp only: syncer_fields_def append.simps)
  note h1 = holds_read(5)[OF h, of be 0]
  note h2 = holds_read(5)[OF conjunct2[OF h1], of be 0]
  note h3 = holds_read(5)[OF conjunct2[OF h2], of be 0]
  note h4 = holds_read(2)[OF conjunct2[OF h3], of be 0]
  note h5 = holds_read(2)[OF conjunct2[OF h4], of be 0]
  note h6 = holds_read(3)[OF conjunct2[OF h5], of be 0]
  note h7 = holds_read(8)[OF conjunct2[OF h6], of be "[]"]
  note r = conjunct1[OF h1] conjunct1[OF h2] conjunct1[OF h3] conjunct1[OF h4] conjunct1[OF h5] conjunct1[OF h6] conjunct1[OF h7]
  define q7 where "q7 = shift (vector_step (dr_reserved pk)) (shift 4 (shift 4 (shift 4 (shift 8 (shift 8 (shift 8 q))))))"
  have p: "past (syncer_fields pk) q = past (?g @ [FAlign]) q7" unfolding syncer_fields_def q7_def by (simp add: past_Cons field_size_def)
  have h8: "holds (?g @ [FAlign]) q7" using h7 by (simp add: q7_def)
  show ?thesis
  proof (cases "dr_version pk > SOFTWARE_VERSION_RELEASE_2_0")
    case True
    have "holds (FU32 (dr_flag pk) # [FAlign]) q7" using h8 True by simp
    note h9 = holds_read(3)[OF this, of be 0]
    note e = holds_ok[OF conjunct2[OF h9]] and a = holds_align[OF conjunct2[OF h9]]
    have "past (syncer_fields pk) q = EightByteAlign (shift 4 q7)" using True a p by (simp add: past_Cons[of "FU32 (dr_flag pk)"] field_size_def)
    moreover have "DataPacketSyncerPartDeSerialization be (dr_version pk) pk0 q = (EightByteAlign (shift 4 q7), Inr (syncer_seen pk pk0))"
      using True conjunct1[OF h9] e
      by (simp only: DataPacketSyncerPartDeSerialization_def r q7_def[symmetric] prod.case if_True simp_thms if_False syncer_seen_def)
    ultimately show ?thesis by simp
  next
    case False
    then have h9: "holds [FAlign] q7" using h8 by simp
    note e = holds_ok[OF h9] and a = holds_align[OF h9]
    have "past (syncer_fields pk) q = EightByteAlign q7" using False a p by simp
    moreover have "DataPacketSyncerPartDeSerialization be (dr_version pk) pk0 q = (EightByteAlign q7, Inr (syncer_seen pk pk0))"
      using False e by (simp only: DataPacketSyncerPartDeSerialization_def r q7_def[symmetric] prod.case if_False simp_thms syncer_seen_def)
    ultimately show ?thesis by simp
  qed
qed

definition query_part_seen :: "DataRequestPacket \<Rightarrow> DataRequestPacket \<Rightarrow> DataRequestPacket" where
  "query_part_seen pk pk0 = pk0\<lparr>dr_deletedWatermark := dr_deletedWatermark pk, dr_queryId := dr_queryId pk,
     dr_query := (if query_sent (dr_version pk) (dr_mode pk) then query_seen (dr_query pk) else dr_query pk0)\<rparr>"

lemma QueryPart_read:
  assumes "holds (query_part_fields pk) q" "query_ok (dr_query pk)" "dr_version pk0 = dr_version pk" "dr_mode pk0 = dr_mode pk"
  shows "DataPacketQuerySyncDeSerialization be pk0 q = (past (query_part_fields pk) q, Inr (query_part_seen pk pk0))"
proof -
  let ?g = "if query_sent (dr_version pk) (dr_mode pk) then qso_fields (dr_query pk) else []"
  have h: "holds (FU64 (dr_deletedWatermark pk) # FString (dr_queryId pk) # ?g) q" using assms(1) by (simp only: query_part_fields_def append.simps)
  note h1 = holds_read(5)[OF h, of be 0]
  note h2 = holds_read(6)[OF conjunct2[OF h1], of be "[]"]
  define q2 where "q2 = shift (8 + string_step (dr_queryId pk)) q"
  have g: "holds ?g q2" using h2 by (simp add: q2_def)
  have p: "past (query_part_fields pk) q = past ?g q2" unfolding query_part_fields_def q2_def by (simp add: past_Cons field_size_def)
  show ?thesis
    using h1 h2 holds_ok[OF g] DeSerializeData_query_ok[OF assms(2), of q2 be] g p assms(3,4)
    by (cases "query_sent (dr_version pk) (dr_mode pk)")
      (simp_all add: DataPacketQuerySyncDeSerialization_def query_part_seen_def q2_def[symmetric] past_def[of "[]"] del: holds.simps)
qed

lemma Compressed_read:
  assumes "holds (compressed_fields pk) q" "dr_algo pk = ZLIB" "CalculateLens (dr_version pk) (dr_data pk) < 4294967296"
    and "Uncompress z be (dr_compressData pk) (CalculateLens (dr_version pk) (dr_data pk)) ZLIB = Inr items"
  shows "DeSerializeCompressedDatas z be q = (past (compressed_fields pk) q, Inr items)"
proof -
  let ?n = "CalculateLens (dr_version pk) (dr_data pk)"
  have h: "holds (FU32 (algo_code ZLIB) # FU32 (of_nat ?n) # FVec8 (dr_compressData pk) # []) q" using assms(1,2) by (simp only: compressed_fields_def)
  note h1 = holds_read(3)[OF h, of be 0]
  note h2 = holds_read(3)[OF conjunct2[OF h1], of be 0]
  note h3 = holds_read(7)[OF conjunct2[OF h2], of be "[]"]
  have "unat (of_nat ?n :: u32) = ?n" using assms(3) by (simp add: unat_of_nat_eq)
  then show ?thesis using h1 h2 h3 holds_ok[OF conjunct2[OF h3]] assms(2,4)
    by (simp add: DeSerializeCompressedDatas_def TransferCompressionAlgo_def compressed_fields_def past_Cons field_size_def past_def del: holds.simps)
qed

definition packet_seen :: "bool \<Rightarrow> DataRequestPacket \<Rightarrow> DataItem list \<Rightarrow> DataRequestPacket" where
  "packet_seen q pk its =
     (let pk1 = syncer_seen pk (DataRequestPacket_init\<lparr>dr_version := dr_version pk, dr_data := map (Some \<circ> item_seen (dr_version pk)) its\<rparr>)
      in if q then query_part_seen pk pk1 else pk1)"

text \<open>A packet the syncer builds: compressed entries are the result of \<open>Compress\<close>, which needs a version whose packets have flags.\<close>

definition packet_ok :: "zlib \<Rightarrow> bool \<Rightarrow> bool \<Rightarrow> DataRequestPacket \<Rightarrow> DataItem list \<Rightarrow> bool" where
  "packet_ok z be q pk its \<longleftrightarrow> version_supported (dr_version pk) \<and> dr_data pk = map Some its \<and> length its < 4294967296 \<and>
     (q \<longrightarrow> query_ok (dr_query pk)) \<and>
     (IsCompressData pk \<longrightarrow> dr_version pk > SOFTWARE_VERSION_RELEASE_2_0 \<and> dr_algo pk = ZLIB \<and> compressible z (dr_version pk) its \<and>
        Compress z be ZLIB (dr_version pk) (dr_data pk) = Inr (dr_compressData pk))"

lemma packet_compressed:
  assumes "packet_ok z be q pk its" "zlib_sound z" "IsCompressData pk"
  shows "Uncompress z be' (dr_compressData pk) (CalculateLens (dr_version pk) (dr_data pk)) ZLIB = Inr (map (Some \<circ> item_seen (dr_version pk)) its) \<and>
    dr_compressData pk \<noteq> [] \<and> length (dr_compressData pk) \<le> MAX_SYNC_BLOCK_SIZE \<and> CalculateLens (dr_version pk) (dr_data pk) < 4294967296"
proof -
  have p: "version_supported (dr_version pk)" "dr_data pk = map Some its" "compressible z (dr_version pk) its"
    "Compress z be ZLIB (dr_version pk) (dr_data pk) = Inr (dr_compressData pk)" using assms(1,3) unfolding packet_ok_def by blast+
  then have "fields_end 0 (datas_fields (dr_version pk) its) \<le> INT32_MAX" by (simp add: compressible_def MAX_SYNC_BLOCK_SIZE_def INT32_MAX_def)
  then have "CalculateLens (dr_version pk) (dr_data pk) < 4294967296"
    using CalculateLens_ok[OF p(1), of its] p(2) by (simp add: INT32_MAX_def)
  then show ?thesis using Uncompress_Compress[OF p(1) assms(2) p(3), of be be'] p(2,4) by auto
qed

lemma seen_simps [simp]:
  "dr_version (syncer_seen pk pk0) = dr_version pk0" "dr_mode (syncer_seen pk pk0) = dr_mode pk"
  "dr_data (syncer_seen pk pk0) = dr_data pk0" "dr_flag (query_part_seen pk pk0) = dr_flag pk0"
  by (simp_all add: syncer_seen_def query_part_seen_def)

lemma seen_data: "(packet_seen q pk its)\<lparr>dr_data := map (Some \<circ> item_seen (dr_version pk)) its'\<rparr> = packet_seen q pk its'"
  by (simp add: packet_seen_def syncer_seen_def query_part_seen_def Let_def)

lemma seen_compressed: "packet_ok z be q pk its \<Longrightarrow> IsCompressData (packet_seen q' pk its') \<longleftrightarrow> IsCompressData pk"
  by (cases "dr_version pk > SOFTWARE_VERSION_RELEASE_2_0")
    (auto simp: packet_ok_def IsCompressData_def packet_seen_def syncer_seen_def query_part_seen_def DataRequestPacket_init_def Let_def IS_COMPRESS_DATA_def)

lemma DataPacket_read:
  assumes ok: "packet_ok z be q pk its" and "zlib_sound z" and "q \<longleftrightarrow> is_query m"
    and h: "holds (request_fields q pk its) (Parcel_init buf (length buf))"
    and len: "8 + fields_end 4 (datas_fields (dr_version pk) (if IsCompressData pk then [] else its)) \<le> INT32_MAX"
  shows "DataPacketDeSerialization z be' buf m = (E_OK, m\<lparr>m_holder := Some (DataRequest (packet_seen q pk its))\<rparr>)"
proof -
  define its' where "its' = (if IsCompressData pk then [] else its)"
  define fq where "fq = (if q then query_part_fields pk else [])"
  define fc where "fc = (if IsCompressData pk then compressed_fields pk else [])"
  define p0 where "p0 = Parcel_init buf (length buf)"
  define pk1 where "pk1 = syncer_seen pk (DataRequestPacket_init\<lparr>dr_version := dr_version pk, dr_data := map (Some \<circ> item_seen (dr_version pk)) its'\<rparr>)"
  let ?v = "dr_version pk"
  have ok': "version_supported ?v" "length its' < 4294967296" "q \<longrightarrow> query_ok (dr_query pk)" using ok by (simp_all add: packet_ok_def its'_def)
  have v: "\<not> ?v > SOFTWARE_VERSION_CURRENT" using ok'(1) by (simp add: version_supported_def)
  have "holds (FU32 ?v # datas_fields ?v its' @ syncer_fields pk @ fq @ fc) p0" using h by (simp add: request_fields_def its'_def fq_def fc_def p0_def)
  note h1 = holds_read(3)[OF this, of be' 0]
  define p1 where "p1 = shift 4 p0"
  define p2 where "p2 = past (datas_fields ?v its') p1"
  define p3 where "p3 = past (syncer_fields pk) p2"
  define p4 where "p4 = past fq p3"
  have s: "holds (datas_fields ?v its') p1" "holds (syncer_fields pk) p2" "holds fq p3" "holds fc p4"
    using conjunct2[OF h1] by (simp_all add: holds_append p1_def p2_def p3_def p4_def)
  have e: "\<not> IsError p1" "\<not> IsError p2" using holds_ok[OF s(1)] holds_ok[OF s(2)] by simp_all
  have l4: "p_parcelLen p1 = 4" by (simp add: p1_def p0_def Parcel_init_def)
  have "8 + (fields_end (p_parcelLen p1) (datas_fields ?v its') - p_parcelLen p1) \<le> INT32_MAX" using len unfolding its'_def l4 by linarith
  then obtain l where d: "DeSerializeDatas be' p1 = (p2, map (Some \<circ> item_seen ?v) its', l)"
    using DeSerializeDatas_ok[OF ok'(1) s(1) ok'(2), of be'] p2_def by blast
  have 3: "DataPacketSyncerPartDeSerialization be' ?v (DataRequestPacket_init\<lparr>dr_version := ?v, dr_data := map (Some \<circ> item_seen ?v) its'\<rparr>) p2 = (p3, Inr pk1)"
    using SyncerPart_read[OF s(2)] by (simp add: p3_def pk1_def)
  have 4: "(if m_messageId m = QUERY_SYNC_MESSAGE then DataPacketQuerySyncDeSerialization be' pk1 p3 else (p3, Inr pk1)) = (p4, Inr (packet_seen q pk its'))"
    using QueryPart_read[of pk p3 pk1 be'] s(3) ok'(3) assms(3)
    by (cases q) (simp_all add: fq_def p4_def pk1_def packet_seen_def is_query_def Let_def past_def[of "[]"])
  have 5: "\<exists>p5. (if IsCompressData (packet_seen q pk its') then DataPacketCompressDataDeSerialization z be' (packet_seen q pk its') p4 else (p4, Inr (packet_seen q pk its'))) =
      (p5, Inr (packet_seen q pk its))"
  proof (cases "IsCompressData pk")
    case True
    note c = packet_compressed[OF ok assms(2) True, of be']
    have "holds (compressed_fields pk) p4" "dr_algo pk = ZLIB" using True s(4) ok by (simp_all add: fc_def packet_ok_def)
    then have "DeSerializeCompressedDatas z be' p4 = (past (compressed_fields pk) p4, Inr (map (Some \<circ> item_seen ?v) its))"
      using Compressed_read c by blast
    then show ?thesis using seen_data[where q = q and pk = pk and its = its' and its' = its] by (simp add: seen_compressed[OF ok] True DataPacketCompressDataDeSerialization_def)
  qed (simp add: seen_compressed[OF ok] its'_def)
  show ?thesis using h1 v d e 3 4 5
    by (auto simp: DataPacketDeSerialization_def and_then_def p0_def[symmetric] p1_def[symmetric])
qed

section \<open>The computed length is enough\<close>

definition request_len :: "bool \<Rightarrow> DataRequestPacket \<Rightarrow> DataItem list \<Rightarrow> nat" where
  "request_len q pk its =
     BYTE_8_ALIGN (fields_end 0 (datas_fields (dr_version pk) (if IsCompressData pk then [] else its)) + 40 + vector_step (dr_reserved pk) +
       (if dr_version pk > SOFTWARE_VERSION_RELEASE_2_0 then 4 else 0)) +
     (if q then 8 + string_step (dr_queryId pk) + fields_end 0 (full_fields (dr_query pk)) else 0) +
     (if IsCompressData pk then 8 + vector_step (dr_compressData pk) else 0)"

lemma vector64_len: "vector_step (w :: u64 list) \<le> INT32_MAX \<Longrightarrow> GetVectorLen w = vector_step w \<and> vector_legal w"
  using BYTE_8_ALIGN_ge[of "4 + length w * 8"]
  by (auto simp: GetVectorLen_def vector_step_def vector_legal_def INT32_MAX_def Let_def add.commute[of 4])

lemma datas_end: "fields_end 4 (datas_fields v its) = fields_end 0 (datas_fields v its)"
  by (simp add: datas_fields_def BYTE_8_ALIGN_def)

lemma query_end: "8 dvd pos \<Longrightarrow> fields_end pos (query_part_fields pk) \<le> pos + 8 + string_step (dr_queryId pk) + fields_end 0 (full_fields (dr_query pk))"
proof -
  assume "8 dvd pos"
  then have "8 dvd pos + 8 + string_step (dr_queryId pk)" by (simp add: string_step_def)
  from fields_end_shift[OF this, of 0 "qso_fields (dr_query pk)"] show ?thesis
    using qso_in_full(1)[of 0 "dr_query pk"] by (simp add: query_part_fields_def)
qed

lemma request_fits:
  "fields_end 0 (request_fields q pk its) \<le> request_len q pk its"
proof -
  define d where "d = fields_end 0 (datas_fields (dr_version pk) (if IsCompressData pk then [] else its))"
  define a where "a = fields_end d (syncer_fields pk)"
  define b where "b = fields_end a (if q then query_part_fields pk else [])"
  have "a \<le> BYTE_8_ALIGN (d + 40 + vector_step (dr_reserved pk) + (if dr_version pk > SOFTWARE_VERSION_RELEASE_2_0 then 4 else 0))"
    by (simp add: a_def syncer_fields_def BYTE_8_ALIGN_mono)
  moreover have "8 dvd a" by (simp add: a_def syncer_aligned)
  then have "b \<le> a + (if q then 8 + string_step (dr_queryId pk) + fields_end 0 (full_fields (dr_query pk)) else 0)"
    using query_end[of a pk] by (simp add: b_def)
  moreover have "fields_end 0 (request_fields q pk its) = fields_end b (if IsCompressData pk then compressed_fields pk else [])"
    by (simp add: request_fields_def b_def a_def d_def datas_end)
  then have "fields_end 0 (request_fields q pk its) = b + (if IsCompressData pk then 8 + vector_step (dr_compressData pk) else 0)"
    by (simp add: compressed_fields_def)
  ultimately show ?thesis unfolding request_len_def d_def[symmetric] by linarith
qed

lemma query_legal:
  assumes "query_ok (dr_query pk)" "string_step (dr_queryId pk) \<le> INT32_MAX" "fields_end 0 (full_fields (dr_query pk)) \<le> INT32_MAX"
  shows "GetStringLen (dr_queryId pk) = string_step (dr_queryId pk)" "CalculateLen_query (dr_query pk) = fields_end 0 (full_fields (dr_query pk))"
    "list_all field_legal (query_part_fields pk)"
  using assms item_lens(1)[OF assms(2)] CalculateLen_query_ok[of "dr_query pk"] qso_in_full(2)[of "dr_query pk"]
  by (simp_all add: query_ok_def query_part_fields_def)

lemma compressed_legal:
  assumes "vector_step (dr_compressData pk) + 8 \<le> INT32_MAX" "dr_compressData pk \<noteq> []"
  shows "CalculateCompressedLens (dr_compressData pk) = 8 + vector_step (dr_compressData pk)" "list_all field_legal (compressed_fields pk)"
  using assms item_lens(2)[of "dr_compressData pk"]
  by (simp_all add: CalculateCompressedLens_def compressed_fields_def GetUInt32Len_def GetVectorCharLen_def Let_def)

lemma CalculateLen_request_ok:
  assumes ok: "packet_ok z be q pk its" and z: "zlib_sound z" and len: "request_len q pk its \<le> INT32_MAX" and q: "q \<longleftrightarrow> mid = QUERY_SYNC_MESSAGE"
  shows "CalculateLen_request pk mid = request_len q pk its \<and> list_all field_legal (request_fields q pk its) \<and>
    40 + fields_end 0 (datas_fields (dr_version pk) (if IsCompressData pk then [] else its)) \<le> request_len q pk its"
proof -
  define its' where "its' = (if IsCompressData pk then [] else its)"
  define d where "d = fields_end 0 (datas_fields (dr_version pk) its')"
  define n where "n = d + 40 + vector_step (dr_reserved pk) + (if dr_version pk > SOFTWARE_VERSION_RELEASE_2_0 then 4 else 0)"
  have L: "request_len q pk its = BYTE_8_ALIGN n + (if q then 8 + string_step (dr_queryId pk) + fields_end 0 (full_fields (dr_query pk)) else 0) +
     (if IsCompressData pk then 8 + vector_step (dr_compressData pk) else 0)"
    by (simp add: request_len_def n_def d_def its'_def)
  have a: "BYTE_8_ALIGN n \<le> INT32_MAX" "n \<le> BYTE_8_ALIGN n" using len L BYTE_8_ALIGN_ge[of n] by linarith+
  have "d \<le> INT32_MAX" "vector_step (dr_reserved pk) \<le> INT32_MAX" using a by (simp_all add: n_def)
  note dl = CalculateLens_ok[OF _ this(1)[unfolded d_def]] and rl = vector64_len[OF this(2)]
  have v: "version_supported (dr_version pk)" "map Some its' = (if IsCompressData pk then [] else dr_data pk)" using ok by (simp_all add: packet_ok_def its'_def)
  have ql: "GetStringLen (dr_queryId pk) = string_step (dr_queryId pk) \<and> CalculateLen_query (dr_query pk) = fields_end 0 (full_fields (dr_query pk)) \<and>
    list_all field_legal (query_part_fields pk)" if q
    using query_legal[of pk] ok len L that by (simp add: packet_ok_def)
  have cl: "CalculateCompressedLens (dr_compressData pk) = 8 + vector_step (dr_compressData pk) \<and> list_all field_legal (compressed_fields pk)" if "IsCompressData pk"
    using compressed_legal[of pk] packet_compressed[OF ok z that] len L that by simp
  have s: "GetEightByteAlign n = BYTE_8_ALIGN n" using aligned_len[OF a(1)] .
  have c: "CalculateLens (dr_version pk) (if IsCompressData pk then [] else dr_data pk) = d" using dl[OF v(1)] v(2) by (simp add: d_def)
  have n: "(if dr_version pk > SOFTWARE_VERSION_RELEASE_2_0 then d + 8 + 8 + 8 + 4 + 4 + 4 + 4 + vector_step (dr_reserved pk) + 4
      else d + 8 + 8 + 8 + 4 + 4 + 4 + 4 + vector_step (dr_reserved pk)) = n" by (simp add: n_def)
  have "CalculateLen_request pk mid = request_len q pk its"
    using ql cl len[unfolded L] a(1) q
    unfolding L CalculateLen_request_def Let_def c conjunct1[OF rl] GetUInt64Len_def GetIntLen_def GetUInt32Len_def n s
    by (cases "mid = QUERY_SYNC_MESSAGE"; cases "IsCompressData pk") simp_all
  moreover have "list_all field_legal (request_fields q pk its)"
    using dl[OF v(1)] rl ql cl unfolding request_fields_def its'_def[symmetric]
    by (cases q; cases "IsCompressData pk") (simp_all add: syncer_fields_def)
  moreover have "40 + d \<le> request_len q pk its" using a(2) unfolding L by (simp add: n_def)
  ultimately show ?thesis by (simp add: d_def its'_def)
qed

text \<open>A packet whose writer and reader agree on its fields is transformed soundly if the fields fit into the computed length.\<close>

lemma transforms_by_fields:
  assumes "CalculateLen m = of_nat L" "0 < L" "L < 4294967296" "list_all field_legal fs" "fields_end 0 fs \<le> L"
    and wr: "\<And>buf. writes be fs (Parcel_init buf (length buf)) \<Longrightarrow>
      Serialization be buf m = (E_OK, p_buf (write_fields be fs (Parcel_init buf (length buf))))"
    and rd: "\<And>buf. holds fs (Parcel_init buf (length buf)) \<Longrightarrow>
      DeSerialization z be' buf (header_only m) = (E_OK, (header_only m)\<lparr>m_holder := h\<rparr>)"
  shows "transforms_to (sync_transform z be) (sync_transform z be') m h \<and> data_length (sync_transform z be) m = L"
proof -
  have c: "unat (CalculateLen m) = L" using assms(1,3) by (simp add: unat_of_nat_eq)
  have "\<exists>bs. Serialization be buf m = (E_OK, bs) \<and> length bs = L \<and>
      DeSerialization z be' bs (header_only m) = (E_OK, (header_only m)\<lparr>m_holder := h\<rparr>)" if buf: "length buf = L" for buf
  proof -
    have b: "0 < length buf" "length buf < 4294967296" "fields_end 0 fs \<le> length buf" using assms(2,3,5) buf by simp_all
    have w: "writes be fs (Parcel_init buf (length buf))" using writes_init assms(4) b by blast
    show ?thesis using wr[OF w] rd holds_init[OF w b(1,2)] buf by auto
  qed
  then show ?thesis using c by (simp add: transforms_to_def sync_transform_def data_length_def)
qed

lemma request_transforms:
  assumes ok: "packet_ok z be (is_query m) pk its" and z: "zlib_sound z" and len: "request_len (is_query m) pk its \<le> INT32_MAX"
    and m: "m_messageType m = TYPE_REQUEST" "m_messageId m \<noteq> CONTROL_SYNC_MESSAGE" "m_holder m = Some (DataRequest pk)"
  shows "transforms_to (sync_transform z be) (sync_transform z be') m (Some (DataRequest (packet_seen (is_query m) pk its))) \<and>
    data_length (sync_transform z be) m = request_len (is_query m) pk its \<and> 0 < request_len (is_query m) pk its"
proof -
  note l = CalculateLen_request_ok[OF ok z len is_query_def]
  have t: "IsPacketValid m" using m(1) by (simp add: IsPacketValid_def)
  have pos: "0 < request_len (is_query m) pk its" using l by simp
  have "8 + fields_end 4 (datas_fields (dr_version pk) (if IsCompressData pk then [] else its)) \<le> INT32_MAX"
    using l len unfolding datas_end by linarith
  then have "DataPacketDeSerialization z be' buf (header_only m) = (E_OK, (header_only m)\<lparr>m_holder := Some (DataRequest (packet_seen (is_query m) pk its))\<rparr>)"
    if "holds (request_fields (is_query m) pk its) (Parcel_init buf (length buf))" for buf
    using DataPacket_read[OF ok z _ that, of "header_only m" be'] by (simp add: is_query_def header_only_def)
  then have "transforms_to (sync_transform z be) (sync_transform z be') m (Some (DataRequest (packet_seen (is_query m) pk its))) \<and>
      data_length (sync_transform z be) m = request_len (is_query m) pk its"
    using l len t m ok pos DataPacket_written[OF m(3), of its be] request_fits
    by (intro transforms_by_fields[where fs = "request_fields (is_query m) pk its"])
      (simp_all add: CalculateLen_def CalculateDataLen_def GetObject_def INT32_MAX_def Serialization_def DataSerialization_def
        packet_ok_def DeSerialization_def DataDeSerialization_def IsPacketValid_def header_only_def)
  then show ?thesis using pos by blast
qed

lemma sync_registered:
  assumes "RegisterTransformFunc z be reg0 = (reg, E_OK)" "i \<in> {QUERY_SYNC_MESSAGE, DATA_SYNC_MESSAGE, CONTROL_SYNC_MESSAGE}"
  shows "reg i = Some (sync_transform z be)"
  using assms
  by (auto simp: RegisterTransformFunc_def RegTransformFunction_def QUERY_SYNC_MESSAGE_def DATA_SYNC_MESSAGE_def
      CONTROL_SYNC_MESSAGE_def split: if_splits)

lemma sync_travels:
  assumes "reliable al" "ext_permits ext" "sendable msg"
    and "RegisterTransformFunc z be reg0 = (reg, E_OK)" "RegisterTransformFunc z be' reg0' = (reg', E_OK)"
    and "m_messageId msg \<in> {QUERY_SYNC_MESSAGE, DATA_SYNC_MESSAGE, CONTROL_SYNC_MESSAGE}"
    and "transforms_to (sync_transform z be) (sync_transform z be') msg h" "0 < data_length (sync_transform z be) msg"
    and "data_length (sync_transform z be) msg \<le> MAX_DATA_LEN"
  shows "\<exists>b. ToSerialBuffer al be reg (Some msg) ext False = Inr b \<and>
    ToMessage al be' reg' (Some b) False = Inr (msg\<lparr>m_holder := h, m_target := [], m_prio := LOW\<rparr>, E_OK)"
  using message_travels[of al ext reg msg "sync_transform z be" reg' "sync_transform z be'" h be be'] assms
    sync_registered[OF assms(4,6)] sync_registered[OF assms(5,6)] by blast

section \<open>Commands and acknowledgements\<close>

definition head_fields :: "u32 \<Rightarrow> u32 \<Rightarrow> u32 \<Rightarrow> u32 \<Rightarrow> field list" where
  "head_fields version code cmd flag = [FU32 version, FInt code, FU32 cmd, FU32 flag, FAlign]"

lemma write_head_ok:
  assumes "writes be (head_fields version code cmd flag) p"
  shows "write_head be version code cmd flag p = (write_fields be (head_fields version code cmd flag) p, E_OK)"
proof -
  have "writes be [FAlign] (write_fields be [FU32 version, FInt code, FU32 cmd, FU32 flag] p)"
    using assms writes_append[of be "[FU32 version, FInt code, FU32 cmd, FU32 flag]" "[FAlign]" p] by (simp add: head_fields_def)
  then have "\<not> IsError (write_fields be [FU32 version, FInt code, FU32 cmd, FU32 flag] p)" using writes_ok by blast
  then show ?thesis by (simp add: write_head_def head_fields_def Let_def)
qed

definition subscribe_ok :: "SubscribeRequest \<Rightarrow> bool" where
  "subscribe_ok pk \<longleftrightarrow> query_ok (cr_query pk) \<and> is_subscription (cr_controlCmdType pk) \<and> \<not> cr_version pk > SOFTWARE_VERSION_CURRENT"

definition subscribe_fields :: "SubscribeRequest \<Rightarrow> field list" where
  "subscribe_fields pk = head_fields (cr_version pk) (cr_sendCode pk) (cr_controlCmdType pk) (cr_flag pk) @ qso_fields (cr_query pk)"

lemma subscribe_written:
  assumes "subscribe_ok pk" "writes be (subscribe_fields pk) (Parcel_init buf (length buf))"
  shows "SubscribeSerialization be buf pk = (E_OK, p_buf (write_fields be (subscribe_fields pk) (Parcel_init buf (length buf))))"
proof -
  let ?h = "head_fields (cr_version pk) (cr_sendCode pk) (cr_controlCmdType pk) (cr_flag pk)" and ?p = "Parcel_init buf (length buf)"
  have w: "writes be ?h ?p" "writes be (qso_fields (cr_query pk)) (write_fields be ?h ?p)"
    using assms(2) unfolding subscribe_fields_def writes_append by blast+
  have "p_parcelLen ?p = 0" by (simp add: Parcel_init_def)
  then have "8 dvd p_parcelLen (write_fields be ?h ?p)" using writes_end[OF w(1)] by (simp add: head_fields_def)
  then show ?thesis
    using write_head_ok[OF w(1)] SerializeData_query_ok[OF _ w(2)] assms(1)
    by (simp add: SubscribeSerialization_def ControlRequestSerialization_def subscribe_fields_def write_fields_append subscribe_ok_def)
qed

lemma subscribe_read:
  assumes "subscribe_ok pk" "holds (subscribe_fields pk) (Parcel_init buf (length buf))"
  shows "ControlPacketDeSerialization be buf m = (E_OK, m\<lparr>m_holder := Some (Subscribe (pk\<lparr>cr_query := query_seen (cr_query pk)\<rparr>))\<rparr>)"
proof -
  let ?q = "Parcel_init buf (length buf)"
  have h: "holds (FU32 (cr_version pk) # FInt (cr_sendCode pk) # FU32 (cr_controlCmdType pk) # FU32 (cr_flag pk) # FAlign # qso_fields (cr_query pk)) ?q"
    using assms(2) by (simp only: subscribe_fields_def head_fields_def append.simps)
  note h1 = holds_read(3)[OF h, of be 0]
  note h2 = holds_read(2)[OF conjunct2[OF h1], of be 0]
  note h3 = holds_read(3)[OF conjunct2[OF h2], of be 0]
  note h4 = holds_read(3)[OF conjunct2[OF h3], of be 0]
  note e = holds_ok[OF conjunct2[OF h4]]
  have "p_parcelLen (shift 16 ?q) = 16" by (simp add: Parcel_init_def)
  then have "EightByteAlign (shift 16 ?q) = shift 16 ?q" by (intro EightByteAlign_aligned) simp
  then have "holds (qso_fields (cr_query pk)) (shift 16 ?q)" using holds_align[OF conjunct2[OF h4]] by simp
  then have "DeSerializeData_query be (shift 16 ?q) = (past (qso_fields (cr_query pk)) (shift 16 ?q), Inr (query_seen (cr_query pk)))"
    using DeSerializeData_query_ok assms(1) by (simp add: subscribe_ok_def)
  then show ?thesis using h1 h2 h3 h4 e assms(1)
    by (simp add: ControlPacketDeSerialization_def ControlRequestDeSerialization_def SubscribeDeSerialization_def subscribe_ok_def del: holds.simps)
qed

lemma subscribe_transforms:
  assumes "subscribe_ok pk" "16 + fields_end 0 (full_fields (cr_query pk)) \<le> INT32_MAX"
    and m: "m_messageType m = TYPE_REQUEST" "m_messageId m = CONTROL_SYNC_MESSAGE" "m_holder m = Some (Subscribe pk)"
  shows "transforms_to (sync_transform z be) (sync_transform z be') m (Some (Subscribe (pk\<lparr>cr_query := query_seen (cr_query pk)\<rparr>))) \<and>
    data_length (sync_transform z be) m = 16 + fields_end 0 (full_fields (cr_query pk))"
proof -
  let ?n = "fields_end 0 (full_fields (cr_query pk))"
  have s: "query_ok (cr_query pk)" "is_subscription (cr_controlCmdType pk)" using assms(1) by (simp_all add: subscribe_ok_def)
  then have c: "\<not> cr_controlCmdType pk \<ge> INVALID_CONTROL_CMD"
    by (auto simp: is_subscription_def SUBSCRIBE_QUERY_CMD_def UNSUBSCRIBE_QUERY_CMD_def INVALID_CONTROL_CMD_def word_le_nat_alt)
  have q: "CalculateLen_query (cr_query pk) = ?n" "list_all field_legal (full_fields (cr_query pk))"
    using CalculateLen_query_ok[of "cr_query pk"] s(1) assms(2) by (simp_all add: query_ok_def)
  have h: "CalculateLen_control = 16" by (simp add: CalculateLen_control_def GetEightByteAlign_def BYTE_8_ALIGN_def GetUInt32Len_def GetIntLen_def INT32_MAX_def)
  have "fields_end 0 (subscribe_fields pk) = 16 + fields_end 0 (qso_fields (cr_query pk))"
    using fields_end_shift[of 16 0 "qso_fields (cr_query pk)"] by (simp add: subscribe_fields_def head_fields_def BYTE_8_ALIGN_def)
  then have f: "fields_end 0 (subscribe_fields pk) \<le> 16 + ?n" "list_all field_legal (subscribe_fields pk)"
    using qso_in_full(1)[of 0 "cr_query pk"] qso_in_full(2)[OF q(2)] by (simp_all add: subscribe_fields_def head_fields_def)
  show ?thesis
    using s c q h f m assms(2) subscribe_written[OF assms(1)] subscribe_read[OF assms(1)]
    by (intro transforms_by_fields[where fs = "subscribe_fields pk"])
      (simp_all add: CalculateLen_def CalculateControlLen_def CalculateLen_subscribe_def GetObject_def Serialization_def ControlSerialization_def
        ControlPacketSerialization_def DeSerialization_def ControlDeSerialization_def IsPacketValid_def header_only_def INT32_MAX_def)
qed

text \<open>An acknowledgement of a newer version is not read further.\<close>

definition ack_fields :: "DataAckPacket \<Rightarrow> field list" where
  "ack_fields pk = [FU32 (da_version pk), FU64 (da_data pk), FInt (da_recvCode pk), FVec64 (da_reserved pk), FAlign]"

definition ack_seen :: "DataAckPacket \<Rightarrow> DataAckPacket" where
  "ack_seen pk = (if da_version pk > SOFTWARE_VERSION_CURRENT
     then DataAckPacket_init\<lparr>da_version := da_version pk, da_recvCode := minus_E_VERSION_NOT_SUPPORT\<rparr> else pk)"

lemma ack_written:
  assumes "m_holder m = Some (DataAck pk)" "writes be (ack_fields pk) (Parcel_init buf (length buf))"
  shows "AckPacketSerialization be buf m = (E_OK, p_buf (write_fields be (ack_fields pk) (Parcel_init buf (length buf))))"
proof -
  let ?f = "[FU32 (da_version pk)]" and ?g = "[FU64 (da_data pk), FInt (da_recvCode pk), FVec64 (da_reserved pk)]" and ?p = "Parcel_init buf (length buf)"
  have w: "writes be (?f @ ?g @ [FAlign]) ?p" using assms(2) by (simp add: ack_fields_def)
  have "writes be (?g @ [FAlign]) (write_fields be ?f ?p)" using w unfolding writes_append[of be ?f] by simp
  then have 1: "\<not> IsError (write_fields be ?f ?p)" using writes_ok by blast
  have "writes be [FAlign] (write_fields be (?f @ ?g) ?p)" using w unfolding append_assoc[symmetric] writes_append[of be "?f @ ?g"] by simp
  then have 2: "\<not> IsError (write_fields be (?f @ ?g) ?p)" using writes_ok by blast
  show ?thesis using 1 2 assms(1)
    by (simp add: AckPacketSerialization_def AckPacketSyncerPartSerializationV1_def GetObject_def ack_fields_def Let_def)
qed

lemma ack_read:
  assumes "holds (ack_fields pk) (Parcel_init buf (length buf))"
  shows "AckPacketDeSerialization be buf m = (E_OK, m\<lparr>m_holder := Some (DataAck (ack_seen pk))\<rparr>)"
proof -
  note h1 = holds_read(3)[OF assms[unfolded ack_fields_def], of be 0]
  note h2 = holds_read(5)[OF conjunct2[OF h1], of be 0]
  note h3 = holds_read(2)[OF conjunct2[OF h2], of be 0]
  note h4 = holds_read(8)[OF conjunct2[OF h3], of be "[]"]
  show ?thesis using h1 h2 h3 h4 holds_ok[OF conjunct2[OF h1]] holds_ok[OF conjunct2[OF h4]]
    by (simp add: AckPacketDeSerialization_def AckPacketSyncerPartDeSerializationV1_def ack_seen_def DataAckPacket_init_def del: holds.simps)
qed

lemma ack_transforms:
  assumes "BYTE_8_ALIGN (16 + vector_step (da_reserved pk)) \<le> INT32_MAX"
    and m: "m_messageType m \<in> {TYPE_RESPONSE, TYPE_NOTIFY}" "m_messageId m \<noteq> CONTROL_SYNC_MESSAGE" "m_holder m = Some (DataAck pk)"
  shows "transforms_to (sync_transform z be) (sync_transform z be') m (Some (DataAck (ack_seen pk))) \<and>
    data_length (sync_transform z be) m = BYTE_8_ALIGN (16 + vector_step (da_reserved pk))"
proof -
  let ?n = "16 + vector_step (da_reserved pk)"
  have b: "?n \<le> BYTE_8_ALIGN ?n" by (rule BYTE_8_ALIGN_ge)
  then have v: "GetVectorLen (da_reserved pk) = vector_step (da_reserved pk)" "vector_legal (da_reserved pk)"
    using vector64_len[of "da_reserved pk"] assms(1) by simp_all
  then have "CalculateLen_ack pk = BYTE_8_ALIGN ?n"
    using assms(1) aligned_len[OF assms(1)] by (simp add: CalculateLen_ack_def GetUInt64Len_def GetIntLen_def GetUInt32Len_def Let_def)
  moreover have "TYPE_RESPONSE \<noteq> TYPE_REQUEST" "TYPE_NOTIFY \<noteq> TYPE_REQUEST" by (simp_all add: TYPE_RESPONSE_def TYPE_REQUEST_def TYPE_NOTIFY_def)
  ultimately show ?thesis
    using v m assms(1) b ack_written[OF m(3)] ack_read
    by (intro transforms_by_fields[where fs = "ack_fields pk"])
      (auto simp: CalculateLen_def CalculateDataLen_def GetObject_def Serialization_def DataSerialization_def DeSerialization_def
        DataDeSerialization_def IsPacketValid_def header_only_def INT32_MAX_def ack_fields_def)
qed

section \<open>Delivery\<close>

text \<open>C4. A request with data survives the serialisation between two devices whose hosts may differ in byte order: after both
  registered the functions of the syncer, the buffer that \<^verbatim>\<open>ToSerialBuffer\<close> of the sender makes is read by \<^verbatim>\<open>ToMessage\<close> of the receiver
  as the same message with the packet's marks, session, flags, packet id and, for a query, the query and its id, and with every entry
  as the negotiated version carries it; entries that were compressed are there again. The statement is about these two functions on
  one buffer; the checks of the communicator on the frame between them, which refuse a frame of the other byte order, are not part
  of it.\<close>

theorem sync_request_delivered:
  assumes "reliable al" "ext_permits ext" "zlib_sound z"
    and "RegisterTransformFunc z be reg0 = (reg, E_OK)" "RegisterTransformFunc z be' reg0' = (reg', E_OK)"
    and "m_messageId msg = DATA_SYNC_MESSAGE \<or> m_messageId msg = QUERY_SYNC_MESSAGE" "m_messageType msg = TYPE_REQUEST"
    and "m_holder msg = Some (DataRequest pk)" "sendable msg"
    and "packet_ok z be (is_query msg) pk its" "request_len (is_query msg) pk its \<le> MAX_DATA_LEN"
  shows "\<exists>b. ToSerialBuffer al be reg (Some msg) ext False = Inr b \<and>
    ToMessage al be' reg' (Some b) False =
      Inr (msg\<lparr>m_holder := Some (DataRequest (packet_seen (is_query msg) pk its)), m_target := [], m_prio := LOW\<rparr>, E_OK)"
proof -
  have "request_len (is_query msg) pk its \<le> INT32_MAX" using assms(11) by (simp add: MAX_DATA_LEN_def proto_consts INT32_MAX_def)
  moreover have "m_messageId msg \<noteq> CONTROL_SYNC_MESSAGE" using assms(6) by (auto simp: QUERY_SYNC_MESSAGE_def DATA_SYNC_MESSAGE_def CONTROL_SYNC_MESSAGE_def)
  ultimately have t: "transforms_to (sync_transform z be) (sync_transform z be') msg (Some (DataRequest (packet_seen (is_query msg) pk its))) \<and>
      data_length (sync_transform z be) msg = request_len (is_query msg) pk its \<and> 0 < request_len (is_query msg) pk its"
    using request_transforms[OF assms(10,3), of be'] assms(7,8) by blast
  have i: "m_messageId msg \<in> {QUERY_SYNC_MESSAGE, DATA_SYNC_MESSAGE, CONTROL_SYNC_MESSAGE}" using assms(6) by blast
  show ?thesis using t assms(11) by (intro sync_travels[OF assms(1,2,9,4,5) i]) simp_all
qed

text \<open>C25. A request to subscribe to a query, or to end the subscription, that is serialised by \<^verbatim>\<open>ToSerialBuffer\<close> and read by
  \<^verbatim>\<open>ToMessage\<close> on the other device has the same command, flags and query, and both devices derive the same identity of the query,
  under which each keeps the subscription.\<close>

theorem subscription_delivered:
  assumes "reliable al" "ext_permits ext" "sendable msg"
    and "RegisterTransformFunc z be reg0 = (reg, E_OK)" "RegisterTransformFunc z be' reg0' = (reg', E_OK)"
    and "m_messageId msg = CONTROL_SYNC_MESSAGE" "m_messageType msg = TYPE_REQUEST" "m_holder msg = Some (Subscribe pk)"
    and "subscribe_ok pk" "16 + fields_end 0 (full_fields (cr_query pk)) \<le> MAX_DATA_LEN"
  shows "\<exists>b pk'. ToSerialBuffer al be reg (Some msg) ext False = Inr b \<and>
    ToMessage al be' reg' (Some b) False = Inr (msg\<lparr>m_holder := Some (Subscribe pk'), m_target := [], m_prio := LOW\<rparr>, E_OK) \<and>
    cr_controlCmdType pk' = cr_controlCmdType pk \<and> cr_flag pk' = cr_flag pk \<and> cr_version pk' = cr_version pk \<and>
    cr_query pk' = query_seen (cr_query pk) \<and> GetIdentify sha be' (cr_query pk') = GetIdentify sha be (cr_query pk)"
proof -
  let ?pk = "pk\<lparr>cr_query := query_seen (cr_query pk)\<rparr>"
  have "16 + fields_end 0 (full_fields (cr_query pk)) \<le> INT32_MAX" using assms(10) by (simp add: MAX_DATA_LEN_def proto_consts INT32_MAX_def)
  note t = subscribe_transforms[OF assms(9) this assms(7,6,8), of z be be']
  obtain b where b: "ToSerialBuffer al be reg (Some msg) ext False = Inr b \<and>
      ToMessage al be' reg' (Some b) False = Inr (msg\<lparr>m_holder := Some (Subscribe ?pk), m_target := [], m_prio := LOW\<rparr>, E_OK)"
    using sync_travels[OF assms(1-5), of "Some (Subscribe ?pk)"] t assms(6,10) by auto
  have "GetIdentify sha be' (query_seen (cr_query pk)) = GetIdentify sha be (cr_query pk)"
    using GetIdentify_host[of sha be' "query_seen (cr_query pk)" be] GetIdentify_seen[of sha be "cr_query pk"] by simp
  with b show ?thesis by (intro exI[of _ b] exI[of _ ?pk]) simp
qed

text \<open>
  The acknowledgement reaches the sender with the water mark, the code and the packet id; one of a newer version is taken as an
  unsupported version.
\<close>

theorem ack_delivered:
  assumes "reliable al" "ext_permits ext" "sendable msg"
    and "RegisterTransformFunc z be reg0 = (reg, E_OK)" "RegisterTransformFunc z be' reg0' = (reg', E_OK)"
    and "m_messageId msg \<in> {DATA_SYNC_MESSAGE, QUERY_SYNC_MESSAGE}" "m_messageType msg \<in> {TYPE_RESPONSE, TYPE_NOTIFY}"
    and "m_holder msg = Some (DataAck pk)" "BYTE_8_ALIGN (16 + vector_step (da_reserved pk)) \<le> MAX_DATA_LEN"
  shows "\<exists>b. ToSerialBuffer al be reg (Some msg) ext False = Inr b \<and>
    ToMessage al be' reg' (Some b) False = Inr (msg\<lparr>m_holder := Some (DataAck (ack_seen pk)), m_target := [], m_prio := LOW\<rparr>, E_OK)"
proof -
  have "BYTE_8_ALIGN (16 + vector_step (da_reserved pk)) \<le> INT32_MAX" using assms(9) by (simp add: MAX_DATA_LEN_def proto_consts INT32_MAX_def)
  moreover have "m_messageId msg \<noteq> CONTROL_SYNC_MESSAGE" using assms(6) by (auto simp: QUERY_SYNC_MESSAGE_def DATA_SYNC_MESSAGE_def CONTROL_SYNC_MESSAGE_def)
  ultimately have t: "transforms_to (sync_transform z be) (sync_transform z be') msg (Some (DataAck (ack_seen pk))) \<and>
      data_length (sync_transform z be) msg = BYTE_8_ALIGN (16 + vector_step (da_reserved pk))"
    using ack_transforms assms(7,8) by blast
  have "0 < BYTE_8_ALIGN (16 + vector_step (da_reserved pk))" using BYTE_8_ALIGN_ge[of "16 + vector_step (da_reserved pk)"] by simp
  then show ?thesis using t assms(6,9) by (intro sync_travels[OF assms(1-5)]) auto
qed

section \<open>Witnesses\<close>

definition sync_item :: DataItem where
  "sync_item = DataItem_init\<lparr>di_key := [1], di_value := [2, 3], di_timestamp := 7, di_hashKey := [4]\<rparr>"

definition sync_packet :: DataRequestPacket where
  "sync_packet = DataRequestPacket_init\<lparr>dr_data := [Some sync_item], dr_endWaterMark := 8, dr_mode := QUERY_PUSH, dr_reserved := [5],
     dr_query := demo_query, dr_queryId := [65, 66], dr_flag := IS_COMPRESS_DATA, dr_algo := ZLIB,
     dr_compressData := projr (Compress plain_zlib False ZLIB SOFTWARE_VERSION_CURRENT [Some sync_item])\<rparr>"

definition sync_message :: "u32 \<Rightarrow> sync_object \<Rightarrow> sync_object Message" where
  "sync_message i ob = Message_init\<lparr>m_messageId := i, m_messageType := TYPE_REQUEST, m_sessionId := 3, m_holder := Some ob\<rparr>"

definition sync_registry :: "bool \<Rightarrow> sync_object registry" where
  "sync_registry be = fst (RegisterTransformFunc plain_zlib be (\<lambda>_. None))"

lemma sync_registry_ok: "RegisterTransformFunc plain_zlib be (\<lambda>_. None) = (sync_registry be, E_OK)"
  by (simp add: sync_registry_def RegisterTransformFunc_def RegTransformFunction_def QUERY_SYNC_MESSAGE_def DATA_SYNC_MESSAGE_def
      CONTROL_SYNC_MESSAGE_def sync_transform_def)

lemma plain_zlib_sound: "zlib_sound plain_zlib"
  by (simp add: zlib_sound_def plain_zlib_def)

lemma sync_datas: "fields_end 0 (datas_fields SOFTWARE_VERSION_CURRENT [sync_item]) = 68"
  by (simp add: datas_fields_def entry_fields_def sync_item_def DataItem_init_def version_defs vector_step_def string_step_def BYTE_8_ALIGN_def)

lemma sync_compressed:
  "compressible plain_zlib SOFTWARE_VERSION_CURRENT [sync_item]" "version_supported SOFTWARE_VERSION_CURRENT"
  "Compress plain_zlib False ZLIB SOFTWARE_VERSION_CURRENT [Some sync_item] = Inr (dr_compressData sync_packet)"
  "length (dr_compressData sync_packet) \<le> MAX_SYNC_BLOCK_SIZE"
proof -
  show c: "compressible plain_zlib SOFTWARE_VERSION_CURRENT [sync_item]" by (simp add: compressible_def sync_datas plain_zlib_def MAX_SYNC_BLOCK_SIZE_def)
  show v: "version_supported SOFTWARE_VERSION_CURRENT" by (simp add: version_supported_def version_defs)
  obtain d where d: "Compress plain_zlib False ZLIB SOFTWARE_VERSION_CURRENT [Some sync_item] = Inr d" "length d \<le> MAX_SYNC_BLOCK_SIZE"
    using Uncompress_Compress[OF v plain_zlib_sound c, of False] by auto
  then show "Compress plain_zlib False ZLIB SOFTWARE_VERSION_CURRENT [Some sync_item] = Inr (dr_compressData sync_packet)"
    "length (dr_compressData sync_packet) \<le> MAX_SYNC_BLOCK_SIZE" by (simp_all add: sync_packet_def)
qed

lemma sync_packet_ok:
  "packet_ok plain_zlib False True sync_packet [sync_item]" "request_len True sync_packet [sync_item] \<le> MAX_DATA_LEN"
proof -
  have f: "dr_version sync_packet = SOFTWARE_VERSION_CURRENT" "dr_data sync_packet = [Some sync_item]" "dr_algo sync_packet = ZLIB"
    "dr_query sync_packet = demo_query" "dr_queryId sync_packet = [65, 66]" "dr_reserved sync_packet = [5]" "IsCompressData sync_packet"
    by (simp_all add: sync_packet_def DataRequestPacket_init_def IsCompressData_def)
  show "packet_ok plain_zlib False True sync_packet [sync_item]"
    using sync_compressed demo_query_ok(1) f by (simp add: packet_ok_def version_defs word_less_nat_alt)
  have q: "fields_end 0 (full_fields demo_query) = 104"
    using CalculateLen_query_ok[of demo_query] demo_query_ok by (simp add: query_ok_def)
  have "vector_step (dr_compressData sync_packet) \<le> BYTE_8_ALIGN (MAX_SYNC_BLOCK_SIZE + 4)"
    unfolding vector_step_def by (rule BYTE_8_ALIGN_mono) (simp add: sync_compressed(4))
  also have "\<dots> = 31457288" by (simp add: MAX_SYNC_BLOCK_SIZE_def BYTE_8_ALIGN_def)
  finally have "vector_step (dr_compressData sync_packet) \<le> 31457288" .
  then show "request_len True sync_packet [sync_item] \<le> MAX_DATA_LEN"
    by (simp add: request_len_def f q datas_fields_def vector_step_def[of "[5 :: u64]"] string_step_def BYTE_8_ALIGN_def MAX_DATA_LEN_def proto_consts)
qed

lemma demo_sendable: "sendable (sync_message i ob)"
  by (simp add: sendable_def sync_message_def Message_init_def IsSupportMessageVersion_def IsFeedbackErrorMessage_def)

theorem sync_request_delivered_witness:
  "\<exists>b. ToSerialBuffer test_allocator False (sync_registry False) (Some (sync_message QUERY_SYNC_MESSAGE (DataRequest sync_packet))) None False = Inr b \<and>
    ToMessage test_allocator True (sync_registry True) (Some b) False =
      Inr ((sync_message QUERY_SYNC_MESSAGE (DataRequest sync_packet))
        \<lparr>m_holder := Some (DataRequest (packet_seen True sync_packet [sync_item])), m_target := [], m_prio := LOW\<rparr>, E_OK)"
  using sync_request_delivered[where al = test_allocator and ext = None and msg = "sync_message QUERY_SYNC_MESSAGE (DataRequest sync_packet)",
      OF _ _ plain_zlib_sound sync_registry_ok[of False] sync_registry_ok[of True] _ _ _ demo_sendable] sync_packet_ok
  by (simp add: ext_permits_def sync_message_def is_query_def Message_init_def)

definition demo_subscribe :: SubscribeRequest where
  "demo_subscribe = \<lparr>cr_version = SOFTWARE_VERSION_CURRENT, cr_sendCode = 0, cr_controlCmdType = SUBSCRIBE_QUERY_CMD, cr_flag = 1, cr_query = demo_query\<rparr>"

theorem subscription_delivered_witness:
  "\<exists>b pk'. ToSerialBuffer test_allocator False (sync_registry False) (Some (sync_message CONTROL_SYNC_MESSAGE (Subscribe demo_subscribe))) None False = Inr b \<and>
    ToMessage test_allocator True (sync_registry True) (Some b) False =
      Inr ((sync_message CONTROL_SYNC_MESSAGE (Subscribe demo_subscribe))\<lparr>m_holder := Some (Subscribe pk'), m_target := [], m_prio := LOW\<rparr>, E_OK) \<and>
    cr_controlCmdType pk' = cr_controlCmdType demo_subscribe \<and> cr_flag pk' = cr_flag demo_subscribe \<and> cr_version pk' = cr_version demo_subscribe \<and>
    cr_query pk' = query_seen (cr_query demo_subscribe) \<and> GetIdentify Some True (cr_query pk') = GetIdentify Some False (cr_query demo_subscribe)"
proof (rule subscription_delivered[where ext = None, OF _ _ demo_sendable sync_registry_ok[of False] sync_registry_ok[of True]])
  have q: "fields_end 0 (full_fields demo_query) = 104"
    using CalculateLen_query_ok[of demo_query] demo_query_ok by (simp add: query_ok_def)
  show "subscribe_ok demo_subscribe" using demo_query_ok(1) by (simp add: subscribe_ok_def demo_subscribe_def is_subscription_def)
  show "16 + fields_end 0 (full_fields (cr_query demo_subscribe)) \<le> MAX_DATA_LEN" by (simp add: demo_subscribe_def q MAX_DATA_LEN_def proto_consts)
qed (simp_all add: ext_permits_def sync_message_def)

end
