(* ===== verification/Message_Schedule.thy ===== *)
theory Message_Schedule
  imports Sync_Packet Std_Map
begin

text \<open>
  \<^verbatim>\<open>syncer/src/single_ver_data_message_schedule.cpp\<close> and its use in \<^verbatim>\<open>SingleVerSyncStateMachine::ScheduleMsgAndHandle\<close>: the
  requests of a session, which may arrive in any order and more than once and each on a thread of its own, are handled one
  at a time in the order of their sequence ids.
\<close>

section \<open>The schedule\<close>

type_synonym msg = "sync_object Message"

record MessageSchedule =
  ms_msgQueue :: "msg list"
  ms_isNeedReload :: bool
  ms_isWorking :: bool
  ms_messageMap :: "(u32, msg) smap"
  ms_prevSessionId :: u32
  ms_currentSessionId :: u32
  ms_finishedPacketId :: u64
  ms_expectedSequenceId :: u32
  ms_timerId :: u64

definition MessageSchedule_init :: MessageSchedule where
  "MessageSchedule_init = \<lparr>ms_msgQueue = [], ms_isNeedReload = False, ms_isWorking = False, ms_messageMap = [],
     ms_prevSessionId = 0, ms_currentSessionId = 0, ms_finishedPacketId = 0, ms_expectedSequenceId = 0, ms_timerId = 0\<rparr>"

definition PutMsg :: "msg option \<Rightarrow> MessageSchedule \<Rightarrow> MessageSchedule" where
  "PutMsg inMsg s = (case inMsg of None \<Rightarrow> s | Some m \<Rightarrow> s\<lparr>ms_msgQueue := ms_msgQueue s @ [m], ms_isNeedReload := True\<rparr>)"

definition IsNeedReloadQueue :: "MessageSchedule \<Rightarrow> bool" where "IsNeedReloadQueue s = ms_isNeedReload s"

definition ClearMsgMap :: "MessageSchedule \<Rightarrow> MessageSchedule" where "ClearMsgMap s = s\<lparr>ms_messageMap := []\<rparr>"
definition ClearMsgQueue :: "MessageSchedule \<Rightarrow> MessageSchedule" where "ClearMsgQueue s = s\<lparr>ms_msgQueue := []\<rparr>"

definition UpdateMsgMapIfNeed :: "msg \<Rightarrow> MessageSchedule \<Rightarrow> MessageSchedule \<times> errno" where
  "UpdateMsgMapIfNeed msg s =
     (case GetObject as_request msg of
        Inl e \<Rightarrow> (s, e)
      | Inr packet \<Rightarrow>
          if ms_prevSessionId s \<noteq> 0 \<and> m_sessionId msg = ms_prevSessionId s then (s, E_INVALID_ARGS)
          else
            let s = (if m_sessionId msg \<noteq> ms_currentSessionId s
                     then (ClearMsgMap s)\<lparr>ms_prevSessionId := ms_currentSessionId s, ms_currentSessionId := m_sessionId msg,
                            ms_finishedPacketId := 0, ms_expectedSequenceId := 1\<rparr>
                     else s);
                replace = s\<lparr>ms_messageMap := smap_insert (m_sequenceId msg) msg (ms_messageMap s)\<rparr>
            in case map_of (ms_messageMap s) (m_sequenceId msg) of
                 None \<Rightarrow> (replace, E_OK)
               | Some cached \<Rightarrow>
                   (case GetObject as_request cached of
                      Inl _ \<Rightarrow> (replace, E_OK)
                    | Inr cachePacket \<Rightarrow>
                        if GetPacketId packet \<noteq> 0 \<and> GetPacketId packet < GetPacketId cachePacket then (s, E_INVALID_ARGS)
                        else (replace, E_OK)))"

fun UpdateMsgMapInner :: "msg list \<Rightarrow> MessageSchedule \<Rightarrow> MessageSchedule" where
  "UpdateMsgMapInner [] s = s"
| "UpdateMsgMapInner (msg # msgTmpQueue) s = UpdateMsgMapInner msgTmpQueue (fst (UpdateMsgMapIfNeed msg s))"

definition take_queue :: "MessageSchedule \<Rightarrow> msg list \<times> MessageSchedule" where
  "take_queue s = (ms_msgQueue s, s\<lparr>ms_msgQueue := [], ms_isNeedReload := False\<rparr>)"

definition UpdateMsgMap :: "MessageSchedule \<Rightarrow> MessageSchedule" where
  "UpdateMsgMap s = (case take_queue s of (msgTmpQueue, s) \<Rightarrow> UpdateMsgMapInner msgTmpQueue s)"

text \<open>The message to deal with, and whether to handle it or only to acknowledge it again. The difference of packet ids is taken in 64 bits.\<close>

fun next_msg :: "MessageSchedule \<Rightarrow> (u32, msg) smap \<Rightarrow> MessageSchedule \<times> msg option \<times> bool" where
  "next_msg s [] = (s\<lparr>ms_messageMap := []\<rparr>, None, True)"
| "next_msg s ((k, msg) # m) =
     (case GetObject as_request msg of
        Inl _ \<Rightarrow> next_msg s m
      | Inr packet \<Rightarrow>
          if m_sequenceId msg < ms_expectedSequenceId s then
            if GetPacketId packet < ms_finishedPacketId s - ucast (ms_expectedSequenceId s - 1 - m_sequenceId msg) then next_msg s m
            else (s\<lparr>ms_messageMap := m\<rparr>, Some msg, False)
          else if m_sequenceId msg = ms_expectedSequenceId s then
            if GetPacketId packet < ms_finishedPacketId s then next_msg s m
            else (s\<lparr>ms_messageMap := m\<rparr>, Some msg, True)
          else (s\<lparr>ms_messageMap := smap_insert (m_sequenceId msg) msg m\<rparr>, None, True))"

definition GetMsgFromMap :: "MessageSchedule \<Rightarrow> MessageSchedule \<times> msg option \<times> bool" where
  "GetMsgFromMap s = next_msg s (ms_messageMap s)"

fun last_msg :: "MessageSchedule \<Rightarrow> msg list \<Rightarrow> MessageSchedule \<times> msg option" where
  "last_msg s [] = (s\<lparr>ms_msgQueue := []\<rparr>, None)"
| "last_msg s (msg # q) = (if q = [] then (s\<lparr>ms_msgQueue := q\<rparr>, Some msg) else last_msg s q)"

definition GetLastMsgFromQueue :: "MessageSchedule \<Rightarrow> MessageSchedule \<times> msg option" where
  "GetLastMsgFromQueue s = last_msg (s\<lparr>ms_isNeedReload := False\<rparr>) (ms_msgQueue s)"

text \<open>
  \<open>timer\<close> is what \<^verbatim>\<open>RuntimeContext::SetTimer\<close> gives, \<open>None\<close> an error. The removal of a timer there and the references to the
  context have no effect on the schedule.
\<close>

definition StartTimer :: "u64 option \<Rightarrow> MessageSchedule \<Rightarrow> MessageSchedule" where
  "StartTimer timer s = (case timer of None \<Rightarrow> s | Some timerId \<Rightarrow> s\<lparr>ms_timerId := timerId\<rparr>)"
definition StopTimer :: "MessageSchedule \<Rightarrow> MessageSchedule" where
  "StopTimer s = (if ms_timerId s = 0 then s else s\<lparr>ms_timerId := 0\<rparr>)"
definition ResetTimer :: "u64 option \<Rightarrow> MessageSchedule \<Rightarrow> MessageSchedule" where
  "ResetTimer timer s = StartTimer timer (StopTimer s)"

definition expire :: "u64 \<Rightarrow> MessageSchedule \<Rightarrow> MessageSchedule" where
  "expire timerId s = (if timerId = ms_timerId s then (ClearMsgMap s)\<lparr>ms_timerId := 0\<rparr> else s)"

definition TimeOut :: "u64 \<Rightarrow> MessageSchedule \<Rightarrow> MessageSchedule" where
  "TimeOut timerId s = (if IsNeedReloadQueue s then s else if ms_isWorking s then s else expire timerId s)"

definition ClearMsg :: "MessageSchedule \<Rightarrow> MessageSchedule" where
  "ClearMsg s = ClearMsgMap (ClearMsgQueue (StopTimer s))"

definition set_working :: "bool \<Rightarrow> MessageSchedule \<Rightarrow> MessageSchedule" where
  "set_working w s = s\<lparr>ms_isWorking := w\<rparr>"

definition MoveNextMsg ::
    "u32 \<Rightarrow> u64 option \<Rightarrow> bool \<times> bool \<Rightarrow> MessageSchedule \<Rightarrow> MessageSchedule \<times> msg option \<times> bool \<times> bool" where
  "MoveNextMsg remoteVersion timer flags s =
     (if remoteVersion < SOFTWARE_VERSION_RELEASE_3_0 then
        (case GetLastMsgFromQueue s of (s, msg) \<Rightarrow> (s, msg, flags))
      else if ms_isWorking s then (s, None, fst flags, False)
      else case GetMsgFromMap (UpdateMsgMap (ResetTimer timer (set_working True s))) of
             (s, None, isNeedHandle) \<Rightarrow> (set_working False (StopTimer s), None, isNeedHandle, True)
           | (s, Some msg, isNeedHandle) \<Rightarrow> (s, Some msg, isNeedHandle, True))"

text \<open>\<open>None\<close>: the message has no packet, and the schedule stays as it is.\<close>

definition finish_msg :: "bool \<Rightarrow> msg \<Rightarrow> MessageSchedule \<Rightarrow> MessageSchedule option" where
  "finish_msg isNeedClearMap inMsg s =
     (case GetObject as_request inMsg of
        Inl _ \<Rightarrow> None
      | Inr packet \<Rightarrow>
          let s = s\<lparr>ms_finishedPacketId := GetPacketId packet\<rparr>
          in Some (if isNeedClearMap then (ClearMsgMap s)\<lparr>ms_expectedSequenceId := 1\<rparr>
                   else s\<lparr>ms_expectedSequenceId := ms_expectedSequenceId s + 1\<rparr>))"

definition ScheduleInfoHandle :: "bool \<Rightarrow> bool \<Rightarrow> msg \<Rightarrow> MessageSchedule \<Rightarrow> MessageSchedule" where
  "ScheduleInfoHandle isNeedHandleStatus isNeedClearMap inMsg s =
     (if isNeedHandleStatus then
        (case finish_msg isNeedClearMap inMsg s of None \<Rightarrow> s | Some s \<Rightarrow> set_working False s)
      else set_working False s)"

text \<open>
  The loop of \<^verbatim>\<open>ScheduleMsgAndHandle\<close> behind \<open>PutMsg\<close>. An iteration depends on the version of the peer before and after the handling,
  on the timer, on the code of \<^verbatim>\<open>HandleDataRequestRecv\<close> and on whether a water mark error was noted; the iterations are
  numbered. The result lists the messages that were dealt with and whether each was handled or only acknowledged; \<open>None\<close> means
  that \<open>fuel\<close> iterations were not enough.
\<close>

record iteration =
  it_version :: u32
  it_timer :: "u64 option"
  it_errCode :: errno
  it_waterMarkErr :: bool
  it_versionAfter :: u32

definition dealt :: "iteration \<Rightarrow> bool \<Rightarrow> msg \<Rightarrow> MessageSchedule \<Rightarrow> MessageSchedule" where
  "dealt it isNeedHandle msg s =
     (let isNeedClearMap = (isNeedHandle \<and> (it_waterMarkErr it \<or> it_errCode it = E_NEED_ABILITY_SYNC));
          isNeedHandle = (if it_errCode it = E_TIMEOUT then False else isNeedHandle);
          isNeedHandle = (if it_versionAfter it < SOFTWARE_VERSION_RELEASE_3_0 then False else isNeedHandle)
      in ScheduleInfoHandle isNeedHandle isNeedClearMap msg s)"

fun ScheduleLoop :: "nat \<Rightarrow> (nat \<Rightarrow> iteration) \<Rightarrow> nat \<Rightarrow> MessageSchedule \<Rightarrow> (MessageSchedule \<times> (msg \<times> bool) list) option" where
  "ScheduleLoop 0 env i s = None"
| "ScheduleLoop (Suc fuel) env i s =
     (case MoveNextMsg (it_version (env i)) (it_timer (env i)) (True, True) s of
        (s, msg, isNeedHandle, isNeedContinue) \<Rightarrow>
          if \<not> isNeedContinue then Some (s, [])
          else case msg of
                 None \<Rightarrow> if IsNeedReloadQueue s then ScheduleLoop fuel env (Suc i) s else Some (s, [])
               | Some m \<Rightarrow> map_option (\<lambda>(s', done). (s', (m, isNeedHandle) # done))
                             (ScheduleLoop fuel env (Suc i) (dealt (env i) isNeedHandle m s)))"

definition ScheduleMsgAndHandle ::
    "nat \<Rightarrow> (nat \<Rightarrow> iteration) \<Rightarrow> msg option \<Rightarrow> MessageSchedule \<Rightarrow> (MessageSchedule \<times> (msg \<times> bool) list) option" where
  "ScheduleMsgAndHandle fuel env inMsg s = ScheduleLoop fuel env 0 (PutMsg inMsg s)"

section \<open>Threads\<close>

text \<open>
  Every message that arrives runs \<^verbatim>\<open>ScheduleMsgAndHandle\<close> on a thread of its own. A step is what happens under one lock; between
  two steps of a thread the others may run. \<open>Out\<close> is a thread that is not in the function. The parameter of a step is the
  version of the peer that the context has at this moment; it is 0 while the version is not known, as after the store has been opened.
  A thread asks for it at \<open>Top\<close>: for a peer below 103 it is at \<open>Old\<close> next, where it takes the last message of the queue without
  marking the schedule as working, and else at \<open>New\<close>. The log lists the messages whose handling was completed and
  whether the map was cleared with it. The timer and the clearing of the messages may strike at any time.
\<close>

datatype place =
    Out | Top | Old | New | Started | Timed | Taken "msg list" | Mapped | Stopping | Leaving | Checking
  | Handling msg bool | Finishing msg bool bool | Freeing

record system =
  sy_sched :: MessageSchedule
  sy_place :: "nat \<Rightarrow> place"
  sy_log :: "(msg \<times> bool) list"

definition system_init :: system where
  "system_init = \<lparr>sy_sched = MessageSchedule_init, sy_place = (\<lambda>_. Out), sy_log = []\<rparr>"

definition goto :: "nat \<Rightarrow> place \<Rightarrow> system \<Rightarrow> system" where
  "goto t p y = y\<lparr>sy_place := (sy_place y)(t := p)\<rparr>"
definition upd :: "(MessageSchedule \<Rightarrow> MessageSchedule) \<Rightarrow> system \<Rightarrow> system" where
  "upd f y = y\<lparr>sy_sched := f (sy_sched y)\<rparr>"

inductive step :: "u32 \<Rightarrow> system \<Rightarrow> system \<Rightarrow> bool" for v where
  put: "sy_place y t = Out \<Longrightarrow> step v y (goto t Top (upd (PutMsg (Some m)) y))"
| old: "sy_place y t = Top \<Longrightarrow> v < SOFTWARE_VERSION_RELEASE_3_0 \<Longrightarrow> step v y (goto t Old y)"
| last_none: "sy_place y t = Old \<Longrightarrow> GetLastMsgFromQueue (sy_sched y) = (s, None) \<Longrightarrow> step v y (goto t Checking (upd (\<lambda>_. s) y))"
| last_some: "sy_place y t = Old \<Longrightarrow> GetLastMsgFromQueue (sy_sched y) = (s, Some m) \<Longrightarrow> step v y (goto t (Handling m True) (upd (\<lambda>_. s) y))"
| current: "sy_place y t = Top \<Longrightarrow> \<not> v < SOFTWARE_VERSION_RELEASE_3_0 \<Longrightarrow> step v y (goto t New y)"
| busy: "sy_place y t = New \<Longrightarrow> ms_isWorking (sy_sched y) \<Longrightarrow> step v y (goto t Out y)"
| enter: "sy_place y t = New \<Longrightarrow> \<not> ms_isWorking (sy_sched y) \<Longrightarrow> step v y (goto t Started (upd (set_working True) y))"
| reset: "sy_place y t = Started \<Longrightarrow> step v y (goto t Timed (upd (ResetTimer timer) y))"
| take_q: "sy_place y t = Timed \<Longrightarrow> take_queue (sy_sched y) = (q, s) \<Longrightarrow> step v y (goto t (Taken q) (upd (\<lambda>_. s) y))"
| update: "sy_place y t = Taken q \<Longrightarrow> step v y (goto t Mapped (upd (UpdateMsgMapInner q) y))"
| none: "sy_place y t = Mapped \<Longrightarrow> GetMsgFromMap (sy_sched y) = (s, None, h) \<Longrightarrow> step v y (goto t Stopping (upd (\<lambda>_. s) y))"
| some: "sy_place y t = Mapped \<Longrightarrow> GetMsgFromMap (sy_sched y) = (s, Some m, h) \<Longrightarrow> step v y (goto t (Handling m h) (upd (\<lambda>_. s) y))"
| stop: "sy_place y t = Stopping \<Longrightarrow> step v y (goto t Leaving (upd StopTimer y))"
| leave: "sy_place y t = Leaving \<Longrightarrow> step v y (goto t Checking (upd (set_working False) y))"
| again: "sy_place y t = Checking \<Longrightarrow> IsNeedReloadQueue (sy_sched y) \<Longrightarrow> step v y (goto t Top y)"
| finished: "sy_place y t = Checking \<Longrightarrow> \<not> IsNeedReloadQueue (sy_sched y) \<Longrightarrow> step v y (goto t Out y)"
| handled: "sy_place y t = Handling m h \<Longrightarrow> (h' \<longrightarrow> h \<and> \<not> v < SOFTWARE_VERSION_RELEASE_3_0) \<Longrightarrow> step v y (goto t (Finishing m h' c) y)"
| finish: "sy_place y t = Finishing m True c \<Longrightarrow> finish_msg c m (sy_sched y) = Some s \<Longrightarrow>
    step v y (goto t Freeing (upd (\<lambda>_. s) (y\<lparr>sy_log := sy_log y @ [(m, c)]\<rparr>)))"
| lost: "sy_place y t = Finishing m True c \<Longrightarrow> finish_msg c m (sy_sched y) = None \<Longrightarrow> step v y (goto t Top y)"
| unfinished: "sy_place y t = Finishing m False c \<Longrightarrow> step v y (goto t Freeing y)"
| free: "sy_place y t = Freeing \<Longrightarrow> step v y (goto t Top (upd (set_working False) y))"
| timer: "step v y (upd (expire timerId) y)"
| clear: "f \<in> {StopTimer, ClearMsgQueue, ClearMsgMap} \<Longrightarrow> step v y (upd f y)"

text \<open>The runs with a peer that is known to have version 103 or a later one.\<close>

definition current_step :: "system \<Rightarrow> system \<Rightarrow> bool" where
  "current_step y y' \<longleftrightarrow> (\<exists>v. \<not> v < SOFTWARE_VERSION_RELEASE_3_0 \<and> step v y y')"

definition sched_reachable :: "system \<Rightarrow> bool" where "sched_reachable y \<longleftrightarrow> current_step\<^sup>*\<^sup>* system_init y"

definition current_peer :: "u32 \<Rightarrow> system \<Rightarrow> bool" where
  "current_peer v y \<longleftrightarrow> \<not> v < SOFTWARE_VERSION_RELEASE_3_0 \<and> (\<forall>t. sy_place y t \<noteq> Old)"

lemma system_simps [simp]:
  "sy_sched (goto t p y) = sy_sched y" "sy_log (goto t p y) = sy_log y" "sy_place (goto t p y) = (sy_place y)(t := p)"
  "sy_sched (upd f y) = f (sy_sched y)" "sy_log (upd f y) = sy_log y" "sy_place (upd f y) = sy_place y"
  by (simp_all add: goto_def upd_def)

subsection \<open>What the operations keep\<close>

text \<open>The operations that do not touch the queue, the map or what is expected.\<close>

lemma timer_ops [simp]:
  "ms_isWorking (ResetTimer tm s) = ms_isWorking s" "ms_isNeedReload (ResetTimer tm s) = ms_isNeedReload s"
  "ms_msgQueue (ResetTimer tm s) = ms_msgQueue s" "ms_messageMap (ResetTimer tm s) = ms_messageMap s"
  "ms_currentSessionId (ResetTimer tm s) = ms_currentSessionId s" "ms_finishedPacketId (ResetTimer tm s) = ms_finishedPacketId s"
  "ms_expectedSequenceId (ResetTimer tm s) = ms_expectedSequenceId s"
  "ms_isWorking (StopTimer s) = ms_isWorking s" "ms_isNeedReload (StopTimer s) = ms_isNeedReload s"
  "ms_msgQueue (StopTimer s) = ms_msgQueue s" "ms_messageMap (StopTimer s) = ms_messageMap s"
  "ms_currentSessionId (StopTimer s) = ms_currentSessionId s" "ms_finishedPacketId (StopTimer s) = ms_finishedPacketId s"
  "ms_expectedSequenceId (StopTimer s) = ms_expectedSequenceId s"
  by (simp_all add: ResetTimer_def StartTimer_def StopTimer_def split: option.splits)

lemma update_one_keeps [simp]:
  "ms_isWorking (fst (UpdateMsgMapIfNeed m s)) = ms_isWorking s" "ms_isNeedReload (fst (UpdateMsgMapIfNeed m s)) = ms_isNeedReload s"
  "ms_msgQueue (fst (UpdateMsgMapIfNeed m s)) = ms_msgQueue s" "ms_timerId (fst (UpdateMsgMapIfNeed m s)) = ms_timerId s"
  by (simp_all add: UpdateMsgMapIfNeed_def ClearMsgMap_def Let_def split: sum.splits option.splits)

lemma update_keeps [simp]:
  "ms_isWorking (UpdateMsgMapInner q s) = ms_isWorking s" "ms_isNeedReload (UpdateMsgMapInner q s) = ms_isNeedReload s"
  "ms_msgQueue (UpdateMsgMapInner q s) = ms_msgQueue s" "ms_timerId (UpdateMsgMapInner q s) = ms_timerId s"
  by (induction q arbitrary: s) simp_all

lemma next_msg_keeps:
  "fst (next_msg s m) = s\<lparr>ms_messageMap := ms_messageMap (fst (next_msg s m))\<rparr>"
  by (induction s m rule: next_msg.induct) (simp_all split: sum.splits)

lemma GetMsgFromMap_keeps:
  assumes "GetMsgFromMap s = (s', r, h)" shows "s' = s\<lparr>ms_messageMap := ms_messageMap s'\<rparr>"
  using next_msg_keeps[of s "ms_messageMap s"] assms by (simp add: GetMsgFromMap_def)

lemma finish_msg_keeps:
  assumes "finish_msg c m s = Some s'"
  shows "ms_isWorking s' = ms_isWorking s" "ms_isNeedReload s' = ms_isNeedReload s" "ms_msgQueue s' = ms_msgQueue s"
    "ms_currentSessionId s' = ms_currentSessionId s"
  using assms by (auto simp: finish_msg_def ClearMsgMap_def Let_def split: sum.splits if_splits)

subsection \<open>One thread at a time\<close>

fun critical :: "place \<Rightarrow> bool" where
  "critical Out = False" | "critical Top = False" | "critical Old = False" | "critical New = False" | "critical Checking = False" | "critical _ = True"

definition one_working :: "system \<Rightarrow> bool" where
  "one_working y \<longleftrightarrow> (ms_isWorking (sy_sched y) \<longleftrightarrow> (\<exists>t. critical (sy_place y t))) \<and>
     (\<forall>t t'. critical (sy_place y t) \<and> critical (sy_place y t') \<longrightarrow> t = t')"

definition map_ok :: "MessageSchedule \<Rightarrow> bool" where
  "map_ok s \<longleftrightarrow> smap_inv (ms_messageMap s) \<and>
     (\<forall>(k, m) \<in> set (ms_messageMap s). k = m_sequenceId m \<and> m_sessionId m = ms_currentSessionId s \<and> (\<exists>pk. GetObject as_request m = Inr pk))"

definition has_packet :: "msg \<Rightarrow> bool" where "has_packet m \<longleftrightarrow> (\<exists>pk. GetObject as_request m = Inr pk)"

fun holding :: "place \<Rightarrow> msg option" where
  "holding (Handling m h) = Some m" | "holding (Finishing m h c) = Some m" | "holding _ = None"

definition packets_held :: "system \<Rightarrow> bool" where
  "packets_held y \<longleftrightarrow> map_ok (sy_sched y) \<and> (\<forall>t m. holding (sy_place y t) = Some m \<longrightarrow> has_packet m)"

lemma map_ok_simps:
  "map_ok (s\<lparr>ms_messageMap := []\<rparr>)"
  "map_ok s \<Longrightarrow> ms_messageMap s' = ms_messageMap s \<Longrightarrow> ms_currentSessionId s' = ms_currentSessionId s \<Longrightarrow> map_ok s'"
  by (simp_all add: map_ok_def)

lemma map_ok_clear: "ms_messageMap s = [] \<Longrightarrow> map_ok s"
  by (simp add: map_ok_def)

lemma map_ok_insert:
  assumes "map_ok s" "has_packet m" "m_sessionId m = ms_currentSessionId s"
  shows "map_ok (s\<lparr>ms_messageMap := smap_insert (m_sequenceId m) m (ms_messageMap s)\<rparr>)"
  using assms smap_in_insert[of "ms_messageMap s" _ _ "m_sequenceId m" m]
  by (auto simp: map_ok_def has_packet_def smap_inv_insert split: if_splits)

lemma UpdateMsgMapIfNeed_ok:
  assumes "map_ok s" shows "map_ok (fst (UpdateMsgMapIfNeed m s))"
proof (cases "GetObject as_request m")
  case (Inr pk)
  define s1 where "s1 = (if m_sessionId m \<noteq> ms_currentSessionId s
      then (ClearMsgMap s)\<lparr>ms_prevSessionId := ms_currentSessionId s, ms_currentSessionId := m_sessionId m, ms_finishedPacketId := 0, ms_expectedSequenceId := 1\<rparr>
      else s)"
  have s1: "map_ok s1" "m_sessionId m = ms_currentSessionId s1" using assms by (auto simp: s1_def ClearMsgMap_def map_ok_clear)
  have "fst (UpdateMsgMapIfNeed m s) \<in> {s, s1, s1\<lparr>ms_messageMap := smap_insert (m_sequenceId m) m (ms_messageMap s1)\<rparr>}"
    using Inr unfolding UpdateMsgMapIfNeed_def s1_def[symmetric] by (simp add: Let_def split: option.splits sum.splits)
  then show ?thesis using assms s1 map_ok_insert[OF s1(1) _ s1(2)] Inr by (auto simp: has_packet_def)
qed (simp add: UpdateMsgMapIfNeed_def assms)

lemma UpdateMsgMapInner_ok: "map_ok s \<Longrightarrow> map_ok (UpdateMsgMapInner q s)"
  by (induction q arbitrary: s) (simp_all add: UpdateMsgMapIfNeed_ok)

lemma smap_insert_front: "smap_inv ((k, v) # m) \<Longrightarrow> smap_insert k w m = (k, w) # m"
  by (cases m) (auto simp: smap_inv_def)

text \<open>What is next: with \<open>None\<close> only later messages are left, and asking again would give the same.\<close>

definition due :: "MessageSchedule \<Rightarrow> msg \<Rightarrow> bool" where
  "due s m \<longleftrightarrow> m_sequenceId m = ms_expectedSequenceId s \<and> m_sessionId m = ms_currentSessionId s \<and>
     (\<exists>pk. GetObject as_request m = Inr pk \<and> ms_finishedPacketId s \<le> GetPacketId pk)"

definition ready :: "MessageSchedule \<Rightarrow> bool" where
  "ready s \<longleftrightarrow> fst (snd (GetMsgFromMap s)) \<noteq> None"

lemma next_msg_spec:
  assumes "smap_inv m" "\<forall>(k, x) \<in> set m. k = m_sequenceId x \<and> has_packet x"
  shows "set (ms_messageMap (fst (next_msg s m))) \<subseteq> set m \<and> smap_inv (ms_messageMap (fst (next_msg s m))) \<and>
    (case snd (next_msg s m) of
       (None, _) \<Rightarrow> (case ms_messageMap (fst (next_msg s m)) of [] \<Rightarrow> True | (k, x) # _ \<Rightarrow> m_sequenceId x > ms_expectedSequenceId s)
     | (Some x, h) \<Rightarrow> (m_sequenceId x, x) \<in> set m \<and> (h \<longrightarrow> m_sequenceId x = ms_expectedSequenceId s \<and>
         (\<exists>pk. GetObject as_request x = Inr pk \<and> ms_finishedPacketId s \<le> GetPacketId pk)) \<and> (\<not> h \<longrightarrow> m_sequenceId x < ms_expectedSequenceId s))"
  using assms
proof (induction s m rule: next_msg.induct)
  case (2 s k msg m)
  obtain pk where pk: "GetObject as_request msg = Inr pk" and k: "k = m_sequenceId msg" using 2(5) by (auto simp: has_packet_def)
  have m: "smap_inv m" "\<forall>(k, x) \<in> set m. k = m_sequenceId x \<and> has_packet x" using 2(4,5) by (auto simp: smap_inv_def)
  have f: "smap_insert (m_sequenceId msg) msg m = (m_sequenceId msg, msg) # m" using smap_insert_front[OF 2(4)] k by simp
  let ?p = "GetPacketId pk" and ?q = "m_sequenceId msg" and ?e = "ms_expectedSequenceId s"
  consider (low_old) "?q < ?e" "?p < ms_finishedPacketId s - ucast (?e - 1 - ?q)" | (low) "?q < ?e" "\<not> ?p < ms_finishedPacketId s - ucast (?e - 1 - ?q)"
    | (old) "?q = ?e" "?p < ms_finishedPacketId s" | (now) "?q = ?e" "\<not> ?p < ms_finishedPacketId s" | (late) "?q > ?e" by fastforce
  then show ?case
  proof cases
    case low_old
    then have "next_msg s ((k, msg) # m) = next_msg s m" by (simp add: pk)
    then show ?thesis using 2(2)[OF pk low_old m] by (auto split: prod.splits option.splits)
  next
    case old
    then have "next_msg s ((k, msg) # m) = next_msg s m" by (simp add: pk)
    then show ?thesis using 2(3)[OF pk _ old m] old by (auto split: prod.splits option.splits)
  next
    case late
    then show ?thesis using pk f k 2(4) by auto
  qed (use pk k m in auto)
qed simp

lemma GetMsgFromMap_none:
  assumes "map_ok s" "GetMsgFromMap s = (s', None, h)"
  shows "map_ok s'" "\<not> ready s'"
proof -
  have m: "smap_inv (ms_messageMap s)" "\<forall>(k, x) \<in> set (ms_messageMap s). k = m_sequenceId x \<and> has_packet x"
    using assms(1) by (auto simp: map_ok_def has_packet_def)
  note n = next_msg_spec[OF m, of s, folded GetMsgFromMap_def, unfolded assms(2)]
  have k: "s' = s\<lparr>ms_messageMap := ms_messageMap s'\<rparr>" using GetMsgFromMap_keeps[OF assms(2)] .
  have c: "ms_currentSessionId s' = ms_currentSessionId s" "ms_expectedSequenceId s' = ms_expectedSequenceId s" by (subst k, simp)+
  show ok: "map_ok s'" using n assms(1) c by (auto simp: map_ok_def)
  show "\<not> ready s'"
  proof (cases "ms_messageMap s'")
    case (Cons e r)
    obtain q x where e: "e = (q, x)" by (cases e)
    then have "m_sequenceId x > ms_expectedSequenceId s'" "\<exists>pk. GetObject as_request x = Inr pk" using n Cons ok c by (auto simp: map_ok_def)
    then show ?thesis using Cons e by (auto simp: ready_def GetMsgFromMap_def)
  qed (simp add: ready_def GetMsgFromMap_def)
qed

lemma GetMsgFromMap_some:
  assumes "map_ok s" "GetMsgFromMap s = (s', Some x, h)"
  shows "map_ok s'" "has_packet x" "h \<Longrightarrow> due s' x"
proof -
  have m: "smap_inv (ms_messageMap s)" "\<forall>(k, x) \<in> set (ms_messageMap s). k = m_sequenceId x \<and> has_packet x"
    using assms(1) by (auto simp: map_ok_def has_packet_def)
  note n = next_msg_spec[OF m, of s, folded GetMsgFromMap_def, unfolded assms(2)]
  have k: "s' = s\<lparr>ms_messageMap := ms_messageMap s'\<rparr>" using GetMsgFromMap_keeps[OF assms(2)] .
  have c: "ms_currentSessionId s' = ms_currentSessionId s" "ms_expectedSequenceId s' = ms_expectedSequenceId s"
    "ms_finishedPacketId s' = ms_finishedPacketId s" by (subst k, simp)+
  show "map_ok s'" "has_packet x" using n assms(1) c m by (auto simp: map_ok_def)
  show "due s' x" if h using n assms(1) c that by (auto simp: due_def map_ok_def)
qed

lemma finish_msg_none: "has_packet m \<Longrightarrow> finish_msg c m s \<noteq> None"
  by (auto simp: finish_msg_def has_packet_def Let_def)

lemma finish_msg_ok:
  assumes "map_ok s" "finish_msg c m s = Some s'" shows "map_ok s'"
proof (cases c)
  case True
  then have "ms_messageMap s' = []" using assms(2) by (auto simp: finish_msg_def Let_def ClearMsgMap_def split: sum.splits)
  then show ?thesis by (rule map_ok_clear)
next
  case False
  then have "ms_messageMap s' = ms_messageMap s" "ms_currentSessionId s' = ms_currentSessionId s"
    using assms(2) by (auto simp: finish_msg_def Let_def split: sum.splits)
  then show ?thesis using assms(1) by (rule map_ok_simps(2)[rotated])
qed

lemma map_ok_ops:
  "map_ok s \<Longrightarrow> map_ok (PutMsg m s)" "map_ok s \<Longrightarrow> map_ok (set_working w s)" "map_ok s \<Longrightarrow> map_ok (ResetTimer tm s)"
  "map_ok s \<Longrightarrow> map_ok (StopTimer s)" "map_ok s \<Longrightarrow> map_ok (expire i s)" "map_ok s \<Longrightarrow> f \<in> {StopTimer, ClearMsgQueue, ClearMsgMap} \<Longrightarrow> map_ok (f s)"
  "map_ok s \<Longrightarrow> take_queue s = (q, s') \<Longrightarrow> map_ok s'"
  by (auto simp: PutMsg_def set_working_def expire_def ClearMsgMap_def ClearMsgQueue_def take_queue_def
      intro: map_ok_simps(2) map_ok_clear split: option.splits)

lemma step_packets: "step v y y' \<Longrightarrow> packets_held y \<Longrightarrow> current_peer v y \<Longrightarrow> packets_held y'"
proof (induction rule: step.induct)
  case (old y t)
  then show ?case by (simp add: current_peer_def)
next
  case (last_none y t s)
  then show ?case by (auto simp: current_peer_def)
next
  case (last_some y t s m)
  then show ?case by (auto simp: current_peer_def)
next
  case (none y t s h)
  then show ?case using GetMsgFromMap_none(1) by (auto simp: packets_held_def split: if_splits)
next
  case (some y t s m h)
  then show ?case using GetMsgFromMap_some(1,2) by (auto simp: packets_held_def split: if_splits)
next
  case (finish y t m c s)
  then show ?case using finish_msg_ok by (auto simp: packets_held_def split: if_splits)
next
  case (handled y t m h h' c)
  have "has_packet m" using handled by (simp add: packets_held_def) (metis holding.simps(1))
  then show ?case using handled by (auto simp: packets_held_def split: if_splits)
qed (auto simp: packets_held_def map_ok_ops UpdateMsgMapInner_ok split: if_splits)

text \<open>A thread that moves within, outside, into and out of the part that only one may be in.\<close>

lemma one_working_moves:
  assumes "one_working y" "sy_place y' = (sy_place y)(t := p)"
  shows "critical (sy_place y t) = critical p \<Longrightarrow> ms_isWorking (sy_sched y') = ms_isWorking (sy_sched y) \<Longrightarrow> one_working y'"
    and "\<not> ms_isWorking (sy_sched y) \<Longrightarrow> critical p \<Longrightarrow> ms_isWorking (sy_sched y') \<Longrightarrow> one_working y'"
    and "critical (sy_place y t) \<Longrightarrow> \<not> critical p \<Longrightarrow> \<not> ms_isWorking (sy_sched y') \<Longrightarrow> one_working y'"
  using assms unfolding one_working_def by (auto split: if_splits)

lemma one_working_goto:
  "one_working y \<Longrightarrow> sy_place z = sy_place y \<Longrightarrow> critical (sy_place y t) = critical p \<Longrightarrow>
     ms_isWorking (sy_sched z) = ms_isWorking (sy_sched y) \<Longrightarrow> one_working (goto t p z)"
  by (rule one_working_moves(1)[where y = y and t = t]) simp_all

lemma one_working_same: "one_working y \<Longrightarrow> sy_place y' = sy_place y \<Longrightarrow> ms_isWorking (sy_sched y') = ms_isWorking (sy_sched y) \<Longrightarrow> one_working y'"
  by (simp add: one_working_def)

lemma working_ops [simp]:
  "ms_isWorking (PutMsg m s) = ms_isWorking s" "ms_isWorking (set_working w s) = w" "ms_isWorking (expire i s) = ms_isWorking s"
  "f \<in> {StopTimer, ClearMsgQueue, ClearMsgMap} \<Longrightarrow> ms_isWorking (f s) = ms_isWorking s"
  by (auto simp: PutMsg_def set_working_def expire_def ClearMsgMap_def ClearMsgQueue_def split: option.splits)

lemma take_queue_eq: "take_queue s = (q, s') \<longleftrightarrow> q = ms_msgQueue s \<and> s' = s\<lparr>ms_msgQueue := [], ms_isNeedReload := False\<rparr>"
  by (auto simp: take_queue_def)

lemma step_one_working: "step v y y' \<Longrightarrow> packets_held y \<Longrightarrow> one_working y \<Longrightarrow> current_peer v y \<Longrightarrow> one_working y'"
proof (induction rule: step.induct)
  case (old y t)
  then show ?case by (simp add: current_peer_def)
next
  case (last_none y t s)
  then show ?case by (auto simp: current_peer_def)
next
  case (last_some y t s m)
  then show ?case by (auto simp: current_peer_def)
next
  case (lost y t m c)
  then have "has_packet m" by (simp add: packets_held_def) (metis holding.simps(2))
  then show ?case using lost finish_msg_none by blast
next
  case (none y t s h)
  have "ms_isWorking s = ms_isWorking (sy_sched y)" by (subst GetMsgFromMap_keeps[OF none(2)]) simp
  then show ?case using none by (auto intro!: one_working_goto[of y])
next
  case (some y t s m h)
  have "ms_isWorking s = ms_isWorking (sy_sched y)" by (subst GetMsgFromMap_keeps[OF some(2)]) simp
  then show ?case using some by (auto intro!: one_working_goto[of y])
next
  case (finish y t m c s)
  then show ?case using finish_msg_keeps(1) by (auto intro!: one_working_goto[of y])
next
  case (enter y t)
  then show ?case by (auto intro!: one_working_moves(2)[of y])
next
  case (leave y t)
  then show ?case by (auto intro!: one_working_moves(3)[of y])
next
  case (free y t)
  then show ?case by (auto intro!: one_working_moves(3)[of y])
next
  case (timer y i)
  then show ?case by (auto intro!: one_working_same[of y])
next
  case (clear f y)
  then show ?case by (auto intro!: one_working_same[of y])
next
  case (take_q y t q s)
  then have "ms_isWorking s = ms_isWorking (sy_sched y)" by (simp add: take_queue_eq)
  then show ?case using take_q by (auto intro!: one_working_goto[of y])
qed (erule one_working_goto, simp, simp, simp)+

subsection \<open>Nothing is left behind\<close>

fun going :: "place \<Rightarrow> bool" where
  "going Out = False" | "going Stopping = False" | "going Leaving = False" | "going Checking = False" | "going _ = True"

definition queue_seen :: "system \<Rightarrow> bool" where
  "queue_seen y \<longleftrightarrow> (ms_isNeedReload (sy_sched y) \<longrightarrow> (\<exists>t. sy_place y t \<noteq> Out)) \<and> (ms_msgQueue (sy_sched y) \<noteq> [] \<longrightarrow> ms_isNeedReload (sy_sched y))"

definition map_seen :: "system \<Rightarrow> bool" where
  "map_seen y \<longleftrightarrow> (ready (sy_sched y) \<longrightarrow> (\<exists>t. going (sy_place y t))) \<and> (\<forall>t. sy_place y t \<in> {Stopping, Leaving} \<longrightarrow> \<not> ready (sy_sched y))"

lemma next_msg_cong:
  "ms_expectedSequenceId s' = ms_expectedSequenceId s \<Longrightarrow> ms_finishedPacketId s' = ms_finishedPacketId s \<Longrightarrow> snd (next_msg s' m) = snd (next_msg s m)"
  by (induction s m rule: next_msg.induct) (simp_all split: sum.splits)

lemma ready_cong:
  "ms_messageMap s' = ms_messageMap s \<Longrightarrow> ms_expectedSequenceId s' = ms_expectedSequenceId s \<Longrightarrow>
     ms_finishedPacketId s' = ms_finishedPacketId s \<Longrightarrow> ready s' = ready s"
  using next_msg_cong[of s' s "ms_messageMap s"] by (simp add: ready_def GetMsgFromMap_def)

lemma ready_empty: "ms_messageMap s = [] \<Longrightarrow> \<not> ready s"
  by (simp add: ready_def GetMsgFromMap_def)

lemma ready_ops [simp]:
  "ready (PutMsg m s) = ready s" "ready (set_working w s) = ready s" "ready (ResetTimer tm s) = ready s" "ready (StopTimer s) = ready s"
  "ready (s\<lparr>ms_msgQueue := q, ms_isNeedReload := b\<rparr>) = ready s" "ready (ClearMsgQueue s) = ready s"
  by (rule ready_cong; simp add: PutMsg_def set_working_def ClearMsgQueue_def split: option.splits)+

lemma ready_clear [simp]: "\<not> ready (ClearMsgMap s)"
  by (rule ready_empty) (simp add: ClearMsgMap_def)

lemma ready_expire: "ready (expire i s) \<Longrightarrow> ready s"
  using ready_empty[of "(ClearMsgMap s)\<lparr>ms_timerId := 0\<rparr>"] by (auto simp: expire_def ClearMsgMap_def split: if_splits)

lemma working_other:
  assumes "one_working y" "ms_isWorking (sy_sched y)" "\<not> critical (sy_place y t)"
  obtains t' where "t' \<noteq> t" "critical (sy_place y t')"
  using assms unfolding one_working_def by metis

lemma step_queue: "step v y y' \<Longrightarrow> one_working y \<Longrightarrow> queue_seen y \<Longrightarrow> current_peer v y \<Longrightarrow> queue_seen y'"
proof (induction rule: step.induct)
  case (old y t)
  then show ?case by (simp add: current_peer_def)
next
  case (last_none y t s)
  then show ?case by (auto simp: current_peer_def)
next
  case (last_some y t s m)
  then show ?case by (auto simp: current_peer_def)
next
  case (busy y t)
  then obtain t' where "t' \<noteq> t" "critical (sy_place y t')" using working_other[of y t] by auto
  then have "sy_place y t' \<noteq> Out" "t' \<noteq> t" by auto
  then show ?case using busy by (auto simp: queue_seen_def)
next
  case (none y t s h)
  have "ms_isNeedReload s = ms_isNeedReload (sy_sched y)" "ms_msgQueue s = ms_msgQueue (sy_sched y)" by (subst GetMsgFromMap_keeps[OF none(2)], simp)+
  then show ?case using none by (auto simp: queue_seen_def)
next
  case (some y t s m h)
  have "ms_isNeedReload s = ms_isNeedReload (sy_sched y)" "ms_msgQueue s = ms_msgQueue (sy_sched y)" by (subst GetMsgFromMap_keeps[OF some(2)], simp)+
  then show ?case using some by (auto simp: queue_seen_def)
next
  case (finish y t m c s)
  then show ?case using finish_msg_keeps(2,3)[OF finish(2)] by (auto simp: queue_seen_def)
qed (auto simp: queue_seen_def PutMsg_def set_working_def take_queue_eq IsNeedReloadQueue_def expire_def ClearMsgMap_def ClearMsgQueue_def)

lemma critical_alone: "one_working y \<Longrightarrow> critical (sy_place y t) \<Longrightarrow> critical (sy_place y t') \<Longrightarrow> t' = t"
  by (simp add: one_working_def)

lemma map_seen_going:
  assumes "one_working y" "critical (sy_place y t)" "going p" "sy_place z = sy_place y"
  shows "map_seen (goto t p z)"
proof -
  have "sy_place y t' \<notin> {Stopping, Leaving}" if "t' \<noteq> t" for t' using critical_alone[OF assms(1,2), of t'] that by auto
  then show ?thesis using assms(3,4) by (auto simp: map_seen_def intro!: exI[of _ t])
qed

lemma step_map: "step v y y' \<Longrightarrow> packets_held y \<Longrightarrow> one_working y \<Longrightarrow> map_seen y \<Longrightarrow> current_peer v y \<Longrightarrow> map_seen y'"
proof (induction rule: step.induct)
  case (old y t)
  then show ?case by (simp add: current_peer_def)
next
  case (last_none y t s)
  then show ?case by (auto simp: current_peer_def)
next
  case (last_some y t s m)
  then show ?case by (auto simp: current_peer_def)
next
  case (busy y t)
  then obtain t' where t': "t' \<noteq> t" "critical (sy_place y t')" using working_other[of y t] by auto
  have "going (sy_place y t')" if "ready (sy_sched y)" using t' busy that by (cases "sy_place y t'") (auto simp: map_seen_def)
  then show ?case using t'(1) busy by (auto simp: map_seen_def)
next
  case (none y t s h)
  then show ?case using GetMsgFromMap_none(2) by (auto simp: map_seen_def packets_held_def)
next
  case (lost y t m c)
  then have "has_packet m" by (simp add: packets_held_def) (metis holding.simps(2))
  then show ?case using lost finish_msg_none by blast
next
  case (leave y t)
  then have "\<not> ready (sy_sched y)" by (auto simp: map_seen_def)
  then show ?case by (simp add: map_seen_def)
next
  case (stop y t)
  then have "\<not> ready (sy_sched y)" by (auto simp: map_seen_def)
  then show ?case by (simp add: map_seen_def)
next
  case (finished y t)
  then show ?case by (auto simp: map_seen_def) (metis going.simps(4))
next
  case (timer y i)
  then show ?case using ready_expire by (auto simp: map_seen_def)
next
  case (put y t m)
  then show ?case by (auto simp: map_seen_def intro!: exI[of _ t])
next
  case (enter y t)
  then show ?case by (auto simp: map_seen_def intro!: exI[of _ t])
next
  case (current y t)
  then show ?case by (auto simp: map_seen_def intro!: exI[of _ t])
next
  case (again y t)
  then show ?case by (auto simp: map_seen_def intro!: exI[of _ t])
next
  case (clear f y)
  then show ?case by (auto simp: map_seen_def)
qed (erule map_seen_going, simp, simp, simp)+

subsection \<open>In order\<close>

definition packet_id :: "msg \<Rightarrow> u64" where
  "packet_id m = (case GetObject as_request m of Inl _ \<Rightarrow> 0 | Inr pk \<Rightarrow> GetPacketId pk)"

text \<open>What may follow a completed message: the next of its session, with no smaller packet id, or the first of a session.\<close>

fun follows :: "msg \<times> bool \<Rightarrow> msg \<times> bool \<Rightarrow> bool" where
  "follows (a, cleared) (b, _) \<longleftrightarrow> m_sequenceId b = 1 \<or>
     \<not> cleared \<and> m_sessionId b = m_sessionId a \<and> m_sequenceId b = m_sequenceId a + 1 \<and> packet_id a \<le> packet_id b"

fun linked :: "(msg \<times> bool) list \<Rightarrow> bool" where
  "linked (a # b # r) \<longleftrightarrow> follows a b \<and> linked (b # r)" | "linked _ \<longleftrightarrow> True"

lemma linked_snoc: "linked (xs @ [b]) \<longleftrightarrow> linked xs \<and> (xs \<noteq> [] \<longrightarrow> follows (last xs) b)"
  by (induction xs rule: linked.induct) auto

text \<open>The counters: unchanged, or set for a new session.\<close>

definition counters :: "MessageSchedule \<Rightarrow> u32 \<times> u32 \<times> u64" where
  "counters s = (ms_currentSessionId s, ms_expectedSequenceId s, ms_finishedPacketId s)"

lemma counters_ops [simp]:
  "counters (PutMsg m s) = counters s" "counters (set_working w s) = counters s" "counters (ResetTimer tm s) = counters s"
  "counters (StopTimer s) = counters s" "counters (s\<lparr>ms_msgQueue := q, ms_isNeedReload := b\<rparr>) = counters s"
  "counters (ClearMsgQueue s) = counters s" "counters (ClearMsgMap s) = counters s" "counters (expire i s) = counters s"
  by (simp_all add: counters_def PutMsg_def set_working_def ClearMsgQueue_def ClearMsgMap_def expire_def split: option.splits)

lemma counters_next: "GetMsgFromMap s = (s', r, h) \<Longrightarrow> counters s' = counters s"
  using GetMsgFromMap_keeps[of s s' r h] by (metis counters_def MessageSchedule.ext_inject MessageSchedule.surjective MessageSchedule.update_convs(4))

lemma counters_update: "counters (UpdateMsgMapInner q s) = counters s \<or> ms_expectedSequenceId (UpdateMsgMapInner q s) = 1"
proof (induction q arbitrary: s)
  case (Cons m q)
  have "counters (fst (UpdateMsgMapIfNeed m s)) = counters s \<or> ms_expectedSequenceId (fst (UpdateMsgMapIfNeed m s)) = 1"
    by (simp add: UpdateMsgMapIfNeed_def counters_def ClearMsgMap_def Let_def split: sum.splits option.splits)
  then show ?case using Cons.IH[of "fst (UpdateMsgMapIfNeed m s)"] by (auto simp: counters_def)
qed simp

lemma due_cong: "counters s' = counters s \<Longrightarrow> due s' m = due s m"
  by (simp add: due_def counters_def)

definition held_due :: "system \<Rightarrow> bool" where
  "held_due y \<longleftrightarrow> (\<forall>t m c. sy_place y t = Handling m True \<or> sy_place y t = Finishing m True c \<longrightarrow> due (sy_sched y) m)"

lemma held_due_other:
  assumes "held_due y" "counters (sy_sched z) = counters (sy_sched y)" "sy_place z = sy_place y" "\<And>m c. p \<noteq> Handling m True \<and> p \<noteq> Finishing m True c"
  shows "held_due (goto t p z)"
  using assms due_cong[OF assms(2)] by (auto simp: held_due_def)

lemma held_due_alone:
  assumes "one_working y" "critical (sy_place y t)" "sy_place z = sy_place y"
    and "\<And>m c. p = Handling m True \<or> p = Finishing m True c \<Longrightarrow> due (sy_sched z) m"
  shows "held_due (goto t p z)"
proof -
  have "sy_place y t' \<noteq> Handling m h \<and> sy_place y t' \<noteq> Finishing m h c" if "t' \<noteq> t" for t' m h c
    using critical_alone[OF assms(1,2), of t'] that by auto
  then show ?thesis using assms(3,4) by (auto simp: held_due_def)
qed

lemma step_due: "step v y y' \<Longrightarrow> packets_held y \<Longrightarrow> one_working y \<Longrightarrow> held_due y \<Longrightarrow> current_peer v y \<Longrightarrow> held_due y'"
proof (induction rule: step.induct)
  case (old y t)
  then show ?case by (simp add: current_peer_def)
next
  case (last_none y t s)
  then show ?case by (auto simp: current_peer_def)
next
  case (last_some y t s m)
  then show ?case by (auto simp: current_peer_def)
next
  case (some y t s m h)
  then show ?case using GetMsgFromMap_some(3) by (intro held_due_alone[of y]) (auto simp: packets_held_def)
next
  case (handled y t m h h' c)
  then have "h' \<longrightarrow> due (sy_sched y) m" by (auto simp: held_due_def)
  then show ?case using handled by (intro held_due_alone[of y]) auto
next
  case (timer y i)
  then show ?case using due_cong[of "expire i (sy_sched y)" "sy_sched y"] by (simp add: held_due_def)
next
  case (clear f y)
  then have "counters (f (sy_sched y)) = counters (sy_sched y)" by auto
  then show ?case using due_cong[of "f (sy_sched y)" "sy_sched y"] clear by (simp add: held_due_def)
next
  case (put y t m)
  then show ?case by (intro held_due_other[of y]) auto
next
  case (busy y t)
  then show ?case by (intro held_due_other[of y]) auto
next
  case (enter y t)
  then show ?case by (intro held_due_other[of y]) auto
next
  case (current y t)
  then show ?case by (intro held_due_other[of y]) auto
next
  case (again y t)
  then show ?case by (intro held_due_other[of y]) auto
next
  case (finished y t)
  then show ?case by (intro held_due_other[of y]) auto
qed (erule held_due_alone, simp, simp, simp)+

definition log_ok :: "system \<Rightarrow> bool" where
  "log_ok y \<longleftrightarrow> linked (sy_log y) \<and>
     (case rev (sy_log y) of
        [] \<Rightarrow> True
      | (a, cleared) # _ \<Rightarrow> ms_expectedSequenceId (sy_sched y) = 1 \<or>
          \<not> cleared \<and> counters (sy_sched y) = (m_sessionId a, m_sequenceId a + 1, packet_id a))"

lemma log_ok_same:
  assumes "log_ok y" "sy_log z = sy_log y" "counters (sy_sched z) = counters (sy_sched y) \<or> ms_expectedSequenceId (sy_sched z) = 1"
  shows "log_ok z"
  using assms by (auto simp: log_ok_def counters_def split: list.splits)

lemma log_ok_finish:
  assumes "log_ok y" "due (sy_sched y) m" "finish_msg c m (sy_sched y) = Some s" "sy_log z = sy_log y @ [(m, c)]" "sy_sched z = s"
  shows "log_ok z"
proof -
  obtain pk where pk: "GetObject as_request m = Inr pk" "ms_finishedPacketId (sy_sched y) \<le> GetPacketId pk" and d: "m_sequenceId m = ms_expectedSequenceId (sy_sched y)"
    "m_sessionId m = ms_currentSessionId (sy_sched y)" using assms(2) by (auto simp: due_def)
  have "follows (last (sy_log y)) (m, c)" if "sy_log y \<noteq> []"
  proof -
    obtain l a cl where l: "sy_log y = l @ [(a, cl)]" using \<open>sy_log y \<noteq> []\<close> by (metis old.prod.exhaust rev_exhaust)
    then show ?thesis using assms(1) pk d by (auto simp: log_ok_def counters_def packet_id_def)
  qed
  then have "linked (sy_log z)" using assms(1,4) by (simp add: linked_snoc log_ok_def)
  moreover have "ms_expectedSequenceId s = 1 \<or> \<not> c \<and> counters s = (m_sessionId m, m_sequenceId m + 1, packet_id m)"
    using assms(3) pk(1) d by (auto simp: finish_msg_def counters_def packet_id_def Let_def)
  ultimately show ?thesis using assms(4,5) by (simp add: log_ok_def)
qed

lemma step_log: "step v y y' \<Longrightarrow> held_due y \<Longrightarrow> log_ok y \<Longrightarrow> current_peer v y \<Longrightarrow> log_ok y'"
proof (induction rule: step.induct)
  case (old y t)
  then show ?case by (simp add: current_peer_def)
next
  case (last_none y t s)
  then show ?case by (auto simp: current_peer_def)
next
  case (last_some y t s m)
  then show ?case by (auto simp: current_peer_def)
next
  case (finish y t m c s)
  then have "due (sy_sched y) m" by (auto simp: held_due_def)
  then show ?case using log_ok_finish[OF finish(4) _ finish(2)] by simp
next
  case (none y t s h)
  show ?case by (rule log_ok_same[OF none(4)]) (use counters_next[OF none(2)] in auto)
next
  case (some y t s m h)
  show ?case by (rule log_ok_same[OF some(4)]) (use counters_next[OF some(2)] in auto)
next
  case (update y t q)
  show ?case by (rule log_ok_same[OF update(3)]) (use counters_update in auto)
next
  case (take_q y t q s)
  show ?case by (rule log_ok_same[OF take_q(4)]) (use take_q(2) in \<open>auto simp: take_queue_eq\<close>)
next
  case (clear f y)
  show ?case by (rule log_ok_same[OF clear(3)]) (use clear(1) in auto)
qed (erule log_ok_same, simp, simp)+

subsection \<open>Invariants\<close>

locale preserved =
  fixes move :: "'s \<Rightarrow> 's \<Rightarrow> bool" and start :: 's and good :: "'s \<Rightarrow> bool"
  assumes starts: "good start" and keeps: "good y \<Longrightarrow> move y y' \<Longrightarrow> good y'"
begin

lemma always: "move\<^sup>*\<^sup>* start y \<Longrightarrow> good y"
  by (induction rule: rtranclp_induct) (auto intro: starts keeps)

end

lemma step_not_old: "step v y y' \<Longrightarrow> current_peer v y \<Longrightarrow> sy_place y' t \<noteq> Old"
  by (induction rule: step.induct) (auto simp: current_peer_def)

definition orderly :: "system \<Rightarrow> bool" where
  "orderly y \<longleftrightarrow> (\<forall>t. sy_place y t \<noteq> Old) \<and> packets_held y \<and> one_working y \<and> queue_seen y \<and> map_seen y \<and> held_due y \<and> log_ok y"

interpretation threads: preserved current_step system_init orderly
proof
  show "orderly system_init"
    by (simp add: orderly_def system_init_def MessageSchedule_init_def packets_held_def map_ok_clear one_working_def queue_seen_def
        map_seen_def ready_empty held_due_def log_ok_def)
  show "orderly y'" if y: "orderly y" and st: "current_step y y'" for y y'
  proof -
    obtain v where v: "\<not> v < SOFTWARE_VERSION_RELEASE_3_0" "step v y y'" using st by (auto simp: current_step_def)
    then have c: "current_peer v y" using y by (simp add: orderly_def current_peer_def)
    then show ?thesis using y step_not_old[OF v(2) c] step_packets[OF v(2) _ c] step_one_working[OF v(2) _ _ c] step_queue[OF v(2) _ _ c]
        step_map[OF v(2) _ _ _ c] step_due[OF v(2) _ _ _ c] step_log[OF v(2) _ _ c] by (simp add: orderly_def)
  qed
qed

text \<open>C9. As long as the peer is known to have version 103 or a later one, however the threads interleave, messages are handled one at a
  time and in order: no two threads handle a message at once, and in the sequence of completed messages each is either the first of a
  session or the successor, in the same session and with no smaller packet id, of the one completed before it. Nothing is said of
  runs in which the version is below 103 or not known yet.\<close>

theorem handled_in_order:
  assumes "sched_reachable y"
  shows "linked (sy_log y) \<and> \<not> (\<exists>t t' m m' h h'. t \<noteq> t' \<and> sy_place y t = Handling m h \<and> sy_place y t' = Handling m' h')"
proof -
  have "orderly y" using threads.always assms by (simp add: sched_reachable_def)
  moreover have "t = t'" if "sy_place y t = Handling m h" "sy_place y t' = Handling m' h'" "one_working y" for t t' m m' h h'
    using critical_alone[OF that(3), of t' t] that by simp
  ultimately show ?thesis by (auto simp: orderly_def log_ok_def)
qed

text \<open>C10. As long as the peer is known to have version 103 or a later one, no message is stranded: once every thread has left
  \<^verbatim>\<open>ScheduleMsgAndHandle\<close> the queue is empty, and the map holds no message that is due or could be acknowledged; a thread that
  leaves because another one is working leaves its message to that one.\<close>

theorem nothing_left_behind:
  assumes "sched_reachable y" "\<forall>t. sy_place y t = Out"
  shows "ms_msgQueue (sy_sched y) = [] \<and> fst (snd (GetMsgFromMap (sy_sched y))) = None"
proof -
  have "orderly y" using threads.always assms(1) by (simp add: sched_reachable_def)
  then show ?thesis using assms(2) by (auto simp: orderly_def queue_seen_def map_seen_def ready_def)
qed

text \<open>The restriction to such peers is needed: while the version is below 103, two threads may handle messages at once.\<close>

lemma old_peer_concurrent:
  assumes "v < SOFTWARE_VERSION_RELEASE_3_0"
  shows "\<exists>y. (step v)\<^sup>*\<^sup>* system_init y \<and> sy_place y 0 = Handling a True \<and> sy_place y 1 = Handling b True"
proof -
  have handling: "\<exists>z. (step v)\<^sup>*\<^sup>* y z \<and> sy_place z t = Handling m True \<and> (\<forall>t'. t' \<noteq> t \<longrightarrow> sy_place z t' = sy_place y t') \<and> ms_msgQueue (sy_sched z) = []"
    if "sy_place y t = Out" "ms_msgQueue (sy_sched y) = []" for y t m
  proof -
    define y1 where "y1 = goto t Top (upd (PutMsg (Some m)) y)"
    define y2 where "y2 = goto t Old y1"
    define s where "s = fst (GetLastMsgFromQueue (sy_sched y2))"
    have s: "GetLastMsgFromQueue (sy_sched y2) = (s, Some m)" "ms_msgQueue s = []"
      using that(2) by (simp_all add: s_def y2_def y1_def GetLastMsgFromQueue_def PutMsg_def)
    have "step v y y1" unfolding y1_def by (rule step.put[OF that(1)])
    moreover have "step v y1 y2" unfolding y2_def by (rule step.old[OF _ assms]) (simp add: y1_def)
    moreover have "step v y2 (goto t (Handling m True) (upd (\<lambda>_. s) y2))" by (rule step.last_some[OF _ s(1)]) (simp add: y2_def)
    ultimately have "(step v)\<^sup>*\<^sup>* y (goto t (Handling m True) (upd (\<lambda>_. s) y2))" by (metis rtranclp.simps)
    then show ?thesis using s(2) by (intro exI[of _ "goto t (Handling m True) (upd (\<lambda>_. s) y2)"]) (simp add: y2_def y1_def)
  qed
  obtain y where y: "(step v)\<^sup>*\<^sup>* system_init y" "sy_place y 0 = Handling a True" "\<forall>t. t \<noteq> 0 \<longrightarrow> sy_place y t = Out" "ms_msgQueue (sy_sched y) = []"
    using handling[of system_init 0 a] by (auto simp: system_init_def MessageSchedule_init_def)
  obtain z where "(step v)\<^sup>*\<^sup>* y z" "sy_place z 1 = Handling b True" "sy_place z 0 = Handling a True" using handling[of y 1 b] y(2-4) by auto
  then show ?thesis using y(1) by (meson rtranclp_trans)
qed

section \<open>A thread alone\<close>

text \<open>What the loop does when no other thread intervenes is a run of the threads.\<close>

definition calm :: "(nat \<Rightarrow> iteration) \<Rightarrow> bool" where
  "calm env \<longleftrightarrow> (\<forall>i. it_version (env i) = SOFTWARE_VERSION_CURRENT \<and> it_versionAfter (env i) = SOFTWARE_VERSION_CURRENT \<and>
     it_errCode (env i) = E_OK \<and> \<not> it_waterMarkErr (env i))"

lemma calm_version: "calm env \<Longrightarrow> \<not> it_version (env i) < SOFTWARE_VERSION_RELEASE_3_0 \<and> \<not> it_versionAfter (env i) < SOFTWARE_VERSION_RELEASE_3_0"
  by (simp add: calm_def version_defs)

lemma stepped: "step SOFTWARE_VERSION_CURRENT y y' \<Longrightarrow> current_step y y'"
  by (auto simp: current_step_def version_defs intro!: exI[of _ SOFTWARE_VERSION_CURRENT])

lemma enter_runs:
  assumes "sy_place y t = Top" "\<not> ms_isWorking (sy_sched y)"
  shows "current_step\<^sup>*\<^sup>* y (goto t Mapped (upd (\<lambda>s. UpdateMsgMap (ResetTimer tm (set_working True s))) y))"
proof -
  define y0 where "y0 = goto t New y"
  define y1 where "y1 = goto t Started (upd (set_working True) y0)"
  define y2 where "y2 = goto t Timed (upd (ResetTimer tm) y1)"
  obtain q s where qs: "take_queue (sy_sched y2) = (q, s)" by (cases "take_queue (sy_sched y2)")
  define y3 where "y3 = goto t (Taken q) (upd (\<lambda>_. s) y2)"
  have "current_step y y0" unfolding y0_def by (rule stepped, rule step.current) (simp_all add: assms version_defs)
  moreover have "current_step y0 y1" unfolding y1_def by (rule stepped, rule step.enter) (simp_all add: y0_def assms)
  moreover have "current_step y1 y2" unfolding y2_def by (rule stepped, rule step.reset) (simp add: y1_def)
  moreover have "current_step y2 y3" unfolding y3_def by (rule stepped, rule step.take_q[OF _ qs]) (simp add: y2_def)
  moreover have "current_step y3 (goto t Mapped (upd (UpdateMsgMapInner q) y3))" by (rule stepped, rule step.update) (simp add: y3_def)
  moreover have "goto t Mapped (upd (UpdateMsgMapInner q) y3) = goto t Mapped (upd (\<lambda>s. UpdateMsgMap (ResetTimer tm (set_working True s))) y)"
    using qs by (simp add: y3_def y2_def y1_def y0_def goto_def upd_def UpdateMsgMap_def)
  ultimately show ?thesis by (metis rtranclp.simps)
qed

lemma leave_runs:
  assumes "sy_place y t = Mapped" "GetMsgFromMap (sy_sched y) = (s, None, h)"
  shows "current_step\<^sup>*\<^sup>* y (goto t Checking (upd (\<lambda>_. set_working False (StopTimer s)) y))"
proof -
  define y1 where "y1 = goto t Stopping (upd (\<lambda>_. s) y)"
  define y2 where "y2 = goto t Leaving (upd StopTimer y1)"
  have "current_step y y1" unfolding y1_def by (rule stepped, rule step.none[OF assms])
  moreover have "current_step y1 y2" unfolding y2_def by (rule stepped, rule step.stop) (simp add: y1_def)
  moreover have "current_step y2 (goto t Checking (upd (set_working False) y2))" by (rule stepped, rule step.leave) (simp add: y2_def)
  moreover have "goto t Checking (upd (set_working False) y2) = goto t Checking (upd (\<lambda>_. set_working False (StopTimer s)) y)"
    by (simp add: y2_def y1_def goto_def upd_def)
  ultimately show ?thesis by (metis rtranclp.simps)
qed

definition logged :: "(msg \<times> bool) list \<Rightarrow> (msg \<times> bool) list" where
  "logged d = map (\<lambda>(m, _). (m, False)) (filter snd d)"

lemma deal_runs:
  assumes "sy_place y t = Mapped" "GetMsgFromMap (sy_sched y) = (s, Some m, h)" "has_packet m" "calm env"
  shows "current_step\<^sup>*\<^sup>* y (goto t Top (y\<lparr>sy_sched := dealt (env i) h m s, sy_log := sy_log y @ logged [(m, h)]\<rparr>))"
proof -
  define y1 where "y1 = goto t (Handling m h) (upd (\<lambda>_. s) y)"
  define y2 where "y2 = goto t (Finishing m h False) y1"
  obtain s' where s': "finish_msg False m s = Some s'" using finish_msg_none[OF assms(3), of False s] by auto
  define y3 where "y3 = (if h then goto t Freeing (upd (\<lambda>_. s') (y2\<lparr>sy_log := sy_log y2 @ [(m, False)]\<rparr>)) else goto t Freeing y2)"
  have 1: "current_step y y1" unfolding y1_def by (rule stepped, rule step.some[OF assms(1,2)])
  have 2: "current_step y1 y2" unfolding y2_def by (rule stepped, rule step.handled[where h = h]) (simp_all add: y1_def version_defs)
  have 3: "current_step y2 y3"
  proof (cases h)
    case True
    have "current_step y2 (goto t Freeing (upd (\<lambda>_. s') (y2\<lparr>sy_log := sy_log y2 @ [(m, False)]\<rparr>)))"
      by (rule stepped, rule step.finish) (use True s' in \<open>simp_all add: y2_def y1_def\<close>)
    then show ?thesis using True by (simp add: y3_def)
  next
    case False
    have "current_step y2 (goto t Freeing y2)" by (rule stepped, rule step.unfinished) (use False in \<open>simp_all add: y2_def\<close>)
    then show ?thesis using False by (simp add: y3_def)
  qed
  have 4: "current_step y3 (goto t Top (upd (set_working False) y3))" by (rule stepped, rule step.free) (simp add: y3_def)
  have "dealt (env i) h m s = (if h then set_working False s' else set_working False s)"
    using assms(4) s' calm_version[OF assms(4), of i] by (simp add: dealt_def calm_def ScheduleInfoHandle_def)
  then have "goto t Top (upd (set_working False) y3) = goto t Top (y\<lparr>sy_sched := dealt (env i) h m s, sy_log := sy_log y @ logged [(m, h)]\<rparr>)"
    by (simp add: y3_def y2_def y1_def goto_def upd_def logged_def)
  then show ?thesis using 1 2 3 4 by (metis rtranclp.simps)
qed

definition current_held :: "system \<Rightarrow> bool" where
  "current_held y \<longleftrightarrow> packets_held y \<and> (\<forall>t. sy_place y t \<noteq> Old)"

lemma step_held: "current_step y y' \<Longrightarrow> current_held y \<Longrightarrow> current_held y'"
  using step_packets step_not_old by (fastforce simp: current_step_def current_held_def current_peer_def)

lemma runs_packets: "current_step\<^sup>*\<^sup>* y y' \<Longrightarrow> current_held y \<Longrightarrow> current_held y'"
  by (induction rule: rtranclp_induct) (auto intro: step_held)

lemma iteration_runs:
  assumes "calm env" "sy_place y t = Top" "\<not> ms_isWorking (sy_sched y)" "current_held y"
    and "MoveNextMsg (it_version (env i)) (it_timer (env i)) (True, True) (sy_sched y) = (s, msg, h, c)"
  shows "c \<and> (case msg of
      None \<Rightarrow> current_step\<^sup>*\<^sup>* y (goto t Checking (y\<lparr>sy_sched := s\<rparr>))
    | Some m \<Rightarrow> current_step\<^sup>*\<^sup>* y (goto t Top (y\<lparr>sy_sched := dealt (env i) h m s, sy_log := sy_log y @ logged [(m, h)]\<rparr>)))"
proof -
  define y1 where "y1 = goto t Mapped (upd (\<lambda>s. UpdateMsgMap (ResetTimer (it_timer (env i)) (set_working True s))) y)"
  have r1: "current_step\<^sup>*\<^sup>* y y1" unfolding y1_def by (rule enter_runs[OF assms(2,3)])
  have p1: "sy_place y1 t = Mapped" "current_held y1" using runs_packets[OF r1 assms(4)] by (simp_all add: y1_def)
  obtain s2 r h2 where g: "GetMsgFromMap (sy_sched y1) = (s2, r, h2)" by (cases "GetMsgFromMap (sy_sched y1)") auto
  have m: "MoveNextMsg (it_version (env i)) (it_timer (env i)) (True, True) (sy_sched y) =
      (case r of None \<Rightarrow> (set_working False (StopTimer s2), None, h2, True) | Some m \<Rightarrow> (s2, Some m, h2, True))"
    using assms(3) g calm_version[OF assms(1), of i] by (simp add: MoveNextMsg_def y1_def split: option.splits)
  show ?thesis
  proof (cases r)
    case None
    then have "current_step\<^sup>*\<^sup>* y1 (goto t Checking (upd (\<lambda>_. set_working False (StopTimer s2)) y1))" using leave_runs[OF p1(1)] g by simp
    moreover have "goto t Checking (upd (\<lambda>_. set_working False (StopTimer s2)) y1) = goto t Checking (y\<lparr>sy_sched := s\<rparr>)"
      using m assms(5) None by (simp add: goto_def y1_def upd_def)
    ultimately have "current_step\<^sup>*\<^sup>* y (goto t Checking (y\<lparr>sy_sched := s\<rparr>))" using r1 by (metis rtranclp_trans)
    then show ?thesis using m assms(5) None by simp
  next
    case (Some x)
    have "has_packet x" using GetMsgFromMap_some(2) p1(2) g Some by (auto simp: current_held_def packets_held_def)
    from deal_runs[OF p1(1) g[unfolded Some] this assms(1), of i]
    have "current_step\<^sup>*\<^sup>* y1 (goto t Top (y1\<lparr>sy_sched := dealt (env i) h2 x s2, sy_log := sy_log y1 @ logged [(x, h2)]\<rparr>))" .
    moreover have "goto t Top (y1\<lparr>sy_sched := dealt (env i) h2 x s2, sy_log := sy_log y1 @ logged [(x, h2)]\<rparr>) =
        goto t Top (y\<lparr>sy_sched := dealt (env i) h2 x s2, sy_log := sy_log y @ logged [(x, h2)]\<rparr>)" by (simp add: goto_def y1_def upd_def)
    ultimately have "current_step\<^sup>*\<^sup>* y (goto t Top (y\<lparr>sy_sched := dealt (env i) h2 x s2, sy_log := sy_log y @ logged [(x, h2)]\<rparr>))" using r1 by (metis rtranclp_trans)
    then show ?thesis using m assms(5) Some by simp
  qed
qed

lemma loop_runs:
  assumes "calm env"
  shows "sy_place y t = Top \<Longrightarrow> current_held y \<Longrightarrow> ScheduleLoop fuel env i (sy_sched y) = Some (s', d) \<Longrightarrow>
    current_step\<^sup>*\<^sup>* y (goto t Out (y\<lparr>sy_sched := s', sy_log := sy_log y @ logged d\<rparr>))"
proof (induction fuel arbitrary: y i s' d)
  case (Suc fuel)
  let ?goal = "\<lambda>z s d. current_step\<^sup>*\<^sup>* z (goto t Out (z\<lparr>sy_sched := s, sy_log := sy_log z @ logged d\<rparr>))"
  obtain s msg h c where mv: "MoveNextMsg (it_version (env i)) (it_timer (env i)) (True, True) (sy_sched y) = (s, msg, h, c)" by (metis prod_cases4)
  show ?case
  proof (cases "ms_isWorking (sy_sched y)")
    case True
    then have sd: "s' = sy_sched y" "d = []" using Suc.prems(3) calm_version[OF assms, of i] by (simp_all add: MoveNextMsg_def)
    have "current_step y (goto t New y)" by (rule stepped, rule step.current) (simp_all add: Suc.prems(1) version_defs)
    moreover have "current_step (goto t New y) (goto t Out (goto t New y))" by (rule stepped, rule step.busy) (simp_all add: True)
    moreover have "goto t Out (goto t New y) = goto t Out y" by (simp add: goto_def)
    ultimately have "current_step\<^sup>*\<^sup>* y (goto t Out y)" by (metis rtranclp.simps)
    then show ?thesis unfolding sd by (simp add: goto_def logged_def)
  next
    case False
    note it = iteration_runs[OF assms Suc.prems(1) False Suc.prems(2) mv]
    show ?thesis
    proof (cases msg)
      case None
      define y2 where "y2 = goto t Checking (y\<lparr>sy_sched := s\<rparr>)"
      have r2: "current_step\<^sup>*\<^sup>* y y2" and p2: "sy_place y2 t = Checking" "sy_sched y2 = s" using it None by (simp_all add: y2_def)
      show ?thesis
      proof (cases "IsNeedReloadQueue s")
        case True
        have r3: "current_step y2 (goto t Top y2)" by (rule stepped, rule step.again) (simp_all add: p2 True)
        have "current_held (goto t Top y2)" using step_held[OF r3 runs_packets[OF r2 Suc.prems(2)]] .
        moreover have "ScheduleLoop fuel env (Suc i) s = Some (s', d)" using Suc.prems(3) mv it None True by simp
        ultimately have "?goal (goto t Top y2) s' d" using Suc.IH[of "goto t Top y2" "Suc i" s' d] p2 by simp
        then show ?thesis using r2 r3 by (simp add: goto_def y2_def)
      next
        case False
        have r3: "current_step y2 (goto t Out y2)" by (rule stepped, rule step.finished) (simp_all add: p2 False)
        have "s' = s" "d = []" using Suc.prems(3) mv it None False by simp_all
        then have "goto t Out y2 = goto t Out (y\<lparr>sy_sched := s', sy_log := sy_log y @ logged d\<rparr>)" by (simp add: goto_def y2_def logged_def)
        then show ?thesis using r2 r3 by (metis rtranclp.rtrancl_into_rtrancl)
      qed
    next
      case (Some m)
      define y2 where "y2 = goto t Top (y\<lparr>sy_sched := dealt (env i) h m s, sy_log := sy_log y @ logged [(m, h)]\<rparr>)"
      have r2: "current_step\<^sup>*\<^sup>* y y2" using it Some by (simp add: y2_def)
      obtain d' where d': "ScheduleLoop fuel env (Suc i) (sy_sched y2) = Some (s', d')" "d = (m, h) # d'"
        using Suc.prems(3) mv it Some by (auto simp: y2_def)
      have "?goal y2 s' d'" using Suc.IH[of y2 "Suc i" s' d'] runs_packets[OF r2 Suc.prems(2)] d'(1) by (simp add: y2_def)
      moreover have "goto t Out (y2\<lparr>sy_sched := s', sy_log := sy_log y2 @ logged d'\<rparr>) = goto t Out (y\<lparr>sy_sched := s', sy_log := sy_log y @ logged d\<rparr>)"
        by (simp add: goto_def y2_def d'(2) logged_def)
      ultimately show ?thesis using r2 by (metis rtranclp_trans)
    qed
  qed
qed simp

section \<open>A session that arrives out of order\<close>

text \<open>The messages of one session, the packet id of each given by its sequence id; the same packet may be there more than once.\<close>

definition of_session :: "u32 \<Rightarrow> (u32 \<Rightarrow> u64) \<Rightarrow> msg \<Rightarrow> bool" where
  "of_session sess f m \<longleftrightarrow> m_sessionId m = sess \<and> (\<exists>pk. GetObject as_request m = Inr pk \<and> GetPacketId pk = f (m_sequenceId m))"

definition put_all :: "msg list \<Rightarrow> (u32, msg) smap \<Rightarrow> (u32, msg) smap" where
  "put_all q m = fold (\<lambda>x. smap_insert (m_sequenceId x) x) q m"

definition entries_ok :: "u32 \<Rightarrow> (u32 \<Rightarrow> u64) \<Rightarrow> (u32, msg) smap \<Rightarrow> bool" where
  "entries_ok sess f m \<longleftrightarrow> smap_inv m \<and> (\<forall>(k, x) \<in> set m. k = m_sequenceId x \<and> of_session sess f x)"

lemma entries_ok_insert: "entries_ok sess f m \<Longrightarrow> of_session sess f x \<Longrightarrow> entries_ok sess f (smap_insert (m_sequenceId x) x m)"
  using smap_in_insert[of m _ _ "m_sequenceId x" x] by (auto simp: entries_ok_def smap_inv_insert split: if_splits)

lemma update_in_session:
  assumes "of_session sess f x" "ms_currentSessionId s = sess" "ms_prevSessionId s = 0 \<or> ms_prevSessionId s \<noteq> sess" "entries_ok sess f (ms_messageMap s)"
  shows "fst (UpdateMsgMapIfNeed x s) = s\<lparr>ms_messageMap := smap_insert (m_sequenceId x) x (ms_messageMap s)\<rparr>"
proof -
  obtain pk where pk: "GetObject as_request x = Inr pk" "GetPacketId pk = f (m_sequenceId x)" "m_sessionId x = sess" using assms(1) by (auto simp: of_session_def)
  have "\<exists>c. GetObject as_request y = Inr c \<and> GetPacketId c = f (m_sequenceId x)" if "map_of (ms_messageMap s) (m_sequenceId x) = Some y" for y
    using assms(4) map_of_SomeD[OF that] by (auto simp: entries_ok_def of_session_def)
  then show ?thesis using pk assms(2,3) by (auto simp: UpdateMsgMapIfNeed_def Let_def split: option.splits sum.splits)
qed

lemma update_all_in_session:
  assumes "list_all (of_session sess f) q" "ms_currentSessionId s = sess" "ms_prevSessionId s = 0 \<or> ms_prevSessionId s \<noteq> sess" "entries_ok sess f (ms_messageMap s)"
  shows "UpdateMsgMapInner q s = s\<lparr>ms_messageMap := put_all q (ms_messageMap s)\<rparr>"
  using assms
proof (induction q arbitrary: s)
  case (Cons x q)
  then show ?case using update_in_session[of sess f x s] Cons.IH[of "s\<lparr>ms_messageMap := smap_insert (m_sequenceId x) x (ms_messageMap s)\<rparr>"]
      entries_ok_insert[of sess f "ms_messageMap s" x] by (simp add: put_all_def)
qed (simp add: put_all_def)

lemma update_new_session:
  assumes "list_all (of_session sess f) q" "q \<noteq> []" "ms_currentSessionId s \<noteq> sess" "ms_prevSessionId s = 0 \<or> ms_prevSessionId s \<noteq> sess"
  shows "UpdateMsgMapInner q s = s\<lparr>ms_messageMap := put_all q [], ms_prevSessionId := ms_currentSessionId s, ms_currentSessionId := sess,
    ms_finishedPacketId := 0, ms_expectedSequenceId := 1\<rparr>"
proof -
  obtain x r where q: "q = x # r" using assms(2) by (cases q) auto
  let ?s = "s\<lparr>ms_messageMap := [(m_sequenceId x, x)], ms_prevSessionId := ms_currentSessionId s, ms_currentSessionId := sess,
    ms_finishedPacketId := 0, ms_expectedSequenceId := 1\<rparr>"
  have x: "of_session sess f x" "list_all (of_session sess f) r" using assms(1) q by auto
  then have "fst (UpdateMsgMapIfNeed x s) = ?s" using assms(3,4) by (auto simp: of_session_def UpdateMsgMapIfNeed_def ClearMsgMap_def Let_def)
  moreover have "entries_ok sess f [(m_sequenceId x, x)]" using x(1) by (simp add: entries_ok_def smap_inv_def)
  then have "UpdateMsgMapInner r ?s = ?s\<lparr>ms_messageMap := put_all r [(m_sequenceId x, x)]\<rparr>"
    using update_all_in_session[of sess f r ?s] x(2) assms(3) by simp
  ultimately show ?thesis by (simp add: q put_all_def)
qed

lemma put_all_spec:
  "smap_inv m \<Longrightarrow> smap_inv (put_all q m) \<and> set (map fst (put_all q m)) = m_sequenceId ` set q \<union> set (map fst m)"
  unfolding put_all_def
proof (induction q arbitrary: m)
  case (Cons x q)
  then show ?case using Cons.IH[OF smap_inv_insert[OF Cons.prems], of "m_sequenceId x" x] set_smap_insert_keys[of "m_sequenceId x" x m] by simp
qed simp

lemma put_all_entries: "(k, y) \<in> set (put_all q m) \<Longrightarrow> smap_inv m \<Longrightarrow> (k, y) \<in> set m \<or> y \<in> set q \<and> k = m_sequenceId y"
  unfolding put_all_def
proof (induction q arbitrary: m)
  case (Cons x q)
  then show ?case using Cons.IH[of "smap_insert (m_sequenceId x) x m"] smap_in_insert[OF Cons.prems(2), of k y "m_sequenceId x" x]
    by (auto simp: smap_inv_insert split: if_splits)
qed simp

text \<open>An iteration that finds the expected message first, and one that finds nothing.\<close>

lemma move_due:
  assumes "calm env" "\<not> ms_isWorking s"
    and upd: "\<And>w tid. UpdateMsgMapInner (ms_msgQueue s) (s\<lparr>ms_isWorking := w, ms_timerId := tid, ms_msgQueue := [], ms_isNeedReload := False\<rparr>) = s1\<lparr>ms_isWorking := w, ms_timerId := tid\<rparr>"
    and "ms_messageMap s1 = (k, m) # r" "m_sequenceId m = ms_expectedSequenceId s1" "GetObject as_request m = Inr pk" "ms_finishedPacketId s1 \<le> GetPacketId pk"
  shows "\<exists>tid. ScheduleLoop (Suc fuel) env i s = map_option (\<lambda>(s', d). (s', (m, True) # d)) (ScheduleLoop fuel env (Suc i)
    (s1\<lparr>ms_messageMap := r, ms_finishedPacketId := GetPacketId pk, ms_expectedSequenceId := ms_expectedSequenceId s1 + 1, ms_isWorking := False, ms_timerId := tid\<rparr>))"
proof -
  define tid where "tid = ms_timerId (ResetTimer (it_timer (env i)) s)"
  have rt: "ResetTimer (it_timer (env i)) (set_working True s) = s\<lparr>ms_isWorking := True, ms_timerId := tid\<rparr>"
    by (auto simp: tid_def ResetTimer_def StartTimer_def StopTimer_def set_working_def split: option.splits)
  have u: "UpdateMsgMap (s\<lparr>ms_isWorking := True, ms_timerId := tid\<rparr>) = s1\<lparr>ms_isWorking := True, ms_timerId := tid\<rparr>"
    using upd[where w = True and tid = tid] by (simp add: UpdateMsgMap_def take_queue_def)
  have g: "GetMsgFromMap (s1\<lparr>ms_isWorking := True, ms_timerId := tid\<rparr>) = (s1\<lparr>ms_isWorking := True, ms_timerId := tid, ms_messageMap := r\<rparr>, Some m, True)"
    using assms(4-6) assms(7)[THEN leD] by (simp add: GetMsgFromMap_def)
  have "MoveNextMsg (it_version (env i)) (it_timer (env i)) (True, True) s = (s1\<lparr>ms_isWorking := True, ms_timerId := tid, ms_messageMap := r\<rparr>, Some m, True, True)"
    using calm_version[OF assms(1), of i] assms(2) g by (simp add: MoveNextMsg_def rt u)
  moreover have "dealt (env i) True m (s1\<lparr>ms_isWorking := True, ms_timerId := tid, ms_messageMap := r\<rparr>) =
      s1\<lparr>ms_messageMap := r, ms_finishedPacketId := GetPacketId pk, ms_expectedSequenceId := ms_expectedSequenceId s1 + 1, ms_isWorking := False, ms_timerId := tid\<rparr>"
    using assms(1,6) calm_version[OF assms(1), of i] by (simp add: dealt_def calm_def ScheduleInfoHandle_def finish_msg_def set_working_def)
  ultimately show ?thesis by (intro exI[of _ tid]) simp
qed

lemma move_none:
  assumes "calm env" "\<not> ms_isWorking s" "ms_msgQueue s = []" "ms_messageMap s = []"
  shows "\<exists>s'. ScheduleLoop (Suc fuel) env i s = Some (s', []) \<and> counters s' = counters s \<and> \<not> ms_isWorking s' \<and> ms_msgQueue s' = [] \<and> ms_messageMap s' = []"
proof -
  define s1 where "s1 = ResetTimer (it_timer (env i)) (set_working True s)"
  have "ms_msgQueue s1 = []" "ms_messageMap s1 = []" using assms(3,4) by (simp_all add: s1_def set_working_def)
  then have g: "GetMsgFromMap (UpdateMsgMap s1) = (s1\<lparr>ms_msgQueue := [], ms_isNeedReload := False, ms_messageMap := []\<rparr>, None, True)"
    by (simp add: UpdateMsgMap_def take_queue_def GetMsgFromMap_def)
  let ?s = "set_working False (StopTimer (s1\<lparr>ms_msgQueue := [], ms_isNeedReload := False, ms_messageMap := []\<rparr>))"
  have "MoveNextMsg (it_version (env i)) (it_timer (env i)) (True, True) s = (?s, None, True, True)"
    using calm_version[OF assms(1), of i] assms(2) g by (simp add: MoveNextMsg_def s1_def)
  moreover have "\<not> IsNeedReloadQueue ?s" "ms_msgQueue ?s = []" "ms_messageMap ?s = []" "\<not> ms_isWorking ?s" by (simp_all add: IsNeedReloadQueue_def set_working_def)
  moreover have "counters ?s = counters s" by (simp add: s1_def) (simp add: counters_def set_working_def)
  ultimately show ?thesis by simp
qed

lemma loop_in_order:
  assumes "calm env" "\<not> ms_isWorking s" "ms_msgQueue s = []" "ms_messageMap s = map (\<lambda>m. (m_sequenceId m, m)) ms"
    and "map m_sequenceId ms = map of_nat [k..<k + length ms]" "ms_expectedSequenceId s = of_nat k" "list_all (of_session sess f) ms"
    and "ms \<noteq> [] \<Longrightarrow> ms_finishedPacketId s \<le> f (of_nat k)" "\<And>j. k \<le> j \<Longrightarrow> Suc j < k + length ms \<Longrightarrow> f (of_nat j) \<le> f (of_nat (Suc j))"
  shows "\<exists>s'. ScheduleLoop (Suc (length ms)) env i s = Some (s', map (\<lambda>m. (m, True)) ms) \<and> ms_expectedSequenceId s' = of_nat (k + length ms) \<and>
    ms_currentSessionId s' = ms_currentSessionId s \<and> \<not> ms_isWorking s' \<and> ms_msgQueue s' = [] \<and> ms_messageMap s' = []"
  using assms(2-)
proof (induction ms arbitrary: s k i)
  case Nil
  then show ?case using move_none[OF assms(1), of s 0 i] by (auto simp: counters_def)
next
  case (Cons m ms)
  have "[k..<k + length (m # ms)] = k # [Suc k..<Suc k + length ms]" using upt_conv_Cons[of k "k + length (m # ms)"] by (simp del: upt.simps)
  then have sq: "m_sequenceId m = of_nat k" "map m_sequenceId ms = map of_nat [Suc k..<Suc k + length ms]"
    using Cons.prems(4) by (simp_all del: upt.simps)
  obtain pk where pk: "GetObject as_request m = Inr pk" "GetPacketId pk = f (of_nat k)" using Cons.prems(6) sq(1) by (auto simp: of_session_def)
  let ?s1 = "s\<lparr>ms_isNeedReload := False\<rparr>"
  obtain tid where l: "ScheduleLoop (Suc (length (m # ms))) env i s = map_option (\<lambda>(s', d). (s', (m, True) # d)) (ScheduleLoop (Suc (length ms)) env (Suc i)
      (?s1\<lparr>ms_messageMap := map (\<lambda>m. (m_sequenceId m, m)) ms, ms_finishedPacketId := GetPacketId pk, ms_expectedSequenceId := ms_expectedSequenceId ?s1 + 1,
        ms_isWorking := False, ms_timerId := tid\<rparr>))"
    using move_due[OF assms(1) Cons.prems(1), of ?s1 "of_nat k" m "map (\<lambda>m. (m_sequenceId m, m)) ms" pk "length (m # ms)" i] Cons.prems(2,3,5,7) sq(1) pk by auto
  let ?s2 = "?s1\<lparr>ms_messageMap := map (\<lambda>m. (m_sequenceId m, m)) ms, ms_finishedPacketId := GetPacketId pk, ms_expectedSequenceId := ms_expectedSequenceId ?s1 + 1,
        ms_isWorking := False, ms_timerId := tid\<rparr>"
  have "\<exists>s'. ScheduleLoop (Suc (length ms)) env (Suc i) ?s2 = Some (s', map (\<lambda>m. (m, True)) ms) \<and> ms_expectedSequenceId s' = of_nat (Suc k + length ms) \<and>
    ms_currentSessionId s' = ms_currentSessionId ?s2 \<and> \<not> ms_isWorking s' \<and> ms_msgQueue s' = [] \<and> ms_messageMap s' = []"
  proof (rule Cons.IH)
    show "ms_expectedSequenceId ?s2 = of_nat (Suc k)" using Cons.prems(5) by simp
    show "ms_finishedPacketId ?s2 \<le> f (of_nat (Suc k))" if "ms \<noteq> []" using Cons.prems(8)[of k] that pk(2) by (cases ms) simp_all
    show "f (of_nat j) \<le> f (of_nat (Suc j))" if "Suc k \<le> j" "Suc j < Suc k + length ms" for j using Cons.prems(8)[of j] that by simp
  qed (use Cons.prems sq in \<open>simp_all del: upt.simps\<close>)
  then show ?case using l by auto
qed

lemma update_commutes:
  "UpdateMsgMapInner q (s\<lparr>ms_isWorking := w, ms_timerId := tid\<rparr>) = (UpdateMsgMapInner q s)\<lparr>ms_isWorking := w, ms_timerId := tid\<rparr>"
proof (induction q arbitrary: s)
  case (Cons m q)
  have "fst (UpdateMsgMapIfNeed m (s\<lparr>ms_isWorking := w, ms_timerId := tid\<rparr>)) = (fst (UpdateMsgMapIfNeed m s))\<lparr>ms_isWorking := w, ms_timerId := tid\<rparr>"
    by (simp add: UpdateMsgMapIfNeed_def ClearMsgMap_def Let_def split: sum.splits option.splits)
  then show ?case using Cons.IH by simp
qed simp

text \<open>The loop starts with taking over the queue.\<close>

lemma loop_takes_queue:
  assumes "calm env" "\<not> ms_isWorking s"
  shows "ScheduleLoop fuel env i s = ScheduleLoop fuel env i (UpdateMsgMap s)"
proof (cases fuel)
  case (Suc n)
  let ?R = "\<lambda>s. ResetTimer (it_timer (env i)) (set_working True s)"
  define tid where "tid = ms_timerId (ResetTimer (it_timer (env i)) s)"
  have R: "?R x = x\<lparr>ms_isWorking := True, ms_timerId := tid\<rparr>" if "ms_timerId x = ms_timerId s" for x
    using that by (auto simp: tid_def ResetTimer_def StartTimer_def StopTimer_def set_working_def split: option.splits)
  define u where "u = UpdateMsgMap s"
  have u: "u = UpdateMsgMapInner (ms_msgQueue s) (s\<lparr>ms_msgQueue := [], ms_isNeedReload := False\<rparr>)" by (simp add: u_def UpdateMsgMap_def take_queue_def)
  have k: "ms_timerId u = ms_timerId s" "ms_msgQueue u = []" "\<not> ms_isNeedReload u" "\<not> ms_isWorking u" using assms(2) by (simp_all add: u)
  have x: "s\<lparr>ms_isWorking := True, ms_timerId := tid, ms_msgQueue := [], ms_isNeedReload := False\<rparr> =
      s\<lparr>ms_msgQueue := [], ms_isNeedReload := False, ms_isWorking := True, ms_timerId := tid\<rparr>" by (cases s) simp
  have "UpdateMsgMap (?R s) = UpdateMsgMapInner (ms_msgQueue s) (s\<lparr>ms_isWorking := True, ms_timerId := tid, ms_msgQueue := [], ms_isNeedReload := False\<rparr>)"
    using R[of s] by (simp add: UpdateMsgMap_def take_queue_def)
  also have "\<dots> = u\<lparr>ms_isWorking := True, ms_timerId := tid\<rparr>" unfolding x u by (rule update_commutes)
  finally have 1: "UpdateMsgMap (?R s) = u\<lparr>ms_isWorking := True, ms_timerId := tid\<rparr>" .
  have "UpdateMsgMap (?R u) = u\<lparr>ms_isWorking := True, ms_timerId := tid, ms_msgQueue := [], ms_isNeedReload := False\<rparr>"
    using R[OF k(1)] k(2) by (simp add: UpdateMsgMap_def take_queue_def)
  also have "\<dots> = u\<lparr>ms_isWorking := True, ms_timerId := tid\<rparr>" using k(2,3) by (cases u) simp
  finally have "MoveNextMsg (it_version (env i)) (it_timer (env i)) (True, True) s = MoveNextMsg (it_version (env i)) (it_timer (env i)) (True, True) u"
    using 1 assms(2) k(4) calm_version[OF assms(1), of i] by (simp add: MoveNextMsg_def)
  then show ?thesis using Suc by (simp add: u_def)
qed simp

lemma PutMsg_all: "fold (\<lambda>m. PutMsg (Some m)) q s = s\<lparr>ms_msgQueue := ms_msgQueue s @ q, ms_isNeedReload := ms_isNeedReload s \<or> q \<noteq> []\<rparr>"
  by (induction q arbitrary: s) (simp_all add: PutMsg_def)

lemma numbers_sorted: "n < 4294967296 \<Longrightarrow> sorted_wrt (<) (map of_nat [1..<Suc n] :: u32 list)"
proof -
  assume n: "n < 4294967296"
  have u: "unat (of_nat (Suc i) :: u32) = Suc i" if "i < n" for i using that n by (intro unat_of_nat_eq) simp
  then show ?thesis by (auto simp: sorted_wrt_iff_nth_less word_less_nat_alt simp del: upt.simps of_nat_Suc)
qed

lemma session_in_order:
  assumes "calm env" "\<not> ms_isWorking s" "ms_msgQueue s = []" "sess \<noteq> ms_currentSessionId s" "ms_prevSessionId s = 0 \<or> ms_prevSessionId s \<noteq> sess"
    and "list_all (of_session sess f) q" "m_sequenceId ` set q = of_nat ` {1..n}" "0 < n" "n < 4294967296"
    and "\<forall>j \<in> {1..<n}. f (of_nat j) \<le> f (of_nat (Suc j))"
  shows "\<exists>s' ms. ScheduleLoop (Suc n) env i (fold (\<lambda>m. PutMsg (Some m)) q s) = Some (s', map (\<lambda>m. (m, True)) ms) \<and>
    map m_sequenceId ms = map of_nat [1..<Suc n] \<and> set ms \<subseteq> set q \<and>
    ms_expectedSequenceId s' = of_nat (Suc n) \<and> ms_currentSessionId s' = sess \<and> \<not> ms_isWorking s' \<and> ms_msgQueue s' = [] \<and> ms_messageMap s' = []"
proof -
  define M where "M = put_all q []"
  define ms where "ms = map snd M"
  have ne: "q \<noteq> []" using assms(7,8) by auto
  have M: "smap_inv M" "set (map fst M) = of_nat ` {1..n}" using put_all_spec[of "[]" q] assms(7) by (simp_all add: M_def)
  have e: "k = m_sequenceId y \<and> y \<in> set q" if "(k, y) \<in> set M" for k y using put_all_entries[of k y q "[]"] that by (simp add: M_def)
  have "map fst M = map of_nat [1..<Suc n]"
    by (rule strict_sorted_equal) (use M numbers_sorted[OF assms(9)] in \<open>auto simp: smap_inv_def\<close>)
  moreover have keys: "map fst M = map m_sequenceId ms" "M = map (\<lambda>m. (m_sequenceId m, m)) ms" using e by (auto simp: ms_def intro!: map_idI[symmetric])
  ultimately have sq: "map m_sequenceId ms = map of_nat [1..<Suc n]" by simp
  have len: "length ms = n" using arg_cong[OF sq, of length] by (simp del: upt.simps)
  have sub: "set ms \<subseteq> set q" using e by (auto simp: ms_def)
  have all: "list_all (of_session sess f) ms" using assms(6) sub by (auto simp: list_all_iff)
  define s1 where "s1 = UpdateMsgMap (fold (\<lambda>m. PutMsg (Some m)) q s)"
  have z: "s\<lparr>ms_msgQueue := [], ms_isNeedReload := False\<rparr> = s\<lparr>ms_isNeedReload := False\<rparr>" using assms(3) by (cases s) simp
  have s1: "s1 = s\<lparr>ms_isNeedReload := False, ms_messageMap := M, ms_prevSessionId := ms_currentSessionId s, ms_currentSessionId := sess,
      ms_finishedPacketId := 0, ms_expectedSequenceId := 1\<rparr>"
    using update_new_session[OF assms(6) ne, of "s\<lparr>ms_isNeedReload := False\<rparr>"] assms(3-5) ne by (simp add: s1_def PutMsg_all UpdateMsgMap_def take_queue_def M_def z)
  have lq: "ScheduleLoop (Suc n) env i (fold (\<lambda>m. PutMsg (Some m)) q s) = ScheduleLoop (Suc n) env i s1"
    using loop_takes_queue[OF assms(1), of "fold (\<lambda>m. PutMsg (Some m)) q s"] assms(2) by (simp add: s1_def PutMsg_all)
  have "\<exists>s'. ScheduleLoop (Suc (length ms)) env i s1 = Some (s', map (\<lambda>m. (m, True)) ms) \<and> ms_expectedSequenceId s' = of_nat (1 + length ms) \<and>
      ms_currentSessionId s' = ms_currentSessionId s1 \<and> \<not> ms_isWorking s' \<and> ms_msgQueue s' = [] \<and> ms_messageMap s' = []"
    by (rule loop_in_order[OF assms(1) _ _ _ _ _ all]) (use assms(2,3,10) s1 keys(2) sq len in \<open>auto simp del: upt.simps\<close>)
  then show ?thesis using sq sub s1 lq len by (auto simp del: upt.simps)
qed


text \<open>
  The session id \<open>0\<close> is taken as the one that is current at the start, and no sequence id is expected then: a session whose id is
  \<open>0\<close> is not served if it is the first one. The ids are hash values, and nothing excludes \<open>0\<close>.
\<close>

theorem first_session_zero:
  assumes "m_sessionId m = 0" "m_sequenceId m \<noteq> 0" "GetObject as_request m = Inr pk" "\<not> v < SOFTWARE_VERSION_RELEASE_3_0"
  shows "fst (snd (MoveNextMsg v timer (True, True) (PutMsg (Some m) MessageSchedule_init))) = None"
proof -
  have "\<not> m_sequenceId m < 0" "m_sequenceId m > 0" using assms(2) by (simp_all add: word_neq_0_conv)
  then show ?thesis using assms
    by (simp add: MoveNextMsg_def PutMsg_def MessageSchedule_init_def ResetTimer_def StartTimer_def StopTimer_def set_working_def UpdateMsgMap_def
        take_queue_def UpdateMsgMapIfNeed_def GetMsgFromMap_def split: option.splits)
qed

section \<open>Witnesses\<close>

definition demo_request :: "u32 \<Rightarrow> msg" where
  "demo_request k = (sync_message DATA_SYNC_MESSAGE (DataRequest (DataRequestPacket_init\<lparr>dr_reserved := [ucast k]\<rparr>)))\<lparr>m_sequenceId := k\<rparr>"

definition demo_env :: "nat \<Rightarrow> iteration" where
  "demo_env i = \<lparr>it_version = SOFTWARE_VERSION_CURRENT, it_timer = Some 7, it_errCode = E_OK, it_waterMarkErr = False, it_versionAfter = SOFTWARE_VERSION_CURRENT\<rparr>"

lemma demo_calm: "calm demo_env"
  by (simp add: calm_def demo_env_def)

lemma demo_session: "of_session 3 ucast (demo_request k)" "m_sequenceId (demo_request k) = k"
  by (simp_all add: of_session_def demo_request_def sync_message_def GetObject_def GetPacketId_def)

lemma demo_numbers: "{2 :: u32, 1} = of_nat ` {1..2}" "{1 :: u32, 2} = of_nat ` {1..2}"
  by (auto simp: atLeastAtMost_iff numeral_2_eq_2 atLeastAtMostSuc_conv)

lemma demo_packet_ids: "\<forall>j \<in> {1..<2}. (ucast (of_nat j :: u32) :: u64) \<le> ucast (of_nat (Suc j) :: u32)"
proof -
  have "{1..<2 :: nat} = {1}" by auto
  then show ?thesis by (simp only: ball_simps) (simp add: word_le_nat_alt)
qed


lemma demo_run: "\<exists>y. sched_reachable y \<and> (\<forall>t. sy_place y t = Out) \<and> map (\<lambda>e. m_sequenceId (fst e)) (sy_log y) = [1, 2]"
proof -
  define y1 where "y1 = goto 0 Top (upd (PutMsg (Some (demo_request 2))) system_init)"
  define y2 where "y2 = goto 1 Top (upd (PutMsg (Some (demo_request 1))) y1)"
  have "current_step system_init y1" unfolding y1_def by (rule stepped, rule step.put) (simp add: system_init_def)
  moreover have "current_step y1 y2" unfolding y2_def by (rule stepped, rule step.put) (simp add: y1_def system_init_def)
  ultimately have r2: "current_step\<^sup>*\<^sup>* system_init y2" by simp
  have p: "current_held system_init" by (simp add: current_held_def packets_held_def system_init_def MessageSchedule_init_def map_ok_clear)
  have sc: "sy_sched y2 = fold (\<lambda>m. PutMsg (Some m)) [demo_request 2, demo_request 1] MessageSchedule_init" by (simp add: y2_def y1_def system_init_def)
  have ex: "\<exists>s' ms. ScheduleLoop (Suc 2) demo_env 0 (fold (\<lambda>m. PutMsg (Some m)) [demo_request 2, demo_request 1] MessageSchedule_init) = Some (s', map (\<lambda>m. (m, True)) ms) \<and>
      map m_sequenceId ms = map of_nat [1..<Suc 2] \<and> set ms \<subseteq> set [demo_request 2, demo_request 1] \<and>
      ms_expectedSequenceId s' = of_nat (Suc 2) \<and> ms_currentSessionId s' = 3 \<and> \<not> ms_isWorking s' \<and> ms_msgQueue s' = [] \<and> ms_messageMap s' = []"
  proof (rule session_in_order[OF demo_calm, where f = ucast])
    show "m_sequenceId ` set [demo_request 2, demo_request 1] = of_nat ` {1..2}" using demo_numbers by (auto simp: demo_session)
    show "\<forall>j \<in> {1..<2}. (ucast (of_nat j :: u32) :: u64) \<le> ucast (of_nat (Suc j) :: u32)" by (rule demo_packet_ids)
  qed (simp_all add: MessageSchedule_init_def demo_session)
  have two: "map of_nat [1..<Suc 2] = [1, 2 :: u32]" by (simp add: upt_rec)
  obtain s' ms where l: "ScheduleLoop (Suc 2) demo_env 0 (sy_sched y2) = Some (s', map (\<lambda>m. (m, True)) ms)"
    "map m_sequenceId ms = [1, 2]" "\<not> ms_isWorking s'" "ms_msgQueue s' = []" "ms_messageMap s' = []" using ex unfolding sc[symmetric] two by (elim exE conjE) (rule that; assumption)
  define y3 where "y3 = goto 1 Out (y2\<lparr>sy_sched := s', sy_log := sy_log y2 @ logged (map (\<lambda>m. (m, True)) ms)\<rparr>)"
  have r3: "current_step\<^sup>*\<^sup>* y2 y3" unfolding y3_def by (rule loop_runs[OF demo_calm _ runs_packets[OF r2 p] l(1)]) (simp add: y2_def)
  obtain s'' where s'': "ScheduleLoop (Suc 0) demo_env 0 (sy_sched y3) = Some (s'', [])" using move_none[OF demo_calm l(3-5), of 0 0] by (auto simp: y3_def)
  have "current_step\<^sup>*\<^sup>* y3 (goto 0 Out (y3\<lparr>sy_sched := s'', sy_log := sy_log y3 @ logged []\<rparr>))"
    by (rule loop_runs[OF demo_calm _ runs_packets[OF r3 runs_packets[OF r2 p]] s'']) (simp add: y3_def y2_def y1_def)
  then have "sched_reachable (goto 0 Out (y3\<lparr>sy_sched := s'', sy_log := sy_log y3 @ logged []\<rparr>))"
    using r2 r3 unfolding sched_reachable_def by (metis rtranclp_trans)
  moreover have "map (\<lambda>e. m_sequenceId (fst e)) (logged (map (\<lambda>m. (m, True)) ms)) = map m_sequenceId ms" by (simp add: logged_def filter_map comp_def)
  ultimately show ?thesis using l(2)
    by (intro exI[of _ "goto 0 Out (y3\<lparr>sy_sched := s'', sy_log := sy_log y3 @ logged []\<rparr>)"]) (simp add: y3_def y2_def y1_def system_init_def logged_def)
qed

theorem handled_in_order_witness:
  "\<exists>y :: system. map (\<lambda>e. m_sequenceId (fst e)) (sy_log y) = [1, 2] \<and> linked (sy_log y) \<and>
     \<not> (\<exists>t t' m m' h h'. t \<noteq> t' \<and> sy_place y t = Handling m h \<and> sy_place y t' = Handling m' h')"
proof -
  obtain y where y: "sched_reachable y" "map (\<lambda>e. m_sequenceId (fst e)) (sy_log y) = [1, 2]" using demo_run by (elim exE conjE)
  show ?thesis by (rule exI[of _ y], rule conjI[OF y(2) handled_in_order[OF y(1)]])
qed

theorem nothing_left_behind_witness:
  "\<exists>y :: system. map (\<lambda>e. m_sequenceId (fst e)) (sy_log y) = [1, 2] \<and> ms_msgQueue (sy_sched y) = [] \<and> fst (snd (GetMsgFromMap (sy_sched y))) = None"
proof -
  obtain y where y: "sched_reachable y" "\<forall>t. sy_place y t = Out" "map (\<lambda>e. m_sequenceId (fst e)) (sy_log y) = [1, 2]" using demo_run by (elim exE conjE)
  show ?thesis by (rule exI[of _ y], rule conjI[OF y(3) nothing_left_behind[OF y(1,2)]])
qed

theorem first_session_zero_witness:
  "fst (snd (MoveNextMsg SOFTWARE_VERSION_CURRENT (Some 7) (True, True) (PutMsg (Some ((demo_request 1)\<lparr>m_sessionId := 0\<rparr>)) MessageSchedule_init))) = None"
  by (rule first_session_zero) (simp_all add: demo_request_def sync_message_def GetObject_def version_defs)

end
