(* ===== verification/Subscribe_Manager.thy ===== *)
theory Subscribe_Manager
  imports Query_Sync_Object Std_Map
begin

text \<open>
  \<^verbatim>\<open>syncer/src/subscribe_manager.cpp\<close>: which device has subscribed to which query. A store keeps the
  subscriptions it made at other devices (the local side) and those that other devices made here (the
  remote side); both sides are a map from devices to the state of each of their queries, and a map that
  counts for each query the devices that use it. The maps are shown to implement a plain table of
  subscriptions, with the limits of the code.
\<close>

section \<open>Model\<close>

text \<open>
  The two locks of the class make every operation atomic. The counter of a query never exceeds the number
  of devices and is an unbounded integer. The hash that identifies a query and the byte order of the host
  are the parameters \<open>sha\<close> and \<open>be\<close>.
\<close>

datatype SubscribeStatus = NOT_ACTIVE | ACTIVE

type_synonym SubscribeMap = "(string, (byte list, SubscribeStatus) smap) smap"
type_synonym SubscribedTotalMap = "(byte list, QuerySyncObject \<times> int) smap"

record SubscribeManager =
  localSubscribeMap :: SubscribeMap
  unFinishedLocalAutoSubMap :: "(string, byte list list) smap"
  localSubscribeTotalMap :: SubscribedTotalMap
  remoteSubscribedMap :: SubscribeMap
  remoteSubscribedTotalMap :: SubscribedTotalMap

definition SubscribeManager_init :: SubscribeManager where
  "SubscribeManager_init = \<lparr>localSubscribeMap = [], unFinishedLocalAutoSubMap = [], localSubscribeTotalMap = [],
     remoteSubscribedMap = [], remoteSubscribedTotalMap = []\<rparr>"

definition MAX_SUBSCRIBE_NUM_PER_DEV :: nat where "MAX_SUBSCRIBE_NUM_PER_DEV = 4"
definition MAX_SUBSCRIBE_NUM_PER_DB :: nat where "MAX_SUBSCRIBE_NUM_PER_DB = 8"
definition MAX_DEVICES_NUM :: nat where "MAX_DEVICES_NUM = 32"

subsection \<open>One side\<close>

definition clear_user :: "byte list \<Rightarrow> SubscribedTotalMap \<Rightarrow> SubscribedTotalMap" where
  "clear_user queryId totals =
     (case map_of totals queryId of
        None \<Rightarrow> totals
      | Some (query, num) \<Rightarrow>
          let num = (if num > 0 then num - 1 else num)
          in if num = 0 then smap_erase queryId totals else smap_insert queryId (query, num) totals)"

definition ClearSubscribeQuery :: "string \<Rightarrow> SubscribeMap \<times> SubscribedTotalMap \<Rightarrow> SubscribeMap \<times> SubscribedTotalMap" where
  "ClearSubscribeQuery device = (\<lambda>(subs, totals).
     case map_of subs device of
       None \<Rightarrow> (subs, totals)
     | Some queries \<Rightarrow> (smap_erase device subs, fold (\<lambda>queryInfo. clear_user (fst queryInfo)) queries totals))"

definition ReserveSubscribeQuery ::
  "(byte list \<Rightarrow> byte list option) \<Rightarrow> bool \<Rightarrow> string \<Rightarrow> QuerySyncObject \<Rightarrow> SubscribeMap \<times> SubscribedTotalMap \<Rightarrow>
     (SubscribeMap \<times> SubscribedTotalMap) \<times> errno" where
  "ReserveSubscribeQuery sha be device query = (\<lambda>(subs, totals).
     let queryId = GetIdentify sha be query;
         queries = map_of subs device;
         known = map_of totals queryId
     in if known = None \<and> length totals \<ge> MAX_SUBSCRIBE_NUM_PER_DB then ((subs, totals), E_MAX_LIMITS)
        else if queries = None \<and> length subs \<ge> MAX_DEVICES_NUM then ((subs, totals), E_MAX_LIMITS)
        else if queries \<noteq> None \<and> map_of (the queries) queryId = None \<and> length (the queries) \<ge> MAX_SUBSCRIBE_NUM_PER_DEV
        then ((subs, totals), E_MAX_LIMITS)
        else if queries \<noteq> None \<and> map_of (the queries) queryId = Some ACTIVE then ((subs, totals), E_OK)
        else
          let subs = (if queries = None then smap_insert device [] subs else subs);
              queries = the (map_of subs device);
              isNeedInc = (map_of queries queryId = None);
              subs = (if isNeedInc then smap_insert device (smap_insert queryId NOT_ACTIVE queries) subs else subs);
              totals = (case known of
                         None \<Rightarrow> smap_insert queryId (query, 1) totals
                       | Some (q, num) \<Rightarrow> if isNeedInc then smap_insert queryId (q, num + 1) totals else totals)
          in ((subs, totals), E_OK))"

definition ActiveSubscribeQuery ::
  "string \<Rightarrow> byte list \<Rightarrow> SubscribeMap \<times> SubscribedTotalMap \<Rightarrow> (SubscribeMap \<times> SubscribedTotalMap) \<times> errno" where
  "ActiveSubscribeQuery device queryId = (\<lambda>(subs, totals).
     if map_of totals queryId = None then ((subs, totals), E_INTERNAL_ERROR)
     else case map_of subs device of
       None \<Rightarrow> ((subs, totals), E_INTERNAL_ERROR)
     | Some queries \<Rightarrow>
         if map_of queries queryId = None then ((subs, totals), E_INTERNAL_ERROR)
         else ((smap_insert device (smap_insert queryId ACTIVE queries) subs, totals), E_OK))"

definition drop_user :: "byte list \<Rightarrow> SubscribedTotalMap \<Rightarrow> SubscribedTotalMap" where
  "drop_user queryId totals =
     (case map_of totals queryId of
        None \<Rightarrow> totals
      | Some (query, num) \<Rightarrow>
          if num - 1 \<le> 0 then smap_erase queryId totals else smap_insert queryId (query, num - 1) totals)"

definition DeleteSubscribeQuery ::
  "string \<Rightarrow> byte list \<Rightarrow> SubscribeMap \<times> SubscribedTotalMap \<Rightarrow> SubscribeMap \<times> SubscribedTotalMap" where
  "DeleteSubscribeQuery device queryId = (\<lambda>(subs, totals).
     case map_of subs device of
       None \<Rightarrow> (subs, totals)
     | Some queries \<Rightarrow>
         (case map_of queries queryId of
            None \<Rightarrow> (subs, totals)
          | Some queryStatus \<Rightarrow>
              if queryStatus = ACTIVE then (subs, totals)
              else (smap_insert device (smap_erase queryId queries) subs, drop_user queryId totals)))"

definition RemoveSubscribeQuery ::
  "string \<Rightarrow> byte list \<Rightarrow> SubscribeMap \<times> SubscribedTotalMap \<Rightarrow> SubscribeMap \<times> SubscribedTotalMap" where
  "RemoveSubscribeQuery device queryId = (\<lambda>(subs, totals).
     case map_of subs device of
       None \<Rightarrow> (subs, totals)
     | Some queries \<Rightarrow>
         if map_of queries queryId = None then (subs, totals)
         else (smap_insert device (smap_erase queryId queries) subs, drop_user queryId totals))"

definition GetSubscribeQueries :: "string \<Rightarrow> SubscribeMap \<times> SubscribedTotalMap \<Rightarrow> QuerySyncObject list" where
  "GetSubscribeQueries device = (\<lambda>(subs, totals).
     case map_of subs device of
       None \<Rightarrow> []
     | Some queries \<Rightarrow> List.map_filter (\<lambda>queryInfo. map_option fst (map_of totals (fst queryInfo))) queries)"

subsection \<open>The manager\<close>

definition local_side :: "SubscribeManager \<Rightarrow> SubscribeMap \<times> SubscribedTotalMap" where
  "local_side m = (localSubscribeMap m, localSubscribeTotalMap m)"

definition remote_side :: "SubscribeManager \<Rightarrow> SubscribeMap \<times> SubscribedTotalMap" where
  "remote_side m = (remoteSubscribedMap m, remoteSubscribedTotalMap m)"

definition set_local :: "SubscribeMap \<times> SubscribedTotalMap \<Rightarrow> SubscribeManager \<Rightarrow> SubscribeManager" where
  "set_local side m = m\<lparr>localSubscribeMap := fst side, localSubscribeTotalMap := snd side\<rparr>"

definition set_remote :: "SubscribeMap \<times> SubscribedTotalMap \<Rightarrow> SubscribeManager \<Rightarrow> SubscribeManager" where
  "set_remote side m = m\<lparr>remoteSubscribedMap := fst side, remoteSubscribedTotalMap := snd side\<rparr>"

definition ClearRemoteSubscribeQuery :: "string \<Rightarrow> SubscribeManager \<Rightarrow> SubscribeManager" where
  "ClearRemoteSubscribeQuery device m = set_remote (ClearSubscribeQuery device (remote_side m)) m"

definition ClearAllRemoteQuery :: "SubscribeManager \<Rightarrow> SubscribeManager" where
  "ClearAllRemoteQuery m = m\<lparr>remoteSubscribedMap := [], remoteSubscribedTotalMap := []\<rparr>"

definition ClearLocalSubscribeQuery :: "string \<Rightarrow> SubscribeManager \<Rightarrow> SubscribeManager" where
  "ClearLocalSubscribeQuery device m =
     (let m = m\<lparr>unFinishedLocalAutoSubMap := smap_erase device (unFinishedLocalAutoSubMap m)\<rparr>
      in set_local (ClearSubscribeQuery device (local_side m)) m)"

definition ReserveRemoteSubscribeQuery ::
  "(byte list \<Rightarrow> byte list option) \<Rightarrow> bool \<Rightarrow> string \<Rightarrow> QuerySyncObject \<Rightarrow> SubscribeManager \<Rightarrow> SubscribeManager \<times> errno" where
  "ReserveRemoteSubscribeQuery sha be device query m =
     (let (side, errCode) = ReserveSubscribeQuery sha be device query (remote_side m) in (set_remote side m, errCode))"

definition ActiveRemoteSubscribeQuery ::
  "(byte list \<Rightarrow> byte list option) \<Rightarrow> bool \<Rightarrow> string \<Rightarrow> QuerySyncObject \<Rightarrow> SubscribeManager \<Rightarrow> SubscribeManager \<times> errno" where
  "ActiveRemoteSubscribeQuery sha be device query m =
     (let queryId = GetIdentify sha be query;
          (side, errCode) = ActiveSubscribeQuery device queryId (remote_side m)
      in (set_remote side m, errCode))"

definition ReserveLocalSubscribeQuery ::
  "(byte list \<Rightarrow> byte list option) \<Rightarrow> bool \<Rightarrow> string \<Rightarrow> QuerySyncObject \<Rightarrow> SubscribeManager \<Rightarrow> SubscribeManager \<times> errno" where
  "ReserveLocalSubscribeQuery sha be device query m =
     (let (side, errCode) = ReserveSubscribeQuery sha be device query (local_side m) in (set_local side m, errCode))"

definition ActiveLocalSubscribeQuery ::
  "(byte list \<Rightarrow> byte list option) \<Rightarrow> bool \<Rightarrow> string \<Rightarrow> QuerySyncObject \<Rightarrow> SubscribeManager \<Rightarrow> SubscribeManager \<times> errno" where
  "ActiveLocalSubscribeQuery sha be device query m =
     (let queryId = GetIdentify sha be query;
          (side, errCode) = ActiveSubscribeQuery device queryId (local_side m);
          m = set_local side m
      in if errCode \<noteq> E_OK then (m, errCode)
         else case map_of (unFinishedLocalAutoSubMap m) device of
           None \<Rightarrow> (m, errCode)
         | Some ids \<Rightarrow>
             (if queryId \<in> set ids
              then m\<lparr>unFinishedLocalAutoSubMap := smap_insert device (remove1 queryId ids) (unFinishedLocalAutoSubMap m)\<rparr>
              else m, errCode))"

definition DeleteLocalSubscribeQuery ::
  "(byte list \<Rightarrow> byte list option) \<Rightarrow> bool \<Rightarrow> string \<Rightarrow> QuerySyncObject \<Rightarrow> SubscribeManager \<Rightarrow> SubscribeManager" where
  "DeleteLocalSubscribeQuery sha be device query m =
     set_local (DeleteSubscribeQuery device (GetIdentify sha be query) (local_side m)) m"

definition DeleteRemoteSubscribeQuery ::
  "(byte list \<Rightarrow> byte list option) \<Rightarrow> bool \<Rightarrow> string \<Rightarrow> QuerySyncObject \<Rightarrow> SubscribeManager \<Rightarrow> SubscribeManager" where
  "DeleteRemoteSubscribeQuery sha be device query m =
     set_remote (DeleteSubscribeQuery device (GetIdentify sha be query) (remote_side m)) m"

text \<open>A \<^verbatim>\<open>std::set\<close> of identifiers is kept as the increasing list of its elements.\<close>

definition PutLocalUnFiniedSubQueries ::
  "(byte list \<Rightarrow> byte list option) \<Rightarrow> bool \<Rightarrow> string \<Rightarrow> QuerySyncObject list \<Rightarrow> SubscribeManager \<Rightarrow> SubscribeManager" where
  "PutLocalUnFiniedSubQueries sha be device subscribeQueries m =
     m\<lparr>unFinishedLocalAutoSubMap :=
         (if length subscribeQueries = 0 then smap_erase device (unFinishedLocalAutoSubMap m)
          else smap_insert device (fold (\<lambda>query. insort_insert (GetIdentify sha be query)) subscribeQueries [])
                 (unFinishedLocalAutoSubMap m))\<rparr>"

definition GetAllUnFinishSubQueries :: "SubscribeManager \<Rightarrow> (string, QuerySyncObject list) smap \<Rightarrow> (string, QuerySyncObject list) smap" where
  "GetAllUnFinishSubQueries m allSyncQueries =
     fold (\<lambda>item allSyncQueries.
             if length (snd item) = 0 then allSyncQueries
             else smap_insert (fst item)
                    (List.map_filter (\<lambda>queryId. map_option fst (map_of (localSubscribeTotalMap m) queryId)) (snd item))
                    allSyncQueries)
       (unFinishedLocalAutoSubMap m) allSyncQueries"

definition RemoveRemoteSubscribeQuery ::
  "(byte list \<Rightarrow> byte list option) \<Rightarrow> bool \<Rightarrow> string \<Rightarrow> QuerySyncObject \<Rightarrow> SubscribeManager \<Rightarrow> SubscribeManager" where
  "RemoveRemoteSubscribeQuery sha be device query m =
     set_remote (RemoveSubscribeQuery device (GetIdentify sha be query) (remote_side m)) m"

definition RemoveLocalSubscribeQuery ::
  "(byte list \<Rightarrow> byte list option) \<Rightarrow> bool \<Rightarrow> string \<Rightarrow> QuerySyncObject \<Rightarrow> SubscribeManager \<Rightarrow> SubscribeManager" where
  "RemoveLocalSubscribeQuery sha be device query m =
     (let queryId = GetIdentify sha be query;
          m = set_local (RemoveSubscribeQuery device queryId (local_side m)) m
      in case map_of (unFinishedLocalAutoSubMap m) device of
           None \<Rightarrow> m
         | Some ids \<Rightarrow>
             if queryId \<in> set ids
             then (let ids = remove1 queryId ids
                   in m\<lparr>unFinishedLocalAutoSubMap :=
                          (if length ids = 0 then smap_erase device (unFinishedLocalAutoSubMap m)
                           else smap_insert device ids (unFinishedLocalAutoSubMap m))\<rparr>)
             else m)"

definition GetLocalSubscribeQueries :: "string \<Rightarrow> SubscribeManager \<Rightarrow> QuerySyncObject list" where
  "GetLocalSubscribeQueries device m = GetSubscribeQueries device (local_side m)"

definition GetRemoteSubscribeQueries :: "string \<Rightarrow> SubscribeManager \<Rightarrow> QuerySyncObject list" where
  "GetRemoteSubscribeQueries device m = GetSubscribeQueries device (remote_side m)"

definition IsRemoteContainSubscribe ::
  "(byte list \<Rightarrow> byte list option) \<Rightarrow> bool \<Rightarrow> string \<Rightarrow> QuerySyncObject \<Rightarrow> SubscribeManager \<Rightarrow> bool" where
  "IsRemoteContainSubscribe sha be device query m =
     (case map_of (remoteSubscribedMap m) device of
        None \<Rightarrow> False
      | Some queries \<Rightarrow> map_of queries (GetIdentify sha be query) \<noteq> None)"

definition GetRemoteSubscribeQueryIds :: "string \<Rightarrow> SubscribeManager \<Rightarrow> byte list list" where
  "GetRemoteSubscribeQueryIds device m =
     (case map_of (remoteSubscribedMap m) device of
        None \<Rightarrow> []
      | Some queries \<Rightarrow>
          List.map_filter (\<lambda>queryInfo. if map_of (remoteSubscribedTotalMap m) (fst queryInfo) = None then None
             else Some (fst queryInfo)) queries)"

fun count_devices :: "SubscribeMap \<Rightarrow> nat \<Rightarrow> string list \<Rightarrow> bool" where
  "count_devices subs devNum [] = True"
| "count_devices subs devNum (device # devices) =
     (if map_of subs device \<noteq> None then count_devices subs devNum devices
      else if devNum + 1 > MAX_DEVICES_NUM then False else count_devices subs (devNum + 1) devices)"

definition LocalSubscribeLimitCheck ::
  "(byte list \<Rightarrow> byte list option) \<Rightarrow> bool \<Rightarrow> string list \<Rightarrow> QuerySyncObject \<Rightarrow> SubscribeManager \<Rightarrow> errno" where
  "LocalSubscribeLimitCheck sha be devices query m =
     (if \<not> count_devices (localSubscribeMap m) (length (localSubscribeMap m)) devices then E_MAX_LIMITS
      else if map_of (localSubscribeTotalMap m) (GetIdentify sha be query) = None
              \<and> length (localSubscribeTotalMap m) \<ge> MAX_SUBSCRIBE_NUM_PER_DB then E_MAX_LIMITS
      else E_OK)"

section \<open>The counters and the limits\<close>

definition status :: "SubscribeMap \<Rightarrow> string \<Rightarrow> byte list \<Rightarrow> SubscribeStatus option" where
  "status subs d q = (case map_of subs d of None \<Rightarrow> None | Some queries \<Rightarrow> map_of queries q)"

definition users :: "SubscribeMap \<Rightarrow> byte list \<Rightarrow> string set" where
  "users subs q = {d. status subs d q \<noteq> None}"

fun counted :: "(byte list \<Rightarrow> byte list option) \<Rightarrow> bool \<Rightarrow> (QuerySyncObject \<times> int) option \<Rightarrow> byte list \<Rightarrow> string set \<Rightarrow> bool" where
  "counted sha be None q U = (U = {})"
| "counted sha be (Some (query, num)) q U = (finite U \<and> U \<noteq> {} \<and> num = int (card U) \<and> GetIdentify sha be query = q)"

definition shaped :: "SubscribeMap \<Rightarrow> bool" where
  "shaped subs \<longleftrightarrow> smap_inv subs \<and> length subs \<le> MAX_DEVICES_NUM \<and>
     (\<forall>d queries. map_of subs d = Some queries \<longrightarrow> smap_inv queries \<and> length queries \<le> MAX_SUBSCRIBE_NUM_PER_DEV)"

definition side_inv :: "(byte list \<Rightarrow> byte list option) \<Rightarrow> bool \<Rightarrow> SubscribeMap \<times> SubscribedTotalMap \<Rightarrow> bool" where
  "side_inv sha be = (\<lambda>(subs, totals). shaped subs \<and> smap_inv totals \<and> length totals \<le> MAX_SUBSCRIBE_NUM_PER_DB \<and>
     (\<forall>q. counted sha be (map_of totals q) q (users subs q)))"

lemma shaped_map: "shaped subs \<Longrightarrow> smap_inv subs"
  by (simp add: shaped_def)

lemma shaped_queries: "shaped subs \<Longrightarrow> map_of subs d = Some queries \<Longrightarrow> smap_inv queries \<and> length queries \<le> MAX_SUBSCRIBE_NUM_PER_DEV"
  by (simp add: shaped_def)

lemma side_invD:
  assumes "side_inv sha be (subs, totals)"
  shows "shaped subs" "smap_inv totals" "length totals \<le> MAX_SUBSCRIBE_NUM_PER_DB" "counted sha be (map_of totals q) q (users subs q)"
  using assms by (simp_all add: side_inv_def)

lemma finite_users: "finite (users subs q)"
proof (rule finite_subset)
  show "users subs q \<subseteq> dom (map_of subs)" by (auto simp: users_def status_def split: option.splits)
qed (simp add: finite_dom_map_of)

lemma status_insert:
  assumes "smap_inv subs"
  shows "status (smap_insert d queries subs) = (status subs)(d := map_of queries)"
  using assms by (auto simp: fun_eq_iff status_def map_of_smap_insert)

lemma status_erase: "status (smap_erase d subs) = (status subs)(d := Map.empty)"
  by (auto simp: fun_eq_iff status_def map_of_smap_erase)

lemma status_of: "map_of subs d = Some queries \<Longrightarrow> status subs d = map_of queries"
  "map_of subs d = None \<Longrightarrow> status subs d = Map.empty"
  by (simp_all add: fun_eq_iff status_def)

lemma shaped_insert:
  assumes "shaped subs" "smap_inv queries" "length queries \<le> MAX_SUBSCRIBE_NUM_PER_DEV"
    "map_of subs d \<noteq> None \<or> length subs < MAX_DEVICES_NUM"
  shows "shaped (smap_insert d queries subs)"
  using assms by (auto simp: shaped_def map_of_smap_insert length_smap_insert smap_inv_insert split: if_splits)

lemma length_erase: "length (smap_erase k m) \<le> length m"
  by (simp add: smap_erase_def)

lemma shaped_erase: "shaped subs \<Longrightarrow> shaped (smap_erase d subs)"
  using length_erase[of d subs] by (auto simp: shaped_def smap_inv_erase map_of_smap_erase split: if_splits)

lemma counted_Some: "counted sha be (Some x) q U \<Longrightarrow> snd x = int (card U) \<and> 0 < snd x"
  by (cases x) (simp add: card_gt_0_iff)

lemma counted_gain:
  assumes "counted sha be (Some (query, num)) q U" "d \<notin> U"
  shows "counted sha be (Some (query, num + 1)) q (insert d U)"
  using assms by simp

text \<open>Taking one device off the users of a query, as the three ways to end a subscription do.\<close>

lemma clear_user_eq:
  assumes "counted sha be (map_of totals q) q U"
  shows "clear_user q totals = drop_user q totals"
  using assms counted_Some[of sha be _ q U] by (force simp: clear_user_def drop_user_def split: option.splits)

lemma drop_user_find:
  assumes "smap_inv totals"
  shows "smap_inv (drop_user q totals)" "q' \<noteq> q \<Longrightarrow> map_of (drop_user q totals) q' = map_of totals q'"
    "length (drop_user q totals) \<le> length totals"
  using assms length_erase[of q totals]
  by (auto simp: drop_user_def smap_inv_insert smap_inv_erase map_of_smap_insert map_of_smap_erase length_smap_insert split: option.splits)

lemma drop_user_counted:
  assumes t: "smap_inv totals" and c: "counted sha be (map_of totals q) q U" and d: "d \<in> U"
  shows "counted sha be (map_of (drop_user q totals) q) q (U - {d})"
proof -
  obtain query num where s: "map_of totals q = Some (query, num)" using c d by (cases "map_of totals q") auto
  have u: "finite U" "num = int (card U)" "GetIdentify sha be query = q" using c by (simp_all add: s)
  have e: "U - {d} = {} \<longleftrightarrow> card U \<le> 1" using u(1) d card_Diff_singleton[OF d] by (metis card_0_eq diff_is_0_eq finite_Diff)
  have "int (card U) - 1 = int (card (U - {d}))" using u(1) d card_gt_0_iff[of U] by (simp add: of_nat_diff) (metis One_nat_def Suc_leI empty_iff of_nat_1 of_nat_diff)
  then show ?thesis using e u t by (auto simp: drop_user_def s map_of_smap_insert map_of_smap_erase)
qed

lemma clear_users:
  assumes "smap_inv totals" "distinct (map fst queries)" "\<And>q. counted sha be (map_of totals q) q (U q)"
    "\<And>q. q \<in> fst ` set queries \<Longrightarrow> d \<in> U q"
  shows "smap_inv (fold (\<lambda>x. clear_user (fst x)) queries totals)
    \<and> length (fold (\<lambda>x. clear_user (fst x)) queries totals) \<le> length totals
    \<and> counted sha be (map_of (fold (\<lambda>x. clear_user (fst x)) queries totals) q) q (if q \<in> fst ` set queries then U q - {d} else U q)"
  using assms
proof (induction queries arbitrary: totals U)
  case (Cons x queries)
  let ?k = "fst x" and ?t = "drop_user (fst x) totals"
  define V where "V = U(?k := U ?k - {d})"
  have c: "clear_user ?k totals = ?t" using Cons.prems(3) by (rule clear_user_eq)
  have "counted sha be (map_of ?t q) q (V q)" for q
    using drop_user_counted[OF Cons.prems(1), of sha be ?k "U ?k" d] drop_user_find(2)[OF Cons.prems(1), of q ?k] Cons.prems(3,4)
    by (cases "q = ?k") (simp_all add: V_def)
  moreover have "d \<in> V q" if "q \<in> fst ` set queries" for q using that Cons.prems(2,4) by (cases "q = ?k") (simp_all add: V_def)
  moreover note drop_user_find(1,3)[OF Cons.prems(1), of ?k]
  moreover have "distinct (map fst queries)" using Cons.prems(2) by simp
  ultimately have ih: "smap_inv (fold (\<lambda>x. clear_user (fst x)) queries ?t)
    \<and> length (fold (\<lambda>x. clear_user (fst x)) queries ?t) \<le> length totals
    \<and> counted sha be (map_of (fold (\<lambda>x. clear_user (fst x)) queries ?t) q) q (if q \<in> fst ` set queries then V q - {d} else V q)"
    using Cons.IH[of ?t V] by (meson le_trans)
  have "(if q \<in> fst ` set queries then V q - {d} else V q) = (if q \<in> fst ` set (x # queries) then U q - {d} else U q)"
    using Cons.prems(2) by (cases "q = ?k") (simp_all add: V_def)
  then show ?case using ih by (simp add: c del: image_insert)
qed simp

section \<open>The table of subscriptions\<close>

text \<open>
  What a side promises: a table with the state of every subscription, and the devices that have ever
  been admitted and not been cleared. There are no counters: a query is in use while some device has
  subscribed to it.
\<close>

type_synonym sub_table = "string set \<times> (string \<Rightarrow> byte list \<Rightarrow> SubscribeStatus option)"

definition used :: "sub_table \<Rightarrow> byte list set" where
  "used t = {q. \<exists>d. snd t d q \<noteq> None}"

definition set_status :: "string \<Rightarrow> byte list \<Rightarrow> SubscribeStatus option \<Rightarrow> sub_table \<Rightarrow> sub_table" where
  "set_status d q s t = (fst t, (snd t)(d := (snd t d)(q := s)))"

definition refuses :: "string \<Rightarrow> byte list \<Rightarrow> sub_table \<Rightarrow> bool" where
  "refuses d q t \<longleftrightarrow>
     q \<notin> used t \<and> card (used t) \<ge> MAX_SUBSCRIBE_NUM_PER_DB \<or>
     d \<notin> fst t \<and> card (fst t) \<ge> MAX_DEVICES_NUM \<or>
     d \<in> fst t \<and> snd t d q = None \<and> card (dom (snd t d)) \<ge> MAX_SUBSCRIBE_NUM_PER_DEV"

definition table_reserve :: "string \<Rightarrow> byte list \<Rightarrow> sub_table \<Rightarrow> sub_table \<times> errno" where
  "table_reserve d q t =
     (if refuses d q t then (t, E_MAX_LIMITS)
      else ((insert d (fst t), snd (set_status d q (Some (case snd t d q of None \<Rightarrow> NOT_ACTIVE | Some s \<Rightarrow> s)) t)), E_OK))"

definition table_active :: "string \<Rightarrow> byte list \<Rightarrow> sub_table \<Rightarrow> sub_table \<times> errno" where
  "table_active d q t = (if snd t d q = None then (t, E_INTERNAL_ERROR) else (set_status d q (Some ACTIVE) t, E_OK))"

definition table_delete :: "string \<Rightarrow> byte list \<Rightarrow> sub_table \<Rightarrow> sub_table" where
  "table_delete d q t = (if snd t d q = Some ACTIVE then t else set_status d q None t)"

definition table_remove :: "string \<Rightarrow> byte list \<Rightarrow> sub_table \<Rightarrow> sub_table" where
  "table_remove d q t = set_status d q None t"

definition table_clear :: "string \<Rightarrow> sub_table \<Rightarrow> sub_table" where
  "table_clear d t = (fst t - {d}, (snd t)(d := Map.empty))"

definition table_of :: "SubscribeMap \<times> SubscribedTotalMap \<Rightarrow> sub_table" where
  "table_of side = (dom (map_of (fst side)), status (fst side))"

lemma table_of_simps [simp]: "fst (table_of (subs, totals)) = dom (map_of subs)" "snd (table_of (subs, totals)) = status subs"
  by (simp_all add: table_of_def)

lemma card_dom: "smap_inv m \<Longrightarrow> card (dom (map_of m)) = length m"
  using distinct_card[OF smap_inv_distinct[of m]] by (simp add: dom_map_of_conv_image_fst)

lemma used_of: 
  assumes "side_inv sha be (subs, totals)"
  shows "used (table_of (subs, totals)) = dom (map_of totals)"
proof -
  have "(\<exists>d. status subs d q \<noteq> None) \<longleftrightarrow> map_of totals q \<noteq> None" for q
    using side_invD(4)[OF assms, of q] by (cases "map_of totals q") (auto simp: users_def)
  then show ?thesis by (auto simp: used_def)
qed

lemma refuses_of:
  assumes "side_inv sha be (subs, totals)"
  shows "refuses d q (table_of (subs, totals)) \<longleftrightarrow>
     map_of totals q = None \<and> length totals \<ge> MAX_SUBSCRIBE_NUM_PER_DB \<or>
     map_of subs d = None \<and> length subs \<ge> MAX_DEVICES_NUM \<or>
     (\<exists>queries. map_of subs d = Some queries \<and> map_of queries q = None \<and> length queries \<ge> MAX_SUBSCRIBE_NUM_PER_DEV)"
proof (cases "map_of subs d")
  case (Some queries)
  have "card (dom (map_of queries)) = length queries" using shaped_queries[OF side_invD(1)[OF assms] Some] by (simp add: card_dom)
  then show ?thesis using Some card_dom[OF side_invD(2)[OF assms]] by (simp add: refuses_def used_of[OF assms] status_of(1)[OF Some] domIff del: not_None_eq)
qed (use card_dom[OF side_invD(2)[OF assms]] card_dom[OF shaped_map[OF side_invD(1)[OF assms]]] in
     \<open>simp add: refuses_def used_of[OF assms] domIff del: not_None_eq\<close>)

lemma in_users: "d \<in> users subs q \<longleftrightarrow> status subs d q \<noteq> None"
  by (simp add: users_def)

lemma users_update:
  assumes "status subs' = (status subs)(d := (status subs d)(q := s))"
  shows "users subs' q' = (if q' = q then (if s = None then users subs q - {d} else insert d (users subs q)) else users subs q')"
  using assms by (auto simp: users_def)

lemma status_put:
  assumes "smap_inv subs" "map_of subs d = Some queries" "smap_inv queries"
  shows "status (smap_insert d (smap_insert q s queries) subs) = (status subs)(d := (status subs d)(q := Some s))"
    "status (smap_insert d (smap_erase q queries) subs) = (status subs)(d := (status subs d)(q := None))"
  using assms by (simp_all add: status_insert status_of map_of_smap_insert map_of_smap_erase)

lemma dom_put: "smap_inv subs \<Longrightarrow> dom (map_of (smap_insert d x subs)) = insert d (dom (map_of subs))"
  by (simp add: map_of_smap_insert)

subsection \<open>Every operation of a side is the operation of the table\<close>

lemma side_inv_nil: "side_inv sha be ([], [])"
  by (simp add: side_inv_def shaped_def users_def status_def)

lemma ActiveSubscribeQuery_table:
  assumes inv: "side_inv sha be side"
  shows "side_inv sha be (fst (ActiveSubscribeQuery d q side))
    \<and> map_prod table_of id (ActiveSubscribeQuery d q side) = table_active d q (table_of side)"
proof -
  obtain subs totals where side: "side = (subs, totals)" by (cases side)
  note i = side_invD[OF inv[unfolded side]]
  have none: "map_of totals q \<noteq> None" if "status subs d q \<noteq> None"
    using that i(4)[of q] in_users[of d subs q] by (cases "map_of totals q") auto
  show ?thesis
  proof (cases "map_of subs d")
    case (Some queries)
    note w = shaped_queries[OF i(1) Some] and u = status_put(1)[OF shaped_map[OF i(1)] Some, of q ACTIVE]
    show ?thesis
    proof (cases "map_of queries q")
      case (Some s)
      let ?subs = "smap_insert d (smap_insert q ACTIVE queries) subs"
      have "shaped ?subs" using w Some \<open>map_of subs d = _\<close> by (intro shaped_insert[OF i(1)]) (simp_all add: smap_inv_insert length_smap_insert)
      moreover have "users ?subs q' = users subs q'" for q'
        using users_update[OF u] w in_users[of d subs q] Some \<open>map_of subs d = _\<close> by (auto simp: status_of)
      ultimately have "side_inv sha be (?subs, totals)" using i by (simp add: side_inv_def)
      then show ?thesis using none Some \<open>map_of subs d = _\<close> u w shaped_map[OF i(1)]
        by (auto simp: side ActiveSubscribeQuery_def table_active_def table_of_def set_status_def status_of dom_put)
    qed (use inv \<open>map_of subs d = _\<close> in \<open>simp add: side ActiveSubscribeQuery_def table_active_def status_of\<close>)
  qed (use inv in \<open>simp add: side ActiveSubscribeQuery_def table_active_def status_of\<close>)
qed

lemma drop_subscription:
  assumes inv: "side_inv sha be (subs, totals)" and q: "map_of subs d = Some queries" "map_of queries q \<noteq> None"
  shows "side_inv sha be (smap_insert d (smap_erase q queries) subs, drop_user q totals)
    \<and> table_of (smap_insert d (smap_erase q queries) subs, drop_user q totals) = set_status d q None (table_of (subs, totals))"
proof -
  let ?subs = "smap_insert d (smap_erase q queries) subs"
  note i = side_invD[OF inv] and t = drop_user_find[OF side_invD(2)[OF inv]]
  note w = shaped_queries[OF i(1) q(1)]
  have u: "status ?subs = (status subs)(d := (status subs d)(q := None))" using status_put(2)[OF shaped_map[OF i(1)] q(1)] w by blast
  have "d \<in> users subs q" using q by (simp add: in_users status_of)
  then have "counted sha be (map_of (drop_user q totals) q') q' (users ?subs q')" for q'
    using users_update[OF u, of q'] i(4)[of q'] drop_user_counted[OF i(2,4), of d q] t(2)[of q' q] by (cases "q' = q") simp_all
  moreover have "shaped ?subs" using w q length_erase[of q queries] by (intro shaped_insert[OF i(1)]) (simp_all add: smap_inv_erase)
  ultimately have "side_inv sha be (?subs, drop_user q totals)" using le_trans[OF t(3) i(3)] t(1) by (simp add: side_inv_def)
  then show ?thesis using u q dom_put[OF shaped_map[OF i(1)]] by (auto simp: table_of_def set_status_def insert_absorb)
qed

lemma set_status_same: "snd t d q = s \<Longrightarrow> set_status d q s t = t"
  by (cases t) (auto simp: set_status_def)

lemma DeleteSubscribeQuery_table:
  assumes "side_inv sha be side"
  shows "side_inv sha be (DeleteSubscribeQuery d q side) \<and> table_of (DeleteSubscribeQuery d q side) = table_delete d q (table_of side)"
proof -
  obtain subs totals where side: "side = (subs, totals)" by (cases side)
  have "status subs d q = (case map_of subs d of None \<Rightarrow> None | Some queries \<Rightarrow> map_of queries q)" by (simp add: status_def)
  then show ?thesis using assms drop_subscription[of sha be subs totals d _ q]
    by (auto simp: side DeleteSubscribeQuery_def table_delete_def set_status_same split: option.splits)
qed

lemma RemoveSubscribeQuery_table:
  assumes "side_inv sha be side"
  shows "side_inv sha be (RemoveSubscribeQuery d q side) \<and> table_of (RemoveSubscribeQuery d q side) = table_remove d q (table_of side)"
proof -
  obtain subs totals where side: "side = (subs, totals)" by (cases side)
  have "status subs d q = (case map_of subs d of None \<Rightarrow> None | Some queries \<Rightarrow> map_of queries q)" by (simp add: status_def)
  then show ?thesis using assms drop_subscription[of sha be subs totals d _ q]
    by (auto simp: side RemoveSubscribeQuery_def table_remove_def set_status_same split: option.splits)
qed

lemma ClearSubscribeQuery_table:
  assumes inv: "side_inv sha be side"
  shows "side_inv sha be (ClearSubscribeQuery d side) \<and> table_of (ClearSubscribeQuery d side) = table_clear d (table_of side)"
proof -
  obtain subs totals where side: "side = (subs, totals)" by (cases side)
  note i = side_invD[OF inv[unfolded side]]
  show ?thesis
  proof (cases "map_of subs d")
    case (Some queries)
    let ?subs = "smap_erase d subs" and ?totals = "fold (\<lambda>x. clear_user (fst x)) queries totals"
    have w: "smap_inv queries" using shaped_queries[OF i(1) Some] by simp
    have k: "q \<in> fst ` set queries \<longleftrightarrow> d \<in> users subs q" for q
      by (simp add: in_users status_of(1)[OF Some] map_of_eq_None_iff)
    note c = clear_users[OF i(2) smap_inv_distinct[OF w], of sha be "users subs" d]
    have "users ?subs q = (if q \<in> fst ` set queries then users subs q - {d} else users subs q)" for q
      unfolding k by (auto simp: users_def status_erase)
    then have "counted sha be (map_of ?totals q) q (users ?subs q)" for q using c[of q] i(4) k by simp
    moreover have "smap_inv ?totals \<and> length ?totals \<le> length totals" using c i(4) k by blast
    ultimately have "side_inv sha be (?subs, ?totals)" using i(3) shaped_erase[OF i(1), of d] by (simp add: side_inv_def)
    then show ?thesis using Some by (auto simp: side ClearSubscribeQuery_def table_clear_def table_of_def status_erase map_of_smap_erase)
  qed (use inv in \<open>auto simp: side ClearSubscribeQuery_def table_clear_def table_of_def status_of fun_upd_idem\<close>)
qed

definition admitted :: "string \<Rightarrow> SubscribeMap \<Rightarrow> SubscribeMap" where
  "admitted d subs = (if map_of subs d = None then smap_insert d [] subs else subs)"

lemma admitted_facts:
  assumes "shaped subs" "map_of subs d \<noteq> None \<or> length subs < MAX_DEVICES_NUM"
  shows "shaped (admitted d subs)" "status (admitted d subs) = status subs"
    "dom (map_of (admitted d subs)) = insert d (dom (map_of subs))"
    "map_of (admitted d subs) d = Some (case map_of subs d of None \<Rightarrow> [] | Some queries \<Rightarrow> queries)"
proof -
  show "shaped (admitted d subs)" using assms shaped_insert[of subs "[]" d] by (auto simp: admitted_def)
  have "(status subs)(d := Map.empty) = status subs" if "map_of subs d = None" using status_of(2)[OF that] by auto
  then show "status (admitted d subs) = status subs" using assms by (auto simp: admitted_def status_insert shaped_def)
qed (use assms in \<open>auto simp: admitted_def shaped_def map_of_smap_insert insert_absorb domIff split: option.splits\<close>)

lemma gain_subscription:
  assumes inv: "side_inv sha be (subs, totals)" and q: "map_of subs d = Some queries" "map_of queries q = None" "q = GetIdentify sha be query"
    and room: "length queries < MAX_SUBSCRIBE_NUM_PER_DEV" "map_of totals q \<noteq> None \<or> length totals < MAX_SUBSCRIBE_NUM_PER_DB"
    and n: "n = (case map_of totals q of None \<Rightarrow> (query, 1) | Some (o', num) \<Rightarrow> (o', num + 1))"
  shows "side_inv sha be (smap_insert d (smap_insert q NOT_ACTIVE queries) subs, smap_insert q n totals)"
proof -
  let ?subs = "smap_insert d (smap_insert q NOT_ACTIVE queries) subs"
  note i = side_invD[OF inv] and w = shaped_queries[OF side_invD(1)[OF inv] q(1)]
  have u: "status ?subs = (status subs)(d := (status subs d)(q := Some NOT_ACTIVE))" using status_put(1)[OF shaped_map[OF i(1)] q(1)] w by blast
  have d: "d \<notin> users subs q" using q by (simp add: in_users status_of)
  have "counted sha be (Some n) q (insert d (users subs q))"
  proof (cases "map_of totals q")
    case None
    then show ?thesis using i(4)[of q] n q(3) by simp
  next
    case (Some x)
    then show ?thesis using i(4)[of q] n d counted_gain[of sha be "fst x" "snd x" q "users subs q" d] by (cases x) simp
  qed
  then have "counted sha be (map_of (smap_insert q n totals) q') q' (users ?subs q')" for q'
    using users_update[OF u, of q'] i(4)[of q'] i(2) by (cases "q' = q") (simp_all add: map_of_smap_insert)
  moreover have "shaped ?subs" using w q room by (intro shaped_insert[OF i(1)]) (simp_all add: smap_inv_insert length_smap_insert)
  ultimately show ?thesis using i(2,3) room(2) by (auto simp: side_inv_def smap_inv_insert length_smap_insert)
qed

lemma ReserveSubscribeQuery_admits:
  assumes "\<not> refuses d (GetIdentify sha be query) (table_of (subs, totals))" "side_inv sha be (subs, totals)"
    "q = GetIdentify sha be query" "status subs d q \<noteq> Some ACTIVE"
    "queries = (case map_of subs d of None \<Rightarrow> [] | Some queries \<Rightarrow> queries)"
  shows "ReserveSubscribeQuery sha be d query (subs, totals) =
    ((if map_of queries q = None then smap_insert d (smap_insert q NOT_ACTIVE queries) (admitted d subs) else admitted d subs,
      case map_of totals q of None \<Rightarrow> smap_insert q (query, 1) totals
        | Some (o', num) \<Rightarrow> if map_of queries q = None then smap_insert q (o', num + 1) totals else totals), E_OK)"
proof -
  have r: "\<not> (map_of totals q = None \<and> length totals \<ge> MAX_SUBSCRIBE_NUM_PER_DB)"
    "\<not> (map_of subs d = None \<and> length subs \<ge> MAX_DEVICES_NUM)"
    "\<not> (map_of subs d \<noteq> None \<and> map_of (the (map_of subs d)) q = None \<and> length (the (map_of subs d)) \<ge> MAX_SUBSCRIBE_NUM_PER_DEV)"
    "\<not> (map_of subs d \<noteq> None \<and> map_of (the (map_of subs d)) q = Some ACTIVE)"
    using assms(1,3,4) by (auto simp: refuses_of[OF assms(2)] status_def)
  have a: "map_of (admitted d subs) d = Some queries" using admitted_facts(4)[OF side_invD(1)[OF assms(2)], of d] r(2) by (simp add: assms(5) linorder_not_le del: not_None_eq)
  show ?thesis unfolding ReserveSubscribeQuery_def Let_def prod.case assms(3)[symmetric] if_not_P[OF r(1)] if_not_P[OF r(2)]
    if_not_P[OF r(3)] if_not_P[OF r(4)] admitted_def[symmetric] a option.sel by (rule refl)
qed

lemma ReserveSubscribeQuery_table:
  assumes inv: "side_inv sha be side"
  shows "side_inv sha be (fst (ReserveSubscribeQuery sha be d query side))
    \<and> map_prod table_of id (ReserveSubscribeQuery sha be d query side) = table_reserve d (GetIdentify sha be query) (table_of side)"
proof -
  obtain subs totals where side: "side = (subs, totals)" by (cases side)
  define q where "q = GetIdentify sha be query"
  note i = side_invD[OF inv[unfolded side]] and ro = refuses_of[OF inv[unfolded side], of d q]
  consider "refuses d q (table_of side)" | "\<not> refuses d q (table_of side)" "status subs d q = Some ACTIVE"
    | "\<not> refuses d q (table_of side)" "status subs d q \<noteq> Some ACTIVE" by blast
  then show ?thesis
  proof cases
    case 1
    then have "ReserveSubscribeQuery sha be d query side = (side, E_MAX_LIMITS)"
      unfolding side ro by (auto simp: ReserveSubscribeQuery_def Let_def q_def simp del: not_None_eq)
    then show ?thesis using inv 1 by (simp add: table_reserve_def q_def)
  next
    case 2
    obtain queries where s: "map_of subs d = Some queries" "map_of queries q = Some ACTIVE"
      using 2(2) by (auto simp: status_def split: option.splits)
    then have "ReserveSubscribeQuery sha be d query side = (side, E_OK)"
      using 2(1) unfolding side ro by (auto simp: ReserveSubscribeQuery_def Let_def q_def)
    then show ?thesis using inv 2 s set_status_same[of "table_of side" d q "Some ACTIVE"]
      by (auto simp: table_reserve_def q_def[symmetric] side table_of_def insert_absorb domIff)
  next
    case 3
    define queries where "queries = (case map_of subs d of None \<Rightarrow> [] | Some queries \<Rightarrow> queries)"
    have room: "map_of subs d \<noteq> None \<or> length subs < MAX_DEVICES_NUM" "map_of totals q \<noteq> None \<or> length totals < MAX_SUBSCRIBE_NUM_PER_DB"
      "map_of queries q = None \<Longrightarrow> length queries < MAX_SUBSCRIBE_NUM_PER_DEV"
      using 3(1) unfolding side ro by (auto simp: queries_def MAX_SUBSCRIBE_NUM_PER_DEV_def split: option.splits)
    note e = ReserveSubscribeQuery_admits[OF 3(1)[unfolded side q_def] inv[unfolded side] q_def 3(2) queries_def]
    note a = admitted_facts[OF i(1) room(1)]
    have m: "map_of (admitted d subs) d = Some queries" using a(4) by (simp add: queries_def)
    have ia: "side_inv sha be (admitted d subs, totals)" using i a by (simp add: side_inv_def users_def)
    have w: "smap_inv queries" using shaped_queries[OF a(1) m] by simp
    have st: "status subs d q = map_of queries q" by (simp add: status_def queries_def split: option.splits)
    show ?thesis
    proof (cases "map_of queries q")
      case None
      have "side_inv sha be (fst (ReserveSubscribeQuery sha be d query side))"
        using gain_subscription[OF ia m None q_def room(3)[OF None] room(2) refl] None
        by (cases "map_of totals q") (auto simp: side e)
      then show ?thesis using 3 None st a dom_put[OF shaped_map[OF a(1)]] status_put(1)[OF shaped_map[OF a(1)] m w]
        by (simp add: table_reserve_def q_def[symmetric] side e table_of_def set_status_def)
    next
      case (Some s)
      then have k: "map_of totals q \<noteq> None" using i(4)[of q] in_users[of d subs q] st by (cases "map_of totals q") auto
      then have "ReserveSubscribeQuery sha be d query side = ((admitted d subs, totals), E_OK)" using Some by (auto simp: side e)
      then show ?thesis using 3 Some st ia a set_status_same[of "table_of side" d q "Some s"]
        by (simp add: table_reserve_def q_def[symmetric] side table_of_def)
    qed
  qed
qed

section \<open>The manager\<close>

text \<open>The calls that change a manager, in any order, and what they report.\<close>

datatype command =
    ClearRemote string | ClearAllRemote | ClearLocal string
  | ReserveRemote string QuerySyncObject | ActiveRemote string QuerySyncObject
  | ReserveLocal string QuerySyncObject | ActiveLocal string QuerySyncObject
  | DeleteLocal string QuerySyncObject | DeleteRemote string QuerySyncObject
  | PutUnFinished string "QuerySyncObject list"
  | RemoveRemote string QuerySyncObject | RemoveLocal string QuerySyncObject

fun handle :: "(byte list \<Rightarrow> byte list option) \<Rightarrow> bool \<Rightarrow> command \<Rightarrow> SubscribeManager \<Rightarrow> SubscribeManager \<times> errno" where
  "handle sha be (ClearRemote d) m = (ClearRemoteSubscribeQuery d m, E_OK)"
| "handle sha be ClearAllRemote m = (ClearAllRemoteQuery m, E_OK)"
| "handle sha be (ClearLocal d) m = (ClearLocalSubscribeQuery d m, E_OK)"
| "handle sha be (ReserveRemote d q) m = ReserveRemoteSubscribeQuery sha be d q m"
| "handle sha be (ActiveRemote d q) m = ActiveRemoteSubscribeQuery sha be d q m"
| "handle sha be (ReserveLocal d q) m = ReserveLocalSubscribeQuery sha be d q m"
| "handle sha be (ActiveLocal d q) m = ActiveLocalSubscribeQuery sha be d q m"
| "handle sha be (DeleteLocal d q) m = (DeleteLocalSubscribeQuery sha be d q m, E_OK)"
| "handle sha be (DeleteRemote d q) m = (DeleteRemoteSubscribeQuery sha be d q m, E_OK)"
| "handle sha be (PutUnFinished d qs) m = (PutLocalUnFiniedSubQueries sha be d qs m, E_OK)"
| "handle sha be (RemoveRemote d q) m = (RemoveRemoteSubscribeQuery sha be d q m, E_OK)"
| "handle sha be (RemoveLocal d q) m = (RemoveLocalSubscribeQuery sha be d q m, E_OK)"

fun handle_all :: "(byte list \<Rightarrow> byte list option) \<Rightarrow> bool \<Rightarrow> command list \<Rightarrow> SubscribeManager \<Rightarrow> SubscribeManager \<times> errno list" where
  "handle_all sha be [] m = (m, [])"
| "handle_all sha be (c # cs) m = (let (m, e) = handle sha be c m; (m, es) = handle_all sha be cs m in (m, e # es))"

text \<open>The same calls on the two tables and on the sets of queries that still have to be subscribed to.\<close>

record tables =
  made :: sub_table
  received :: sub_table
  pending :: "string \<Rightarrow> byte list set option"

definition no_subscription :: tables where
  "no_subscription = \<lparr>made = ({}, \<lambda>_. Map.empty), received = ({}, \<lambda>_. Map.empty), pending = Map.empty\<rparr>"

fun table_handle :: "(byte list \<Rightarrow> byte list option) \<Rightarrow> bool \<Rightarrow> command \<Rightarrow> tables \<Rightarrow> tables \<times> errno" where
  "table_handle sha be (ClearRemote d) t = (t\<lparr>received := table_clear d (received t)\<rparr>, E_OK)"
| "table_handle sha be ClearAllRemote t = (t\<lparr>received := ({}, \<lambda>_. Map.empty)\<rparr>, E_OK)"
| "table_handle sha be (ClearLocal d) t = (t\<lparr>made := table_clear d (made t), pending := (pending t)(d := None)\<rparr>, E_OK)"
| "table_handle sha be (ReserveRemote d q) t = (let (r, e) = table_reserve d (GetIdentify sha be q) (received t) in (t\<lparr>received := r\<rparr>, e))"
| "table_handle sha be (ActiveRemote d q) t = (let (r, e) = table_active d (GetIdentify sha be q) (received t) in (t\<lparr>received := r\<rparr>, e))"
| "table_handle sha be (ReserveLocal d q) t = (let (r, e) = table_reserve d (GetIdentify sha be q) (made t) in (t\<lparr>made := r\<rparr>, e))"
| "table_handle sha be (ActiveLocal d q) t =
     (let (r, e) = table_active d (GetIdentify sha be q) (made t)
      in (t\<lparr>made := r, pending := (if e = E_OK then (pending t)(d := map_option (\<lambda>ids. ids - {GetIdentify sha be q}) (pending t d)) else pending t)\<rparr>, e))"
| "table_handle sha be (DeleteLocal d q) t = (t\<lparr>made := table_delete d (GetIdentify sha be q) (made t)\<rparr>, E_OK)"
| "table_handle sha be (DeleteRemote d q) t = (t\<lparr>received := table_delete d (GetIdentify sha be q) (received t)\<rparr>, E_OK)"
| "table_handle sha be (PutUnFinished d qs) t =
     (t\<lparr>pending := (pending t)(d := if qs = [] then None else Some (GetIdentify sha be ` set qs))\<rparr>, E_OK)"
| "table_handle sha be (RemoveRemote d q) t = (t\<lparr>received := table_remove d (GetIdentify sha be q) (received t)\<rparr>, E_OK)"
| "table_handle sha be (RemoveLocal d q) t =
     (t\<lparr>made := table_remove d (GetIdentify sha be q) (made t),
        pending := (pending t)(d := case pending t d of None \<Rightarrow> None
          | Some ids \<Rightarrow> if ids = {GetIdentify sha be q} then None else Some (ids - {GetIdentify sha be q}))\<rparr>, E_OK)"

fun table_handle_all :: "(byte list \<Rightarrow> byte list option) \<Rightarrow> bool \<Rightarrow> command list \<Rightarrow> tables \<Rightarrow> tables \<times> errno list" where
  "table_handle_all sha be [] t = (t, [])"
| "table_handle_all sha be (c # cs) t = (let (t, e) = table_handle sha be c t; (t, es) = table_handle_all sha be cs t in (t, e # es))"

definition tables_of :: "SubscribeManager \<Rightarrow> tables" where
  "tables_of m = \<lparr>made = table_of (local_side m), received = table_of (remote_side m),
     pending = \<lambda>d. map_option set (map_of (unFinishedLocalAutoSubMap m) d)\<rparr>"

definition manager_inv :: "(byte list \<Rightarrow> byte list option) \<Rightarrow> bool \<Rightarrow> SubscribeManager \<Rightarrow> bool" where
  "manager_inv sha be m \<longleftrightarrow> side_inv sha be (local_side m) \<and> side_inv sha be (remote_side m) \<and> smap_inv (unFinishedLocalAutoSubMap m)
     \<and> (\<forall>d ids. map_of (unFinishedLocalAutoSubMap m) d = Some ids \<longrightarrow> sorted ids \<and> distinct ids)"

lemma side_simps [simp]:
  "local_side (set_local s m) = s" "local_side (set_remote s m) = local_side m"
  "remote_side (set_remote s m) = s" "remote_side (set_local s m) = remote_side m"
  "unFinishedLocalAutoSubMap (set_local s m) = unFinishedLocalAutoSubMap m"
  "unFinishedLocalAutoSubMap (set_remote s m) = unFinishedLocalAutoSubMap m"
  "local_side (m\<lparr>unFinishedLocalAutoSubMap := u\<rparr>) = local_side m" "remote_side (m\<lparr>unFinishedLocalAutoSubMap := u\<rparr>) = remote_side m"
  by (simp_all add: local_side_def remote_side_def set_local_def set_remote_def)

lemma unfinished_ids:
  "set (fold (\<lambda>query. insort_insert (GetIdentify sha be query)) qs ids) = GetIdentify sha be ` set qs \<union> set ids"
  "sorted ids \<Longrightarrow> sorted (fold (\<lambda>query. insort_insert (GetIdentify sha be query)) qs ids)"
  "distinct ids \<Longrightarrow> distinct (fold (\<lambda>query. insort_insert (GetIdentify sha be query)) qs ids)"
  by (induction qs arbitrary: ids) (auto simp: set_insort_insert sorted_insort_insert distinct_insort_insert)

lemma table_of_nil: "table_of ([], []) = ({}, \<lambda>_. Map.empty)"
  by (simp add: table_of_def status_def fun_eq_iff)

lemma manager_invD:
  assumes "manager_inv sha be m"
  shows "side_inv sha be (local_side m)" "side_inv sha be (remote_side m)" "smap_inv (unFinishedLocalAutoSubMap m)"
    "map_of (unFinishedLocalAutoSubMap m) d = Some ids \<Longrightarrow> sorted ids \<and> distinct ids"
  using assms by (simp_all add: manager_inv_def)

lemma manager_inv_local:
  "manager_inv sha be m \<Longrightarrow> side_inv sha be s \<Longrightarrow> manager_inv sha be (set_local s m) \<and> tables_of (set_local s m) = (tables_of m)\<lparr>made := table_of s\<rparr>"
  by (simp add: manager_inv_def tables_of_def)

lemma manager_inv_remote:
  "manager_inv sha be m \<Longrightarrow> side_inv sha be s \<Longrightarrow> manager_inv sha be (set_remote s m) \<and> tables_of (set_remote s m) = (tables_of m)\<lparr>received := table_of s\<rparr>"
  by (simp add: manager_inv_def tables_of_def)

lemma manager_inv_unfinished:
  assumes "manager_inv sha be m"
  shows "sorted ids \<Longrightarrow> distinct ids \<Longrightarrow>
      manager_inv sha be (m\<lparr>unFinishedLocalAutoSubMap := smap_insert d ids (unFinishedLocalAutoSubMap m)\<rparr>) \<and>
      tables_of (m\<lparr>unFinishedLocalAutoSubMap := smap_insert d ids (unFinishedLocalAutoSubMap m)\<rparr>)
        = (tables_of m)\<lparr>pending := (pending (tables_of m))(d \<mapsto> set ids)\<rparr>"
    "manager_inv sha be (m\<lparr>unFinishedLocalAutoSubMap := smap_erase d (unFinishedLocalAutoSubMap m)\<rparr>) \<and>
      tables_of (m\<lparr>unFinishedLocalAutoSubMap := smap_erase d (unFinishedLocalAutoSubMap m)\<rparr>)
        = (tables_of m)\<lparr>pending := (pending (tables_of m))(d := None)\<rparr>"
  using assms by (auto simp: manager_inv_def tables_of_def smap_inv_insert smap_inv_erase map_of_smap_insert map_of_smap_erase fun_eq_iff)

lemma tables_of_simps [simp]: "made (tables_of m) = table_of (local_side m)" "received (tables_of m) = table_of (remote_side m)"
  "pending (tables_of m) d = map_option set (map_of (unFinishedLocalAutoSubMap m) d)"
  by (simp_all add: tables_of_def)

lemma forget_unfinished:
  assumes inv: "manager_inv sha be m"
  shows "map_of (unFinishedLocalAutoSubMap m) d = Some ids \<Longrightarrow>
      manager_inv sha be (m\<lparr>unFinishedLocalAutoSubMap := smap_insert d (remove1 q ids) (unFinishedLocalAutoSubMap m)\<rparr>) \<and>
      tables_of (m\<lparr>unFinishedLocalAutoSubMap := smap_insert d (remove1 q ids) (unFinishedLocalAutoSubMap m)\<rparr>)
        = (tables_of m)\<lparr>pending := (pending (tables_of m))(d \<mapsto> set ids - {q})\<rparr>"
proof -
  assume "map_of (unFinishedLocalAutoSubMap m) d = Some ids"
  then have "sorted ids" "distinct ids" using manager_invD(4)[OF inv] by blast+
  then show ?thesis using manager_inv_unfinished(1)[OF inv, of "remove1 q ids" d] by (simp add: sorted_remove1 set_remove1_eq)
qed

lemma pending_same: "pending t d = p \<Longrightarrow> t\<lparr>pending := (pending t)(d := p)\<rparr> = t"
  by (cases t) auto

lemma ActiveLocal_table:
  assumes inv: "manager_inv sha be m"
  shows "manager_inv sha be (fst (handle sha be (ActiveLocal d query) m))
    \<and> map_prod tables_of id (handle sha be (ActiveLocal d query) m) = table_handle sha be (ActiveLocal d query) (tables_of m)"
proof -
  define q where "q = GetIdentify sha be query"
  obtain s e where a: "ActiveSubscribeQuery d q (local_side m) = (s, e)" by (cases "ActiveSubscribeQuery d q (local_side m)")
  have t: "table_active d q (table_of (local_side m)) = (table_of s, e)" "side_inv sha be s"
    using ActiveSubscribeQuery_table[OF manager_invD(1)[OF inv], of d q] by (simp_all add: a)
  define m' where "m' = set_local s m"
  have i: "manager_inv sha be m'" "tables_of m' = (tables_of m)\<lparr>made := table_of s\<rparr>"
    using manager_inv_local[OF inv t(2)] by (simp_all add: m'_def)
  let ?o = "map_of (unFinishedLocalAutoSubMap m) d"
  have u: "map_of (unFinishedLocalAutoSubMap m') d = ?o" by (simp add: m'_def)
  have h: "handle sha be (ActiveLocal d query) m = (if e \<noteq> E_OK then (m', e) else case ?o of None \<Rightarrow> (m', e)
      | Some ids \<Rightarrow> (if q \<in> set ids then m'\<lparr>unFinishedLocalAutoSubMap := smap_insert d (remove1 q ids) (unFinishedLocalAutoSubMap m')\<rparr> else m', e))"
    by (simp add: ActiveLocalSubscribeQuery_def q_def[symmetric] a m'_def Let_def split: option.split)
  have g: "table_handle sha be (ActiveLocal d query) (tables_of m) = ((tables_of m')\<lparr>pending :=
      (if e = E_OK then (pending (tables_of m'))(d := map_option (\<lambda>ids. ids - {q}) (map_option set ?o)) else pending (tables_of m'))\<rparr>, e)"
    by (simp add: q_def[symmetric] t i(2))
  consider "e \<noteq> E_OK" | "e = E_OK" "?o = None" | ids where "e = E_OK" "?o = Some ids" "q \<notin> set ids"
    | ids where "e = E_OK" "?o = Some ids" "q \<in> set ids" by (cases ?o) auto
  then show ?thesis
  proof cases
    case 4
    then show ?thesis unfolding g h using forget_unfinished[OF i(1), of d ids q] u by simp
  qed (unfold g h, use i(1) u pending_same[of "tables_of m'" d] in simp_all)
qed

lemma RemoveLocal_table:
  assumes inv: "manager_inv sha be m"
  shows "manager_inv sha be (fst (handle sha be (RemoveLocal d query) m))
    \<and> map_prod tables_of id (handle sha be (RemoveLocal d query) m) = table_handle sha be (RemoveLocal d query) (tables_of m)"
proof -
  define q where "q = GetIdentify sha be query"
  define m' where "m' = set_local (RemoveSubscribeQuery d q (local_side m)) m"
  have i: "manager_inv sha be m'" "tables_of m' = (tables_of m)\<lparr>made := table_remove d q (table_of (local_side m))\<rparr>"
    using manager_inv_local[OF inv] RemoveSubscribeQuery_table[OF manager_invD(1)[OF inv], of d q] by (simp_all add: m'_def)
  let ?o = "map_of (unFinishedLocalAutoSubMap m) d"
  have u: "map_of (unFinishedLocalAutoSubMap m') d = ?o" by (simp add: m'_def)
  have h: "handle sha be (RemoveLocal d query) m = (case ?o of None \<Rightarrow> m'
      | Some ids \<Rightarrow> if q \<in> set ids then m'\<lparr>unFinishedLocalAutoSubMap := if remove1 q ids = [] then smap_erase d (unFinishedLocalAutoSubMap m')
           else smap_insert d (remove1 q ids) (unFinishedLocalAutoSubMap m')\<rparr> else m', E_OK)"
    by (simp add: RemoveLocalSubscribeQuery_def q_def[symmetric] m'_def Let_def split: option.split)
  have g: "table_handle sha be (RemoveLocal d query) (tables_of m) = ((tables_of m')\<lparr>pending := (pending (tables_of m'))(d := case map_option set ?o of None \<Rightarrow> None
          | Some ids \<Rightarrow> if ids = {q} then None else Some (ids - {q}))\<rparr>, E_OK)"
    unfolding table_handle.simps i(2) q_def by simp
  have e: "remove1 q ids = [] \<longleftrightarrow> set ids = {q}" if "?o = Some ids" "q \<in> set ids" for ids
  proof -
    have "set (remove1 q ids) = set ids - {q}" using manager_invD(4)[OF inv that(1)] by (simp add: set_remove1_eq)
    then show ?thesis using that(2) by (metis Diff_eq_empty_iff empty_iff insert_iff set_empty subset_singletonD Diff_cancel)
  qed
  consider "?o = None" | ids where "?o = Some ids" "q \<notin> set ids" | ids where "?o = Some ids" "q \<in> set ids" by (cases ?o) auto
  then show ?thesis
  proof cases
    case 3
    then show ?thesis unfolding g h using forget_unfinished[OF i(1), of d ids q] manager_inv_unfinished(2)[OF i(1), of d] u e[OF 3] by simp
  next
    case 2
    then show ?thesis unfolding g h using i(1) u pending_same[of "tables_of m'" d] by auto
  qed (unfold g h, use i(1) u pending_same[of "tables_of m'" d] in simp_all)
qed

lemma handle_table:
  assumes inv: "manager_inv sha be m"
  shows "manager_inv sha be (fst (handle sha be c m)) \<and> map_prod tables_of id (handle sha be c m) = table_handle sha be c (tables_of m)"
proof -
  note l = manager_invD(1)[OF inv] and r = manager_invD(2)[OF inv]
  note local = manager_inv_local[OF inv] and remote = manager_inv_remote[OF inv]
  show ?thesis
  proof (cases c)
    case (ClearLocal d)
    have i: "manager_inv sha be (m\<lparr>unFinishedLocalAutoSubMap := smap_erase d (unFinishedLocalAutoSubMap m)\<rparr>)"
      using manager_inv_unfinished(2)[OF inv] by blast
    show ?thesis using ClearLocal manager_inv_unfinished(2)[OF inv, of d] manager_inv_local[OF i] ClearSubscribeQuery_table[OF l, of d]
      by (simp add: ClearLocalSubscribeQuery_def)
  next
    case (ReserveRemote d q)
    then show ?thesis using remote ReserveSubscribeQuery_table[OF r, of d q]
      by (auto simp: ReserveRemoteSubscribeQuery_def split: prod.splits)
  next
    case (ReserveLocal d q)
    then show ?thesis using local ReserveSubscribeQuery_table[OF l, of d q]
      by (auto simp: ReserveLocalSubscribeQuery_def split: prod.splits)
  next
    case (ActiveRemote d q)
    then show ?thesis using remote ActiveSubscribeQuery_table[OF r, of d "GetIdentify sha be q"]
      by (auto simp: ActiveRemoteSubscribeQuery_def split: prod.splits)
  next
    case (PutUnFinished d qs)
    then show ?thesis using manager_inv_unfinished(1)[OF inv unfinished_ids(2,3)[of "[]" sha be qs], of d] manager_inv_unfinished(2)[OF inv, of d]
      by (auto simp: PutLocalUnFiniedSubQueries_def unfinished_ids)
  next
    case ClearAllRemote
    then have "handle sha be c m = (set_remote ([], []) m, E_OK)" by (simp add: ClearAllRemoteQuery_def set_remote_def)
    then show ?thesis using ClearAllRemote remote[OF side_inv_nil] by (simp add: table_of_nil)
  qed (use inv local remote ActiveLocal_table RemoveLocal_table ClearSubscribeQuery_table[OF r] DeleteSubscribeQuery_table[OF l]
        DeleteSubscribeQuery_table[OF r] RemoveSubscribeQuery_table[OF r] in
      \<open>simp_all add: ClearRemoteSubscribeQuery_def DeleteLocalSubscribeQuery_def DeleteRemoteSubscribeQuery_def RemoveRemoteSubscribeQuery_def
        del: handle.simps(7,12) table_handle.simps(7,12)\<close>)
qed

lemma handle_all_table:
  assumes "manager_inv sha be m"
  shows "manager_inv sha be (fst (handle_all sha be cs m))
    \<and> map_prod tables_of id (handle_all sha be cs m) = table_handle_all sha be cs (tables_of m)"
  using assms
proof (induction cs arbitrary: m)
  case (Cons c cs)
  obtain m' e where h: "handle sha be c m = (m', e)" by (cases "handle sha be c m")
  obtain m'' es where hs: "handle_all sha be cs m' = (m'', es)" by (cases "handle_all sha be cs m'")
  have "manager_inv sha be m'" "table_handle sha be c (tables_of m) = (tables_of m', e)"
    using handle_table[OF Cons.prems, of c] by (simp_all add: h)
  then show ?case using Cons.IH[of m'] by (simp add: h hs) (metis case_prod_conv)
qed simp

lemma manager_inv_init: "manager_inv sha be SubscribeManager_init" "tables_of SubscribeManager_init = no_subscription"
  using side_inv_nil by (simp_all add: manager_inv_def SubscribeManager_init_def local_side_def remote_side_def tables_of_def
      no_subscription_def table_of_nil)

section \<open>What the queries report\<close>

lemma keys_sorted:
  assumes "smap_inv m"
  shows "map fst m = sorted_list_of_set (dom (map_of m))"
  using assms by (simp add: smap_inv_def dom_map_of_conv_image_fst strict_sorted_iff
      sorted_list_of_set.idem_if_sorted_distinct flip: set_map)

lemma all_found:
  assumes "\<And>x. x \<in> set xs \<Longrightarrow> map_of totals (f x) \<noteq> None"
    "\<And>q query num. map_of totals q = Some (query, num) \<Longrightarrow> GetIdentify sha be query = q"
  shows "map (GetIdentify sha be) (List.map_filter (\<lambda>x. map_option fst (map_of totals (f x))) xs) = map f xs"
  using assms(1)
proof (induction xs)
  case (Cons x xs)
  obtain query num where "map_of totals (f x) = Some (query, num)" using Cons.prems[of x] by auto
  then show ?case using Cons assms(2) by (simp add: map_filter_simps)
qed (simp add: map_filter_simps)

lemma side_identities:
  assumes "side_inv sha be (subs, totals)"
  shows "map_of totals q = Some (query, num) \<Longrightarrow> GetIdentify sha be query = q"
    "status subs d q \<noteq> None \<Longrightarrow> map_of totals q \<noteq> None"
  using side_invD(4)[OF assms, of q] in_users[of d subs q] by (cases "map_of totals q"; auto)+

lemma queries_known:
  assumes "side_inv sha be (subs, totals)" "map_of subs d = Some queries"
  shows "map fst queries = sorted_list_of_set (dom (status subs d))" "x \<in> set queries \<Longrightarrow> map_of totals (fst x) \<noteq> None"
proof -
  have w: "smap_inv queries" using shaped_queries[OF side_invD(1)[OF assms(1)] assms(2)] by simp
  show "map fst queries = sorted_list_of_set (dom (status subs d))" using keys_sorted[OF w] by (simp add: status_of(1)[OF assms(2)])
  assume "x \<in> set queries"
  then have "status subs d (fst x) \<noteq> None" by (simp add: status_of(1)[OF assms(2)] map_of_eq_None_iff)
  then show "map_of totals (fst x) \<noteq> None" using side_identities(2)[OF assms(1)] by blast
qed

lemma GetSubscribeQueries_table:
  assumes "side_inv sha be side"
  shows "map (GetIdentify sha be) (GetSubscribeQueries d side) = sorted_list_of_set (dom (snd (table_of side) d))"
proof -
  obtain subs totals where side: "side = (subs, totals)" by (cases side)
  note i = assms[unfolded side]
  show ?thesis
  proof (cases "map_of subs d")
    case (Some queries)
    have "map (GetIdentify sha be) (List.map_filter (\<lambda>x. map_option fst (map_of totals (fst x))) queries) = map fst queries"
      by (rule all_found) (use queries_known(2)[OF i Some] side_identities(1)[OF i] in blast)+
    then show ?thesis using Some queries_known(1)[OF i Some]
      by (simp add: side GetSubscribeQueries_def)
  qed (simp add: side GetSubscribeQueries_def status_of)
qed

lemma map_filter_all: "(\<And>x. x \<in> set xs \<Longrightarrow> \<not> P x) \<Longrightarrow> List.map_filter (\<lambda>x. if P x then None else Some (f x)) xs = map f xs"
  by (induction xs) (simp_all add: map_filter_simps)

lemma GetRemoteSubscribeQueryIds_table:
  assumes "side_inv sha be (remote_side m)"
  shows "GetRemoteSubscribeQueryIds d m = sorted_list_of_set (dom (snd (table_of (remote_side m)) d))"
proof (cases "map_of (remoteSubscribedMap m) d")
  case (Some queries)
  note i = assms[unfolded remote_side_def]
  have "List.map_filter (\<lambda>x. if map_of (remoteSubscribedTotalMap m) (fst x) = None then None else Some (fst x)) queries = map fst queries"
    by (rule map_filter_all) (use queries_known(2)[OF i Some] in blast)
  then show ?thesis using Some queries_known(1)[OF i Some] by (simp add: GetRemoteSubscribeQueryIds_def remote_side_def)
qed (simp add: GetRemoteSubscribeQueryIds_def remote_side_def status_of)

lemma some_found:
  assumes "\<And>q query num. map_of totals q = Some (query, num) \<Longrightarrow> GetIdentify sha be query = q"
  shows "map (GetIdentify sha be) (List.map_filter (\<lambda>q. map_option fst (map_of totals q)) ids) = filter (\<lambda>q. map_of totals q \<noteq> None) ids"
  using assms by (induction ids) (auto simp: map_filter_simps split: option.splits)

lemma fold_unfinished:
  assumes "distinct (map fst items)" "smap_inv r"
  shows "map_of (fold (\<lambda>item r. if length (snd item) = 0 then r else smap_insert (fst item) (f (snd item)) r) items r) d
    = (case map_of items d of None \<Rightarrow> map_of r d | Some ids \<Rightarrow> if ids = [] then map_of r d else Some (f ids))"
  using assms
proof (induction items arbitrary: r)
  case (Cons x items)
  have k: "map_of items (fst x) = None" using Cons.prems(1) by (simp add: map_of_eq_None_iff)
  show ?case using Cons k by (cases x) (auto simp: smap_inv_insert map_of_smap_insert split: option.splits)
qed simp

lemma GetAllUnFinishSubQueries_table:
  assumes inv: "manager_inv sha be m"
  shows "map_option (map (GetIdentify sha be)) (map_of (GetAllUnFinishSubQueries m []) d) =
    (case pending (tables_of m) d of None \<Rightarrow> None
     | Some ids \<Rightarrow> if ids = {} then None else Some (sorted_list_of_set (ids \<inter> used (made (tables_of m)))))"
proof -
  note i = manager_invD(1)[OF inv, unfolded local_side_def]
  have s: "filter (\<lambda>q. map_of (localSubscribeTotalMap m) q \<noteq> None) ids = sorted_list_of_set (set ids \<inter> used (made (tables_of m)))"
    if "map_of (unFinishedLocalAutoSubMap m) d = Some ids" for ids
  proof -
    have e: "set (filter (\<lambda>q. map_of (localSubscribeTotalMap m) q \<noteq> None) ids) = set ids \<inter> used (made (tables_of m))"
      by (auto simp: local_side_def used_of[OF i])
    show ?thesis unfolding e[symmetric] using manager_invD(4)[OF inv that]
      by (intro sorted_list_of_set.idem_if_sorted_distinct[symmetric]) (simp_all add: sorted_wrt_filter)
  qed
  have f: "map (GetIdentify sha be) (List.map_filter (\<lambda>q. map_option fst (map_of (localSubscribeTotalMap m) q)) ids)
      = filter (\<lambda>q. map_of (localSubscribeTotalMap m) q \<noteq> None) ids" for ids
    by (rule some_found) (rule side_identities(1)[OF i])
  show ?thesis unfolding GetAllUnFinishSubQueries_def fold_unfinished[OF smap_inv_distinct[OF manager_invD(3)[OF inv]] smap_inv_nil]
    using f s by (cases "map_of (unFinishedLocalAutoSubMap m) d") simp_all
qed

lemma IsRemoteContainSubscribe_table:
  "IsRemoteContainSubscribe sha be d query m \<longleftrightarrow> snd (table_of (remote_side m)) d (GetIdentify sha be query) \<noteq> None"
  by (simp add: IsRemoteContainSubscribe_def remote_side_def status_def split: option.splits)

section \<open>Admission\<close>

lemma count_devices_mono:
  assumes "count_devices subs n ds" "n' \<le> n" "\<And>d. map_of subs d \<noteq> None \<Longrightarrow> map_of subs' d \<noteq> None"
  shows "count_devices subs' n' ds"
  using assms(1,2)
proof (induction ds arbitrary: n n')
  case (Cons d ds)
  then show ?case using assms(3)[of d] by (cases "map_of subs d"; cases "map_of subs' d") (auto split: if_splits)
qed simp

definition has_room :: "byte list \<Rightarrow> SubscribeManager \<Rightarrow> string \<Rightarrow> bool" where
  "has_room q m d \<longleftrightarrow> (case map_of (localSubscribeMap m) d of None \<Rightarrow> True
     | Some queries \<Rightarrow> map_of queries q \<noteq> None \<or> length queries < MAX_SUBSCRIBE_NUM_PER_DEV)"

lemma has_room_iff:
  assumes "manager_inv sha be m"
  shows "has_room q m d \<longleftrightarrow> snd (made (tables_of m)) d q \<noteq> None \<or> card (dom (snd (made (tables_of m)) d)) < MAX_SUBSCRIBE_NUM_PER_DEV"
proof (cases "map_of (localSubscribeMap m) d")
  case (Some queries)
  have "smap_inv queries" using manager_invD(1)[OF assms] shaped_queries[OF _ Some] by (simp add: local_side_def side_inv_def)
  then show ?thesis using Some by (simp add: has_room_def local_side_def status_of card_dom)
qed (simp add: has_room_def local_side_def status_of MAX_SUBSCRIBE_NUM_PER_DEV_def)

lemma length_devices: "manager_inv sha be m \<Longrightarrow> card (fst (made (tables_of m))) = length (localSubscribeMap m)"
  using manager_invD(1)[of sha be m] by (simp add: local_side_def side_inv_def shaped_def card_dom)

lemma length_queries: "manager_inv sha be m \<Longrightarrow> card (used (made (tables_of m))) = length (localSubscribeTotalMap m)"
  using manager_invD(1)[of sha be m] side_invD(2)[of sha be "localSubscribeMap m" "localSubscribeTotalMap m"]
  by (simp add: local_side_def used_of card_dom)

lemma used_queries: "manager_inv sha be m \<Longrightarrow> q \<in> used (made (tables_of m)) \<longleftrightarrow> map_of (localSubscribeTotalMap m) q \<noteq> None"
  using manager_invD(1)[of sha be m] by (simp add: local_side_def used_of domIff del: not_None_eq)

lemma ReserveLocal_admitted:
  assumes inv: "manager_inv sha be m" and q: "q = GetIdentify sha be query"
    and room: "map_of (localSubscribeTotalMap m) q \<noteq> None \<or> length (localSubscribeTotalMap m) < MAX_SUBSCRIBE_NUM_PER_DB"
      "map_of (localSubscribeMap m) d \<noteq> None \<or> length (localSubscribeMap m) < MAX_DEVICES_NUM" "has_room q m d"
    and h: "handle sha be (ReserveLocal d query) m = (m', e)"
  shows "e = E_OK" "manager_inv sha be m'" "map_of (localSubscribeTotalMap m') q \<noteq> None"
    "dom (map_of (localSubscribeMap m')) = insert d (dom (map_of (localSubscribeMap m)))" "has_room q m d' \<Longrightarrow> has_room q m' d'"
proof -
  let ?t = "made (tables_of m)"
  have "d \<in> fst ?t \<longleftrightarrow> map_of (localSubscribeMap m) d \<noteq> None" by (simp add: local_side_def domIff del: not_None_eq)
  then have "\<not> refuses d q ?t" using room length_devices[OF inv] length_queries[OF inv] used_queries[OF inv, of q]
    by (auto simp: refuses_def has_room_iff[OF inv] simp del: tables_of_simps)
  then have t: "tables_of m' = (tables_of m)\<lparr>made := (insert d (fst ?t), snd (set_status d q (Some (case snd ?t d q of None \<Rightarrow> NOT_ACTIVE | Some s \<Rightarrow> s)) ?t))\<rparr>"
    "e = E_OK" "manager_inv sha be m'"
    using handle_table[OF inv, of "ReserveLocal d query"] unfolding h table_handle.simps q[symmetric]
    by (simp_all add: table_reserve_def del: tables_of_simps)
  show "e = E_OK" "manager_inv sha be m'" using t by simp_all
  have "q \<in> used (made (tables_of m'))" unfolding t(1) by (auto simp: used_def set_status_def simp del: tables_of_simps)
  then show "map_of (localSubscribeTotalMap m') q \<noteq> None" using used_queries[OF t(3)] by blast
  have "fst (made (tables_of m')) = insert d (fst ?t)" unfolding t(1) by simp
  then show "dom (map_of (localSubscribeMap m')) = insert d (dom (map_of (localSubscribeMap m)))" by (simp add: local_side_def)
  show "has_room q m d' \<Longrightarrow> has_room q m' d'"
    unfolding has_room_iff[OF inv] has_room_iff[OF t(3)] t(1) by (auto simp: set_status_def simp del: tables_of_simps)
qed

lemma ReserveLocal_all:
  assumes "manager_inv sha be m" "q = GetIdentify sha be query"
    "map_of (localSubscribeTotalMap m) q \<noteq> None \<or> length (localSubscribeTotalMap m) < MAX_SUBSCRIBE_NUM_PER_DB"
    "count_devices (localSubscribeMap m) (length (localSubscribeMap m)) ds" "\<And>d. d \<in> set ds \<Longrightarrow> has_room q m d"
  shows "snd (handle_all sha be (map (\<lambda>d. ReserveLocal d query) ds) m) = replicate (length ds) E_OK"
  using assms(1,3,4,5)
proof (induction ds arbitrary: m)
  case (Cons d ds)
  obtain m' e where h: "handle sha be (ReserveLocal d query) m = (m', e)" by (cases "handle sha be (ReserveLocal d query) m")
  have dev: "map_of (localSubscribeMap m) d \<noteq> None \<or> length (localSubscribeMap m) < MAX_DEVICES_NUM" using Cons.prems(3) by (auto split: if_splits)
  note a = ReserveLocal_admitted[OF Cons.prems(1) assms(2) Cons.prems(2) dev Cons.prems(4)[of d] h, simplified]
  have len: "length (localSubscribeMap m') = (if map_of (localSubscribeMap m) d = None then length (localSubscribeMap m) + 1 else length (localSubscribeMap m))"
    using length_devices[OF Cons.prems(1)] length_devices[OF a(2)] a(4) by (auto simp: local_side_def card_insert_if finite_dom_map_of domIff)
  have "count_devices (localSubscribeMap m') (length (localSubscribeMap m')) ds"
    by (rule count_devices_mono[of "localSubscribeMap m" "length (localSubscribeMap m')"]) (use Cons.prems(3) len a(4) in \<open>auto split: if_splits\<close>)
  then show ?case using Cons.IH[OF a(2)] a Cons.prems(4) h by (auto split: prod.splits)
qed simp

text \<open>A device that has ended its only subscription stays admitted.\<close>

definition come_and_go :: "QuerySyncObject \<Rightarrow> string list \<Rightarrow> command list" where
  "come_and_go query ds = concat (map (\<lambda>d. [ReserveLocal d query, RemoveLocal d query]) ds)"

lemma table_come_and_go:
  assumes "made t = (K, \<lambda>_. Map.empty)" "pending t = Map.empty" "finite K" "distinct ds" "K \<inter> set ds = {}" "card K + length ds \<le> MAX_DEVICES_NUM"
  shows "\<exists>t' es. table_handle_all sha be (come_and_go query ds @ cs) t = (fst (table_handle_all sha be cs t'), es @ snd (table_handle_all sha be cs t'))
    \<and> made t' = (K \<union> set ds, \<lambda>_. Map.empty) \<and> pending t' = Map.empty"
  using assms
proof (induction ds arbitrary: t K)
  case (Cons d ds)
  let ?q = "GetIdentify sha be query"
  define t1 where "t1 = t\<lparr>made := (insert d K, (\<lambda>_. Map.empty)(d := [?q \<mapsto> NOT_ACTIVE]))\<rparr>"
  define t2 where "t2 = t1\<lparr>made := (insert d K, \<lambda>_. Map.empty)\<rparr>"
  have "\<not> refuses d ?q (made t)" using Cons.prems by (simp add: refuses_def used_def MAX_SUBSCRIBE_NUM_PER_DB_def)
  then have 1: "table_handle sha be (ReserveLocal d query) t = (t1, E_OK)" using Cons.prems(1) by (simp add: t1_def table_reserve_def set_status_def)
  have 2: "table_handle sha be (RemoveLocal d query) t1 = (t2, E_OK)"
    using Cons.prems(2) by (cases t) (simp add: t2_def t1_def table_remove_def set_status_def fun_upd_idem)
  have "made t2 = (insert d K, \<lambda>_. Map.empty)" "pending t2 = Map.empty" using Cons.prems by (simp_all add: t2_def t1_def)
  from Cons.IH[OF this] obtain t' es where "table_handle_all sha be (come_and_go query ds @ cs) t2 =
        (fst (table_handle_all sha be cs t'), es @ snd (table_handle_all sha be cs t'))"
      "made t' = (insert d K \<union> set ds, \<lambda>_. Map.empty)" "pending t' = Map.empty" using Cons.prems by auto
  then show ?case using 1 2 by (intro exI[of _ t'] exI[of _ "E_OK # E_OK # es"]) (simp add: come_and_go_def)
qed (auto intro!: exI[of _ "[]"] simp: come_and_go_def)

section \<open>Properties\<close>

text \<open>
  C11. Whatever calls are made on a manager and in whatever order, its maps and its counters are those of
  plain tables of subscriptions: each call changes the tables as specified and returns what they say. In
  particular a query is forgotten exactly when its last subscriber is, a subscription that is active survives
  a failed attempt to repeat it, and a call beyond a limit changes nothing.
\<close>

theorem subscriptions_refine_tables:
  "manager_inv sha be (fst (handle_all sha be cs SubscribeManager_init)) \<and>
   map_prod tables_of id (handle_all sha be cs SubscribeManager_init) = table_handle_all sha be cs no_subscription"
  using handle_all_table[OF manager_inv_init(1)] by (simp add: manager_inv_init(2))

text \<open>C27. After any sequence of calls the queries reported for a device are, in the order of their identifiers, all those that
  the tables have for it, on both sides: the reserved ones that are not active yet are among them, contrary to the comment on
  \<^verbatim>\<open>GetLocalSubscribeQueries\<close> in \<^verbatim>\<open>subscribe_manager.h\<close>. The queries that still have to be subscribed to are those put there, not yet
  activated or removed and in use.\<close>

theorem reported_subscriptions:
  "let m = fst (handle_all sha be cs SubscribeManager_init); t = fst (table_handle_all sha be cs no_subscription) in
     map (GetIdentify sha be) (GetLocalSubscribeQueries d m) = sorted_list_of_set (dom (snd (made t) d))
   \<and> map (GetIdentify sha be) (GetRemoteSubscribeQueries d m) = sorted_list_of_set (dom (snd (received t) d))
   \<and> GetRemoteSubscribeQueryIds d m = sorted_list_of_set (dom (snd (received t) d))
   \<and> (IsRemoteContainSubscribe sha be d query m \<longleftrightarrow> GetIdentify sha be query \<in> dom (snd (received t) d))
   \<and> map_option (map (GetIdentify sha be)) (map_of (GetAllUnFinishSubQueries m []) d) =
       (case pending t d of None \<Rightarrow> None
        | Some ids \<Rightarrow> if ids = {} then None else Some (sorted_list_of_set (ids \<inter> used (made t))))"
proof -
  define m where "m = fst (handle_all sha be cs SubscribeManager_init)"
  have inv: "manager_inv sha be m" using handle_all_table[OF manager_inv_init(1)] by (simp add: m_def)
  have "tables_of m = fst (map_prod tables_of id (handle_all sha be cs SubscribeManager_init))" by (simp add: m_def)
  then have t: "tables_of m = fst (table_handle_all sha be cs no_subscription)"
    using handle_all_table[OF manager_inv_init(1), of sha be cs] manager_inv_init(2) by metis
  show ?thesis unfolding Let_def t[symmetric] m_def[symmetric] GetAllUnFinishSubQueries_table[OF inv]
    using GetSubscribeQueries_table[OF manager_invD(1)[OF inv], of d] GetSubscribeQueries_table[OF manager_invD(2)[OF inv], of d]
      GetRemoteSubscribeQueryIds_table[OF manager_invD(2)[OF inv], of d] IsRemoteContainSubscribe_table[of sha be d query m]
    by (simp add: GetLocalSubscribeQueries_def GetRemoteSubscribeQueries_def domIff del: not_None_eq)
qed

text \<open>
  C28. When \<^verbatim>\<open>LocalSubscribeLimitCheck\<close> admits a query for a list of devices, and each of the devices has room for
  it, reserving the query for them one after the other succeeds for every one. The check does not look at
  the limit per device.
\<close>

theorem limit_check_admits:
  assumes "m = fst (handle_all sha be cs SubscribeManager_init)" "LocalSubscribeLimitCheck sha be ds query m = E_OK"
    "list_all (has_room (GetIdentify sha be query) m) ds"
  shows "snd (handle_all sha be (map (\<lambda>d. ReserveLocal d query) ds) m) = replicate (length ds) E_OK"
proof (rule ReserveLocal_all[OF _ refl])
  show "manager_inv sha be m" using handle_all_table[OF manager_inv_init(1)] by (simp add: assms(1))
qed (use assms(2,3) in \<open>auto simp: LocalSubscribeLimitCheck_def list_all_iff not_le split: if_splits\<close>)

theorem limit_check_admits_witness:
  "snd (handle_all Some False (map (\<lambda>d. ReserveLocal d demo_query) [''a'', ''b'', ''a''])
     (fst (handle_all Some False [] SubscribeManager_init))) = [E_OK, E_OK, E_OK]"
  using limit_check_admits[OF refl, of Some False "[''a'', ''b'', ''a'']" demo_query "[]"]
  by (simp add: LocalSubscribeLimitCheck_def SubscribeManager_init_def has_room_def MAX_DEVICES_NUM_def MAX_SUBSCRIBE_NUM_PER_DB_def)

text \<open>
  Devices that have subscribed and ended the subscription still count: after 32 of them a further
  device is refused although there is no subscription at all.
\<close>

theorem emptied_devices_count:
  assumes "distinct ds" "length ds = MAX_DEVICES_NUM" "d \<notin> set ds"
    "handle_all sha be (come_and_go query ds @ [ReserveLocal d other]) SubscribeManager_init = (m, es)"
  shows "last es = E_MAX_LIMITS \<and> GetLocalSubscribeQueries e m = []"
proof -
  obtain t es' where t: "table_handle_all sha be (come_and_go query ds @ [ReserveLocal d other]) no_subscription =
      (fst (table_handle_all sha be [ReserveLocal d other] t), es' @ snd (table_handle_all sha be [ReserveLocal d other] t))"
    "made t = (set ds, \<lambda>_. Map.empty)"
    using table_come_and_go[of no_subscription "{}" ds sha be query "[ReserveLocal d other]"] assms(1,2) by (auto simp: no_subscription_def)
  have "refuses d q (made t)" for q using assms t(2) distinct_card[of ds] by (simp add: refuses_def)
  then have r: "table_handle_all sha be [ReserveLocal d other] t = (t, [E_MAX_LIMITS])" using t(2) by (cases t) (simp add: table_reserve_def)
  have h: "manager_inv sha be m" "tables_of m = t" "es = es' @ [E_MAX_LIMITS]"
    using handle_all_table[OF manager_inv_init(1), of sha be "come_and_go query ds @ [ReserveLocal d other]"]
    unfolding assms(4) manager_inv_init(2) t(1) r by simp_all
  have "made (tables_of m) = (set ds, \<lambda>_. Map.empty)" using h(2) t(2) by simp
  then show ?thesis using h(3) GetSubscribeQueries_table[OF manager_invD(1)[OF h(1)], of e] by (simp add: GetLocalSubscribeQueries_def)
qed

definition demo_devices :: "string list" where
  "demo_devices = map (\<lambda>n. replicate n CHR ''a'') [0..<32]"

theorem emptied_devices_count_witness:
  "last (snd (handle_all Some False (come_and_go demo_query demo_devices @ [ReserveLocal ''b'' demo_query]) SubscribeManager_init)) = E_MAX_LIMITS"
proof -
  have 1: "distinct demo_devices" unfolding demo_devices_def distinct_map
    by (intro conjI distinct_upt inj_onI) (metis length_replicate)
  have "''b'' \<noteq> replicate n CHR ''a''" for n by (cases n) simp_all
  then have 2: "''b'' \<notin> set demo_devices" unfolding demo_devices_def set_map by blast
  have 3: "length demo_devices = MAX_DEVICES_NUM" unfolding demo_devices_def MAX_DEVICES_NUM_def length_map length_upt by simp
  show ?thesis by (rule conjunct1[OF emptied_devices_count[OF 1 3 2 surjective_pairing]])
qed

end
