(* ===== verification/Query_Expression.thy ===== *)
theory Query_Expression
  imports Query_Sync_Object
begin

text \<open>
  \<^verbatim>\<open>common/src/query_expression.cpp\<close>, \<^verbatim>\<open>include/query.h\<close>, \<^verbatim>\<open>common/src/query.cpp\<close> and the field paths of
  \<^verbatim>\<open>common/src/schema_utils.cpp\<close>: the queries of a store, built one condition at a time.
\<close>

section \<open>Field paths\<close>

definition isalpha :: "char \<Rightarrow> bool" where
  "isalpha c \<longleftrightarrow> (let n = of_char c :: nat in 65 \<le> n \<and> n \<le> 90 \<or> 97 \<le> n \<and> n \<le> 122)"

definition isdigit :: "char \<Rightarrow> bool" where
  "isdigit c \<longleftrightarrow> (let n = of_char c :: nat in 48 \<le> n \<and> n \<le> 57)"

definition IsLegalFieldCharacter :: "char \<Rightarrow> bool" where
  "IsLegalFieldCharacter c \<longleftrightarrow> isalpha c \<or> isdigit c \<or> c = CHR ''_''"

definition blank_char :: "char \<Rightarrow> bool" where
  "blank_char c \<longleftrightarrow> c = CHR 0x0D \<or> c = CHR 0x09 \<or> c = CHR '' ''"

definition TrimFiled :: "string \<Rightarrow> string" where
  "TrimFiled s = rev (dropWhile blank_char (rev (dropWhile blank_char s)))"

definition SCHEMA_FEILD_NAME_LENGTH_MAX :: nat where "SCHEMA_FEILD_NAME_LENGTH_MAX = 64"
definition SCHEMA_FEILD_PATH_DEPTH_MAX :: nat where "SCHEMA_FEILD_PATH_DEPTH_MAX = 4"

definition CheckFieldName :: "string \<Rightarrow> errno" where
  "CheckFieldName inName =
     (if inName = [] \<or> length inName > SCHEMA_FEILD_NAME_LENGTH_MAX then E_SCHEMA_PARSE_FAIL
      else if \<not> (isalpha (inName ! 0) \<or> inName ! 0 = CHR ''_'') then E_SCHEMA_PARSE_FAIL
      else if \<not> list_all IsLegalFieldCharacter inName then E_SCHEMA_PARSE_FAIL
      else E_OK)"

definition CheckDollarDotPrefix :: "string \<Rightarrow> bool res" where
  "CheckDollarDotPrefix s =
     (if s = [] then Inl E_SCHEMA_PARSE_FAIL
      else if length s \<ge> 2 \<and> s ! 0 = CHR ''$'' \<and> s ! 1 = CHR ''.'' then Inr True
      else if length s \<ge> 2 \<and> s ! 0 = CHR ''$'' \<and> s ! 1 \<noteq> CHR ''.'' then Inl E_SCHEMA_PARSE_FAIL
      else if length s \<ge> 2 \<and> s ! 1 = CHR ''$'' then Inl E_SCHEMA_PARSE_FAIL
      else if s ! 0 = CHR ''.'' then Inl E_SCHEMA_PARSE_FAIL
      else Inr False)"

text \<open>
  The loop over the dots, from the position after one: it takes the name up to the next dot, and a dot at
  the very end is an error.
\<close>

fun path_names :: "string \<Rightarrow> string \<Rightarrow> string list res" where
  "path_names name [] = (if name = [] then Inl E_SCHEMA_PARSE_FAIL else Inr [rev name])"
| "path_names name (c # s) =
     (if c = CHR ''.'' then (if s = [] then Inl E_SCHEMA_PARSE_FAIL else map_sum id ((#) (rev name)) (path_names [] s))
      else path_names (c # name) s)"

definition ParseAndCheckFieldPath :: "string \<Rightarrow> bool \<Rightarrow> string list res" where
  "ParseAndCheckFieldPath inPathString permitPrefix =
     (let path = TrimFiled inPathString
      in case CheckDollarDotPrefix path of
           Inl e \<Rightarrow> Inl e
         | Inr hasPrefix \<Rightarrow>
             if \<not> permitPrefix \<and> hasPrefix then Inl E_SCHEMA_PARSE_FAIL
             else let path = (if hasPrefix then path else ''$.'' @ path)
                  in case path_names [] (drop 2 path) of
                       Inl e \<Rightarrow> Inl e
                     | Inr outPath \<Rightarrow>
                         if length outPath > SCHEMA_FEILD_PATH_DEPTH_MAX then Inl E_SCHEMA_PARSE_FAIL
                         else if list_ex (\<lambda>name. CheckFieldName name \<noteq> E_OK) outPath then Inl E_SCHEMA_PARSE_FAIL
                         else Inr outPath)"

section \<open>Values\<close>

text \<open>
  What the queries take from outside: the byte order of the host, how a \<^verbatim>\<open>double\<close> (given by its bits) is printed
  and read by the streams of the standard library, the value an uninitialised variable happens to have, and
  the identifier the soft bus has for a node.
\<close>

record query_env =
  bigEndian :: bool
  printDouble :: "u64 \<Rightarrow> string"
  scanDouble :: "string \<Rightarrow> u64"
  uninitInt :: int
  uninitType :: u32
  GetUuidByNodeId :: "string \<Rightarrow> string"

definition VALUE_TYPE_INVALID :: u32 where "VALUE_TYPE_INVALID = - 1"
definition VALUE_TYPE_NULL :: u32 where "VALUE_TYPE_NULL = 0"
definition VALUE_TYPE_BOOL :: u32 where "VALUE_TYPE_BOOL = 1"
definition VALUE_TYPE_INTEGER :: u32 where "VALUE_TYPE_INTEGER = 2"
definition VALUE_TYPE_LONG :: u32 where "VALUE_TYPE_LONG = 3"
definition VALUE_TYPE_DOUBLE :: u32 where "VALUE_TYPE_DOUBLE = 4"
definition VALUE_TYPE_STRING :: u32 where "VALUE_TYPE_STRING = 5"

text \<open>The values of the overloads, \<^verbatim>\<open>int\<close>, \<^verbatim>\<open>int64_t\<close>, \<^verbatim>\<open>double\<close>, \<^verbatim>\<open>bool\<close> and \<^verbatim>\<open>std::string\<close>, and vectors of them.\<close>

datatype query_value = VInt u32 | VLong u64 | VDouble u64 | VBool bool | VString string

datatype query_values = VInts "u32 list" | VLongs "u64 list" | VDoubles "u64 list" | VStrings "string list"

definition bytes_of :: "string \<Rightarrow> byte list" where
  "bytes_of s = map of_char s"

text \<open>The members of the union lie at its first bytes.\<close>

definition FieldValue_init :: FieldValue where "FieldValue_init = \<lparr>fv_longValue = 0, fv_stringValue = []\<rparr>"

definition boolValue :: "bool \<Rightarrow> bool \<Rightarrow> FieldValue" where
  "boolValue be b = FieldValue_init\<lparr>fv_longValue := push_bit (if be then 56 else 0) (of_bool b)\<rparr>"

definition integerValue :: "bool \<Rightarrow> u32 \<Rightarrow> FieldValue" where
  "integerValue be v = FieldValue_init\<lparr>fv_longValue := push_bit (if be then 32 else 0) (ucast v)\<rparr>"

definition stringValue :: "string \<Rightarrow> FieldValue" where
  "stringValue s = FieldValue_init\<lparr>fv_stringValue := bytes_of s\<rparr>"

fun GetFieldTypeAndValue :: "bool \<Rightarrow> query_value \<Rightarrow> u32 \<times> FieldValue" where
  "GetFieldTypeAndValue be (VDouble v) = (VALUE_TYPE_DOUBLE, FieldValue_init\<lparr>fv_longValue := v\<rparr>)"
| "GetFieldTypeAndValue be (VInt v) = (VALUE_TYPE_INTEGER, integerValue be v)"
| "GetFieldTypeAndValue be (VLong v) = (VALUE_TYPE_LONG, FieldValue_init\<lparr>fv_longValue := v\<rparr>)"
| "GetFieldTypeAndValue be (VBool v) = (VALUE_TYPE_BOOL, boolValue be v)"
| "GetFieldTypeAndValue be (VString v) = (VALUE_TYPE_STRING, stringValue v)"

fun each_value :: "query_values \<Rightarrow> query_value list" where
  "each_value (VInts vs) = map VInt vs"
| "each_value (VLongs vs) = map VLong vs"
| "each_value (VDoubles vs) = map VDouble vs"
| "each_value (VStrings vs) = map VString vs"

section \<open>Expressions\<close>

definition EQUALTO :: u32 where "EQUALTO = 0x0101"
definition NOT_EQUALTO :: u32 where "NOT_EQUALTO = 0x0102"
definition GREATER_THAN :: u32 where "GREATER_THAN = 0x0103"
definition LESS_THAN :: u32 where "LESS_THAN = 0x0104"
definition GREATER_THAN_OR_EQUALTO :: u32 where "GREATER_THAN_OR_EQUALTO = 0x0105"
definition LESS_THAN_OR_EQUALTO :: u32 where "LESS_THAN_OR_EQUALTO = 0x0106"
definition LIKE :: u32 where "LIKE = 0x0201"
definition NOT_LIKE :: u32 where "NOT_LIKE = 0x0202"
definition IS_NULL :: u32 where "IS_NULL = 0x0203"
definition IS_NOT_NULL :: u32 where "IS_NOT_NULL = 0x0204"
definition OPER_IN :: u32 where "OPER_IN = 0x0301"
definition OPER_NOT_IN :: u32 where "OPER_NOT_IN = 0x0302"
definition QUERY_BY_KEY_PREFIX :: u32 where "QUERY_BY_KEY_PREFIX = 0x0401"
definition BEGIN_GROUP :: u32 where "BEGIN_GROUP = 0x0501"
definition END_GROUP :: u32 where "END_GROUP = 0x0502"
definition OPER_AND :: u32 where "OPER_AND = 0x0601"
definition OPER_OR :: u32 where "OPER_OR = 0x0602"
definition OPER_IN_KEYS :: u32 where "OPER_IN_KEYS = 0x0901"

record QueryExpression =
  qe_queryInfo :: "QueryObjNode list"
  qe_errFlag :: bool
  qe_prefixKey :: Key
  qe_suggestIndex :: "byte list"
  qe_tableName :: "byte list"
  qe_isTableNameSpecified :: bool
  qe_keys :: "Key set"

definition QueryExpression_init :: QueryExpression where
  "QueryExpression_init = \<lparr>qe_queryInfo = [], qe_errFlag = True, qe_prefixKey = [], qe_suggestIndex = [],
     qe_tableName = bytes_of ''sync_data'', qe_isTableNameSpecified = False, qe_keys = {}\<rparr>"

definition MAX_OPR_TIMES :: nat where "MAX_OPR_TIMES = 256"

fun join_dots :: "string list \<Rightarrow> string" where
  "join_dots [] = []"
| "join_dots [name] = name"
| "join_dots (name # names) = name @ ''.'' @ join_dots names"

definition add_node :: "u32 \<Rightarrow> string \<Rightarrow> u32 \<Rightarrow> FieldValue list \<Rightarrow> QueryExpression \<Rightarrow> QueryExpression" where
  "add_node oper field type values e = e\<lparr>qe_queryInfo := qe_queryInfo e @
     [\<lparr>qn_operFlag = oper, qn_fieldName = bytes_of field, qn_type = type, qn_fieldValue = values\<rparr>]\<rparr>"

definition AssemblyQueryInfo :: "u32 \<Rightarrow> string \<Rightarrow> u32 \<Rightarrow> FieldValue list \<Rightarrow> bool \<Rightarrow> QueryExpression \<Rightarrow> QueryExpression" where
  "AssemblyQueryInfo queryOperType field type values isNeedFieldPath e =
     (if length (qe_queryInfo e) > MAX_OPR_TIMES then e\<lparr>qe_errFlag := False\<rparr>
      else if \<not> qe_errFlag e then e
      else case (if isNeedFieldPath then ParseAndCheckFieldPath field True else Inr []) of
        Inl _ \<Rightarrow> e\<lparr>qe_errFlag := False\<rparr>
      | Inr outPath \<Rightarrow>
          add_node queryOperType (if qe_isTableNameSpecified e then join_dots outPath else field) type values e)"

definition compare_node :: "u32 \<Rightarrow> string \<Rightarrow> u32 \<Rightarrow> FieldValue \<Rightarrow> QueryExpression \<Rightarrow> QueryExpression" where
  "compare_node oper field type value e =
     AssemblyQueryInfo oper field type [value] True (if type = VALUE_TYPE_BOOL then e\<lparr>qe_errFlag := False\<rparr> else e)"

definition GetQueryExpression :: "QueryExpression \<Rightarrow> QueryExpression \<times> QueryObjNode list" where
  "GetQueryExpression e =
     (let e = (if qe_errFlag e then e else e\<lparr>qe_queryInfo := [\<lparr>qn_operFlag = OPER_ILLEGAL, qn_fieldName = [],
                 qn_type = VALUE_TYPE_INVALID, qn_fieldValue = []\<rparr>]\<rparr>)
      in (e, qe_queryInfo e))"

definition QueryExpression_Reset :: "QueryExpression \<Rightarrow> QueryExpression" where
  "QueryExpression_Reset e = e\<lparr>qe_errFlag := True, qe_queryInfo := [], qe_prefixKey := [], qe_suggestIndex := [], qe_keys := {}\<rparr>"

subsection \<open>The operations of a query\<close>

text \<open>
  \<^verbatim>\<open>Query\<close> owns an expression and passes every operation on to it, through \<^verbatim>\<open>ExecuteCompareOperation\<close> for
  those on a value; a \<^verbatim>\<open>Query\<close> is its expression here.
\<close>

definition Select :: QueryExpression where
  "Select = QueryExpression_init"

definition Select_table :: "string \<Rightarrow> QueryExpression" where
  "Select_table tableName = QueryExpression_init\<lparr>qe_tableName := bytes_of tableName, qe_isTableNameSpecified := True\<rparr>"

definition Query_EqualTo :: "query_env \<Rightarrow> string \<Rightarrow> query_value \<Rightarrow> QueryExpression \<Rightarrow> QueryExpression" where
  "Query_EqualTo env field value e =
     (let (type, fieldValue) = GetFieldTypeAndValue (bigEndian env) value in AssemblyQueryInfo EQUALTO field type [fieldValue] True e)"

definition Query_NotEqualTo :: "query_env \<Rightarrow> string \<Rightarrow> query_value \<Rightarrow> QueryExpression \<Rightarrow> QueryExpression" where
  "Query_NotEqualTo env field value e =
     (let (type, fieldValue) = GetFieldTypeAndValue (bigEndian env) value in AssemblyQueryInfo NOT_EQUALTO field type [fieldValue] True e)"

definition Query_GreaterThan :: "query_env \<Rightarrow> string \<Rightarrow> query_value \<Rightarrow> QueryExpression \<Rightarrow> QueryExpression" where
  "Query_GreaterThan env field value e =
     (let (type, fieldValue) = GetFieldTypeAndValue (bigEndian env) value in compare_node GREATER_THAN field type fieldValue e)"

definition Query_LessThan :: "query_env \<Rightarrow> string \<Rightarrow> query_value \<Rightarrow> QueryExpression \<Rightarrow> QueryExpression" where
  "Query_LessThan env field value e =
     (let (type, fieldValue) = GetFieldTypeAndValue (bigEndian env) value in compare_node LESS_THAN field type fieldValue e)"

definition Query_GreaterThanOrEqualTo :: "query_env \<Rightarrow> string \<Rightarrow> query_value \<Rightarrow> QueryExpression \<Rightarrow> QueryExpression" where
  "Query_GreaterThanOrEqualTo env field value e =
     (let (type, fieldValue) = GetFieldTypeAndValue (bigEndian env) value
      in compare_node GREATER_THAN_OR_EQUALTO field type fieldValue e)"

definition Query_LessThanOrEqualTo :: "query_env \<Rightarrow> string \<Rightarrow> query_value \<Rightarrow> QueryExpression \<Rightarrow> QueryExpression" where
  "Query_LessThanOrEqualTo env field value e =
     (let (type, fieldValue) = GetFieldTypeAndValue (bigEndian env) value
      in compare_node LESS_THAN_OR_EQUALTO field type fieldValue e)"

definition Query_OrderBy :: "query_env \<Rightarrow> string \<Rightarrow> bool \<Rightarrow> QueryExpression \<Rightarrow> QueryExpression" where
  "Query_OrderBy env field isAsc e = AssemblyQueryInfo OPER_ORDERBY field VALUE_TYPE_BOOL [boolValue (bigEndian env) isAsc] True e"

definition Query_Limit :: "query_env \<Rightarrow> u32 \<Rightarrow> u32 \<Rightarrow> QueryExpression \<Rightarrow> QueryExpression" where
  "Query_Limit env number offset e =
     AssemblyQueryInfo OPER_LIMIT [] VALUE_TYPE_INTEGER [integerValue (bigEndian env) number, integerValue (bigEndian env) offset] False e"

definition Query_Like :: "string \<Rightarrow> string \<Rightarrow> QueryExpression \<Rightarrow> QueryExpression" where
  "Query_Like field value e = AssemblyQueryInfo LIKE field VALUE_TYPE_STRING [stringValue value] True e"

definition Query_NotLike :: "string \<Rightarrow> string \<Rightarrow> QueryExpression \<Rightarrow> QueryExpression" where
  "Query_NotLike field value e = AssemblyQueryInfo NOT_LIKE field VALUE_TYPE_STRING [stringValue value] True e"

text \<open>The type of the values is a variable that the loop over the values sets.\<close>

definition values_type :: "query_env \<Rightarrow> query_values \<Rightarrow> u32" where
  "values_type env values =
     fold (\<lambda>value _. fst (GetFieldTypeAndValue (bigEndian env) value)) (each_value values) (uninitType env)"

definition Query_In :: "query_env \<Rightarrow> string \<Rightarrow> query_values \<Rightarrow> QueryExpression \<Rightarrow> QueryExpression" where
  "Query_In env field values e = AssemblyQueryInfo OPER_IN field (values_type env values)
     (map (\<lambda>value. snd (GetFieldTypeAndValue (bigEndian env) value)) (each_value values)) True e"

definition Query_NotIn :: "query_env \<Rightarrow> string \<Rightarrow> query_values \<Rightarrow> QueryExpression \<Rightarrow> QueryExpression" where
  "Query_NotIn env field values e = AssemblyQueryInfo OPER_NOT_IN field (values_type env values)
     (map (\<lambda>value. snd (GetFieldTypeAndValue (bigEndian env) value)) (each_value values)) True e"

definition Query_IsNull :: "string \<Rightarrow> QueryExpression \<Rightarrow> QueryExpression" where
  "Query_IsNull field e = AssemblyQueryInfo IS_NULL field VALUE_TYPE_NULL [] True e"

definition Query_IsNotNull :: "string \<Rightarrow> QueryExpression \<Rightarrow> QueryExpression" where
  "Query_IsNotNull field e = AssemblyQueryInfo IS_NOT_NULL field VALUE_TYPE_NULL [] True e"

definition Query_And :: "QueryExpression \<Rightarrow> QueryExpression" where
  "Query_And e = AssemblyQueryInfo OPER_AND [] VALUE_TYPE_NULL [] False e"

definition Query_Or :: "QueryExpression \<Rightarrow> QueryExpression" where
  "Query_Or e = AssemblyQueryInfo OPER_OR [] VALUE_TYPE_NULL [] False e"

definition Query_BeginGroup :: "QueryExpression \<Rightarrow> QueryExpression" where
  "Query_BeginGroup e = add_node BEGIN_GROUP [] VALUE_TYPE_NULL [] e"

definition Query_EndGroup :: "QueryExpression \<Rightarrow> QueryExpression" where
  "Query_EndGroup e = add_node END_GROUP [] VALUE_TYPE_NULL [] e"

definition Query_PrefixKey :: "Key \<Rightarrow> QueryExpression \<Rightarrow> QueryExpression" where
  "Query_PrefixKey key e = (add_node QUERY_BY_KEY_PREFIX [] VALUE_TYPE_NULL [] e)\<lparr>qe_prefixKey := key\<rparr>"

definition Query_SuggestIndex :: "string \<Rightarrow> QueryExpression \<Rightarrow> QueryExpression" where
  "Query_SuggestIndex indexName e = (add_node OPER_SUGGEST_INDEX indexName VALUE_TYPE_STRING [] e)\<lparr>qe_suggestIndex := bytes_of indexName\<rparr>"

definition Query_InKeys :: "Key set \<Rightarrow> QueryExpression \<Rightarrow> QueryExpression" where
  "Query_InKeys keys e = (add_node OPER_IN_KEYS [] VALUE_TYPE_NULL [] e)\<lparr>qe_keys := keys\<rparr>"

end
