(* ===== verification/Data_Query.thy ===== *)
theory Data_Query
  imports Query_Expression
begin

text \<open>
  \<^verbatim>\<open>frameworks/innerkitsimpl/distributeddatafwk/src/data_query.cpp\<close>: an application builds a query as a string of
  words, which travels to the data service.
\<close>

section \<open>Strings\<close>

definition EQUAL_TO :: string where "EQUAL_TO = ''^EQUAL''"
definition NOT_EQUAL_TO :: string where "NOT_EQUAL_TO = ''^NOT_EQUAL''"
definition kw_GREATER_THAN :: string where "kw_GREATER_THAN = ''^GREATER''"
definition kw_LESS_THAN :: string where "kw_LESS_THAN = ''^LESS''"
definition GREATER_THAN_OR_EQUAL_TO :: string where "GREATER_THAN_OR_EQUAL_TO = ''^GREATER_EQUAL''"
definition LESS_THAN_OR_EQUAL_TO :: string where "LESS_THAN_OR_EQUAL_TO = ''^LESS_EQUAL''"
definition kw_IS_NULL :: string where "kw_IS_NULL = ''^IS_NULL''"
definition kw_IN :: string where "kw_IN = ''^IN''"
definition kw_NOT_IN :: string where "kw_NOT_IN = ''^NOT_IN''"
definition kw_LIKE :: string where "kw_LIKE = ''^LIKE''"
definition kw_NOT_LIKE :: string where "kw_NOT_LIKE = ''^NOT_LIKE''"
definition kw_AND :: string where "kw_AND = ''^AND''"
definition kw_OR :: string where "kw_OR = ''^OR''"
definition ORDER_BY_ASC :: string where "ORDER_BY_ASC = ''^ASC''"
definition ORDER_BY_DESC :: string where "ORDER_BY_DESC = ''^DESC''"
definition kw_LIMIT :: string where "kw_LIMIT = ''^LIMIT''"
definition SPACE :: string where "SPACE = '' ''"
definition SPECIAL :: string where "SPECIAL = ''^''"
definition SPECIAL_ESCAPE :: string where "SPECIAL_ESCAPE = ''(^)''"
definition SPACE_ESCAPE :: string where "SPACE_ESCAPE = ''^^''"
definition EMPTY_STRING :: string where "EMPTY_STRING = ''^EMPTY_STRING''"
definition START_IN :: string where "START_IN = ''^START''"
definition END_IN :: string where "END_IN = ''^END''"
definition kw_BEGIN_GROUP :: string where "kw_BEGIN_GROUP = ''^BEGIN_GROUP''"
definition kw_END_GROUP :: string where "kw_END_GROUP = ''^END_GROUP''"
definition KEY_PREFIX :: string where "KEY_PREFIX = ''^KEY_PREFIX''"
definition DEVICE_ID :: string where "DEVICE_ID = ''^DEVICE_ID''"
definition kw_IS_NOT_NULL :: string where "kw_IS_NOT_NULL = ''^IS_NOT_NULL''"
definition TYPE_STRING :: string where "TYPE_STRING = ''STRING''"
definition TYPE_INTEGER :: string where "TYPE_INTEGER = ''INTEGER''"
definition TYPE_LONG :: string where "TYPE_LONG = ''LONG''"
definition TYPE_DOUBLE :: string where "TYPE_DOUBLE = ''DOUBLE''"
definition TYPE_BOOLEAN :: string where "TYPE_BOOLEAN = ''BOOL''"
definition VALUE_TRUE :: string where "VALUE_TRUE = ''true''"
definition VALUE_FALSE :: string where "VALUE_FALSE = ''false''"
definition SUGGEST_INDEX :: string where "SUGGEST_INDEX = ''^SUGGEST_INDEX''"
definition IN_KEYS :: string where "IN_KEYS = ''^IN_KEYS''"
definition MAX_QUERY_LENGTH :: nat where "MAX_QUERY_LENGTH = 5 * 1024"

text \<open>
  The loop \<^verbatim>\<open>index = s.find(pat, index); s.replace(index, pat.length(), rep); index += rep.length()\<close>, seen from
  \<^verbatim>\<open>index\<close> on. The loops of the code all have a pattern that is not empty.
\<close>

function replace_from :: "string \<Rightarrow> string \<Rightarrow> string \<Rightarrow> string" where
  "replace_from pat rep [] = []"
| "replace_from pat rep (c # s) =
     (if pat \<noteq> [] \<and> take (length pat) (c # s) = pat then rep @ replace_from pat rep (drop (length pat) (c # s))
      else c # replace_from pat rep s)"
  by pat_completeness auto
termination
  by (relation "measure (\<lambda>(pat, rep, s). length s)") auto

definition str_find :: "string \<Rightarrow> string \<Rightarrow> bool" where
  "str_find pat s = list_ex (\<lambda>n. take (length pat) (drop n s) = pat) [0..<Suc (length s)]"

text \<open>\<^verbatim>\<open>std::ostringstream << value\<close> for the integers and \<^verbatim>\<open>bool\<close> is the decimal notation.\<close>

fun print_nat :: "nat \<Rightarrow> string" where
  "print_nat n = (if n < 10 then [] else print_nat (n div 10)) @ [char_of (48 + n mod 10)]"

declare print_nat.simps [simp del]

definition print_int :: "int \<Rightarrow> string" where
  "print_int i = (if i < 0 then ''-'' @ print_nat (nat (- i)) else print_nat (nat i))"

fun BasicToString :: "query_env \<Rightarrow> query_value \<Rightarrow> string" where
  "BasicToString env (VInt v) = print_int (sint v)"
| "BasicToString env (VLong v) = print_int (sint v)"
| "BasicToString env (VDouble v) = printDouble env v"
| "BasicToString env (VBool v) = print_int (of_bool v)"
| "BasicToString env (VString v) = v"

section \<open>The builder\<close>

record DataQuery =
  dq_str :: string
  dq_inkeysFlag :: bool

definition DataQuery_init :: DataQuery where "DataQuery_init = \<lparr>dq_str = [], dq_inkeysFlag = False\<rparr>"

definition append_str :: "string list \<Rightarrow> DataQuery \<Rightarrow> DataQuery" where
  "append_str ss dq = dq\<lparr>dq_str := dq_str dq @ concat ss\<rparr>"

definition DataQuery_Reset :: "DataQuery \<Rightarrow> DataQuery" where
  "DataQuery_Reset dq = dq\<lparr>dq_str := [], dq_inkeysFlag := False\<rparr>"

definition EscapeSpace :: "string \<Rightarrow> string" where
  "EscapeSpace input =
     (let input = (if length input = 0 then EMPTY_STRING else input);
          input = replace_from SPECIAL SPECIAL_ESCAPE input
      in replace_from SPACE SPACE_ESCAPE input)"

definition ValidateField :: "string \<Rightarrow> bool" where
  "ValidateField field \<longleftrightarrow> \<not> (field = [] \<or> str_find SPECIAL field)"

definition AppendCommon :: "query_env \<Rightarrow> string \<Rightarrow> string \<Rightarrow> string \<Rightarrow> query_value \<Rightarrow> DataQuery \<Rightarrow> DataQuery" where
  "AppendCommon env keyword fieldType field value =
     append_str [SPACE, keyword, SPACE, fieldType, SPACE, EscapeSpace field, SPACE, BasicToString env value]"

definition AppendCommonString :: "string \<Rightarrow> string \<Rightarrow> string \<Rightarrow> string \<Rightarrow> DataQuery \<Rightarrow> DataQuery" where
  "AppendCommonString keyword fieldType field value =
     append_str [SPACE, keyword, SPACE, fieldType, SPACE, EscapeSpace field, SPACE, EscapeSpace value]"

definition AppendCommonBoolean :: "string \<Rightarrow> string \<Rightarrow> string \<Rightarrow> bool \<Rightarrow> DataQuery \<Rightarrow> DataQuery" where
  "AppendCommonBoolean keyword fieldType field value =
     append_str [SPACE, keyword, SPACE, fieldType, SPACE, EscapeSpace field, SPACE, if value then VALUE_TRUE else VALUE_FALSE]"

definition AppendCommonString_untyped :: "string \<Rightarrow> string \<Rightarrow> string \<Rightarrow> DataQuery \<Rightarrow> DataQuery" where
  "AppendCommonString_untyped keyword field value =
     append_str [SPACE, keyword, SPACE, EscapeSpace field, SPACE, EscapeSpace value]"

definition AppendCommonList :: "query_env \<Rightarrow> string \<Rightarrow> string \<Rightarrow> string \<Rightarrow> query_value list \<Rightarrow> DataQuery \<Rightarrow> DataQuery" where
  "AppendCommonList env keyword fieldType field valueList =
     append_str ([SPACE, keyword, SPACE, fieldType, SPACE, EscapeSpace field, SPACE, START_IN, SPACE]
       @ concat (map (\<lambda>object. [BasicToString env object, SPACE]) valueList) @ [END_IN])"

definition AppendCommonListString :: "string \<Rightarrow> string \<Rightarrow> string \<Rightarrow> string list \<Rightarrow> DataQuery \<Rightarrow> DataQuery" where
  "AppendCommonListString keyword fieldType field valueList =
     append_str ([SPACE, keyword, SPACE, fieldType, SPACE, EscapeSpace field, SPACE, START_IN, SPACE]
       @ concat (map (\<lambda>str. [EscapeSpace str, SPACE]) valueList) @ [END_IN])"

text \<open>
  The overloads of the comparisons. \<^verbatim>\<open>EqualTo\<close> and \<^verbatim>\<open>NotEqualTo\<close> have one for \<^verbatim>\<open>bool\<close>; for the others a
  \<^verbatim>\<open>bool\<close> argument is promoted to \<^verbatim>\<open>int\<close>.
\<close>

fun append_value :: "query_env \<Rightarrow> string \<Rightarrow> string \<Rightarrow> query_value \<Rightarrow> DataQuery \<Rightarrow> DataQuery" where
  "append_value env keyword field (VInt v) = AppendCommon env keyword TYPE_INTEGER field (VInt v)"
| "append_value env keyword field (VLong v) = AppendCommon env keyword TYPE_LONG field (VLong v)"
| "append_value env keyword field (VDouble v) = AppendCommon env keyword TYPE_DOUBLE field (VDouble v)"
| "append_value env keyword field (VString v) = AppendCommonString keyword TYPE_STRING field v"
| "append_value env keyword field (VBool v) = AppendCommonBoolean keyword TYPE_BOOLEAN field v"

fun promoted :: "query_value \<Rightarrow> query_value" where
  "promoted (VBool b) = VInt (of_bool b)"
| "promoted v = v"

definition EqualTo :: "query_env \<Rightarrow> string \<Rightarrow> query_value \<Rightarrow> DataQuery \<Rightarrow> DataQuery" where
  "EqualTo env field value dq = (if ValidateField field then append_value env EQUAL_TO field value dq else dq)"

definition NotEqualTo :: "query_env \<Rightarrow> string \<Rightarrow> query_value \<Rightarrow> DataQuery \<Rightarrow> DataQuery" where
  "NotEqualTo env field value dq = (if ValidateField field then append_value env NOT_EQUAL_TO field value dq else dq)"

definition GreaterThan :: "query_env \<Rightarrow> string \<Rightarrow> query_value \<Rightarrow> DataQuery \<Rightarrow> DataQuery" where
  "GreaterThan env field value dq = (if ValidateField field then append_value env kw_GREATER_THAN field (promoted value) dq else dq)"

definition LessThan :: "query_env \<Rightarrow> string \<Rightarrow> query_value \<Rightarrow> DataQuery \<Rightarrow> DataQuery" where
  "LessThan env field value dq = (if ValidateField field then append_value env kw_LESS_THAN field (promoted value) dq else dq)"

definition GreaterThanOrEqualTo :: "query_env \<Rightarrow> string \<Rightarrow> query_value \<Rightarrow> DataQuery \<Rightarrow> DataQuery" where
  "GreaterThanOrEqualTo env field value dq =
     (if ValidateField field then append_value env GREATER_THAN_OR_EQUAL_TO field (promoted value) dq else dq)"

definition LessThanOrEqualTo :: "query_env \<Rightarrow> string \<Rightarrow> query_value \<Rightarrow> DataQuery \<Rightarrow> DataQuery" where
  "LessThanOrEqualTo env field value dq =
     (if ValidateField field then append_value env LESS_THAN_OR_EQUAL_TO field (promoted value) dq else dq)"

definition append_field :: "string \<Rightarrow> string \<Rightarrow> DataQuery \<Rightarrow> DataQuery" where
  "append_field keyword field = append_str [SPACE, keyword, SPACE, EscapeSpace field]"

definition IsNull :: "string \<Rightarrow> DataQuery \<Rightarrow> DataQuery" where
  "IsNull field dq = (if ValidateField field then append_field kw_IS_NULL field dq else dq)"

definition IsNotNull :: "string \<Rightarrow> DataQuery \<Rightarrow> DataQuery" where
  "IsNotNull field dq = (if ValidateField field then append_field kw_IS_NOT_NULL field dq else dq)"

fun append_values :: "query_env \<Rightarrow> string \<Rightarrow> string \<Rightarrow> query_values \<Rightarrow> DataQuery \<Rightarrow> DataQuery" where
  "append_values env keyword field (VInts vs) = AppendCommonList env keyword TYPE_INTEGER field (map VInt vs)"
| "append_values env keyword field (VLongs vs) = AppendCommonList env keyword TYPE_LONG field (map VLong vs)"
| "append_values env keyword field (VDoubles vs) = AppendCommonList env keyword TYPE_DOUBLE field (map VDouble vs)"
| "append_values env keyword field (VStrings vs) = AppendCommonListString keyword TYPE_STRING field vs"

definition DataQuery_In :: "query_env \<Rightarrow> string \<Rightarrow> query_values \<Rightarrow> DataQuery \<Rightarrow> DataQuery" where
  "DataQuery_In env field valueList dq = (if ValidateField field then append_values env kw_IN field valueList dq else dq)"

definition NotIn :: "query_env \<Rightarrow> string \<Rightarrow> query_values \<Rightarrow> DataQuery \<Rightarrow> DataQuery" where
  "NotIn env field valueList dq = (if ValidateField field then append_values env kw_NOT_IN field valueList dq else dq)"

definition Like :: "string \<Rightarrow> string \<Rightarrow> DataQuery \<Rightarrow> DataQuery" where
  "Like field value dq = (if ValidateField field then AppendCommonString_untyped kw_LIKE field value dq else dq)"

definition Unlike :: "string \<Rightarrow> string \<Rightarrow> DataQuery \<Rightarrow> DataQuery" where
  "Unlike field value dq = (if ValidateField field then AppendCommonString_untyped kw_NOT_LIKE field value dq else dq)"

definition DataQuery_And :: "DataQuery \<Rightarrow> DataQuery" where
  "DataQuery_And = append_str [SPACE, kw_AND]"

definition DataQuery_Or :: "DataQuery \<Rightarrow> DataQuery" where
  "DataQuery_Or = append_str [SPACE, kw_OR]"

definition OrderByAsc :: "string \<Rightarrow> DataQuery \<Rightarrow> DataQuery" where
  "OrderByAsc field dq = (if ValidateField field then append_field ORDER_BY_ASC field dq else dq)"

definition OrderByDesc :: "string \<Rightarrow> DataQuery \<Rightarrow> DataQuery" where
  "OrderByDesc field dq = (if ValidateField field then append_field ORDER_BY_DESC field dq else dq)"

definition Limit :: "query_env \<Rightarrow> u32 \<Rightarrow> u32 \<Rightarrow> DataQuery \<Rightarrow> DataQuery" where
  "Limit env number offset dq =
     (if sint number < 0 \<or> sint offset < 0 then dq
      else append_str [SPACE, kw_LIMIT, SPACE, BasicToString env (VInt number), SPACE, BasicToString env (VInt offset)] dq)"

definition BeginGroup :: "DataQuery \<Rightarrow> DataQuery" where
  "BeginGroup = append_str [SPACE, kw_BEGIN_GROUP]"

definition EndGroup :: "DataQuery \<Rightarrow> DataQuery" where
  "EndGroup = append_str [SPACE, kw_END_GROUP]"

definition KeyPrefix :: "string \<Rightarrow> DataQuery \<Rightarrow> DataQuery" where
  "KeyPrefix prefix dq = (if ValidateField prefix then append_field KEY_PREFIX prefix dq else dq)"

definition DeviceId :: "string \<Rightarrow> DataQuery \<Rightarrow> DataQuery" where
  "DeviceId deviceId dq =
     (if ValidateField deviceId then dq\<lparr>dq_str := concat [SPACE, DEVICE_ID, SPACE, EscapeSpace deviceId] @ dq_str dq\<rparr> else dq)"

definition SetSuggestIndex :: "string \<Rightarrow> DataQuery \<Rightarrow> DataQuery" where
  "SetSuggestIndex index dq = (if ValidateField index then append_field SUGGEST_INDEX index dq else dq)"

definition InKeys :: "string list \<Rightarrow> DataQuery \<Rightarrow> DataQuery" where
  "InKeys keys dq =
     (if keys = [] then dq
      else if dq_inkeysFlag dq then dq
      else append_str ([SPACE, IN_KEYS, SPACE, START_IN, SPACE]
             @ concat (map (\<lambda>key. if ValidateField key then [EscapeSpace key, SPACE] else []) keys) @ [END_IN])
             (dq\<lparr>dq_inkeysFlag := True\<rparr>))"

definition ToString :: "DataQuery \<Rightarrow> string" where
  "ToString dq = (if length (dq_str dq) > MAX_QUERY_LENGTH then [] else dq_str dq)"

section \<open>Escaped words\<close>

lemma replace_char: "replace_from [a] rep s = concat (map (\<lambda>c. if c = a then rep else [c]) s)"
  by (induction s) auto

definition esc :: "char \<Rightarrow> string" where
  "esc c = (if c = CHR ''^'' then ''(^)'' else if c = CHR '' '' then ''^^'' else [c])"

lemma EscapeSpace_eq:
  assumes "s \<noteq> []"
  shows "EscapeSpace s = concat (map esc s)"
proof -
  have "concat (map (\<lambda>c. if c = CHR '' '' then ''^^'' else [c]) (concat (map (\<lambda>c. if c = CHR ''^'' then ''(^)'' else [c]) s))) = concat (map esc s)"
    by (induction s) (simp_all add: esc_def)
  then show ?thesis using assms by (simp add: EscapeSpace_def SPECIAL_def SPECIAL_ESCAPE_def SPACE_def SPACE_ESCAPE_def replace_char)
qed

lemma EscapeSpace_empty: "EscapeSpace [] = ''(^)EMPTY_STRING''"
  by (simp add: EscapeSpace_def SPECIAL_def SPECIAL_ESCAPE_def SPACE_def SPACE_ESCAPE_def replace_char EMPTY_STRING_def)

text \<open>A word of the string: not empty and without a space.\<close>

definition is_word :: "string \<Rightarrow> bool" where
  "is_word w \<longleftrightarrow> w \<noteq> [] \<and> CHR '' '' \<notin> set w"

lemma EscapeSpace_word: "is_word (EscapeSpace s)"
proof (cases "s = []")
  case True
  then show ?thesis unfolding True EscapeSpace_empty by (simp add: is_word_def)
next
  case False
  then show ?thesis by (cases s) (auto simp: EscapeSpace_eq is_word_def esc_def split: if_splits)
qed

lemma print_nat_chars: "print_nat n \<noteq> []" "list_all isdigit (print_nat n)"
proof -
  have "print_nat n \<noteq> [] \<and> list_all isdigit (print_nat n)"
  proof (induction n rule: print_nat.induct)
    case (1 n)
    have "isdigit (char_of (48 + n mod 10))" by (simp add: isdigit_def Let_def)
    then show ?case using 1 by (subst (1 2) print_nat.simps) auto
  qed
  then show "print_nat n \<noteq> []" "list_all isdigit (print_nat n)" by simp_all
qed

lemma print_int_word: "is_word (print_int i)"
proof -
  have "\<not> isdigit (CHR '' '')" by (simp add: isdigit_def)
  then have "CHR '' '' \<notin> set (print_nat n)" for n using print_nat_chars(2)[of n] by (auto simp: list_all_iff)
  then show ?thesis using print_nat_chars(1) by (simp add: print_int_def is_word_def)
qed

end
