(* ===== verification/Query_Helper.thy ===== *)
theory Query_Helper
  imports Data_Query "HOL-Library.Sublist"
begin

text \<open>
  \<^verbatim>\<open>app/src/query_helper.cpp\<close>: the data service turns the string of a query into a query of the store. The
  string that an application builds is shown to give the query it meant.
\<close>

section \<open>Model\<close>

subsection \<open>Words\<close>

text \<open>
  \<^verbatim>\<open>std::sregex_token_iterator\<close> for the text between the spaces: a space at the very end does not start
  another token, and a string without a space is one token.
\<close>

fun split_spaces :: "string \<Rightarrow> string \<Rightarrow> string list" where
  "split_spaces w [] = [rev w]"
| "split_spaces w (c # s) = (if c = CHR '' '' then rev w # split_spaces [] s else split_spaces (c # w) s)"

definition tokens :: "string \<Rightarrow> string list" where
  "tokens s = (let ws = split_spaces [] s in if length ws > 1 \<and> last ws = [] then butlast ws else ws)"

definition isspace :: "char \<Rightarrow> bool" where
  "isspace c \<longleftrightarrow> (let n = of_char c :: nat in 9 \<le> n \<and> n \<le> 13 \<or> n = 32)"

definition digit_value :: "char \<Rightarrow> nat" where
  "digit_value c = of_char c - 48"

definition scan_nat :: "string \<Rightarrow> nat" where
  "scan_nat s = foldl (\<lambda>n c. 10 * n + digit_value c) 0 s"

text \<open>
  \<^verbatim>\<open>std::istringstream(word) >> result\<close>: white space is skipped, an optional sign and digits are read. A number
  out of range gives the nearest limit, a word without digits 0; a word without any character leaves the
  variable as it was, uninitialised.
\<close>

definition scan_int :: "query_env \<Rightarrow> int \<Rightarrow> int \<Rightarrow> string \<Rightarrow> int" where
  "scan_int env lo hi word =
     (let word = dropWhile isspace word
      in if word = [] then uninitInt env
         else let neg = (hd word = CHR ''-'');
                  digits = takeWhile isdigit (if neg \<or> hd word = CHR ''+'' then tl word else word);
                  n = int (scan_nat digits)
              in if digits = [] then 0 else max lo (min hi (if neg then - n else n)))"

definition StringToInt :: "query_env \<Rightarrow> string \<Rightarrow> u32" where
  "StringToInt env word = word_of_int (scan_int env (- (2 ^ 31)) (2 ^ 31 - 1) word)"

definition QueryHelper_StringToLong :: "query_env \<Rightarrow> string \<Rightarrow> u64" where
  "QueryHelper_StringToLong env word = word_of_int (scan_int env (- (2 ^ 63)) (2 ^ 63 - 1) word)"

definition StringToDouble :: "query_env \<Rightarrow> string \<Rightarrow> u64" where
  "StringToDouble env word = scanDouble env word"

definition StringToBoolean :: "string \<Rightarrow> bool" where
  "StringToBoolean word = (if word = VALUE_TRUE then True else if word = VALUE_FALSE then False else False)"

definition StringToString :: "string \<Rightarrow> string" where
  "StringToString word =
     (if word = EMPTY_STRING then []
      else let result = replace_from SPACE_ESCAPE SPACE word in replace_from SPECIAL_ESCAPE SPECIAL result)"

text \<open>The elements up to \<^verbatim>\<open>^END\<close> and their number, if it is there.\<close>

fun scan_list :: "(string \<Rightarrow> 'a) \<Rightarrow> string list \<Rightarrow> 'a list option \<times> nat" where
  "scan_list f [] = (None, 0)"
| "scan_list f (w # ws) = (if w = END_IN then (Some [], 0) else let (vs, n) = scan_list f ws in (map_option ((#) (f w)) vs, Suc n))"

definition get_list :: "(string \<Rightarrow> 'a) \<Rightarrow> string list \<Rightarrow> nat \<Rightarrow> 'a list \<times> nat" where
  "get_list f words elementPointer =
     (let (vs, n) = scan_list f (drop elementPointer words)
      in (case vs of None \<Rightarrow> [] | Some valueList \<Rightarrow> valueList, elementPointer + n))"

definition GetIntegerList :: "query_env \<Rightarrow> string list \<Rightarrow> nat \<Rightarrow> u32 list \<times> nat" where
  "GetIntegerList env = get_list (StringToInt env)"

definition GetLongList :: "query_env \<Rightarrow> string list \<Rightarrow> nat \<Rightarrow> u64 list \<times> nat" where
  "GetLongList env = get_list (QueryHelper_StringToLong env)"

definition GetDoubleList :: "query_env \<Rightarrow> string list \<Rightarrow> nat \<Rightarrow> u64 list \<times> nat" where
  "GetDoubleList env = get_list (StringToDouble env)"

definition GetStringList :: "string list \<Rightarrow> nat \<Rightarrow> string list \<times> nat" where
  "GetStringList = get_list StringToString"

subsection \<open>Handlers\<close>

text \<open>
  A handler reads the words from the pointer on; it returns the pointer of the next keyword and the query,
  or \<open>None\<close> when it sets \<^verbatim>\<open>isSuccess\<close> to false. The static members are a part of the state.
\<close>

record QueryHelper =
  qh_deviceId :: string
  qh_hasPrefixKey :: bool
  qh_dbQuery :: QueryExpression

definition change :: "(QueryExpression \<Rightarrow> QueryExpression) \<Rightarrow> QueryHelper \<Rightarrow> QueryHelper" where
  "change f h = h\<lparr>qh_dbQuery := f (qh_dbQuery h)\<rparr>"

definition typed_value :: "query_env \<Rightarrow> bool \<Rightarrow> string \<Rightarrow> string \<Rightarrow> query_value option" where
  "typed_value env withBool fieldType fieldValue =
     (if fieldType = TYPE_INTEGER then Some (VInt (StringToInt env fieldValue))
      else if fieldType = TYPE_LONG then Some (VLong (QueryHelper_StringToLong env fieldValue))
      else if fieldType = TYPE_DOUBLE then Some (VDouble (StringToDouble env fieldValue))
      else if fieldType = TYPE_BOOLEAN \<and> withBool then Some (VBool (StringToBoolean fieldValue))
      else if fieldType = TYPE_STRING then Some (VString (StringToString fieldValue))
      else None)"

definition handle_compare ::
  "query_env \<Rightarrow> bool \<Rightarrow> (string \<Rightarrow> query_value \<Rightarrow> QueryExpression \<Rightarrow> QueryExpression) \<Rightarrow> string list \<Rightarrow> nat \<Rightarrow> QueryHelper \<Rightarrow> (nat \<times> QueryHelper) option" where
  "handle_compare env withBool f words pointer h =
     (if \<not> pointer + 3 < length words then None
      else case typed_value env withBool (words ! (pointer + 1)) (words ! (pointer + 3)) of
        None \<Rightarrow> None
      | Some value \<Rightarrow> Some (pointer + 4, change (f (StringToString (words ! (pointer + 2))) value) h))"

definition HandleEqualTo :: "query_env \<Rightarrow> string list \<Rightarrow> nat \<Rightarrow> QueryHelper \<Rightarrow> (nat \<times> QueryHelper) option" where
  "HandleEqualTo env = handle_compare env True (Query_EqualTo env)"

definition HandleNotEqualTo :: "query_env \<Rightarrow> string list \<Rightarrow> nat \<Rightarrow> QueryHelper \<Rightarrow> (nat \<times> QueryHelper) option" where
  "HandleNotEqualTo env = handle_compare env True (Query_NotEqualTo env)"

definition HandleGreaterThan :: "query_env \<Rightarrow> string list \<Rightarrow> nat \<Rightarrow> QueryHelper \<Rightarrow> (nat \<times> QueryHelper) option" where
  "HandleGreaterThan env = handle_compare env False (Query_GreaterThan env)"

definition HandleLessThan :: "query_env \<Rightarrow> string list \<Rightarrow> nat \<Rightarrow> QueryHelper \<Rightarrow> (nat \<times> QueryHelper) option" where
  "HandleLessThan env = handle_compare env False (Query_LessThan env)"

definition HandleGreaterThanOrEqualTo :: "query_env \<Rightarrow> string list \<Rightarrow> nat \<Rightarrow> QueryHelper \<Rightarrow> (nat \<times> QueryHelper) option" where
  "HandleGreaterThanOrEqualTo env = handle_compare env False (Query_GreaterThanOrEqualTo env)"

definition HandleLessThanOrEqualTo :: "query_env \<Rightarrow> string list \<Rightarrow> nat \<Rightarrow> QueryHelper \<Rightarrow> (nat \<times> QueryHelper) option" where
  "HandleLessThanOrEqualTo env = handle_compare env False (Query_LessThanOrEqualTo env)"

definition handle_field ::
  "(string \<Rightarrow> QueryExpression \<Rightarrow> QueryExpression) \<Rightarrow> string list \<Rightarrow> nat \<Rightarrow> QueryHelper \<Rightarrow> (nat \<times> QueryHelper) option" where
  "handle_field f words pointer h =
     (if \<not> pointer + 1 < length words then None
      else Some (pointer + 2, change (f (StringToString (words ! (pointer + 1)))) h))"

definition HandleIsNull :: "string list \<Rightarrow> nat \<Rightarrow> QueryHelper \<Rightarrow> (nat \<times> QueryHelper) option" where
  "HandleIsNull = handle_field Query_IsNull"

definition HandleIsNotNull :: "string list \<Rightarrow> nat \<Rightarrow> QueryHelper \<Rightarrow> (nat \<times> QueryHelper) option" where
  "HandleIsNotNull = handle_field Query_IsNotNull"

definition typed_values :: "query_env \<Rightarrow> string \<Rightarrow> string list \<Rightarrow> nat \<Rightarrow> (query_values \<times> nat) option" where
  "typed_values env fieldType words elementPointer =
     (if fieldType = TYPE_INTEGER then Some (map_prod VInts id (GetIntegerList env words elementPointer))
      else if fieldType = TYPE_LONG then Some (map_prod VLongs id (GetLongList env words elementPointer))
      else if fieldType = TYPE_DOUBLE then Some (map_prod VDoubles id (GetDoubleList env words elementPointer))
      else if fieldType = TYPE_STRING then Some (map_prod VStrings id (GetStringList words elementPointer))
      else None)"

definition handle_in ::
  "query_env \<Rightarrow> (string \<Rightarrow> query_values \<Rightarrow> QueryExpression \<Rightarrow> QueryExpression) \<Rightarrow> string list \<Rightarrow> nat \<Rightarrow> QueryHelper \<Rightarrow> (nat \<times> QueryHelper) option" where
  "handle_in env f words pointer h =
     (if \<not> pointer + 4 < length words \<or> words ! (pointer + 3) \<noteq> START_IN then None
      else case typed_values env (words ! (pointer + 1)) words (pointer + 4) of
        None \<Rightarrow> None
      | Some (values, elementPointer) \<Rightarrow> Some (elementPointer + 1, change (f (StringToString (words ! (pointer + 2))) values) h))"

definition HandleIn :: "query_env \<Rightarrow> string list \<Rightarrow> nat \<Rightarrow> QueryHelper \<Rightarrow> (nat \<times> QueryHelper) option" where
  "HandleIn env = handle_in env (Query_In env)"

definition HandleNotIn :: "query_env \<Rightarrow> string list \<Rightarrow> nat \<Rightarrow> QueryHelper \<Rightarrow> (nat \<times> QueryHelper) option" where
  "HandleNotIn env = handle_in env (Query_NotIn env)"

definition handle_like ::
  "(string \<Rightarrow> string \<Rightarrow> QueryExpression \<Rightarrow> QueryExpression) \<Rightarrow> string list \<Rightarrow> nat \<Rightarrow> QueryHelper \<Rightarrow> (nat \<times> QueryHelper) option" where
  "handle_like f words pointer h =
     (if \<not> pointer + 2 < length words then None
      else Some (pointer + 3, change (f (StringToString (words ! (pointer + 1))) (StringToString (words ! (pointer + 2)))) h))"

definition HandleLike :: "string list \<Rightarrow> nat \<Rightarrow> QueryHelper \<Rightarrow> (nat \<times> QueryHelper) option" where
  "HandleLike = handle_like Query_Like"

definition HandleNotLike :: "string list \<Rightarrow> nat \<Rightarrow> QueryHelper \<Rightarrow> (nat \<times> QueryHelper) option" where
  "HandleNotLike = handle_like Query_NotLike"

definition HandleAnd :: "nat \<Rightarrow> QueryHelper \<Rightarrow> (nat \<times> QueryHelper) option" where
  "HandleAnd pointer h = Some (pointer + 1, change Query_And h)"

definition HandleOr :: "nat \<Rightarrow> QueryHelper \<Rightarrow> (nat \<times> QueryHelper) option" where
  "HandleOr pointer h = Some (pointer + 1, change Query_Or h)"

definition HandleOrderByAsc :: "query_env \<Rightarrow> string list \<Rightarrow> nat \<Rightarrow> QueryHelper \<Rightarrow> (nat \<times> QueryHelper) option" where
  "HandleOrderByAsc env = handle_field (\<lambda>field. Query_OrderBy env field True)"

definition HandleOrderByDesc :: "query_env \<Rightarrow> string list \<Rightarrow> nat \<Rightarrow> QueryHelper \<Rightarrow> (nat \<times> QueryHelper) option" where
  "HandleOrderByDesc env = handle_field (\<lambda>field. Query_OrderBy env field False)"

definition HandleLimit :: "query_env \<Rightarrow> string list \<Rightarrow> nat \<Rightarrow> QueryHelper \<Rightarrow> (nat \<times> QueryHelper) option" where
  "HandleLimit env words pointer h =
     (if \<not> pointer + 2 < length words then None
      else Some (pointer + 3,
        change (Query_Limit env (StringToInt env (words ! (pointer + 1))) (StringToInt env (words ! (pointer + 2)))) h))"

definition HandleBeginGroup :: "nat \<Rightarrow> QueryHelper \<Rightarrow> (nat \<times> QueryHelper) option" where
  "HandleBeginGroup pointer h = Some (pointer + 1, change Query_BeginGroup h)"

definition HandleEndGroup :: "nat \<Rightarrow> QueryHelper \<Rightarrow> (nat \<times> QueryHelper) option" where
  "HandleEndGroup pointer h = Some (pointer + 1, change Query_EndGroup h)"

definition HandleKeyPrefix :: "string list \<Rightarrow> nat \<Rightarrow> QueryHelper \<Rightarrow> (nat \<times> QueryHelper) option" where
  "HandleKeyPrefix words pointer h =
     (if \<not> pointer + 1 < length words then None
      else Some (pointer + 2, change (Query_PrefixKey (bytes_of (qh_deviceId h @ StringToString (words ! (pointer + 1))))) h))"

definition HandleInKeys :: "string list \<Rightarrow> nat \<Rightarrow> QueryHelper \<Rightarrow> (nat \<times> QueryHelper) option" where
  "HandleInKeys words pointer h =
     (let startInOffSet = pointer + 1
      in if \<not> pointer + 2 < length words \<or> words ! startInOffSet \<noteq> START_IN then None
         else let (inKeys, endOffSet) = GetStringList words (startInOffSet + 1)
              in Some (endOffSet + 1, change (Query_InKeys (bytes_of ` set inKeys)) h))"

definition HandleSetSuggestIndex :: "string list \<Rightarrow> nat \<Rightarrow> QueryHelper \<Rightarrow> (nat \<times> QueryHelper) option" where
  "HandleSetSuggestIndex = handle_field Query_SuggestIndex"

definition HandleDeviceId :: "query_env \<Rightarrow> string list \<Rightarrow> nat \<Rightarrow> QueryHelper \<Rightarrow> (nat \<times> QueryHelper) option" where
  "HandleDeviceId env words pointer h =
     (if \<not> pointer + 1 < length words then None
      else let h = h\<lparr>qh_deviceId := GetUuidByNodeId env (StringToString (words ! (pointer + 1)))\<rparr>
           in Some (pointer + 2, if \<not> qh_hasPrefixKey h then change (Query_PrefixKey (bytes_of (qh_deviceId h))) h else h))"

definition HandleExtra :: "query_env \<Rightarrow> string list \<Rightarrow> nat \<Rightarrow> QueryHelper \<Rightarrow> (nat \<times> QueryHelper) option" where
  "HandleExtra env words pointer h =
     (let keyword = words ! pointer
      in if keyword = kw_BEGIN_GROUP then HandleBeginGroup pointer h
         else if keyword = kw_END_GROUP then HandleEndGroup pointer h
         else if keyword = KEY_PREFIX then HandleKeyPrefix words pointer h
         else if keyword = kw_IS_NOT_NULL then HandleIsNotNull words pointer h
         else if keyword = DEVICE_ID then HandleDeviceId env words pointer h
         else if keyword = SUGGEST_INDEX then HandleSetSuggestIndex words pointer h
         else if keyword = IN_KEYS then HandleInKeys words pointer h
         else None)"

definition Handle :: "query_env \<Rightarrow> string list \<Rightarrow> nat \<Rightarrow> QueryHelper \<Rightarrow> (nat \<times> QueryHelper) option" where
  "Handle env words pointer h =
     (let keyword = words ! pointer
      in if keyword = kw_IS_NULL then HandleIsNull words pointer h
         else if keyword = kw_IN then HandleIn env words pointer h
         else if keyword = kw_NOT_IN then HandleNotIn env words pointer h
         else if keyword = kw_LIKE then HandleLike words pointer h
         else if keyword = kw_NOT_LIKE then HandleNotLike words pointer h
         else if keyword = kw_AND then HandleAnd pointer h
         else if keyword = kw_OR then HandleOr pointer h
         else if keyword = ORDER_BY_ASC then HandleOrderByAsc env words pointer h
         else if keyword = ORDER_BY_DESC then HandleOrderByDesc env words pointer h
         else if keyword = kw_LIMIT then HandleLimit env words pointer h
         else HandleExtra env words pointer h)"

definition handle_keyword :: "query_env \<Rightarrow> string list \<Rightarrow> nat \<Rightarrow> QueryHelper \<Rightarrow> (nat \<times> QueryHelper) option" where
  "handle_keyword env words pointer h =
     (let keyword = words ! pointer
      in if keyword = EQUAL_TO then HandleEqualTo env words pointer h
         else if keyword = NOT_EQUAL_TO then HandleNotEqualTo env words pointer h
         else if keyword = kw_GREATER_THAN then HandleGreaterThan env words pointer h
         else if keyword = kw_LESS_THAN then HandleLessThan env words pointer h
         else if keyword = GREATER_THAN_OR_EQUAL_TO then HandleGreaterThanOrEqualTo env words pointer h
         else if keyword = LESS_THAN_OR_EQUAL_TO then HandleLessThanOrEqualTo env words pointer h
         else Handle env words pointer h)"

subsection \<open>The whole string\<close>

definition MAX_QUERY_COMPLEXITY :: nat where "MAX_QUERY_COMPLEXITY = 500"

text \<open>The loop while \<^verbatim>\<open>pointer <= end && count <= MAX_QUERY_COMPLEXITY\<close>; \<open>n\<close> is how often it may still run.\<close>

fun handle_keywords :: "query_env \<Rightarrow> string list \<Rightarrow> nat \<Rightarrow> nat \<Rightarrow> QueryHelper \<Rightarrow> QueryHelper option" where
  "handle_keywords env words 0 pointer h = Some h"
| "handle_keywords env words (Suc n) pointer h =
     (if \<not> pointer < length words then Some h
      else case handle_keyword env words pointer h of
        None \<Rightarrow> None
      | Some (pointer, h) \<Rightarrow> handle_keywords env words n pointer h)"

definition StringToDbQuery :: "query_env \<Rightarrow> string \<Rightarrow> QueryExpression \<times> bool" where
  "StringToDbQuery env query =
     (if query = [] then (Select, True)
      else if length query > MAX_QUERY_LENGTH then (Select, False)
      else let inputTrim = dropWhile (\<lambda>c. c = CHR '' '') query;
               h = \<lparr>qh_deviceId = [], qh_hasPrefixKey = str_find KEY_PREFIX query, qh_dbQuery = Select\<rparr>
           in case handle_keywords env (tokens inputTrim) (MAX_QUERY_COMPLEXITY + 1) 0 h of
                None \<Rightarrow> (Select, False)
              | Some h \<Rightarrow> (qh_dbQuery h, True))"

section \<open>Words and their values\<close>

lemma unescape_space: "replace_from ''^^'' '' '' (concat (map esc s)) = concat (map (\<lambda>c. if c = CHR ''^'' then ''(^)'' else [c]) s)"
  by (induction s) (auto simp: esc_def)

lemma unescape_special: "replace_from ''(^)'' ''^'' (concat (map (\<lambda>c. if c = CHR ''^'' then ''(^)'' else [c]) s)) = s"
proof (induction s)
  case (Cons c s)
  have "take 2 (concat (map (\<lambda>c. if c = CHR ''^'' then ''(^)'' else [c]) s)) \<noteq> ''^)''" by (cases s) auto
  then show ?case using Cons by (auto simp: numeral_3_eq_3 numeral_2_eq_2)
qed simp

lemma escaped_starts: "s \<noteq> [] \<Longrightarrow> concat (map esc s) \<noteq> CHR ''^'' # CHR ''E'' # t"
  by (cases s) (auto simp: esc_def split: if_splits)

lemma StringToString_EscapeSpace:
  assumes "s \<noteq> []"
  shows "StringToString (EscapeSpace s) = s"
  using escaped_starts[OF assms] unfolding EscapeSpace_eq[OF assms]
  by (simp add: StringToString_def EMPTY_STRING_def SPACE_ESCAPE_def SPACE_def SPECIAL_ESCAPE_def SPECIAL_def unescape_space unescape_special)

lemma EscapeSpace_not_end: "EscapeSpace s \<noteq> END_IN"
proof (cases "s = []")
  case True
  then show ?thesis unfolding True EscapeSpace_empty by (simp add: END_IN_def)
next
  case False
  then show ?thesis using escaped_starts[OF False] by (simp add: EscapeSpace_eq END_IN_def)
qed

lemma scan_print_nat: "scan_nat (print_nat n) = n"
proof (induction n rule: print_nat.induct)
  case (1 n)
  have "scan_nat (print_nat n) = 10 * (if n < 10 then 0 else scan_nat (print_nat (n div 10))) + n mod 10"
    by (subst print_nat.simps) (simp add: scan_nat_def digit_value_def)
  then show ?case using 1 by (cases "n < 10") simp_all
qed

lemma takeWhile_print: "takeWhile isdigit (print_nat n) = print_nat n"
  using print_nat_chars(2)[of n] by (simp add: takeWhile_eq_all_conv list_all_iff)

lemma scan_print_int:
  assumes "lo \<le> i" "i \<le> hi"
  shows "scan_int env lo hi (print_int i) = i"
proof -
  have d: "\<not> isspace c" "c \<noteq> CHR ''-''" "c \<noteq> CHR ''+''" if "isdigit c" for c using that by (auto simp: isdigit_def isspace_def Let_def)
  have hd: "isdigit (hd (print_nat n))" for n using print_nat_chars[of n] by (cases "print_nat n") auto
  have sp: "dropWhile isspace (print_nat n) = print_nat n" for n using d(1)[OF hd[of n]] print_nat_chars(1)[of n] by (cases "print_nat n") auto
  have "\<not> isspace (CHR ''-'')" by (simp add: isspace_def)
  then show ?thesis using assms d(2,3)[OF hd] print_nat_chars(1)
    by (simp add: scan_int_def print_int_def sp takeWhile_print scan_print_nat Let_def del: dropWhile_eq_Nil_conv)
qed

lemma StringToInt_print: "StringToInt env (print_int (sint v)) = v"
proof -
  have "- (2 ^ 31) \<le> sint v" "sint v \<le> 2 ^ 31 - 1" using sint_ge[of v] sint_lt[of v] by simp_all
  then show ?thesis by (simp add: StringToInt_def scan_print_int)
qed

lemma QueryHelper_StringToLong_print: "QueryHelper_StringToLong env (print_int (sint v)) = v"
proof -
  have "- (2 ^ 63) \<le> sint v" "sint v \<le> 2 ^ 63 - 1" using sint_ge[of v] sint_lt[of v] by simp_all
  then show ?thesis by (simp add: QueryHelper_StringToLong_def scan_print_int)
qed

lemma print_int_not_end: "print_int i \<noteq> END_IN"
proof -
  have "\<not> isdigit (CHR ''^'')" by (simp add: isdigit_def)
  then have "CHR ''^'' \<notin> set (print_int i)" using print_nat_chars(2) by (auto simp: print_int_def list_all_iff)
  then show ?thesis by (auto simp: END_IN_def)
qed

lemma scan_list_end:
  assumes "\<And>v. v \<in> set vs \<Longrightarrow> f (g v) = v \<and> g v \<noteq> END_IN"
  shows "scan_list f (map g vs @ END_IN # rest) = (Some vs, length vs)"
  using assms by (induction vs) auto

lemma get_list_end:
  assumes "\<And>v. v \<in> set vs \<Longrightarrow> f (g v) = v \<and> g v \<noteq> END_IN"
  shows "get_list f (pre @ map g vs @ END_IN # rest) (length pre) = (vs, length pre + length vs)"
  using scan_list_end[of vs f g rest] assms by (simp add: get_list_def)

section \<open>The string is split into the words it was built from\<close>

definition spaced :: "string list \<Rightarrow> string" where
  "spaced ws = concat (map (\<lambda>w. CHR '' '' # w) ws)"

lemma spaced_simps [simp]: "spaced [] = []" "spaced (w # ws) = CHR '' '' # w @ spaced ws" "spaced (ws @ vs) = spaced ws @ spaced vs"
  by (simp_all add: spaced_def)

lemma split_word: "CHR '' '' \<notin> set w \<Longrightarrow> split_spaces acc (w @ s) = split_spaces (rev w @ acc) s"
  by (induction w arbitrary: acc) auto

lemma split_spaced:
  assumes "CHR '' '' \<notin> set w" "list_all is_word ws"
  shows "split_spaces [] (w @ spaced ws) = w # ws"
  using assms(2,1)
proof (induction ws arbitrary: w)
  case Nil
  then show ?case using split_word[of w "[]" "[]"] by simp
next
  case (Cons v ws)
  then show ?case using split_word[of w "[]" "CHR '' '' # v @ spaced ws"] by (simp add: is_word_def)
qed

lemma tokens_spaced:
  assumes "list_all is_word ws" "ws \<noteq> []"
  shows "tokens (dropWhile (\<lambda>c. c = CHR '' '') (spaced ws)) = ws"
proof -
  obtain w vs where ws: "ws = w # vs" using assms(2) by (cases ws) auto
  have w: "w \<noteq> []" "CHR '' '' \<notin> set w" "list_all is_word vs" using assms(1) by (auto simp: ws is_word_def)
  have "dropWhile (\<lambda>c. c = CHR '' '') (spaced ws) = w @ spaced vs" using w by (cases w) (auto simp: ws)
  moreover have "last ws \<noteq> []" using assms by (auto simp: list_all_iff is_word_def)
  ultimately show ?thesis using split_spaced[OF w(2,3)] by (simp add: tokens_def ws)
qed

section \<open>Calls\<close>

text \<open>The calls an application makes on a \<^verbatim>\<open>DataQuery\<close>.\<close>

datatype call =
    CEqualTo string query_value | CNotEqualTo string query_value
  | CGreaterThan string query_value | CLessThan string query_value
  | CGreaterThanOrEqualTo string query_value | CLessThanOrEqualTo string query_value
  | CIsNull string | CIsNotNull string | CIn string query_values | CNotIn string query_values
  | CLike string string | CUnlike string string | CAnd | COr | COrderByAsc string | COrderByDesc string
  | CLimit u32 u32 | CBeginGroup | CEndGroup | CKeyPrefix string | CDeviceId string
  | CSetSuggestIndex string | CInKeys "string list"

fun build :: "query_env \<Rightarrow> call \<Rightarrow> DataQuery \<Rightarrow> DataQuery" where
  "build env (CEqualTo f v) = EqualTo env f v"
| "build env (CNotEqualTo f v) = NotEqualTo env f v"
| "build env (CGreaterThan f v) = GreaterThan env f v"
| "build env (CLessThan f v) = LessThan env f v"
| "build env (CGreaterThanOrEqualTo f v) = GreaterThanOrEqualTo env f v"
| "build env (CLessThanOrEqualTo f v) = LessThanOrEqualTo env f v"
| "build env (CIsNull f) = IsNull f"
| "build env (CIsNotNull f) = IsNotNull f"
| "build env (CIn f vs) = DataQuery_In env f vs"
| "build env (CNotIn f vs) = NotIn env f vs"
| "build env (CLike f v) = Like f v"
| "build env (CUnlike f v) = Unlike f v"
| "build env CAnd = DataQuery_And"
| "build env COr = DataQuery_Or"
| "build env (COrderByAsc f) = OrderByAsc f"
| "build env (COrderByDesc f) = OrderByDesc f"
| "build env (CLimit n m) = Limit env n m"
| "build env CBeginGroup = BeginGroup"
| "build env CEndGroup = EndGroup"
| "build env (CKeyPrefix p) = KeyPrefix p"
| "build env (CDeviceId d) = DeviceId d"
| "build env (CSetSuggestIndex i) = SetSuggestIndex i"
| "build env (CInKeys ks) = InKeys ks"

text \<open>The words a call adds, and whether it is accepted at all.\<close>

fun value_words :: "query_env \<Rightarrow> query_value \<Rightarrow> string list" where
  "value_words env (VInt v) = [TYPE_INTEGER, print_int (sint v)]"
| "value_words env (VLong v) = [TYPE_LONG, print_int (sint v)]"
| "value_words env (VDouble v) = [TYPE_DOUBLE, printDouble env v]"
| "value_words env (VBool v) = [TYPE_BOOLEAN, if v then VALUE_TRUE else VALUE_FALSE]"
| "value_words env (VString v) = [TYPE_STRING, EscapeSpace v]"

fun values_words :: "query_env \<Rightarrow> query_values \<Rightarrow> string \<times> string list" where
  "values_words env (VInts vs) = (TYPE_INTEGER, map (\<lambda>v. print_int (sint v)) vs)"
| "values_words env (VLongs vs) = (TYPE_LONG, map (\<lambda>v. print_int (sint v)) vs)"
| "values_words env (VDoubles vs) = (TYPE_DOUBLE, map (printDouble env) vs)"
| "values_words env (VStrings vs) = (TYPE_STRING, map EscapeSpace vs)"

definition compare_words :: "query_env \<Rightarrow> string \<Rightarrow> string \<Rightarrow> query_value \<Rightarrow> string list" where
  "compare_words env keyword f v = [keyword, value_words env v ! 0, EscapeSpace f, value_words env v ! 1]"

definition in_words :: "query_env \<Rightarrow> string \<Rightarrow> string \<Rightarrow> query_values \<Rightarrow> string list" where
  "in_words env keyword f vs = [keyword, fst (values_words env vs), EscapeSpace f, START_IN] @ snd (values_words env vs) @ [END_IN]"

fun call_words :: "query_env \<Rightarrow> call \<Rightarrow> string list" where
  "call_words env (CEqualTo f v) = compare_words env EQUAL_TO f v"
| "call_words env (CNotEqualTo f v) = compare_words env NOT_EQUAL_TO f v"
| "call_words env (CGreaterThan f v) = compare_words env kw_GREATER_THAN f (promoted v)"
| "call_words env (CLessThan f v) = compare_words env kw_LESS_THAN f (promoted v)"
| "call_words env (CGreaterThanOrEqualTo f v) = compare_words env GREATER_THAN_OR_EQUAL_TO f (promoted v)"
| "call_words env (CLessThanOrEqualTo f v) = compare_words env LESS_THAN_OR_EQUAL_TO f (promoted v)"
| "call_words env (CIsNull f) = [kw_IS_NULL, EscapeSpace f]"
| "call_words env (CIsNotNull f) = [kw_IS_NOT_NULL, EscapeSpace f]"
| "call_words env (CIn f vs) = in_words env kw_IN f vs"
| "call_words env (CNotIn f vs) = in_words env kw_NOT_IN f vs"
| "call_words env (CLike f v) = [kw_LIKE, EscapeSpace f, EscapeSpace v]"
| "call_words env (CUnlike f v) = [kw_NOT_LIKE, EscapeSpace f, EscapeSpace v]"
| "call_words env CAnd = [kw_AND]"
| "call_words env COr = [kw_OR]"
| "call_words env (COrderByAsc f) = [ORDER_BY_ASC, EscapeSpace f]"
| "call_words env (COrderByDesc f) = [ORDER_BY_DESC, EscapeSpace f]"
| "call_words env (CLimit n m) = [kw_LIMIT, print_int (sint n), print_int (sint m)]"
| "call_words env CBeginGroup = [kw_BEGIN_GROUP]"
| "call_words env CEndGroup = [kw_END_GROUP]"
| "call_words env (CKeyPrefix p) = [KEY_PREFIX, EscapeSpace p]"
| "call_words env (CDeviceId d) = [DEVICE_ID, EscapeSpace d]"
| "call_words env (CSetSuggestIndex i) = [SUGGEST_INDEX, EscapeSpace i]"
| "call_words env (CInKeys ks) = [IN_KEYS, START_IN] @ map EscapeSpace (filter ValidateField ks) @ [END_IN]"

fun accepted :: "bool \<Rightarrow> call \<Rightarrow> bool" where
  "accepted inkeysFlag (CEqualTo f v) = ValidateField f"
| "accepted inkeysFlag (CNotEqualTo f v) = ValidateField f"
| "accepted inkeysFlag (CGreaterThan f v) = ValidateField f"
| "accepted inkeysFlag (CLessThan f v) = ValidateField f"
| "accepted inkeysFlag (CGreaterThanOrEqualTo f v) = ValidateField f"
| "accepted inkeysFlag (CLessThanOrEqualTo f v) = ValidateField f"
| "accepted inkeysFlag (CIsNull f) = ValidateField f"
| "accepted inkeysFlag (CIsNotNull f) = ValidateField f"
| "accepted inkeysFlag (CIn f vs) = ValidateField f"
| "accepted inkeysFlag (CNotIn f vs) = ValidateField f"
| "accepted inkeysFlag (CLike f v) = ValidateField f"
| "accepted inkeysFlag (CUnlike f v) = ValidateField f"
| "accepted inkeysFlag (COrderByAsc f) = ValidateField f"
| "accepted inkeysFlag (COrderByDesc f) = ValidateField f"
| "accepted inkeysFlag (CLimit n m) = (sint n \<ge> 0 \<and> sint m \<ge> 0)"
| "accepted inkeysFlag (CKeyPrefix p) = ValidateField p"
| "accepted inkeysFlag (CDeviceId d) = ValidateField d"
| "accepted inkeysFlag (CSetSuggestIndex i) = ValidateField i"
| "accepted inkeysFlag (CInKeys ks) = (ks \<noteq> [] \<and> \<not> inkeysFlag)"
| "accepted inkeysFlag _ = True"

fun is_inkeys :: "call \<Rightarrow> bool" where
  "is_inkeys (CInKeys ks) = True"
| "is_inkeys _ = False"

fun is_device :: "call \<Rightarrow> bool" where
  "is_device (CDeviceId d) = True"
| "is_device _ = False"

fun effective :: "bool \<Rightarrow> call list \<Rightarrow> call list" where
  "effective inkeysFlag [] = []"
| "effective inkeysFlag (c # cs) =
     (if accepted inkeysFlag c then c # effective (inkeysFlag \<or> is_inkeys c) cs else effective inkeysFlag cs)"

text \<open>The identifier of a device goes to the front of the string, the other words to its end.\<close>

definition arranged :: "call list \<Rightarrow> call list" where
  "arranged cs = rev (filter is_device cs) @ filter (\<lambda>c. \<not> is_device c) cs"

lemma append_value_words:
  "append_value env keyword f v dq = dq\<lparr>dq_str := dq_str dq @ spaced (compare_words env keyword f v)\<rparr>"
  by (cases v) (simp_all add: compare_words_def AppendCommon_def AppendCommonString_def AppendCommonBoolean_def append_str_def SPACE_def)

lemma spaced_values: "concat (concat (map (\<lambda>x. [g x, SPACE]) vs)) @ END_IN = tl (spaced (map g vs @ [END_IN]))"
proof (induction vs)
  case (Cons v vs)
  obtain t where t: "spaced (map g vs @ [END_IN]) = CHR '' '' # t" by (cases vs) simp_all
  then show ?case using Cons by (simp add: SPACE_def del: spaced_simps(3))
qed simp

lemma spaced_tl: "SPACE @ tl (spaced (map g vs @ [END_IN])) = spaced (map g vs @ [END_IN])"
  by (cases vs) (simp_all add: SPACE_def)

lemma append_list_words:
  "append_str ([SPACE, keyword, SPACE, fieldType, SPACE, EscapeSpace f, SPACE, START_IN, SPACE] @ concat (map (\<lambda>x. [g x, SPACE]) vs) @ [END_IN]) dq
    = dq\<lparr>dq_str := dq_str dq @ spaced ([keyword, fieldType, EscapeSpace f, START_IN] @ map g vs @ [END_IN])\<rparr>"
  using spaced_values[of g vs] spaced_tl[of g vs] by (simp add: append_str_def del: spaced_simps(3)) (simp add: SPACE_def)

lemma append_values_words:
  "append_values env keyword f vs dq = dq\<lparr>dq_str := dq_str dq @ spaced (in_words env keyword f vs)\<rparr>"
proof (cases vs)
  case (VInts x)
  then show ?thesis using append_list_words[of keyword TYPE_INTEGER f "\<lambda>v. print_int (sint v)" x dq]
    by (simp add: AppendCommonList_def in_words_def comp_def)
next
  case (VLongs x)
  then show ?thesis using append_list_words[of keyword TYPE_LONG f "\<lambda>v. print_int (sint v)" x dq]
    by (simp add: AppendCommonList_def in_words_def comp_def)
next
  case (VDoubles x)
  then show ?thesis using append_list_words[of keyword TYPE_DOUBLE f "printDouble env" x dq]
    by (simp add: AppendCommonList_def in_words_def comp_def)
next
  case (VStrings x)
  then show ?thesis using append_list_words[of keyword TYPE_STRING f EscapeSpace x dq]
    by (simp add: AppendCommonListString_def in_words_def)
qed

lemma append_keys_words:
  "append_str ([SPACE, IN_KEYS, SPACE, START_IN, SPACE] @ concat (map (\<lambda>key. if ValidateField key then [EscapeSpace key, SPACE] else []) ks) @ [END_IN]) dq
    = dq\<lparr>dq_str := dq_str dq @ spaced (call_words env (CInKeys ks))\<rparr>"
proof -
  have "concat (map (\<lambda>key. if ValidateField key then [EscapeSpace key, SPACE] else []) ks) = concat (map (\<lambda>key. [EscapeSpace key, SPACE]) (filter ValidateField ks))"
    by (induction ks) simp_all
  then show ?thesis using spaced_values[of EscapeSpace "filter ValidateField ks"] spaced_tl[of EscapeSpace "filter ValidateField ks"]
    by (simp add: append_str_def del: spaced_simps(3)) (simp add: SPACE_def)
qed

lemmas build_defs = EqualTo_def NotEqualTo_def GreaterThan_def LessThan_def GreaterThanOrEqualTo_def LessThanOrEqualTo_def
  IsNull_def IsNotNull_def DataQuery_In_def NotIn_def Like_def Unlike_def DataQuery_And_def DataQuery_Or_def OrderByAsc_def OrderByDesc_def
  Limit_def BeginGroup_def EndGroup_def KeyPrefix_def DeviceId_def SetSuggestIndex_def InKeys_def append_field_def AppendCommonString_untyped_def

lemma build_words:
  "build env c dq = (if \<not> accepted (dq_inkeysFlag dq) c then dq
     else dq\<lparr>dq_str := (if is_device c then spaced (call_words env c) @ dq_str dq else dq_str dq @ spaced (call_words env c)),
             dq_inkeysFlag := (dq_inkeysFlag dq \<or> is_inkeys c)\<rparr>)"
proof (cases c)
  case (CInKeys ks)
  then show ?thesis using append_keys_words[of ks "dq\<lparr>dq_inkeysFlag := True\<rparr>" env] by (cases dq) (simp add: InKeys_def del: call_words.simps)
qed (simp_all add: build_defs append_value_words append_values_words, simp_all add: append_str_def SPACE_def not_less)

lemma fold_build:
  "dq_str (fold (build env) cs dq) =
     spaced (concat (map (call_words env) (rev (filter is_device (effective (dq_inkeysFlag dq) cs))))) @ dq_str dq @
     spaced (concat (map (call_words env) (filter (\<lambda>c. \<not> is_device c) (effective (dq_inkeysFlag dq) cs))))"
proof (induction cs arbitrary: dq)
  case (Cons c cs)
  then show ?case by (simp add: build_words[of env c dq])
qed simp

lemma built_string:
  "dq_str (fold (build env) cs DataQuery_init) = spaced (concat (map (call_words env) (arranged (effective False cs))))"
  by (simp add: fold_build DataQuery_init_def arranged_def)

section \<open>A handler reads back the call\<close>

text \<open>
  What a call means for the query of the store. The prefix of the keys is that of the device followed by the
  one given.
\<close>

fun meant :: "query_env \<Rightarrow> call \<Rightarrow> QueryHelper \<Rightarrow> QueryHelper" where
  "meant env (CEqualTo f v) = change (Query_EqualTo env f v)"
| "meant env (CNotEqualTo f v) = change (Query_NotEqualTo env f v)"
| "meant env (CGreaterThan f v) = change (Query_GreaterThan env f (promoted v))"
| "meant env (CLessThan f v) = change (Query_LessThan env f (promoted v))"
| "meant env (CGreaterThanOrEqualTo f v) = change (Query_GreaterThanOrEqualTo env f (promoted v))"
| "meant env (CLessThanOrEqualTo f v) = change (Query_LessThanOrEqualTo env f (promoted v))"
| "meant env (CIsNull f) = change (Query_IsNull f)"
| "meant env (CIsNotNull f) = change (Query_IsNotNull f)"
| "meant env (CIn f vs) = change (Query_In env f vs)"
| "meant env (CNotIn f vs) = change (Query_NotIn env f vs)"
| "meant env (CLike f v) = change (Query_Like f v)"
| "meant env (CUnlike f v) = change (Query_NotLike f v)"
| "meant env CAnd = change Query_And"
| "meant env COr = change Query_Or"
| "meant env (COrderByAsc f) = change (Query_OrderBy env f True)"
| "meant env (COrderByDesc f) = change (Query_OrderBy env f False)"
| "meant env (CLimit n m) = change (Query_Limit env n m)"
| "meant env CBeginGroup = change Query_BeginGroup"
| "meant env CEndGroup = change Query_EndGroup"
| "meant env (CKeyPrefix p) = (\<lambda>h. change (Query_PrefixKey (bytes_of (qh_deviceId h @ p))) h)"
| "meant env (CDeviceId d) = (\<lambda>h. let h = h\<lparr>qh_deviceId := GetUuidByNodeId env d\<rparr>
     in if qh_hasPrefixKey h then h else change (Query_PrefixKey (bytes_of (qh_deviceId h))) h)"
| "meant env (CSetSuggestIndex i) = change (Query_SuggestIndex i)"
| "meant env (CInKeys ks) = change (Query_InKeys (bytes_of ` set (filter ValidateField ks)))"

text \<open>
  Of a \<^verbatim>\<open>double\<close> it is required that the stream reads back what it printed, which holds for numbers with at
  most six significant digits. Strings to compare with must not be empty.
\<close>

definition double_ok :: "query_env \<Rightarrow> u64 \<Rightarrow> bool" where
  "double_ok env d \<longleftrightarrow> is_word (printDouble env d) \<and> CHR ''^'' \<notin> set (printDouble env d) \<and> scanDouble env (printDouble env d) = d"

fun value_ok :: "query_env \<Rightarrow> query_value \<Rightarrow> bool" where
  "value_ok env (VDouble d) = double_ok env d"
| "value_ok env (VString s) = (s \<noteq> [])"
| "value_ok env _ = True"

fun call_ok :: "query_env \<Rightarrow> call \<Rightarrow> bool" where
  "call_ok env (CEqualTo f v) = value_ok env v"
| "call_ok env (CNotEqualTo f v) = value_ok env v"
| "call_ok env (CGreaterThan f v) = value_ok env v"
| "call_ok env (CLessThan f v) = value_ok env v"
| "call_ok env (CGreaterThanOrEqualTo f v) = value_ok env v"
| "call_ok env (CLessThanOrEqualTo f v) = value_ok env v"
| "call_ok env (CIn f vs) = list_all (value_ok env) (each_value vs)"
| "call_ok env (CNotIn f vs) = list_all (value_ok env) (each_value vs)"
| "call_ok env (CLike f v) = (v \<noteq> [])"
| "call_ok env (CUnlike f v) = (v \<noteq> [])"
| "call_ok env _ = True"

lemma Validate_not_empty: "ValidateField f \<Longrightarrow> f \<noteq> []"
  by (simp add: ValidateField_def)

lemma nth_words: "(pre @ ws) ! length pre = ws ! 0" "(pre @ ws) ! (length pre + n) = ws ! n" "(pre @ ws) ! Suc (length pre) = ws ! 1"
  "(pre @ ws) ! Suc (Suc (length pre)) = ws ! 2" "(pre @ ws) ! Suc (Suc (Suc (length pre))) = ws ! 3"
  by (simp_all add: nth_append)

lemma typed_value_words:
  assumes "value_ok env v" "(\<exists>x. v = VBool x) \<Longrightarrow> b"
  shows "typed_value env b (value_words env v ! 0) (value_words env v ! 1) = Some v"
  using assms by (cases v) (auto simp: typed_value_def TYPE_INTEGER_def TYPE_LONG_def TYPE_DOUBLE_def TYPE_BOOLEAN_def TYPE_STRING_def
      StringToInt_print QueryHelper_StringToLong_print StringToDouble_def double_ok_def StringToBoolean_def VALUE_TRUE_def VALUE_FALSE_def StringToString_EscapeSpace)

lemma handle_compare_words:
  assumes "f \<noteq> []" "value_ok env v" "(\<exists>x. v = VBool x) \<Longrightarrow> b"
  shows "handle_compare env b F (pre @ compare_words env k f v @ rest) (length pre) h = Some (length pre + 4, change (F f v) h)"
  using typed_value_words[OF assms(2,3)] StringToString_EscapeSpace[OF assms(1)]
  by (simp add: handle_compare_def compare_words_def nth_words)

lemma handle_field_words:
  assumes "f \<noteq> []"
  shows "handle_field F (pre @ [k, EscapeSpace f] @ rest) (length pre) h = Some (length pre + 2, change (F f) h)"
  using StringToString_EscapeSpace[OF assms] by (simp add: handle_field_def nth_words)

lemma handle_like_words:
  assumes "f \<noteq> []" "v \<noteq> []"
  shows "handle_like F (pre @ [k, EscapeSpace f, EscapeSpace v] @ rest) (length pre) h = Some (length pre + 3, change (F f v) h)"
  using StringToString_EscapeSpace[OF assms(1)] StringToString_EscapeSpace[OF assms(2)] by (simp add: handle_like_def nth_words)

lemma double_not_end: "double_ok env d \<Longrightarrow> scanDouble env (printDouble env d) = d \<and> printDouble env d \<noteq> END_IN"
  by (auto simp: double_ok_def END_IN_def)

lemma typed_values_words:
  assumes "list_all (value_ok env) (each_value vs)"
  shows "typed_values env (fst (values_words env vs)) (pre @ snd (values_words env vs) @ END_IN # rest) (length pre)
    = Some (vs, length pre + length (snd (values_words env vs)))"
proof -
  note t = typed_values_def TYPE_INTEGER_def TYPE_LONG_def TYPE_DOUBLE_def TYPE_STRING_def
  show ?thesis
  proof (cases vs)
    case (VInts x)
    then show ?thesis using get_list_end[of x "StringToInt env" "\<lambda>v. print_int (sint v)" pre rest]
      by (simp add: t GetIntegerList_def StringToInt_print print_int_not_end)
  next
    case (VLongs x)
    then show ?thesis using get_list_end[of x "QueryHelper_StringToLong env" "\<lambda>v. print_int (sint v)" pre rest]
      by (simp add: t GetLongList_def QueryHelper_StringToLong_print print_int_not_end)
  next
    case (VDoubles x)
    then show ?thesis using get_list_end[of x "StringToDouble env" "printDouble env" pre rest] assms double_not_end
      by (simp add: t GetDoubleList_def StringToDouble_def list_all_iff)
  next
    case (VStrings x)
    then show ?thesis using get_list_end[of x StringToString EscapeSpace pre rest] assms
      by (simp add: t GetStringList_def StringToString_EscapeSpace EscapeSpace_not_end list_all_iff)
  qed
qed

lemma handle_in_words:
  assumes "f \<noteq> []" "list_all (value_ok env) (each_value vs)"
  shows "handle_in env F (pre @ in_words env k f vs @ rest) (length pre) h = Some (length pre + length (in_words env k f vs), change (F f vs) h)"
proof -
  let ?pre = "pre @ [k, fst (values_words env vs), EscapeSpace f, START_IN]"
  have l: "length ?pre = length pre + 4" by simp
  have "typed_values env (fst (values_words env vs)) (pre @ in_words env k f vs @ rest) (length pre + 4) =
      Some (vs, length pre + 4 + length (snd (values_words env vs)))"
    using typed_values_words[OF assms(2), of ?pre rest] unfolding l by (simp add: in_words_def)
  then show ?thesis using StringToString_EscapeSpace[OF assms(1)]
    by (simp add: handle_in_def) (simp add: in_words_def nth_words)
qed

lemmas keyword_defs = EQUAL_TO_def NOT_EQUAL_TO_def kw_GREATER_THAN_def kw_LESS_THAN_def GREATER_THAN_OR_EQUAL_TO_def LESS_THAN_OR_EQUAL_TO_def
  kw_IS_NULL_def kw_IN_def kw_NOT_IN_def kw_LIKE_def kw_NOT_LIKE_def kw_AND_def kw_OR_def ORDER_BY_ASC_def ORDER_BY_DESC_def kw_LIMIT_def
  kw_BEGIN_GROUP_def kw_END_GROUP_def KEY_PREFIX_def DEVICE_ID_def kw_IS_NOT_NULL_def SUGGEST_INDEX_def IN_KEYS_def

text \<open>The handler chosen for a keyword.\<close>

lemma chosen:
  assumes "ws ! p = k"
  shows "k = EQUAL_TO \<Longrightarrow> handle_keyword env ws p h = HandleEqualTo env ws p h"
    "k = NOT_EQUAL_TO \<Longrightarrow> handle_keyword env ws p h = HandleNotEqualTo env ws p h"
    "k = kw_GREATER_THAN \<Longrightarrow> handle_keyword env ws p h = HandleGreaterThan env ws p h"
    "k = kw_LESS_THAN \<Longrightarrow> handle_keyword env ws p h = HandleLessThan env ws p h"
    "k = GREATER_THAN_OR_EQUAL_TO \<Longrightarrow> handle_keyword env ws p h = HandleGreaterThanOrEqualTo env ws p h"
    "k = LESS_THAN_OR_EQUAL_TO \<Longrightarrow> handle_keyword env ws p h = HandleLessThanOrEqualTo env ws p h"
    "k = kw_IS_NULL \<Longrightarrow> handle_keyword env ws p h = HandleIsNull ws p h"
    "k = kw_IN \<Longrightarrow> handle_keyword env ws p h = HandleIn env ws p h"
    "k = kw_NOT_IN \<Longrightarrow> handle_keyword env ws p h = HandleNotIn env ws p h"
    "k = kw_LIKE \<Longrightarrow> handle_keyword env ws p h = HandleLike ws p h"
    "k = kw_NOT_LIKE \<Longrightarrow> handle_keyword env ws p h = HandleNotLike ws p h"
    "k = kw_AND \<Longrightarrow> handle_keyword env ws p h = HandleAnd p h"
    "k = kw_OR \<Longrightarrow> handle_keyword env ws p h = HandleOr p h"
    "k = ORDER_BY_ASC \<Longrightarrow> handle_keyword env ws p h = HandleOrderByAsc env ws p h"
    "k = ORDER_BY_DESC \<Longrightarrow> handle_keyword env ws p h = HandleOrderByDesc env ws p h"
    "k = kw_LIMIT \<Longrightarrow> handle_keyword env ws p h = HandleLimit env ws p h"
    "k = kw_BEGIN_GROUP \<Longrightarrow> handle_keyword env ws p h = HandleBeginGroup p h"
    "k = kw_END_GROUP \<Longrightarrow> handle_keyword env ws p h = HandleEndGroup p h"
    "k = KEY_PREFIX \<Longrightarrow> handle_keyword env ws p h = HandleKeyPrefix ws p h"
    "k = kw_IS_NOT_NULL \<Longrightarrow> handle_keyword env ws p h = HandleIsNotNull ws p h"
    "k = DEVICE_ID \<Longrightarrow> handle_keyword env ws p h = HandleDeviceId env ws p h"
    "k = SUGGEST_INDEX \<Longrightarrow> handle_keyword env ws p h = HandleSetSuggestIndex ws p h"
    "k = IN_KEYS \<Longrightarrow> handle_keyword env ws p h = HandleInKeys ws p h"
  using assms by (simp_all add: handle_keyword_def Handle_def HandleExtra_def keyword_defs)

lemma first_word: "(pre @ call_words env c @ rest) ! length pre = call_words env c ! 0" if "call_words env c \<noteq> []"
  using that by (simp add: nth_append)

lemma handle_call:
  assumes "call_ok env c" "accepted inkeysFlag c"
  shows "handle_keyword env (pre @ call_words env c @ rest) (length pre) h = Some (length pre + length (call_words env c), meant env c h)"
proof -
  let ?ws = "pre @ call_words env c @ rest"
  have k: "?ws ! length pre = call_words env c ! 0" by (rule first_word) (cases c; simp add: compare_words_def in_words_def)
  note ch = chosen[OF k, of env h]
  have b: "\<not> (\<exists>x. promoted v = VBool x)" "value_ok env v \<Longrightarrow> value_ok env (promoted v)" for v by (cases v; simp)+
  show ?thesis
  proof (cases c)
    case (CEqualTo f v)
    then show ?thesis using assms ch(1) handle_compare_words[of f env v True] by (simp add: compare_words_def HandleEqualTo_def Validate_not_empty)
  next
    case (CNotEqualTo f v)
    then show ?thesis using assms ch(2) handle_compare_words[of f env v True] by (simp add: compare_words_def HandleNotEqualTo_def Validate_not_empty)
  next
    case (CGreaterThan f v)
    then show ?thesis using assms ch(3) handle_compare_words[of f env "promoted v" False] b[of v] by (simp add: compare_words_def HandleGreaterThan_def Validate_not_empty)
  next
    case (CLessThan f v)
    then show ?thesis using assms ch(4) handle_compare_words[of f env "promoted v" False] b[of v] by (simp add: compare_words_def HandleLessThan_def Validate_not_empty)
  next
    case (CGreaterThanOrEqualTo f v)
    then show ?thesis using assms ch(5) handle_compare_words[of f env "promoted v" False] b[of v] by (simp add: compare_words_def HandleGreaterThanOrEqualTo_def Validate_not_empty)
  next
    case (CLessThanOrEqualTo f v)
    then show ?thesis using assms ch(6) handle_compare_words[of f env "promoted v" False] b[of v] by (simp add: compare_words_def HandleLessThanOrEqualTo_def Validate_not_empty)
  next
    case (CIn f vs)
    then show ?thesis using assms ch(8) handle_in_words[of f env vs] by (simp add: HandleIn_def Validate_not_empty) (simp add: in_words_def)
  next
    case (CNotIn f vs)
    then show ?thesis using assms ch(9) handle_in_words[of f env vs] by (simp add: HandleNotIn_def Validate_not_empty) (simp add: in_words_def)
  next
    case (CLike f v)
    then show ?thesis using assms ch(10) handle_like_words[of f v] by (simp add: HandleLike_def Validate_not_empty)
  next
    case (CUnlike f v)
    then show ?thesis using assms ch(11) handle_like_words[of f v] by (simp add: HandleNotLike_def Validate_not_empty)
  next
    case (CInKeys ks)
    have "get_list StringToString ((pre @ [IN_KEYS, START_IN]) @ map EscapeSpace (filter ValidateField ks) @ END_IN # rest) (length (pre @ [IN_KEYS, START_IN]))
        = (filter ValidateField ks, length (pre @ [IN_KEYS, START_IN]) + length (filter ValidateField ks))"
      by (rule get_list_end) (auto simp: StringToString_EscapeSpace EscapeSpace_not_end Validate_not_empty)
    then show ?thesis using CInKeys ch(23) by (simp add: HandleInKeys_def GetStringList_def nth_words)
  qed (use assms ch handle_field_words in \<open>simp_all add: HandleIsNull_def HandleIsNotNull_def HandleAnd_def HandleOr_def HandleOrderByAsc_def HandleOrderByDesc_def
      HandleLimit_def HandleBeginGroup_def HandleEndGroup_def HandleKeyPrefix_def HandleDeviceId_def HandleSetSuggestIndex_def Validate_not_empty
      StringToString_EscapeSpace StringToInt_print nth_words Let_def\<close>)
qed

lemma handle_calls:
  assumes "list_all (\<lambda>c. call_ok env c \<and> (\<exists>b. accepted b c)) cs" "length cs \<le> n"
  shows "handle_keywords env (pre @ concat (map (call_words env) cs)) n (length pre) h = Some (fold (meant env) cs h)"
  using assms
proof (induction cs arbitrary: pre n h)
  case Nil
  then show ?case by (cases n) simp_all
next
  case (Cons c cs)
  obtain m where n: "n = Suc m" using Cons.prems(2) by (cases n) auto
  have "call_words env c \<noteq> []" by (cases c) (simp_all add: compare_words_def in_words_def)
  moreover obtain b where "call_ok env c" "accepted b c" using Cons.prems(1) by auto
  then have "handle_keyword env (pre @ call_words env c @ concat (map (call_words env) cs)) (length pre) h
      = Some (length pre + length (call_words env c), meant env c h)" by (rule handle_call)
  ultimately show ?case using Cons.IH[of m "pre @ call_words env c" "meant env c h"] Cons.prems by (simp add: n)
qed

lemma effective_accepted: "c \<in> set (effective b cs) \<Longrightarrow> c \<in> set cs \<and> (\<exists>b'. accepted b' c)"
  by (induction cs arbitrary: b) (auto split: if_splits)

lemma arranged_set [simp]: "set (arranged cs) = set cs" "length (arranged cs) = length cs"
  using sum_length_filter_compl[of is_device cs] by (auto simp: arranged_def)

lemma value_words_ok: "value_ok env v \<Longrightarrow> is_word (value_words env v ! 0) \<and> is_word (value_words env v ! 1)"
  by (cases v) (auto simp: TYPE_INTEGER_def TYPE_LONG_def TYPE_DOUBLE_def TYPE_BOOLEAN_def TYPE_STRING_def
      print_int_word EscapeSpace_word double_ok_def VALUE_TRUE_def VALUE_FALSE_def is_word_def[of "_ # _"])

lemma values_words_ok:
  "list_all (value_ok env) (each_value vs) \<Longrightarrow> is_word (fst (values_words env vs)) \<and> list_all is_word (snd (values_words env vs))"
  by (cases vs) (auto simp: TYPE_INTEGER_def TYPE_LONG_def TYPE_DOUBLE_def TYPE_STRING_def print_int_word EscapeSpace_word double_ok_def
      list_all_iff is_word_def[of "_ # _"])

lemma promoted_ok: "value_ok env v \<Longrightarrow> value_ok env (promoted v)"
  by (cases v) simp_all

lemma call_words_ok:
  assumes "call_ok env c"
  shows "list_all is_word (call_words env c)"
proof -
  have kw: "is_word (CHR ''^'' # k)" if "CHR '' '' \<notin> set k" for k using that by (simp add: is_word_def)
  show ?thesis
    using assms value_words_ok promoted_ok values_words_ok
    by (cases c) (auto simp: compare_words_def in_words_def keyword_defs START_IN_def END_IN_def kw EscapeSpace_word print_int_word list_all_iff)
qed

subsection \<open>The search for a prefix\<close>

lemma str_find_iff: "str_find pat s \<longleftrightarrow> sublist pat s"
proof
  assume "str_find pat s"
  then obtain n where "take (length pat) (drop n s) = pat" by (auto simp: str_find_def list_ex_iff)
  then have "s = take n s @ pat @ drop (length pat) (drop n s)" by (metis append_take_drop_id)
  then show "sublist pat s" by (metis sublist_appendI)
next
  assume "sublist pat s"
  then obtain u v where "s = u @ pat @ v" by (auto simp: sublist_def)
  then show "str_find pat s" by (auto simp: str_find_def list_ex_iff intro!: bexI[of _ "length u"])
qed

lemma prefix_word: "prefix pat (w @ CHR '' '' # s) \<Longrightarrow> CHR '' '' \<notin> set pat \<Longrightarrow> prefix pat w"
proof (induction w arbitrary: pat)
  case Nil
  then show ?case by (cases pat) auto
next
  case (Cons c w)
  then show ?case by (cases pat) auto
qed

lemma sublist_word:
  assumes "sublist pat (w @ CHR '' '' # s)" "CHR '' '' \<notin> set pat"
  shows "sublist pat w \<or> sublist pat s"
  using assms
proof (induction w)
  case Nil
  then show ?case by (cases pat) (auto simp: sublist_Cons_right)
next
  case (Cons c w)
  then show ?case using prefix_word[of pat "c # w" s] by (auto simp: sublist_Cons_right)
qed

lemma sublist_spaced:
  assumes "sublist pat (spaced ws)" "CHR '' '' \<notin> set pat" "pat \<noteq> []"
  shows "\<exists>w \<in> set ws. sublist pat w"
proof -
  have "sublist pat (w @ spaced ws) \<Longrightarrow> sublist pat w \<or> (\<exists>w \<in> set ws. sublist pat w)" for w
  proof (induction ws arbitrary: w)
    case (Cons v ws)
    then show ?case using sublist_word[of pat w "v @ spaced ws"] assms(2) by auto
  qed simp
  from this[of "[]"] show ?thesis using assms(1,3) by simp
qed

lemma prefix_plain:
  assumes "prefix k (concat (map esc s))" "set k \<inter> {CHR ''^'', CHR ''('', CHR '' ''} = {}"
  shows "prefix k s"
  using assms
proof (induction s arbitrary: k)
  case (Cons c s)
  then show ?case by (cases k) (auto simp: esc_def split: if_splits)
qed simp

lemma escaped_prefix:
  assumes "sublist ''^KEY_PREFIX'' (concat (map esc s))"
  shows "sublist '' KEY_PREFIX'' s"
  using assms
proof (induction s)
  case (Cons c s)
  have p: "prefix ''KEY_PREFIX'' (concat (map esc s)) \<Longrightarrow> prefix ''KEY_PREFIX'' s" by (rule prefix_plain) auto
  show ?case using Cons p by (auto simp: esc_def[of c] sublist_Cons_right split: if_splits)
qed simp

text \<open>The names and values of a call that the application chooses freely.\<close>

fun value_strings :: "query_value \<Rightarrow> string list" where
  "value_strings (VString s) = [s]"
| "value_strings _ = []"

fun call_strings :: "call \<Rightarrow> string list" where
  "call_strings (CEqualTo f v) = f # value_strings v"
| "call_strings (CNotEqualTo f v) = f # value_strings v"
| "call_strings (CGreaterThan f v) = f # value_strings v"
| "call_strings (CLessThan f v) = f # value_strings v"
| "call_strings (CGreaterThanOrEqualTo f v) = f # value_strings v"
| "call_strings (CLessThanOrEqualTo f v) = f # value_strings v"
| "call_strings (CIsNull f) = [f]"
| "call_strings (CIsNotNull f) = [f]"
| "call_strings (CIn f vs) = f # concat (map value_strings (each_value vs))"
| "call_strings (CNotIn f vs) = f # concat (map value_strings (each_value vs))"
| "call_strings (CLike f v) = [f, v]"
| "call_strings (CUnlike f v) = [f, v]"
| "call_strings (COrderByAsc f) = [f]"
| "call_strings (COrderByDesc f) = [f]"
| "call_strings (CKeyPrefix p) = [p]"
| "call_strings (CDeviceId d) = [d]"
| "call_strings (CSetSuggestIndex i) = [i]"
| "call_strings (CInKeys ks) = filter ValidateField ks"
| "call_strings _ = []"

fun is_prefix :: "call \<Rightarrow> bool" where
  "is_prefix (CKeyPrefix p) = True"
| "is_prefix _ = False"

definition clean :: "string \<Rightarrow> bool" where
  "clean w \<longleftrightarrow> \<not> sublist KEY_PREFIX w"

lemma clean_escaped:
  assumes "s \<noteq> []" "\<not> str_find '' KEY_PREFIX'' s"
  shows "clean (EscapeSpace s)"
  using assms escaped_prefix[of s] by (auto simp: clean_def EscapeSpace_eq KEY_PREFIX_def str_find_iff)

lemma clean_chars: "CHR ''^'' \<notin> set w \<Longrightarrow> clean w"
  using set_mono_sublist[of KEY_PREFIX w] by (auto simp: clean_def KEY_PREFIX_def)

lemma clean_number: "clean (print_int i)"
proof (rule clean_chars)
  have "\<not> isdigit (CHR ''^'')" by (simp add: isdigit_def)
  then show "CHR ''^'' \<notin> set (print_int i)" using print_nat_chars(2) by (auto simp: print_int_def list_all_iff)
qed

lemma clean_double: "double_ok env d \<Longrightarrow> clean (printDouble env d)"
  by (rule clean_chars) (simp add: double_ok_def)

lemma clean_value:
  assumes "value_ok env v" "list_all (\<lambda>s. \<not> str_find '' KEY_PREFIX'' s) (value_strings v)"
  shows "clean (value_words env v ! 0) \<and> clean (value_words env v ! 1)"
  using assms clean_escaped clean_number clean_double
  by (cases v) (auto intro!: clean_chars simp: TYPE_INTEGER_def TYPE_LONG_def TYPE_DOUBLE_def TYPE_BOOLEAN_def TYPE_STRING_def VALUE_TRUE_def VALUE_FALSE_def)

lemma clean_values:
  assumes "list_all (value_ok env) (each_value vs)" "list_all (\<lambda>s. \<not> str_find '' KEY_PREFIX'' s) (concat (map value_strings (each_value vs)))"
  shows "clean (fst (values_words env vs))" "list_all clean (snd (values_words env vs))"
proof -
  show "clean (fst (values_words env vs))"
    by (cases vs) (auto intro!: clean_chars simp: TYPE_INTEGER_def TYPE_LONG_def TYPE_DOUBLE_def TYPE_STRING_def)
  show "list_all clean (snd (values_words env vs))"
    using assms clean_escaped clean_number clean_double by (cases vs) (auto simp: list_all_iff)
qed

lemma clean_keywords [simp]:
  "clean EQUAL_TO" "clean NOT_EQUAL_TO" "clean kw_GREATER_THAN" "clean kw_LESS_THAN"
  "clean GREATER_THAN_OR_EQUAL_TO" "clean LESS_THAN_OR_EQUAL_TO" "clean kw_IS_NULL"
  "clean kw_IN" "clean kw_NOT_IN" "clean kw_LIKE" "clean kw_NOT_LIKE"
  "clean kw_AND" "clean kw_OR" "clean ORDER_BY_ASC" "clean ORDER_BY_DESC"
  "clean kw_LIMIT" "clean kw_BEGIN_GROUP" "clean kw_END_GROUP" "clean DEVICE_ID"
  "clean kw_IS_NOT_NULL" "clean SUGGEST_INDEX" "clean IN_KEYS" "clean START_IN"
  "clean END_IN"
  by (simp_all add: clean_def keyword_defs START_IN_def END_IN_def sublist_Cons_right)

lemma clean_compare:
  assumes "clean k" "ValidateField f" "\<not> str_find '' KEY_PREFIX'' f" "value_ok env v" "list_all (\<lambda>s. \<not> str_find '' KEY_PREFIX'' s) (value_strings v)"
  shows "list_all clean (compare_words env k f v)"
  using assms clean_value[OF assms(4,5)] clean_escaped[OF Validate_not_empty] by (simp add: compare_words_def)

lemma clean_in:
  assumes "clean k" "ValidateField f" "\<not> str_find '' KEY_PREFIX'' f" "list_all (value_ok env) (each_value vs)"
    "list_all (\<lambda>s. \<not> str_find '' KEY_PREFIX'' s) (concat (map value_strings (each_value vs)))"
  shows "list_all clean (in_words env k f vs)"
  using assms clean_values[OF assms(4,5)] clean_escaped[OF Validate_not_empty] by (simp add: in_words_def)

lemma promoted_strings: "value_strings (promoted v) = value_strings v"
  by (cases v) simp_all

lemma clean_keys: "list_all (\<lambda>s. \<not> str_find '' KEY_PREFIX'' s) (filter ValidateField ks) \<Longrightarrow> list_all clean (map EscapeSpace (filter ValidateField ks))"
  by (auto simp: list_all_iff intro!: clean_escaped Validate_not_empty)

lemma clean_call:
  assumes "call_ok env c" "accepted b c" "\<not> is_prefix c" "list_all (\<lambda>s. \<not> str_find '' KEY_PREFIX'' s) (call_strings c)"
  shows "list_all clean (call_words env c)"
  using assms clean_escaped[OF Validate_not_empty] clean_escaped
  by (cases c) (simp_all add: clean_compare clean_in clean_number clean_keys promoted_ok promoted_strings)

section \<open>The whole way\<close>

definition helper :: "bool \<Rightarrow> QueryHelper" where
  "helper p = \<lparr>qh_deviceId = [], qh_hasPrefixKey = p, qh_dbQuery = Select\<rparr>"

lemma parse_built:
  assumes "length (dq_str (fold (build env) cs DataQuery_init)) \<le> MAX_QUERY_LENGTH"
    "length (effective False cs) \<le> MAX_QUERY_COMPLEXITY + 1" "list_all (call_ok env) cs"
  shows "StringToDbQuery env (ToString (fold (build env) cs DataQuery_init)) =
    (qh_dbQuery (fold (meant env) (arranged (effective False cs)) (helper (str_find KEY_PREFIX (dq_str (fold (build env) cs DataQuery_init))))), True)"
proof -
  let ?cs = "arranged (effective False cs)"
  let ?ws = "concat (map (call_words env) ?cs)"
  have ok: "list_all (\<lambda>c. call_ok env c \<and> (\<exists>b. accepted b c)) ?cs" using assms(3) effective_accepted by (auto simp: list_all_iff)
  have w: "list_all is_word ?ws" using ok call_words_ok by (auto simp: list_all_iff)
  have st: "ToString (fold (build env) cs DataQuery_init) = spaced ?ws" "dq_str (fold (build env) cs DataQuery_init) = spaced ?ws"
    using assms(1) by (simp_all add: ToString_def built_string)
  have h: "handle_keywords env ?ws (MAX_QUERY_COMPLEXITY + 1) 0 h = Some (fold (meant env) ?cs h)" for h
    using handle_calls[OF ok, of "MAX_QUERY_COMPLEXITY + 1" "[]" h] assms(2) by simp
  show ?thesis
  proof (cases "?ws = []")
    case True
    have "call_words env c \<noteq> []" for c by (cases c) (simp_all add: compare_words_def in_words_def)
    then have "?cs = []" using True by (cases ?cs) simp_all
    then show ?thesis unfolding st by (simp add: StringToDbQuery_def helper_def)
  next
    case False
    then have "spaced ?ws \<noteq> []" by (cases ?ws) simp_all
    then show ?thesis using tokens_spaced[OF w False] h assms(1) unfolding st
      by (simp add: StringToDbQuery_def helper_def Let_def del: handle_keywords.simps)
  qed
qed

lemma sublist_spaced_mem:
  assumes "w \<in> set ws"
  shows "sublist w (spaced ws)"
proof -
  obtain us vs where "ws = us @ w # vs" using split_list[OF assms] by blast
  then have "spaced ws = (spaced us @ '' '') @ w @ spaced vs" by simp
  then show ?thesis using sublist_appendI by metis
qed

lemma prefix_found:
  assumes "list_all (call_ok env) cs" "list_all (\<lambda>s. \<not> str_find '' KEY_PREFIX'' s) (concat (map call_strings cs))"
  shows "str_find KEY_PREFIX (dq_str (fold (build env) cs DataQuery_init)) \<longleftrightarrow> list_ex is_prefix (effective False cs)"
proof
  assume "list_ex is_prefix (effective False cs)"
  then obtain c where "c \<in> set (arranged (effective False cs))" "is_prefix c" by (auto simp: list_ex_iff)
  then have "KEY_PREFIX \<in> set (concat (map (call_words env) (arranged (effective False cs))))"
    by (auto intro!: bexI[of _ c]) (cases c; simp)
  then have "sublist KEY_PREFIX (spaced (concat (map (call_words env) (arranged (effective False cs)))))"
    by (rule sublist_spaced_mem)
  then show "str_find KEY_PREFIX (dq_str (fold (build env) cs DataQuery_init))" by (simp add: str_find_iff built_string)
next
  assume "str_find KEY_PREFIX (dq_str (fold (build env) cs DataQuery_init))"
  then have "\<exists>w \<in> set (concat (map (call_words env) (arranged (effective False cs)))). sublist KEY_PREFIX w"
    unfolding str_find_iff built_string by (rule sublist_spaced) (simp_all add: KEY_PREFIX_def)
  then obtain c w where c: "c \<in> set (effective False cs)" "w \<in> set (call_words env c)" "\<not> clean w" by (auto simp: clean_def)
  obtain b where a: "c \<in> set cs" "accepted b c" using effective_accepted[OF c(1)] by blast
  have "is_prefix c" using clean_call[of env c b] a assms c(2,3) by (auto simp: list_all_iff)
  then show "list_ex is_prefix (effective False cs)" using c(1) by (auto simp: list_ex_iff)
qed

text \<open>The query that an application means by its calls.\<close>

definition query_meant :: "query_env \<Rightarrow> call list \<Rightarrow> QueryExpression" where
  "query_meant env cs =
     qh_dbQuery (fold (meant env) (arranged (effective False cs)) (helper (list_ex is_prefix (effective False cs))))"

text \<open>
  C8. The data service understands the query of an application: whatever conditions, orders, limits, groups,
  prefixes, keys and device the application asks for, the string it sends is parsed to the query that the same
  calls make directly on a query of the store, the identifier of the device first; calls with an invalid
  argument have no effect on either side. This holds for a string within the length limit and at most 501
  calls; names and values may have any characters, the separators and escapes of the string included, but
  strings to compare with must not be empty, no name or value may contain a space followed by
  \<^verbatim>\<open>KEY_PREFIX\<close>, and a \<^verbatim>\<open>double\<close> must be one that the streams of C++ read back as it was printed.
\<close>

theorem query_understood:
  assumes "dq = fold (build env) cs DataQuery_init" "length (dq_str dq) \<le> MAX_QUERY_LENGTH"
    "length (effective False cs) \<le> MAX_QUERY_COMPLEXITY + 1" "list_all (call_ok env) cs"
    "list_all (\<lambda>s. \<not> str_find '' KEY_PREFIX'' s) (concat (map call_strings cs))"
  shows "StringToDbQuery env (ToString dq) = (query_meant env cs, True)"
  using parse_built[of env cs] prefix_found[OF assms(4,5)] assms(1-4) by (simp add: query_meant_def)

text \<open>A query with a condition, a prefix and a device.\<close>

definition demo_query_env :: query_env where
  "demo_query_env = \<lparr>bigEndian = False, printDouble = \<lambda>d. print_int (uint d), scanDouble = \<lambda>s. of_nat (scan_nat s), uninitInt = 0,
     uninitType = 0, GetUuidByNodeId = \<lambda>d. d @ ''#''\<rparr>"

definition demo_calls :: "call list" where
  "demo_calls = [CEqualTo ''name'' (VString ''a b^c''), CAnd, CGreaterThan ''n'' (VInt (- 7)), COr, CIn ''x'' (VDoubles [5]),
     CKeyPrefix ''k'', CDeviceId ''dev'']"

lemma demo_calls_ok:
  "length (dq_str (fold (build demo_query_env) demo_calls DataQuery_init)) \<le> MAX_QUERY_LENGTH"
  "length (effective False demo_calls) \<le> MAX_QUERY_COMPLEXITY + 1" "list_all (call_ok demo_query_env) demo_calls"
  "list_all (\<lambda>s. \<not> str_find '' KEY_PREFIX'' s) (concat (map call_strings demo_calls))"
  by code_simp+

theorem query_understood_witness:
  "StringToDbQuery demo_query_env (ToString (fold (build demo_query_env) demo_calls DataQuery_init)) = (query_meant demo_query_env demo_calls, True)"
  by (rule query_understood[OF refl demo_calls_ok])

section \<open>What goes wrong\<close>

text \<open>
  The word for the empty string is escaped like any other text, and the service takes it for the text
  itself: a comparison with the empty string becomes one with \<open>^EMPTY_STRING\<close>.
\<close>

theorem empty_string_mangled:
  "StringToDbQuery env (ToString (EqualTo env ''name'' (VString []) DataQuery_init)) =
     (Query_EqualTo env ''name'' (VString ''^EMPTY_STRING'') Select, True)"
proof -
  have v: "ValidateField ''name''" by code_simp
  have q: "dq_str (EqualTo env ''name'' (VString []) DataQuery_init) = '' ^EQUAL STRING name (^)EMPTY_STRING''"
    by (simp add: EqualTo_def v AppendCommonString_def append_str_def DataQuery_init_def EscapeSpace_empty EscapeSpace_eq esc_def SPACE_def EQUAL_TO_def TYPE_STRING_def)
  let ?ws = "[''^EQUAL'', ''STRING'', ''name'', ''(^)EMPTY_STRING'']"
  have t: "tokens ''^EQUAL STRING name (^)EMPTY_STRING'' = ?ws" by code_simp
  have s: "StringToString ''name'' = ''name''" "StringToString ''(^)EMPTY_STRING'' = ''^EMPTY_STRING''" by code_simp+
  have "handle_keyword env ?ws 0 h = Some (4, change (Query_EqualTo env ''name'' (VString ''^EMPTY_STRING'')) h)" for h
    using chosen(1)[of ?ws 0 EQUAL_TO env h] s
    by (simp add: EQUAL_TO_def HandleEqualTo_def handle_compare_def typed_value_def TYPE_INTEGER_def TYPE_LONG_def TYPE_DOUBLE_def TYPE_BOOLEAN_def TYPE_STRING_def)
  then have "handle_keywords env ?ws (Suc (Suc n)) 0 h = Some (change (Query_EqualTo env ''name'' (VString ''^EMPTY_STRING'')) h)" for n h
    by simp
  from this[of "MAX_QUERY_COMPLEXITY - 1"] show ?thesis
    by (simp add: StringToDbQuery_def ToString_def q t MAX_QUERY_LENGTH_def MAX_QUERY_COMPLEXITY_def change_def Let_def del: handle_keywords.simps)
qed

text \<open>
  The service looks for the word for a prefix anywhere in the string. A value with a space before
  \<^verbatim>\<open>KEY_PREFIX\<close> contains it after the space has been escaped: the identifier of the device is then kept for a
  prefix that does not come, and the query is not restricted to the device.
\<close>

theorem device_lost:
  "qe_prefixKey (fst (StringToDbQuery env (ToString (EqualTo env ''name'' (VString ''a KEY_PREFIX'') (DeviceId ''dev'' DataQuery_init))))) = []"
proof -
  let ?cs = "[CDeviceId ''dev'', CEqualTo ''name'' (VString ''a KEY_PREFIX'')]"
  have v: "ValidateField ''name''" "ValidateField ''dev''" by code_simp+
  have q: "dq_str (fold (build env) ?cs DataQuery_init) = '' ^DEVICE_ID dev ^EQUAL STRING name a^^KEY_PREFIX''"
    by (simp add: EqualTo_def DeviceId_def v AppendCommonString_def append_str_def DataQuery_init_def EscapeSpace_eq esc_def SPACE_def DEVICE_ID_def EQUAL_TO_def TYPE_STRING_def)
  have p: "str_find KEY_PREFIX '' ^DEVICE_ID dev ^EQUAL STRING name a^^KEY_PREFIX''" by code_simp
  have a: "arranged (effective False ?cs) = ?cs" by (simp add: arranged_def v)
  have "StringToDbQuery env (ToString (fold (build env) ?cs DataQuery_init)) = (qh_dbQuery (fold (meant env) ?cs (helper True)), True)"
    using parse_built[of env ?cs] q p a by (simp add: v MAX_QUERY_LENGTH_def MAX_QUERY_COMPLEXITY_def)
  then show ?thesis
    by (simp add: helper_def change_def Query_EqualTo_def AssemblyQueryInfo_def add_node_def Select_def QueryExpression_init_def split: sum.splits)
qed

text \<open>A query that is too long is sent as the empty string, which stands for all entries.\<close>

theorem long_query_selects_all:
  assumes "length (dq_str dq) > MAX_QUERY_LENGTH"
  shows "StringToDbQuery env (ToString dq) = (Select, True)"
  using assms by (simp add: ToString_def StringToDbQuery_def)

end
