(* ===== verification/Spec2Isabelle.thy ===== *)
theory Spec2Isabelle
  imports Frame_Roundtrip Frame_Combiner Frame_Retention Send_Scheduling Store_Convergence Store_Connection Time_Helper Message_Schedule Subscribe_Manager Query_Helper
begin

text \<open>
  Verification of the distributed data manager of OpenHarmony. Paths are relative to
  \<^verbatim>\<open>src/services/distributeddataservice/libs/distributeddb\<close> unless they start with \<^verbatim>\<open>src/\<close>.

  \<^bold>\<open>The program.\<close> Devices hold replicas of key-value stores and synchronise them over a network. An application
  builds a query as a string with \<^verbatim>\<open>DataQuery\<close>, and the data service parses it into a \<^verbatim>\<open>Query\<close> of the store.
  A connection of a store writes entries with timestamps of the time helper into a table of SQLite, and
  tells observers what changed. The syncer sends the rows written since the last water mark to the other
  devices as packets, and saves what it receives, where the newer write to a key wins. A device may
  subscribe to a query of another one. The communicator frames the messages, schedules the frames, splits the
  long ones, and on the other side checks and combines the packets and retains frames that nobody can take yet.

  \<^bold>\<open>Common ground.\<close> \<open>DDB_Prelude\<close> has the machine types, the error codes of \<^verbatim>\<open>common/include/db_errno.h\<close> (without their sign),
  the allocator and \<^verbatim>\<open>memcpy_s\<close>; \<open>Software_Version\<close> the versions; \<open>Std_Map\<close> is \<^verbatim>\<open>std::map\<close> as a sorted association list,
  an interpretation of the locale \<open>ordered_map\<close>. \<open>Endian_Convert\<close> models \<^verbatim>\<open>common/include/endian_convert.h\<close> and \<^verbatim>\<open>common/src/hash.cpp\<close>
  for a host of either byte order, the parameter \<open>be\<close> of most operations; its locale \<open>struct_codec\<close> is the contract of a
  structure that is copied to memory and back, and is interpreted for the integers and for every header.

  \<^bold>\<open>Communicator\<close> (\<^verbatim>\<open>communicator/src\<close>).
  \<^item> \<open>Frame_Header\<close>: \<^verbatim>\<open>frame_header.h\<close> and \<^verbatim>\<open>header_converter.cpp\<close>, the layout of the headers and their network order.
  \<^item> \<open>Serial_Buffer\<close>: \<^verbatim>\<open>serial_buffer.cpp\<close>, a buffer that owns its memory or points into another.
  \<^item> \<open>Protocol_Proto\<close>: \<^verbatim>\<open>protocol_proto.cpp\<close>, messages, registered transform functions, the headers that are set and the checks
    on arrival. \<open>Frame_Roundtrip\<close> shows that what is built is parsed back, that a packet with one changed word is refused, and
    what a host of the other byte order does with a packet.
  \<^item> \<open>Fragmentation\<close>: the splitting of frames in the same file. The packets are accepted and, but for the last one, fit into the MTU.
  \<^item> \<open>Frame_Combiner\<close>: \<^verbatim>\<open>frame_combiner.cpp\<close> and \<^verbatim>\<open>combine_status.cpp\<close>. The packets of a frame in any order, between those of other
    sources, give the frame back.
  \<^item> \<open>Frame_Retainer\<close> and \<open>Frame_Retention\<close>: \<^verbatim>\<open>frame_retainer.cpp\<close> and its guarantees in every reachable state.
  \<^item> \<open>Send_Task_Scheduler\<close> and \<open>Send_Scheduling\<close>: \<^verbatim>\<open>send_task_scheduler.cpp\<close> and its refinement of queues per priority, stated
    through the locale \<open>task_source\<close>.

  \<^bold>\<open>Storage\<close> (\<^verbatim>\<open>storage/src\<close>).
  \<^item> \<open>Commit_Notify_Data\<close>: \<^verbatim>\<open>single_ver_natural_store_commit_notify_data.cpp\<close>, the record of a transaction.
  \<^item> \<open>Single_Ver_Storage\<close>: \<^verbatim>\<open>sqlite/sqlite_single_ver_storage_executor.cpp\<close>, how an item is judged against the row of its key and saved.
  \<^item> \<open>Single_Ver_Store\<close>: \<^verbatim>\<open>sqlite/sqlite_single_ver_natural_store.cpp\<close>, how a packet of items is saved in a transaction.
  \<^item> \<open>Store_Notification\<close>: the observers are told the net change of the table; a packet is saved as a whole or not at all.
  \<^item> \<open>Store_Convergence\<close>: the table as a map of last-write-wins registers, and the convergence of two devices.
  \<^item> \<open>Store_Connection\<close>: \<^verbatim>\<open>sqlite/sqlite_single_ver_natural_store_connection.cpp\<close>, the operations of an application and their transactions.
  \<^item> \<open>Meta_Store\<close>: the table of metadata.
  \<^item> \<open>Kv_Entry\<close>: \<^verbatim>\<open>generic_single_ver_kv_entry.cpp\<close> and \<^verbatim>\<open>common/src/data_compression.cpp\<close>, the encoding of entries.
  \<^item> \<open>Query_Sync_Object\<close>: \<^verbatim>\<open>sqlite/query_sync_object.cpp\<close>, the encoding and the identity of a query.

  \<^bold>\<open>Syncer\<close> (\<^verbatim>\<open>syncer/src\<close>).
  \<^item> \<open>Parcel\<close>: \<^verbatim>\<open>common/src/parcel.cpp\<close>, the reader and writer of every packet, with the locale \<open>parcel_item\<close> for a kind of value; no
    access leaves the buffer and what is written is read back. \<open>Parcel_Codec\<close> lifts this to lists of fields, with the
    locale \<open>codec\<close> for a structure.
  \<^item> \<open>Sync_Packet\<close>: \<^verbatim>\<open>single_ver_data_packet.cpp\<close> and \<^verbatim>\<open>single_ver_serialize_manager.cpp\<close>, the packets and their serialisation. The
    statements on delivery are about \<^verbatim>\<open>ToSerialBuffer\<close> and \<^verbatim>\<open>ToMessage\<close> on one buffer.
  \<^item> \<open>Message_Schedule\<close>: \<^verbatim>\<open>single_ver_data_message_schedule.cpp\<close> and the loop \<^verbatim>\<open>ScheduleMsgAndHandle\<close> of \<^verbatim>\<open>single_ver_sync_state_machine.cpp\<close>. The threads
    that run the loop are the relation \<open>step\<close>, one step per lock, for any version of the peer; the invariants of the
    locale \<open>preserved\<close> are shown for a peer that is known to have version 103 or a later one.
  \<^item> \<open>Subscribe_Manager\<close>: \<^verbatim>\<open>subscribe_manager.cpp\<close>, a refinement of plain tables of subscriptions.
  \<^item> \<open>Water_Mark\<close>: \<^verbatim>\<open>query_sync_water_mark_helper.cpp\<close>. The marks survive evictions and restarts, and the cache refines a history of uses.
  \<^item> \<open>Meta_Data\<close>: \<^verbatim>\<open>meta_data.cpp\<close>, what is remembered of other devices, over restarts.
  \<^item> \<open>Time_Helper\<close>: \<^verbatim>\<open>time_helper.cpp\<close>. Timestamps increase strictly, and a local write wins over what was there before.

  \<^bold>\<open>Queries.\<close>
  \<^item> \<open>Query_Expression\<close>: \<^verbatim>\<open>include/query.h\<close>, \<^verbatim>\<open>common/src/query.cpp\<close>, \<^verbatim>\<open>common/src/query_expression.cpp\<close> and the field paths of \<^verbatim>\<open>common/src/schema_utils.cpp\<close>.
  \<^item> \<open>Data_Query\<close>: \<^verbatim>\<open>src/frameworks/innerkitsimpl/distributeddatafwk/src/data_query.cpp\<close>, the builder.
  \<^item> \<open>Query_Helper\<close>: \<^verbatim>\<open>src/services/distributeddataservice/app/src/query_helper.cpp\<close>, the parser. The string built by any calls is parsed to the
    query meant by them.

  \<^bold>\<open>Correspondence.\<close> A class is a record whose fields carry a prefix of the class and the name of the member, an
  operation a function of the same name that takes and returns the state; a suffix or the name of the class in front
  tells apart overloads and equal names. Every error is a value, of \<open>errno\<close> or of \<open>'a res\<close>, and every early return is a branch.
  Pointers into buffers are offsets, and an access out of bounds is an error of the model. Integers that may wrap are
  words. Operations that hold one lock from beginning to end are atomic; runs of a component are sequences of
  operations or an inductive relation, and its invariants are proved over them.

  \<^bold>\<open>Parameters.\<close> What is not in the repository is an argument: the answers of SQLite (\<open>sqlite_env\<close>, \<open>conn_env\<close>, \<open>meta_env\<close>, where an operation may
  fail with any code and reads and writes are those of the table if it does not), the hash of the keys, zlib, the system
  clock, the allocator, \<^verbatim>\<open>std::nth_element\<close>, the printing and reading of a \<^verbatim>\<open>double\<close>, the translation of device identifiers and the values of variables
  that are not initialised. Where a statement needs more of them, its hypotheses say so (\<open>hash_inj\<close>, \<open>zlib_sound\<close>, \<open>reliable\<close>,
  \<open>sqlite_codes\<close>), and a witness instantiates them.

  \<^bold>\<open>Loops and fuel.\<close> Most loops are structural recursions over the data they run through. \<open>ScheduleLoop\<close> has fuel, as it runs as long as
  messages arrive; the theorem on reordered sessions shows that one iteration more than the session has messages is enough. \<open>handle_keywords\<close>
  counts the keywords that the code still accepts, and it is shown that the loop of \<^verbatim>\<open>Finalize\<close> ends.

  \<^bold>\<open>Not modelled.\<close> SQLite and its statements, the relational and the multi-version store, the cache database and migration, the
  local store, schemas and JSON, the translation of queries to SQL, the objects that own threads and timers (aggregator, sync engine, state
  machines, event loop, task pool), files, the delegates, and the stubs and proxies between processes: they call the operating
  system or other services, or forward to the parts above.
\<close>

end
